(* ===== verification/Prelude.thy ===== *)
theory Prelude
  imports Complex_Main "HOL-Library.Product_Lexorder" "HOL-Library.Multiset"
begin

text \<open>
  Shared vocabulary of the development: row identifiers, instants, JSON blobs, the errors the
  services raise, the relational operations the services use on their tables, and the generic
  lemmas on them.

  A row identifier is a ULID, a 26 character string that the code only compares for equality and
  in lexicographic order; \<open>ulid\<close> is its position in that order, and \<open>blank\<close> is the empty string,
  which is below every ULID and which the code uses for ``no row''. An instant is a
  timezone aware datetime as microseconds since the epoch.

  A table is the list of its rows. \<open>update_where\<close>, \<open>delete_where\<close> and \<open>count_where\<close> are one
  SQL statement each (\<open>filter(...).update(...)\<close>, \<open>.delete()\<close>, \<open>.count()\<close>), and
  \<open>insert_ignore\<close> is \<open>bulk_create(rows, ignore_conflicts=True)\<close> under a unique
  constraint on \<open>key\<close>. \<open>batched\<close> is \<open>itertools.batched\<close>. The audit columns
  \<open>created_at\<close> and \<open>updated_at\<close>, which no operation reads back, are left out of every row.
\<close>

type_synonym ulid = nat
type_synonym instant = int

abbreviation (input) blank :: ulid where "blank \<equiv> 0"

definition seconds :: "int \<Rightarrow> int" where
  "seconds n = n * 1000000"

datatype json =
    JNull
  | JBool bool
  | JNum int
  | JFloat rat
  | JStr string
  | JArr "json list"
  | JObj "(string \<times> json) list"

text \<open>Python's truth value of a JSON value.\<close>

fun json_truthy :: "json \<Rightarrow> bool" where
  "json_truthy JNull = False"
| "json_truthy (JBool b) = b"
| "json_truthy (JNum n) = (n \<noteq> 0)"
| "json_truthy (JFloat x) = (x \<noteq> 0)"
| "json_truthy (JStr s) = (s \<noteq> [])"
| "json_truthy (JArr xs) = (xs \<noteq> [])"
| "json_truthy (JObj kvs) = (kvs \<noteq> [])"

type_synonym blob = "(string \<times> json) list"

datatype exn =
    ValueError
  | TypeError
  | KeyError
  | OverflowError
  | RuntimeError
  | ValidationError
  | DoesNotExist
  | PolicyError
  | ConcurrentChainError
  | ConcurrentSetSourcesError
  | HTTPError
  | ConnectionError
  | ConnectorParseError
  | AttributeError
  | DatabaseError
  | IntegrityError
  | NotImplementedError
  | ImplError
  | OSError
  | UnicodeError
  | SsrfBlocked
  | InvalidURL
  | JSONDecodeError
  | AssertionError
  | UnhydrateablePayload
  | EngineRequestRejected
  | EngineError

named_theorems table_simps \<open>how the table operations act on rows, keys and counts\<close>
named_theorems frame_simps \<open>what an operation leaves alone\<close>

subsection \<open>Tables\<close>

definition update_where :: "('r \<Rightarrow> bool) \<Rightarrow> ('r \<Rightarrow> 'r) \<Rightarrow> 'r list \<Rightarrow> 'r list" where
  "update_where P f rows = map (\<lambda>r. if P r then f r else r) rows"

definition delete_where :: "('r \<Rightarrow> bool) \<Rightarrow> 'r list \<Rightarrow> 'r list" where
  "delete_where P rows = filter (\<lambda>r. \<not> P r) rows"

definition count_where :: "('r \<Rightarrow> bool) \<Rightarrow> 'r list \<Rightarrow> nat" where
  "count_where P rows = length (filter P rows)"

fun insert_ignore :: "('r \<Rightarrow> 'k) \<Rightarrow> 'r list \<Rightarrow> 'r list \<Rightarrow> 'r list" where
  "insert_ignore key [] rows = rows"
| "insert_ignore key (x # xs) rows =
     insert_ignore key xs (if key x \<in> key ` set rows then rows else rows @ [x])"

function batched :: "nat \<Rightarrow> 'a list \<Rightarrow> 'a list list" where
  "batched n xs = (if n = 0 \<or> xs = [] then [] else take n xs # batched n (drop n xs))"
  by pat_completeness auto
termination
  by (relation "measure (\<lambda>(n, xs). length xs)") auto

declare batched.simps [simp del]

lemma update_where_Nil [simp]: "update_where P f [] = []"
  by (simp add: update_where_def)

lemma update_where_Cons [simp]:
  "update_where P f (r # rows) = (if P r then f r else r) # update_where P f rows"
  by (simp add: update_where_def)

lemma count_where_Nil [simp]: "count_where P [] = 0"
  by (simp add: count_where_def)

lemma count_where_Cons [simp]:
  "count_where P (r # rows) = (if P r then 1 else 0) + count_where P rows"
  by (simp add: count_where_def)

lemma delete_where_Nil [simp]: "delete_where P [] = []"
  by (simp add: delete_where_def)

lemma delete_where_Cons [simp]:
  "delete_where P (r # rows) = (if P r then delete_where P rows else r # delete_where P rows)"
  by (simp add: delete_where_def)

lemma set_update_where [table_simps]:
  "set (update_where P f rows) = {r \<in> set rows. \<not> P r} \<union> f ` {r \<in> set rows. P r}"
  by (auto simp: update_where_def)

lemma set_delete_where [table_simps]: "set (delete_where P rows) = {r \<in> set rows. \<not> P r}"
  by (auto simp: delete_where_def)

lemma in_update_where: "r' \<in> set (update_where P f rows) \<longleftrightarrow>
    (\<exists>r \<in> set rows. r' = (if P r then f r else r))"
  by (auto simp: update_where_def)

lemma length_update_where [table_simps]: "length (update_where P f rows) = length rows"
  by (simp add: update_where_def)

lemma update_where_never [table_simps]: "(\<And>r. r \<in> set rows \<Longrightarrow> \<not> P r) \<Longrightarrow> update_where P f rows = rows"
  by (simp add: update_where_def map_idI)

lemma delete_where_never [table_simps]: "(\<And>r. r \<in> set rows \<Longrightarrow> \<not> P r) \<Longrightarrow> delete_where P rows = rows"
  by (simp add: delete_where_def)

lemma count_where_0 [table_simps]: "count_where P rows = 0 \<longleftrightarrow> (\<forall>r \<in> set rows. \<not> P r)"
  by (induction rows) auto

lemma count_where_cong:
  "(\<And>r. r \<in> set rows \<Longrightarrow> P r = Q r) \<Longrightarrow> count_where P rows = count_where Q rows"
  by (induction rows) auto

lemma count_where_append [table_simps]:
  "count_where P (xs @ ys) = count_where P xs + count_where P ys"
  by (simp add: count_where_def)

lemma length_delete_where [table_simps]: "length (delete_where P rows) + count_where P rows = length rows"
  by (induction rows) auto

lemma map_key_update_where [table_simps]:
  "(\<And>r. r \<in> set rows \<Longrightarrow> P r \<Longrightarrow> key (f r) = key r) \<Longrightarrow> map key (update_where P f rows) = map key rows"
  by (induction rows) auto

lemma count_where_update_same:
  "(\<And>r. r \<in> set rows \<Longrightarrow> P r \<Longrightarrow> Q (f r) = Q r) \<Longrightarrow> count_where Q (update_where P f rows) = count_where Q rows"
  by (induction rows) auto

lemma filter_update_same:
  "(\<And>r. r \<in> set rows \<Longrightarrow> P r \<Longrightarrow> \<not> Q r \<and> \<not> Q (f r)) \<Longrightarrow> filter Q (update_where P f rows) = filter Q rows"
  by (induction rows) auto

subsection \<open>Insertion under a unique constraint\<close>

lemma insert_ignore_keeps: "r \<in> set rows \<Longrightarrow> r \<in> set (insert_ignore key xs rows)"
  by (induction xs arbitrary: rows) auto

lemma set_insert_ignore_subset: "set (insert_ignore key xs rows) \<subseteq> set rows \<union> set xs"
proof (induction xs arbitrary: rows)
  case (Cons x xs)
  from Cons[of rows] Cons[of "rows @ [x]"] show ?case by auto
qed simp

lemma keys_insert_ignore [table_simps]:
  "key ` set (insert_ignore key xs rows) = key ` set rows \<union> key ` set xs"
  by (induction xs arbitrary: rows) auto

lemma distinct_insert_ignore [table_simps]:
  "distinct (map key (insert_ignore key xs rows)) = distinct (map key rows)"
  by (induction xs arbitrary: rows) (auto simp: image_iff)

lemma distinct_insert_ignore_other:
  "distinct (map g rows @ map g xs) \<Longrightarrow> distinct (map g (insert_ignore key xs rows))"
  by (induction xs arbitrary: rows) auto

lemma insert_ignore_append_keys [table_simps]:
  "\<exists>ys. insert_ignore key xs rows = rows @ ys \<and> set ys \<subseteq> set xs"
proof (induction xs arbitrary: rows)
  case Nil
  then show ?case by simp
next
  case (Cons x xs)
  show ?case
  proof (cases "key x \<in> key ` set rows")
    case True
    with Cons.IH[of rows] show ?thesis by auto
  next
    case False
    obtain ys where "insert_ignore key xs (rows @ [x]) = (rows @ [x]) @ ys" "set ys \<subseteq> set xs"
      using Cons.IH by blast
    with False show ?thesis by (intro exI[of _ "x # ys"]) auto
  qed
qed

lemma insert_ignore_all_known [table_simps]:
  "key ` set xs \<subseteq> key ` set rows \<Longrightarrow> insert_ignore key xs rows = rows"
  by (induction xs arbitrary: rows) auto

lemma insert_ignore_all_new [table_simps]:
  "distinct (map key xs) \<Longrightarrow> key ` set xs \<inter> key ` set rows = {} \<Longrightarrow> insert_ignore key xs rows = rows @ xs"
  by (induction xs arbitrary: rows) (auto simp: image_iff)

lemma insert_ignore_append:
  "insert_ignore key (xs @ ys) rows = insert_ignore key ys (insert_ignore key xs rows)"
  by (induction xs arbitrary: rows) auto

subsection \<open>Batches\<close>

lemma batched_Nil [simp]: "batched n [] = []"
  by (simp add: batched.simps)

lemma batched_step: "0 < n \<Longrightarrow> xs \<noteq> [] \<Longrightarrow> batched n xs = take n xs # batched n (drop n xs)"
  by (subst batched.simps) simp

lemma batched_short: "0 < n \<Longrightarrow> xs \<noteq> [] \<Longrightarrow> length xs \<le> n \<Longrightarrow> batched n xs = [xs]"
  by (simp add: batched_step)

lemma concat_batched: "0 < n \<Longrightarrow> concat (batched n xs) = xs"
proof (induction n xs rule: batched.induct)
  case (1 n xs)
  then show ?case by (cases "xs = []") (auto simp: batched_step)
qed

lemma batched_lengths: "0 < n \<Longrightarrow> c \<in> set (batched n xs) \<Longrightarrow> 0 < length c \<and> length c \<le> n"
proof (induction n xs arbitrary: c rule: batched.induct)
  case (1 n xs)
  show ?case
  proof (cases "xs = []")
    case True
    with "1.prems" show ?thesis by simp
  next
    case False
    with "1.prems" have "c = take n xs \<or> c \<in> set (batched n (drop n xs))"
      by (simp add: batched_step[of n xs])
    then show ?thesis
    proof
      assume "c = take n xs"
      with False "1.prems" show ?thesis by simp
    next
      assume "c \<in> set (batched n (drop n xs))"
      with False "1.prems" "1.IH" show ?thesis by auto
    qed
  qed
qed

text \<open>A loop over the batches of a list that folds a list operation is the operation on the list.\<close>

lemma fold_concat:
  assumes nil: "\<And>s. f [] s = s" and app: "\<And>xs ys s. f (xs @ ys) s = f ys (f xs s)"
  shows "fold f css s = f (concat css) s"
proof (induction css arbitrary: s)
  case Nil
  show ?case using nil by simp
next
  case (Cons c css)
  have "fold f (c # css) s = fold f css (f c s)" by simp
  also have "\<dots> = f (concat css) (f c s)" by (rule Cons)
  also have "\<dots> = f (concat (c # css)) s" using app by simp
  finally show ?case .
qed

lemma fold_batched:
  assumes "0 < n" and "\<And>s. f [] s = s" and "\<And>xs ys s. f (xs @ ys) s = f ys (f xs s)"
  shows "fold f (batched n xs) s = f xs s"
  using fold_concat[of f "batched n xs" s] assms by (simp add: concat_batched)

subsection \<open>Sorting and first-seen order\<close>

definition order_by :: "('r \<Rightarrow> 'k::linorder) \<Rightarrow> 'r list \<Rightarrow> 'r list" where
  "order_by key rows = sort_key key rows"

definition order_by_desc :: "('r \<Rightarrow> 'k::linorder) \<Rightarrow> 'r list \<Rightarrow> 'r list" where
  "order_by_desc key rows = rev (sort_key key rows)"

definition first :: "'a list \<Rightarrow> 'a option" where
  "first xs = (case xs of [] \<Rightarrow> None | x # _ \<Rightarrow> Some x)"

lemma first_simps [simp]: "first [] = None" "first (x # xs) = Some x"
  by (simp_all add: first_def)

lemma first_None [simp]: "first xs = None \<longleftrightarrow> xs = []"
  by (cases xs) simp_all

lemma first_in: "first xs = Some x \<Longrightarrow> x \<in> set xs"
  by (cases xs) simp_all

lemma set_order_by [simp]: "set (order_by key rows) = set rows"
  by (simp add: order_by_def)

lemma set_order_by_desc [simp]: "set (order_by_desc key rows) = set rows"
  by (simp add: order_by_desc_def)

lemma length_order_by [simp]: "length (order_by key rows) = length rows"
  by (simp add: order_by_def)

lemma sorted_order_by: "sorted (map key (order_by key rows))"
  by (simp add: order_by_def)

lemma order_by_Nil [simp]: "order_by key [] = []"
  by (simp add: order_by_def)

lemma order_by_Nil_iff [simp]: "order_by key rows = [] \<longleftrightarrow> rows = []"
  by (metis length_0_conv length_order_by)

lemma order_by_single [simp]: "order_by key [r] = [r]"
  by (simp add: order_by_def)

lemma distinct_order_by: "distinct (map g (order_by key rows)) = distinct (map g rows)"
proof -
  have "mset (map g (order_by key rows)) = mset (map g rows)"
    by (simp add: order_by_def)
  then show ?thesis by (rule mset_eq_imp_distinct_iff)
qed

text \<open>
  A dict of rows by key, fetched a chunk of keys at a time (\<open>get_many\<close> of the item and the feed
  service): each statement adds the rows whose key is in its chunk.
\<close>

fun fetch_chunks :: "('r \<Rightarrow> 'k) \<Rightarrow> 'r list \<Rightarrow> 'k list list \<Rightarrow> ('k \<Rightarrow> 'r option) \<Rightarrow> 'k \<Rightarrow> 'r option" where
  "fetch_chunks key rows [] m = m"
| "fetch_chunks key rows (c # cs) m =
     fetch_chunks key rows cs (fold (\<lambda>r m. m(key r \<mapsto> r)) (filter (\<lambda>r. key r \<in> set c) rows) m)"

lemma fold_upd_rows:
  assumes "distinct (map key rows)"
  shows "fold (\<lambda>r m. m(key r \<mapsto> r)) rows m k =
    (case first (filter (\<lambda>r. key r = k) rows) of Some r \<Rightarrow> Some r | None \<Rightarrow> m k)"
  using assms
proof (induction rows arbitrary: m)
  case (Cons r rows)
  have "filter (\<lambda>r. key r = k) rows = []" if "key r = k"
    using Cons.prems that by (auto simp: filter_empty_conv image_iff)
  with Cons show ?case by (auto split: option.splits)
qed simp

lemma fetch_chunks_map:
  assumes "distinct (map key rows)"
  shows "fetch_chunks key rows css m k =
    (if k \<in> set (concat css) then (case first (filter (\<lambda>r. key r = k) rows) of Some r \<Rightarrow> Some r | None \<Rightarrow> m k) else m k)"
proof (induction css arbitrary: m)
  case (Cons c css)
  have "distinct (map key (filter (\<lambda>r. key r \<in> set c) rows))"
    using assms by (simp add: distinct_map_filter)
  moreover have "filter (\<lambda>r. key r = k) (filter (\<lambda>r. key r \<in> set c) rows)
      = (if k \<in> set c then filter (\<lambda>r. key r = k) rows else [])"
    by (auto intro!: filter_cong simp: filter_empty_conv)
  ultimately show ?case by (simp add: Cons fold_upd_rows split: option.split)
qed simp

lemma fetch_chunks_eq:
  assumes "distinct (map key rows)" "0 < n"
  shows "fetch_chunks key rows (batched n ks) Map.empty k =
    (if k \<in> set ks then first (filter (\<lambda>r. key r = k) rows) else None)"
  using assms(2) by (auto simp: fetch_chunks_map[OF assms(1)] concat_batched split: option.split)

text \<open>\<open>list(dict.fromkeys(xs))\<close>: duplicates dropped, first occurrence kept.\<close>

fun dict_fromkeys :: "'a list \<Rightarrow> 'a list" where
  "dict_fromkeys [] = []"
| "dict_fromkeys (x # xs) = x # filter (\<lambda>y. y \<noteq> x) (dict_fromkeys xs)"

lemma set_dict_fromkeys [simp]: "set (dict_fromkeys xs) = set xs"
  by (induction xs) auto

lemma distinct_dict_fromkeys [simp]: "distinct (dict_fromkeys xs)"
  by (induction xs) auto

lemma dict_fromkeys_distinct: "distinct xs \<Longrightarrow> dict_fromkeys xs = xs"
  by (induction xs) (auto simp: filter_id_conv)

subsection \<open>Options of instants\<close>

text \<open>SQL comparison with a nullable column: NULL satisfies none.\<close>

fun null_ge :: "'a::linorder option \<Rightarrow> 'a \<Rightarrow> bool" where
  "null_ge None b = False"
| "null_ge (Some a) b = (b \<le> a)"

fun null_lt :: "'a::linorder option \<Rightarrow> 'a \<Rightarrow> bool" where
  "null_lt None b = False"
| "null_lt (Some a) b = (a < b)"

fun null_le :: "'a::linorder option \<Rightarrow> 'a \<Rightarrow> bool" where
  "null_le None b = False"
| "null_le (Some a) b = (a \<le> b)"

end
