(* ===== verification/Urls.thy ===== *)
theory Urls
  imports Prelude "HOL-Library.Word"
begin

text \<open>
  What the program takes from the standard library on text: character classes, decimal numerals,
  \<open>str.split\<close>, IP addresses as machine words with the classification of the ipaddress module
  (Python 3.13), and urllib.parse.urlsplit with the host and port of its result. Characters stop
  at 0xFF, so the NFKC check of a netloc never applies.
\<close>

subsection \<open>Characters and numerals\<close>

definition is_lower :: "char \<Rightarrow> bool" where
  "is_lower c \<longleftrightarrow> 97 \<le> (of_char c :: nat) \<and> (of_char c :: nat) \<le> 122"

definition is_upper :: "char \<Rightarrow> bool" where
  "is_upper c \<longleftrightarrow> 65 \<le> (of_char c :: nat) \<and> (of_char c :: nat) \<le> 90"

definition is_digit :: "char \<Rightarrow> bool" where
  "is_digit c \<longleftrightarrow> 48 \<le> (of_char c :: nat) \<and> (of_char c :: nat) \<le> 57"

definition is_alpha :: "char \<Rightarrow> bool" where
  "is_alpha c \<longleftrightarrow> is_lower c \<or> is_upper c"

definition to_lower :: "char \<Rightarrow> char" where
  "to_lower c = (if is_upper c then char_of ((of_char c :: nat) + 32) else c)"

definition scheme_char :: "char \<Rightarrow> bool" where
  "scheme_char c \<longleftrightarrow> is_alpha c \<or> is_digit c \<or> c \<in> set ''+-.''"

definition digit_value :: "char \<Rightarrow> nat" where
  "digit_value c = (of_char c :: nat) - 48"

definition digits_value :: "string \<Rightarrow> nat" where
  "digits_value ds = foldl (\<lambda>n d. 10 * n + digit_value d) 0 ds"

fun dec_aux :: "nat \<Rightarrow> nat \<Rightarrow> string \<Rightarrow> string" where
  "dec_aux 0 n acc = acc"
| "dec_aux (Suc fuel) n acc =
     (let acc' = char_of (48 + n mod 10) # acc
      in if n < 10 then acc' else dec_aux fuel (n div 10) acc')"

text \<open>The decimal numeral of \<open>n\<close>; \<open>n\<close> has fewer than \<open>Suc n\<close> digits.\<close>

definition dec :: "nat \<Rightarrow> string" where
  "dec n = dec_aux (Suc n) n []"

definition dec_int :: "int \<Rightarrow> string" where
  "dec_int n = (if n < 0 then CHR ''-'' # dec (nat (- n)) else dec (nat n))"


definition is_space :: "char \<Rightarrow> bool" where
  "is_space c \<longleftrightarrow> c \<in> {CHR '' '', CHR 0x09, CHR 0x0A, CHR 0x0B, CHR 0x0C, CHR 0x0D,
     CHR 0x1C, CHR 0x1D, CHR 0x1E, CHR 0x1F, CHR 0x85, CHR 0xA0}"

definition strip :: "string \<Rightarrow> string" where
  "strip s = rev (dropWhile is_space (rev (dropWhile is_space s)))"

text \<open>\<open>s.split(c)\<close>.\<close>

fun split_on :: "char \<Rightarrow> string \<Rightarrow> string list" where
  "split_on c [] = [[]]"
| "split_on c (x # xs) =
     (if x = c then [] # split_on c xs
      else case split_on c xs of [] \<Rightarrow> [[x]] | w # ws \<Rightarrow> (x # w) # ws)"

lemma split_on_not_Nil [simp]: "split_on c s \<noteq> []"
  by (induction s) (auto split: list.split)

lemma split_on_absent: "c \<notin> set s \<Longrightarrow> split_on c s = [s]"
  by (induction s) auto

lemma concat_split_on: "filter (\<lambda>x. x \<noteq> c) s = concat (split_on c s)"
  by (induction s) (auto split: list.split)

subsection \<open>IP addresses\<close>

datatype ip =
    IPv4Address "32 word"
  | IPv6Address "128 word" (scope_id: "string option")

definition parse_octet :: "string \<Rightarrow> nat option" where
  "parse_octet s =
     (if s = [] \<or> \<not> list_all is_digit s \<or> 3 < length s \<or> (s \<noteq> ''0'' \<and> hd s = CHR ''0'')
         \<or> 255 < digits_value s
      then None else Some (digits_value s))"

text \<open>Big-endian digits of a base.\<close>

definition from_base :: "nat \<Rightarrow> nat list \<Rightarrow> nat" where
  "from_base b ds = foldl (\<lambda>n d. b * n + d) 0 ds"

fun those_map :: "('a \<Rightarrow> 'b option) \<Rightarrow> 'a list \<Rightarrow> 'b list option" where
  "those_map f [] = Some []"
| "those_map f (x # xs) =
     (case f x of None \<Rightarrow> None | Some y \<Rightarrow> map_option ((#) y) (those_map f xs))"

definition parse_ipv4 :: "string \<Rightarrow> nat option" where
  "parse_ipv4 s =
     (let octets = split_on (CHR ''.'') s
      in if length octets \<noteq> 4 then None else map_option (from_base 256) (those_map parse_octet octets))"

definition hex_value :: "char \<Rightarrow> nat option" where
  "hex_value c =
     (if is_digit c then Some (digit_value c)
      else if 97 \<le> (of_char c :: nat) \<and> (of_char c :: nat) \<le> 102 then Some ((of_char c :: nat) - 87)
      else if 65 \<le> (of_char c :: nat) \<and> (of_char c :: nat) \<le> 70 then Some ((of_char c :: nat) - 55)
      else None)"

definition parse_hextet :: "string \<Rightarrow> nat option" where
  "parse_hextet s = (if s = [] \<or> 4 < length s then None else map_option (from_base 16) (those_map hex_value s))"

text \<open>
  \<open>_ip_int_from_string\<close>: the hextets of the text, a dotted IPv4 suffix counting as two, with the one
  run of zeros \<open>::\<close> stands for put in.
\<close>

definition hextet_texts :: "string \<Rightarrow> (nat + string) list option" where
  "hextet_texts s =
     (let parts = split_on (CHR '':'') s
      in if length parts < 3 then None
         else if CHR ''.'' \<in> set (last parts)
         then map_option (\<lambda>n. map Inr (butlast parts) @ [Inl (n div 65536), Inl (n mod 65536)])
                (parse_ipv4 (last parts))
         else Some (map Inr parts))"

definition read_hextet :: "nat + string \<Rightarrow> nat option" where
  "read_hextet p = (case p of Inl n \<Rightarrow> Some n | Inr t \<Rightarrow> parse_hextet t)"

definition empty_part :: "nat + string \<Rightarrow> bool" where
  "empty_part p \<longleftrightarrow> p = Inr []"

definition parse_ipv6 :: "string \<Rightarrow> nat option" where
  "parse_ipv6 s =
     (case hextet_texts s of
        None \<Rightarrow> None
      | Some parts \<Rightarrow>
          if 9 < length parts then None
          else let gaps = filter (\<lambda>i. empty_part (parts ! i)) [1..<length parts - 1]
            in case gaps of
                 [] \<Rightarrow> if length parts \<noteq> 8 then None
                       else map_option (from_base 65536) (those_map read_hextet parts)
               | [i] \<Rightarrow>
                   (let hi = take i parts; lo = drop (Suc i) parts;
                        hi' = (if empty_part (hd parts) then butlast hi else hi);
                        lo' = (if empty_part (last parts) then butlast lo else lo)
                    in if (empty_part (hd parts) \<and> hi' \<noteq> []) \<or> (empty_part (last parts) \<and> lo' \<noteq> [])
                          \<or> 8 < Suc (length hi' + length lo')
                       then None
                       else case (those_map read_hextet hi', those_map read_hextet lo') of
                              (Some hs, Some ls) \<Rightarrow>
                                Some (from_base 65536 (hs @ replicate (8 - (length hs + length ls)) 0 @ ls))
                            | _ \<Rightarrow> None)
               | _ \<Rightarrow> None)"

text \<open>\<open>ipaddress.ip_address(s)\<close>; \<open>None\<close> is its ValueError.\<close>

definition ip_address :: "string \<Rightarrow> ip option" where
  "ip_address s =
     (case parse_ipv4 s of
        Some n \<Rightarrow> Some (IPv4Address (word_of_nat n))
      | None \<Rightarrow>
          if CHR ''/'' \<in> set s then None
          else (case split_on (CHR ''%'') s of
                  [addr] \<Rightarrow> map_option (\<lambda>n. IPv6Address (word_of_nat n) None) (parse_ipv6 addr)
                | [addr, sid] \<Rightarrow>
                    if sid = [] then None
                    else map_option (\<lambda>n. IPv6Address (word_of_nat n) (Some sid)) (parse_ipv6 addr)
                | _ \<Rightarrow> None))"

text \<open>\<open>ip in network(base/n)\<close>: the first \<open>n\<close> bits agree.\<close>

definition in_net :: "'a::len word \<Rightarrow> 'a word \<times> nat \<Rightarrow> bool" where
  "in_net x net \<longleftrightarrow> drop_bit (LENGTH('a) - snd net) x = drop_bit (LENGTH('a) - snd net) (fst net)"

definition net4 :: "nat list \<Rightarrow> nat \<Rightarrow> 32 word \<times> nat" where
  "net4 octets n = (word_of_nat (from_base 256 octets), n)"

text \<open>A network whose base has zeros after the given leading hextets.\<close>

definition net6 :: "nat list \<Rightarrow> nat \<Rightarrow> 128 word \<times> nat" where
  "net6 hextets n = (word_of_nat (from_base 65536 (hextets @ replicate (8 - length hextets) 0)), n)"

definition PRIVATE4 :: "(32 word \<times> nat) list" where
  "PRIVATE4 = [net4 [0,0,0,0] 8, net4 [10,0,0,0] 8, net4 [127,0,0,0] 8, net4 [169,254,0,0] 16,
     net4 [172,16,0,0] 12, net4 [192,0,0,0] 24, net4 [192,0,0,170] 31, net4 [192,0,2,0] 24,
     net4 [192,168,0,0] 16, net4 [198,18,0,0] 15, net4 [198,51,100,0] 24, net4 [203,0,113,0] 24,
     net4 [240,0,0,0] 4, net4 [255,255,255,255] 32]"

definition PRIVATE4_EXCEPT :: "(32 word \<times> nat) list" where
  "PRIVATE4_EXCEPT = [net4 [192,0,0,9] 32, net4 [192,0,0,10] 32]"

definition PRIVATE6 :: "(128 word \<times> nat) list" where
  "PRIVATE6 = [net6 [0,0,0,0,0,0,0,1] 128, net6 [] 128, net6 [0,0,0,0,0,0xFFFF] 96, net6 [0x64,0xFF9B,1] 48,
     net6 [0x100] 64, net6 [0x2001] 23, net6 [0x2001,0xDB8] 32, net6 [0x2002] 16, net6 [0x3FFF] 20,
     net6 [0xFC00] 7, net6 [0xFE80] 10]"

definition PRIVATE6_EXCEPT :: "(128 word \<times> nat) list" where
  "PRIVATE6_EXCEPT = [net6 [0x2001,1,0,0,0,0,0,1] 128, net6 [0x2001,1,0,0,0,0,0,2] 128, net6 [0x2001,3] 32,
     net6 [0x2001,4,0x112] 48, net6 [0x2001,0x20] 28, net6 [0x2001,0x30] 28]"

definition RESERVED6 :: "(128 word \<times> nat) list" where
  "RESERVED6 = [net6 [] 8, net6 [0x100] 8, net6 [0x200] 7, net6 [0x400] 6, net6 [0x800] 5, net6 [0x1000] 4,
     net6 [0x4000] 3, net6 [0x6000] 3, net6 [0x8000] 3, net6 [0xA000] 3, net6 [0xC000] 3, net6 [0xE000] 4,
     net6 [0xF000] 5, net6 [0xF800] 6, net6 [0xFE00] 9]"

definition private4 :: "32 word \<Rightarrow> bool" where
  "private4 x \<longleftrightarrow> list_ex (in_net x) PRIVATE4 \<and> \<not> list_ex (in_net x) PRIVATE4_EXCEPT"

definition ipv4_mapped :: "ip \<Rightarrow> 32 word option" where
  "ipv4_mapped i =
     (case i of IPv4Address _ \<Rightarrow> None
      | IPv6Address x _ \<Rightarrow> if drop_bit 32 x = 0xFFFF then Some (ucast x) else None)"

fun is_private :: "ip \<Rightarrow> bool" where
  "is_private (IPv4Address x) = private4 x"
| "is_private (IPv6Address x s) =
     (case ipv4_mapped (IPv6Address x s) of
        Some y \<Rightarrow> private4 y
      | None \<Rightarrow> list_ex (in_net x) PRIVATE6 \<and> \<not> list_ex (in_net x) PRIVATE6_EXCEPT)"

fun is_loopback :: "ip \<Rightarrow> bool" where
  "is_loopback (IPv4Address x) = in_net x (net4 [127,0,0,0] 8)"
| "is_loopback (IPv6Address x s) =
     (case ipv4_mapped (IPv6Address x s) of Some y \<Rightarrow> in_net y (net4 [127,0,0,0] 8) | None \<Rightarrow> x = 1)"

fun is_link_local :: "ip \<Rightarrow> bool" where
  "is_link_local (IPv4Address x) = in_net x (net4 [169,254,0,0] 16)"
| "is_link_local (IPv6Address x s) =
     (case ipv4_mapped (IPv6Address x s) of
        Some y \<Rightarrow> in_net y (net4 [169,254,0,0] 16) | None \<Rightarrow> in_net x (net6 [0xFE80] 10))"

fun is_multicast :: "ip \<Rightarrow> bool" where
  "is_multicast (IPv4Address x) = in_net x (net4 [224,0,0,0] 4)"
| "is_multicast (IPv6Address x s) =
     (case ipv4_mapped (IPv6Address x s) of
        Some y \<Rightarrow> in_net y (net4 [224,0,0,0] 4) | None \<Rightarrow> in_net x (net6 [0xFF00] 8))"

fun is_reserved :: "ip \<Rightarrow> bool" where
  "is_reserved (IPv4Address x) = in_net x (net4 [240,0,0,0] 4)"
| "is_reserved (IPv6Address x s) =
     (case ipv4_mapped (IPv6Address x s) of
        Some y \<Rightarrow> in_net y (net4 [240,0,0,0] 4) | None \<Rightarrow> list_ex (in_net x) RESERVED6)"

fun is_unspecified :: "ip \<Rightarrow> bool" where
  "is_unspecified (IPv4Address x) = (x = 0)"
| "is_unspecified (IPv6Address x s) =
     (case ipv4_mapped (IPv6Address x s) of Some y \<Rightarrow> y = 0 | None \<Rightarrow> x = 0)"

subsection \<open>urlsplit\<close>

record url_parts =
  scheme :: string
  netloc :: string

text \<open>A bracketed host is an IPv6 address or \<open>v\<close>, hex digits, a dot and some text.\<close>

definition ipvfuture :: "string \<Rightarrow> bool" where
  "ipvfuture h \<longleftrightarrow>
     (let ds = takeWhile (\<lambda>c. hex_value c \<noteq> None) (drop 1 h); rest = drop (Suc (length ds)) h
      in ds \<noteq> [] \<and> take 1 rest = ''.'' \<and> 1 < length rest \<and> CHR 0x0A \<notin> set (drop 1 rest))"

definition bracketed_host_ok :: "string \<Rightarrow> bool" where
  "bracketed_host_ok h =
     (if take 1 h = ''v'' then ipvfuture h
      else case ip_address h of Some (IPv6Address _ _) \<Rightarrow> True | _ \<Rightarrow> False)"

text \<open>The host and port part of a netloc, after the last \<open>@\<close>.\<close>

definition hostinfo :: "string \<Rightarrow> string" where
  "hostinfo loc = rev (takeWhile (\<lambda>c. c \<noteq> CHR ''@'') (rev loc))"

definition bracketed_netloc_ok :: "string \<Rightarrow> bool" where
  "bracketed_netloc_ok loc =
     (let h = hostinfo loc; after = drop 1 (dropWhile (\<lambda>c. c \<noteq> CHR ''['') h);
          prt = drop 1 (dropWhile (\<lambda>c. c \<noteq> CHR '']'') after)
      in if CHR ''['' \<in> set h
         then take 1 h = ''['' \<and> (prt = [] \<or> hd prt = CHR '':'')
              \<and> bracketed_host_ok (takeWhile (\<lambda>c. c \<noteq> CHR '']'') after)
         else bracketed_host_ok (takeWhile (\<lambda>c. c \<noteq> CHR '':'') h))"

definition urlsplit :: "string \<Rightarrow> exn + url_parts" where
  "urlsplit raw =
     (let url = filter (\<lambda>c. c \<notin> {CHR 0x09, CHR 0x0A, CHR 0x0D}) (dropWhile (\<lambda>c. (of_char c :: nat) \<le> 32) raw);
          before = takeWhile (\<lambda>c. c \<noteq> CHR '':'') url;
          has_scheme = (length before < length url \<and> before \<noteq> []
                        \<and> is_alpha (hd before) \<and> list_all scheme_char before);
          sch = (if has_scheme then map to_lower before else []);
          rest = (if has_scheme then drop (Suc (length before)) url else url);
          loc = (if take 2 rest = ''//''
                 then takeWhile (\<lambda>c. c \<notin> set ''/?#'') (drop 2 rest) else [])
      in if (CHR ''['' \<in> set loc) \<noteq> (CHR '']'' \<in> set loc) then Inl ValueError
         else if CHR ''['' \<in> set loc \<and> \<not> bracketed_netloc_ok loc then Inl ValueError
         else Inr \<lparr>scheme = sch, netloc = loc\<rparr>)"

definition host_port :: "url_parts \<Rightarrow> string \<times> string" where
  "host_port p =
     (let h = hostinfo (netloc p); bracketed = drop 1 (dropWhile (\<lambda>c. c \<noteq> CHR ''['') h)
      in if CHR ''['' \<in> set h
         then (takeWhile (\<lambda>c. c \<noteq> CHR '']'') bracketed,
               drop 1 (dropWhile (\<lambda>c. c \<noteq> CHR '':'') (drop 1 (dropWhile (\<lambda>c. c \<noteq> CHR '']'') bracketed))))
         else (takeWhile (\<lambda>c. c \<noteq> CHR '':'') h, drop 1 (dropWhile (\<lambda>c. c \<noteq> CHR '':'') h)))"

text \<open>The zone of a scoped address keeps its case.\<close>

definition hostname :: "url_parts \<Rightarrow> string option" where
  "hostname p =
     (let h = fst (host_port p); addr = takeWhile (\<lambda>c. c \<noteq> CHR ''%'') h
      in if h = [] then None else Some (map to_lower addr @ drop (length addr) h))"

definition port :: "url_parts \<Rightarrow> exn + nat option" where
  "port p =
     (let t = snd (host_port p)
      in if t = [] then Inr None
         else if \<not> list_all is_digit t \<or> 65535 < digits_value t then Inl ValueError
         else Inr (Some (digits_value t)))"

text \<open>Evaluation of addresses and URLs on literals.\<close>

lemma replicate_numeral: "replicate (numeral k) x = x # replicate (pred_numeral k) x"
  by (simp add: numeral_eq_Suc)

lemmas text_eval = is_lower_def is_upper_def is_digit_def is_alpha_def to_lower_def scheme_char_def
  digit_value_def digits_value_def is_space_def strip_def

lemmas ip_eval = ip_address_def parse_ipv4_def parse_octet_def from_base_def parse_ipv6_def hextet_texts_def
  empty_part_def read_hextet_def parse_hextet_def hex_value_def upt_rec replicate_numeral
  in_net_def net4_def net6_def private4_def PRIVATE4_def PRIVATE4_EXCEPT_def PRIVATE6_def PRIVATE6_EXCEPT_def
  RESERVED6_def ipv4_mapped_def

lemmas url_eval = urlsplit_def hostinfo_def host_port_def hostname_def port_def bracketed_netloc_ok_def
  bracketed_host_ok_def

end
