(* ===== verification/Watch_Enums.thy ===== *)
theory Watch_Enums
  imports Prelude
begin

text \<open>
  The discriminators of the watch pipeline, packages/openmagpie-schema watch_enums.py: one
  \<open>datatype\<close> per StrEnum, with its wire value, its lifecycle order and the classification sets
  every other part refers to.
\<close>

subsection \<open>The enums\<close>

datatype watch_action_kind = SEMANTIC_FILTER | EXTRACT | WEBHOOK | LOG

datatype delivery_cadence = INSTANT | DIGEST

datatype webhook_method = POST | PUT | PATCH

datatype delivery_state = DELIVERY_PENDING | DELIVERY_SUCCEEDED | DELIVERY_ERRORED | DELIVERY_FAILED

datatype activity_window = DAY | YESTERDAY | WEEK | MONTH

datatype watch_run_state = PENDING | RUNNING | SUCCEEDED | GATED | FAILED | ERRORED | SKIPPED

datatype backfill_state = BF_PENDING | BF_RUNNING | BF_DONE | BF_FAILED

fun kind_value :: "watch_action_kind \<Rightarrow> string" where
  "kind_value SEMANTIC_FILTER = ''semantic_filter''"
| "kind_value EXTRACT = ''extract''"
| "kind_value WEBHOOK = ''webhook''"
| "kind_value LOG = ''log''"

fun cadence_value :: "delivery_cadence \<Rightarrow> string" where
  "cadence_value INSTANT = ''instant''"
| "cadence_value DIGEST = ''digest''"

fun method_value :: "webhook_method \<Rightarrow> string" where
  "method_value POST = ''POST''"
| "method_value PUT = ''PUT''"
| "method_value PATCH = ''PATCH''"

fun delivery_state_value :: "delivery_state \<Rightarrow> string" where
  "delivery_state_value DELIVERY_PENDING = ''pending''"
| "delivery_state_value DELIVERY_SUCCEEDED = ''succeeded''"
| "delivery_state_value DELIVERY_ERRORED = ''errored''"
| "delivery_state_value DELIVERY_FAILED = ''failed''"

fun activity_window_value :: "activity_window \<Rightarrow> string" where
  "activity_window_value DAY = ''24h''"
| "activity_window_value YESTERDAY = ''yesterday''"
| "activity_window_value WEEK = ''7d''"
| "activity_window_value MONTH = ''30d''"

fun run_state_value :: "watch_run_state \<Rightarrow> string" where
  "run_state_value PENDING = ''pending''"
| "run_state_value RUNNING = ''running''"
| "run_state_value SUCCEEDED = ''succeeded''"
| "run_state_value GATED = ''gated''"
| "run_state_value FAILED = ''failed''"
| "run_state_value ERRORED = ''errored''"
| "run_state_value SKIPPED = ''skipped''"

fun backfill_state_value :: "backfill_state \<Rightarrow> string" where
  "backfill_state_value BF_PENDING = ''pending''"
| "backfill_state_value BF_RUNNING = ''running''"
| "backfill_state_value BF_DONE = ''done''"
| "backfill_state_value BF_FAILED = ''failed''"

text \<open>The members in declaration order, which is what iterating the StrEnum yields.\<close>

definition all_kinds :: "watch_action_kind list" where
  "all_kinds = [SEMANTIC_FILTER, EXTRACT, WEBHOOK, LOG]"

definition all_run_states :: "watch_run_state list" where
  "all_run_states = [PENDING, RUNNING, SUCCEEDED, GATED, FAILED, ERRORED, SKIPPED]"

definition BUILTIN_ACTION_KINDS :: "string set" where
  "BUILTIN_ACTION_KINDS = kind_value ` set all_kinds"

text \<open>\<open>choices(enum)\<close>: the values joined by \<open> | \<close>.\<close>

fun choices :: "string list \<Rightarrow> string" where
  "choices [] = []"
| "choices [v] = v"
| "choices (v # w # vs) = v @ '' | '' @ choices (w # vs)"

subsection \<open>Classification of run and job states\<close>

definition BACKLOG_STATES :: "watch_run_state set" where
  "BACKLOG_STATES = {PENDING, RUNNING}"

definition CLAIMABLE_STATES :: "watch_run_state set" where
  "CLAIMABLE_STATES = {PENDING, FAILED}"

definition TERMINAL_STATES :: "watch_run_state set" where
  "TERMINAL_STATES = {SUCCEEDED, GATED, ERRORED, SKIPPED}"

definition BACKFILL_CLAIMABLE_STATES :: "backfill_state set" where
  "BACKFILL_CLAIMABLE_STATES = {BF_PENDING, BF_FAILED}"

lemmas state_sets = BACKLOG_STATES_def CLAIMABLE_STATES_def TERMINAL_STATES_def
  BACKFILL_CLAIMABLE_STATES_def

lemma claimable_iff [simp]: "s \<in> CLAIMABLE_STATES \<longleftrightarrow> s = PENDING \<or> s = FAILED"
  by (simp add: state_sets)

lemma backlog_iff [simp]: "s \<in> BACKLOG_STATES \<longleftrightarrow> s = PENDING \<or> s = RUNNING"
  by (simp add: state_sets)

lemma bf_claimable_iff [simp]: "s \<in> BACKFILL_CLAIMABLE_STATES \<longleftrightarrow> s = BF_PENDING \<or> s = BF_FAILED"
  by (simp add: state_sets)

lemma terminal_iff [simp]:
  "s \<in> TERMINAL_STATES \<longleftrightarrow> s = SUCCEEDED \<or> s = GATED \<or> s = ERRORED \<or> s = SKIPPED"
  by (simp add: state_sets)

lemma terminal_cases: "s \<in> TERMINAL_STATES \<or> s = PENDING \<or> s = RUNNING \<or> s = FAILED"
  by (cases s) simp_all

lemma all_run_states_complete: "s \<in> set all_run_states"
  by (cases s) (simp_all add: all_run_states_def)

lemma run_state_value_inj: "run_state_value s = run_state_value t \<longleftrightarrow> s = t"
  by (cases s; cases t) simp_all

lemma kind_value_inj: "kind_value k = kind_value l \<longleftrightarrow> k = l"
  by (cases k; cases l) simp_all

text \<open>
  The lifecycle order of the run states, the order in which the drain prints a breakdown
  (process\_due\_runs.\_STATE\_ORDER), as the type's linear order.
\<close>

fun run_state_pos :: "watch_run_state \<Rightarrow> nat" where
  "run_state_pos PENDING = 0"
| "run_state_pos RUNNING = 1"
| "run_state_pos SUCCEEDED = 2"
| "run_state_pos GATED = 3"
| "run_state_pos FAILED = 4"
| "run_state_pos ERRORED = 5"
| "run_state_pos SKIPPED = 6"

lemma run_state_pos_inj: "run_state_pos s = run_state_pos t \<longleftrightarrow> s = t"
  by (cases s; cases t) simp_all

instantiation watch_run_state :: linorder
begin

definition less_eq_watch_run_state :: "watch_run_state \<Rightarrow> watch_run_state \<Rightarrow> bool" where
  "less_eq_watch_run_state s t \<longleftrightarrow> run_state_pos s \<le> run_state_pos t"

definition less_watch_run_state :: "watch_run_state \<Rightarrow> watch_run_state \<Rightarrow> bool" where
  "less_watch_run_state s t \<longleftrightarrow> run_state_pos s < run_state_pos t"

instance
  by standard (auto simp: less_eq_watch_run_state_def less_watch_run_state_def run_state_pos_inj)

end

lemma run_state_pos_nth: "all_run_states ! run_state_pos s = s"
  by (cases s) (simp_all add: all_run_states_def)

end
