(* ===== verification/Action_Configs.thy ===== *)
theory Action_Configs
  imports Complex_Main Urls Watch_Enums
begin

text \<open>
  The typed configurations of a watch's actions, packages/openmagpie-schema watch\_actions: one
  constructor per config class, the validators each class runs, what the pipeline asks of a
  config (\<open>is_digest\<close>, the secrets it may carry), and the redaction round trip of the webhook
  secrets. A kind added by a plugin is \<open>PluginConfig\<close>: its kind, whether it extends the delivery
  or the engine base class, and its own data.
\<close>

subsection \<open>Redaction\<close>

definition REDACTED :: string where
  "REDACTED = ''***''"

definition redact_url :: "string \<Rightarrow> string" where
  "redact_url url =
     (case urlsplit url of
        Inl e \<Rightarrow> REDACTED
      | Inr parts \<Rightarrow>
          (case port parts of
             Inl e \<Rightarrow> REDACTED
           | Inr prt \<Rightarrow>
               (case hostname parts of
                  None \<Rightarrow> REDACTED
                | Some host \<Rightarrow>
                    if scheme parts = [] then REDACTED
                    else
                      (let h = (if CHR '':'' \<in> set host then ''['' @ host @ '']'' else host);
                           loc = (case prt of
                                    Some n \<Rightarrow> if n \<noteq> 0 then h @ '':'' @ dec n else h
                                  | None \<Rightarrow> h)
                       in scheme parts @ ''://'' @ loc @ ''/'' @ REDACTED))))"

definition ends_with :: "string \<Rightarrow> string \<Rightarrow> bool" where
  "ends_with s suf \<longleftrightarrow> length suf \<le> length s \<and> drop (length s - length suf) s = suf"

definition looks_redacted_url :: "string \<Rightarrow> bool" where
  "looks_redacted_url url \<longleftrightarrow> url = REDACTED \<or> ends_with url (''/'' @ REDACTED)"

lemma ends_with_append [simp]: "ends_with (xs @ ys) ys"
  by (simp add: ends_with_def)

text \<open>Whatever the URL, its redaction is recognised as one.\<close>

lemma looks_redacted_redact_url: "looks_redacted_url (redact_url url)"
proof -
  have shape: "looks_redacted_url (s @ ''://'' @ loc @ ''/'' @ REDACTED)" for s loc
    using ends_with_append[of "s @ ''://'' @ loc" "''/'' @ REDACTED"]
    by (simp add: looks_redacted_url_def)
  have bare: "looks_redacted_url REDACTED"
    by (simp add: looks_redacted_url_def)
  show ?thesis
    unfolding redact_url_def Let_def
    by (simp add: shape[simplified] bare split: sum.split option.split)
qed

subsection \<open>The config classes\<close>

record engine_spec =
  engine_kind :: string
  engine_model :: string

record extract_field =
  field_name :: string
  field_description :: string

datatype action_config =
    SemanticFilterConfig (engine: engine_spec) (fetch_external_content: bool)
      (instructions: string) (threshold: rat)
  | ExtractConfig (engine: engine_spec) (fetch_external_content: bool)
      (fields: "extract_field list") (instructions: string)
  | WebhookConfig (delivery: delivery_cadence) (digest_interval_seconds: int)
      (url: string) (meth: webhook_method) (headers: "(string \<times> string) list")
      (include_fields: "string list")
  | LogConfig (delivery: delivery_cadence) (digest_interval_seconds: int)
      (prefix: string) (include_fields: "string list")
  | PluginConfig (plugin_kind: string) (plugin_delivery: "(delivery_cadence \<times> int) option")
      (plugin_engine: "engine_spec option") (plugin_data: blob)

fun CONFIG_KIND :: "action_config \<Rightarrow> string" where
  "CONFIG_KIND (SemanticFilterConfig _ _ _ _) = kind_value SEMANTIC_FILTER"
| "CONFIG_KIND (ExtractConfig _ _ _ _) = kind_value EXTRACT"
| "CONFIG_KIND (WebhookConfig _ _ _ _ _ _) = kind_value WEBHOOK"
| "CONFIG_KIND (LogConfig _ _ _ _) = kind_value LOG"
| "CONFIG_KIND (PluginConfig k _ _ _) = k"

text \<open>The cadence and interval of a config that extends \<open>DeliveryConfigBase\<close>.\<close>

fun delivery_base :: "action_config \<Rightarrow> (delivery_cadence \<times> int) option" where
  "delivery_base (WebhookConfig d i _ _ _ _) = Some (d, i)"
| "delivery_base (LogConfig d i _ _) = Some (d, i)"
| "delivery_base (PluginConfig _ di _ _) = di"
| "delivery_base _ = None"

text \<open>The engine of a config that extends \<open>EngineActionConfigBase\<close>.\<close>

fun engine_base :: "action_config \<Rightarrow> engine_spec option" where
  "engine_base (SemanticFilterConfig e _ _ _) = Some e"
| "engine_base (ExtractConfig e _ _ _) = Some e"
| "engine_base (PluginConfig _ _ e _) = e"
| "engine_base _ = None"

text \<open>\<open>isinstance(config, DeliveryConfigBase) and config.is_digest()\<close>, with the window length.\<close>

definition is_digest :: "action_config \<Rightarrow> bool" where
  "is_digest c = (case delivery_base c of Some (d, _) \<Rightarrow> d = DIGEST | None \<Rightarrow> False)"

definition digest_interval :: "action_config \<Rightarrow> int" where
  "digest_interval c = (case delivery_base c of Some (_, i) \<Rightarrow> i | None \<Rightarrow> 0)"

subsection \<open>Validation\<close>

definition digest_requires_interval :: "delivery_cadence \<Rightarrow> int \<Rightarrow> bool" where
  "digest_requires_interval d i \<longleftrightarrow> 0 \<le> i \<and> (d = DIGEST \<longrightarrow> 0 < i)"

definition safe_key :: "string \<Rightarrow> bool" where
  "safe_key v \<longleftrightarrow> v \<noteq> [] \<and> list_all (\<lambda>c. is_alpha c \<or> is_digit c \<or> c \<in> set ''_-'') v"

definition valid_extract_field :: "extract_field \<Rightarrow> bool" where
  "valid_extract_field f \<longleftrightarrow> safe_key (field_name f) \<and> length (field_name f) \<le> 64
     \<and> 1 \<le> length (field_description f) \<and> length (field_description f) \<le> 256"

definition non_empty_unique :: "extract_field list \<Rightarrow> bool" where
  "non_empty_unique fs \<longleftrightarrow> fs \<noteq> [] \<and> distinct (map field_name fs)"

definition valid_webhook_url :: "string \<Rightarrow> bool" where
  "valid_webhook_url v =
     (case urlsplit v of
        Inl _ \<Rightarrow> False
      | Inr parts \<Rightarrow> (scheme parts = ''http'' \<or> scheme parts = ''https'')
          \<and> hostname parts \<noteq> None \<and> \<not> isl (port parts))"

fun valid_config :: "action_config \<Rightarrow> bool" where
  "valid_config (SemanticFilterConfig _ _ _ thr) = (0 < thr \<and> thr \<le> 1)"
| "valid_config (ExtractConfig _ _ fs ins) =
     (length fs \<le> 64 \<and> list_all valid_extract_field fs \<and> non_empty_unique fs \<and> length ins \<le> 2048)"
| "valid_config (WebhookConfig d i u _ _ _) = (digest_requires_interval d i \<and> valid_webhook_url u)"
| "valid_config (LogConfig d i _ _) = digest_requires_interval d i"
| "valid_config (PluginConfig _ di _ _) =
     (case di of Some (d, i) \<Rightarrow> digest_requires_interval d i | None \<Rightarrow> True)"

lemma valid_digest_interval: "valid_config c \<Longrightarrow> is_digest c \<Longrightarrow> 0 < digest_interval c"
  by (cases c) (auto simp: is_digest_def digest_interval_def digest_requires_interval_def
      split: option.splits)

subsection \<open>Secrets: what the read path shows, and what an edit carries forward\<close>

text \<open>\<open>redacted_dump\<close>: the config the API and the CLI preview show.\<close>

fun redacted_dump :: "action_config \<Rightarrow> action_config" where
  "redacted_dump (WebhookConfig d i u m hs inc) =
     WebhookConfig d i (redact_url u) m (map (\<lambda>(n, v). (n, REDACTED)) hs) inc"
| "redacted_dump c = c"

fun merge_headers :: "(string \<times> string) list \<Rightarrow> (string \<times> string) list
    \<Rightarrow> exn + (string \<times> string) list" where
  "merge_headers prior [] = Inr []"
| "merge_headers prior ((n, v) # hs) =
     (if v \<noteq> REDACTED then map_sum id ((#) (n, v)) (merge_headers prior hs)
      else (case map_of prior n of
              Some w \<Rightarrow> map_sum id ((#) (n, w)) (merge_headers prior hs)
            | None \<Rightarrow> Inl ValueError))"

text \<open>
  \<open>self.merge_preserving(prior)\<close>. \<open>pm\<close> is the method of a plugin's config class.
\<close>

fun merge_preserving :: "(action_config \<Rightarrow> action_config \<Rightarrow> exn + action_config)
    \<Rightarrow> action_config \<Rightarrow> action_config \<Rightarrow> exn + action_config" where
  "merge_preserving pm (WebhookConfig d i u m hs inc) prior =
     (let pw = (case prior of WebhookConfig _ _ pu _ phs _ \<Rightarrow> Some (pu, phs) | _ \<Rightarrow> None);
          u' = (case pw of Some (pu, _) \<Rightarrow> if u = redact_url pu then pu else u | None \<Rightarrow> u)
      in (case merge_headers (case pw of Some (_, phs) \<Rightarrow> phs | None \<Rightarrow> []) hs of
            Inl e \<Rightarrow> Inl e
          | Inr hs' \<Rightarrow> Inr (WebhookConfig d i u' m hs' inc)))"
| "merge_preserving pm (PluginConfig k di e dat) prior = pm (PluginConfig k di e dat) prior"
| "merge_preserving pm c prior = Inr c"

fun has_masked_secret :: "(action_config \<Rightarrow> bool) \<Rightarrow> action_config \<Rightarrow> bool" where
  "has_masked_secret pmask (WebhookConfig d i u m hs inc) =
     (looks_redacted_url u \<or> list_ex (\<lambda>(n, v). v = REDACTED) hs)"
| "has_masked_secret pmask (PluginConfig k di e dat) = pmask (PluginConfig k di e dat)"
| "has_masked_secret pmask c = False"

lemma merge_headers_masked:
  assumes "distinct (map fst prior)" and "set hs \<subseteq> set prior"
  shows "merge_headers prior (map (\<lambda>(n, v). (n, REDACTED)) hs) = Inr hs"
  using assms by (induction hs) auto

lemma merge_headers_kept:
  "list_all (\<lambda>(n, v). v \<noteq> REDACTED) hs \<Longrightarrow> merge_headers prior hs = Inr hs"
  by (induction hs) auto

text \<open>A merge never lets a mask through: every value it returns is a submitted real value or a
  value of the prior.\<close>

lemma merge_headers_values:
  "merge_headers prior hs = Inr hs' \<Longrightarrow>
     map fst hs' = map fst hs \<and>
     (\<forall>(n, v) \<in> set hs'. ((n, v) \<in> set hs \<and> v \<noteq> REDACTED) \<or> (n, v) \<in> set prior)"
proof (induction hs arbitrary: hs')
  case Nil
  then show ?case by simp
next
  case (Cons h hs)
  obtain n v where h: "h = (n, v)" by force
  obtain w rest where "hs' = (n, w) # rest" and rest: "merge_headers prior hs = Inr rest"
    and w: "(v \<noteq> REDACTED \<and> w = v) \<or> map_of prior n = Some w"
    using Cons.prems unfolding h
    by (cases "merge_headers prior hs") (auto split: if_splits option.splits)
  with Cons.IH[OF rest] h show ?case by (auto dest: map_of_SomeD)
qed

end
