(* ===== verification/Ssrf.thy ===== *)
theory Ssrf
  imports Urls
begin

text \<open>
  The outbound destination check (common/ssrf.py) and the client that connects to the address it
  checked (common/safe\_http.py). The resolver is outside the program: a lookup of a host answers with
  addresses, fails, or refuses the name, and every lookup may answer differently: \<open>resolver\<close> gives the
  answer of the n-th lookup. An operation is given the log of what was sent so far, newest first, and
  returns it extended by its own lookups and connections; a name handed to the socket layer is looked
  up again there.
\<close>

datatype dns =
    Resolved "string list"
  | Gai_Error
  | Os_Error
  | Bad_Host

type_synonym resolver = "nat \<Rightarrow> string \<Rightarrow> nat option \<Rightarrow> dns"

datatype egress =
    Looked_Up string "nat option" dns
  | Connected string
  | Requested string
  | Sidecar_Asked string

definition lookups :: "egress list \<Rightarrow> nat" where
  "lookups sent = length (filter (\<lambda>e. case e of Looked_Up _ _ _ \<Rightarrow> True | _ \<Rightarrow> False) sent)"

text \<open>\<open>socket.getaddrinfo\<close>.\<close>

definition getaddrinfo_call :: "resolver \<Rightarrow> string \<Rightarrow> nat option \<Rightarrow> egress list \<Rightarrow> egress list \<times> dns" where
  "getaddrinfo_call g host prt sent =
     (let answer = g (lookups sent) host prt in (Looked_Up host prt answer # sent, answer))"

datatype block_reason =
    Malformed_Url
  | Scheme_Not_Https
  | Host_Is_Blocked ip
  | Not_Resolved
  | Malformed_Host_Or_Port
  | Resolves_To_Blocked ip

definition CGNAT :: "32 word \<times> nat" where
  "CGNAT = net4 [100,64,0,0] 10"

text \<open>The IPv4 address behind a mapped IPv6 one.\<close>

definition unwrapped :: "ip \<Rightarrow> ip" where
  "unwrapped i = (case ipv4_mapped i of Some y \<Rightarrow> IPv4Address y | None \<Rightarrow> i)"

definition ip_is_blocked :: "ip \<Rightarrow> bool" where
  "ip_is_blocked i =
     (let j = unwrapped i
      in is_private j \<or> is_loopback j \<or> is_link_local j \<or> is_multicast j \<or> is_reserved j \<or> is_unspecified j
         \<or> (case j of IPv4Address y \<Rightarrow> in_net y CGNAT | IPv6Address _ _ \<Rightarrow> False))"

text \<open>The first blocked address of an answer; a text that is no address is passed over.\<close>

fun first_blocked :: "string list \<Rightarrow> ip option" where
  "first_blocked [] = None"
| "first_blocked (a # as) =
     (case ip_address a of
        Some i \<Rightarrow> if ip_is_blocked i then Some i else first_blocked as
      | None \<Rightarrow> first_blocked as)"

definition destination_block_reason :: "resolver \<Rightarrow> bool \<Rightarrow> bool \<Rightarrow> bool \<Rightarrow> string \<Rightarrow> egress list
    \<Rightarrow> egress list \<times> (exn + block_reason option)" where
  "destination_block_reason g require_https block_private_ips resolve_dns url sent =
     (case urlsplit url of
        Inl _ \<Rightarrow> (sent, Inr (Some Malformed_Url))
      | Inr parts \<Rightarrow>
          if require_https \<and> scheme parts \<noteq> ''https'' then (sent, Inr (Some Scheme_Not_Https))
          else if \<not> block_private_ips then (sent, Inr None)
          else (case hostname parts of
                  None \<Rightarrow> (sent, Inr None)
                | Some host \<Rightarrow>
                    (case ip_address host of
                       Some i \<Rightarrow> (sent, Inr (if ip_is_blocked i then Some (Host_Is_Blocked i) else None))
                     | None \<Rightarrow>
                         if \<not> resolve_dns then (sent, Inr None)
                         else (case port parts of
                                 Inl _ \<Rightarrow> (sent, Inr (Some Malformed_Host_Or_Port))
                               | Inr prt \<Rightarrow>
                                   (case getaddrinfo_call g host prt sent of
                                      (sent1, Gai_Error) \<Rightarrow> (sent1, Inr (Some Not_Resolved))
                                    | (sent1, Os_Error) \<Rightarrow> (sent1, Inl OSError)
                                    | (sent1, Bad_Host) \<Rightarrow> (sent1, Inr (Some Malformed_Host_Or_Port))
                                    | (sent1, Resolved addrs) \<Rightarrow>
                                        (sent1, Inr (map_option Resolves_To_Blocked (first_blocked addrs))))))))"

text \<open>
  The socket layer (\<open>SyncBackend.connect_tcp\<close>, over \<open>socket.create_connection\<close>): an address is connected
  to as it is; a name is looked up, and its addresses are tried in turn. The log has every address
  it may try.
\<close>

definition create_connection :: "resolver \<Rightarrow> string \<Rightarrow> nat option \<Rightarrow> egress list \<Rightarrow> egress list \<times> (exn + unit)" where
  "create_connection g host prt sent =
     (case ip_address host of
        Some _ \<Rightarrow> (Connected host # sent, Inr ())
      | None \<Rightarrow>
          (case getaddrinfo_call g host prt sent of
             (sent1, Resolved addrs) \<Rightarrow>
               (map Connected (rev addrs) @ sent1, if addrs = [] then Inl HTTPError else Inr ())
           | (sent1, Bad_Host) \<Rightarrow> (sent1, Inl UnicodeError)
           | (sent1, _) \<Rightarrow> (sent1, Inl HTTPError)))"

text \<open>\<open>_PinnedBackend.connect_tcp\<close>. A lookup that answers has an address.\<close>

definition connect_tcp :: "resolver \<Rightarrow> string \<Rightarrow> nat option \<Rightarrow> egress list \<Rightarrow> egress list \<times> (exn + unit)" where
  "connect_tcp g host prt sent =
     (case (case ip_address host of
              Some _ \<Rightarrow> (sent, Inr host)
            | None \<Rightarrow>
                (case getaddrinfo_call g host prt sent of
                   (sent1, Gai_Error) \<Rightarrow> (sent1, Inl HTTPError)
                 | (sent1, Os_Error) \<Rightarrow> (sent1, Inl HTTPError)
                 | (sent1, Bad_Host) \<Rightarrow> (sent1, Inl UnicodeError)
                 | (sent1, Resolved []) \<Rightarrow> (sent1, Inl ValueError)
                 | (sent1, Resolved (a # _)) \<Rightarrow> (sent1, Inr a))) of
        (sent1, Inl e) \<Rightarrow> (sent1, Inl e)
      | (sent1, Inr target) \<Rightarrow>
          (case ip_address target of
             None \<Rightarrow> (sent1, Inl ValueError)
           | Some i \<Rightarrow>
               if ip_is_blocked i then (sent1, Inl SsrfBlocked) else create_connection g target prt sent1))"

subsection \<open>What the checks give\<close>

lemma first_blocked_None: "first_blocked as = None \<longleftrightarrow>
    (\<forall>a \<in> set as. case ip_address a of Some i \<Rightarrow> \<not> ip_is_blocked i | None \<Rightarrow> True)"
  by (induction as) (auto split: option.splits)

text \<open>An address is public when no range blocks it; a text that is no address is not one.\<close>

definition public_address :: "string \<Rightarrow> bool" where
  "public_address a = (case ip_address a of Some i \<Rightarrow> \<not> ip_is_blocked i | None \<Rightarrow> False)"

text \<open>
  What the log must show when a URL is passed on as checked: its host is a public address, or the
  last thing that happened was a lookup of that very host, whose answer has no blocked address.
\<close>

definition destination_clear :: "string \<Rightarrow> egress list \<Rightarrow> bool" where
  "destination_clear url sent =
     (case urlsplit url of
        Inl _ \<Rightarrow> False
      | Inr parts \<Rightarrow>
          (case hostname parts of
             None \<Rightarrow> True
           | Some host \<Rightarrow>
               (case ip_address host of
                  Some _ \<Rightarrow> public_address host
                | None \<Rightarrow>
                    (case sent of
                       Looked_Up h _ (Resolved addrs) # _ \<Rightarrow>
                         h = host \<and> list_all (\<lambda>a. ip_address a = None \<or> public_address a) addrs
                     | _ \<Rightarrow> False))))"

text \<open>The check passes only on a log that shows it, and adds at most one lookup to it.\<close>

lemma destination_log:
  "fst (destination_block_reason g https priv dns url sent) = sent
   \<or> (\<exists>h p a. fst (destination_block_reason g https priv dns url sent) = Looked_Up h p a # sent)"
  by (auto simp: destination_block_reason_def getaddrinfo_call_def Let_def split: option.splits sum.splits dns.splits)

lemma destination_clears:
  "destination_block_reason g https True True url sent = (sent', Inr None) \<Longrightarrow> destination_clear url sent'"
  by (auto simp: destination_block_reason_def destination_clear_def getaddrinfo_call_def Let_def public_address_def
      first_blocked_None list_all_iff split: option.splits sum.splits dns.splits if_splits)

text \<open>The pinned backend connects to a public address, whatever the lookups answer.\<close>

lemma connect_tcp_safe:
  assumes "connect_tcp g host prt sent = (sent', res)"
  shows "sent' = sent \<or> (\<exists>a. sent' = Looked_Up host prt a # sent)
    \<or> (\<exists>t sent1. sent' = Connected t # sent1 \<and> public_address t \<and> (sent1 = sent \<or> (\<exists>a. sent1 = Looked_Up host prt a # sent)))"
  using assms
  by (auto simp: connect_tcp_def create_connection_def getaddrinfo_call_def Let_def public_address_def
      split: option.splits sum.splits dns.splits list.splits if_splits prod.splits)

text \<open>An address in a blocked class is blocked in its mapped form too.\<close>

lemma ip_is_blocked_mapped:
  "ipv4_mapped i = Some y \<Longrightarrow> ip_is_blocked i \<longleftrightarrow> ip_is_blocked (IPv4Address y)"
  by (simp add: ip_is_blocked_def unwrapped_def ipv4_mapped_def split: ip.splits)

text \<open>What the classes of an address are, read through its mapped form.\<close>

lemma classes_unwrapped:
  "is_private (unwrapped i) = is_private i" "is_loopback (unwrapped i) = is_loopback i"
  "is_link_local (unwrapped i) = is_link_local i" "is_multicast (unwrapped i) = is_multicast i"
  "is_reserved (unwrapped i) = is_reserved i" "is_unspecified (unwrapped i) = is_unspecified i"
  by (cases i; cases "ipv4_mapped i"; simp add: unwrapped_def ipv4_mapped_def split: if_splits)+

lemma unspecified_private: "is_unspecified i \<Longrightarrow> is_private i"
proof (cases i)
  case (IPv4Address x)
  assume "is_unspecified i"
  with IPv4Address have "x = 0" by simp
  with IPv4Address show ?thesis by (simp add: ip_eval)
next
  case (IPv6Address x s)
  assume "is_unspecified i"
  with IPv6Address show ?thesis
    by (cases "ipv4_mapped i") (auto simp: ip_eval split: if_splits)
qed

text \<open>The blocked addresses, without the unwrapping.\<close>

lemma ip_is_blocked_iff:
  "ip_is_blocked i \<longleftrightarrow> is_private i \<or> is_loopback i \<or> is_link_local i \<or> is_multicast i \<or> is_reserved i
     \<or> (\<exists>y. unwrapped i = IPv4Address y \<and> in_net y CGNAT)"
  unfolding ip_is_blocked_def Let_def classes_unwrapped
  using unspecified_private[of i] by (auto split: ip.splits)

lemma destination_unparsable:
  "urlsplit url = Inl e \<Longrightarrow> destination_block_reason g https priv dns url sent = (sent, Inr (Some Malformed_Url))"
  by (simp add: destination_block_reason_def)

end
