(* ===== verification/Watch_Models.thy ===== *)
theory Watch_Models
  imports Action_Configs Ssrf
begin

text \<open>
  The rows of the watch pipeline (apps/core/watches/models, and the FeedItem and Feed columns the
  pipeline reads), the action interface (watches/actions/protocol.py), the database as one record
  of tables, and \<open>env\<close>: what the pipeline takes from outside src or from configuration. Those are
  the Django settings, the stream of ULIDs the \<open>ulid\<close> package mints, the parsers pydantic derives
  from the config classes, the registered executors (an LLM or HTTP call behind \<open>impl.run\<close>), and
  the plugin hooks.
\<close>

subsection \<open>Rows\<close>

record watch =
  w_id :: ulid
  w_account :: ulid
  w_name :: string
  w_active :: bool
  w_initial_path :: ulid

record watch_path =
  p_id :: ulid
  p_account :: ulid
  p_watch :: ulid

record watch_feed =
  wf_id :: ulid
  wf_account :: ulid
  wf_watch :: ulid
  wf_feed :: ulid
  wf_last_item :: ulid

record watch_action =
  a_id :: ulid
  a_account :: ulid
  a_path :: ulid
  a_kind :: string
  a_config :: blob
  a_rank :: nat

record run =
  r_id :: ulid
  r_account :: ulid
  r_watch :: ulid
  r_action :: ulid
  r_kind :: string
  r_item :: ulid
  r_state :: watch_run_state
  r_scheduled :: "instant option"
  r_started :: "instant option"
  r_completed :: "instant option"
  r_result :: blob
  r_error :: string
  r_attempts :: nat
  r_prior :: ulid
  r_delivery :: ulid

record digest_window =
  dw_id :: ulid
  dw_account :: ulid
  dw_action :: ulid
  dw_close :: "instant option"

record action_delivery =
  d_id :: ulid
  d_account :: ulid
  d_watch :: ulid
  d_action :: ulid
  d_cadence :: delivery_cadence
  d_method :: string
  d_host :: string
  d_state :: delivery_state
  d_status :: "int option"
  d_items :: nat
  d_attempt :: nat
  d_payload :: blob
  d_error :: string
  d_started :: "instant option"
  d_completed :: "instant option"

record backfill_job =
  b_id :: ulid
  b_account :: ulid
  b_watch :: ulid
  b_target :: ulid
  b_source :: ulid
  b_is_head :: bool
  b_kind :: string
  b_replace :: bool
  b_occ_since :: "instant option"
  b_occ_until :: "instant option"
  b_comp_since :: "instant option"
  b_comp_until :: "instant option"
  b_state :: backfill_state
  b_matched :: nat
  b_present :: nat
  b_pruned :: int
  b_deleted :: nat
  b_enqueued :: nat
  b_replace_deleted_at :: "instant option"
  b_scheduled :: "instant option"
  b_started :: "instant option"
  b_completed :: "instant option"
  b_error :: string
  b_attempts :: nat

record feed =
  f_id :: ulid
  f_user :: ulid
  f_account :: ulid
  f_kind :: string
  f_name :: string
  f_active :: bool
  f_poll_interval :: int
  f_last_polled :: "instant option"
  f_next_poll :: "instant option"
  f_data :: blob

record source =
  so_id :: ulid
  so_account :: ulid
  so_feed :: ulid
  so_kind :: string
  so_spec :: blob
  so_hash :: string
  so_last_event :: "instant option"
  so_meta :: "(string \<times> string) list"
  so_field_map :: "(string \<times> string) list"

record feed_item =
  i_id :: ulid
  i_account :: ulid
  i_feed :: ulid
  i_source_kind :: string
  i_external_id :: string
  i_source_label :: string
  i_source_meta :: "(string \<times> string) list"
  i_occurred :: "instant option"
  i_data :: blob

subsection \<open>Unique constraints\<close>

definition run_key :: "run \<Rightarrow> ulid \<times> ulid \<times> ulid \<times> ulid" where
  "run_key r = (r_account r, r_watch r, r_action r, r_item r)"

definition window_key :: "digest_window \<Rightarrow> ulid \<times> ulid" where
  "window_key w = (dw_account w, dw_action w)"

definition rank_key :: "watch_action \<Rightarrow> ulid \<times> ulid \<times> nat" where
  "rank_key a = (a_account a, a_path a, a_rank a)"

definition watch_feed_key :: "watch_feed \<Rightarrow> ulid \<times> ulid \<times> ulid" where
  "watch_feed_key s = (wf_account s, wf_watch s, wf_feed s)"

definition source_key :: "source \<Rightarrow> ulid \<times> ulid \<times> string" where
  "source_key s = (so_account s, so_feed s, so_hash s)"

subsection \<open>The database\<close>

text \<open>
  \<open>drawn\<close> counts the ULIDs minted so far and \<open>calls\<close> the calls made to an executor, so that an
  executor may answer the same input differently at another call.
\<close>

record db =
  watches :: "watch list"
  paths :: "watch_path list"
  watch_feeds :: "watch_feed list"
  actions :: "watch_action list"
  runs :: "run list"
  windows :: "digest_window list"
  deliveries :: "action_delivery list"
  backfills :: "backfill_job list"
  feeds :: "feed list"
  feed_items :: "feed_item list"
  sources :: "source list"
  drawn :: nat
  calls :: nat

subsection \<open>The action interface\<close>

record action_item =
  ai_data :: blob
  ai_key :: string
  ai_source_label :: string
  ai_source_kind :: string

record action_context =
  cx_watch_id :: ulid
  cx_watch_name :: string
  cx_delivery :: delivery_cadence
  cx_since :: "instant option"
  cx_until :: "instant option"

record outbound_call =
  oc_host :: string
  oc_method :: string
  oc_status :: "int option"
  oc_item_count :: nat
  oc_payload :: blob

text \<open>
  \<open>ActionResult\<close>, and its subclass \<open>OutboundActionResult\<close> for a kind that made an HTTP call.
\<close>

datatype action_result =
    ActionResult (res_state: watch_run_state) (res_result: blob) (res_error: string)
  | OutboundActionResult (res_state: watch_run_state) (res_result: blob) (res_error: string)
      (outbound: outbound_call)

text \<open>\<open>None\<close> is an impl that raises.\<close>

type_synonym executor =
  "nat \<Rightarrow> watch_action \<Rightarrow> action_item list \<Rightarrow> action_context \<Rightarrow> action_result option"

record env =
  MAX_ATTEMPTS :: nat
  STALE_SECONDS :: int
  BACKFILL_MAX_ATTEMPTS :: nat
  BACKFILL_STALE_SECONDS :: int
  DIGEST_MAX_BATCH_ITEMS :: nat
  DIGEST_MIN_INTERVAL :: int
  DIGEST_MAX_INTERVAL :: int
  mint :: "nat \<Rightarrow> ulid"
  known_kinds :: "string set"
  model_validate :: "string \<Rightarrow> blob \<Rightarrow> action_config option"
  model_dump :: "action_config \<Rightarrow> blob"
  executor_of :: "string \<Rightarrow> executor option"
  result_valid :: "string \<Rightarrow> blob \<Rightarrow> bool"
  WEBHOOK_REQUIRE_HTTPS :: bool
  WEBHOOK_BLOCK_PRIVATE_IPS :: bool
  plugin_merge :: "action_config \<Rightarrow> action_config \<Rightarrow> exn + action_config"
  plugin_masked :: "action_config \<Rightarrow> bool"

text \<open>The bound on the ids of one statement (common/db.py and runs/\_common.py).\<close>

definition ID_IN_CHUNK :: nat where
  "ID_IN_CHUNK = 500"

definition ENQUEUE_CHUNK :: nat where
  "ENQUEUE_CHUNK = 500"

subsection \<open>Minting\<close>

text \<open>
  \<open>ULIDField.pre_save\<close>: an empty primary key is filled with a fresh ULID when the row is saved.
  What the pipeline relies on of the \<open>ulid\<close> package is \<open>mints_fresh\<close>: no ULID is minted twice and
  none is blank.
\<close>

definition mints_fresh :: "env \<Rightarrow> bool" where
  "mints_fresh E \<longleftrightarrow> inj (mint E) \<and> (\<forall>n. mint E n \<noteq> blank)"

definition new_id :: "env \<Rightarrow> db \<Rightarrow> ulid \<times> db" where
  "new_id E d = (mint E (drawn d), d\<lparr>drawn := Suc (drawn d)\<rparr>)"

definition new_ids :: "env \<Rightarrow> nat \<Rightarrow> db \<Rightarrow> ulid list \<times> db" where
  "new_ids E n d = (map (\<lambda>i. mint E (drawn d + i)) [0..<n], d\<lparr>drawn := drawn d + n\<rparr>)"

lemma minted_new:
  "mints_fresh E \<Longrightarrow> ids \<subseteq> mint E ` {..<n} \<Longrightarrow> n \<le> i \<Longrightarrow> mint E i \<notin> ids"
  by (auto simp: mints_fresh_def inj_eq subset_iff)

lemma minted_disjoint:
  assumes "mints_fresh E" "ids \<subseteq> mint E ` {..<n}"
  shows "set (map (mint E) [n..<m]) \<inter> ids = {}"
proof -
  have "x \<notin> ids" if "x \<in> set (map (mint E) [n..<m])" for x
    using that minted_new[OF assms] by auto
  then show ?thesis by blast
qed

lemma length_new_ids [simp]: "length (fst (new_ids E n d)) = n"
  by (simp add: new_ids_def)

lemma snd_new_ids [simp]: "snd (new_ids E n d) = d\<lparr>drawn := drawn d + n\<rparr>"
  by (simp add: new_ids_def)

subsection \<open>The operator-facing error messages (watches/run\_messages.py)\<close>

definition ACTION_GONE :: string where
  "ACTION_GONE = ''This action was removed before the item could be processed.''"
definition ITEM_GONE :: string where
  "ITEM_GONE = ''The source item is no longer available (it may have aged out of retention).''"
definition NO_EXECUTOR :: string where
  "NO_EXECUTOR = ''This action type can't be run by the current server.''"
definition RESULT_INVALID :: string where
  "RESULT_INVALID = ''The action produced a result that doesn't match its registered result schema.''"
definition TRANSIENT :: string where
  "TRANSIENT = ''A temporary problem occurred while running this action; it will be retried.''"
definition TIMED_OUT :: string where
  "TIMED_OUT = ''The run exceeded its time limit and was reset to retry.''"
definition TIMED_OUT_EXHAUSTED :: string where
  "TIMED_OUT_EXHAUSTED = ''The run repeatedly timed out and has exhausted its retry attempts.''"
definition TRANSIENT_EXHAUSTED :: string where
  "TRANSIENT_EXHAUSTED = ''This item repeatedly failed to deliver and has exhausted its retry attempts.''"
definition BACKFILL_TARGET_GONE :: string where
  "BACKFILL_TARGET_GONE = ''The target action was removed before the backfill could run.''"
definition BACKFILL_WATCH_GONE :: string where
  "BACKFILL_WATCH_GONE = ''The watch was removed before the backfill could run.''"
definition BACKFILL_TIMED_OUT :: string where
  "BACKFILL_TIMED_OUT = ''The backfill exceeded its time limit and was reset to retry.''"
definition BACKFILL_TIMED_OUT_EXHAUSTED :: string where
  "BACKFILL_TIMED_OUT_EXHAUSTED = ''The backfill repeatedly timed out and has exhausted its retry attempts.''"

text \<open>
  Whether a run rests for good. \<open>completion_ts\<close> (runs/\_common.py) stamps \<open>completed_at\<close> by this
  rule at every transition.
\<close>

definition rests :: "nat \<Rightarrow> watch_run_state \<Rightarrow> nat \<Rightarrow> bool" where
  "rests cap s att \<longleftrightarrow> s \<in> TERMINAL_STATES \<or> (s = FAILED \<and> cap \<le> att)"

definition completion_ts :: "env \<Rightarrow> watch_run_state \<Rightarrow> nat \<Rightarrow> instant \<Rightarrow> instant option" where
  "completion_ts E s att now =
     (if s \<in> TERMINAL_STATES \<or> (s = FAILED \<and> MAX_ATTEMPTS E \<le> att) then Some now else None)"

lemma completion_ts_None [simp]: "completion_ts E s att now = None \<longleftrightarrow> \<not> rests (MAX_ATTEMPTS E) s att"
  by (simp add: completion_ts_def rests_def)

lemma completion_ts_Some: "completion_ts E s att now = Some t \<longleftrightarrow> rests (MAX_ATTEMPTS E) s att \<and> t = now"
  by (auto simp: completion_ts_def rests_def)

subsection \<open>Parsing a stored config (watches/registry.py)\<close>

definition parse_config :: "env \<Rightarrow> string \<Rightarrow> blob \<Rightarrow> exn + action_config" where
  "parse_config E kind data =
     (if kind \<notin> known_kinds E then Inl KeyError
      else case model_validate E kind data of
             None \<Rightarrow> Inl ValidationError
           | Some c \<Rightarrow> Inr c)"

definition load_config :: "env \<Rightarrow> watch_action \<Rightarrow> exn + action_config" where
  "load_config E a = parse_config E (a_kind a) (a_config a)"

text \<open>
  What is relied on of the config classes' parser: it accepts what a class dumps, it returns
  only configs its validators accept, and a config is of the kind it was parsed for.
\<close>

definition parses :: "env \<Rightarrow> bool" where
  "parses E \<longleftrightarrow>
     (\<forall>k b c. model_validate E k b = Some c \<longrightarrow> CONFIG_KIND c = k \<and> valid_config c) \<and>
     (\<forall>c. valid_config c \<longrightarrow> model_validate E (CONFIG_KIND c) (model_dump E c) = Some c)"

lemma load_dumped:
  "parses E \<Longrightarrow> valid_config c \<Longrightarrow> CONFIG_KIND c \<in> known_kinds E \<Longrightarrow> a_kind a = CONFIG_KIND c \<Longrightarrow>
     a_config a = model_dump E c \<Longrightarrow> load_config E a = Inr c"
  by (simp add: parses_def load_config_def parse_config_def)

end
