(* ===== verification/Run_Windows.thy ===== *)
theory Run_Windows
  imports Watch_Models
begin

text \<open>
  The time window grammar of the run list and of a backfill, packages/openmagpie-schema
  run\_windows.py: a value is a duration back from the server's clock or an ISO datetime, a
  window is half open, and a lone \<open>until\<close> is bounded a week below.

  A Python \<open>datetime\<close> is its local time in microseconds since 1970-01-01T00:00 and its UTC
  offset, \<open>None\<close> for a naive one. \<open>datetime.fromisoformat\<close> is the parameter \<open>fromiso\<close>.
\<close>

record dt =
  dt_local :: int
  dt_offset :: "int option"

definition instant_of :: "dt \<Rightarrow> instant" where
  "instant_of v = dt_local v - (case dt_offset v of Some off \<Rightarrow> off | None \<Rightarrow> 0)"

text \<open>\<open>datetime.min\<close> is year 1, and a \<open>timedelta\<close> has at most 999999999 days.\<close>

definition DT_MIN :: int where
  "DT_MIN = - 62135596800000000"

definition MAX_DELTA :: int where
  "MAX_DELTA = seconds (86400 * 999999999)"

definition RUN_WINDOW_DEFAULT_SPAN :: int where
  "RUN_WINDOW_DEFAULT_SPAN = seconds (7 * 86400)"

definition sub_delta :: "dt \<Rightarrow> int \<Rightarrow> exn + dt" where
  "sub_delta v delta =
     (if MAX_DELTA < delta \<or> dt_local v - delta < DT_MIN then Inl OverflowError
      else Inr (v\<lparr>dt_local := dt_local v - delta\<rparr>))"

fun unit_seconds :: "char \<Rightarrow> int option" where
  "unit_seconds c =
     (if c = CHR ''s'' then Some 1 else if c = CHR ''m'' then Some 60
      else if c = CHR ''h'' then Some 3600 else if c = CHR ''d'' then Some 86400
      else if c = CHR ''w'' then Some 604800 else None)"

text \<open>\<open>_REL_DURATION.fullmatch(text)\<close>: digits, then one unit letter.\<close>

definition rel_duration :: "string \<Rightarrow> int option" where
  "rel_duration text =
     (if text = [] \<or> butlast text = [] \<or> \<not> list_all is_digit (butlast text) then None
      else map_option (\<lambda>u. int (digits_value (butlast text)) * seconds u) (unit_seconds (last text)))"

definition resolve_window_value :: "(string \<Rightarrow> dt option) \<Rightarrow> string \<Rightarrow> dt \<Rightarrow> exn + dt" where
  "resolve_window_value fromiso raw now =
     (if dt_offset now = None then Inl TypeError
      else let text = strip raw in
        case rel_duration text of
          Some delta \<Rightarrow> (case sub_delta now delta of Inl _ \<Rightarrow> Inl ValueError | Inr v \<Rightarrow> Inr v)
        | None \<Rightarrow>
            (case fromiso text of
               None \<Rightarrow> Inl ValueError
             | Some v \<Rightarrow> Inr (if dt_offset v \<noteq> None then v else v\<lparr>dt_offset := Some 0\<rparr>)))"

text \<open>The four bounds, absent ones \<open>None\<close>: the \<open>RunWindows\<close> dict.\<close>

record 'v run_windows =
  occurred_since :: "'v option"
  occurred_until :: "'v option"
  completed_since :: "'v option"
  completed_until :: "'v option"

definition no_windows :: "'v run_windows" where
  "no_windows = \<lparr>occurred_since = None, occurred_until = None,
                 completed_since = None, completed_until = None\<rparr>"

text \<open>\<open>run_window_params\<close>: unset and empty values are dropped.\<close>

definition run_window_params :: "string option \<Rightarrow> string option \<Rightarrow> string option \<Rightarrow> string option
    \<Rightarrow> string run_windows" where
  "run_window_params os ou cs cu =
     (let drop_unset = (\<lambda>v. if v = Some [] then None else v)
      in \<lparr>occurred_since = drop_unset os, occurred_until = drop_unset ou,
          completed_since = drop_unset cs, completed_until = drop_unset cu\<rparr>)"

definition resolve_opt :: "(string \<Rightarrow> dt option) \<Rightarrow> dt \<Rightarrow> string option \<Rightarrow> exn + dt option" where
  "resolve_opt fromiso now raw =
     (case raw of None \<Rightarrow> Inr None
      | Some s \<Rightarrow> map_sum id Some (resolve_window_value fromiso s now))"

text \<open>The two guards on one base (\<open>occurred\<close> or \<open>completed\<close>).\<close>

definition bound_base :: "dt option \<Rightarrow> dt option \<Rightarrow> exn + dt option \<times> dt option" where
  "bound_base since until =
     (case (case (since, until) of
              (None, Some u) \<Rightarrow>
                (case sub_delta u RUN_WINDOW_DEFAULT_SPAN of
                   Inl _ \<Rightarrow> Inl ValueError | Inr s \<Rightarrow> Inr (Some s))
            | _ \<Rightarrow> Inr since) of
        Inl e \<Rightarrow> Inl e
      | Inr since' \<Rightarrow>
          (case (since', until) of
             (Some s, Some u) \<Rightarrow>
               if instant_of u \<le> instant_of s then Inl ValueError else Inr (since', until)
           | _ \<Rightarrow> Inr (since', until)))"

definition resolve_run_windows :: "(string \<Rightarrow> dt option) \<Rightarrow> string run_windows \<Rightarrow> dt
    \<Rightarrow> exn + dt run_windows" where
  "resolve_run_windows fromiso raw now =
     (case resolve_opt fromiso now (occurred_since raw) of Inl e \<Rightarrow> Inl e | Inr os \<Rightarrow>
      case resolve_opt fromiso now (occurred_until raw) of Inl e \<Rightarrow> Inl e | Inr ou \<Rightarrow>
      case resolve_opt fromiso now (completed_since raw) of Inl e \<Rightarrow> Inl e | Inr cs \<Rightarrow>
      case resolve_opt fromiso now (completed_until raw) of Inl e \<Rightarrow> Inl e | Inr cu \<Rightarrow>
      case bound_base os ou of Inl e \<Rightarrow> Inl e | Inr (os', ou') \<Rightarrow>
      case bound_base cs cu of Inl e \<Rightarrow> Inl e | Inr (cs', cu') \<Rightarrow>
        Inr \<lparr>occurred_since = os', occurred_until = ou', completed_since = cs', completed_until = cu'\<rparr>)"

subsection \<open>Facts\<close>

lemma resolve_window_value_aware:
  "resolve_window_value fromiso raw now = Inr v \<Longrightarrow> dt_offset v \<noteq> None"
  by (auto simp: resolve_window_value_def sub_delta_def Let_def
      split: if_splits option.splits sum.splits)

lemma resolve_opt_Some:
  "resolve_opt fromiso now raw = Inr (Some v) \<longleftrightarrow>
     (\<exists>t. raw = Some t \<and> resolve_window_value fromiso t now = Inr v)"
  by (cases raw; cases "resolve_window_value fromiso (the raw) now") (simp_all add: resolve_opt_def)

lemma resolve_opt_aware: "resolve_opt fromiso now raw = Inr (Some v) \<Longrightarrow> dt_offset v \<noteq> None"
  unfolding resolve_opt_Some by (elim exE conjE) (rule resolve_window_value_aware)

lemma resolve_window_value_error:
  "resolve_window_value fromiso raw now = Inl e \<Longrightarrow> dt_offset now \<noteq> None \<Longrightarrow> e = ValueError"
  by (auto simp: resolve_window_value_def Let_def split: if_splits option.splits sum.splits)

lemma resolve_opt_error: "resolve_opt fromiso now raw = Inl e \<Longrightarrow> dt_offset now \<noteq> None \<Longrightarrow> e = ValueError"
  by (cases raw; cases "resolve_window_value fromiso (the raw) now")
     (auto simp: resolve_opt_def dest: resolve_window_value_error)

lemma bound_base_error: "bound_base s u = Inl e \<Longrightarrow> e = ValueError"
  by (auto simp: bound_base_def split: option.splits sum.splits if_splits)

lemma bound_base_ok:
  assumes "bound_base s u = Inr (s', u')"
  shows "u' = u"
    and "u \<noteq> None \<Longrightarrow> s' \<noteq> None"
    and "s \<noteq> None \<Longrightarrow> s' = s"
    and "s' = Some x \<Longrightarrow> u' = Some y \<Longrightarrow> instant_of x < instant_of y"
    and "s = None \<Longrightarrow> u = Some y \<Longrightarrow>
           \<exists>x. s' = Some x \<and> instant_of x = instant_of y - RUN_WINDOW_DEFAULT_SPAN"
  using assms
  by (auto simp: bound_base_def sub_delta_def instant_of_def split: option.splits sum.splits if_splits)

end
