(* ===== verification/Pages.thy ===== *)
theory Pages
  imports Prelude
begin

text \<open>
  Cursor pagination, both ways the code does it. \<open>page_desc\<close> is one newest-first page of a list
  endpoint (\<open>id__lt=after\<close>, order by \<open>-id\<close>, first \<open>limit\<close> rows); the locale \<open>newest_first\<close> is
  what its clients rely on, and proves that following the cursor visits every row once.
  \<open>keyset\<close> is the ascending loop that streams ids a page at a time.
\<close>

definition below :: "ulid option \<Rightarrow> ulid \<Rightarrow> bool" where
  "below after i = (case after of None \<Rightarrow> True | Some a \<Rightarrow> a = blank \<or> i < a)"

definition page_desc :: "('r \<Rightarrow> ulid) \<Rightarrow> ulid option \<Rightarrow> nat \<Rightarrow> 'r list \<Rightarrow> 'r list" where
  "page_desc key after lmt rows = take lmt (order_by_desc key (filter (\<lambda>r. below after (key r)) rows))"

text \<open>A client that follows the cursor for at most \<open>k\<close> pages.\<close>

fun walk :: "(ulid option \<Rightarrow> 'r list) \<Rightarrow> ('r \<Rightarrow> ulid) \<Rightarrow> nat \<Rightarrow> ulid option \<Rightarrow> 'r list" where
  "walk page key 0 after = []"
| "walk page key (Suc k) after =
     (let rs = page after in if rs = [] then [] else rs @ walk page key k (Some (key (last rs))))"

lemma drop_below_cut:
  assumes "sorted_wrt (\<lambda>x y. lt y x) xs" "0 < n" "xs \<noteq> []"
    and irr: "\<And>x. \<not> lt x x" and asym: "\<And>x y. lt x y \<Longrightarrow> \<not> lt y x"
  shows "filter (\<lambda>x. lt x (last (take n xs))) xs = drop n xs"
proof -
  obtain z where z_def: "z = last (take n xs)" by simp
  have snoc: "take n xs = butlast (take n xs) @ [z]" using assms(2,3) by (simp add: z_def)
  have whole: "sorted_wrt (\<lambda>x y. lt y x) ((butlast (take n xs) @ [z]) @ drop n xs)"
    unfolding snoc[symmetric] using assms(1) by simp
  have front: "\<not> lt x z" if "x \<in> set (take n xs)" for x
  proof -
    have "x \<in> set (butlast (take n xs)) \<or> x = z" using that by (subst (asm) snoc) auto
    moreover have "lt z y" if "y \<in> set (butlast (take n xs))" for y
      using whole that by (simp add: sorted_wrt_append)
    ultimately show ?thesis using irr asym by blast
  qed
  have rear: "lt x z" if "x \<in> set (drop n xs)" for x
    using whole that by (simp add: sorted_wrt_append)
  have "filter (\<lambda>x. lt x z) (take n xs) = []" using front by (simp add: filter_empty_conv)
  moreover have "filter (\<lambda>x. lt x z) (drop n xs) = drop n xs" using rear by (simp add: filter_id_conv)
  ultimately have "filter (\<lambda>x. lt x z) (take n xs @ drop n xs) = drop n xs"
    unfolding filter_append by simp
  then show ?thesis by (simp add: z_def)
qed

lemma filter_order_by_desc: "order_by_desc key (filter P rows) = filter P (order_by_desc key rows)"
  by (simp add: order_by_desc_def rev_filter [symmetric] filter_sort)

lemma desc_strict:
  assumes "distinct (map key rows)"
  shows "sorted_wrt (\<lambda>x y. key y < key x) (order_by_desc key rows)"
proof -
  have "distinct (map key (sort_key key rows))"
    using distinct_order_by[of key key rows] assms by (simp add: order_by_def)
  then have "sorted_wrt (<) (map key (sort_key key rows))" by (simp add: strict_sorted_iff)
  then show ?thesis by (simp add: order_by_desc_def sorted_wrt_rev sorted_wrt_map)
qed

locale newest_first =
  fixes page :: "ulid option \<Rightarrow> nat \<Rightarrow> 'r list" and key :: "'r \<Rightarrow> ulid" and rows :: "'r list"
  assumes page_is: "page after lmt = page_desc key after lmt rows"
begin

lemma page_bounded: "length (page after lmt) \<le> lmt"
  by (simp add: page_is page_desc_def)

lemma page_rows: "r \<in> set (page after lmt) \<Longrightarrow> r \<in> set rows \<and> below after (key r)"
  by (auto simp: page_is page_desc_def dest: in_set_takeD)

lemma walk_suffix:
  assumes "0 < lmt" "distinct (map key rows)" "\<And>r. r \<in> set rows \<Longrightarrow> key r \<noteq> blank"
  shows "length (filter (\<lambda>r. below after (key r)) rows) \<le> k \<Longrightarrow>
    walk (\<lambda>a. page a lmt) key k after = order_by_desc key (filter (\<lambda>r. below after (key r)) rows)"
proof (induction k arbitrary: after)
  case 0
  then show ?case by (simp add: order_by_desc_def)
next
  case (Suc k)
  let ?all = "order_by_desc key (filter (\<lambda>r. below after (key r)) rows)"
  have len: "length ?all = length (filter (\<lambda>r. below after (key r)) rows)" by (simp add: order_by_desc_def)
  have pg: "page after lmt = take lmt ?all" by (simp add: page_is page_desc_def)
  show ?case
  proof (cases "?all = []")
    case True
    then show ?thesis using pg by simp
  next
    case False
    let ?z = "last (take lmt ?all)"
    have "take lmt ?all \<noteq> []" using assms(1) False by simp
    then have zin: "?z \<in> set ?all" using last_in_set[of "take lmt ?all"] set_take_subset[of lmt ?all] by blast
    then have zrow: "?z \<in> set rows" "below after (key ?z)" by simp_all
    have strict: "sorted_wrt (\<lambda>x y. key y < key x) ?all"
      using assms(2) by (intro desc_strict) (simp add: distinct_map_filter)
    have "order_by_desc key (filter (\<lambda>r. below (Some (key ?z)) (key r)) rows)
        = filter (\<lambda>r. key r < key ?z) ?all"
    proof -
      have "filter (\<lambda>r. below (Some (key ?z)) (key r)) rows
          = filter (\<lambda>r. key r < key ?z) (filter (\<lambda>r. below after (key r)) rows)"
        using assms(3)[OF zrow(1)] zrow(2) by (auto simp: below_def split: option.splits intro!: filter_cong)
      then show ?thesis by (simp only: filter_order_by_desc)
    qed
    also have "\<dots> = drop lmt ?all"
      using drop_below_cut[of "\<lambda>x y. key x < key y" ?all lmt] strict assms(1) False by simp
    finally have rest: "order_by_desc key (filter (\<lambda>r. below (Some (key ?z)) (key r)) rows) = drop lmt ?all" .
    have "length (filter (\<lambda>r. below (Some (key ?z)) (key r)) rows) = length (drop lmt ?all)"
      using arg_cong[OF rest, of length] by (simp add: order_by_desc_def)
    also have "\<dots> \<le> k" using Suc.prems len assms(1) by simp
    finally have "walk (\<lambda>a. page a lmt) key k (Some (key ?z)) = drop lmt ?all"
      using Suc.IH[of "Some (key ?z)"] rest by simp
    moreover have "take lmt ?all \<noteq> []" using assms(1) False by simp
    ultimately show ?thesis by (simp add: pg Let_def)
  qed
qed

lemma walk_all:
  assumes "0 < lmt" "distinct (map key rows)" "\<And>r. r \<in> set rows \<Longrightarrow> key r \<noteq> blank" "length rows \<le> k"
  shows "walk (\<lambda>a. page a lmt) key k None = order_by_desc key rows"
  using walk_suffix[of lmt None k] assms by (simp add: below_def)

end

subsection \<open>Ascending keyset streams\<close>

function keyset :: "nat \<Rightarrow> ulid \<Rightarrow> ulid list \<Rightarrow> ulid list" where
  "keyset n cursor ids =
     (let page = take n (sort (filter (\<lambda>i. cursor < i) ids))
      in if page = [] then [] else page @ keyset n (last page) ids)"
  by pat_completeness auto
termination
proof (relation "measure (\<lambda>(n, cursor, ids). length (filter (\<lambda>i. cursor < i) ids))", goal_cases)
  case (2 n cursor ids page)
  then have "last page \<in> set (sort (filter (\<lambda>i. cursor < i) ids))"
    using last_in_set[of page] set_take_subset[of n "sort (filter (\<lambda>i. cursor < i) ids)"] by blast
  then have above: "last page \<in> set ids" "cursor < last page" by simp_all
  have "filter (\<lambda>i. last page < i) ids = filter (\<lambda>i. last page < i) (filter (\<lambda>i. cursor < i) ids)"
    using above(2) by (auto intro!: filter_cong)
  also have "length \<dots> < length (filter (\<lambda>i. cursor < i) ids)"
    using above by (intro length_filter_less[of "last page"]) auto
  finally show ?case by simp
qed simp

declare keyset.simps [simp del]

text \<open>The stream is the ids past the cursor, ascending, whatever the page size.\<close>

lemma keyset_eq:
  assumes "0 < n" "distinct ids"
  shows "keyset n cursor ids = sort (filter (\<lambda>i. cursor < i) ids)"
  using assms
proof (induction n cursor ids rule: keyset.induct)
  case (1 n cursor ids)
  let ?all = "sort (filter (\<lambda>i. cursor < i) ids)"
  show ?case
  proof (cases "?all = []")
    case True
    then show ?thesis by (simp add: keyset.simps[of n cursor])
  next
    case False
    let ?z = "last (take n ?all)"
    have ne: "take n ?all \<noteq> []" using False "1.prems"(1) by simp
    have "?z \<in> set ?all" using last_in_set[OF ne] set_take_subset[of n ?all] by blast
    then have z: "cursor < ?z" by simp
    have "sort (filter (\<lambda>i. ?z < i) ids) = filter (\<lambda>i. ?z < i) ?all"
      using z by (auto simp: filter_sort intro!: arg_cong[of _ _ sort] filter_cong)
    also have "\<dots> = drop n ?all"
    proof -
      have "sorted_wrt (<) ?all" using "1.prems"(2) by (simp add: strict_sorted_iff)
      then show ?thesis
        using drop_below_cut[of "\<lambda>x y. y < x" ?all n] "1.prems"(1) False by simp
    qed
    finally have "keyset n ?z ids = drop n ?all" using "1.IH"[OF refl ne] "1.prems" by simp
    then show ?thesis using ne by (simp add: keyset.simps[of n cursor] Let_def)
  qed
qed

end
