(* ===== verification/Run_Queue.thy ===== *)
theory Run_Queue
  imports Run_Windows Pages
begin

text \<open>
  The run table and its services: \<open>WatchActionRunGlobal\<close> (services/runs/\_drain.py: due, claim,
  reap), \<open>WatchActionRunService\<close> (\_service.py: enqueue, complete, list, summary), the digest batch
  surface (services/\_run\_batches.py) and the backfill selection (\_backfill\_select.py). An account
  scoped service is its account id as the first argument after \<open>env\<close>.
\<close>

subsection \<open>What is due\<close>

definition has_window :: "db \<Rightarrow> ulid \<Rightarrow> ulid \<Rightarrow> bool" where
  "has_window d acct act \<longleftrightarrow> list_ex (\<lambda>w. dw_account w = acct \<and> dw_action w = act) (windows d)"

definition due_run :: "env \<Rightarrow> db \<Rightarrow> instant \<Rightarrow> run \<Rightarrow> bool" where
  "due_run E d ts r \<longleftrightarrow> r_state r \<in> CLAIMABLE_STATES \<and> r_attempts r < MAX_ATTEMPTS E
     \<and> null_le (r_scheduled r) ts \<and> \<not> has_window d (r_account r) (r_action r)"

definition due_runs :: "env \<Rightarrow> db \<Rightarrow> instant \<Rightarrow> run list" where
  "due_runs E d ts = filter (due_run E d ts) (runs d)"

definition count_due :: "env \<Rightarrow> db \<Rightarrow> instant \<Rightarrow> nat" where
  "count_due E d ts = length (due_runs E d ts)"

subsection \<open>Reaping\<close>

definition stale_run :: "env \<Rightarrow> instant \<Rightarrow> run \<Rightarrow> bool" where
  "stale_run E now r \<longleftrightarrow> r_state r = RUNNING \<and> null_lt (r_started r) (now - seconds (STALE_SECONDS E))"

definition reap_stale :: "env \<Rightarrow> instant \<Rightarrow> db \<Rightarrow> nat \<times> db" where
  "reap_stale E now d =
     (let P1 = (\<lambda>r. stale_run E now r \<and> MAX_ATTEMPTS E \<le> r_attempts r);
          exhausted = count_where P1 (runs d);
          d1 = d\<lparr>runs := update_where P1
                   (\<lambda>r. r\<lparr>r_state := FAILED, r_error := TIMED_OUT_EXHAUSTED, r_completed := Some now\<rparr>) (runs d)\<rparr>;
          P2 = (\<lambda>r. stale_run E now r \<and> r_attempts r < MAX_ATTEMPTS E);
          retryable = count_where P2 (runs d1);
          d2 = d1\<lparr>runs := update_where P2
                   (\<lambda>r. r\<lparr>r_state := FAILED, r_error := TIMED_OUT, r_completed := None\<rparr>) (runs d1)\<rparr>
      in (exhausted + retryable, d2))"

subsection \<open>Claiming\<close>

definition get_run :: "ulid \<Rightarrow> db \<Rightarrow> run option" where
  "get_run rid d = first (filter (\<lambda>r. r_id r = rid) (runs d))"

definition claim_row :: "instant \<Rightarrow> run \<Rightarrow> run" where
  "claim_row ts r = r\<lparr>r_state := RUNNING, r_started := Some ts, r_attempts := Suc (r_attempts r)\<rparr>"

text \<open>One turn of the claim loop: the CAS on the candidate's snapshot, then the refreshed row.\<close>

definition claim_one :: "env \<Rightarrow> instant \<Rightarrow> run \<Rightarrow> db \<Rightarrow> run option \<times> db" where
  "claim_one E ts cand d =
     (let P = (\<lambda>r. r_id r = r_id cand \<and> r_state r = r_state cand \<and> r_attempts r < MAX_ATTEMPTS E);
          d' = d\<lparr>runs := update_where P (claim_row ts) (runs d)\<rparr>
      in if count_where P (runs d) = 0 then (None, d') else (get_run (r_id cand) d', d'))"

definition schedule_key :: "run \<Rightarrow> instant" where
  "schedule_key r = (case r_scheduled r of Some t \<Rightarrow> t | None \<Rightarrow> 0)"

definition claim_candidates :: "env \<Rightarrow> instant \<Rightarrow> db \<Rightarrow> run list" where
  "claim_candidates E ts d = order_by schedule_key (due_runs E d ts)"

fun claim_all :: "env \<Rightarrow> instant \<Rightarrow> run list \<Rightarrow> db \<Rightarrow> run list \<times> db" where
  "claim_all E ts [] d = ([], d)"
| "claim_all E ts (c # cs) d =
     (let (got, d1) = claim_one E ts c d; (rest, d2) = claim_all E ts cs d1
      in ((case got of None \<Rightarrow> rest | Some r \<Rightarrow> r # rest), d2))"

text \<open>\<open>claim_due\<close> consumed to its end with no other writer in between.\<close>

definition claim_due :: "env \<Rightarrow> instant \<Rightarrow> db \<Rightarrow> run list \<times> db" where
  "claim_due E ts d = claim_all E ts (claim_candidates E ts d) d"

definition count_by_state_since :: "instant \<Rightarrow> db \<Rightarrow> watch_run_state \<Rightarrow> nat" where
  "count_by_state_since since d s = count_where (\<lambda>r. null_ge (r_completed r) since \<and> r_state r = s) (runs d)"

subsection \<open>Enqueueing\<close>

definition pending_run :: "ulid \<Rightarrow> ulid \<Rightarrow> ulid \<Rightarrow> string \<Rightarrow> ulid \<Rightarrow> instant \<Rightarrow> ulid \<Rightarrow> ulid \<Rightarrow> run" where
  "pending_run acct wat act kind item sched prior rid =
     \<lparr>r_id = rid, r_account = acct, r_watch = wat, r_action = act, r_kind = kind, r_item = item,
      r_state = PENDING, r_scheduled = Some sched, r_started = None, r_completed = None,
      r_result = [], r_error = [], r_attempts = 0, r_prior = prior, r_delivery = blank\<rparr>"

lemma pending_run_simps [simp]:
  "r_id (pending_run acct wat act kind item sched prior rid) = rid"
  "r_account (pending_run acct wat act kind item sched prior rid) = acct"
  "r_watch (pending_run acct wat act kind item sched prior rid) = wat"
  "r_action (pending_run acct wat act kind item sched prior rid) = act"
  "r_kind (pending_run acct wat act kind item sched prior rid) = kind"
  "r_item (pending_run acct wat act kind item sched prior rid) = item"
  "r_state (pending_run acct wat act kind item sched prior rid) = PENDING"
  "r_scheduled (pending_run acct wat act kind item sched prior rid) = Some sched"
  "r_completed (pending_run acct wat act kind item sched prior rid) = None"
  "r_attempts (pending_run acct wat act kind item sched prior rid) = 0"
  "r_prior (pending_run acct wat act kind item sched prior rid) = prior"
  "run_key (pending_run acct wat act kind item sched prior rid) = (acct, wat, act, item)"
  by (simp_all add: pending_run_def run_key_def)

definition enqueue :: "env \<Rightarrow> ulid \<Rightarrow> ulid \<Rightarrow> ulid \<Rightarrow> string \<Rightarrow> ulid \<Rightarrow> instant \<Rightarrow> ulid \<Rightarrow> db
    \<Rightarrow> run option \<times> db" where
  "enqueue E acct wat act kind item sched prior d =
     (if (acct, wat, act, item) \<in> run_key ` set (runs d) then (None, d)
      else let (rid, d') = new_id E d; r = pending_run acct wat act kind item sched prior rid
           in (Some r, d'\<lparr>runs := runs d' @ [r]\<rparr>))"

text \<open>\<open>bulk_create(..., ignore_conflicts=True)\<close> on the run table.\<close>

definition bulk_create_runs :: "(ulid \<Rightarrow> run) list \<Rightarrow> env \<Rightarrow> db \<Rightarrow> db" where
  "bulk_create_runs mks E d =
     (let (ids, d') = new_ids E (length mks) d
      in d'\<lparr>runs := insert_ignore run_key (map2 (\<lambda>mk rid. mk rid) mks ids) (runs d')\<rparr>)"

definition enqueue_chunk :: "env \<Rightarrow> ulid \<Rightarrow> ulid \<Rightarrow> ulid \<Rightarrow> string \<Rightarrow> instant \<Rightarrow> ulid list \<Rightarrow> db
    \<Rightarrow> (exn + nat) \<times> db" where
  "enqueue_chunk E acct wat act kind sched ids d =
     (if ENQUEUE_CHUNK < length ids then (Inl ValueError, d)
      else let present = r_item ` set (filter (\<lambda>r. r_account r = acct \<and> r_watch r = wat
                         \<and> r_action r = act \<and> r_item r \<in> set ids) (runs d));
               fresh = filter (\<lambda>f. f \<notin> present) ids
           in if fresh = [] then (Inr 0, d)
              else (Inr (length fresh),
                    bulk_create_runs (map (\<lambda>f. pending_run acct wat act kind f sched blank) fresh) E d))"

fun enqueue_chunks :: "env \<Rightarrow> ulid \<Rightarrow> ulid \<Rightarrow> ulid \<Rightarrow> string \<Rightarrow> instant \<Rightarrow> ulid list list \<Rightarrow> db
    \<Rightarrow> (exn + nat) \<times> db" where
  "enqueue_chunks E acct wat act kind sched [] d = (Inr 0, d)"
| "enqueue_chunks E acct wat act kind sched (c # cs) d =
     (case enqueue_chunk E acct wat act kind sched c d of
        (Inl e, d1) \<Rightarrow> (Inl e, d1)
      | (Inr n, d1) \<Rightarrow>
          (case enqueue_chunks E acct wat act kind sched cs d1 of
             (Inl e, d2) \<Rightarrow> (Inl e, d2)
           | (Inr m, d2) \<Rightarrow> (Inr (n + m), d2)))"

definition enqueue_many :: "env \<Rightarrow> ulid \<Rightarrow> ulid \<Rightarrow> ulid \<Rightarrow> string \<Rightarrow> instant \<Rightarrow> ulid list \<Rightarrow> db
    \<Rightarrow> (exn + nat) \<times> db" where
  "enqueue_many E acct wat act kind sched ids d =
     enqueue_chunks E acct wat act kind sched (batched ENQUEUE_CHUNK ids) d"

text \<open>One row per \<open>(watch_id, feed_item_id, prior_run_id)\<close>.\<close>

definition enqueue_advance_batch :: "env \<Rightarrow> ulid \<Rightarrow> ulid \<Rightarrow> string \<Rightarrow> instant
    \<Rightarrow> (ulid \<times> ulid \<times> ulid) list \<Rightarrow> db \<Rightarrow> db" where
  "enqueue_advance_batch E acct act kind sched rows d =
     (if rows = [] then d
      else bulk_create_runs
             (map (\<lambda>(wat, item, prior). pending_run acct wat act kind item sched prior) rows) E d)"

subsection \<open>Completing one claimed run\<close>

definition complete_row :: "watch_run_state \<Rightarrow> blob \<Rightarrow> string \<Rightarrow> ulid \<Rightarrow> string option
    \<Rightarrow> instant option \<Rightarrow> run \<Rightarrow> run" where
  "complete_row st res err dlv knd ct r =
     r\<lparr>r_state := st, r_result := res, r_error := err, r_completed := ct,
       r_delivery := (if dlv \<noteq> blank then dlv else r_delivery r),
       r_kind := (case knd of Some k \<Rightarrow> if k \<noteq> [] then k else r_kind r | None \<Rightarrow> r_kind r)\<rparr>"

definition complete :: "env \<Rightarrow> ulid \<Rightarrow> run \<Rightarrow> watch_run_state \<Rightarrow> blob \<Rightarrow> string \<Rightarrow> ulid \<Rightarrow> string option
    \<Rightarrow> instant \<Rightarrow> db \<Rightarrow> (exn + run option) \<times> db" where
  "complete E acct run st res err dlv knd now d =
     (if r_account run \<noteq> acct then (Inl ValueError, d)
      else let ct = completion_ts E st (r_attempts run) now;
               P = (\<lambda>r. r_id r = r_id run \<and> r_state r = RUNNING \<and> r_attempts r = r_attempts run);
               d' = d\<lparr>runs := update_where P (complete_row st res err dlv knd ct) (runs d)\<rparr>
           in if count_where P (runs d) = 0 then (Inr None, d')
              else (Inr (Some (complete_row st res err dlv knd ct run)), d'))"

subsection \<open>The digest batch surface\<close>

definition pending_of :: "ulid \<Rightarrow> ulid \<Rightarrow> run \<Rightarrow> bool" where
  "pending_of acct act r \<longleftrightarrow> r_account r = acct \<and> r_action r = act \<and> r_state r = PENDING"

definition digest_batch :: "env \<Rightarrow> ulid \<Rightarrow> ulid \<Rightarrow> db \<Rightarrow> run list" where
  "digest_batch E acct act d =
     take (DIGEST_MAX_BATCH_ITEMS E)
       (order_by (\<lambda>r. (r_attempts r, r_id r)) (filter (pending_of acct act) (runs d)))"

definition digest_pending_count :: "ulid \<Rightarrow> ulid \<Rightarrow> db \<Rightarrow> nat" where
  "digest_pending_count acct act d = count_where (pending_of acct act) (runs d)"

definition batch_target :: "ulid \<Rightarrow> ulid list \<Rightarrow> run \<Rightarrow> bool" where
  "batch_target acct ids r \<longleftrightarrow> r_id r \<in> set ids \<and> r_account r = acct \<and> r_state r = PENDING"

fun complete_chunks :: "env \<Rightarrow> ulid \<Rightarrow> (run \<Rightarrow> run) \<Rightarrow> ulid list list \<Rightarrow> db \<Rightarrow> nat \<times> db" where
  "complete_chunks E acct f [] d = (0, d)"
| "complete_chunks E acct f (c # cs) d =
     (let n = count_where (batch_target acct c) (runs d);
          (m, d') = complete_chunks E acct f cs
                      (d\<lparr>runs := update_where (batch_target acct c) f (runs d)\<rparr>)
      in (n + m, d'))"

definition complete_batch :: "env \<Rightarrow> ulid \<Rightarrow> ulid list \<Rightarrow> watch_run_state \<Rightarrow> blob \<Rightarrow> string \<Rightarrow> ulid
    \<Rightarrow> string option \<Rightarrow> instant \<Rightarrow> db \<Rightarrow> nat \<times> db" where
  "complete_batch E acct ids st res err dlv knd now d =
     complete_chunks E acct (complete_row st res err dlv knd (Some now)) (batched ID_IN_CHUNK ids) d"

definition burn_row :: "run \<Rightarrow> run" where
  "burn_row r = r\<lparr>r_attempts := r_attempts r + 1, r_error := TRANSIENT\<rparr>"

definition exhaust_row :: "instant \<Rightarrow> run \<Rightarrow> run" where
  "exhaust_row now r = r\<lparr>r_state := FAILED, r_error := TRANSIENT_EXHAUSTED, r_completed := Some now\<rparr>"

fun fail_chunks :: "env \<Rightarrow> ulid \<Rightarrow> instant \<Rightarrow> ulid list list \<Rightarrow> db \<Rightarrow> nat \<times> db" where
  "fail_chunks E acct now [] d = (0, d)"
| "fail_chunks E acct now (c # cs) d =
     (let d1 = d\<lparr>runs := update_where (batch_target acct c) burn_row (runs d)\<rparr>;
          P = (\<lambda>r. batch_target acct c r \<and> MAX_ATTEMPTS E \<le> r_attempts r);
          n = count_where P (runs d1);
          (m, d') = fail_chunks E acct now cs (d1\<lparr>runs := update_where P (exhaust_row now) (runs d1)\<rparr>)
      in (n + m, d'))"

definition fail_batch :: "env \<Rightarrow> ulid \<Rightarrow> ulid list \<Rightarrow> instant \<Rightarrow> db \<Rightarrow> nat \<times> db" where
  "fail_batch E acct ids now d = fail_chunks E acct now (batched ID_IN_CHUNK ids) d"

subsection \<open>Reads\<close>

definition run_get :: "ulid \<Rightarrow> ulid \<Rightarrow> db \<Rightarrow> exn + run" where
  "run_get acct rid d =
     (case first (filter (\<lambda>r. r_id r = rid \<and> r_account r = acct) (runs d)) of
        None \<Rightarrow> Inl DoesNotExist | Some r \<Rightarrow> Inr r)"

definition has_prior_succeeded :: "ulid \<Rightarrow> ulid \<Rightarrow> ulid \<Rightarrow> db \<Rightarrow> bool" where
  "has_prior_succeeded acct wat exclude d \<longleftrightarrow>
     list_ex (\<lambda>r. r_account r = acct \<and> r_watch r = wat \<and> r_state r = SUCCEEDED \<and> r_id r \<noteq> exclude) (runs d)"

text \<open>The account's items whose source time is in a window (feeds/\_items.py).\<close>

definition occurred_in :: "instant option \<Rightarrow> instant option \<Rightarrow> instant option \<Rightarrow> bool" where
  "occurred_in since til occ \<longleftrightarrow>
     (case since of None \<Rightarrow> True | Some s \<Rightarrow> null_ge occ s) \<and>
     (case til of None \<Rightarrow> True | Some u \<Rightarrow> null_lt occ u)"

definition occurred_window_ids :: "ulid \<Rightarrow> instant option \<Rightarrow> instant option \<Rightarrow> db \<Rightarrow> exn + ulid set" where
  "occurred_window_ids acct since til d =
     (if since = None \<and> til = None then Inl ValueError
      else Inr (i_id ` set (filter (\<lambda>i. i_account i = acct \<and> occurred_in since til (i_occurred i))
                              (feed_items d))))"

definition in_run_windows :: "ulid \<Rightarrow> instant run_windows \<Rightarrow> db \<Rightarrow> run \<Rightarrow> bool" where
  "in_run_windows acct ws d r \<longleftrightarrow>
     (case completed_since ws of None \<Rightarrow> True | Some s \<Rightarrow> null_ge (r_completed r) s) \<and>
     (case completed_until ws of None \<Rightarrow> True | Some u \<Rightarrow> null_lt (r_completed r) u) \<and>
     (if occurred_since ws = None \<and> occurred_until ws = None then True
      else case occurred_window_ids acct (occurred_since ws) (occurred_until ws) d of
             Inl _ \<Rightarrow> False | Inr ids \<Rightarrow> r_item r \<in> ids)"

definition list_for_action :: "ulid \<Rightarrow> ulid \<Rightarrow> ulid option \<Rightarrow> ulid option \<Rightarrow> nat \<Rightarrow> watch_run_state option
    \<Rightarrow> instant run_windows \<Rightarrow> db \<Rightarrow> run list" where
  "list_for_action acct act wat after lmt st ws d =
     page_desc r_id after lmt
       (filter (\<lambda>r. r_account r = acct \<and> r_action r = act
                  \<and> (case wat of None \<Rightarrow> True | Some w \<Rightarrow> w = blank \<or> r_watch r = w)
                  \<and> (case st of None \<Rightarrow> True | Some s \<Rightarrow> r_state r = s)
                  \<and> in_run_windows acct ws d r) (runs d))"

record activity_summary =
  evaluated :: "watch_run_state \<Rightarrow> nat option"
  sum_pending :: nat
  sum_running :: nat
  sum_retrying :: nat

definition summary_for_action :: "ulid \<Rightarrow> ulid \<Rightarrow> instant \<Rightarrow> instant option \<Rightarrow> db \<Rightarrow> activity_summary" where
  "summary_for_action acct act since til d =
     (let base = filter (\<lambda>r. r_account r = acct \<and> r_action r = act) (runs d);
          ev = filter (\<lambda>r. null_ge (r_completed r) since
                 \<and> (case til of None \<Rightarrow> True | Some u \<Rightarrow> null_lt (r_completed r) u)) base
      in \<lparr>evaluated = (\<lambda>s. let n = count_where (\<lambda>r. r_state r = s) ev in if n = 0 then None else Some n),
          sum_pending = count_where (\<lambda>r. r_state r = PENDING) base,
          sum_running = count_where (\<lambda>r. r_state r = RUNNING) base,
          sum_retrying = count_where (\<lambda>r. r_state r = FAILED \<and> r_completed r = None) base\<rparr>)"

subsection \<open>Backfill selection\<close>

definition deletable_terminal :: "run \<Rightarrow> bool" where
  "deletable_terminal r \<longleftrightarrow> r_state r \<in> TERMINAL_STATES \<or> (r_state r = FAILED \<and> r_completed r \<noteq> None)"

definition succeeded_in_window :: "ulid \<Rightarrow> ulid \<Rightarrow> instant run_windows \<Rightarrow> db \<Rightarrow> run list" where
  "succeeded_in_window acct src ws d =
     filter (\<lambda>r. r_account r = acct \<and> r_action r = src \<and> r_state r = SUCCEEDED
               \<and> in_run_windows acct ws d r) (runs d)"

definition count_succeeded_feed_items :: "ulid \<Rightarrow> ulid \<Rightarrow> instant run_windows \<Rightarrow> db \<Rightarrow> nat" where
  "count_succeeded_feed_items acct src ws d = length (succeeded_in_window acct src ws d)"

definition succeeded_feed_item_ids :: "ulid \<Rightarrow> ulid \<Rightarrow> instant run_windows \<Rightarrow> db \<Rightarrow> ulid set" where
  "succeeded_feed_item_ids acct src ws d = r_item ` set (succeeded_in_window acct src ws d)"

definition run_of_items :: "ulid \<Rightarrow> ulid \<Rightarrow> ulid \<Rightarrow> ulid set \<Rightarrow> run \<Rightarrow> bool" where
  "run_of_items acct act wat ids r \<longleftrightarrow>
     r_account r = acct \<and> r_watch r = wat \<and> r_action r = act \<and> r_item r \<in> ids"

text \<open>The delete of a watch's runs, in the transaction that deletes the watch.\<close>

definition delete_watch_runs :: "ulid \<Rightarrow> ulid \<Rightarrow> db \<Rightarrow> db" where
  "delete_watch_runs acct wid d =
     d\<lparr>runs := delete_where (\<lambda>r. r_account r = acct \<and> r_watch r = wid) (runs d)\<rparr>"

definition delete_terminal_for_action :: "ulid \<Rightarrow> ulid \<Rightarrow> ulid \<Rightarrow> ulid set \<Rightarrow> db \<Rightarrow> nat \<times> db" where
  "delete_terminal_for_action acct act wat ids d =
     (let P = (\<lambda>r. deletable_terminal r \<and> run_of_items acct act wat ids r)
      in (count_where P (runs d), d\<lparr>runs := delete_where P (runs d)\<rparr>))"

definition count_runs_for_action :: "ulid \<Rightarrow> ulid \<Rightarrow> ulid \<Rightarrow> ulid set \<Rightarrow> bool \<Rightarrow> db \<Rightarrow> nat" where
  "count_runs_for_action acct act wat ids terminal_only d =
     count_where (\<lambda>r. run_of_items acct act wat ids r \<and> (terminal_only \<longrightarrow> deletable_terminal r)) (runs d)"

end
