(* ===== verification/Run_Table.thy ===== *)
theory Run_Table
  imports Run_Queue
begin

text \<open>
  The facts on the run table every later theory uses: the row invariant \<open>run_ok\<close> and the table
  invariant \<open>run_table\<close>, what each statement of the run services does to the rows in closed form
  (reap, claim, complete, the batch statements, the enqueues), and that each keeps the invariant.
\<close>

subsection \<open>The run invariant\<close>

text \<open>
  \<open>completed_at\<close> is set exactly when the run rests for good, a run that still has to be tried is
  under the attempts cap, and a running one has burned an attempt.
\<close>

definition run_ok :: "env \<Rightarrow> run \<Rightarrow> bool" where
  "run_ok E r \<longleftrightarrow> (r_completed r \<noteq> None \<longleftrightarrow> rests (MAX_ATTEMPTS E) (r_state r) (r_attempts r))
     \<and> r_attempts r \<le> MAX_ATTEMPTS E
     \<and> (r_state r = PENDING \<longrightarrow> r_attempts r < MAX_ATTEMPTS E)
     \<and> (r_state r = RUNNING \<longrightarrow> r_started r \<noteq> None \<and> 0 < r_attempts r)"

text \<open>The unique constraints, and every id in the table is one that was minted.\<close>

definition run_table :: "env \<Rightarrow> db \<Rightarrow> bool" where
  "run_table E d \<longleftrightarrow> list_all (run_ok E) (runs d) \<and> distinct (map r_id (runs d))
     \<and> distinct (map run_key (runs d)) \<and> r_id ` set (runs d) \<subseteq> mint E ` {..<drawn d}"

lemma run_tableI:
  "(\<And>r. r \<in> set (runs d) \<Longrightarrow> run_ok E r) \<Longrightarrow> distinct (map r_id (runs d)) \<Longrightarrow>
     distinct (map run_key (runs d)) \<Longrightarrow> r_id ` set (runs d) \<subseteq> mint E ` {..<drawn d} \<Longrightarrow> run_table E d"
  by (simp add: run_table_def list_all_iff)

lemma run_tableD:
  assumes "run_table E d"
  shows "r \<in> set (runs d) \<Longrightarrow> run_ok E r" and "distinct (map r_id (runs d))"
    and "distinct (map run_key (runs d))" and "r_id ` set (runs d) \<subseteq> mint E ` {..<drawn d}"
  using assms by (simp_all add: run_table_def list_all_iff)

text \<open>A statement that rewrites rows in place and keeps their keys.\<close>

lemma run_table_update:
  assumes tab: "run_table E d"
    and ok: "\<And>r. r \<in> set (runs d) \<Longrightarrow> P r \<Longrightarrow> run_ok E r \<Longrightarrow> run_ok E (f r)"
    and idk: "\<And>r. r_id (f r) = r_id r" and key: "\<And>r. run_key (f r) = run_key r"
  shows "run_table E (d\<lparr>runs := update_where P f (runs d)\<rparr>)"
proof (rule run_tableI)
  fix r assume "r \<in> set (runs (d\<lparr>runs := update_where P f (runs d)\<rparr>))"
  then obtain q where "q \<in> set (runs d)" "r = (if P q then f q else q)"
    by (auto simp: in_update_where)
  with ok[of q] run_tableD(1)[OF tab, of q] show "run_ok E r" by (auto split: if_splits)
next
  have ids: "map r_id (update_where P f (runs d)) = map r_id (runs d)"
    and keys: "map run_key (update_where P f (runs d)) = map run_key (runs d)"
    by (rule map_key_update_where, simp add: idk key)+
  show "distinct (map r_id (runs (d\<lparr>runs := update_where P f (runs d)\<rparr>)))"
    and "distinct (map run_key (runs (d\<lparr>runs := update_where P f (runs d)\<rparr>)))"
    using ids keys run_tableD[OF tab] by simp_all
  have "r_id ` set (update_where P f (runs d)) = r_id ` set (runs d)"
    using arg_cong[OF ids, of set] by simp
  then show "r_id ` set (runs (d\<lparr>runs := update_where P f (runs d)\<rparr>))
      \<subseteq> mint E ` {..<drawn (d\<lparr>runs := update_where P f (runs d)\<rparr>)}"
    using run_tableD(4)[OF tab] by simp
qed

lemma run_table_delete: "run_table E d \<Longrightarrow> run_table E (d\<lparr>runs := delete_where P (runs d)\<rparr>)"
  by (auto simp: run_table_def list_all_iff delete_where_def distinct_map inj_on_def)

lemma run_by_id:
  "run_table E d \<Longrightarrow> r \<in> set (runs d) \<Longrightarrow> q \<in> set (runs d) \<Longrightarrow> r_id r = r_id q \<Longrightarrow> r = q"
  by (auto simp: run_table_def distinct_map dest: inj_onD)

lemma get_run_unique:
  "distinct (map r_id (runs d)) \<Longrightarrow> r \<in> set (runs d) \<Longrightarrow> get_run (r_id r) d = Some r"
proof -
  assume dist: "distinct (map r_id (runs d))" and mem: "r \<in> set (runs d)"
  then obtain q where q: "get_run (r_id r) d = Some q"
    by (cases "get_run (r_id r) d") (auto simp: get_run_def filter_empty_conv)
  then have "q \<in> set (runs d)" "r_id q = r_id r" by (auto simp: get_run_def dest: first_in)
  with dist mem q show ?thesis by (auto simp: distinct_map dest: inj_onD)
qed

subsection \<open>Reaping: the stale runs, each by its attempts, and nothing else\<close>

definition reap_row :: "env \<Rightarrow> instant \<Rightarrow> run \<Rightarrow> run" where
  "reap_row E now r =
     (if MAX_ATTEMPTS E \<le> r_attempts r
      then r\<lparr>r_state := FAILED, r_error := TIMED_OUT_EXHAUSTED, r_completed := Some now\<rparr>
      else r\<lparr>r_state := FAILED, r_error := TIMED_OUT, r_completed := None\<rparr>)"

lemma reap_row_simps [simp]:
  "r_id (reap_row E now r) = r_id r" "run_key (reap_row E now r) = run_key r"
  "r_state (reap_row E now r) = FAILED" "r_attempts (reap_row E now r) = r_attempts r"
  "r_account (reap_row E now r) = r_account r" "r_action (reap_row E now r) = r_action r"
  by (simp_all add: reap_row_def run_key_def)

lemma reap_stale_eq:
  "reap_stale E now d =
     (count_where (stale_run E now) (runs d), d\<lparr>runs := update_where (stale_run E now) (reap_row E now) (runs d)\<rparr>)"
proof -
  obtain rows where rows_def: "rows = runs d" by simp
  let ?P1 = "\<lambda>r. stale_run E now r \<and> MAX_ATTEMPTS E \<le> r_attempts r"
  let ?P2 = "\<lambda>r. stale_run E now r \<and> r_attempts r < MAX_ATTEMPTS E"
  let ?f1 = "\<lambda>r. r\<lparr>r_state := FAILED, r_error := TIMED_OUT_EXHAUSTED, r_completed := Some now\<rparr>"
  let ?f2 = "\<lambda>r. r\<lparr>r_state := FAILED, r_error := TIMED_OUT, r_completed := None\<rparr>"
  have rows: "update_where ?P2 ?f2 (update_where ?P1 ?f1 rows) = update_where (stale_run E now) (reap_row E now) rows"
    by (induction rows) (auto simp: reap_row_def stale_run_def)
  have "count_where ?P1 rows + count_where ?P2 (update_where ?P1 ?f1 rows) = count_where (stale_run E now) rows"
    by (induction rows) (auto simp: stale_run_def)
  with rows show ?thesis by (simp add: reap_stale_def Let_def rows_def)
qed

lemma reap_row_ok: "run_ok E r \<Longrightarrow> stale_run E now r \<Longrightarrow> run_ok E (reap_row E now r)"
  by (auto simp: run_ok_def reap_row_def rests_def stale_run_def TERMINAL_STATES_def)

lemma run_table_reap: "run_table E d \<Longrightarrow> run_table E (snd (reap_stale E now d))"
  by (simp add: reap_stale_eq run_table_update reap_row_ok)

lemma reap_row_not_stale [simp]: "\<not> stale_run E now (reap_row E now' r)"
  by (simp add: stale_run_def)

lemma reap_leaves_none: "r \<in> set (runs (snd (reap_stale E now d))) \<Longrightarrow> \<not> stale_run E now r"
  by (auto simp: reap_stale_eq in_update_where split: if_splits) (metis reap_row_not_stale)

subsection \<open>Claiming: every due run once, under a fresh attempt\<close>

lemma claim_row_simps [simp]:
  "r_id (claim_row ts r) = r_id r" "run_key (claim_row ts r) = run_key r"
  "r_state (claim_row ts r) = RUNNING" "r_attempts (claim_row ts r) = Suc (r_attempts r)"
  "r_started (claim_row ts r) = Some ts" "r_account (claim_row ts r) = r_account r"
  "r_action (claim_row ts r) = r_action r" "r_watch (claim_row ts r) = r_watch r"
  "r_item (claim_row ts r) = r_item r" "r_completed (claim_row ts r) = r_completed r"
  by (simp_all add: claim_row_def run_key_def)

definition claim_guard :: "env \<Rightarrow> run \<Rightarrow> run \<Rightarrow> bool" where
  "claim_guard E cand r \<longleftrightarrow> r_id r = r_id cand \<and> r_state r = r_state cand \<and> r_attempts r < MAX_ATTEMPTS E"

lemma claim_one_eq:
  "claim_one E ts cand d =
     (if count_where (claim_guard E cand) (runs d) = 0 then None
      else get_run (r_id cand) (d\<lparr>runs := update_where (claim_guard E cand) (claim_row ts) (runs d)\<rparr>),
      d\<lparr>runs := update_where (claim_guard E cand) (claim_row ts) (runs d)\<rparr>)"
  by (simp add: claim_one_def Let_def claim_guard_def [abs_def])

lemma claim_row_ok:
  "run_ok E r \<Longrightarrow> r_state r \<in> CLAIMABLE_STATES \<Longrightarrow> r_attempts r < MAX_ATTEMPTS E \<Longrightarrow> run_ok E (claim_row ts r)"
  by (auto simp: run_ok_def rests_def)

lemma run_table_claim_one:
  assumes "run_table E d" "r_state cand \<in> CLAIMABLE_STATES"
  shows "run_table E (snd (claim_one E ts cand d))"
proof -
  have "run_table E (d\<lparr>runs := update_where (claim_guard E cand) (claim_row ts) (runs d)\<rparr>)"
    using assms by (intro run_table_update claim_row_ok) (auto simp: claim_guard_def)
  then show ?thesis by (simp add: claim_one_eq)
qed

lemma run_table_claim_all:
  "run_table E d \<Longrightarrow> \<forall>c \<in> set cs. r_state c \<in> CLAIMABLE_STATES \<Longrightarrow> run_table E (snd (claim_all E ts cs d))"
proof (induction cs arbitrary: d)
  case (Cons c cs)
  then have "run_table E (snd (claim_one E ts c d))" by (simp add: run_table_claim_one)
  with Cons show ?case by (simp add: case_prod_unfold Let_def)
qed simp

lemma claimable_candidates: "c \<in> set (claim_candidates E ts d) \<Longrightarrow> r_state c \<in> CLAIMABLE_STATES"
  by (auto simp: claim_candidates_def due_runs_def due_run_def)

lemma run_table_claim_due: "run_table E d \<Longrightarrow> run_table E (snd (claim_due E ts d))"
  using claimable_candidates by (auto simp: claim_due_def intro!: run_table_claim_all)

text \<open>The candidates, when nobody else writes: each is a row of the table, unchanged until its turn.\<close>

lemma claim_one_hit:
  assumes dist: "distinct (map r_id (runs d))" and c: "c \<in> set (runs d)" "r_attempts c < MAX_ATTEMPTS E"
  shows "claim_one E ts c d =
    (Some (claim_row ts c), d\<lparr>runs := update_where (\<lambda>r. r_id r = r_id c) (claim_row ts) (runs d)\<rparr>)"
proof -
  have only: "r = c" if "r \<in> set (runs d)" "r_id r = r_id c" for r
    using dist c that by (auto simp: distinct_map dest: inj_onD)
  let ?d = "d\<lparr>runs := update_where (\<lambda>r. r_id r = r_id c) (claim_row ts) (runs d)\<rparr>"
  have rows: "update_where (claim_guard E c) (claim_row ts) (runs d) =
      update_where (\<lambda>r. r_id r = r_id c) (claim_row ts) (runs d)"
    unfolding update_where_def using only c by (intro map_cong) (auto simp: claim_guard_def)
  have "count_where (claim_guard E c) (runs d) \<noteq> 0"
    using c by (auto simp: count_where_0 claim_guard_def)
  moreover have "get_run (r_id c) ?d = Some (claim_row ts c)"
  proof -
    have "map r_id (runs ?d) = map r_id (runs d)"
      by (simp add: map_key_update_where)
    then have "distinct (map r_id (runs ?d))" using dist by simp
    moreover have "claim_row ts c \<in> set (runs ?d)" using c by (auto simp: set_update_where)
    ultimately show ?thesis using get_run_unique[of ?d "claim_row ts c"] by simp
  qed
  ultimately show ?thesis by (simp add: claim_one_eq rows)
qed

lemma claim_all_hits:
  "distinct (map r_id (runs d)) \<Longrightarrow> distinct (map r_id cs) \<Longrightarrow> set cs \<subseteq> set (runs d) \<Longrightarrow>
   \<forall>c \<in> set cs. r_attempts c < MAX_ATTEMPTS E \<Longrightarrow>
     claim_all E ts cs d = (map (claim_row ts) cs,
       d\<lparr>runs := update_where (\<lambda>r. r_id r \<in> r_id ` set cs) (claim_row ts) (runs d)\<rparr>)"
proof (induction cs arbitrary: d)
  case Nil
  then show ?case by (simp add: update_where_never)
next
  case (Cons c cs)
  let ?d = "d\<lparr>runs := update_where (\<lambda>r. r_id r = r_id c) (claim_row ts) (runs d)\<rparr>"
  have dist: "distinct (map r_id (runs ?d))"
    using Cons.prems(1) by (simp add: map_key_update_where)
  have sub: "set cs \<subseteq> set (runs ?d)"
    using Cons.prems(2,3) by (auto simp: set_update_where image_iff)
  have twice: "update_where (\<lambda>r. r_id r \<in> r_id ` set cs) (claim_row ts) (runs ?d) =
      update_where (\<lambda>r. r_id r \<in> r_id ` set (c # cs)) (claim_row ts) (runs d)"
    using Cons.prems(2) by (auto simp: update_where_def image_iff)
  have "claim_all E ts cs ?d = (map (claim_row ts) cs,
      ?d\<lparr>runs := update_where (\<lambda>r. r_id r \<in> r_id ` set cs) (claim_row ts) (runs ?d)\<rparr>)"
    using Cons.prems by (intro Cons.IH dist sub) auto
  moreover have "claim_one E ts c d = (Some (claim_row ts c), ?d)"
    using Cons.prems by (intro claim_one_hit) auto
  ultimately show ?case using twice by simp
qed

lemma claim_due_eq:
  assumes "distinct (map r_id (runs d))"
  shows "claim_due E ts d = (map (claim_row ts) (claim_candidates E ts d),
    d\<lparr>runs := update_where (due_run E d ts) (claim_row ts) (runs d)\<rparr>)"
proof -
  have cand: "set (claim_candidates E ts d) = {r \<in> set (runs d). due_run E d ts r}"
    by (auto simp: claim_candidates_def due_runs_def)
  have "claim_due E ts d = (map (claim_row ts) (claim_candidates E ts d),
    d\<lparr>runs := update_where (\<lambda>r. r_id r \<in> r_id ` set (claim_candidates E ts d)) (claim_row ts) (runs d)\<rparr>)"
    unfolding claim_due_def
  proof (rule claim_all_hits)
    show "distinct (map r_id (claim_candidates E ts d))"
      using assms by (simp add: claim_candidates_def due_runs_def distinct_order_by distinct_map_filter)
  qed (use assms cand in \<open>auto simp: due_run_def\<close>)
  moreover have "update_where (\<lambda>r. r_id r \<in> r_id ` set (claim_candidates E ts d)) (claim_row ts) (runs d) =
      update_where (due_run E d ts) (claim_row ts) (runs d)"
    unfolding update_where_def using assms cand
    by (intro map_cong) (auto simp: distinct_map dest: inj_onD)
  ultimately show ?thesis by simp
qed

subsection \<open>Completing: the claim that is still current, once\<close>

definition complete_guard :: "run \<Rightarrow> run \<Rightarrow> bool" where
  "complete_guard run r \<longleftrightarrow> r_id r = r_id run \<and> r_state r = RUNNING \<and> r_attempts r = r_attempts run"

lemma complete_row_simps [simp]:
  "r_id (complete_row st res err dlv knd ct r) = r_id r"
  "run_key (complete_row st res err dlv knd ct r) = run_key r"
  "r_state (complete_row st res err dlv knd ct r) = st"
  "r_attempts (complete_row st res err dlv knd ct r) = r_attempts r"
  "r_completed (complete_row st res err dlv knd ct r) = ct"
  "r_started (complete_row st res err dlv knd ct r) = r_started r"
  "r_account (complete_row st res err dlv knd ct r) = r_account r"
  "r_watch (complete_row st res err dlv knd ct r) = r_watch r"
  "r_action (complete_row st res err dlv knd ct r) = r_action r"
  "r_item (complete_row st res err dlv knd ct r) = r_item r"
  "r_error (complete_row st res err dlv knd ct r) = err"
  "r_result (complete_row st res err dlv knd ct r) = res"
  by (simp_all add: complete_row_def run_key_def)

definition held :: "run \<Rightarrow> db \<Rightarrow> bool" where
  "held run d \<longleftrightarrow> count_where (complete_guard run) (runs d) \<noteq> 0"

lemma held_iff: "held run d \<longleftrightarrow> (\<exists>r \<in> set (runs d). complete_guard run r)"
  by (simp add: held_def count_where_0)

lemma complete_eq:
  "complete E acct run st res err dlv knd now d =
     (if r_account run \<noteq> acct then (Inl ValueError, d)
      else if held run d
        then (Inr (Some (complete_row st res err dlv knd (completion_ts E st (r_attempts run) now) run)),
              d\<lparr>runs := update_where (complete_guard run)
                  (complete_row st res err dlv knd (completion_ts E st (r_attempts run) now)) (runs d)\<rparr>)
        else (Inr None, d))"
proof (cases "held run d")
  case True
  then show ?thesis by (auto simp: complete_def Let_def held_def complete_guard_def [abs_def])
next
  case False
  then have none: "count_where (complete_guard run) (runs d) = 0" by (simp add: held_def)
  have "update_where (complete_guard run)
      (complete_row st res err dlv knd (completion_ts E st (r_attempts run) now)) (runs d) = runs d"
    using none by (auto simp: count_where_0 intro: update_where_never)
  with none False show ?thesis by (simp add: complete_def Let_def complete_guard_def [abs_def])
qed

lemma complete_row_ok:
  "run_ok E r \<Longrightarrow> complete_guard run r \<Longrightarrow> st \<noteq> PENDING \<Longrightarrow>
     run_ok E (complete_row st res err dlv knd (completion_ts E st (r_attempts run) now) r)"
  by (auto simp: run_ok_def complete_guard_def)

lemma run_table_complete:
  assumes "run_table E d" "st \<noteq> PENDING"
  shows "run_table E (snd (complete E acct run st res err dlv knd now d))"
proof -
  have "run_table E (d\<lparr>runs := update_where (complete_guard run)
      (complete_row st res err dlv knd (completion_ts E st (r_attempts run) now)) (runs d)\<rparr>)"
    using assms by (intro run_table_update complete_row_ok) auto
  with assms show ?thesis by (simp add: complete_eq)
qed

lemma complete_lost: "\<not> held run d \<Longrightarrow> r_account run = acct \<Longrightarrow>
    complete E acct run st res err dlv knd now d = (Inr None, d)"
  by (simp add: complete_eq)

lemma held_after_complete:
  assumes won: "fst (complete E acct run st res err dlv knd now d) = Inr (Some r')" and "st \<noteq> RUNNING"
    and same: "r_id run' = r_id run" "r_attempts run' = r_attempts run"
  shows "\<not> held run' (snd (complete E acct run st res err dlv knd now d))"
proof -
  let ?f = "complete_row st res err dlv knd (completion_ts E st (r_attempts run) now)"
  from won have "runs (snd (complete E acct run st res err dlv knd now d)) = update_where (complete_guard run) ?f (runs d)"
    by (simp add: complete_eq split: if_splits)
  moreover have "\<not> complete_guard run' (?f r)" for r using assms(2) by (simp add: complete_guard_def)
  moreover have "complete_guard run' = complete_guard run" using same by (simp add: complete_guard_def fun_eq_iff)
  ultimately show ?thesis by (auto simp: held_iff set_update_where)
qed

subsection \<open>Batches: the chunked statements are one statement\<close>

lemma batch_target_append:
  "batch_target acct (xs @ ys) r \<longleftrightarrow> batch_target acct xs r \<or> batch_target acct ys r"
  by (auto simp: batch_target_def)

lemma complete_chunks_eq:
  assumes "\<And>r. r_state (f r) \<noteq> PENDING"
  shows "complete_chunks E acct f css d =
    (count_where (batch_target acct (concat css)) (runs d),
     d\<lparr>runs := update_where (batch_target acct (concat css)) f (runs d)\<rparr>)"
proof (induction css arbitrary: d)
  case Nil
  have "\<not> batch_target acct [] r" for r by (simp add: batch_target_def)
  then show ?case by (simp add: update_where_never count_where_0)
next
  case (Cons c css)
  have out: "\<not> batch_target acct xs (f r)" for xs r using assms by (simp add: batch_target_def)
  have "count_where (batch_target acct c) rows
      + count_where (batch_target acct (concat css)) (update_where (batch_target acct c) f rows)
      = count_where (batch_target acct (c @ concat css)) rows" for rows
    by (induction rows) (auto simp: batch_target_append out)
  moreover have "update_where (batch_target acct (concat css)) f (update_where (batch_target acct c) f rows)
      = update_where (batch_target acct (c @ concat css)) f rows" for rows
    by (induction rows) (auto simp: batch_target_append out)
  ultimately show ?case by (simp add: Let_def Cons)
qed

lemma chunk_pos: "0 < ID_IN_CHUNK" "0 < ENQUEUE_CHUNK"
  by (simp_all add: ID_IN_CHUNK_def ENQUEUE_CHUNK_def)

lemma complete_batch_eq:
  "st \<noteq> PENDING \<Longrightarrow> complete_batch E acct ids st res err dlv knd now d =
    (count_where (batch_target acct ids) (runs d),
     d\<lparr>runs := update_where (batch_target acct ids) (complete_row st res err dlv knd (Some now)) (runs d)\<rparr>)"
  by (simp add: complete_batch_def complete_chunks_eq concat_batched chunk_pos)

definition fail_row :: "env \<Rightarrow> instant \<Rightarrow> run \<Rightarrow> run" where
  "fail_row E now r = (if MAX_ATTEMPTS E \<le> Suc (r_attempts r) then exhaust_row now (burn_row r) else burn_row r)"

lemma fail_row_simps [simp]:
  "r_id (fail_row E now r) = r_id r" "run_key (fail_row E now r) = run_key r"
  "r_attempts (fail_row E now r) = Suc (r_attempts r)" "r_account (fail_row E now r) = r_account r"
  "r_action (fail_row E now r) = r_action r" "r_watch (fail_row E now r) = r_watch r"
  by (simp_all add: fail_row_def burn_row_def exhaust_row_def run_key_def)

lemma fail_one_chunk:
  "update_where (\<lambda>r. batch_target acct c r \<and> MAX_ATTEMPTS E \<le> r_attempts r) (exhaust_row now)
     (update_where (batch_target acct c) burn_row rows) = update_where (batch_target acct c) (fail_row E now) rows"
  by (induction rows) (auto simp: fail_row_def burn_row_def batch_target_def)

lemma fail_one_count:
  "count_where (\<lambda>r. batch_target acct c r \<and> MAX_ATTEMPTS E \<le> r_attempts r)
     (update_where (batch_target acct c) burn_row rows) =
   count_where (\<lambda>r. batch_target acct c r \<and> MAX_ATTEMPTS E \<le> Suc (r_attempts r)) rows"
  by (induction rows) (auto simp: burn_row_def batch_target_def)

lemma fail_chunks_eq:
  "distinct (concat css) \<Longrightarrow> fail_chunks E acct now css d =
    (count_where (\<lambda>r. batch_target acct (concat css) r \<and> MAX_ATTEMPTS E \<le> Suc (r_attempts r)) (runs d),
     d\<lparr>runs := update_where (batch_target acct (concat css)) (fail_row E now) (runs d)\<rparr>)"
proof (induction css arbitrary: d)
  case Nil
  have "\<not> batch_target acct [] r" for r by (simp add: batch_target_def)
  then show ?case by (simp add: update_where_never count_where_0)
next
  case (Cons c css)
  have apart: "\<not> batch_target acct (concat css) (fail_row E now r)" if "batch_target acct c r" for r
    using that Cons.prems by (auto simp: batch_target_def)
  have apart': "\<not> batch_target acct (concat css) r" if "batch_target acct c r" for r
    using that Cons.prems by (auto simp: batch_target_def)
  have cnt: "count_where (\<lambda>r. batch_target acct c r \<and> MAX_ATTEMPTS E \<le> Suc (r_attempts r)) rows
      + count_where (\<lambda>r. batch_target acct (concat css) r \<and> MAX_ATTEMPTS E \<le> Suc (r_attempts r))
          (update_where (batch_target acct c) (fail_row E now) rows)
      = count_where (\<lambda>r. batch_target acct (c @ concat css) r \<and> MAX_ATTEMPTS E \<le> Suc (r_attempts r)) rows" for rows
    by (induction rows) (auto simp: batch_target_append apart dest: apart')
  have upd: "update_where (batch_target acct (concat css)) (fail_row E now)
        (update_where (batch_target acct c) (fail_row E now) rows)
      = update_where (batch_target acct (c @ concat css)) (fail_row E now) rows" for rows
    by (induction rows) (auto simp: batch_target_append apart)
  from Cons.prems have "distinct (concat css)" by simp
  with cnt upd show ?case by (simp add: Let_def fail_one_chunk fail_one_count Cons.IH)
qed

lemma fail_batch_eq:
  "distinct ids \<Longrightarrow> fail_batch E acct ids now d =
    (count_where (\<lambda>r. batch_target acct ids r \<and> MAX_ATTEMPTS E \<le> Suc (r_attempts r)) (runs d),
     d\<lparr>runs := update_where (batch_target acct ids) (fail_row E now) (runs d)\<rparr>)"
  by (simp add: fail_batch_def fail_chunks_eq concat_batched chunk_pos)

lemma fail_row_ok: "run_ok E r \<Longrightarrow> batch_target acct ids r \<Longrightarrow> run_ok E (fail_row E now r)"
  by (auto simp: run_ok_def rests_def batch_target_def fail_row_def exhaust_row_def burn_row_def)

lemma run_table_fail_batch:
  "run_table E d \<Longrightarrow> distinct ids \<Longrightarrow> run_table E (snd (fail_batch E acct ids now d))"
  by (simp add: fail_batch_eq run_table_update fail_row_ok)

lemma run_table_complete_batch:
  assumes "run_table E d" "st \<in> TERMINAL_STATES"
  shows "run_table E (snd (complete_batch E acct ids st res err dlv knd now d))"
proof -
  have "run_ok E (complete_row st res err dlv knd (Some now) r)" if "run_ok E r" for r
    using that assms(2) by (auto simp: run_ok_def rests_def)
  with assms show ?thesis by (auto simp: complete_batch_eq intro!: run_table_update)
qed

subsection \<open>Enqueueing: exactly the missing runs, in order\<close>

definition run_keys :: "db \<Rightarrow> (ulid \<times> ulid \<times> ulid \<times> ulid) set" where
  "run_keys d = run_key ` set (runs d)"

definition fresh_items :: "ulid \<Rightarrow> ulid \<Rightarrow> ulid \<Rightarrow> ulid list \<Rightarrow> db \<Rightarrow> ulid list" where
  "fresh_items acct wat act ids d = filter (\<lambda>f. (acct, wat, act, f) \<notin> run_keys d) ids"

definition new_rows :: "env \<Rightarrow> ulid \<Rightarrow> ulid \<Rightarrow> ulid \<Rightarrow> string \<Rightarrow> instant \<Rightarrow> ulid list \<Rightarrow> nat \<Rightarrow> run list" where
  "new_rows E acct wat act kind sched fs n =
     map2 (\<lambda>f i. pending_run acct wat act kind f sched blank (mint E i)) fs [n..<n + length fs]"

lemma new_rows_Nil [simp]: "new_rows E acct wat act kind sched [] n = []"
  by (simp add: new_rows_def)

lemma length_new_rows [simp]: "length (new_rows E acct wat act kind sched fs n) = length fs"
  by (simp add: new_rows_def)

lemma new_rows_append:
  "new_rows E acct wat act kind sched (fs @ gs) n =
     new_rows E acct wat act kind sched fs n @ new_rows E acct wat act kind sched gs (n + length fs)"
proof -
  have "[n..<n + length (fs @ gs)] = [n..<n + length fs] @ [n + length fs..<n + length fs + length gs]"
    using upt_add_eq_append[of n "n + length fs" "length gs"] by (simp add: add.assoc)
  then show ?thesis by (simp add: new_rows_def)
qed

lemma new_rows_keys [simp]:
  "map run_key (new_rows E acct wat act kind sched fs n) = map (\<lambda>f. (acct, wat, act, f)) fs"
  unfolding new_rows_def by (rule nth_equalityI) simp_all

lemma new_rows_ids [simp]:
  "map r_id (new_rows E acct wat act kind sched fs n) = map (mint E) [n..<n + length fs]"
  unfolding new_rows_def by (rule nth_equalityI) simp_all

lemma new_rows_in:
  assumes "r \<in> set (new_rows E acct wat act kind sched fs n)"
  shows "\<exists>f i. r = pending_run acct wat act kind f sched blank (mint E i) \<and> f \<in> set fs \<and> n \<le> i \<and> i < n + length fs"
proof -
  from assms obtain f i where "(f, i) \<in> set (zip fs [n..<n + length fs])"
    and r: "r = pending_run acct wat act kind f sched blank (mint E i)"
    by (auto simp: new_rows_def)
  then have "f \<in> set fs" "i \<in> set [n..<n + length fs]" by (auto dest: set_zip_leftD set_zip_rightD)
  with r show ?thesis by auto
qed

lemma bulk_create_runs_eq:
  "bulk_create_runs mks E d =
     d\<lparr>drawn := drawn d + length mks,
       runs := insert_ignore run_key (map2 (\<lambda>mk i. mk (mint E i)) mks [drawn d..<drawn d + length mks]) (runs d)\<rparr>"
proof -
  have "map (\<lambda>i. mint E (drawn d + i)) [0..<length mks] = map (mint E) [drawn d..<drawn d + length mks]"
    by (rule nth_equalityI) simp_all
  then show ?thesis
    by (simp add: bulk_create_runs_def new_ids_def zip_map2 case_prod_unfold o_def)
qed

lemma enqueue_chunk_eq:
  assumes "length ids \<le> ENQUEUE_CHUNK" "distinct ids"
  shows "enqueue_chunk E acct wat act kind sched ids d =
    (let fs = fresh_items acct wat act ids d
     in (Inr (length fs), d\<lparr>drawn := drawn d + length fs,
                            runs := runs d @ new_rows E acct wat act kind sched fs (drawn d)\<rparr>))"
proof -
  let ?fs = "fresh_items acct wat act ids d"
  let ?present = "r_item ` {r \<in> set (runs d). r_account r = acct \<and> r_watch r = wat \<and> r_action r = act
      \<and> r_item r \<in> set ids}"
  have present: "filter (\<lambda>f. f \<notin> ?present) ids = ?fs"
    by (auto simp: fresh_items_def run_keys_def run_key_def image_iff intro!: filter_cong)
  have rows: "map2 (\<lambda>mk i. mk (mint E i)) (map (\<lambda>f. pending_run acct wat act kind f sched blank) ?fs)
      [drawn d..<drawn d + length ?fs] = new_rows E acct wat act kind sched ?fs (drawn d)"
    by (simp add: new_rows_def zip_map1 case_prod_unfold o_def)
  have "insert_ignore run_key (new_rows E acct wat act kind sched ?fs (drawn d)) (runs d)
      = runs d @ new_rows E acct wat act kind sched ?fs (drawn d)"
  proof (rule insert_ignore_all_new)
    show "distinct (map run_key (new_rows E acct wat act kind sched ?fs (drawn d)))"
      using assms(2) by (simp add: distinct_map inj_on_def fresh_items_def)
    have "run_key ` set (new_rows E acct wat act kind sched ?fs (drawn d)) = (\<lambda>f. (acct, wat, act, f)) ` set ?fs"
      using arg_cong[OF new_rows_keys, of set] by (simp only: set_map)
    then show "run_key ` set (new_rows E acct wat act kind sched ?fs (drawn d)) \<inter> run_key ` set (runs d) = {}"
      by (auto simp: fresh_items_def run_keys_def)
  qed
  then have bulk: "bulk_create_runs (map (\<lambda>f. pending_run acct wat act kind f sched blank) ?fs) E d =
      d\<lparr>drawn := drawn d + length ?fs, runs := runs d @ new_rows E acct wat act kind sched ?fs (drawn d)\<rparr>"
    by (simp add: bulk_create_runs_eq rows)
  show ?thesis
  proof (cases "?fs = []")
    case True
    then show ?thesis using assms(1) by (simp add: enqueue_chunk_def Let_def present)
  next
    case False
    then show ?thesis using assms(1) bulk by (simp add: enqueue_chunk_def Let_def present)
  qed
qed

lemma run_keys_append: "run_keys (d\<lparr>drawn := n, runs := runs d @ rs\<rparr>) = run_keys d \<union> run_key ` set rs"
  by (simp add: run_keys_def image_Un)

lemma run_key_new_rows:
  "run_key ` set (new_rows E acct wat act kind sched fs n) = (\<lambda>f. (acct, wat, act, f)) ` set fs"
  using arg_cong[OF new_rows_keys, of set] by (simp only: set_map)

lemma enqueue_chunks_eq:
  "\<forall>c \<in> set css. length c \<le> ENQUEUE_CHUNK \<Longrightarrow> distinct (concat css) \<Longrightarrow>
   enqueue_chunks E acct wat act kind sched css d =
    (let fs = fresh_items acct wat act (concat css) d
     in (Inr (length fs), d\<lparr>drawn := drawn d + length fs,
                            runs := runs d @ new_rows E acct wat act kind sched fs (drawn d)\<rparr>))"
proof (induction css arbitrary: d)
  case Nil
  then show ?case by (simp add: fresh_items_def)
next
  case (Cons c css)
  let ?fs = "fresh_items acct wat act c d" and ?gs = "fresh_items acct wat act (concat css) d"
  let ?d = "d\<lparr>drawn := drawn d + length ?fs, runs := runs d @ new_rows E acct wat act kind sched ?fs (drawn d)\<rparr>"
  have "enqueue_chunk E acct wat act kind sched c d = (Inr (length ?fs), ?d)"
    using Cons.prems by (subst enqueue_chunk_eq) (simp_all add: Let_def)
  moreover have "fresh_items acct wat act (concat css) ?d = ?gs"
    unfolding fresh_items_def run_keys_append run_key_new_rows
    using Cons.prems(2) by (intro filter_cong) auto
  then have "enqueue_chunks E acct wat act kind sched css ?d =
      (Inr (length ?gs), ?d\<lparr>drawn := drawn ?d + length ?gs,
         runs := runs ?d @ new_rows E acct wat act kind sched ?gs (drawn ?d)\<rparr>)"
    using Cons.prems by (subst Cons.IH) (simp_all add: Let_def)
  moreover have "fresh_items acct wat act (concat (c # css)) d = ?fs @ ?gs"
    by (simp add: fresh_items_def)
  ultimately show ?case by (simp add: new_rows_append add.assoc)
qed

lemma enqueue_many_eq:
  "distinct ids \<Longrightarrow> enqueue_many E acct wat act kind sched ids d =
    (let fs = fresh_items acct wat act ids d
     in (Inr (length fs), d\<lparr>drawn := drawn d + length fs,
                            runs := runs d @ new_rows E acct wat act kind sched fs (drawn d)\<rparr>))"
  unfolding enqueue_many_def
  by (subst enqueue_chunks_eq) (auto simp: concat_batched chunk_pos dest: batched_lengths[OF chunk_pos(2)])

lemma pending_ok: "0 < MAX_ATTEMPTS E \<Longrightarrow> run_ok E (pending_run acct wat act kind item sched prior rid)"
  by (simp add: run_ok_def rests_def)

text \<open>Any bulk insert of fresh pending rows keeps the table invariant, conflicts or not.\<close>

lemma mint_fresh_ids:
  assumes "mints_fresh E" "r_id ` set (runs d) \<subseteq> mint E ` {..<drawn d}" "drawn d \<le> n"
  shows "set (map (mint E) [n..<m]) \<inter> r_id ` set (runs d) = {}"
proof (rule minted_disjoint[OF assms(1)])
  have "mint E ` {..<drawn d} \<subseteq> mint E ` {..<n}" using assms(3) by (intro image_mono) auto
  with assms(2) show "r_id ` set (runs d) \<subseteq> mint E ` {..<n}" by blast
qed

lemma run_table_insert:
  assumes tab: "run_table E d" and fresh: "mints_fresh E"
    and ok: "\<And>r. r \<in> set rs \<Longrightarrow> run_ok E r"
    and ids: "map r_id rs = map (mint E) [drawn d..<drawn d + length rs]"
  shows "run_table E (d\<lparr>drawn := drawn d + length rs, runs := insert_ignore run_key rs (runs d)\<rparr>)"
proof -
  have sub: "set (insert_ignore run_key rs (runs d)) \<subseteq> set (runs d) \<union> set rs"
    by (rule set_insert_ignore_subset)
  have "distinct (map r_id (runs d) @ map r_id rs)"
    using mint_fresh_ids[OF fresh run_tableD(4)[OF tab] order_refl, of "drawn d + length rs"]
      run_tableD(2)[OF tab] fresh
    by (auto simp: ids distinct_map mints_fresh_def intro: inj_on_subset)
  then have "distinct (map r_id (insert_ignore run_key rs (runs d)))" by (rule distinct_insert_ignore_other)
  moreover have new: "r_id ` set rs = mint E ` {drawn d..<drawn d + length rs}"
    using arg_cong[OF ids, of set] by simp
  have "r_id ` set (insert_ignore run_key rs (runs d)) \<subseteq> mint E ` {..<drawn d + length rs}"
  proof -
    have "r_id r \<in> mint E ` {..<drawn d + length rs}" if "r \<in> set (insert_ignore run_key rs (runs d))" for r
    proof (cases "r \<in> set rs")
      case True
      then have "r_id r \<in> mint E ` {drawn d..<drawn d + length rs}" using new by blast
      then show ?thesis by auto
    next
      case False
      with that sub have "r \<in> set (runs d)" by blast
      with run_tableD(4)[OF tab] show ?thesis by auto
    qed
    then show ?thesis by blast
  qed
  ultimately show ?thesis
    using tab sub ok by (auto simp: run_table_def list_all_iff distinct_insert_ignore)
qed

lemma run_table_bulk:
  assumes tab: "run_table E d" and fresh: "mints_fresh E"
    and ok: "\<And>mk i. mk \<in> set mks \<Longrightarrow> run_ok E (mk i) \<and> r_id (mk i) = i"
  shows "run_table E (bulk_create_runs mks E d)"
proof -
  let ?rs = "map2 (\<lambda>mk i. mk (mint E i)) mks [drawn d..<drawn d + length mks]"
  have "map r_id ?rs = map (mint E) [drawn d..<drawn d + length ?rs]"
    using ok by (intro nth_equalityI) (simp_all add: nth_mem)
  moreover have "run_ok E r" if "r \<in> set ?rs" for r using that ok by (auto dest: set_zip_leftD)
  ultimately have "run_table E (d\<lparr>drawn := drawn d + length ?rs, runs := insert_ignore run_key ?rs (runs d)\<rparr>)"
    by (intro run_table_insert tab fresh)
  then show ?thesis by (simp add: bulk_create_runs_eq)
qed

lemma run_table_advance:
  "run_table E d \<Longrightarrow> mints_fresh E \<Longrightarrow> 0 < MAX_ATTEMPTS E \<Longrightarrow>
     run_table E (enqueue_advance_batch E acct act kind sched rows d)"
  by (auto simp: enqueue_advance_batch_def pending_ok intro!: run_table_bulk)

lemma run_table_enqueue_many:
  assumes "run_table E d" "mints_fresh E" "0 < MAX_ATTEMPTS E" "distinct ids"
  shows "run_table E (snd (enqueue_many E acct wat act kind sched ids d))"
proof -
  let ?fs = "fresh_items acct wat act ids d"
  let ?rs = "new_rows E acct wat act kind sched ?fs (drawn d)"
  have "insert_ignore run_key ?rs (runs d) = runs d @ ?rs"
  proof (rule insert_ignore_all_new)
    show "distinct (map run_key ?rs)" using assms(4) by (simp add: distinct_map inj_on_def fresh_items_def)
    show "run_key ` set ?rs \<inter> run_key ` set (runs d) = {}"
      by (auto simp: run_key_new_rows fresh_items_def run_keys_def)
  qed
  moreover have "run_ok E r" if "r \<in> set ?rs" for r using new_rows_in[OF that] assms(3) by (auto simp: pending_ok)
  then have "run_table E (d\<lparr>drawn := drawn d + length ?rs, runs := insert_ignore run_key ?rs (runs d)\<rparr>)"
    using assms by (intro run_table_insert) auto
  ultimately show ?thesis using assms(4) by (simp add: enqueue_many_eq Let_def)
qed

lemma run_table_enqueue:
  assumes "run_table E d" "mints_fresh E" "0 < MAX_ATTEMPTS E"
  shows "run_table E (snd (enqueue E acct wat act kind item sched prior d))"
proof (cases "(acct, wat, act, item) \<in> run_key ` set (runs d)")
  case True
  then show ?thesis using assms by (simp add: enqueue_def)
next
  case False
  let ?r = "pending_run acct wat act kind item sched prior (mint E (drawn d))"
  have "run_table E (d\<lparr>drawn := drawn d + length [?r], runs := insert_ignore run_key [?r] (runs d)\<rparr>)"
    using assms by (intro run_table_insert) (auto simp: pending_ok)
  with False show ?thesis by (simp add: enqueue_def new_id_def Let_def)
qed

text \<open>The batch writes of the digest flush, which send their ids in chunks, are one statement each: a
  batch completion settles exactly the listed runs that are still pending, a batch failure burns one
  attempt of each and rests those whose attempts are then used up.\<close>

lemma batches_are_one_statement:
  assumes "distinct ids" "st \<noteq> PENDING"
  shows "complete_batch E acct ids st res err dlv knd now d =
      (count_where (batch_target acct ids) (runs d),
       d\<lparr>runs := map (\<lambda>r. if batch_target acct ids r then complete_row st res err dlv knd (Some now) r else r) (runs d)\<rparr>)
    \<and> fail_batch E acct ids now d =
      (count_where (\<lambda>r. batch_target acct ids r \<and> MAX_ATTEMPTS E \<le> Suc (r_attempts r)) (runs d),
       d\<lparr>runs := map (\<lambda>r. if batch_target acct ids r then
          (if MAX_ATTEMPTS E \<le> Suc (r_attempts r) then exhaust_row now (burn_row r) else burn_row r) else r) (runs d)\<rparr>)"
proof
  show "complete_batch E acct ids st res err dlv knd now d =
      (count_where (batch_target acct ids) (runs d),
       d\<lparr>runs := map (\<lambda>r. if batch_target acct ids r then complete_row st res err dlv knd (Some now) r else r) (runs d)\<rparr>)"
    using assms(2) by (simp add: complete_batch_eq update_where_def)
  show "fail_batch E acct ids now d =
      (count_where (\<lambda>r. batch_target acct ids r \<and> MAX_ATTEMPTS E \<le> Suc (r_attempts r)) (runs d),
       d\<lparr>runs := map (\<lambda>r. if batch_target acct ids r then
          (if MAX_ATTEMPTS E \<le> Suc (r_attempts r) then exhaust_row now (burn_row r) else burn_row r) else r) (runs d)\<rparr>)"
    unfolding fail_batch_eq[OF assms(1)] update_where_def fail_row_def by (rule refl)
qed

end
