(* ===== verification/Digest_Windows.thy ===== *)
theory Digest_Windows
  imports Run_Table
begin

text \<open>
  The per-action digest window (services/digest.py): the first arrival opens it, later ones join
  without moving its close, and it is closed only when the action has no pending run left. The
  row lock each method takes makes it one atomic step, which is what a definition is here.
  \<open>not_stranded\<close> is the coordination invariant: a pending run of an action that has a window row,
  which the drain will not claim, belongs to an open window, which the flush will find.
\<close>

definition iter_due :: "instant \<Rightarrow> db \<Rightarrow> digest_window list" where
  "iter_due now d = order_by (\<lambda>w. case dw_close w of Some t \<Rightarrow> t | None \<Rightarrow> 0)
     (filter (\<lambda>w. dw_close w \<noteq> None \<and> null_le (dw_close w) now) (windows d))"

definition is_window :: "ulid \<Rightarrow> ulid \<Rightarrow> digest_window \<Rightarrow> bool" where
  "is_window acct act w \<longleftrightarrow> dw_account w = acct \<and> dw_action w = act"

definition get_window :: "ulid \<Rightarrow> ulid \<Rightarrow> db \<Rightarrow> digest_window option" where
  "get_window acct act d = first (filter (is_window acct act) (windows d))"

text \<open>\<open>select_for_update().get_or_create(account_id, action_id, defaults={close_at: None})\<close>.\<close>

definition ensure_window :: "env \<Rightarrow> ulid \<Rightarrow> ulid \<Rightarrow> db \<Rightarrow> digest_window \<times> db" where
  "ensure_window E acct act d =
     (case get_window acct act d of
        Some w \<Rightarrow> (w, d)
      | None \<Rightarrow>
          let (wid, d') = new_id E d;
              w = \<lparr>dw_id = wid, dw_account = acct, dw_action = act, dw_close = None\<rparr>
          in (w, d'\<lparr>windows := windows d' @ [w]\<rparr>))"

definition open_window :: "env \<Rightarrow> ulid \<Rightarrow> ulid \<Rightarrow> int \<Rightarrow> instant \<Rightarrow> db \<Rightarrow> instant \<times> db" where
  "open_window E acct act interval now d =
     (let (w, d1) = ensure_window E acct act d
      in case dw_close w of
           Some t \<Rightarrow> (t, d1)
         | None \<Rightarrow> (now + seconds interval,
             d1\<lparr>windows := update_where (is_window acct act)
                   (\<lambda>w. w\<lparr>dw_close := Some (now + seconds interval)\<rparr>) (windows d1)\<rparr>))"

definition close_if_drained :: "ulid \<Rightarrow> ulid \<Rightarrow> db \<Rightarrow> bool \<times> db" where
  "close_if_drained acct act d =
     (case get_window acct act d of
        None \<Rightarrow> (True, d)
      | Some w \<Rightarrow>
          if list_ex (pending_of acct act) (runs d) then (False, d)
          else (True, d\<lparr>windows := update_where (is_window acct act) (\<lambda>w. w\<lparr>dw_close := None\<rparr>) (windows d)\<rparr>))"

subsection \<open>Closed forms\<close>

lemma get_window_None: "get_window acct act d = None \<longleftrightarrow> \<not> has_window d acct act"
  by (auto simp: get_window_def has_window_def filter_empty_conv list_ex_iff is_window_def)

lemma get_window_Some:
  "get_window acct act d = Some w \<Longrightarrow> w \<in> set (windows d) \<and> dw_account w = acct \<and> dw_action w = act"
  by (auto simp: get_window_def is_window_def dest!: first_in)

lemma has_window_iff: "has_window d acct act \<longleftrightarrow> (\<exists>w \<in> set (windows d). is_window acct act w)"
  by (simp add: has_window_def list_ex_iff is_window_def)

definition window_table :: "db \<Rightarrow> bool" where
  "window_table d \<longleftrightarrow> distinct (map window_key (windows d))"

lemma window_unique:
  "window_table d \<Longrightarrow> v \<in> set (windows d) \<Longrightarrow> w \<in> set (windows d) \<Longrightarrow> is_window acct act v \<Longrightarrow>
     is_window acct act w \<Longrightarrow> v = w"
  unfolding window_table_def distinct_map by (auto simp: is_window_def window_key_def elim!: inj_onD)

lemma get_window_unique:
  assumes "window_table d" "w \<in> set (windows d)" "is_window acct act w"
  shows "get_window acct act d = Some w"
proof -
  obtain v where v: "get_window acct act d = Some v"
    using assms by (cases "get_window acct act d") (auto simp: get_window_None has_window_iff)
  with window_unique[OF assms(1) _ assms(2) _ assms(3)] get_window_Some[OF v] show ?thesis
    by (auto simp: is_window_def)
qed

text \<open>The open window of an action: at most one, and its close time.\<close>

definition open_until :: "ulid \<Rightarrow> ulid \<Rightarrow> db \<Rightarrow> instant option" where
  "open_until acct act d = (case get_window acct act d of None \<Rightarrow> None | Some w \<Rightarrow> dw_close w)"

lemma get_window_cong: "windows d = windows d' \<Longrightarrow> get_window acct act d = get_window acct act d'"
  by (simp add: get_window_def)

lemma get_window_append:
  "get_window acct act (d\<lparr>windows := ws @ [w]\<rparr>) =
     (case get_window acct act (d\<lparr>windows := ws\<rparr>) of Some v \<Rightarrow> Some v
      | None \<Rightarrow> if is_window acct act w then Some w else None)"
  by (auto simp: get_window_def first_def split: list.splits)

lemma get_window_update:
  assumes "\<And>w. window_key (f w) = window_key w"
  shows "get_window acct act (d\<lparr>windows := update_where P f (windows d)\<rparr>) =
     map_option (\<lambda>w. if P w then f w else w) (get_window acct act d)"
proof -
  have same: "is_window acct act (f w) = is_window acct act w" for w
    using assms[of w] by (auto simp: is_window_def window_key_def)
  have "first (filter (is_window acct act) (update_where P f rows)) =
      map_option (\<lambda>w. if P w then f w else w) (first (filter (is_window acct act) rows))" for rows
    by (induction rows) (auto simp: same)
  then show ?thesis by (simp add: get_window_def)
qed

lemma ensure_window_get:
  "get_window acct act (snd (ensure_window E acct act d)) = Some (fst (ensure_window E acct act d))
   \<and> dw_close (fst (ensure_window E acct act d)) = open_until acct act d"
proof (cases "get_window acct act d")
  case None
  then have "get_window acct act (d\<lparr>drawn := n, windows := windows d\<rparr>) = None" for n by (simp add: get_window_def)
  with None show ?thesis
    by (simp add: ensure_window_def new_id_def Let_def open_until_def)
      (simp add: get_window_def filter_empty_conv is_window_def)
qed (simp add: ensure_window_def open_until_def)

lemma open_window_get:
  "open_until acct act (snd (open_window E acct act interval now d)) = Some (fst (open_window E acct act interval now d))
   \<and> fst (open_window E acct act interval now d) =
       (case open_until acct act d of Some t \<Rightarrow> t | None \<Rightarrow> now + seconds interval)"
proof -
  obtain w d1 where e: "ensure_window E acct act d = (w, d1)" by fastforce
  then have w: "get_window acct act d1 = Some w" "dw_close w = open_until acct act d"
    using ensure_window_get[of acct act E d] by simp_all
  have "is_window acct act w" using get_window_Some[OF w(1)] by (simp add: is_window_def)
  with w e show ?thesis
    by (cases "open_until acct act d")
      (simp_all add: open_window_def open_until_def get_window_update window_key_def)
qed

subsection \<open>Frames\<close>

lemma open_window_frame [frame_simps]:
  "runs (snd (open_window E acct act interval now d)) = runs d"
  "actions (snd (open_window E acct act interval now d)) = actions d"
  "watches (snd (open_window E acct act interval now d)) = watches d"
  "feed_items (snd (open_window E acct act interval now d)) = feed_items d"
  "deliveries (snd (open_window E acct act interval now d)) = deliveries d"
  "paths (snd (open_window E acct act interval now d)) = paths d"
  "watch_feeds (snd (open_window E acct act interval now d)) = watch_feeds d"
  "calls (snd (open_window E acct act interval now d)) = calls d"
  "feeds (snd (open_window E acct act interval now d)) = feeds d"
  by (auto simp: open_window_def ensure_window_def new_id_def Let_def split: option.splits prod.splits)

lemma open_window_drawn: "drawn d \<le> drawn (snd (open_window E acct act interval now d))"
  by (auto simp: open_window_def ensure_window_def new_id_def Let_def split: option.splits prod.splits)

lemma close_if_drained_frame [frame_simps]:
  "runs (snd (close_if_drained acct act d)) = runs d"
  "actions (snd (close_if_drained acct act d)) = actions d"
  "watches (snd (close_if_drained acct act d)) = watches d"
  "feed_items (snd (close_if_drained acct act d)) = feed_items d"
  "deliveries (snd (close_if_drained acct act d)) = deliveries d"
  "drawn (snd (close_if_drained acct act d)) = drawn d"
  "calls (snd (close_if_drained acct act d)) = calls d"
  by (auto simp: close_if_drained_def split: option.splits)

lemma run_table_open_window: "run_table E d \<Longrightarrow> run_table E (snd (open_window E acct act interval now d))"
proof -
  assume tab: "run_table E d"
  have "mint E ` {..<drawn d} \<subseteq> mint E ` {..<drawn (snd (open_window E acct act interval now d))}"
    using open_window_drawn[of d E acct act interval now] by (intro image_mono) auto
  with tab show ?thesis unfolding run_table_def frame_simps by blast
qed

lemma run_table_close: "run_table E d \<Longrightarrow> run_table E (snd (close_if_drained acct act d))"
  by (simp add: run_table_def frame_simps)

lemma get_window_other:
  assumes "(acct', act') \<noteq> (acct, act)"
  shows "get_window acct' act' (snd (open_window E acct act interval now d)) = get_window acct' act' d"
    and "get_window acct' act' (snd (close_if_drained acct act d)) = get_window acct' act' d"
proof -
  have apart: "\<not> is_window acct act w" if "is_window acct' act' w" for w using that assms by (auto simp: is_window_def)
  have upd: "get_window acct' act' (e\<lparr>windows := update_where (is_window acct act) (\<lambda>w. w\<lparr>dw_close := c\<rparr>) (windows e)\<rparr>)
      = get_window acct' act' e" for c e
  proof -
    have "filter (is_window acct' act') (update_where (is_window acct act) (\<lambda>w. w\<lparr>dw_close := c\<rparr>) (windows e))
        = filter (is_window acct' act') (windows e)"
      by (rule filter_update_same) (use apart in \<open>auto simp: is_window_def\<close>)
    then show ?thesis by (simp add: get_window_def)
  qed
  have app: "get_window acct' act' (d\<lparr>drawn := n, windows := windows d @ [w]\<rparr>) = get_window acct' act' d"
    if "is_window acct act w" for w n
    using that assms by (auto simp: get_window_def is_window_def)
  show "get_window acct' act' (snd (close_if_drained acct act d)) = get_window acct' act' d"
    by (simp add: close_if_drained_def upd split: option.split)
  have "get_window acct' act' (snd (ensure_window E acct act d)) = get_window acct' act' d"
    using app by (auto simp: ensure_window_def new_id_def Let_def is_window_def split: option.split)
  then show "get_window acct' act' (snd (open_window E acct act interval now d)) = get_window acct' act' d"
    by (simp add: open_window_def case_prod_unfold Let_def upd split: option.split)
qed

lemma has_window_get: "has_window d acct act \<longleftrightarrow> get_window acct act d \<noteq> None"
  by (simp add: get_window_None)

lemma has_window_open_window:
  "has_window (snd (open_window E acct act interval now d)) acct' act' \<longleftrightarrow>
     (acct', act') = (acct, act) \<or> has_window d acct' act'"
proof (cases "(acct', act') = (acct, act)")
  case True
  then show ?thesis using open_window_get[of acct act E interval now d]
    by (auto simp: open_until_def has_window_get split: option.splits)
next
  case False
  then show ?thesis using False get_window_other(1)[OF False, of E interval now d]
    by (auto simp: has_window_get)
qed

subsection \<open>Closing\<close>

lemma close_if_drained_True:
  assumes "fst (close_if_drained acct act d)"
  shows "has_window d acct act \<Longrightarrow> \<not> list_ex (pending_of acct act) (runs d)"
    and "open_until acct act (snd (close_if_drained acct act d)) = None"
  using assms
  by (auto simp: close_if_drained_def open_until_def get_window_update window_key_def is_window_def
      has_window_get split: option.splits if_splits dest: get_window_Some)

lemma close_if_drained_False:
  "\<not> fst (close_if_drained acct act d) \<Longrightarrow>
     snd (close_if_drained acct act d) = d \<and> list_ex (pending_of acct act) (runs d) \<and> has_window d acct act"
  by (simp add: close_if_drained_def has_window_get split: option.splits if_splits)

subsection \<open>No pending run is stranded\<close>

definition not_stranded :: "db \<Rightarrow> bool" where
  "not_stranded d \<longleftrightarrow> (\<forall>r \<in> set (runs d). r_state r = PENDING \<longrightarrow>
     has_window d (r_account r) (r_action r) \<longrightarrow> open_until (r_account r) (r_action r) d \<noteq> None)"

lemma open_until_other:
  "(acct', act') \<noteq> (acct, act) \<Longrightarrow>
     open_until acct' act' (snd (open_window E acct act interval now d)) = open_until acct' act' d"
  "(acct', act') \<noteq> (acct, act) \<Longrightarrow>
     open_until acct' act' (snd (close_if_drained acct act d)) = open_until acct' act' d"
  by (simp_all add: open_until_def get_window_other)

lemma not_stranded_open_window:
  assumes "not_stranded d"
  shows "not_stranded (snd (open_window E acct act interval now d))"
  unfolding not_stranded_def
proof (intro ballI impI)
  fix r assume r: "r \<in> set (runs (snd (open_window E acct act interval now d)))" "r_state r = PENDING"
    and w: "has_window (snd (open_window E acct act interval now d)) (r_account r) (r_action r)"
  show "open_until (r_account r) (r_action r) (snd (open_window E acct act interval now d)) \<noteq> None"
  proof (cases "(r_account r, r_action r) = (acct, act)")
    case True
    then show ?thesis using open_window_get[of acct act E interval now d] by auto
  next
    case False
    then show ?thesis using r w assms
      by (auto simp: open_until_other frame_simps has_window_open_window not_stranded_def)
  qed
qed

lemma not_stranded_close:
  assumes "not_stranded d"
  shows "not_stranded (snd (close_if_drained acct act d))"
proof (cases "fst (close_if_drained acct act d) \<and> has_window d acct act")
  case False
  then have "snd (close_if_drained acct act d) = d"
    using close_if_drained_False[of acct act d]
    by (auto simp: close_if_drained_def has_window_get)
  then show ?thesis using assms by simp
next
  case True
  then have none: "\<not> list_ex (pending_of acct act) (runs d)" using close_if_drained_True(1) by blast
  have same: "has_window (snd (close_if_drained acct act d)) a b \<longleftrightarrow> has_window d a b" for a b
    using get_window_other(2)[of a b acct act d]
    by (cases "(a, b) = (acct, act)")
      (auto simp: has_window_get close_if_drained_def get_window_update window_key_def split: option.split)
  show ?thesis
    unfolding not_stranded_def frame_simps
  proof (intro ballI impI)
    fix r assume r: "r \<in> set (runs d)" "r_state r = PENDING"
      and w: "has_window (snd (close_if_drained acct act d)) (r_account r) (r_action r)"
    with none have "(r_account r, r_action r) \<noteq> (acct, act)" by (auto simp: list_ex_iff pending_of_def)
    with r w assms show "open_until (r_account r) (r_action r) (snd (close_if_drained acct act d)) \<noteq> None"
      by (simp add: open_until_other same not_stranded_def)
  qed
qed

text \<open>Nothing is stranded by opening or closing windows, in any order: if every pending run of an action
  with a window has an open one, that still holds after either operation on any action.\<close>

lemma windows_never_strand:
  assumes "not_stranded d"
  shows "not_stranded (snd (open_window E acct act interval now d)) \<and> not_stranded (snd (close_if_drained acct act d))"
  using not_stranded_open_window[OF assms] not_stranded_close[OF assms] by blast

end
