(* ===== verification/Feed_Items.thy ===== *)
theory Feed_Items
  imports Run_Queue
begin

text \<open>
  The feed item log (feeds/services/feeds/\_items.py and \_backfill_select.py): recording polled
  payloads, pruning, and the reads the trigger, the drain, the flush and the backfill use. The id
  streams are keyset loops; \<open>keyset_eq\<close> says what they yield.
\<close>

text \<open>A polled payload: its canonical fields the log and the poll read, and its JSON dump.\<close>

record source_payload =
  pl_source :: string
  pl_external_id :: string
  pl_occurred :: dt
  pl_subreddit :: string
  pl_dump :: blob

definition item_key :: "feed_item \<Rightarrow> ulid \<times> string \<times> string" where
  "item_key i = (i_feed i, i_source_kind i, i_external_id i)"

definition item_of :: "ulid \<Rightarrow> ulid \<Rightarrow> string \<Rightarrow> (string \<times> string) list \<Rightarrow> source_payload \<Rightarrow> ulid \<Rightarrow> feed_item" where
  "item_of acct fd label meta pl iid =
     \<lparr>i_id = iid, i_account = acct, i_feed = fd, i_source_kind = pl_source pl,
      i_external_id = pl_external_id pl, i_source_label = label, i_source_meta = meta,
      i_occurred = Some (instant_of (pl_occurred pl)), i_data = pl_dump pl\<rparr>"

definition record_chunk :: "env \<Rightarrow> ulid \<Rightarrow> ulid \<Rightarrow> string \<Rightarrow> (string \<times> string) list \<Rightarrow> source_payload list
    \<Rightarrow> db \<Rightarrow> nat \<times> db" where
  "record_chunk E acct fd label meta chunk d =
     (let ext = map pl_external_id chunk;
          existing = (\<lambda>i. (i_source_kind i, i_external_id i)) `
            set (filter (\<lambda>i. i_account i = acct \<and> i_feed i = fd \<and> i_external_id i \<in> set ext) (feed_items d));
          fresh = filter (\<lambda>pl. (pl_source pl, pl_external_id pl) \<notin> existing) chunk
      in if fresh = [] then (0, d)
         else let (ids, d') = new_ids E (length fresh) d
              in (length fresh,
                  d'\<lparr>feed_items := insert_ignore item_key (map2 (item_of acct fd label meta) fresh ids) (feed_items d')\<rparr>))"

fun record_chunks :: "env \<Rightarrow> ulid \<Rightarrow> ulid \<Rightarrow> string \<Rightarrow> (string \<times> string) list \<Rightarrow> source_payload list list
    \<Rightarrow> db \<Rightarrow> nat \<times> db" where
  "record_chunks E acct fd label meta [] d = (0, d)"
| "record_chunks E acct fd label meta (c # cs) d =
     (let (n, d1) = record_chunk E acct fd label meta c d; (m, d2) = record_chunks E acct fd label meta cs d1
      in (n + m, d2))"

definition record_items :: "env \<Rightarrow> ulid \<Rightarrow> feed \<Rightarrow> string \<Rightarrow> source_payload list \<Rightarrow> (string \<times> string) list \<Rightarrow> nat
    \<Rightarrow> db \<Rightarrow> (exn + nat) \<times> db" where
  "record_items E acct fd label payloads meta chunk_size d =
     (if f_account fd \<noteq> acct then (Inl ValueError, d)
      else let (n, d') = record_chunks E acct (f_id fd) label meta (batched chunk_size payloads) d in (Inr n, d'))"

text \<open>\<open>prune_items\<close>; \<open>min_ulid_at\<close> (common/fields.py) is the least ULID of an instant.\<close>

definition prune_items :: "(instant \<Rightarrow> ulid) \<Rightarrow> ulid \<Rightarrow> feed \<Rightarrow> int \<Rightarrow> instant \<Rightarrow> db \<Rightarrow> (exn + nat) \<times> db" where
  "prune_items min_ulid_at acct fd retention_days now d =
     (if f_account fd \<noteq> acct then (Inl ValueError, d)
      else let P = (\<lambda>i. i_account i = acct \<and> i_feed i = f_id fd
                      \<and> i_id i < min_ulid_at (now - seconds (retention_days * 86400)))
           in (Inr (count_where P (feed_items d)), d\<lparr>feed_items := delete_where P (feed_items d)\<rparr>))"

definition item_get :: "ulid \<Rightarrow> ulid \<Rightarrow> db \<Rightarrow> exn + feed_item" where
  "item_get acct iid d =
     (case first (filter (\<lambda>i. i_id i = iid \<and> i_account i = acct) (feed_items d)) of
        None \<Rightarrow> Inl DoesNotExist | Some i \<Rightarrow> Inr i)"

definition get_many :: "ulid \<Rightarrow> ulid list \<Rightarrow> db \<Rightarrow> ulid \<Rightarrow> feed_item option" where
  "get_many acct ids d =
     fetch_chunks i_id (filter (\<lambda>i. i_account i = acct) (feed_items d)) (batched ID_IN_CHUNK ids) Map.empty"

definition feed_item_ids :: "ulid \<Rightarrow> ulid \<Rightarrow> db \<Rightarrow> ulid list" where
  "feed_item_ids acct fid d = map i_id (filter (\<lambda>i. i_account i = acct \<and> i_feed i = fid) (feed_items d))"

definition newest_item_id :: "ulid \<Rightarrow> feed \<Rightarrow> db \<Rightarrow> exn + ulid option" where
  "newest_item_id acct fd d =
     (if f_account fd \<noteq> acct then Inl ValueError
      else Inr (first (order_by_desc (\<lambda>i. i) (feed_item_ids acct (f_id fd) d))))"

definition count_items_in_window :: "ulid \<Rightarrow> feed \<Rightarrow> ulid \<Rightarrow> ulid \<Rightarrow> db \<Rightarrow> exn + nat" where
  "count_items_in_window acct fd after thru d =
     (if f_account fd \<noteq> acct then Inl ValueError
      else Inr (count_where (\<lambda>i. i_account i = acct \<and> i_feed i = f_id fd \<and> after < i_id i \<and> i_id i \<le> thru)
                  (feed_items d)))"

text \<open>\<open>iter_item_ids_in_window\<close>: pages of \<open>chunk_size\<close> ids, ended by an empty or a short one.\<close>

function window_ids :: "nat \<Rightarrow> ulid \<Rightarrow> ulid list \<Rightarrow> ulid list" where
  "window_ids chunk_size last_seen ids =
     (let chunk = take chunk_size (sort (filter (\<lambda>i. last_seen < i) ids))
      in if chunk = [] then []
         else if length chunk < chunk_size then chunk
         else chunk @ window_ids chunk_size (last chunk) ids)"
  by pat_completeness auto
termination
proof (relation "measure (\<lambda>(n, cursor, ids). length (filter (\<lambda>i. cursor < i) ids))", goal_cases)
  case (2 n cursor ids page)
  then have "last page \<in> set (sort (filter (\<lambda>i. cursor < i) ids))"
    using last_in_set[of page] set_take_subset[of n "sort (filter (\<lambda>i. cursor < i) ids)"] by blast
  then have above: "last page \<in> set ids" "cursor < last page" by simp_all
  have "filter (\<lambda>i. last page < i) ids = filter (\<lambda>i. last page < i) (filter (\<lambda>i. cursor < i) ids)"
    using above(2) by (auto intro!: filter_cong)
  also have "length \<dots> < length (filter (\<lambda>i. cursor < i) ids)"
    using above by (intro length_filter_less[of "last page"]) auto
  finally show ?case by simp
qed simp

declare window_ids.simps [simp del]

definition iter_item_ids_in_window :: "ulid \<Rightarrow> feed \<Rightarrow> ulid \<Rightarrow> ulid \<Rightarrow> db \<Rightarrow> exn + ulid list" where
  "iter_item_ids_in_window acct fd after thru d =
     (if f_account fd \<noteq> acct then Inl ValueError
      else Inr (window_ids 500 after (filter (\<lambda>i. i \<le> thru) (feed_item_ids acct (f_id fd) d))))"

definition list_for_feed :: "ulid \<Rightarrow> feed \<Rightarrow> ulid option \<Rightarrow> nat \<Rightarrow> db \<Rightarrow> exn + feed_item list" where
  "list_for_feed acct fd after lmt d =
     (if f_account fd \<noteq> acct then Inl ValueError
      else Inr (page_desc i_id after lmt (filter (\<lambda>i. i_account i = acct \<and> i_feed i = f_id fd) (feed_items d))))"

subsection \<open>Backfill selection\<close>

definition existing_items :: "ulid \<Rightarrow> ulid set \<Rightarrow> db \<Rightarrow> feed_item list" where
  "existing_items acct ids d = filter (\<lambda>i. i_account i = acct \<and> i_id i \<in> ids) (feed_items d)"

definition occurred_window_items :: "ulid \<Rightarrow> ulid set \<Rightarrow> instant option \<Rightarrow> instant option \<Rightarrow> db
    \<Rightarrow> exn + feed_item list" where
  "occurred_window_items acct fids since til d =
     (if since = None \<and> til = None then Inl ValueError
      else Inr (filter (\<lambda>i. i_account i = acct \<and> i_feed i \<in> fids \<and> occurred_in since til (i_occurred i))
                  (feed_items d)))"

definition iter_ids_keyset :: "feed_item list \<Rightarrow> ulid list" where
  "iter_ids_keyset qs = keyset 500 blank (map i_id qs)"

subsection \<open>What the reads yield\<close>

definition item_table :: "db \<Rightarrow> bool" where
  "item_table d \<longleftrightarrow> distinct (map i_id (feed_items d)) \<and> blank \<notin> i_id ` set (feed_items d)"

lemma window_ids_eq:
  assumes "0 < n" "distinct ids"
  shows "window_ids n cursor ids = sort (filter (\<lambda>i. cursor < i) ids)"
  using assms
proof (induction n cursor ids rule: window_ids.induct)
  case (1 n cursor ids)
  let ?all = "sort (filter (\<lambda>i. cursor < i) ids)"
  show ?case
  proof (cases "length ?all < n")
    case True
    then show ?thesis by (auto simp: window_ids.simps[of n cursor] Let_def)
  next
    case False
    let ?z = "last (take n ?all)"
    have "?all \<noteq> []"
    proof
      assume "?all = []"
      then have "length ?all = 0" by (simp only: list.size)
      with False "1.prems"(1) show False by linarith
    qed
    then have ne: "take n ?all \<noteq> []" "\<not> length (take n ?all) < n" using False "1.prems"(1) by auto
    have "?z \<in> set ?all" using last_in_set[OF ne(1)] set_take_subset[of n ?all] by blast
    then have z: "cursor < ?z" by simp
    have "sort (filter (\<lambda>i. ?z < i) ids) = filter (\<lambda>i. ?z < i) ?all"
      using z by (auto simp: filter_sort intro!: arg_cong[of _ _ sort] filter_cong)
    also have "\<dots> = drop n ?all"
    proof -
      have "sorted_wrt (<) ?all" using "1.prems"(2) by (simp add: strict_sorted_iff)
      moreover have "?all \<noteq> []" using ne(1) by auto
      ultimately show ?thesis using drop_below_cut[of "\<lambda>x y. y < x" ?all n] "1.prems"(1) by simp
    qed
    finally have "window_ids n ?z ids = drop n ?all" using "1.IH"[OF refl ne] "1.prems" by simp
    then show ?thesis using ne by (simp add: window_ids.simps[of n cursor] Let_def)
  qed
qed

lemma get_many_eq:
  assumes "distinct (map i_id (feed_items d))"
  shows "get_many acct ids d f =
    (if f \<in> set ids then first (filter (\<lambda>i. i_id i = f \<and> i_account i = acct) (feed_items d)) else None)"
  using assms fetch_chunks_eq[of i_id "filter (\<lambda>i. i_account i = acct) (feed_items d)" ID_IN_CHUNK ids f]
  by (simp add: get_many_def distinct_map_filter ID_IN_CHUNK_def conj_commute)

end
