(* ===== verification/Chain.thy ===== *)
theory Chain
  imports Digest_Windows Feed_Items Engines
begin

text \<open>
  The action chain of a watch path (services/watches/\_actions.py) with the validation it runs on
  every write (watches/registry.py, watches/policy.py). A chain write that raises leaves the
  database as it was: the model returns it unchanged with the error. \<open>acquired\<close> is whether
  \<open>path_chain_lock\<close> was obtained. \<open>chain_table\<close> is the invariant: ids unique, ranks dense per path.
\<close>

subsection \<open>Validation on write\<close>

definition enforce_engine_registered :: "action_config \<Rightarrow> bool" where
  "enforce_engine_registered c \<longleftrightarrow>
     (case engine_base c of None \<Rightarrow> True | Some e \<Rightarrow> engine_kind e = [] \<or> engine_get (engine_kind e) = Inr ())"

definition enforce_digest_interval :: "env \<Rightarrow> action_config \<Rightarrow> bool" where
  "enforce_digest_interval E c \<longleftrightarrow>
     (is_digest c \<longrightarrow> DIGEST_MIN_INTERVAL E \<le> digest_interval c \<and> digest_interval c \<le> DIGEST_MAX_INTERVAL E)"

text \<open>At write time no name is resolved: the resolver is not asked.\<close>

definition enforce_webhook_url_safety :: "env \<Rightarrow> action_config \<Rightarrow> bool" where
  "enforce_webhook_url_safety E c \<longleftrightarrow>
     (case c of
        WebhookConfig _ _ u _ _ _ \<Rightarrow>
          snd (destination_block_reason (\<lambda>_ _ _. Gai_Error) (WEBHOOK_REQUIRE_HTTPS E) (WEBHOOK_BLOCK_PRIVATE_IPS E) False u [])
            = Inr None
      | _ \<Rightarrow> True)"

definition enforce_action_policy :: "env \<Rightarrow> action_config \<Rightarrow> exn + action_config" where
  "enforce_action_policy E c =
     (if \<not> enforce_engine_registered c then Inl PolicyError
      else if \<not> enforce_digest_interval E c then Inl PolicyError
      else if \<not> enforce_webhook_url_safety E c then Inl PolicyError
      else Inr c)"

definition validate_config :: "env \<Rightarrow> string \<Rightarrow> blob \<Rightarrow> exn + action_config" where
  "validate_config E kind data =
     (case parse_config E kind data of Inl e \<Rightarrow> Inl e | Inr c \<Rightarrow> enforce_action_policy E c)"

text \<open>A merge refusal is a \<open>ValueError\<close> (\<open>ValidationError\<close> is one) and surfaces as \<open>PolicyError\<close>.\<close>

definition merge_config :: "env \<Rightarrow> string \<Rightarrow> blob \<Rightarrow> action_config option \<Rightarrow> exn + action_config" where
  "merge_config E kind data prior =
     (case parse_config E kind data of
        Inl e \<Rightarrow> Inl e
      | Inr submitted \<Rightarrow>
          (case (case prior of None \<Rightarrow> Inr submitted | Some p \<Rightarrow> merge_preserving (plugin_merge E) submitted p) of
             Inl e \<Rightarrow> if e = ValueError \<or> e = ValidationError \<or> e = PolicyError then Inl PolicyError else Inl e
           | Inr c \<Rightarrow> enforce_action_policy E c))"

subsection \<open>Reads\<close>

definition in_path :: "ulid \<Rightarrow> ulid \<Rightarrow> watch_action \<Rightarrow> bool" where
  "in_path acct path a \<longleftrightarrow> a_account a = acct \<and> a_path a = path"

definition list_for_path :: "ulid \<Rightarrow> ulid \<Rightarrow> db \<Rightarrow> watch_action list" where
  "list_for_path acct path d = order_by a_rank (filter (in_path acct path) (actions d))"

definition count_for_path :: "ulid \<Rightarrow> ulid \<Rightarrow> db \<Rightarrow> nat" where
  "count_for_path acct path d = count_where (in_path acct path) (actions d)"

definition action_get :: "ulid \<Rightarrow> ulid \<Rightarrow> db \<Rightarrow> exn + watch_action" where
  "action_get acct aid d =
     (case first (filter (\<lambda>a. a_id a = aid \<and> a_account a = acct) (actions d)) of
        None \<Rightarrow> Inl DoesNotExist | Some a \<Rightarrow> Inr a)"

definition adjacent :: "ulid \<Rightarrow> watch_action \<Rightarrow> bool \<Rightarrow> db \<Rightarrow> watch_action option" where
  "adjacent acct action forward d =
     (if forward
      then first (order_by a_rank
             (filter (\<lambda>a. in_path acct (a_path action) a \<and> a_rank action < a_rank a) (actions d)))
      else first (order_by_desc a_rank
             (filter (\<lambda>a. in_path acct (a_path action) a \<and> a_rank a < a_rank action) (actions d))))"

definition next_in_chain :: "ulid \<Rightarrow> watch_action \<Rightarrow> db \<Rightarrow> watch_action option" where
  "next_in_chain acct action d = adjacent acct action True d"

definition prev_in_chain :: "ulid \<Rightarrow> watch_action \<Rightarrow> db \<Rightarrow> watch_action option" where
  "prev_in_chain acct action d = adjacent acct action False d"

subsection \<open>Renumbering\<close>

text \<open>\<open>bulk_update(rows, ["rank"])\<close>: each row of the table whose id is listed gets its rank.\<close>

definition set_ranks :: "(ulid \<times> nat) list \<Rightarrow> watch_action list \<Rightarrow> watch_action list" where
  "set_ranks ranks rows =
     map (\<lambda>a. case map_of ranks (a_id a) of None \<Rightarrow> a | Some k \<Rightarrow> a\<lparr>a_rank := k\<rparr>) rows"

definition renumber_offset :: "watch_action list \<Rightarrow> nat" where
  "renumber_offset ordered = foldr max (map a_rank ordered) 0 + 1"

definition renumber :: "watch_action list \<Rightarrow> db \<Rightarrow> db" where
  "renumber ordered d =
     (let off = renumber_offset ordered; ids = map a_id ordered;
          d1 = d\<lparr>actions := set_ranks (zip ids [off..<off + length ids]) (actions d)\<rparr>
      in d1\<lparr>actions := set_ranks (zip ids [0..<length ids]) (actions d1)\<rparr>)"

definition clear_digest_windows :: "ulid \<Rightarrow> ulid list \<Rightarrow> db \<Rightarrow> db" where
  "clear_digest_windows acct ids d =
     (if ids = [] then d
      else d\<lparr>windows := delete_where (\<lambda>w. dw_account w = acct \<and> dw_action w \<in> set ids) (windows d)\<rparr>)"

subsection \<open>Whole-chain replace\<close>

record action_spec =
  sp_id :: ulid
  sp_kind :: string
  sp_config :: blob

record chain_edit =
  ce_ordered :: "watch_action list"
  ce_updated :: "watch_action list"
  ce_created :: "watch_action list"
  ce_kept :: "ulid list"
  ce_clear :: "ulid list"

definition resolve_prior :: "ulid \<Rightarrow> watch_action list \<Rightarrow> ulid list \<Rightarrow> exn + watch_action option" where
  "resolve_prior sid existing kept =
     (if sid = blank then Inr None
      else case first (filter (\<lambda>a. a_id a = sid) existing) of
             None \<Rightarrow> Inl PolicyError
           | Some a \<Rightarrow> if sid \<in> set kept then Inl PolicyError else Inr (Some a))"

definition submitted_has_masked_secret :: "env \<Rightarrow> action_spec \<Rightarrow> bool" where
  "submitted_has_masked_secret E spec =
     (case parse_config E (sp_kind spec) (sp_config spec) of
        Inl _ \<Rightarrow> False | Inr c \<Rightarrow> has_masked_secret (plugin_masked E) c)"

text \<open>
  One turn of the loop. \<open>n0\<close> is the length of the existing chain, which \<open>temp_rank\<close> starts past;
  the id of a new row is minted when it is saved, and the k-th created row takes the k-th ULID.
\<close>

definition edit_step :: "env \<Rightarrow> ulid \<Rightarrow> ulid \<Rightarrow> nat \<Rightarrow> watch_action list \<Rightarrow> action_spec \<Rightarrow> chain_edit
    \<Rightarrow> exn + chain_edit" where
  "edit_step E acct path n existing spec st =
     (case resolve_prior (sp_id spec) existing (ce_kept st) of
        Inl e \<Rightarrow> Inl e
      | Inr prior_row \<Rightarrow>
          (let same_kind_prior = (case prior_row of Some a \<Rightarrow> if a_kind a = sp_kind spec then Some a else None
                                  | None \<Rightarrow> None)
           in if same_kind_prior = None \<and> submitted_has_masked_secret E spec then Inl PolicyError
              else case (case same_kind_prior of None \<Rightarrow> Inr None | Some a \<Rightarrow> map_sum id Some (load_config E a)) of
                     Inl e \<Rightarrow> Inl e
                   | Inr prior \<Rightarrow>
                       (case merge_config E (sp_kind spec) (sp_config spec) prior of
                          Inl e \<Rightarrow> Inl e
                        | Inr merged \<Rightarrow>
                            (case prior_row of
                               Some a \<Rightarrow>
                                 let row = a\<lparr>a_kind := sp_kind spec, a_config := model_dump E merged\<rparr>
                                 in Inr (st\<lparr>ce_kept := ce_kept st @ [a_id a],
                                            ce_updated := ce_updated st @ [row],
                                            ce_ordered := ce_ordered st @ [row],
                                            ce_clear := ce_clear st @ (if is_digest merged then [] else [a_id a])\<rparr>)
                             | None \<Rightarrow>
                                 let row = \<lparr>a_id = mint E (n + length (ce_created st)), a_account = acct, a_path = path,
                                            a_kind = sp_kind spec, a_config = model_dump E merged,
                                            a_rank = length existing + 1 + length (ce_created st)\<rparr>
                                 in Inr (st\<lparr>ce_created := ce_created st @ [row],
                                            ce_ordered := ce_ordered st @ [row]\<rparr>)))))"

fun edit_all :: "env \<Rightarrow> ulid \<Rightarrow> ulid \<Rightarrow> nat \<Rightarrow> watch_action list \<Rightarrow> action_spec list \<Rightarrow> chain_edit
    \<Rightarrow> exn + chain_edit" where
  "edit_all E acct path n existing [] st = Inr st"
| "edit_all E acct path n existing (s # ss) st =
     (case edit_step E acct path n existing s st of
        Inl e \<Rightarrow> Inl e
      | Inr st' \<Rightarrow> edit_all E acct path n existing ss st')"

definition no_edit :: chain_edit where
  "no_edit = \<lparr>ce_ordered = [], ce_updated = [], ce_created = [], ce_kept = [], ce_clear = []\<rparr>"

text \<open>The transaction at the end: delete, clear windows, update, create, renumber.\<close>

definition save_rows :: "watch_action list \<Rightarrow> watch_action list \<Rightarrow> watch_action list" where
  "save_rows updated rows =
     map (\<lambda>a. case first (filter (\<lambda>u. a_id u = a_id a) updated) of
                None \<Rightarrow> a | Some u \<Rightarrow> a\<lparr>a_kind := a_kind u, a_config := a_config u\<rparr>) rows"

definition apply_edit :: "ulid \<Rightarrow> ulid list \<Rightarrow> chain_edit \<Rightarrow> db \<Rightarrow> db" where
  "apply_edit acct removed st d =
     (let d1 = d\<lparr>actions := delete_where (\<lambda>a. a_account a = acct \<and> a_id a \<in> set removed) (actions d)\<rparr>;
          d2 = clear_digest_windows acct (removed @ ce_clear st) d1;
          d3 = d2\<lparr>actions := save_rows (ce_updated st) (actions d2)\<rparr>;
          d4 = d3\<lparr>actions := actions d3 @ ce_created st, drawn := drawn d3 + length (ce_created st)\<rparr>
      in if ce_ordered st = [] then d4 else renumber (ce_ordered st) d4)"

definition replace_chain :: "env \<Rightarrow> ulid \<Rightarrow> ulid \<Rightarrow> action_spec list \<Rightarrow> bool \<Rightarrow> db
    \<Rightarrow> (exn + watch_action list) \<times> db" where
  "replace_chain E acct path specs acquired d =
     (if \<not> acquired then (Inl ConcurrentChainError, d)
      else let existing = list_for_path acct path d
           in case edit_all E acct path (drawn d) existing specs no_edit of
                Inl e \<Rightarrow> (Inl e, d)
              | Inr st \<Rightarrow>
                  (let removed = filter (\<lambda>a. a_id a \<notin> set (ce_kept st)) existing
                   in if list_ex (\<lambda>a. a_kind a \<notin> known_kinds E) removed then (Inl PolicyError, d)
                      else let d' = apply_edit acct (map a_id removed) st d
                           in (Inr (list_for_path acct path d'), d')))"

subsection \<open>Single-action edits\<close>

definition insert_at :: "nat \<Rightarrow> 'a \<Rightarrow> 'a list \<Rightarrow> 'a list" where
  "insert_at k x xs = take k xs @ x # drop k xs"

definition clamp_rank :: "int option \<Rightarrow> nat \<Rightarrow> nat" where
  "clamp_rank rank n = (case rank of None \<Rightarrow> n | Some r \<Rightarrow> nat (max 0 (min r (int n))))"

definition add_action :: "env \<Rightarrow> ulid \<Rightarrow> ulid \<Rightarrow> action_spec \<Rightarrow> int option \<Rightarrow> bool \<Rightarrow> bool \<Rightarrow> db
    \<Rightarrow> (exn + watch_action) \<times> db" where
  "add_action E acct path spec rank dry_run acquired d =
     (case validate_config E (sp_kind spec) (sp_config spec) of
        Inl e \<Rightarrow> (Inl e, d)
      | Inr config \<Rightarrow>
          if dry_run
          then (Inr \<lparr>a_id = blank, a_account = acct, a_path = path, a_kind = sp_kind spec,
                     a_config = model_dump E config, a_rank = clamp_rank rank (count_for_path acct path d)\<rparr>, d)
          else if \<not> acquired then (Inl ConcurrentChainError, d)
          else let chain = list_for_path acct path d;
                   k = clamp_rank rank (length chain);
                   (aid, d1) = new_id E d;
                   row = \<lparr>a_id = aid, a_account = acct, a_path = path, a_kind = sp_kind spec,
                          a_config = model_dump E config, a_rank = length chain + 1\<rparr>;
                   d2 = d1\<lparr>actions := actions d1 @ [row]\<rparr>
               in (Inr (row\<lparr>a_rank := k\<rparr>), renumber (insert_at k row chain) d2))"

definition set_config :: "env \<Rightarrow> ulid \<Rightarrow> watch_action \<Rightarrow> action_spec \<Rightarrow> bool \<Rightarrow> db
    \<Rightarrow> (exn + watch_action) \<times> db" where
  "set_config E acct action spec dry_run d =
     (if a_account action \<noteq> acct then (Inl ValueError, d)
      else case (if a_kind action = sp_kind spec then map_sum id Some (load_config E action) else Inr None) of
             Inl e \<Rightarrow> (Inl e, d)
           | Inr prior \<Rightarrow>
               (case merge_config E (sp_kind spec) (sp_config spec) prior of
                  Inl e \<Rightarrow> (Inl e, d)
                | Inr merged \<Rightarrow>
                    let row = action\<lparr>a_kind := sp_kind spec, a_config := model_dump E merged\<rparr>
                    in if dry_run then (Inr row, d)
                       else let d1 = d\<lparr>actions := save_rows [row] (actions d)\<rparr>
                            in (Inr row, if is_digest merged then d1
                                         else clear_digest_windows acct [a_id action] d1)))"

definition remove_action :: "ulid \<Rightarrow> watch_action \<Rightarrow> bool \<Rightarrow> db \<Rightarrow> (exn + unit) \<times> db" where
  "remove_action acct action acquired d =
     (if a_account action \<noteq> acct then (Inl ValueError, d)
      else if \<not> acquired then (Inl ConcurrentChainError, d)
      else let d1 = d\<lparr>actions := delete_where (\<lambda>a. a_id a = a_id action) (actions d)\<rparr>;
               d2 = clear_digest_windows acct [a_id action] d1
           in (Inr (), renumber (list_for_path acct (a_path action) d2) d2))"

end
