(* ===== verification/Chain_Facts.thy ===== *)
theory Chain_Facts
  imports Chain
begin

text \<open>
  What the chain writes do: renumbering puts the listed rows at ranks 0..n-1 in list order and
  touches no other path, so each write yields the chain its caller asked for, and the ranks of
  every path stay dense. The neighbours in a dense chain are the neighbours in the list.
\<close>

subsection \<open>Renumbering\<close>

lemma set_ranks_simps [simp]:
  "map a_id (set_ranks rk rows) = map a_id rows"
  "length (set_ranks rk rows) = length rows"
  "map a_path (set_ranks rk rows) = map a_path rows"
  by (auto simp: set_ranks_def split: option.split)

lemma set_ranks_twice:
  "dom (map_of B) = dom (map_of A) \<Longrightarrow> set_ranks B (set_ranks A rows) = set_ranks B rows"
proof -
  assume dom: "dom (map_of B) = dom (map_of A)"
  have none: "map_of B i = None \<longleftrightarrow> map_of A i = None" for i
    using dom unfolding set_eq_iff by (metis domIff)
  show ?thesis
    unfolding set_ranks_def map_map
  proof (intro map_cong refl)
    fix a
    show "((\<lambda>a. case map_of B (a_id a) of None \<Rightarrow> a | Some k \<Rightarrow> a\<lparr>a_rank := k\<rparr>) \<circ>
        (\<lambda>a. case map_of A (a_id a) of None \<Rightarrow> a | Some k \<Rightarrow> a\<lparr>a_rank := k\<rparr>)) a =
        (case map_of B (a_id a) of None \<Rightarrow> a | Some k \<Rightarrow> a\<lparr>a_rank := k\<rparr>)"
      using none[of "a_id a"] by (cases "map_of A (a_id a)"; cases "map_of B (a_id a)") simp_all
  qed
qed

lemma renumber_actions:
  "renumber ordered d = d\<lparr>actions := set_ranks (zip (map a_id ordered) [0..<length ordered]) (actions d)\<rparr>"
  by (simp add: renumber_def Let_def set_ranks_twice dom_map_of_zip)

lemma in_path_rank [simp]: "in_path acct path (a\<lparr>a_rank := k\<rparr>) = in_path acct path a"
  by (simp add: in_path_def)

lemma filter_path_set_ranks:
  "filter (in_path acct path) (set_ranks rk rows) = set_ranks rk (filter (in_path acct path) rows)"
  by (induction rows) (auto simp: set_ranks_def split: option.split)

lemma set_ranks_none:
  "(\<And>a. a \<in> set rows \<Longrightarrow> a_id a \<notin> fst ` set rk) \<Longrightarrow> set_ranks rk rows = rows"
proof -
  assume out: "\<And>a. a \<in> set rows \<Longrightarrow> a_id a \<notin> fst ` set rk"
  then have "map_of rk (a_id a) = None" if "a \<in> set rows" for a
    using that by (simp add: map_of_eq_None_iff)
  then show ?thesis unfolding set_ranks_def by (intro map_idI) simp
qed

lemma set_ranks_at:
  assumes "a \<in> set (set_ranks (zip ids [0..<length ids]) rows)" "distinct ids" "a_id a \<in> set ids"
  shows "a_rank a < length ids \<and> ids ! a_rank a = a_id a"
proof -
  from assms(3) obtain k where k: "k < length ids" "ids ! k = a_id a" by (auto simp: in_set_conv_nth)
  then have m: "map_of (zip ids [0..<length ids]) (a_id a) = Some k"
    using map_of_zip_nth[of ids "[0..<length ids]" k] assms(2) by simp
  from assms(1) obtain b where b: "a = (case map_of (zip ids [0..<length ids]) (a_id b) of
      None \<Rightarrow> b | Some k \<Rightarrow> b\<lparr>a_rank := k\<rparr>)" by (auto simp: set_ranks_def)
  then have "a_id a = a_id b" by (auto split: option.splits)
  with b m have "a_rank a = k" by simp
  with k show ?thesis by simp
qed

definition path_ids :: "ulid \<Rightarrow> ulid \<Rightarrow> db \<Rightarrow> ulid list" where
  "path_ids acct path d = map a_id (list_for_path acct path d)"

definition dense :: "ulid \<Rightarrow> ulid \<Rightarrow> db \<Rightarrow> bool" where
  "dense acct path d \<longleftrightarrow> map a_rank (list_for_path acct path d) = [0..<length (list_for_path acct path d)]"

definition chain_table :: "db \<Rightarrow> bool" where
  "chain_table d \<longleftrightarrow> distinct (map a_id (actions d)) \<and> (\<forall>acct path. dense acct path d)"

lemma set_list_for_path: "set (list_for_path acct path d) = {a \<in> set (actions d). in_path acct path a}"
  by (simp add: list_for_path_def)

lemma distinct_path_ids: "distinct (map a_id (actions d)) \<Longrightarrow> distinct (path_ids acct path d)"
  by (simp add: path_ids_def list_for_path_def distinct_order_by distinct_map_filter)

lemma dense_iff_path_ids: "dense acct path d \<Longrightarrow> k < length (list_for_path acct path d) \<Longrightarrow>
    a_rank (list_for_path acct path d ! k) = k"
  unfolding dense_def by (metis add_0 length_map map_nth nth_map nth_upt)

lemma ranked_sort:
  assumes "distinct (map a_id rows)" "length rows = length ids"
    and at: "\<And>a. a \<in> set rows \<Longrightarrow> a_rank a < length ids \<and> ids ! a_rank a = a_id a"
  shows "map a_rank (order_by a_rank rows) = [0..<length ids] \<and> map a_id (order_by a_rank rows) = ids"
proof -
  let ?L = "order_by a_rank rows"
  have inj: "inj_on a_rank (set rows)"
  proof (rule inj_onI)
    fix a b assume ab: "a \<in> set rows" "b \<in> set rows" "a_rank a = a_rank b"
    with at[OF ab(1)] at[OF ab(2)] have "a_id a = a_id b" by simp
    with ab assms(1) show "a = b" by (auto simp: distinct_map dest: inj_onD)
  qed
  have "distinct rows" using assms(1) by (simp add: distinct_map)
  with inj have dist: "distinct (map a_rank ?L)" by (simp add: distinct_order_by) (simp add: distinct_map)
  have sub: "set (map a_rank ?L) \<subseteq> {0..<length ids}" using at by auto
  moreover have "card (set (map a_rank ?L)) = length ids" using distinct_card[OF dist] assms(2) by simp
  ultimately have "set (map a_rank ?L) = {0..<length ids}" by (intro card_subset_eq) auto
  then have "map a_rank ?L = [0..<length ids]"
    using dist sorted_order_by[of a_rank rows] by (intro sorted_distinct_set_unique) auto
  moreover have "map a_id ?L = ids"
  proof (rule nth_equalityI)
    show "length (map a_id ?L) = length ids" using assms(2) by simp
  next
    fix k assume k: "k < length (map a_id ?L)"
    then have mem: "?L ! k \<in> set rows" using nth_mem[of k ?L] by simp
    have "a_rank (?L ! k) = map a_rank ?L ! k" using k by simp
    also have "\<dots> = k" using calculation \<open>map a_rank ?L = [0..<length ids]\<close> k assms(2) by simp
    finally show "map a_id ?L ! k = ids ! k" using at[OF mem] k by simp
  qed
  ultimately show ?thesis by simp
qed

lemma renumber_chain:
  assumes ids: "distinct (map a_id (actions d))" and ord: "distinct (map a_id ordered)"
    and cover: "a_id ` set ordered = a_id ` {a \<in> set (actions d). in_path acct path a}"
  shows "path_ids acct path (renumber ordered d) = map a_id ordered \<and> dense acct path (renumber ordered d)"
proof -
  let ?ids = "map a_id ordered" and ?rows = "filter (in_path acct path) (actions d)"
  let ?new = "set_ranks (zip ?ids [0..<length ?ids]) ?rows"
  have dist: "distinct (map a_id ?rows)" using ids by (simp add: distinct_map_filter)
  have "length ?rows = card (a_id ` set ?rows)" using distinct_card[OF dist] by simp
  also have "a_id ` set ?rows = a_id ` set ordered" using cover by simp
  also have "card (a_id ` set ordered) = length ?ids" using distinct_card[OF ord] by simp
  finally have len: "length ?rows = length ?ids" .
  have at: "a_rank a < length ?ids \<and> ?ids ! a_rank a = a_id a" if a: "a \<in> set ?new" for a
  proof (rule set_ranks_at[OF a ord])
    have "a_id a \<in> set (map a_id ?new)" using a by (simp only: set_map imageI)
    also have "map a_id ?new = map a_id ?rows" by simp
    finally show "a_id a \<in> set ?ids" using cover by simp
  qed
  have "list_for_path acct path (renumber ordered d) = order_by a_rank ?new"
    by (simp add: list_for_path_def renumber_actions filter_path_set_ranks)
  moreover have "map a_rank (order_by a_rank ?new) = [0..<length ?ids] \<and> map a_id (order_by a_rank ?new) = ?ids"
    by (rule ranked_sort) (use dist len at in \<open>simp_all only: set_ranks_simps\<close>)
  ultimately show ?thesis by (simp add: path_ids_def dense_def len)
qed

lemma renumber_other:
  assumes ids: "distinct (map a_id (actions d))"
    and ord: "\<And>a. a \<in> set ordered \<Longrightarrow> \<exists>b \<in> set (actions d). a_id b = a_id a \<and> in_path acct path b"
    and "(acct', path') \<noteq> (acct, path)"
  shows "list_for_path acct' path' (renumber ordered d) = list_for_path acct' path' d"
proof -
  have "set_ranks (zip (map a_id ordered) [0..<length ordered]) (filter (in_path acct' path') (actions d))
      = filter (in_path acct' path') (actions d)"
  proof (rule set_ranks_none)
    fix a assume a: "a \<in> set (filter (in_path acct' path') (actions d))"
    show "a_id a \<notin> fst ` set (zip (map a_id ordered) [0..<length ordered])"
    proof
      assume "a_id a \<in> fst ` set (zip (map a_id ordered) [0..<length ordered])"
      then have "a_id a \<in> a_id ` set ordered" by (auto dest: set_zip_leftD)
      then obtain b where "b \<in> set (actions d)" "a_id b = a_id a" "in_path acct path b" using ord by force
      with a ids have "a = b" by (auto simp: distinct_map dest: inj_onD)
      with a \<open>in_path acct path b\<close> assms(3) show False by (auto simp: in_path_def)
    qed
  qed
  then show ?thesis by (simp add: list_for_path_def renumber_actions filter_path_set_ranks)
qed

lemma renumber_frame [frame_simps]:
  "runs (renumber ordered d) = runs d" "windows (renumber ordered d) = windows d"
  "map a_id (actions (renumber ordered d)) = map a_id (actions d)"
  by (simp_all add: renumber_actions)

subsection \<open>Neighbours\<close>

lemma filter_dense:
  assumes "dense acct path d"
  shows "filter (\<lambda>a. k < a_rank a) (list_for_path acct path d) = drop (Suc k) (list_for_path acct path d)"
    and "filter (\<lambda>a. a_rank a < k) (list_for_path acct path d) = take k (list_for_path acct path d)"
proof -
  let ?L = "list_for_path acct path d"
  have rank: "a_rank (?L ! j) = j" if "j < length ?L" for j by (rule dense_iff_path_ids[OF assms that])
  have lo: "a_rank a < m" if "a \<in> set (take m ?L)" for a m
    using that rank by (auto simp: in_set_conv_nth)
  have hi: "m \<le> a_rank a" if a: "a \<in> set (drop m ?L)" for a m
  proof -
    from a obtain j where "j < length ?L - m" "a = drop m ?L ! j" by (auto simp: in_set_conv_nth)
    with rank[of "m + j"] show ?thesis by simp
  qed
  have "filter (\<lambda>a. k < a_rank a) (take (Suc k) ?L @ drop (Suc k) ?L) = drop (Suc k) ?L"
    using lo[of _ "Suc k"] hi[of _ "Suc k"]
    by (auto simp only: filter_append filter_empty_conv filter_id_conv append_Nil Suc_le_eq not_less_eq)
      (auto simp: filter_empty_conv filter_id_conv Suc_le_eq less_Suc_eq_le not_less)
  then show "filter (\<lambda>a. k < a_rank a) ?L = drop (Suc k) ?L" by simp
  have "filter (\<lambda>a. a_rank a < k) (take k ?L) = take k ?L" using lo[of _ k] by (simp add: filter_id_conv)
  moreover have "filter (\<lambda>a. a_rank a < k) (drop k ?L) = []"
    using hi[of _ k] by (auto simp: filter_empty_conv not_less)
  ultimately have "filter (\<lambda>a. a_rank a < k) (take k ?L @ drop k ?L) = take k ?L"
    unfolding filter_append by simp
  then show "filter (\<lambda>a. a_rank a < k) ?L = take k ?L" by simp
qed

lemma order_by_filter: "order_by key (filter (\<lambda>r. P r \<and> Q r) rows) = filter Q (order_by key (filter P rows))"
  unfolding order_by_def by (simp add: filter_sort)

lemma next_in_chain_filter:
  "next_in_chain acct a d = first (filter (\<lambda>b. a_rank a < a_rank b) (list_for_path acct (a_path a) d))"
  by (simp add: next_in_chain_def adjacent_def list_for_path_def order_by_filter)

lemma prev_in_chain_filter:
  "prev_in_chain acct a d = first (rev (filter (\<lambda>b. a_rank b < a_rank a) (list_for_path acct (a_path a) d)))"
  unfolding prev_in_chain_def adjacent_def list_for_path_def
  by (simp add: order_by_desc_def order_by_def filter_sort)

lemma first_drop: "first (drop k xs) = (if k < length xs then Some (xs ! k) else None)"
  by (induction xs arbitrary: k) (auto split: nat.split simp: drop_Cons nth_Cons)

lemma next_dense:
  assumes "dense acct path d" "k < length (list_for_path acct path d)"
  shows "next_in_chain acct (list_for_path acct path d ! k) d =
    (if Suc k < length (list_for_path acct path d) then Some (list_for_path acct path d ! Suc k) else None)"
proof -
  let ?a = "list_for_path acct path d ! k"
  have "?a \<in> set (list_for_path acct path d)" using assms(2) by simp
  then have "a_path ?a = path" by (simp add: set_list_for_path in_path_def)
  then show ?thesis
    by (simp add: next_in_chain_filter dense_iff_path_ids[OF assms] filter_dense(1)[OF assms(1)] first_drop)
qed

lemma prev_dense:
  assumes "dense acct path d" "k < length (list_for_path acct path d)"
  shows "prev_in_chain acct (list_for_path acct path d ! k) d =
    (if k = 0 then None else Some (list_for_path acct path d ! (k - 1)))"
proof -
  let ?L = "list_for_path acct path d"
  have "?L ! k \<in> set ?L" using assms(2) by simp
  then have path: "a_path (?L ! k) = path" by (simp add: set_list_for_path in_path_def)
  have "first (rev (take k ?L)) = (if k = 0 then None else Some (?L ! (k - 1)))"
  proof (cases k)
    case (Suc j)
    then have "take k ?L = take j ?L @ [?L ! j]" using assms(2) by (simp add: take_Suc_conv_app_nth)
    with Suc show ?thesis by simp
  qed simp
  with path show ?thesis
    by (simp add: prev_in_chain_filter dense_iff_path_ids[OF assms] filter_dense(2)[OF assms(1)])
qed

text \<open>Without density the neighbour is still strictly further down, on the same path.\<close>

lemma next_in_chain_SomeD:
  "next_in_chain acct a d = Some b \<Longrightarrow>
     b \<in> set (actions d) \<and> a_account b = acct \<and> a_path b = a_path a \<and> a_rank a < a_rank b"
  by (auto simp: next_in_chain_filter set_list_for_path in_path_def dest!: first_in)

subsection \<open>Adding and removing one action\<close>

definition action_table :: "env \<Rightarrow> db \<Rightarrow> bool" where
  "action_table E d \<longleftrightarrow> distinct (map a_id (actions d)) \<and> a_id ` set (actions d) \<subseteq> mint E ` {..<drawn d}"

lemma clamp_rank_le: "clamp_rank rank n \<le> n"
  by (auto simp: clamp_rank_def split: option.split)

lemma insert_at_map: "map f (insert_at k x xs) = insert_at k (f x) (map f xs)"
  by (simp add: insert_at_def take_map drop_map)

lemma set_insert_at [simp]: "set (insert_at k x xs) = insert x (set xs)"
  unfolding insert_at_def using set_append[of "take k xs" "drop k xs"] by auto

lemma distinct_insert_at: "distinct (insert_at k x xs) \<longleftrightarrow> x \<notin> set xs \<and> distinct xs"
proof -
  have "mset (insert_at k x xs) = mset (x # xs)"
    unfolding insert_at_def using append_take_drop_id[of k xs]
    by (metis add_mset_add_single mset.simps(2) mset_append union_mset_add_mset_right)
  then have "distinct (insert_at k x xs) = distinct (x # xs)" by (rule mset_eq_imp_distinct_iff)
  then show ?thesis by simp
qed

lemma add_action_chain:
  assumes tab: "action_table E d" and fresh: "mints_fresh E"
    and ok: "add_action E acct path spec rank False True d = (Inr row, d')"
  shows "path_ids acct path d' = insert_at (clamp_rank rank (length (path_ids acct path d))) (a_id row) (path_ids acct path d)"
    and "dense acct path d'" and "a_id row = mint E (drawn d)"
    and "(acct', path') \<noteq> (acct, path) \<Longrightarrow> list_for_path acct' path' d' = list_for_path acct' path' d"
proof -
  let ?L = "list_for_path acct path d" and ?k = "clamp_rank rank (length (list_for_path acct path d))"
  obtain cfg where cfg: "validate_config E (sp_kind spec) (sp_config spec) = Inr cfg"
    using ok by (auto simp: add_action_def split: sum.splits)
  obtain new where new: "a_id new = mint E (drawn d)" "in_path acct path new"
    and row: "row = new\<lparr>a_rank := ?k\<rparr>"
    and d': "d' = renumber (insert_at ?k new ?L) (d\<lparr>drawn := Suc (drawn d), actions := actions d @ [new]\<rparr>)"
    using ok cfg
    by (intro that[of "\<lparr>a_id = mint E (drawn d), a_account = acct, a_path = path, a_kind = sp_kind spec,
          a_config = model_dump E cfg, a_rank = length ?L + 1\<rparr>"])
      (auto simp: add_action_def new_id_def Let_def in_path_def)
  let ?d = "d\<lparr>drawn := Suc (drawn d), actions := actions d @ [new]\<rparr>"
  have out: "a_id new \<notin> a_id ` set (actions d)"
    using minted_new[OF fresh, of "a_id ` set (actions d)" "drawn d" "drawn d"] tab new by (simp add: action_table_def)
  have ids: "distinct (map a_id (actions ?d))" using tab out by (simp add: action_table_def)
  have ord: "distinct (map a_id (insert_at ?k new ?L))"
    using out tab distinct_path_ids[of d acct path]
    by (auto simp: insert_at_map distinct_insert_at path_ids_def set_list_for_path action_table_def)
  have cover: "a_id ` set (insert_at ?k new ?L) = a_id ` {a \<in> set (actions ?d). in_path acct path a}"
    using new(2) by (auto simp: set_list_for_path)
  note chain = renumber_chain[OF ids ord cover]
  show "path_ids acct path d' = insert_at (clamp_rank rank (length (path_ids acct path d))) (a_id row) (path_ids acct path d)"
    using chain by (simp add: d' row insert_at_map path_ids_def)
  show "dense acct path d'" using chain by (simp add: d')
  show "a_id row = mint E (drawn d)" by (simp add: row new)
  assume other: "(acct', path') \<noteq> (acct, path)"
  have "list_for_path acct' path' d' = list_for_path acct' path' ?d"
    unfolding d' by (rule renumber_other[OF ids _ other]) (use new(2) in \<open>auto simp: set_list_for_path\<close>)
  also have "\<dots> = list_for_path acct' path' d"
    using other new(2) by (auto simp: list_for_path_def in_path_def)
  finally show "list_for_path acct' path' d' = list_for_path acct' path' d" .
qed

lemma action_ids_add: "snd (add_action E acct path spec rank False True d) \<noteq> d \<Longrightarrow>
    map a_id (actions (snd (add_action E acct path spec rank False True d))) = map a_id (actions d) @ [mint E (drawn d)]"
  by (auto simp: add_action_def new_id_def Let_def frame_simps split: sum.splits)

lemma clear_digest_windows_frame [frame_simps]:
  "actions (clear_digest_windows acct ids d) = actions d" "runs (clear_digest_windows acct ids d) = runs d"
  "drawn (clear_digest_windows acct ids d) = drawn d"
  by (simp_all add: clear_digest_windows_def)

lemma list_for_path_cong: "actions d = actions d' \<Longrightarrow> list_for_path acct path d = list_for_path acct path d'"
  by (simp add: list_for_path_def)

lemma list_for_path_delete:
  "list_for_path acct path (d\<lparr>actions := delete_where P (actions d)\<rparr>) = filter (\<lambda>a. \<not> P a) (list_for_path acct path d)"
  by (simp add: list_for_path_def delete_where_def order_by_def filter_sort conj_commute)

lemma remove_action_chain:
  assumes ids: "distinct (map a_id (actions d))" and mem: "action \<in> set (actions d)"
    and ok: "remove_action acct action True d = (Inr (), d')"
  shows "path_ids acct (a_path action) d' = filter (\<lambda>i. i \<noteq> a_id action) (path_ids acct (a_path action) d)"
    and "dense acct (a_path action) d'"
    and "(acct', path') \<noteq> (acct, a_path action) \<Longrightarrow> list_for_path acct' path' d' = list_for_path acct' path' d"
    and "get_window acct (a_id action) d' = None"
proof -
  let ?p = "a_path action" and ?P = "\<lambda>a. a_id a = a_id action"
  let ?d = "clear_digest_windows acct [a_id action] (d\<lparr>actions := delete_where ?P (actions d)\<rparr>)"
  have acct: "a_account action = acct" and d': "d' = renumber (list_for_path acct ?p ?d) ?d"
    using ok by (auto simp: remove_action_def Let_def split: if_splits)
  have list: "list_for_path acct'' p'' ?d = filter (\<lambda>a. \<not> ?P a) (list_for_path acct'' p'' d)" for acct'' p''
    using list_for_path_delete[of acct'' p'' ?P d]
    by (simp add: list_for_path_cong[of ?d "d\<lparr>actions := delete_where ?P (actions d)\<rparr>"] frame_simps)
  have ids': "distinct (map a_id (actions ?d))"
    using ids by (simp add: frame_simps delete_where_def distinct_map_filter)
  have "distinct (map a_id (list_for_path acct ?p ?d))"
    using distinct_path_ids[OF ids'] by (simp add: path_ids_def)
  then have chain: "path_ids acct ?p d' = map a_id (list_for_path acct ?p ?d) \<and> dense acct ?p d'"
    unfolding d' by (intro renumber_chain ids') (auto simp: set_list_for_path)
  then show "dense acct ?p d'" by simp
  show "path_ids acct ?p d' = filter (\<lambda>i. i \<noteq> a_id action) (path_ids acct ?p d)"
    using chain by (simp add: list path_ids_def filter_map o_def)
  show "get_window acct (a_id action) d' = None"
    by (simp add: d' get_window_def renumber_actions clear_digest_windows_def delete_where_def
        is_window_def filter_empty_conv)
  assume other: "(acct', path') \<noteq> (acct, ?p)"
  have "list_for_path acct' path' d' = list_for_path acct' path' ?d"
    unfolding d' by (rule renumber_other[OF ids' _ other]) (auto simp: set_list_for_path)
  also have "\<dots> = list_for_path acct' path' d"
  proof -
    have "\<not> ?P a" if a: "a \<in> set (list_for_path acct' path' d)" for a
    proof
      assume "?P a"
      with a mem ids have "a = action" by (auto simp: set_list_for_path distinct_map dest: inj_onD)
      with a other acct show False by (auto simp: set_list_for_path in_path_def)
    qed
    then show ?thesis by (simp add: list filter_id_conv)
  qed
  finally show "list_for_path acct' path' d' = list_for_path acct' path' d" .
qed

subsection \<open>Replacing the chain\<close>

text \<open>The ids of the chain a submission asks for: kept where given, fresh where not.\<close>

fun spec_ids :: "env \<Rightarrow> nat \<Rightarrow> action_spec list \<Rightarrow> ulid list" where
  "spec_ids E n [] = []"
| "spec_ids E n (s # ss) =
     (if sp_id s \<noteq> blank then sp_id s # spec_ids E n ss else mint E n # spec_ids E (Suc n) ss)"

definition edit_ok :: "env \<Rightarrow> ulid \<Rightarrow> ulid \<Rightarrow> nat \<Rightarrow> watch_action list \<Rightarrow> chain_edit \<Rightarrow> bool" where
  "edit_ok E acct path n existing st \<longleftrightarrow>
     a_id ` set (ce_ordered st) = set (ce_kept st) \<union> a_id ` set (ce_created st)
     \<and> distinct (map a_id (ce_ordered st)) \<and> set (ce_kept st) \<subseteq> a_id ` set existing
     \<and> map a_id (ce_created st) = map (mint E) [n..<n + length (ce_created st)]
     \<and> list_all (in_path acct path) (ce_created st)"

lemma resolve_priorD:
  "resolve_prior sid existing kept = Inr (Some a) \<Longrightarrow> a \<in> set existing \<and> a_id a = sid \<and> sid \<noteq> blank \<and> sid \<notin> set kept"
  "resolve_prior sid existing kept = Inr None \<Longrightarrow> sid = blank"
  by (auto simp: resolve_prior_def split: if_splits option.splits dest!: first_in)

lemma edit_step_cases:
  assumes "edit_step E acct path n existing s st = Inr st'"
  obtains (keep) a row where "resolve_prior (sp_id s) existing (ce_kept st) = Inr (Some a)" "a_id row = a_id a"
      "ce_ordered st' = ce_ordered st @ [row]" "ce_created st' = ce_created st" "ce_kept st' = ce_kept st @ [a_id a]"
  | (create) row where "sp_id s = blank" "a_id row = mint E (n + length (ce_created st))" "in_path acct path row"
      "ce_ordered st' = ce_ordered st @ [row]" "ce_created st' = ce_created st @ [row]" "ce_kept st' = ce_kept st"
proof -
  obtain pr where pr: "resolve_prior (sp_id s) existing (ce_kept st) = Inr pr"
    using assms by (auto simp: edit_step_def split: sum.splits)
  show ?thesis
  proof (cases pr)
    case (Some a)
    then show ?thesis using assms pr
      by (intro keep[of a "last (ce_ordered st')"])
        (auto simp: edit_step_def Let_def split: if_splits sum.splits option.splits)
  next
    case None
    then show ?thesis using assms pr resolve_priorD(2)[of "sp_id s"]
      by (intro create[of "last (ce_ordered st')"])
        (auto simp: edit_step_def Let_def in_path_def split: if_splits sum.splits option.splits)
  qed
qed

lemma edit_step_ok:
  assumes ok: "edit_ok E acct path n existing st" and fresh: "mints_fresh E"
    and ex: "a_id ` set existing \<subseteq> mint E ` {..<n}" and step: "edit_step E acct path n existing s st = Inr st'"
  shows "edit_ok E acct path n existing st'"
    and "map a_id (ce_ordered st') @ spec_ids E (n + length (ce_created st')) ss =
      map a_id (ce_ordered st) @ spec_ids E (n + length (ce_created st)) (s # ss)"
proof -
  have kept_new: "mint E (n + length (ce_created st)) \<notin> set (ce_kept st)"
    using ok minted_new[OF fresh ex, of "n + length (ce_created st)"] by (auto simp: edit_ok_def)
  have "map a_id (ce_created st) = map (mint E) [n..<n + length (ce_created st)]" using ok by (simp add: edit_ok_def)
  from arg_cong[OF this, of set]
  have created: "a_id ` set (ce_created st) = mint E ` {n..<n + length (ce_created st)}" by simp
  have created_new: "mint E (n + length (ce_created st)) \<notin> a_id ` set (ce_created st)"
    unfolding created using fresh by (auto simp: mints_fresh_def inj_eq)
  from step show "edit_ok E acct path n existing st'"
  proof (cases rule: edit_step_cases)
    case (keep a row)
    from resolve_priorD(1)[OF keep(1)] have a: "a \<in> set existing" "a_id a \<notin> set (ce_kept st)" by auto
    have "a_id a \<notin> a_id ` set (ce_created st)"
    proof
      assume "a_id a \<in> a_id ` set (ce_created st)"
      then obtain i where "n \<le> i" "a_id a = mint E i" unfolding created by auto
      with minted_new[OF fresh ex, of i] a(1) show False by (metis imageI)
    qed
    with ok keep a show ?thesis by (auto simp: edit_ok_def)
  next
    case (create row)
    with ok kept_new created_new show ?thesis by (auto simp: edit_ok_def)
  qed
  from step show "map a_id (ce_ordered st') @ spec_ids E (n + length (ce_created st')) ss =
      map a_id (ce_ordered st) @ spec_ids E (n + length (ce_created st)) (s # ss)"
  proof (cases rule: edit_step_cases)
    case (keep a row)
    with resolve_priorD(1)[OF keep(1)] show ?thesis by simp
  next
    case (create row)
    then show ?thesis by simp
  qed
qed

lemma edit_all_ok:
  "edit_ok E acct path n existing st \<Longrightarrow> mints_fresh E \<Longrightarrow> a_id ` set existing \<subseteq> mint E ` {..<n} \<Longrightarrow>
   edit_all E acct path n existing ss st = Inr st' \<Longrightarrow>
     edit_ok E acct path n existing st' \<and>
     map a_id (ce_ordered st') = map a_id (ce_ordered st) @ spec_ids E (n + length (ce_created st)) ss"
proof (induction ss arbitrary: st)
  case (Cons s ss)
  then obtain st1 where st1: "edit_step E acct path n existing s st = Inr st1"
    "edit_all E acct path n existing ss st1 = Inr st'" by (auto split: sum.splits)
  note one = edit_step_ok[OF Cons.prems(1-3) st1(1)]
  from Cons.IH[OF one(1) Cons.prems(2,3) st1(2)] one(2)[of ss] show ?case by simp
qed simp

lemma save_rows_simps [simp]:
  "map a_id (save_rows upd rows) = map a_id rows"
  "a_id ` set (filter (in_path acct path) (save_rows upd rows)) = a_id ` set (filter (in_path acct path) rows)"
  "map a_rank (save_rows upd rows) = map a_rank rows"
proof -
  show "map a_id (save_rows upd rows) = map a_id rows" "map a_rank (save_rows upd rows) = map a_rank rows"
    by (simp_all add: save_rows_def split: option.split)
  show "a_id ` set (filter (in_path acct path) (save_rows upd rows)) = a_id ` set (filter (in_path acct path) rows)"
    by (induction rows) (auto simp: save_rows_def in_path_def split: option.splits)
qed

lemma save_rows_none: "(\<And>a. a \<in> set rows \<Longrightarrow> a_id a \<notin> a_id ` set upd) \<Longrightarrow> save_rows upd rows = rows"
  unfolding save_rows_def by (intro map_idI) (force simp: image_iff split: option.split dest!: first_in)

lemma filter_path_save_rows:
  "filter (in_path acct path) (save_rows upd rows) = save_rows upd (filter (in_path acct path) rows)"
  by (induction rows) (auto simp: save_rows_def in_path_def split: option.splits)

lemma renumber_Nil: "renumber [] d = d"
  by (simp add: renumber_actions set_ranks_def)

definition edited :: "ulid \<Rightarrow> ulid list \<Rightarrow> chain_edit \<Rightarrow> db \<Rightarrow> db" where
  "edited acct removed st d =
     (let d2 = clear_digest_windows acct (removed @ ce_clear st)
                 (d\<lparr>actions := delete_where (\<lambda>a. a_account a = acct \<and> a_id a \<in> set removed) (actions d)\<rparr>)
      in d2\<lparr>actions := save_rows (ce_updated st) (actions d2) @ ce_created st,
            drawn := drawn d2 + length (ce_created st)\<rparr>)"

lemma apply_edit_eq: "apply_edit acct removed st d = renumber (ce_ordered st) (edited acct removed st d)"
  by (simp add: apply_edit_def edited_def Let_def renumber_Nil)

lemma edited_actions:
  "actions (edited acct removed st d) =
     save_rows (ce_updated st) (delete_where (\<lambda>a. a_account a = acct \<and> a_id a \<in> set removed) (actions d)) @ ce_created st"
  by (simp add: edited_def Let_def frame_simps)

lemma edited_chain:
  assumes tab: "action_table E d" and fresh: "mints_fresh E"
    and ok: "edit_ok E acct path (drawn d) (list_for_path acct path d) st"
    and removed: "set removed = a_id ` {a \<in> set (list_for_path acct path d). a_id a \<notin> set (ce_kept st)}"
  shows "distinct (map a_id (actions (edited acct removed st d)))"
    and "a_id ` set (ce_ordered st) = a_id ` {a \<in> set (actions (edited acct removed st d)). in_path acct path a}"
proof -
  let ?left = "delete_where (\<lambda>a. a_account a = acct \<and> a_id a \<in> set removed) (actions d)"
  have dist: "distinct (map a_id (actions d))" and minted: "a_id ` set (actions d) \<subseteq> mint E ` {..<drawn d}"
    using tab by (simp_all add: action_table_def)
  have crt: "map a_id (ce_created st) = map (mint E) [drawn d..<drawn d + length (ce_created st)]"
    using ok by (simp add: edit_ok_def)
  have "distinct (map (mint E) [drawn d..<drawn d + length (ce_created st)])"
    using fresh by (auto simp: distinct_map mints_fresh_def intro: inj_on_subset)
  moreover have "set (map a_id (ce_created st)) \<inter> a_id ` set (actions d) = {}"
    unfolding crt by (rule minted_disjoint[OF fresh minted])
  moreover have "set (map a_id ?left) \<subseteq> a_id ` set (actions d)" by (auto simp: set_delete_where)
  ultimately have "distinct (map a_id ?left @ map a_id (ce_created st))"
    using dist crt by (auto simp: delete_where_def distinct_map_filter)
  then show "distinct (map a_id (actions (edited acct removed st d)))" by (simp add: edited_actions)
  have "a_id ` {a \<in> set (actions (edited acct removed st d)). in_path acct path a} =
      a_id ` set (filter (in_path acct path) ?left) \<union> a_id ` set (ce_created st)"
  proof -
    have "a_id ` {a \<in> set (actions (edited acct removed st d)). in_path acct path a} =
        a_id ` set (filter (in_path acct path) (save_rows (ce_updated st) ?left @ ce_created st))"
      by (simp only: edited_actions set_filter)
    also have "\<dots> = a_id ` set (filter (in_path acct path) (save_rows (ce_updated st) ?left)) \<union> a_id ` set (ce_created st)"
    proof -
      have "filter (in_path acct path) (ce_created st) = ce_created st"
        using ok by (simp add: edit_ok_def list_all_iff filter_id_conv)
      then show ?thesis by (simp only: filter_append set_append image_Un)
    qed
    finally show ?thesis by (simp only: save_rows_simps)
  qed
  also have "a_id ` set (filter (in_path acct path) ?left) = set (ce_kept st)"
  proof -
    have "a_id a \<in> set removed \<longleftrightarrow> a_id a \<notin> set (ce_kept st)" if "a \<in> set (actions d)" "in_path acct path a" for a
      using that removed dist by (auto simp: set_list_for_path distinct_map dest: inj_onD)
    then have "a_id ` set (filter (in_path acct path) ?left)
        = a_id ` {a \<in> set (list_for_path acct path d). a_id a \<in> set (ce_kept st)}"
      by (auto simp: set_delete_where set_list_for_path in_path_def intro!: image_cong)
    also have "\<dots> = set (ce_kept st)" using ok by (auto simp: edit_ok_def)
    finally show ?thesis .
  qed
  finally show "a_id ` set (ce_ordered st) = a_id ` {a \<in> set (actions (edited acct removed st d)). in_path acct path a}"
    using ok by (simp add: edit_ok_def)
qed

lemma replace_chain_chain:
  assumes tab: "action_table E d" and fresh: "mints_fresh E"
    and ok: "replace_chain E acct path specs acq d = (Inr chain, d')"
  shows "map a_id chain = spec_ids E (drawn d) specs" "chain = list_for_path acct path d'" "dense acct path d'"
proof -
  let ?ex = "list_for_path acct path d"
  obtain st where st: "edit_all E acct path (drawn d) ?ex specs no_edit = Inr st"
    and d': "d' = apply_edit acct (map a_id (filter (\<lambda>a. a_id a \<notin> set (ce_kept st)) ?ex)) st d"
    and chain: "chain = list_for_path acct path d'"
    using ok by (auto simp: replace_chain_def Let_def split: if_splits sum.splits)
  have minted: "a_id ` set ?ex \<subseteq> mint E ` {..<drawn d}"
    using tab by (auto simp: action_table_def set_list_for_path)
  have "edit_ok E acct path (drawn d) ?ex no_edit" by (simp add: edit_ok_def no_edit_def)
  note whole = edit_all_ok[OF this fresh minted st]
  from whole have eok: "edit_ok E acct path (drawn d) ?ex st"
    and ids: "map a_id (ce_ordered st) = spec_ids E (drawn d) specs" by (simp_all add: no_edit_def)
  note ed = edited_chain[OF tab fresh eok, of "map a_id (filter (\<lambda>a. a_id a \<notin> set (ce_kept st)) ?ex)"]
  have "distinct (map a_id (ce_ordered st))" using eok by (simp add: edit_ok_def)
  from renumber_chain[OF ed(1) this ed(2)]
  have "path_ids acct path d' = map a_id (ce_ordered st) \<and> dense acct path d'" by (simp add: d' apply_edit_eq)
  then show "map a_id chain = spec_ids E (drawn d) specs" "dense acct path d'"
    by (simp_all add: chain path_ids_def ids)
  show "chain = list_for_path acct path d'" by (rule chain)
qed

lemma replace_chain_error:
  "replace_chain E acct path specs acq d = (Inl e, d') \<Longrightarrow> d' = d"
  by (auto simp: replace_chain_def Let_def split: if_splits sum.splits)

text \<open>In a chain with dense ranks the neighbours are the neighbours in the list: the next of the k-th action
  is the (k+1)-th, the previous of that is the k-th again, the tail has no next and the head no previous.\<close>

lemma chain_neighbours:
  assumes "dense acct path d" "k < length (list_for_path acct path d)"
  shows "next_in_chain acct (list_for_path acct path d ! k) d =
      (if Suc k < length (list_for_path acct path d) then Some (list_for_path acct path d ! Suc k) else None)
    \<and> prev_in_chain acct (list_for_path acct path d ! k) d =
      (if k = 0 then None else Some (list_for_path acct path d ! (k - 1)))
    \<and> (\<forall>b. next_in_chain acct (list_for_path acct path d ! k) d = Some b \<longrightarrow>
        prev_in_chain acct b d = Some (list_for_path acct path d ! k))"
  using next_dense[OF assms] prev_dense[OF assms] prev_dense[OF assms(1), of "Suc k"] by auto

end
