(* ===== verification/Deliveries.thy ===== *)
theory Deliveries
  imports Run_Queue
begin

text \<open>
  The outbound HTTP-call audit (services/deliveries.py): one terminal row per attempt, and the
  newest-first lists of the audit endpoints, which are pages of the \<open>newest_first\<close> interface.
\<close>

fun OUTCOME_TO_DELIVERY :: "watch_run_state \<Rightarrow> delivery_state option" where
  "OUTCOME_TO_DELIVERY SUCCEEDED = Some DELIVERY_SUCCEEDED"
| "OUTCOME_TO_DELIVERY ERRORED = Some DELIVERY_ERRORED"
| "OUTCOME_TO_DELIVERY FAILED = Some DELIVERY_FAILED"
| "OUTCOME_TO_DELIVERY _ = None"

definition delivery_outcome :: "watch_run_state \<Rightarrow> delivery_state" where
  "delivery_outcome s = (case OUTCOME_TO_DELIVERY s of Some t \<Rightarrow> t | None \<Rightarrow> DELIVERY_ERRORED)"

definition record_delivery :: "env \<Rightarrow> ulid \<Rightarrow> ulid \<Rightarrow> ulid \<Rightarrow> delivery_cadence \<Rightarrow> outbound_call \<Rightarrow> watch_run_state
    \<Rightarrow> string \<Rightarrow> nat \<Rightarrow> instant \<Rightarrow> db \<Rightarrow> action_delivery \<times> db" where
  "record_delivery E acct wat act cadence call outcome err attempt now d =
     (let st = delivery_outcome outcome;
          (did, d') = new_id E d;
          row = \<lparr>d_id = did, d_account = acct, d_watch = wat, d_action = act, d_cadence = cadence,
                 d_method = oc_method call, d_host = oc_host call, d_state = st, d_status = oc_status call,
                 d_items = oc_item_count call, d_attempt = attempt, d_payload = oc_payload call,
                 d_error = (if st = DELIVERY_SUCCEEDED then [] else err),
                 d_started = Some now, d_completed = Some now\<rparr>
      in (row, d'\<lparr>deliveries := deliveries d' @ [row]\<rparr>))"

definition delivery_get :: "ulid \<Rightarrow> ulid \<Rightarrow> db \<Rightarrow> exn + action_delivery" where
  "delivery_get acct did d =
     (case first (filter (\<lambda>x. d_id x = did \<and> d_account x = acct) (deliveries d)) of
        None \<Rightarrow> Inl DoesNotExist | Some x \<Rightarrow> Inr x)"

definition delivery_list_for_action :: "ulid \<Rightarrow> ulid \<Rightarrow> ulid option \<Rightarrow> nat \<Rightarrow> delivery_state option \<Rightarrow> db
    \<Rightarrow> action_delivery list" where
  "delivery_list_for_action acct act after lmt st d =
     page_desc d_id after lmt
       (filter (\<lambda>x. d_account x = acct \<and> d_action x = act \<and> (case st of None \<Rightarrow> True | Some s \<Rightarrow> d_state x = s))
         (deliveries d))"

lemma record_delivery_frame [frame_simps]:
  "runs (snd (record_delivery E acct wat act cadence call outcome err attempt now d)) = runs d"
  "actions (snd (record_delivery E acct wat act cadence call outcome err attempt now d)) = actions d"
  "windows (snd (record_delivery E acct wat act cadence call outcome err attempt now d)) = windows d"
  "watches (snd (record_delivery E acct wat act cadence call outcome err attempt now d)) = watches d"
  "feed_items (snd (record_delivery E acct wat act cadence call outcome err attempt now d)) = feed_items d"
  "drawn (snd (record_delivery E acct wat act cadence call outcome err attempt now d)) = Suc (drawn d)"
  by (simp_all add: record_delivery_def new_id_def Let_def)

lemma record_delivery_row:
  "fst (record_delivery E acct wat act cadence call outcome err attempt now d) =
     \<lparr>d_id = mint E (drawn d), d_account = acct, d_watch = wat, d_action = act, d_cadence = cadence,
      d_method = oc_method call, d_host = oc_host call, d_state = delivery_outcome outcome,
      d_status = oc_status call, d_items = oc_item_count call, d_attempt = attempt, d_payload = oc_payload call,
      d_error = (if delivery_outcome outcome = DELIVERY_SUCCEEDED then [] else err),
      d_started = Some now, d_completed = Some now\<rparr>"
  "deliveries (snd (record_delivery E acct wat act cadence call outcome err attempt now d)) =
     deliveries d @ [fst (record_delivery E acct wat act cadence call outcome err attempt now d)]"
  by (simp_all add: record_delivery_def new_id_def Let_def)

text \<open>The two audit lists are newest-first pages.\<close>

definition runs_of_action :: "ulid \<Rightarrow> ulid \<Rightarrow> ulid option \<Rightarrow> watch_run_state option \<Rightarrow> instant run_windows \<Rightarrow> db
    \<Rightarrow> run list" where
  "runs_of_action acct act wat st ws d =
     filter (\<lambda>r. r_account r = acct \<and> r_action r = act
               \<and> (case wat of None \<Rightarrow> True | Some w \<Rightarrow> w = blank \<or> r_watch r = w)
               \<and> (case st of None \<Rightarrow> True | Some s \<Rightarrow> r_state r = s)
               \<and> in_run_windows acct ws d r) (runs d)"

definition deliveries_of_action :: "ulid \<Rightarrow> ulid \<Rightarrow> delivery_state option \<Rightarrow> db \<Rightarrow> action_delivery list" where
  "deliveries_of_action acct act st d =
     filter (\<lambda>x. d_account x = acct \<and> d_action x = act \<and> (case st of None \<Rightarrow> True | Some s \<Rightarrow> d_state x = s))
       (deliveries d)"

interpretation run_pages: newest_first "\<lambda>after lmt. list_for_action acct act wat after lmt st ws d" r_id
    "runs_of_action acct act wat st ws d" for acct act wat st ws d
  by unfold_locales (simp add: list_for_action_def runs_of_action_def)

interpretation delivery_pages: newest_first "\<lambda>after lmt. delivery_list_for_action acct act after lmt st d" d_id
    "deliveries_of_action acct act st d" for acct act st d
  by unfold_locales (simp add: delivery_list_for_action_def deliveries_of_action_def)

end
