(* ===== verification/Watches.thy ===== *)
theory Watches
  imports Chain_Facts Deliveries
begin

text \<open>
  The watch aggregate (services/watches/\_service.py and \_global.py): reads, create, full-replace
  update, pause, delete, and the subscription set with its watermarks.
\<close>

subsection \<open>Reads\<close>

definition watch_get :: "ulid \<Rightarrow> ulid \<Rightarrow> db \<Rightarrow> exn + watch" where
  "watch_get acct wid d =
     (case first (filter (\<lambda>w. w_id w = wid \<and> w_account w = acct) (watches d)) of
        None \<Rightarrow> Inl DoesNotExist | Some w \<Rightarrow> Inr w)"

definition watch_global_get :: "ulid \<Rightarrow> db \<Rightarrow> exn + watch" where
  "watch_global_get wid d =
     (case first (filter (\<lambda>w. w_id w = wid) (watches d)) of None \<Rightarrow> Inl DoesNotExist | Some w \<Rightarrow> Inr w)"

definition iter_active :: "db \<Rightarrow> watch list" where
  "iter_active d = filter w_active (watches d)"

definition watch_count :: "db \<Rightarrow> nat" where
  "watch_count d = length (watches d)"

definition find_by_name :: "ulid \<Rightarrow> string \<Rightarrow> db \<Rightarrow> watch option" where
  "find_by_name acct nm d = first (order_by w_id (filter (\<lambda>w. w_account w = acct \<and> w_name w = nm) (watches d)))"

definition watch_id_for_path :: "ulid \<Rightarrow> ulid \<Rightarrow> db \<Rightarrow> exn + ulid" where
  "watch_id_for_path acct pid d =
     (case first (filter (\<lambda>p. p_id p = pid \<and> p_account p = acct) (paths d)) of
        None \<Rightarrow> Inl DoesNotExist | Some p \<Rightarrow> Inr (p_watch p))"

definition watch_list :: "ulid \<Rightarrow> ulid option \<Rightarrow> nat \<Rightarrow> db \<Rightarrow> watch list" where
  "watch_list acct after lmt d = page_desc w_id after lmt (filter (\<lambda>w. w_account w = acct) (watches d))"

definition subscriptions :: "ulid \<Rightarrow> ulid \<Rightarrow> db \<Rightarrow> watch_feed list" where
  "subscriptions acct wid d = filter (\<lambda>s. wf_account s = acct \<and> wf_watch s = wid) (watch_feeds d)"

definition list_watch_feeds :: "ulid \<Rightarrow> watch \<Rightarrow> db \<Rightarrow> exn + watch_feed list" where
  "list_watch_feeds acct w d =
     (if w_account w \<noteq> acct then Inl ValueError else Inr (order_by wf_id (subscriptions acct (w_id w) d)))"

definition feed_ids :: "ulid \<Rightarrow> watch \<Rightarrow> db \<Rightarrow> exn + ulid list" where
  "feed_ids acct w d = map_sum id (map wf_feed) (list_watch_feeds acct w d)"

definition advance_watermark :: "ulid \<Rightarrow> watch_feed \<Rightarrow> ulid \<Rightarrow> db \<Rightarrow> (exn + unit) \<times> db" where
  "advance_watermark acct s last_item d =
     (if wf_account s \<noteq> acct then (Inl ValueError, d)
      else (Inr (), d\<lparr>watch_feeds := update_where (\<lambda>x. wf_id x = wf_id s)
                          (\<lambda>x. x\<lparr>wf_last_item := last_item\<rparr>) (watch_feeds d)\<rparr>))"

definition initial_actions :: "ulid \<Rightarrow> watch \<Rightarrow> db \<Rightarrow> exn + watch_action list" where
  "initial_actions acct w d =
     (if w_account w \<noteq> acct then Inl ValueError
      else if w_initial_path w = blank then Inl ValueError
      else Inr (list_for_path acct (w_initial_path w) d))"

subsection \<open>Writes\<close>

definition new_subscriptions :: "env \<Rightarrow> ulid \<Rightarrow> ulid \<Rightarrow> ulid list \<Rightarrow> db \<Rightarrow> db" where
  "new_subscriptions E acct wid fids d =
     (let (ids, d') = new_ids E (length fids) d
      in d'\<lparr>watch_feeds := watch_feeds d' @
             map2 (\<lambda>f i. \<lparr>wf_id = i, wf_account = acct, wf_watch = wid, wf_feed = f, wf_last_item = blank\<rparr>) fids ids\<rparr>)"

definition create_watch :: "env \<Rightarrow> ulid \<Rightarrow> string \<Rightarrow> bool \<Rightarrow> ulid list \<Rightarrow> action_spec list \<Rightarrow> bool \<Rightarrow> db
    \<Rightarrow> (exn + watch) \<times> db" where
  "create_watch E acct nm active fids specs acquired d =
     (let (wid, d1) = new_id E d;
          (pid, d2) = new_id E d1;
          w = \<lparr>w_id = wid, w_account = acct, w_name = nm, w_active = active, w_initial_path = pid\<rparr>;
          d3 = d2\<lparr>watches := watches d2 @ [w],
                  paths := paths d2 @ [\<lparr>p_id = pid, p_account = acct, p_watch = wid\<rparr>]\<rparr>;
          d4 = new_subscriptions E acct wid (dict_fromkeys fids) d3
      in case replace_chain E acct pid specs acquired d4 of
           (Inl e, d5) \<Rightarrow> (Inl e, d5)
         | (Inr chain, d5) \<Rightarrow> (Inr w, d5))"

definition set_feeds :: "env \<Rightarrow> ulid \<Rightarrow> ulid \<Rightarrow> ulid list \<Rightarrow> db \<Rightarrow> db" where
  "set_feeds E acct wid fids d =
     (let desired = dict_fromkeys fids;
          existing = subscriptions acct wid d;
          to_remove = map wf_id (filter (\<lambda>s. wf_feed s \<notin> set desired) existing);
          d1 = d\<lparr>watch_feeds := delete_where (\<lambda>s. wf_id s \<in> set to_remove) (watch_feeds d)\<rparr>;
          to_add = filter (\<lambda>f. f \<notin> wf_feed ` set existing) desired
      in new_subscriptions E acct wid to_add d1)"

definition save_watch :: "watch \<Rightarrow> db \<Rightarrow> db" where
  "save_watch w d = d\<lparr>watches := update_where (\<lambda>x. w_id x = w_id w)
                       (\<lambda>x. x\<lparr>w_name := w_name w, w_active := w_active w\<rparr>) (watches d)\<rparr>"

definition update_watch :: "env \<Rightarrow> ulid \<Rightarrow> watch \<Rightarrow> string \<Rightarrow> bool \<Rightarrow> ulid list \<Rightarrow> action_spec list \<Rightarrow> bool \<Rightarrow> db
    \<Rightarrow> (exn + watch) \<times> db" where
  "update_watch E acct w nm active fids specs acquired d =
     (if w_account w \<noteq> acct then (Inl ValueError, d)
      else if w_initial_path w = blank then (Inl ValueError, d)
      else let w' = w\<lparr>w_name := nm, w_active := active\<rparr>;
               d1 = set_feeds E acct (w_id w) fids (save_watch w' d)
           in case replace_chain E acct (w_initial_path w) specs acquired d1 of
                (Inl e, d2) \<Rightarrow> (Inl e, d2)
              | (Inr chain, d2) \<Rightarrow> (Inr w', d2))"

definition set_active :: "ulid \<Rightarrow> watch \<Rightarrow> bool \<Rightarrow> db \<Rightarrow> (exn + watch) \<times> db" where
  "set_active acct w active d =
     (if w_account w \<noteq> acct then (Inl ValueError, d)
      else (Inr (w\<lparr>w_active := active\<rparr>),
            d\<lparr>watches := update_where (\<lambda>x. w_id x = w_id w) (\<lambda>x. x\<lparr>w_active := active\<rparr>) (watches d)\<rparr>))"

definition delete_watch :: "ulid \<Rightarrow> watch \<Rightarrow> db \<Rightarrow> (exn + unit) \<times> db" where
  "delete_watch acct w d =
     (if w_account w \<noteq> acct then (Inl ValueError, d)
      else let d1 = delete_watch_runs acct (w_id w) d;
               path_ids = map p_id (filter (\<lambda>p. p_account p = acct \<and> p_watch p = w_id w) (paths d1));
               action_ids = map a_id (filter (\<lambda>a. a_account a = acct \<and> a_path a \<in> set path_ids) (actions d1));
               d2 = (if path_ids = [] then d1
                     else (if action_ids = [] then d1
                           else d1\<lparr>windows := delete_where
                                  (\<lambda>x. dw_account x = acct \<and> dw_action x \<in> set action_ids) (windows d1)\<rparr>)
                          \<lparr>actions := delete_where (\<lambda>a. a_account a = acct \<and> a_path a \<in> set path_ids) (actions d1)\<rparr>);
               d3 = d2\<lparr>paths := delete_where (\<lambda>p. p_account p = acct \<and> p_watch p = w_id w) (paths d2)\<rparr>;
               d4 = d3\<lparr>watch_feeds := delete_where (\<lambda>s. wf_account s = acct \<and> wf_watch s = w_id w) (watch_feeds d3)\<rparr>
           in (Inr (), d4\<lparr>watches := delete_where (\<lambda>x. w_id x = w_id w) (watches d4)\<rparr>))"

interpretation watch_pages: newest_first "\<lambda>after lmt. watch_list acct after lmt d" w_id
    "filter (\<lambda>w. w_account w = acct) (watches d)" for acct d
  by unfold_locales (simp add: watch_list_def)

subsection \<open>The subscription set\<close>

definition fresh_subscriptions :: "env \<Rightarrow> ulid \<Rightarrow> ulid \<Rightarrow> ulid list \<Rightarrow> nat \<Rightarrow> watch_feed list" where
  "fresh_subscriptions E acct wid fids n =
     map2 (\<lambda>f i. \<lparr>wf_id = mint E i, wf_account = acct, wf_watch = wid, wf_feed = f, wf_last_item = blank\<rparr>)
       fids [n..<n + length fids]"

lemma new_subscriptions_eq:
  "new_subscriptions E acct wid fids d =
     d\<lparr>drawn := drawn d + length fids,
       watch_feeds := watch_feeds d @ fresh_subscriptions E acct wid fids (drawn d)\<rparr>"
proof -
  have "map (\<lambda>i. mint E (drawn d + i)) [0..<length fids] = map (mint E) [drawn d..<drawn d + length fids]"
    by (rule nth_equalityI) simp_all
  then show ?thesis
    by (simp add: new_subscriptions_def fresh_subscriptions_def new_ids_def zip_map2 case_prod_unfold o_def)
qed

lemma fresh_subscriptions_all:
  "s \<in> set (fresh_subscriptions E acct wid fids n) \<Longrightarrow> wf_account s = acct \<and> wf_watch s = wid \<and> wf_last_item s = blank"
  by (auto simp: fresh_subscriptions_def)

lemma fresh_subscriptions_feeds: "map wf_feed (fresh_subscriptions E acct wid fids n) = fids"
  unfolding fresh_subscriptions_def by (rule nth_equalityI) simp_all

lemma set_feeds_subscriptions:
  assumes ids: "distinct (map wf_id (watch_feeds d))"
  shows "subscriptions acct wid (set_feeds E acct wid fids d) =
      filter (\<lambda>s. wf_feed s \<in> set fids) (subscriptions acct wid d)
      @ fresh_subscriptions E acct wid
          (filter (\<lambda>f. f \<notin> wf_feed ` set (subscriptions acct wid d)) (dict_fromkeys fids)) (drawn d)"
    and "(acct', wid') \<noteq> (acct, wid) \<Longrightarrow>
      subscriptions acct' wid' (set_feeds E acct wid fids d) = subscriptions acct' wid' d"
proof -
  let ?gone = "wf_id ` set (filter (\<lambda>s. wf_feed s \<notin> set fids) (subscriptions acct wid d))"
  let ?add = "filter (\<lambda>f. f \<notin> wf_feed ` set (subscriptions acct wid d)) (dict_fromkeys fids)"
  have gone: "wf_id s \<in> ?gone \<longleftrightarrow> s \<in> set (subscriptions acct wid d) \<and> wf_feed s \<notin> set fids"
    if "s \<in> set (watch_feeds d)" for s
    using that ids by (auto simp: subscriptions_def distinct_map dest: inj_onD)
  have rows: "watch_feeds (set_feeds E acct wid fids d) =
      filter (\<lambda>s. wf_id s \<notin> ?gone) (watch_feeds d) @ fresh_subscriptions E acct wid ?add (drawn d)"
    by (simp add: set_feeds_def Let_def new_subscriptions_eq delete_where_def)
  have new: "filter (\<lambda>s. wf_account s = acct \<and> wf_watch s = wid) (fresh_subscriptions E acct wid ?add (drawn d))
      = fresh_subscriptions E acct wid ?add (drawn d)"
    using fresh_subscriptions_all by (fastforce simp: filter_id_conv)
  have kept: "filter (\<lambda>s. wf_account s = acct \<and> wf_watch s = wid) (filter (\<lambda>s. wf_id s \<notin> ?gone) (watch_feeds d))
      = filter (\<lambda>s. wf_feed s \<in> set fids) (subscriptions acct wid d)"
    unfolding subscriptions_def filter_filter
    by (rule filter_cong[OF refl]) (use gone in \<open>auto simp: subscriptions_def\<close>)
  show "subscriptions acct wid (set_feeds E acct wid fids d) =
      filter (\<lambda>s. wf_feed s \<in> set fids) (subscriptions acct wid d)
      @ fresh_subscriptions E acct wid ?add (drawn d)"
    unfolding subscriptions_def[of acct wid "set_feeds E acct wid fids d"] rows filter_append new kept ..
  assume other: "(acct', wid') \<noteq> (acct, wid)"
  have "filter (\<lambda>s. wf_account s = acct' \<and> wf_watch s = wid') (fresh_subscriptions E acct wid ?add (drawn d)) = []"
    using other fresh_subscriptions_all by (fastforce simp: filter_empty_conv)
  moreover have "filter (\<lambda>s. wf_account s = acct' \<and> wf_watch s = wid') (filter (\<lambda>s. wf_id s \<notin> ?gone) (watch_feeds d))
      = filter (\<lambda>s. wf_account s = acct' \<and> wf_watch s = wid') (watch_feeds d)"
    unfolding filter_filter
    by (rule filter_cong[OF refl]) (use gone other in \<open>auto simp: subscriptions_def\<close>)
  ultimately show "subscriptions acct' wid' (set_feeds E acct wid fids d) = subscriptions acct' wid' d"
    unfolding subscriptions_def rows filter_append by simp
qed

subsection \<open>Deleting a watch\<close>

definition watch_path_ids :: "ulid \<Rightarrow> ulid \<Rightarrow> db \<Rightarrow> ulid set" where
  "watch_path_ids acct wid d = p_id ` {p \<in> set (paths d). p_account p = acct \<and> p_watch p = wid}"

definition watch_action_ids :: "ulid \<Rightarrow> ulid \<Rightarrow> db \<Rightarrow> ulid set" where
  "watch_action_ids acct wid d =
     a_id ` {a \<in> set (actions d). a_account a = acct \<and> a_path a \<in> watch_path_ids acct wid d}"

lemma delete_watch_eq:
  assumes "w_account w = acct"
  shows "delete_watch acct w d = (Inr (), d\<lparr>
      runs := delete_where (\<lambda>r. r_account r = acct \<and> r_watch r = w_id w) (runs d),
      windows := delete_where (\<lambda>x. dw_account x = acct \<and> dw_action x \<in> watch_action_ids acct (w_id w) d) (windows d),
      actions := delete_where (\<lambda>a. a_account a = acct \<and> a_path a \<in> watch_path_ids acct (w_id w) d) (actions d),
      paths := delete_where (\<lambda>p. p_account p = acct \<and> p_watch p = w_id w) (paths d),
      watch_feeds := delete_where (\<lambda>s. wf_account s = acct \<and> wf_watch s = w_id w) (watch_feeds d),
      watches := delete_where (\<lambda>x. w_id x = w_id w) (watches d)\<rparr>)"
proof -
  let ?ps = "map p_id (filter (\<lambda>p. p_account p = acct \<and> p_watch p = w_id w) (paths d))"
  let ?as = "map a_id (filter (\<lambda>a. a_account a = acct \<and> a_path a \<in> set ?ps) (actions d))"
  have ps: "set ?ps = watch_path_ids acct (w_id w) d" by (simp add: watch_path_ids_def)
  have as: "set ?as = watch_action_ids acct (w_id w) d" by (simp add: watch_action_ids_def watch_path_ids_def)
  have none: "delete_where (\<lambda>x. False) rows = rows" for rows :: "'r list" by (simp add: delete_where_never)
  show ?thesis
  proof (cases "?ps = []")
    case True
    then have "watch_path_ids acct (w_id w) d = {}" using ps by (metis empty_set)
    moreover from this have "watch_action_ids acct (w_id w) d = {}" by (simp add: watch_action_ids_def)
    ultimately show ?thesis using assms True
      by (cases d) (simp add: delete_watch_def delete_watch_runs_def Let_def none)
  next
    case False
    show ?thesis
    proof (cases "?as = []")
      case True
      then have "watch_action_ids acct (w_id w) d = {}" using as by (metis empty_set)
      then show ?thesis using assms False True ps
        by (cases d) (simp add: delete_watch_def delete_watch_runs_def Let_def none)
    next
      case nonempty: False
      show ?thesis using assms False nonempty ps as
        by (simp add: delete_watch_def delete_watch_runs_def Let_def)
    qed
  qed
qed

end
