(* ===== verification/Drain.thy ===== *)
theory Drain
  imports Watches
begin

text \<open>
  Executing one claimed run (operations/run\_inputs.py, result\_enforce.py, advance.py, drain.py).
  An executor is outside the model: it is \<open>executor_of E kind\<close>, it sees the number of the call, and
  \<open>None\<close> is a raise. The delivery row is written in its own commit before the completion; the
  completion and the advance are one transaction, so an error inside it leaves the database as it
  was when the transaction began.
\<close>

subsection \<open>Inputs\<close>

definition watch_name_of :: "ulid \<Rightarrow> db \<Rightarrow> string" where
  "watch_name_of wid d = (case watch_global_get wid d of Inl _ \<Rightarrow> [] | Inr w \<Rightarrow> w_name w)"

definition build_run_inputs :: "(run \<times> feed_item) list \<Rightarrow> ulid \<Rightarrow> delivery_cadence \<Rightarrow> instant option
    \<Rightarrow> instant option \<Rightarrow> db \<Rightarrow> action_item list \<times> action_context" where
  "build_run_inputs pairs wid cadence since til d =
     (map (\<lambda>(r, i). \<lparr>ai_data = i_data i, ai_key = i_source_kind i @ '':'' @ i_external_id i,
                     ai_source_label = i_source_label i, ai_source_kind = i_source_kind i\<rparr>) pairs,
      \<lparr>cx_watch_id = wid, cx_watch_name = watch_name_of wid d, cx_delivery = cadence,
       cx_since = since, cx_until = til\<rparr>)"

definition enforce_result_schema :: "env \<Rightarrow> string \<Rightarrow> action_result \<Rightarrow> action_result" where
  "enforce_result_schema E kind out =
     (if res_state out \<noteq> SUCCEEDED then out
      else if result_valid E kind (res_result out) then out
      else case out of
             OutboundActionResult _ res _ oc \<Rightarrow> OutboundActionResult ERRORED res RESULT_INVALID oc
           | ActionResult _ res _ \<Rightarrow> ActionResult ERRORED res RESULT_INVALID)"

subsection \<open>Advancing\<close>

definition enqueue_next_batch :: "env \<Rightarrow> run list \<Rightarrow> watch_action \<Rightarrow> instant \<Rightarrow> db \<Rightarrow> exn + db" where
  "enqueue_next_batch E rs action now d =
     (case rs of
        [] \<Rightarrow> Inr d
      | r # _ \<Rightarrow>
          (case next_in_chain (r_account r) action d of
             None \<Rightarrow> Inr d
           | Some nxt \<Rightarrow>
               (case load_config E nxt of
                  Inl e \<Rightarrow> Inl e
                | Inr config \<Rightarrow>
                    (let (sched, d1) = (if is_digest config
                           then open_window E (r_account r) (a_id nxt) (digest_interval config) now d
                           else (now, d))
                     in Inr (enqueue_advance_batch E (r_account r) (a_id nxt) (a_kind nxt) sched
                               (map (\<lambda>r. (r_watch r, r_item r, r_id r)) rs) d1)))))"

definition enqueue_next :: "env \<Rightarrow> run \<Rightarrow> watch_action \<Rightarrow> instant \<Rightarrow> db \<Rightarrow> exn + db" where
  "enqueue_next E r action now d = enqueue_next_batch E [r] action now d"

subsection \<open>One claimed run\<close>

text \<open>\<open>_resolve\<close>: the action, unless it is gone, and the outcome.\<close>

definition drain_resolve :: "env \<Rightarrow> run \<Rightarrow> db \<Rightarrow> (watch_action option \<times> action_result) \<times> db" where
  "drain_resolve E r d =
     (case action_get (r_account r) (r_action r) d of
        Inl _ \<Rightarrow> ((None, ActionResult ERRORED [] ACTION_GONE), d)
      | Inr action \<Rightarrow>
          (case item_get (r_account r) (r_item r) d of
             Inl _ \<Rightarrow> ((Some action, ActionResult ERRORED [] ITEM_GONE), d)
           | Inr item \<Rightarrow>
               (case executor_of E (a_kind action) of
                  None \<Rightarrow> ((Some action, ActionResult ERRORED [] NO_EXECUTOR), d)
                | Some impl \<Rightarrow>
                    (let (items, ctx) = build_run_inputs [(r, item)] (r_watch r) INSTANT None None d;
                         d1 = d\<lparr>calls := Suc (calls d)\<rparr>
                     in case impl (calls d) action items ctx of
                          None \<Rightarrow> ((Some action, ActionResult FAILED [] TRANSIENT), d1)
                        | Some out \<Rightarrow> ((Some action, enforce_result_schema E (a_kind action) out), d1)))))"

text \<open>The delivery row of an outbound call, committed before the completion; blank when none was made.\<close>

definition drain_record :: "env \<Rightarrow> run \<Rightarrow> action_result \<Rightarrow> instant \<Rightarrow> db \<Rightarrow> ulid \<times> db" where
  "drain_record E r out now d =
     (case out of
        ActionResult _ _ _ \<Rightarrow> (blank, d)
      | OutboundActionResult st _ err oc \<Rightarrow>
          (let (dlv, d') = record_delivery E (r_account r) (r_watch r) (r_action r) INSTANT oc st err
                             (r_attempts r) now d
           in (d_id dlv, d')))"

text \<open>The transaction: complete, and on a won SUCCEEDED completion advance. \<open>Inl\<close> rolls back.\<close>

definition drain_commit :: "env \<Rightarrow> run \<Rightarrow> watch_action option \<Rightarrow> action_result \<Rightarrow> ulid \<Rightarrow> instant \<Rightarrow> db
    \<Rightarrow> exn + bool \<times> db" where
  "drain_commit E r action out dlv now d =
     (case complete E (r_account r) r (res_state out) (res_result out) (res_error out) dlv
             (map_option a_kind action) now d of
        (Inl e, _) \<Rightarrow> Inl e
      | (Inr None, d1) \<Rightarrow> Inr (False, d1)
      | (Inr (Some r'), d1) \<Rightarrow>
          (case action of
             Some a \<Rightarrow> if res_state out = SUCCEEDED
                        then map_sum id (Pair True) (enqueue_next E r' a now d1)
                        else Inr (True, d1)
           | None \<Rightarrow> Inr (True, d1)))"

definition drain_run :: "env \<Rightarrow> run \<Rightarrow> instant \<Rightarrow> db \<Rightarrow> (exn + action_result option) \<times> db" where
  "drain_run E r now d =
     (let ((action, out), d1) = drain_resolve E r d;
          (dlv, d2) = drain_record E r out now d1
      in case drain_commit E r action out dlv now d2 of
           Inl e \<Rightarrow> (Inl e, d2)
         | Inr (False, d3) \<Rightarrow> (Inr None, d3)
         | Inr (True, d3) \<Rightarrow> (Inr (Some out), d3))"

subsection \<open>The drain pass (process\_due\_runs)\<close>

datatype drain_outcome = Executed watch_run_state | Lost_Claim | Infra_Failed exn

definition drain_outcome_of :: "exn + action_result option \<Rightarrow> drain_outcome" where
  "drain_outcome_of res =
     (case res of Inl e \<Rightarrow> Infra_Failed e | Inr None \<Rightarrow> Lost_Claim | Inr (Some out) \<Rightarrow> Executed (res_state out))"

text \<open>\<open>_safe_drain\<close>: an error is a value, the pass goes on.\<close>

fun drain_all :: "env \<Rightarrow> instant \<Rightarrow> run list \<Rightarrow> db \<Rightarrow> drain_outcome list \<times> db" where
  "drain_all E now [] d = ([], d)"
| "drain_all E now (c # cs) d =
     (case claim_one E now c d of
        (None, d1) \<Rightarrow> drain_all E now cs d1
      | (Some r, d1) \<Rightarrow>
          (let (res, d2) = drain_run E r now d1; (outs, d3) = drain_all E now cs d2
           in (drain_outcome_of res # outs, d3)))"

definition process_due_runs :: "env \<Rightarrow> instant \<Rightarrow> db \<Rightarrow> (nat \<times> drain_outcome list) \<times> db" where
  "process_due_runs E now d =
     (let (reaped, d1) = reap_stale E now d;
          (outs, d2) = drain_all E now (claim_candidates E now d1) d1
      in ((reaped, outs), d2))"

end
