(* ===== verification/Drain_Facts.thy ===== *)
theory Drain_Facts
  imports Drain
begin

text \<open>
  What a drain does to the tables: the resolve step reads only, the delivery row survives whatever
  follows, a lost claim or an error in the commit changes no run, and a won SUCCEEDED completion
  puts the item on the next action exactly once, behind an open window when that is a digest.
\<close>

subsection \<open>Frames\<close>

lemma drain_resolve_frame [frame_simps]:
  "snd (drain_resolve E r d) = d\<lparr>calls := calls (snd (drain_resolve E r d))\<rparr>"
  by (cases d) (simp add: drain_resolve_def case_prod_unfold Let_def split: sum.split option.split)

lemma drain_resolve_tables:
  "runs (snd (drain_resolve E r d)) = runs d" "windows (snd (drain_resolve E r d)) = windows d"
  "actions (snd (drain_resolve E r d)) = actions d" "deliveries (snd (drain_resolve E r d)) = deliveries d"
  "drawn (snd (drain_resolve E r d)) = drawn d" "feed_items (snd (drain_resolve E r d)) = feed_items d"
  by (subst drain_resolve_frame, simp)+

lemma drain_record_tables:
  "runs (snd (drain_record E r out now d)) = runs d" "windows (snd (drain_record E r out now d)) = windows d"
  "actions (snd (drain_record E r out now d)) = actions d"
  "feed_items (snd (drain_record E r out now d)) = feed_items d"
  "drawn d \<le> drawn (snd (drain_record E r out now d))"
  by (cases out; simp add: drain_record_def case_prod_unfold Let_def frame_simps)+

lemmas drain_tables = drain_resolve_tables drain_record_tables

definition outcomes :: "env \<Rightarrow> bool" where
  "outcomes E \<longleftrightarrow> (\<forall>k impl n a items cx out. executor_of E k = Some impl \<longrightarrow> impl n a items cx = Some out \<longrightarrow>
     res_state out \<notin> BACKLOG_STATES)"

lemma enforce_state: "res_state out \<notin> BACKLOG_STATES \<Longrightarrow> res_state (enforce_result_schema E k out) \<notin> BACKLOG_STATES"
  by (cases out) (auto simp: enforce_result_schema_def)

lemma drain_resolve_outcome:
  assumes "outcomes E"
  shows "res_state (snd (fst (drain_resolve E r d))) \<notin> BACKLOG_STATES"
proof -
  have "res_state out \<notin> BACKLOG_STATES" if "executor_of E k = Some impl" "impl n a items cx = Some out" for k impl n a items cx out
    using assms that by (auto simp: outcomes_def)
  then show ?thesis using enforce_state
    by (auto simp: drain_resolve_def case_prod_unfold Let_def simp del: backlog_iff
        split: sum.split option.split) (auto simp: backlog_iff)
qed

lemma drain_resolve_action:
  "fst (fst (drain_resolve E r d)) = Some a \<Longrightarrow> a \<in> set (actions d) \<and> a_account a = r_account r \<and> a_id a = r_action r"
  by (auto simp: drain_resolve_def action_get_def case_prod_unfold Let_def split: sum.splits option.splits dest!: first_in)

lemma drain_resolve_none:
  "fst (fst (drain_resolve E r d)) = None \<Longrightarrow> res_state (snd (fst (drain_resolve E r d))) = ERRORED"
  by (auto simp: drain_resolve_def case_prod_unfold Let_def split: sum.splits option.splits)

subsection \<open>The advance\<close>

definition advance_rows :: "env \<Rightarrow> ulid \<Rightarrow> ulid \<Rightarrow> string \<Rightarrow> instant \<Rightarrow> (ulid \<times> ulid \<times> ulid) list \<Rightarrow> nat \<Rightarrow> run list" where
  "advance_rows E acct act kind sched rows n =
     map2 (\<lambda>(wat, item, prior) i. pending_run acct wat act kind item sched prior (mint E i)) rows [n..<n + length rows]"

lemma enqueue_advance_batch_eq:
  "enqueue_advance_batch E acct act kind sched rows d =
     d\<lparr>drawn := drawn d + length rows,
       runs := insert_ignore run_key (advance_rows E acct act kind sched rows (drawn d)) (runs d)\<rparr>"
proof (cases "rows = []")
  case True
  then show ?thesis by (cases d) (simp add: enqueue_advance_batch_def advance_rows_def)
next
  case False
  then show ?thesis
    by (simp add: enqueue_advance_batch_def bulk_create_runs_eq advance_rows_def zip_map1 case_prod_unfold o_def)
qed

lemma advance_rows_all:
  "r \<in> set (advance_rows E acct act kind sched rows n) \<Longrightarrow>
     r_account r = acct \<and> r_action r = act \<and> r_state r = PENDING \<and> r_attempts r = 0 \<and> r_scheduled r = Some sched
     \<and> (r_watch r, r_item r, r_prior r) \<in> set rows"
  by (auto simp: advance_rows_def dest: set_zip_leftD)

lemma advance_rows_keys:
  "map run_key (advance_rows E acct act kind sched rows n) = map (\<lambda>(w, i, p). (acct, w, act, i)) rows"
  unfolding advance_rows_def by (rule nth_equalityI) (simp_all add: case_prod_unfold)

lemma enqueue_next_batch_cases:
  assumes "enqueue_next_batch E rs action now d = Inr d'"
  obtains "d' = d" "rs = [] \<or> next_in_chain (r_account (hd rs)) action d = None"
  | nxt config sched d1 where "rs \<noteq> []" "next_in_chain (r_account (hd rs)) action d = Some nxt"
      "load_config E nxt = Inr config"
      "(if is_digest config then open_window E (r_account (hd rs)) (a_id nxt) (digest_interval config) now d
        else (now, d)) = (sched, d1)"
      "d' = enqueue_advance_batch E (r_account (hd rs)) (a_id nxt) (a_kind nxt) sched
              (map (\<lambda>r. (r_watch r, r_item r, r_id r)) rs) d1"
proof (cases rs)
  case Nil
  then show ?thesis using assms that(1) by (simp add: enqueue_next_batch_def)
next
  case (Cons r rest)
  show ?thesis
  proof (cases "next_in_chain (r_account r) action d")
    case None
    then show ?thesis using assms Cons that(1) by (simp add: enqueue_next_batch_def)
  next
    case (Some nxt)
    obtain config where c: "load_config E nxt = Inr config"
      using assms Cons Some by (auto simp: enqueue_next_batch_def split: sum.splits)
    obtain sched d1 where sd: "(if is_digest config then open_window E (r_account r) (a_id nxt) (digest_interval config) now d
        else (now, d)) = (sched, d1)" by fastforce
    show ?thesis
      by (rule that(2)[of nxt config sched d1])
        (use assms Cons Some c sd in \<open>auto simp: enqueue_next_batch_def Let_def split: if_splits\<close>)
  qed
qed

lemma run_table_next:
  assumes "enqueue_next_batch E rs action now d = Inr d'" "run_table E d" "mints_fresh E" "0 < MAX_ATTEMPTS E"
  shows "run_table E d'"
  using assms(1)
proof (cases rule: enqueue_next_batch_cases)
  case 1
  with assms show ?thesis by simp
next
  case (2 nxt config sched d1)
  have "run_table E d1"
    using 2(4) assms(2) run_table_open_window[of E d "r_account (hd rs)" "a_id nxt" "digest_interval config" now]
    by (auto split: if_splits)
  then show ?thesis using assms 2(5) by (simp add: run_table_advance)
qed

text \<open>Only a digest action has a window row; the edits away from digest see to it.\<close>

definition windows_digest :: "env \<Rightarrow> db \<Rightarrow> bool" where
  "windows_digest E d \<longleftrightarrow> (\<forall>a \<in> set (actions d). has_window d (a_account a) (a_id a) \<longrightarrow>
     (\<exists>c. load_config E a = Inr c \<and> is_digest c))"

lemma not_stranded_insert:
  assumes "not_stranded d" and "windows d' = windows d"
    and new: "\<And>r. r \<in> set (runs d') \<Longrightarrow> r \<in> set (runs d) \<or> r_state r \<noteq> PENDING
           \<or> \<not> has_window d (r_account r) (r_action r) \<or> open_until (r_account r) (r_action r) d \<noteq> None"
  shows "not_stranded d'"
proof -
  have "has_window d' a b = has_window d a b" "open_until a b d' = open_until a b d" for a b
    using assms(2) by (simp_all add: has_window_def open_until_def get_window_def)
  then show ?thesis using assms(1) new by (fastforce simp: not_stranded_def)
qed

lemma not_stranded_next:
  assumes adv: "enqueue_next_batch E rs action now d = Inr d'"
    and inv: "not_stranded d" "windows_digest E d"
  shows "not_stranded d'"
  using adv
proof (cases rule: enqueue_next_batch_cases)
  case 1
  with inv show ?thesis by simp
next
  case (2 nxt config sched d1)
  let ?acct = "r_account (hd rs)"
  note nxt = next_in_chain_SomeD[OF 2(2)]
  have d1: "not_stranded d1 \<and> (has_window d1 ?acct (a_id nxt) \<longrightarrow> open_until ?acct (a_id nxt) d1 \<noteq> None)"
  proof (cases "is_digest config")
    case True
    then have "d1 = snd (open_window E ?acct (a_id nxt) (digest_interval config) now d)"
      using 2(4) by (simp add: prod_eq_iff)
    then show ?thesis using inv(1) not_stranded_open_window open_window_get[of ?acct "a_id nxt" E "digest_interval config" now d]
      by simp
  next
    case False
    then have "d1 = d" using 2(4) by simp
    moreover have "\<not> has_window d ?acct (a_id nxt)"
      using inv(2) nxt 2(3) False by (auto simp: windows_digest_def)
    ultimately show ?thesis using inv by simp
  qed
  have "not_stranded (enqueue_advance_batch E ?acct (a_id nxt) (a_kind nxt) sched
      (map (\<lambda>r. (r_watch r, r_item r, r_id r)) rs) d1)"
  proof (rule not_stranded_insert[of d1])
    fix r assume "r \<in> set (runs (enqueue_advance_batch E ?acct (a_id nxt) (a_kind nxt) sched
        (map (\<lambda>r. (r_watch r, r_item r, r_id r)) rs) d1))"
    then have "r \<in> set (runs d1) \<or> r \<in> set (advance_rows E ?acct (a_id nxt) (a_kind nxt) sched
        (map (\<lambda>r. (r_watch r, r_item r, r_id r)) rs) (drawn d1))"
      using set_insert_ignore_subset[of run_key] by (auto simp: enqueue_advance_batch_eq)
    then show "r \<in> set (runs d1) \<or> r_state r \<noteq> PENDING \<or> \<not> has_window d1 (r_account r) (r_action r)
        \<or> open_until (r_account r) (r_action r) d1 \<noteq> None"
      using d1 by (auto dest!: advance_rows_all)
  qed (use d1 in \<open>simp_all add: enqueue_advance_batch_eq\<close>)
  then show ?thesis using 2(5) by simp
qed

subsection \<open>The whole drain\<close>

text \<open>The database after the delivery row, before the commit: what an error rolls back to.\<close>

definition drain_recorded :: "env \<Rightarrow> run \<Rightarrow> instant \<Rightarrow> db \<Rightarrow> ulid \<times> db" where
  "drain_recorded E r now d = drain_record E r (snd (fst (drain_resolve E r d))) now (snd (drain_resolve E r d))"

lemma drain_recorded_tables [frame_simps]:
  "runs (snd (drain_recorded E r now d)) = runs d" "windows (snd (drain_recorded E r now d)) = windows d"
  "actions (snd (drain_recorded E r now d)) = actions d"
  "feed_items (snd (drain_recorded E r now d)) = feed_items d"
  by (simp_all add: drain_recorded_def drain_tables)

lemma drain_recorded_drawn: "drawn d \<le> drawn (snd (drain_recorded E r now d))"
  using drain_record_tables(5)[of "snd (drain_resolve E r d)"] by (simp add: drain_recorded_def drain_tables)

definition completed_by :: "env \<Rightarrow> run \<Rightarrow> action_result \<Rightarrow> ulid \<Rightarrow> watch_action option \<Rightarrow> instant \<Rightarrow> run \<Rightarrow> run" where
  "completed_by E r out dlv action now = complete_row (res_state out) (res_result out) (res_error out) dlv
     (map_option a_kind action) (completion_ts E (res_state out) (r_attempts r) now)"

lemma held_cong: "runs d = runs d' \<Longrightarrow> held r d = held r d'"
  by (simp add: held_def)

lemma drain_run_cases:
  assumes "drain_run E r now d = (res, d')"
  obtains (lost) "\<not> held r d" "res = Inr None" "d' = snd (drain_recorded E r now d)"
  | (error) e where "held r d" "res = Inl e" "d' = snd (drain_recorded E r now d)"
  | (rested) action out where "held r d" "res = Inr (Some out)" "fst (drain_resolve E r d) = (action, out)"
      "action = None \<or> res_state out \<noteq> SUCCEEDED"
      "d' = snd (drain_recorded E r now d)\<lparr>runs := update_where (complete_guard r)
              (completed_by E r out (fst (drain_recorded E r now d)) action now) (runs d)\<rparr>"
  | (advanced) action out where "held r d" "res = Inr (Some out)" "fst (drain_resolve E r d) = (Some action, out)"
      "res_state out = SUCCEEDED"
      "enqueue_next_batch E [completed_by E r out (fst (drain_recorded E r now d)) (Some action) now r] action now
         (snd (drain_recorded E r now d)\<lparr>runs := update_where (complete_guard r)
              (completed_by E r out (fst (drain_recorded E r now d)) (Some action) now) (runs d)\<rparr>) = Inr d'"
proof -
  obtain action out d1 where res: "drain_resolve E r d = ((action, out), d1)" by (metis surj_pair)
  then have ao: "fst (drain_resolve E r d) = (action, out)" by simp
  obtain dlv d2 where rec: "drain_record E r out now d1 = (dlv, d2)" by fastforce
  then have rd: "drain_recorded E r now d = (dlv, d2)" by (simp add: drain_recorded_def res)
  let ?d2 = "snd (drain_recorded E r now d)" and ?dlv = "fst (drain_recorded E r now d)"
  let ?c = "drain_commit E r action out ?dlv now ?d2"
  have run: "drain_run E r now d = (case ?c of Inl e \<Rightarrow> (Inl e, ?d2) | Inr (False, d3) \<Rightarrow> (Inr None, d3)
      | Inr (True, d3) \<Rightarrow> (Inr (Some out), d3))"
    unfolding rd snd_conv fst_conv by (simp add: drain_run_def res rec)
  have h: "held r ?d2 = held r d" by (rule held_cong) (simp add: frame_simps)
  show ?thesis
  proof (cases "held r d")
    case False
    then have "?c = Inr (False, ?d2)" by (simp add: drain_commit_def complete_eq h)
    with False run assms show ?thesis by (intro lost) simp_all
  next
    case True
    let ?d3 = "?d2\<lparr>runs := update_where (complete_guard r) (completed_by E r out ?dlv action now) (runs d)\<rparr>"
    have won: "complete E (r_account r) r (res_state out) (res_result out) (res_error out) ?dlv (map_option a_kind action) now ?d2
        = (Inr (Some (completed_by E r out ?dlv action now r)), ?d3)"
      using True by (simp add: complete_eq h completed_by_def frame_simps)
    show ?thesis
    proof (cases "action = None \<or> res_state out \<noteq> SUCCEEDED")
      case resting: True
      then have "?c = Inr (True, ?d3)" using won by (auto simp: drain_commit_def split: option.split)
      with True resting ao run assms show ?thesis by (intro rested[of out action]) simp_all
    next
      case False
      then obtain a where a: "action = Some a" "res_state out = SUCCEEDED" by auto
      then have c: "?c = map_sum id (Pair True) (enqueue_next E (completed_by E r out ?dlv action now r) a now ?d3)"
        using won by (simp add: drain_commit_def)
      show ?thesis
      proof (cases "enqueue_next E (completed_by E r out ?dlv action now r) a now ?d3")
        case (Inl e)
        with c run assms True show ?thesis by (intro error[of e]) simp_all
      next
        case (Inr d4)
        with c run assms True a ao show ?thesis by (intro advanced[of out a]) (simp_all add: enqueue_next_def)
      qed
    qed
  qed
qed

lemma completed_by_simps [simp]:
  "r_id (completed_by E r out dlv action now q) = r_id q"
  "run_key (completed_by E r out dlv action now q) = run_key q"
  "r_state (completed_by E r out dlv action now q) = res_state out"
  "r_attempts (completed_by E r out dlv action now q) = r_attempts q"
  "r_account (completed_by E r out dlv action now q) = r_account q"
  "r_watch (completed_by E r out dlv action now q) = r_watch q"
  "r_action (completed_by E r out dlv action now q) = r_action q"
  "r_item (completed_by E r out dlv action now q) = r_item q"
  by (simp_all add: completed_by_def)

lemma run_table_recorded: "run_table E d \<Longrightarrow> run_table E (snd (drain_recorded E r now d))"
proof -
  assume tab: "run_table E d"
  have "mint E ` {..<drawn d} \<subseteq> mint E ` {..<drawn (snd (drain_recorded E r now d))}"
    using drain_recorded_drawn by (intro image_mono) auto
  with tab show ?thesis unfolding run_table_def frame_simps by blast
qed

lemma run_table_completed_by:
  assumes "run_table E d0" "runs d0 = runs d" "res_state out \<noteq> PENDING"
  shows "run_table E (d0\<lparr>runs := update_where (complete_guard r) (completed_by E r out dlv action now) (runs d)\<rparr>)"
  unfolding assms(2)[symmetric] completed_by_def
  using assms by (intro run_table_update complete_row_ok) auto

lemma run_table_drain:
  assumes tab: "run_table E d" and env: "mints_fresh E" "0 < MAX_ATTEMPTS E" "outcomes E"
  shows "run_table E (snd (drain_run E r now d))"
proof -
  obtain res d' where dr: "drain_run E r now d = (res, d')" by fastforce
  have out: "res_state (snd (fst (drain_resolve E r d))) \<noteq> PENDING"
    using drain_resolve_outcome[OF env(3), of r d] by auto
  note rec = run_table_recorded[OF tab, of r now] drain_recorded_tables(1)[of E r now d]
  from dr have "run_table E d'"
  proof (cases rule: drain_run_cases)
    case (rested action out)
    then show ?thesis using out run_table_completed_by[OF rec, of out] by simp
  next
    case (advanced action out)
    then show ?thesis using out run_table_completed_by[OF rec, of out] env
      by (intro run_table_next[OF advanced(5)]) simp_all
  qed (use rec in simp_all)
  then show ?thesis using dr by simp
qed

lemma update_keys: "(\<And>r. run_key (f r) = run_key r) \<Longrightarrow> run_key ` set (update_where P f rows) = run_key ` set rows"
  using map_key_update_where[of rows P run_key f] by (metis set_map)

lemma next_in_chain_cong: "actions d = actions d' \<Longrightarrow> next_in_chain acct a d = next_in_chain acct a d'"
  by (simp add: next_in_chain_def adjacent_def)

lemma run_keys_next:
  assumes "enqueue_next_batch E rs action now d = Inr d'"
  shows "run_keys d' = run_keys d \<union> (case rs of [] \<Rightarrow> {} | r # _ \<Rightarrow>
    (case next_in_chain (r_account r) action d of None \<Rightarrow> {}
     | Some nxt \<Rightarrow> (\<lambda>q. (r_account r, r_watch q, a_id nxt, r_item q)) ` set rs))"
  using assms
proof (cases rule: enqueue_next_batch_cases)
  case 1
  then show ?thesis by (cases rs) auto
next
  case (2 nxt config sched d1)
  have r1: "runs d1 = runs d" 
    using 2(4) open_window_frame(1)[of E "r_account (hd rs)" "a_id nxt" "digest_interval config" now d]
    by (auto split: if_splits)
  have "run_key ` set (advance_rows E a b k s rows n) = (\<lambda>(w, i, p). (a, w, b, i)) ` set rows" for a b k s rows n
    using arg_cong[OF advance_rows_keys, of set] by (simp only: set_map)
  with 2(1,2) r1 show ?thesis
    by (cases rs) (auto simp: 2(5) run_keys_def enqueue_advance_batch_eq keys_insert_ignore image_iff)
qed

definition successor_keys :: "run \<Rightarrow> watch_action \<Rightarrow> db \<Rightarrow> (ulid \<times> ulid \<times> ulid \<times> ulid) set" where
  "successor_keys r action d = (case next_in_chain (r_account r) action d of None \<Rightarrow> {}
     | Some nxt \<Rightarrow> {(r_account r, r_watch r, a_id nxt, r_item r)})"

lemma drain_run_keys:
  assumes "drain_run E r now d = (res, d')"
  shows "run_keys d' = run_keys d \<union>
    (case (res, fst (fst (drain_resolve E r d))) of
       (Inr (Some out), Some action) \<Rightarrow> if res_state out = SUCCEEDED then successor_keys r action d else {}
     | _ \<Rightarrow> {})"
  using assms
proof (cases rule: drain_run_cases)
  case (rested action out)
  then show ?thesis by (auto simp: run_keys_def update_keys split: option.split)
next
  case (advanced action out)
  let ?d3 = "snd (drain_recorded E r now d)\<lparr>runs := update_where (complete_guard r)
      (completed_by E r out (fst (drain_recorded E r now d)) (Some action) now) (runs d)\<rparr>"
  have "run_keys ?d3 = run_keys d" by (simp add: run_keys_def update_keys)
  moreover have "next_in_chain acct action ?d3 = next_in_chain acct action d" for acct
    by (rule next_in_chain_cong) (simp add: frame_simps)
  ultimately show ?thesis using run_keys_next[OF advanced(5)] advanced
    by (simp add: successor_keys_def split: option.split)
qed (auto simp: run_keys_def frame_simps split: option.split)

lemma not_stranded_completed:
  assumes "not_stranded d" "res_state out \<noteq> PENDING" "windows d0 = windows d"
  shows "not_stranded (d0\<lparr>runs := update_where (complete_guard r) (completed_by E r out dlv action now) (runs d)\<rparr>)"
  by (rule not_stranded_insert[OF assms(1)]) (use assms in \<open>auto simp: in_update_where\<close>)

lemma windows_digest_cong:
  "actions d = actions d' \<Longrightarrow> windows d = windows d' \<Longrightarrow> windows_digest E d = windows_digest E d'"
  by (simp add: windows_digest_def has_window_def)

lemma not_stranded_drain:
  assumes inv: "not_stranded d" "windows_digest E d" and out: "outcomes E"
  shows "not_stranded (snd (drain_run E r now d))"
proof -
  obtain res d' where dr: "drain_run E r now d = (res, d')" by fastforce
  have st: "res_state (snd (fst (drain_resolve E r d))) \<noteq> PENDING"
    using drain_resolve_outcome[OF out, of r d] by auto
  have same: "not_stranded (snd (drain_recorded E r now d))"
    by (rule not_stranded_insert[OF inv(1)]) (simp_all add: frame_simps)
  from dr have "not_stranded d'"
  proof (cases rule: drain_run_cases)
    case (rested action o1)
    then show ?thesis using st not_stranded_completed[OF inv(1), of o1] by (simp add: frame_simps)
  next
    case (advanced action o1)
    show ?thesis
    proof (rule not_stranded_next[OF advanced(5)])
      show "not_stranded (snd (drain_recorded E r now d)\<lparr>runs := update_where (complete_guard r)
          (completed_by E r o1 (fst (drain_recorded E r now d)) (Some action) now) (runs d)\<rparr>)"
        using st advanced(3) by (intro not_stranded_completed[OF inv(1)]) (simp_all add: frame_simps)
      show "windows_digest E (snd (drain_recorded E r now d)\<lparr>runs := update_where (complete_guard r)
          (completed_by E r o1 (fst (drain_recorded E r now d)) (Some action) now) (runs d)\<rparr>)"
        using inv(2) by (subst windows_digest_cong[of _ d]) (simp_all add: frame_simps)
    qed
  qed (use same in simp_all)
  then show ?thesis using dr by simp
qed

end
