(* ===== verification/Flush.thy ===== *)
theory Flush
  imports Drain_Facts
begin

text \<open>
  Emitting a due digest window (operations/digest\_flush.py): gather a slice of at most
  \<open>DIGEST_MAX_BATCH_ITEMS\<close> pending runs, emit it as one batch, settle it, and loop while the window
  has more. The loop is \<open>flush_loop\<close> with fuel; \<open>Flush_Facts\<close> proves that the number of pending
  runs is fuel enough. The progress lines it logs are left out.
\<close>

definition window_bounds :: "env \<Rightarrow> watch_action \<Rightarrow> instant option \<Rightarrow> exn + instant option \<times> instant option" where
  "window_bounds E action close_at =
     (case close_at of
        None \<Rightarrow> Inr (None, None)
      | Some t \<Rightarrow>
          (case load_config E action of
             Inl e \<Rightarrow> if e = ValidationError then Inr (None, Some t) else Inl e
           | Inr config \<Rightarrow>
               if delivery_base config = None \<or> digest_interval config = 0 then Inr (None, Some t)
               else Inr (Some (t - seconds (digest_interval config)), Some t)))"

text \<open>\<open>_resolve_action\<close>: the action and its executor, or the sanitized error.\<close>

definition flush_resolve :: "env \<Rightarrow> ulid \<Rightarrow> ulid \<Rightarrow> db \<Rightarrow> string + watch_action \<times> executor" where
  "flush_resolve E acct act d =
     (case action_get acct act d of
        Inl _ \<Rightarrow> Inl ACTION_GONE
      | Inr action \<Rightarrow>
          (case executor_of E (a_kind action) of
             None \<Rightarrow> Inl NO_EXECUTOR
           | Some impl \<Rightarrow> Inr (action, impl)))"

record slice_result =
  sl_outcome :: "action_result option"
  sl_more :: bool
  sl_count :: nat

definition flush_close :: "ulid \<Rightarrow> ulid \<Rightarrow> db \<Rightarrow> db" where
  "flush_close acct act d = snd (close_if_drained acct act d)"

definition flush_record :: "env \<Rightarrow> ulid \<Rightarrow> ulid \<Rightarrow> run list \<Rightarrow> action_result \<Rightarrow> instant \<Rightarrow> db \<Rightarrow> ulid \<times> db" where
  "flush_record E acct act batch out now d =
     (case out of
        ActionResult _ _ _ \<Rightarrow> (blank, d)
      | OutboundActionResult st _ err oc \<Rightarrow>
          (let (dlv, d') = record_delivery E acct (r_watch (hd batch)) act DIGEST oc st err
                             (Max (r_attempts ` set batch) + 1) now d
           in (d_id dlv, d')))"

definition fail_slice :: "env \<Rightarrow> ulid \<Rightarrow> ulid \<Rightarrow> run list \<Rightarrow> ulid list \<Rightarrow> instant \<Rightarrow> db
    \<Rightarrow> (exn + slice_result) \<times> db" where
  "fail_slice E acct act batch gone now d =
     (let d1 = snd (fail_batch E acct (map r_id batch) now d)
      in (Inr \<lparr>sl_outcome = Some (ActionResult FAILED [] TRANSIENT), sl_more = False, sl_count = length gone\<rparr>,
          snd (close_if_drained acct act d1)))"

definition complete_slice :: "env \<Rightarrow> ulid \<Rightarrow> ulid \<Rightarrow> run list \<Rightarrow> watch_action \<Rightarrow> action_result \<Rightarrow> ulid \<Rightarrow> nat
    \<Rightarrow> instant \<Rightarrow> db \<Rightarrow> (exn + slice_result) \<times> db" where
  "complete_slice E acct act batch action out dlv n_runs now d =
     (let d1 = snd (complete_batch E acct (map r_id batch) (res_state out) (res_result out) (res_error out) dlv
                      (Some (a_kind action)) now d)
      in case (if res_state out = SUCCEEDED then enqueue_next_batch E batch action now d1 else Inr d1) of
           Inl e \<Rightarrow> (Inl e, d)
         | Inr d2 \<Rightarrow>
             (let (closed, d3) = close_if_drained acct act d2
              in (Inr \<lparr>sl_outcome = Some out, sl_more = \<not> closed, sl_count = n_runs\<rparr>, d3)))"

text \<open>The slice from the point where its runs and items are known: call, record, settle.\<close>

definition emit_slice :: "env \<Rightarrow> digest_window \<Rightarrow> watch_action \<Rightarrow> executor \<Rightarrow> (run \<times> feed_item) list \<Rightarrow> ulid list
    \<Rightarrow> nat \<Rightarrow> instant \<Rightarrow> db \<Rightarrow> (exn + slice_result) \<times> db" where
  "emit_slice E w action impl pairs gone n_runs now d =
     (let acct = dw_account w; act = dw_action w; batch = map fst pairs; wid = r_watch (hd batch)
      in if list_ex (\<lambda>r. r_watch r \<noteq> wid) batch then (Inl RuntimeError, d)
         else case window_bounds E action (dw_close w) of
                Inl e \<Rightarrow> (Inl e, d)
              | Inr (since, til) \<Rightarrow>
                  (let (items, ctx) = build_run_inputs pairs wid DIGEST since til d;
                       d1 = d\<lparr>calls := Suc (calls d)\<rparr>
                   in case impl (calls d) action items ctx of
                        None \<Rightarrow> fail_slice E acct act batch gone now d1
                      | Some out0 \<Rightarrow>
                          (let out = enforce_result_schema E (a_kind action) out0;
                               (dlv, d2) = flush_record E acct act batch out now d1
                           in if res_state out = FAILED then fail_slice E acct act batch gone now d2
                              else complete_slice E acct act batch action out dlv n_runs now d2)))"

definition found_pairs :: "(ulid \<Rightarrow> feed_item option) \<Rightarrow> run list \<Rightarrow> (run \<times> feed_item) list" where
  "found_pairs item_by_id rs = map (\<lambda>r. (r, the (item_by_id (r_item r)))) (filter (\<lambda>r. item_by_id (r_item r) \<noteq> None) rs)"

definition flush_slice :: "env \<Rightarrow> digest_window \<Rightarrow> instant \<Rightarrow> db \<Rightarrow> (exn + slice_result) \<times> db" where
  "flush_slice E w now d =
     (let acct = dw_account w; act = dw_action w; rs = digest_batch E acct act d
      in if rs = [] then (Inr \<lparr>sl_outcome = None, sl_more = False, sl_count = 0\<rparr>, flush_close acct act d)
         else case flush_resolve E acct act d of
                Inl err \<Rightarrow>
                  (let d1 = snd (complete_batch E acct (map r_id rs) ERRORED [] err blank None now d)
                   in (Inr \<lparr>sl_outcome = Some (ActionResult ERRORED [] err), sl_more = False, sl_count = length rs\<rparr>,
                       flush_close acct act d1))
              | Inr (action, impl) \<Rightarrow>
                  (let item_by_id = get_many acct (map r_item rs) d;
                       pairs = found_pairs item_by_id rs;
                       gone = map r_id (filter (\<lambda>r. item_by_id (r_item r) = None) rs);
                       d1 = (if gone = [] then d
                             else snd (complete_batch E acct gone ERRORED [] ITEM_GONE blank None now d))
                   in if pairs = []
                      then (Inr \<lparr>sl_outcome = Some (ActionResult ERRORED [] ITEM_GONE), sl_more = False,
                                 sl_count = length rs\<rparr>, flush_close acct act d1)
                      else emit_slice E w action impl pairs gone (length rs) now d1))"

fun flush_loop :: "nat \<Rightarrow> env \<Rightarrow> digest_window \<Rightarrow> instant \<Rightarrow> action_result option \<Rightarrow> db
    \<Rightarrow> ((exn + action_result option) \<times> db) option" where
  "flush_loop 0 E w now last_out d = None"
| "flush_loop (Suc k) E w now last_out d =
     (case flush_slice E w now d of
        (Inl e, d1) \<Rightarrow> Some (Inl e, d1)
      | (Inr sl, d1) \<Rightarrow>
          (let last' = (case sl_outcome sl of Some out \<Rightarrow> Some out | None \<Rightarrow> last_out)
           in if sl_more sl then flush_loop k E w now last' d1 else Some (Inr last', d1)))"

text \<open>\<open>run()\<close>, with one turn more than there are pending runs.\<close>

definition flush_run :: "env \<Rightarrow> digest_window \<Rightarrow> instant \<Rightarrow> db \<Rightarrow> ((exn + action_result option) \<times> db) option" where
  "flush_run E w now d = flush_loop (Suc (digest_pending_count (dw_account w) (dw_action w) d)) E w now None d"

text \<open>The flush pass (process\_due\_digests): an error is counted and the pass goes on.\<close>

datatype flush_outcome = Emitted watch_run_state | Flush_Empty | Flush_Failed exn

definition flush_outcome_of :: "exn + action_result option \<Rightarrow> flush_outcome" where
  "flush_outcome_of res =
     (case res of Inl e \<Rightarrow> Flush_Failed e | Inr None \<Rightarrow> Flush_Empty | Inr (Some out) \<Rightarrow> Emitted (res_state out))"

fun flush_all :: "env \<Rightarrow> instant \<Rightarrow> digest_window list \<Rightarrow> db \<Rightarrow> (flush_outcome list \<times> db) option" where
  "flush_all E now [] d = Some ([], d)"
| "flush_all E now (w # ws) d =
     (case flush_run E w now d of
        None \<Rightarrow> None
      | Some (res, d1) \<Rightarrow>
          (case flush_all E now ws d1 of
             None \<Rightarrow> None
           | Some (outs, d2) \<Rightarrow> Some (flush_outcome_of res # outs, d2)))"

definition process_due_digests :: "env \<Rightarrow> instant \<Rightarrow> db \<Rightarrow> (flush_outcome list \<times> db) option" where
  "process_due_digests E now d = flush_all E now (iter_due now d) d"

end
