(* ===== verification/Flush_Facts.thy ===== *)
theory Flush_Facts
  imports Flush
begin

text \<open>
  The flush terminates: a slice that asks for another has settled at least one pending run of the
  action and queued none, so the pending count is fuel enough. A slice only ever touches the
  pending runs of its own action and the successors it queues, and it keeps the run table and the
  window invariants.
\<close>

subsection \<open>Counting pending runs\<close>

lemma count_update_out:
  "(\<And>r. r \<in> set rows \<Longrightarrow> T r \<Longrightarrow> \<not> P (f r)) \<Longrightarrow>
     count_where P (update_where T f rows) = count_where (\<lambda>r. P r \<and> \<not> T r) rows"
  by (induction rows) auto

lemma count_where_mono: "(\<And>r. r \<in> set rows \<Longrightarrow> P r \<Longrightarrow> Q r) \<Longrightarrow> count_where P rows \<le> count_where Q rows"
  by (induction rows) (auto intro: le_SucI)

lemma count_where_less:
  "x \<in> set rows \<Longrightarrow> Q x \<Longrightarrow> \<not> P x \<Longrightarrow> (\<And>r. r \<in> set rows \<Longrightarrow> P r \<Longrightarrow> Q r) \<Longrightarrow>
     count_where P rows < count_where Q rows"
proof (induction rows)
  case (Cons r rows)
  show ?case
  proof (cases "x = r")
    case True
    have "count_where P rows \<le> count_where Q rows" using Cons.prems(4) by (intro count_where_mono) auto
    with True Cons.prems show ?thesis by simp
  next
    case False
    then have "count_where P rows < count_where Q rows" using Cons.prems by (intro Cons.IH) auto
    then show ?thesis using Cons.prems(4)[of r] by auto
  qed
qed simp

lemma complete_row_not_pending: "st \<noteq> PENDING \<Longrightarrow> \<not> pending_of acct act (complete_row st res err dlv knd ct r)"
  by (simp add: pending_of_def)

lemma pending_complete_batch:
  assumes "st \<noteq> PENDING"
  shows "digest_pending_count acct act (snd (complete_batch E acct' ids st res err dlv knd now d)) =
    count_where (\<lambda>r. pending_of acct act r \<and> \<not> batch_target acct' ids r) (runs d)"
  using assms by (simp add: digest_pending_count_def complete_batch_eq count_update_out complete_row_not_pending)

lemma digest_batch_in: "r \<in> set (digest_batch E acct act d) \<Longrightarrow> r \<in> set (runs d) \<and> pending_of acct act r"
  by (auto simp: digest_batch_def dest!: in_set_takeD)

lemma distinct_digest_batch: "distinct (map r_id (runs d)) \<Longrightarrow> distinct (map r_id (digest_batch E acct act d))"
  unfolding digest_batch_def take_map[symmetric]
  by (intro distinct_take) (simp add: distinct_order_by distinct_map_filter)

lemma insert_ignore_pending:
  "(\<And>r. r \<in> set rs \<Longrightarrow> \<not> P r) \<Longrightarrow> count_where P (insert_ignore key rs rows) = count_where P rows"
proof -
  assume out: "\<And>r. r \<in> set rs \<Longrightarrow> \<not> P r"
  obtain ys where ys: "insert_ignore key rs rows = rows @ ys" "set ys \<subseteq> set rs"
    using insert_ignore_append_keys[of key rs rows] by (elim exE conjE) (rule that)
  then have "count_where P ys = 0" using out by (auto simp: count_where_0)
  then show ?thesis by (simp add: ys(1) count_where_append)
qed

lemma pending_next:
  assumes adv: "enqueue_next_batch E rs action now d = Inr d'"
    and ids: "distinct (map a_id (actions d))" and act: "action \<in> set (actions d)"
  shows "digest_pending_count acct (a_id action) d' = digest_pending_count acct (a_id action) d"
  using adv
proof (cases rule: enqueue_next_batch_cases)
  case 1
  then show ?thesis by simp
next
  case (2 nxt config sched d1)
  have r1: "runs d1 = runs d"
    using 2(4) open_window_frame(1)[of E "r_account (hd rs)" "a_id nxt" "digest_interval config" now d]
    by (auto split: if_splits)
  have "a_id nxt \<noteq> a_id action"
    using next_in_chain_SomeD[OF 2(2)] ids act by (auto simp: distinct_map dest: inj_onD)
  then have "\<not> pending_of acct (a_id action) r"
    if "r \<in> set (advance_rows E (r_account (hd rs)) (a_id nxt) (a_kind nxt) sched rows n)" for r rows n
    using advance_rows_all[OF that] by (auto simp: pending_of_def)
  then show ?thesis
    by (simp add: 2(5) digest_pending_count_def enqueue_advance_batch_eq insert_ignore_pending r1)
qed

lemma pending_close: "digest_pending_count acct act (snd (close_if_drained acct' act' d)) = digest_pending_count acct act d"
  by (simp add: digest_pending_count_def frame_simps)

subsection \<open>The shape of a slice\<close>

lemma flush_record_tables [frame_simps]:
  "runs (snd (flush_record E acct act batch out now d)) = runs d"
  "windows (snd (flush_record E acct act batch out now d)) = windows d"
  "actions (snd (flush_record E acct act batch out now d)) = actions d"
  by (cases out; simp add: flush_record_def case_prod_unfold Let_def frame_simps)+

lemma flush_record_drawn: "drawn d \<le> drawn (snd (flush_record E acct act batch out now d))"
  by (cases out; simp add: flush_record_def case_prod_unfold Let_def frame_simps)

lemma complete_batch_tables [frame_simps]:
  "st \<noteq> PENDING \<Longrightarrow> windows (snd (complete_batch E acct ids st res err dlv knd now d)) = windows d"
  "st \<noteq> PENDING \<Longrightarrow> actions (snd (complete_batch E acct ids st res err dlv knd now d)) = actions d"
  "st \<noteq> PENDING \<Longrightarrow> drawn (snd (complete_batch E acct ids st res err dlv knd now d)) = drawn d"
  by (simp_all add: complete_batch_eq)

lemma found_pairs_in:
  "(r, i) \<in> set (found_pairs m rs) \<Longrightarrow> r \<in> set rs \<and> m (r_item r) = Some i"
  by (auto simp: found_pairs_def)

lemma map_fst_found_pairs: "map fst (found_pairs m rs) = filter (\<lambda>r. m (r_item r) \<noteq> None) rs"
  by (simp add: found_pairs_def o_def)

lemma flush_resolve_action:
  "flush_resolve E acct act d = Inr (action, impl) \<Longrightarrow>
     action \<in> set (actions d) \<and> a_id action = act \<and> a_account action = acct \<and> executor_of E (a_kind action) = Some impl"
  by (auto simp: flush_resolve_def action_get_def split: sum.splits option.splits dest!: first_in)

text \<open>Where a slice ends up: nowhere near the call, in a failure, or in a completion.\<close>

lemma emit_slice_cases:
  assumes "emit_slice E w action impl pairs gone n now d = (res, d')"
  obtains (stop) e where "res = Inl e" "d' = d"
  | (failed) d2 where "runs d2 = runs d" "windows d2 = windows d" "actions d2 = actions d" "drawn d \<le> drawn d2"
      "(res, d') = fail_slice E (dw_account w) (dw_action w) (map fst pairs) gone now d2"
  | (answered) out0 d2 dlv where "runs d2 = runs d" "windows d2 = windows d" "actions d2 = actions d" "drawn d \<le> drawn d2"
      "impl (calls d) action (fst (build_run_inputs pairs (r_watch (hd (map fst pairs))) DIGEST
          (fst (projr (window_bounds E action (dw_close w)))) (snd (projr (window_bounds E action (dw_close w)))) d))
        (snd (build_run_inputs pairs (r_watch (hd (map fst pairs))) DIGEST
          (fst (projr (window_bounds E action (dw_close w)))) (snd (projr (window_bounds E action (dw_close w)))) d)) = Some out0"
      "res_state (enforce_result_schema E (a_kind action) out0) \<noteq> FAILED"
      "(res, d') = complete_slice E (dw_account w) (dw_action w) (map fst pairs) action
         (enforce_result_schema E (a_kind action) out0) dlv n now d2"
proof (cases "list_ex (\<lambda>r. r_watch r \<noteq> r_watch (hd (map fst pairs))) (map fst pairs)")
  case True
  then show ?thesis using assms by (intro stop[of RuntimeError]) (simp_all add: emit_slice_def Let_def)
next
  case one_watch: False
  show ?thesis
  proof (cases "window_bounds E action (dw_close w)")
    case (Inl e)
    then show ?thesis using assms one_watch by (intro stop[of e]) (simp_all add: emit_slice_def Let_def)
  next
    case (Inr bounds)
    let ?in = "build_run_inputs pairs (r_watch (hd (map fst pairs))) DIGEST (fst bounds) (snd bounds) d"
    let ?d1 = "d\<lparr>calls := Suc (calls d)\<rparr>"
    note emit = assms[unfolded emit_slice_def Let_def if_not_P[OF one_watch] Inr]
    show ?thesis
    proof (cases "impl (calls d) action (fst ?in) (snd ?in)")
      case None
      then show ?thesis using emit by (intro failed[of ?d1]) (simp_all add: case_prod_unfold)
    next
      case (Some out0)
      let ?out = "enforce_result_schema E (a_kind action) out0"
      let ?rec = "flush_record E (dw_account w) (dw_action w) (map fst pairs) ?out now ?d1"
      have drawn: "drawn d \<le> drawn (snd ?rec)"
        using flush_record_drawn[of ?d1 E "dw_account w" "dw_action w" "map fst pairs" ?out now] by simp
      show ?thesis
      proof (cases "res_state ?out = FAILED")
        case True
        then show ?thesis using emit Some drawn
          by (intro failed[of "snd ?rec"]) (simp_all add: case_prod_unfold frame_simps)
      next
        case False
        then show ?thesis using emit Some drawn Inr
          by (intro answered[of "snd ?rec" out0 "fst ?rec"]) (simp_all add: case_prod_unfold frame_simps)
      qed
    qed
  qed
qed

text \<open>The runs of a slice whose items are gone, and the database once they are settled.\<close>

definition slice_gone :: "env \<Rightarrow> ulid \<Rightarrow> ulid \<Rightarrow> db \<Rightarrow> ulid list" where
  "slice_gone E acct act d =
     map r_id (filter (\<lambda>r. get_many acct (map r_item (digest_batch E acct act d)) d (r_item r) = None)
                (digest_batch E acct act d))"

definition slice_pairs :: "env \<Rightarrow> ulid \<Rightarrow> ulid \<Rightarrow> db \<Rightarrow> (run \<times> feed_item) list" where
  "slice_pairs E acct act d =
     found_pairs (get_many acct (map r_item (digest_batch E acct act d)) d) (digest_batch E acct act d)"

definition slice_start :: "env \<Rightarrow> ulid \<Rightarrow> ulid \<Rightarrow> instant \<Rightarrow> db \<Rightarrow> db" where
  "slice_start E acct act now d =
     (if slice_gone E acct act d = [] then d
      else snd (complete_batch E acct (slice_gone E acct act d) ERRORED [] ITEM_GONE blank None now d))"

lemma flush_slice_cases:
  assumes "flush_slice E w now d = (res, d')"
  obtains (empty) "digest_batch E (dw_account w) (dw_action w) d = []"
      "res = Inr \<lparr>sl_outcome = None, sl_more = False, sl_count = 0\<rparr>" "d' = flush_close (dw_account w) (dw_action w) d"
  | (unresolved) err n where "flush_resolve E (dw_account w) (dw_action w) d = Inl err"
      "res = Inr \<lparr>sl_outcome = Some (ActionResult ERRORED [] err), sl_more = False, sl_count = n\<rparr>"
      "d' = flush_close (dw_account w) (dw_action w) (snd (complete_batch E (dw_account w)
              (map r_id (digest_batch E (dw_account w) (dw_action w) d)) ERRORED [] err blank None now d))"
  | (all_gone) n where "slice_pairs E (dw_account w) (dw_action w) d = []"
      "res = Inr \<lparr>sl_outcome = Some (ActionResult ERRORED [] ITEM_GONE), sl_more = False, sl_count = n\<rparr>"
      "d' = flush_close (dw_account w) (dw_action w) (slice_start E (dw_account w) (dw_action w) now d)"
  | (emitted) action impl n where "flush_resolve E (dw_account w) (dw_action w) d = Inr (action, impl)"
      "slice_pairs E (dw_account w) (dw_action w) d \<noteq> []"
      "emit_slice E w action impl (slice_pairs E (dw_account w) (dw_action w) d)
         (slice_gone E (dw_account w) (dw_action w) d) n now (slice_start E (dw_account w) (dw_action w) now d) = (res, d')"
proof (cases "digest_batch E (dw_account w) (dw_action w) d = []")
  case True
  then show ?thesis using assms by (intro empty) (simp_all add: flush_slice_def Let_def)
next
  case runs: False
  show ?thesis
  proof (cases "flush_resolve E (dw_account w) (dw_action w) d")
    case (Inl err)
    then show ?thesis using assms runs by (intro unresolved) (auto simp: flush_slice_def Let_def)
  next
    case (Inr ai)
    obtain action impl where ai: "ai = (action, impl)" by fastforce
    show ?thesis
    proof (cases "slice_pairs E (dw_account w) (dw_action w) d = []")
      case True
      then show ?thesis using assms runs Inr ai
        by (intro all_gone) (auto simp: flush_slice_def Let_def slice_pairs_def slice_start_def slice_gone_def)
    next
      case False
      then show ?thesis using assms runs Inr ai
        by (intro emitted[of action impl "length (digest_batch E (dw_account w) (dw_action w) d)"])
          (auto simp: flush_slice_def Let_def slice_pairs_def slice_start_def slice_gone_def)
    qed
  qed
qed

lemma slice_start_tables [frame_simps]:
  "windows (slice_start E acct act now d) = windows d" "actions (slice_start E acct act now d) = actions d"
  "drawn (slice_start E acct act now d) = drawn d"
  by (simp_all add: slice_start_def frame_simps)

lemma slice_start_pending_le:
  "digest_pending_count acct act (slice_start E acct act now d) \<le> digest_pending_count acct act d"
  by (auto simp: slice_start_def pending_complete_batch) (auto simp: digest_pending_count_def intro: count_where_mono)

lemma slice_pair_survives:
  assumes ids: "distinct (map r_id (runs d))" and r: "r \<in> set (map fst (slice_pairs E acct act d))"
  shows "r \<in> set (runs (slice_start E acct act now d)) \<and> pending_of acct act r"
proof -
  let ?m = "get_many acct (map r_item (digest_batch E acct act d)) d"
  have mem: "r \<in> set (digest_batch E acct act d)" "?m (r_item r) \<noteq> None"
    using r by (auto simp: slice_pairs_def map_fst_found_pairs)
  note run = digest_batch_in[OF mem(1)]
  have "\<not> batch_target acct (slice_gone E acct act d) r"
  proof
    assume "batch_target acct (slice_gone E acct act d) r"
    then obtain q where q: "q \<in> set (digest_batch E acct act d)" "?m (r_item q) = None" "r_id q = r_id r"
      by (auto simp: batch_target_def slice_gone_def)
    with run digest_batch_in[OF q(1)] ids have "q = r" by (auto simp: distinct_map dest: inj_onD)
    with q mem show False by simp
  qed
  with run show ?thesis
    by (auto simp: slice_start_def complete_batch_eq set_update_where)
qed

definition slice_settled :: "env \<Rightarrow> ulid \<Rightarrow> run list \<Rightarrow> watch_action \<Rightarrow> action_result \<Rightarrow> ulid \<Rightarrow> instant \<Rightarrow> db \<Rightarrow> db" where
  "slice_settled E acct batch action out dlv now d =
     snd (complete_batch E acct (map r_id batch) (res_state out) (res_result out) (res_error out) dlv
            (Some (a_kind action)) now d)"

lemma complete_slice_cases:
  assumes "(res, d') = complete_slice E acct act batch action out dlv n now d"
  obtains (rolled_back) e where "res = Inl e" "d' = d"
  | (committed) d4 where "(if res_state out = SUCCEEDED
        then enqueue_next_batch E batch action now (slice_settled E acct batch action out dlv now d)
        else Inr (slice_settled E acct batch action out dlv now d)) = Inr d4"
      "d' = snd (close_if_drained acct act d4)"
      "res = Inr \<lparr>sl_outcome = Some out, sl_more = \<not> fst (close_if_drained acct act d4), sl_count = n\<rparr>"
proof -
  let ?x = "if res_state out = SUCCEEDED
        then enqueue_next_batch E batch action now (slice_settled E acct batch action out dlv now d)
        else Inr (slice_settled E acct batch action out dlv now d)"
  have eq: "(res, d') = (case ?x of Inl e \<Rightarrow> (Inl e, d) | Inr d2 \<Rightarrow>
      (Inr \<lparr>sl_outcome = Some out, sl_more = \<not> fst (close_if_drained acct act d2), sl_count = n\<rparr>,
       snd (close_if_drained acct act d2)))"
    using assms unfolding complete_slice_def slice_settled_def Let_def case_prod_unfold .
  show ?thesis
  proof (cases ?x)
    case (Inl e)
    then show ?thesis using eq by (intro rolled_back[of e]) simp_all
  next
    case (Inr d4)
    then show ?thesis using eq by (intro committed[of d4]) simp_all
  qed
qed

subsection \<open>Termination\<close>

lemma slice_more_decreases:
  assumes ids: "distinct (map r_id (runs d))" and acts: "distinct (map a_id (actions d))" and out: "outcomes E"
    and slice: "flush_slice E w now d = (Inr sl, d')" and more: "sl_more sl"
  shows "digest_pending_count (dw_account w) (dw_action w) d' < digest_pending_count (dw_account w) (dw_action w) d"
proof -
  let ?acct = "dw_account w" and ?act = "dw_action w"
  let ?d1 = "slice_start E ?acct ?act now d" and ?pairs = "slice_pairs E ?acct ?act d"
  from slice obtain action impl n where res: "flush_resolve E ?acct ?act d = Inr (action, impl)" and ne: "?pairs \<noteq> []"
    and emit: "emit_slice E w action impl ?pairs (slice_gone E ?acct ?act d) n now ?d1 = (Inr sl, d')"
    by (cases rule: flush_slice_cases) (use more in auto)
  note action = flush_resolve_action[OF res]
  from emit obtain out0 d2 dlv where d2: "runs d2 = runs ?d1" "actions d2 = actions ?d1"
    and state: "res_state out0 \<notin> BACKLOG_STATES"
    and cs: "(Inr sl, d') = complete_slice E ?acct ?act (map fst ?pairs) action
       (enforce_result_schema E (a_kind action) out0) dlv n now d2"
  proof (cases rule: emit_slice_cases)
    case (failed d2)
    with more show ?thesis by (auto simp: fail_slice_def Let_def)
  next
    case (answered out0 d2 dlv)
    moreover have "res_state out0 \<notin> BACKLOG_STATES" using answered(5) action out unfolding outcomes_def by blast
    ultimately show ?thesis using that by blast
  qed simp
  let ?out = "enforce_result_schema E (a_kind action) out0"
  let ?d3 = "slice_settled E ?acct (map fst ?pairs) action ?out dlv now d2"
  have st: "res_state ?out \<noteq> PENDING" using enforce_state[OF state, of E "a_kind action"] by auto
  obtain d4 where d4: "(if res_state ?out = SUCCEEDED then enqueue_next_batch E (map fst ?pairs) action now ?d3 else Inr ?d3) = Inr d4"
    and d': "d' = snd (close_if_drained ?acct ?act d4)"
    using cs by (cases rule: complete_slice_cases) (simp_all add: that)
  have "digest_pending_count ?acct ?act d4 = digest_pending_count ?acct ?act ?d3"
    using d4 pending_next[of E "map fst ?pairs" action now ?d3 d4 ?acct] action acts st d2(2)
    by (auto simp: slice_settled_def frame_simps split: if_splits)
  also have "\<dots> < digest_pending_count ?acct ?act d2"
  proof -
    obtain r where r: "r \<in> set (map fst ?pairs)" using ne by (cases ?pairs) auto
    then have "r_id r \<in> set (map r_id (map fst ?pairs))" by (simp only: set_map imageI)
    with r have "r \<in> set (runs d2)" "pending_of ?acct ?act r" "batch_target ?acct (map r_id (map fst ?pairs)) r"
      using slice_pair_survives[OF ids, of r E ?acct ?act now] d2(1) by (simp_all add: batch_target_def pending_of_def)
    then show ?thesis
      unfolding slice_settled_def pending_complete_batch[OF st] by (auto simp: digest_pending_count_def intro: count_where_less)
  qed
  also have "digest_pending_count ?acct ?act d2 \<le> digest_pending_count ?acct ?act d"
    using slice_start_pending_le[of ?acct ?act E now d] d2(1) by (simp add: digest_pending_count_def)
  finally show ?thesis by (simp add: d' pending_close)
qed

subsection \<open>Invariants of the pipeline\<close>

text \<open>
  What a property of the database has to survive, statement by statement, to survive the drain and
  the flush: their contract with an invariant of the tables.
\<close>

locale pipeline_invariant =
  fixes E :: env and Inv :: "db \<Rightarrow> bool"
  assumes audit: "Inv d \<Longrightarrow> runs d' = runs d \<Longrightarrow> windows d' = windows d \<Longrightarrow> actions d' = actions d \<Longrightarrow>
      drawn d \<le> drawn d' \<Longrightarrow> Inv d'"
    and reap: "Inv d \<Longrightarrow> Inv (snd (reap_stale E now d))"
    and claim: "Inv d \<Longrightarrow> r_state c \<in> CLAIMABLE_STATES \<Longrightarrow> Inv (snd (claim_one E now c d))"
    and settle: "Inv d \<Longrightarrow> st \<notin> BACKLOG_STATES \<Longrightarrow> Inv (snd (complete E acct r st res err dlv knd now d))"
    and batch: "Inv d \<Longrightarrow> st \<in> TERMINAL_STATES \<Longrightarrow> Inv (snd (complete_batch E acct ids st res err dlv knd now d))"
    and burn: "Inv d \<Longrightarrow> distinct ids \<Longrightarrow> Inv (snd (fail_batch E acct ids now d))"
    and advance: "Inv d \<Longrightarrow> enqueue_next_batch E rs action now d = Inr d' \<Longrightarrow> Inv d'"
    and close: "Inv d \<Longrightarrow> Inv (snd (close_if_drained acct act d))"
begin

lemma drain:
  assumes inv: "Inv d" and out: "outcomes E"
  shows "Inv (snd (drain_run E r now d))"
proof -
  obtain action res d1 where r1: "drain_resolve E r d = ((action, res), d1)" by (metis surj_pair)
  obtain dlv d2 where r2: "drain_record E r res now d1 = (dlv, d2)" by fastforce
  have "Inv d2"
    using drain_recorded_tables[of E r now d] drain_recorded_drawn[of d E r now]
    by (intro audit[OF inv]) (simp_all add: drain_recorded_def r1 r2)
  have st: "res_state res \<notin> BACKLOG_STATES" using drain_resolve_outcome[OF out, of r d] r1 by simp
  have commit: "Inv d3" if c: "drain_commit E r action res dlv now d2 = Inr (won, d3)" for won d3
  proof -
    obtain x d4 where x: "complete E (r_account r) r (res_state res) (res_result res) (res_error res) dlv
        (map_option a_kind action) now d2 = (x, d4)" by fastforce
    have "Inv d4" using settle[OF \<open>Inv d2\<close> st] x by (metis snd_conv)
    show ?thesis
    proof (cases "\<exists>a r'. x = Inr (Some r') \<and> action = Some a \<and> res_state res = SUCCEEDED")
      case True
      then obtain a r' where "enqueue_next E r' a now d4 = Inr d3"
        using c x by (auto simp: drain_commit_def map_sum_def split: sum.splits)
      with \<open>Inv d4\<close> show ?thesis unfolding enqueue_next_def by (rule advance)
    next
      case False
      then have "d3 = d4" using c x by (auto simp: drain_commit_def split: sum.splits option.splits if_splits)
      with \<open>Inv d4\<close> show ?thesis by simp
    qed
  qed
  show ?thesis
    using commit \<open>Inv d2\<close> by (auto simp: drain_run_def r1 r2 split: sum.split bool.split)
qed

lemma drain_pass:
  "Inv d \<Longrightarrow> outcomes E \<Longrightarrow> \<forall>c \<in> set cs. r_state c \<in> CLAIMABLE_STATES \<Longrightarrow> Inv (snd (drain_all E now cs d))"
proof (induction cs arbitrary: d)
  case (Cons c cs)
  obtain got d1 where c: "claim_one E now c d = (got, d1)" by fastforce
  then have "Inv d1" using claim[OF Cons.prems(1), of c now] Cons.prems(3) by simp
  then have "Inv (snd (drain_run E r now d1))" for r using Cons.prems(2) by (rule drain)
  with Cons \<open>Inv d1\<close> c show ?case by (auto simp: case_prod_unfold Let_def split: option.split)
qed simp

lemma drain_command: "Inv d \<Longrightarrow> outcomes E \<Longrightarrow> Inv (snd (process_due_runs E now d))"
  using drain_pass[OF reap[of d now], of "claim_candidates E now (snd (reap_stale E now d))" now] claimable_candidates
  by (auto simp: process_due_runs_def case_prod_unfold Let_def)

lemma flush_one:
  assumes inv: "Inv d" and out: "outcomes E" and ids: "distinct (map r_id (runs d))"
  shows "Inv (snd (flush_slice E w now d))"
proof -
  let ?acct = "dw_account w" and ?act = "dw_action w"
  obtain res d' where slice: "flush_slice E w now d = (res, d')" by fastforce
  have err: "Inv (snd (complete_batch E a js ERRORED rs e dl k now d))" for a js rs e dl k
    using batch[OF inv, of ERRORED] by simp
  have start: "Inv (slice_start E ?acct ?act now d)" using inv err by (simp add: slice_start_def)
  from slice have "Inv d'"
  proof (cases rule: flush_slice_cases)
    case (emitted action impl n)
    note action = flush_resolve_action[OF emitted(1)]
    from emitted(3) show ?thesis
    proof (cases rule: emit_slice_cases)
      case (stop e)
      then show ?thesis using start by simp
    next
      case (failed d2)
      have "Inv d2" using failed(1-4) by (intro audit[OF start]) simp_all
      moreover have "distinct (map r_id (map fst (slice_pairs E ?acct ?act d)))"
        unfolding slice_pairs_def map_fst_found_pairs
        using distinct_digest_batch[OF ids] by (rule distinct_map_filter)
      ultimately show ?thesis using failed(5) close burn by (simp add: fail_slice_def Let_def)
    next
      case (answered out0 d2 dlv)
      let ?out = "enforce_result_schema E (a_kind action) out0"
      have "Inv d2" using answered(1-4) by (intro audit[OF start]) simp_all
      have "res_state out0 \<notin> BACKLOG_STATES" using answered(5) action out unfolding outcomes_def by blast
      then have "res_state ?out \<in> TERMINAL_STATES"
        using enforce_state[of out0 E "a_kind action"] answered(6) terminal_cases[of "res_state ?out"] by auto
      then have "Inv (slice_settled E ?acct (map fst (slice_pairs E ?acct ?act d)) action ?out dlv now d2)"
        unfolding slice_settled_def by (rule batch[OF \<open>Inv d2\<close>])
      with answered(7) \<open>Inv d2\<close> show ?thesis
        by (cases rule: complete_slice_cases) (auto split: if_splits intro: close advance)
    qed
  qed (use inv err start in \<open>simp_all add: flush_close_def close\<close>)
  with slice show ?thesis by simp
qed

end

subsection \<open>The loop\<close>

lemma flush_loop_more_fuel: "flush_loop k E w now l d = Some x \<Longrightarrow> k \<le> m \<Longrightarrow> flush_loop m E w now l d = Some x"
proof (induction k arbitrary: m l d)
  case (Suc k)
  obtain n where m: "m = Suc n" "k \<le> n" using Suc.prems(2) by (cases m) auto
  with Suc show ?case by (auto simp: Let_def split: prod.splits sum.splits if_splits)
qed simp

text \<open>An invariant that also keeps the run ids unique survives the whole flush.\<close>

locale flush_invariant = pipeline_invariant +
  assumes run_ids: "Inv d \<Longrightarrow> distinct (map r_id (runs d))"
begin

lemma flush_loop_inv: "Inv d \<Longrightarrow> outcomes E \<Longrightarrow> flush_loop k E w now l d = Some (res, d') \<Longrightarrow> Inv d'"
proof (induction k arbitrary: l d)
  case (Suc k)
  obtain x d1 where s: "flush_slice E w now d = (x, d1)" by fastforce
  have "Inv d1" using flush_one[OF Suc.prems(1,2) run_ids[OF Suc.prems(1)], of w now] s by simp
  with Suc s show ?case by (auto simp: Let_def split: sum.splits if_splits)
qed simp

lemma flush_window: "Inv d \<Longrightarrow> outcomes E \<Longrightarrow> flush_run E w now d = Some (res, d') \<Longrightarrow> Inv d'"
  unfolding flush_run_def by (rule flush_loop_inv)

lemma flush_pass: "Inv d \<Longrightarrow> outcomes E \<Longrightarrow> flush_all E now ws d = Some (outs, d') \<Longrightarrow> Inv d'"
proof (induction ws arbitrary: d outs)
  case (Cons w ws)
  then obtain res d1 rest where "flush_run E w now d = Some (res, d1)" "flush_all E now ws d1 = Some (rest, d')"
    by (auto split: option.splits)
  with Cons flush_window[OF Cons.prems(1,2)] show ?case by blast
qed simp

end

end
