(* ===== verification/Claim_Queue.thy ===== *)
theory Claim_Queue
  imports Prelude
begin

text \<open>
  The interface of a claimed work queue (the run queue and the backfill queue are two): a worker
  claims a row by a compare-and-set that stamps a fresh attempt number, works outside any
  transaction, and settles the row by a second compare-and-set on the row still being live under
  that attempt; a reaper takes live rows away from workers presumed dead. \<open>(i, n)\<close> is the ticket of
  attempt \<open>n\<close> on row \<open>i\<close>. The locale states what one step of any worker may do to the tickets and
  concludes what holds for every interleaving of any number of workers.
\<close>

datatype outcome = Claimed ulid nat | Settled ulid nat | Quiet

fun exec :: "('e \<Rightarrow> 'd \<Rightarrow> outcome \<times> 'd) \<Rightarrow> 'e list \<Rightarrow> 'd \<Rightarrow> outcome list \<times> 'd" where
  "exec step [] d = ([], d)"
| "exec step (e # es) d = (let (o1, d1) = step e d; (os, d2) = exec step es d1 in (o1 # os, d2))"

fun claims :: "outcome list \<Rightarrow> (ulid \<times> nat) list" where
  "claims [] = []"
| "claims (Claimed i n # os) = (i, n) # claims os"
| "claims (Settled i n # os) = claims os"
| "claims (Quiet # os) = claims os"

fun settlements :: "outcome list \<Rightarrow> (ulid \<times> nat) list" where
  "settlements [] = []"
| "settlements (Settled i n # os) = (i, n) # settlements os"
| "settlements (Claimed i n # os) = settlements os"
| "settlements (Quiet # os) = settlements os"

fun subject :: "outcome \<Rightarrow> ulid option" where
  "subject (Claimed i n) = Some i"
| "subject (Settled i n) = Some i"
| "subject Quiet = None"

lemma exec_append:
  "exec step (es @ fs) d =
     (let (os, d1) = exec step es d; (ps, d2) = exec step fs d1 in (os @ ps, d2))"
  by (induction es arbitrary: d) (auto simp: case_prod_unfold Let_def)

locale claim_queue =
  fixes step :: "'e \<Rightarrow> 'd \<Rightarrow> outcome \<times> 'd"
    and inv :: "'d \<Rightarrow> bool"
    and live :: "'d \<Rightarrow> ulid \<Rightarrow> bool"
    and tries :: "'d \<Rightarrow> ulid \<Rightarrow> nat"
    and cap :: nat
  assumes inv_step: "inv d \<Longrightarrow> inv (snd (step e d))"
    and claimed: "inv d \<Longrightarrow> step e d = (Claimed i n, d') \<Longrightarrow>
      \<not> live d i \<and> live d' i \<and> tries d i < n \<and> tries d' i = n \<and> n \<le> cap"
    and settled: "inv d \<Longrightarrow> step e d = (Settled i n, d') \<Longrightarrow>
      live d i \<and> tries d i = n \<and> \<not> live d' i \<and> n \<le> tries d' i"
    and others: "inv d \<Longrightarrow> step e d = (out, d') \<Longrightarrow> subject out \<noteq> Some j \<Longrightarrow>
      tries d j \<le> tries d' j \<and> (live d' j \<longrightarrow> live d j \<and> tries d' j = tries d j)"
begin

lemma inv_exec: "inv d \<Longrightarrow> inv (snd (exec step es d))"
proof (induction es arbitrary: d)
  case (Cons e es)
  from Cons.IH[OF inv_step[OF Cons.prems, of e]] show ?case by (simp add: case_prod_unfold Let_def)
qed simp

lemma tries_step:
  assumes "inv d" "step e d = (out, d')"
  shows "tries d j \<le> tries d' j"
proof (cases "subject out = Some j")
  case True
  with claimed[OF assms(1)] settled[OF assms(1)] assms(2) show ?thesis
    by (cases out) (auto intro: less_imp_le)
next
  case False
  with others[OF assms] show ?thesis by simp
qed

lemma live_step:
  assumes "inv d" "step e d = (out, d')" "live d' j" "out \<noteq> Claimed j (tries d' j)"
  shows "live d j \<and> tries d' j = tries d j"
proof (cases "subject out = Some j")
  case True
  with claimed[OF assms(1)] settled[OF assms(1)] assms(2-4) show ?thesis by (cases out) auto
next
  case False
  with others[OF assms(1,2)] assms(3) show ?thesis by simp
qed

lemma claims_after: "inv d \<Longrightarrow> exec step es d = (os, d') \<Longrightarrow> (i, n) \<in> set (claims os) \<Longrightarrow> tries d i < n \<and> n \<le> cap"
proof (induction es arbitrary: d os)
  case (Cons e es)
  obtain o1 d1 where s: "step e d = (o1, d1)" by (cases "step e d")
  obtain os1 where r: "exec step es d1 = (os1, d')" "os = o1 # os1"
    using Cons.prems(2) s by (auto simp: Let_def split: prod.splits)
  have inv1: "inv d1" using inv_step[OF Cons.prems(1), of e] s by simp
  from Cons.prems(3) r(2) consider "o1 = Claimed i n" | "(i, n) \<in> set (claims os1)"
    by (cases o1) auto
  then show ?case
  proof cases
    case 1
    then show ?thesis using claimed[OF Cons.prems(1) s[unfolded 1]] by simp
  next
    case 2
    from Cons.IH[OF inv1 r(1) 2] tries_step[OF Cons.prems(1) s, of i] show ?thesis by simp
  qed
qed simp

lemma claims_distinct: "inv d \<Longrightarrow> exec step es d = (os, d') \<Longrightarrow> distinct (claims os)"
proof (induction es arbitrary: d os)
  case (Cons e es)
  obtain o1 d1 where s: "step e d = (o1, d1)" by (cases "step e d")
  obtain os1 where r: "exec step es d1 = (os1, d')" "os = o1 # os1"
    using Cons.prems(2) s by (auto simp: Let_def split: prod.splits)
  have inv1: "inv d1" using inv_step[OF Cons.prems(1), of e] s by simp
  show ?case
  proof (cases o1)
    case (Claimed i n)
    with claimed[OF Cons.prems(1), of e i n d1] s have "tries d1 i = n" by simp
    with claims_after[OF inv1 r(1), of i n] Cons.IH[OF inv1 r(1)] r(2) Claimed show ?thesis by auto
  qed (use Cons.IH[OF inv1 r(1)] r(2) in auto)
qed simp

lemma settled_after:
  "inv d \<Longrightarrow> exec step es d = (os, d') \<Longrightarrow> (i, n) \<in> set (settlements os) \<Longrightarrow>
     tries d i \<le> n \<and> ((live d i \<and> tries d i = n) \<or> (i, n) \<in> set (claims os))"
proof (induction es arbitrary: d os)
  case (Cons e es)
  obtain o1 d1 where s: "step e d = (o1, d1)" by (cases "step e d")
  obtain os1 where r: "exec step es d1 = (os1, d')" "os = o1 # os1"
    using Cons.prems(2) s by (auto simp: Let_def split: prod.splits)
  have inv1: "inv d1" using inv_step[OF Cons.prems(1), of e] s by simp
  from Cons.prems(3) r(2) consider "o1 = Settled i n" | "(i, n) \<in> set (settlements os1)"
    by (cases o1) auto
  then show ?case
  proof cases
    case 1
    then show ?thesis using settled[OF Cons.prems(1) s[unfolded 1]] by simp
  next
    case 2
    note ih = Cons.IH[OF inv1 r(1) 2]
    have up: "tries d i \<le> tries d1 i" by (rule tries_step[OF Cons.prems(1) s])
    have "(live d i \<and> tries d i = n) \<or> (i, n) \<in> set (claims os)"
    proof (cases "(i, n) \<in> set (claims os1)")
      case True
      then show ?thesis using r(2) by (cases o1) auto
    next
      case False
      with ih have lv: "live d1 i" "tries d1 i = n" by auto
      show ?thesis
      proof (cases "o1 = Claimed i n")
        case True
        then show ?thesis using r(2) by simp
      next
        case False
        with lv live_step[OF Cons.prems(1) s, of i] show ?thesis by simp
      qed
    qed
    with ih up show ?thesis by simp
  qed
qed simp

lemma settlements_distinct: "inv d \<Longrightarrow> exec step es d = (os, d') \<Longrightarrow> distinct (settlements os)"
proof (induction es arbitrary: d os)
  case (Cons e es)
  obtain o1 d1 where s: "step e d = (o1, d1)" by (cases "step e d")
  obtain os1 where r: "exec step es d1 = (os1, d')" "os = o1 # os1"
    using Cons.prems(2) s by (auto simp: Let_def split: prod.splits)
  have inv1: "inv d1" using inv_step[OF Cons.prems(1), of e] s by simp
  show ?case
  proof (cases o1)
    case (Settled i n)
    with settled[OF Cons.prems(1), of e i n d1] s have "\<not> live d1 i" "n \<le> tries d1 i" by simp_all
    with settled_after[OF inv1 r(1), of i n] claims_after[OF inv1 r(1), of i n]
    have "(i, n) \<notin> set (settlements os1)" by auto
    with Cons.IH[OF inv1 r(1)] r(2) Settled show ?thesis by simp
  qed (use Cons.IH[OF inv1 r(1)] r(2) in auto)
qed simp

lemma claims_bounded:
  assumes "inv d" "exec step es d = (os, d')"
  shows "length (filter (\<lambda>t. fst t = i) (claims os)) \<le> cap - tries d i"
proof -
  let ?cs = "filter (\<lambda>t. fst t = i) (claims os)"
  have "distinct (map snd ?cs)"
    using claims_distinct[OF assms] by (auto simp: distinct_map inj_on_def)
  then have "length ?cs = card (snd ` set ?cs)"
    using distinct_card[of "map snd ?cs"] by simp
  also have "snd ` set ?cs \<subseteq> {tries d i<..cap}" using claims_after[OF assms] by auto
  then have "card (snd ` set ?cs) \<le> card {tries d i<..cap}" by (intro card_mono) auto
  finally show ?thesis by simp
qed

text \<open>A row is never held under two tickets: a claim needs the row not live.\<close>

lemma held_excludes: "inv d \<Longrightarrow> live d i \<Longrightarrow> fst (step e d) \<noteq> Claimed i n"
proof
  assume inv: "inv d" and lv: "live d i" and eq: "fst (step e d) = Claimed i n"
  then have "step e d = (Claimed i n, snd (step e d))" by (metis prod.collapse)
  with claimed[OF inv] lv show False by blast
qed

end

end
