(* ===== verification/Run_Concurrency.thy ===== *)
theory Run_Concurrency
  imports Run_Table Claim_Queue
begin

text \<open>
  The run queue under any interleaving of its writers. One event is one database statement or one
  transaction of the services: a drain's turn on a candidate it read earlier (a stale snapshot
  included), a completion of any run object a drain still holds, a reaper pass, and the enqueues,
  digest batch statements and deletes of the trigger, the flush, the backfill and the delete of a watch. The run queue is
  a \<open>claim_queue\<close>: the interpretation at the end.
\<close>

datatype run_event =
    Claim instant run
  | Complete ulid run watch_run_state blob string ulid "string option" instant
  | Reap instant
  | Enqueue ulid ulid ulid string ulid instant ulid
  | Enqueue_Many ulid ulid ulid string instant "ulid list"
  | Advance ulid ulid string instant "(ulid \<times> ulid \<times> ulid) list"
  | Complete_Batch ulid "ulid list" watch_run_state blob string ulid "string option" instant
  | Fail_Batch ulid "ulid list" instant
  | Delete_Terminal ulid ulid ulid "ulid set"
  | Delete_Watch ulid ulid

text \<open>A claim is only tried on a candidate read as claimable, an outcome is never a queue state.\<close>

fun run_step :: "env \<Rightarrow> run_event \<Rightarrow> db \<Rightarrow> outcome \<times> db" where
  "run_step E (Claim ts c) d =
     (if r_state c \<in> CLAIMABLE_STATES
      then case claim_one E ts c d of
             (None, d') \<Rightarrow> (Quiet, d')
           | (Some r, d') \<Rightarrow> (Claimed (r_id r) (r_attempts r), d')
      else (Quiet, d))"
| "run_step E (Complete acct run st res err dlv knd now) d =
     (if st \<in> BACKLOG_STATES then (Quiet, d)
      else case complete E acct run st res err dlv knd now d of
             (Inr (Some r), d') \<Rightarrow> (Settled (r_id run) (r_attempts run), d')
           | (_, d') \<Rightarrow> (Quiet, d'))"
| "run_step E (Reap now) d = (Quiet, snd (reap_stale E now d))"
| "run_step E (Enqueue acct wat act kind item sched prior) d =
     (Quiet, snd (enqueue E acct wat act kind item sched prior d))"
| "run_step E (Enqueue_Many acct wat act kind sched ids) d =
     (Quiet, snd (enqueue_many E acct wat act kind sched (dict_fromkeys ids) d))"
| "run_step E (Advance acct act kind sched rows) d = (Quiet, enqueue_advance_batch E acct act kind sched rows d)"
| "run_step E (Complete_Batch acct ids st res err dlv knd now) d =
     (if st \<in> TERMINAL_STATES then (Quiet, snd (complete_batch E acct ids st res err dlv knd now d)) else (Quiet, d))"
| "run_step E (Fail_Batch acct ids now) d = (Quiet, snd (fail_batch E acct (dict_fromkeys ids) now d))"
| "run_step E (Delete_Terminal acct act wat ids) d = (Quiet, snd (delete_terminal_for_action acct act wat ids d))"
| "run_step E (Delete_Watch acct wid) d = (Quiet, delete_watch_runs acct wid d)"

definition queue_inv :: "env \<Rightarrow> db \<Rightarrow> bool" where
  "queue_inv E d \<longleftrightarrow> run_table E d \<and> mints_fresh E \<and> 0 < MAX_ATTEMPTS E"

definition run_live :: "db \<Rightarrow> ulid \<Rightarrow> bool" where
  "run_live d i \<longleftrightarrow> (case get_run i d of None \<Rightarrow> False | Some r \<Rightarrow> r_state r = RUNNING)"

text \<open>A deleted run counts as beyond the cap: its id is never minted again.\<close>

definition run_tries :: "env \<Rightarrow> db \<Rightarrow> ulid \<Rightarrow> nat" where
  "run_tries E d i = (case get_run i d of
     Some r \<Rightarrow> r_attempts r
   | None \<Rightarrow> if i \<in> mint E ` {..<drawn d} then Suc (MAX_ATTEMPTS E) else 0)"

lemma queue_inv_step: "queue_inv E d \<Longrightarrow> queue_inv E (snd (run_step E e d))"
proof -
  assume inv: "queue_inv E d"
  then have tab: "run_table E d" and fresh: "mints_fresh E" and pos: "0 < MAX_ATTEMPTS E"
    by (simp_all add: queue_inv_def)
  have "run_table E (snd (run_step E e d))"
  proof (cases e)
    case (Claim ts c)
    then show ?thesis using tab run_table_claim_one[OF tab, of c ts]
      by (auto split: prod.split option.split)
  next
    case (Complete acct run st res err dlv knd now)
    then show ?thesis using tab run_table_complete[OF tab, of st acct run res err dlv knd now]
      by (auto split: prod.split sum.split option.split)
  next
    case (Complete_Batch acct ids st res err dlv knd now)
    then show ?thesis using tab run_table_complete_batch[OF tab, of st acct ids res err dlv knd now] by simp
  next
    case (Delete_Terminal acct act wat ids)
    then show ?thesis using tab by (simp add: delete_terminal_for_action_def Let_def run_table_delete)
  next
    case (Delete_Watch acct wid)
    then show ?thesis using tab by (simp add: delete_watch_runs_def run_table_delete)
  qed (use tab fresh pos in \<open>simp_all add: run_table_reap run_table_enqueue run_table_enqueue_many
      run_table_advance run_table_fail_batch\<close>)
  with fresh pos show ?thesis by (simp add: queue_inv_def)
qed

subsection \<open>What a statement does to the tickets\<close>

definition calm_at :: "env \<Rightarrow> db \<Rightarrow> db \<Rightarrow> ulid \<Rightarrow> bool" where
  "calm_at E d d' j \<longleftrightarrow> run_tries E d j \<le> run_tries E d' j
     \<and> (run_live d' j \<longrightarrow> run_live d j \<and> run_tries E d' j = run_tries E d j)"

lemma calm_refl [simp]: "calm_at E d d j"
  by (simp add: calm_at_def)

lemma get_run_update:
  "(\<And>r. r_id (f r) = r_id r) \<Longrightarrow> get_run j (d\<lparr>runs := update_where P f (runs d)\<rparr>) =
     map_option (\<lambda>r. if P r then f r else r) (get_run j d)"
proof -
  assume "\<And>r. r_id (f r) = r_id r"
  then have "first (filter (\<lambda>r. r_id r = j) (update_where P f rows)) =
      map_option (\<lambda>r. if P r then f r else r) (first (filter (\<lambda>r. r_id r = j) rows))" for rows
    by (induction rows) auto
  then show ?thesis by (simp add: get_run_def)
qed

lemma get_run_in: "get_run j d = Some r \<Longrightarrow> r \<in> set (runs d) \<and> r_id r = j"
  by (auto simp: get_run_def dest: first_in)

lemma get_run_None: "get_run j d = None \<longleftrightarrow> (\<forall>r \<in> set (runs d). r_id r \<noteq> j)"
  by (auto simp: get_run_def filter_empty_conv)

lemma calm_update:
  assumes "\<And>r. r_id (f r) = r_id r"
    and "\<And>r. r \<in> set (runs d) \<Longrightarrow> r_id r = j \<Longrightarrow> P r \<Longrightarrow> r_attempts r \<le> r_attempts (f r)
           \<and> (r_state (f r) = RUNNING \<longrightarrow> r_state r = RUNNING \<and> r_attempts (f r) = r_attempts r)"
  shows "calm_at E d (d\<lparr>runs := update_where P f (runs d)\<rparr>) j"
  using assms by (cases "get_run j d") (auto simp: calm_at_def run_tries_def run_live_def get_run_update dest!: get_run_in)

lemma calm_insert:
  assumes tab: "run_table E d"
    and runs: "runs d' = runs d @ ys" and drawn: "drawn d \<le> drawn d'"
    and ys: "\<And>y. y \<in> set ys \<Longrightarrow> r_state y = PENDING \<and> r_id y \<notin> mint E ` {..<drawn d}"
  shows "calm_at E d d' j"
proof (cases "get_run j d")
  case (Some r)
  then have "get_run j d' = Some r" by (auto simp: get_run_def runs first_def split: list.splits)
  with Some show ?thesis by (simp add: calm_at_def run_tries_def run_live_def)
next
  case None
  show ?thesis
  proof (cases "get_run j d'")
    case (Some y)
    with None have y: "y \<in> set ys" "r_id y = j" by (auto dest!: get_run_in simp: runs get_run_None)
    from ys[OF y(1)] y(2) have "r_state y = PENDING" "j \<notin> mint E ` {..<drawn d}" by simp_all
    with None Some show ?thesis by (auto simp: calm_at_def run_tries_def run_live_def)
  next
    case None': None
    have "j \<in> mint E ` {..<drawn d} \<Longrightarrow> j \<in> mint E ` {..<drawn d'}" using drawn by auto
    with None None' show ?thesis by (auto simp: calm_at_def run_tries_def run_live_def)
  qed
qed

lemma calm_delete:
  assumes tab: "run_table E d"
  shows "calm_at E d (d\<lparr>runs := delete_where P (runs d)\<rparr>) j"
proof (cases "get_run j d")
  case None
  then have "get_run j (d\<lparr>runs := delete_where P (runs d)\<rparr>) = None" by (auto simp: get_run_None set_delete_where)
  with None show ?thesis by (simp add: calm_at_def run_tries_def run_live_def)
next
  case (Some r)
  then have r: "r \<in> set (runs d)" "r_id r = j" by (auto dest: get_run_in)
  have used: "j \<in> mint E ` {..<drawn d}" using run_tableD(4)[OF tab] r by auto
  have le: "r_attempts r \<le> MAX_ATTEMPTS E" using run_tableD(1)[OF tab r(1)] by (simp add: run_ok_def)
  show ?thesis
  proof (cases "P r")
    case True
    then have "get_run j (d\<lparr>runs := delete_where P (runs d)\<rparr>) = None"
      using r run_by_id[OF tab] by (auto simp: get_run_None set_delete_where)
    with Some used le show ?thesis by (simp add: calm_at_def run_tries_def run_live_def)
  next
    case False
    then have "r \<in> set (delete_where P (runs d))" using r by (simp add: set_delete_where)
    moreover have "distinct (map r_id (delete_where P (runs d)))"
      using run_tableD(2)[OF run_table_delete[OF tab, of P]] by simp
    ultimately have "get_run j (d\<lparr>runs := delete_where P (runs d)\<rparr>) = Some r"
      using get_run_unique[of "d\<lparr>runs := delete_where P (runs d)\<rparr>" r] r by simp
    with Some show ?thesis by (simp add: calm_at_def run_tries_def run_live_def)
  qed
qed

lemma calm_insert_ignore:
  assumes tab: "run_table E d" and fresh: "mints_fresh E"
    and rs: "\<And>r. r \<in> set rs \<Longrightarrow> r_state r = PENDING" "map r_id rs = map (mint E) [drawn d..<drawn d + length rs]"
  shows "calm_at E d (d\<lparr>drawn := drawn d + length rs, runs := insert_ignore run_key rs (runs d)\<rparr>) j"
proof -
  obtain ys where ys: "insert_ignore run_key rs (runs d) = runs d @ ys" "set ys \<subseteq> set rs"
    using insert_ignore_append_keys[of run_key rs "runs d"] by (elim exE conjE) (rule that)
  have "r_id y \<notin> mint E ` {..<drawn d}" if "y \<in> set rs" for y
  proof
    assume "r_id y \<in> mint E ` {..<drawn d}"
    then obtain k where k: "k < drawn d" "r_id y = mint E k" by auto
    from that have "r_id y \<in> set (map r_id rs)" by simp
    then obtain i where i: "drawn d \<le> i" "r_id y = mint E i" unfolding rs(2) by auto
    with k fresh show False by (auto simp: mints_fresh_def inj_eq)
  qed
  note out = this
  have new: "r_state y = PENDING \<and> r_id y \<notin> mint E ` {..<drawn d}" if "y \<in> set ys" for y
    using that ys(2) rs(1) out by blast
  show ?thesis by (rule calm_insert[OF tab _ _ new]) (simp_all add: ys(1))
qed

lemma calm_bulk:
  assumes "run_table E d" "mints_fresh E"
    and mks: "\<And>mk i. mk \<in> set mks \<Longrightarrow> r_state (mk i) = PENDING \<and> r_id (mk i) = i"
  shows "calm_at E d (bulk_create_runs mks E d) j"
proof -
  let ?rs = "map2 (\<lambda>mk i. mk (mint E i)) mks [drawn d..<drawn d + length mks]"
  have "map r_id ?rs = map (mint E) [drawn d..<drawn d + length ?rs]"
    using mks by (intro nth_equalityI) (simp_all add: nth_mem)
  moreover have "r_state r = PENDING" if "r \<in> set ?rs" for r using that mks by (auto dest: set_zip_leftD)
  ultimately have "calm_at E d (d\<lparr>drawn := drawn d + length ?rs, runs := insert_ignore run_key ?rs (runs d)\<rparr>) j"
    by (intro calm_insert_ignore assms)
  then show ?thesis by (simp add: bulk_create_runs_eq)
qed

lemma calm_enqueue_many:
  assumes "run_table E d" "mints_fresh E" "distinct ids"
  shows "calm_at E d (snd (enqueue_many E acct wat act kind sched ids d)) j"
proof -
  let ?rs = "new_rows E acct wat act kind sched (fresh_items acct wat act ids d) (drawn d)"
  have "r_state y = PENDING \<and> r_id y \<notin> mint E ` {..<drawn d}" if "y \<in> set ?rs" for y
    using new_rows_in[OF that] assms(2) by (auto simp: mints_fresh_def inj_eq)
  then have "calm_at E d (d\<lparr>drawn := drawn d + length (fresh_items acct wat act ids d), runs := runs d @ ?rs\<rparr>) j"
    by (intro calm_insert[OF assms(1), of _ ?rs]) auto
  with assms(3) show ?thesis by (simp add: enqueue_many_eq Let_def)
qed

lemma calm_enqueue:
  assumes "run_table E d" "mints_fresh E"
  shows "calm_at E d (snd (enqueue E acct wat act kind item sched prior d)) j"
proof (cases "(acct, wat, act, item) \<in> run_key ` set (runs d)")
  case False
  let ?r = "pending_run acct wat act kind item sched prior (mint E (drawn d))"
  have "mint E (drawn d) \<notin> mint E ` {..<drawn d}" using assms(2) by (auto simp: mints_fresh_def inj_eq)
  then have "calm_at E d (d\<lparr>drawn := Suc (drawn d), runs := runs d @ [?r]\<rparr>) j"
    by (intro calm_insert[OF assms(1), of _ "[?r]"]) auto
  with False show ?thesis by (simp add: enqueue_def new_id_def Let_def)
qed (simp add: enqueue_def)

lemma calm_advance:
  "run_table E d \<Longrightarrow> mints_fresh E \<Longrightarrow> calm_at E d (enqueue_advance_batch E acct act kind sched rows d) j"
  by (auto simp: enqueue_advance_batch_def intro!: calm_bulk)

lemma calm_complete_batch:
  assumes "st \<in> TERMINAL_STATES"
  shows "calm_at E d (snd (complete_batch E acct ids st res err dlv knd now d)) j"
proof -
  have "st \<noteq> PENDING" using assms by auto
  then show ?thesis using assms by (auto simp: complete_batch_eq intro!: calm_update)
qed

lemma fail_row_not_running: "batch_target acct ids r \<Longrightarrow> r_state (fail_row E now r) \<noteq> RUNNING"
  by (simp add: batch_target_def fail_row_def exhaust_row_def burn_row_def)

lemma calm_fail_batch: "distinct ids \<Longrightarrow> calm_at E d (snd (fail_batch E acct ids now d)) j"
  by (auto simp: fail_batch_eq fail_row_not_running intro!: calm_update)

lemma calm_reap: "calm_at E d (snd (reap_stale E now d)) j"
  by (auto simp: reap_stale_eq intro!: calm_update)

lemma claim_one_ticket:
  assumes tab: "run_table E d" and won: "claim_one E ts c d = (Some r, d')" and c: "r_state c \<in> CLAIMABLE_STATES"
  shows "\<not> run_live d (r_id r) \<and> run_live d' (r_id r) \<and> run_tries E d (r_id r) < r_attempts r
    \<and> run_tries E d' (r_id r) = r_attempts r \<and> r_attempts r \<le> MAX_ATTEMPTS E \<and> r_id r = r_id c"
proof -
  from won have hit: "count_where (claim_guard E c) (runs d) \<noteq> 0"
    and d': "d' = d\<lparr>runs := update_where (claim_guard E c) (claim_row ts) (runs d)\<rparr>"
    and r: "get_run (r_id c) d' = Some r" by (auto simp: claim_one_eq split: if_splits)
  obtain q where q: "q \<in> set (runs d)" "claim_guard E c q" using hit by (auto simp: count_where_0)
  then have gq: "get_run (r_id c) d = Some q"
    using get_run_unique[OF run_tableD(2)[OF tab] q(1)] by (simp add: claim_guard_def)
  have "r = claim_row ts q" using r q(2) by (simp add: d' get_run_update gq)
  with r gq q(2) c show ?thesis by (auto simp: run_live_def run_tries_def claim_guard_def)
qed

lemma complete_ticket:
  assumes tab: "run_table E d" and won: "complete E acct run st res err dlv knd now d = (Inr (Some r), d')"
    and st: "st \<notin> BACKLOG_STATES"
  shows "run_live d (r_id run) \<and> run_tries E d (r_id run) = r_attempts run
    \<and> \<not> run_live d' (r_id run) \<and> run_tries E d' (r_id run) = r_attempts run"
proof -
  from won have hit: "held run d" and d': "d' = d\<lparr>runs := update_where (complete_guard run)
      (complete_row st res err dlv knd (completion_ts E st (r_attempts run) now)) (runs d)\<rparr>"
    by (auto simp: complete_eq split: if_splits)
  obtain q where q: "q \<in> set (runs d)" "complete_guard run q" using hit by (auto simp: held_iff)
  then have gq: "get_run (r_id run) d = Some q"
    using get_run_unique[OF run_tableD(2)[OF tab] q(1)] by (simp add: complete_guard_def)
  with q(2) st show ?thesis by (auto simp: run_live_def run_tries_def complete_guard_def d' get_run_update)
qed

subsection \<open>The run queue is a claim queue\<close>

lemma run_step_claimed:
  assumes inv: "queue_inv E d" and s: "run_step E e d = (Claimed i n, d')"
  shows "\<not> run_live d i \<and> run_live d' i \<and> run_tries E d i < n \<and> run_tries E d' i = n \<and> n \<le> MAX_ATTEMPTS E"
proof -
  from s obtain ts c r where "claim_one E ts c d = (Some r, d')" "r_state c \<in> CLAIMABLE_STATES"
    "i = r_id r" "n = r_attempts r"
    by (cases e) (auto split: if_splits prod.splits option.splits sum.splits)
  with inv claim_one_ticket[of E d ts c r d'] show ?thesis by (auto simp: queue_inv_def)
qed

lemma run_step_settled:
  assumes inv: "queue_inv E d" and s: "run_step E e d = (Settled i n, d')"
  shows "run_live d i \<and> run_tries E d i = n \<and> \<not> run_live d' i \<and> n \<le> run_tries E d' i"
proof -
  from s obtain acct run st res err dlv knd now r
    where "complete E acct run st res err dlv knd now d = (Inr (Some r), d')" "st \<notin> BACKLOG_STATES"
      "i = r_id run" "n = r_attempts run"
    by (cases e) (auto split: if_splits prod.splits option.splits sum.splits)
  with inv complete_ticket[of E d acct run st res err dlv knd now r d'] show ?thesis by (simp add: queue_inv_def)
qed

lemma calm_claim_other:
  assumes tab: "run_table E d" and "claim_one E ts c d = (Some r, d')" and "r_state c \<in> CLAIMABLE_STATES" and "r_id r \<noteq> j"
  shows "calm_at E d d' j"
proof -
  have "r_id r = r_id c" using claim_one_ticket[OF assms(1-3)] by simp
  moreover have "d' = d\<lparr>runs := update_where (claim_guard E c) (claim_row ts) (runs d)\<rparr>"
    using assms(2) by (auto simp: claim_one_eq)
  ultimately show ?thesis using assms(4) by (auto simp: claim_guard_def intro!: calm_update)
qed

lemma calm_claim_lost: "claim_one E ts c d = (None, d') \<Longrightarrow> run_table E d \<Longrightarrow> calm_at E d d' j"
proof -
  assume lost: "claim_one E ts c d = (None, d')" and tab: "run_table E d"
  then have d': "d' = d\<lparr>runs := update_where (claim_guard E c) (claim_row ts) (runs d)\<rparr>"
    by (auto simp: claim_one_eq)
  have "\<not> claim_guard E c r" if r: "r \<in> set (runs d)" for r
  proof
    assume hit: "claim_guard E c r"
    then have "count_where (claim_guard E c) (runs d) \<noteq> 0" using r by (auto simp: count_where_0)
    with lost have "get_run (r_id c) d' = None" by (auto simp: claim_one_eq split: if_splits)
    moreover have "get_run (r_id c) d = Some r"
      using get_run_unique[OF run_tableD(2)[OF tab] r] hit by (simp add: claim_guard_def)
    ultimately show False by (simp add: d' get_run_update)
  qed
  then have "d' = d" by (simp add: d' update_where_never)
  then show ?thesis by simp
qed

lemma calm_complete_other:
  assumes "complete E acct run st res err dlv knd now d = (out, d')" and "\<forall>r. out = Inr (Some r) \<longrightarrow> r_id run \<noteq> j"
    and "st \<notin> BACKLOG_STATES"
  shows "calm_at E d d' j"
proof (cases "r_account run = acct \<and> held run d")
  case True
  with assms(1) have "r_id run \<noteq> j" "d' = d\<lparr>runs := update_where (complete_guard run)
      (complete_row st res err dlv knd (completion_ts E st (r_attempts run) now)) (runs d)\<rparr>"
    using assms(2) by (auto simp: complete_eq)
  then show ?thesis by (auto simp: complete_guard_def intro!: calm_update)
next
  case False
  with assms(1) have "d' = d" by (auto simp: complete_eq split: if_splits)
  then show ?thesis by simp
qed

lemma run_step_others:
  assumes inv: "queue_inv E d" and s: "run_step E e d = (out, d')" and j: "subject out \<noteq> Some j"
  shows "calm_at E d d' j"
proof (cases e)
  case (Claim ts c)
  show ?thesis
  proof (cases "r_state c \<in> CLAIMABLE_STATES")
    case True
    with Claim s j inv show ?thesis
      by (auto split: prod.splits option.splits simp: queue_inv_def intro: calm_claim_lost calm_claim_other)
  next
    case False
    with Claim s show ?thesis by simp
  qed
next
  case (Complete acct run st res err dlv knd now)
  obtain o1 d1 where c: "complete E acct run st res err dlv knd now d = (o1, d1)" by fastforce
  show ?thesis
  proof (cases "st \<in> BACKLOG_STATES")
    case True
    with Complete s show ?thesis by simp
  next
    case False
    with Complete s c have d': "d' = d1" and o1: "\<forall>r. o1 = Inr (Some r) \<longrightarrow> out = Settled (r_id run) (r_attempts run)"
      by (auto split: sum.splits option.splits)
    from o1 j have "\<forall>r. o1 = Inr (Some r) \<longrightarrow> r_id run \<noteq> j" by auto
    from calm_complete_other[OF c this False] d' show ?thesis by simp
  qed
next
  case (Complete_Batch acct ids st res err dlv knd now)
  with s show ?thesis using calm_complete_batch[of st E d acct ids res err dlv knd now j] by (auto split: if_splits)
next
  case (Fail_Batch acct ids now)
  with s show ?thesis using calm_fail_batch[of "dict_fromkeys ids" E d acct now j] by auto
next
  case (Delete_Terminal acct act wat ids)
  with s inv show ?thesis by (auto simp: delete_terminal_for_action_def Let_def queue_inv_def intro: calm_delete)
next
  case (Delete_Watch acct wid)
  with s inv show ?thesis by (auto simp: delete_watch_runs_def queue_inv_def intro: calm_delete)
next
  case (Enqueue_Many acct wat act kind sched ids)
  with s inv show ?thesis by (auto simp: queue_inv_def intro: calm_enqueue_many)
qed (use s inv in \<open>auto simp: queue_inv_def intro: calm_reap calm_enqueue calm_advance\<close>)

interpretation rq: claim_queue "run_step E" "queue_inv E" run_live "run_tries E" "MAX_ATTEMPTS E" for E
proof
  fix d e show "queue_inv E d \<Longrightarrow> queue_inv E (snd (run_step E e d))" by (rule queue_inv_step)
next
  fix d e i n d' assume "queue_inv E d" "run_step E e d = (Claimed i n, d')"
  then show "\<not> run_live d i \<and> run_live d' i \<and> run_tries E d i < n \<and> run_tries E d' i = n \<and> n \<le> MAX_ATTEMPTS E"
    by (rule run_step_claimed)
next
  fix d e i n d' assume "queue_inv E d" "run_step E e d = (Settled i n, d')"
  then show "run_live d i \<and> run_tries E d i = n \<and> \<not> run_live d' i \<and> n \<le> run_tries E d' i"
    by (rule run_step_settled)
next
  fix d e out d' j assume "queue_inv E d" "run_step E e d = (out, d')" "subject out \<noteq> Some j"
  then show "run_tries E d j \<le> run_tries E d' j \<and> (run_live d' j \<longrightarrow> run_live d j \<and> run_tries E d' j = run_tries E d j)"
    using run_step_others by (auto simp: calm_at_def)
qed

end
