(* ===== verification/Pipeline.thy ===== *)
theory Pipeline
  imports Flush_Facts Run_Concurrency
begin

text \<open>
  The invariants of the pipeline, as interpretations of \<open>pipeline_invariant\<close>: the run table
  invariant, and the coordination of windows with pending runs. With them, the flush of a window
  ends within its fuel whatever the executors answer.
\<close>

definition coordinated :: "env \<Rightarrow> db \<Rightarrow> bool" where
  "coordinated E d \<longleftrightarrow> not_stranded d \<and> windows_digest E d \<and> distinct (map a_id (actions d))"

definition sound :: "env \<Rightarrow> db \<Rightarrow> bool" where
  "sound E d \<longleftrightarrow> queue_inv E d \<and> coordinated E d"

lemma run_table_audit:
  assumes "run_table E d" "runs d' = runs d" "drawn d \<le> drawn d'"
  shows "run_table E d'"
proof -
  have "mint E ` {..<drawn d} \<subseteq> mint E ` {..<drawn d'}" using assms(3) by (intro image_mono) auto
  with assms show ?thesis unfolding run_table_def by auto
qed

interpretation queue: flush_invariant E "queue_inv E" for E
proof
  fix d d' :: db assume "queue_inv E d" "runs d' = runs d" "drawn d \<le> drawn d'"
  then show "queue_inv E d'" using run_table_audit[of E d d'] by (simp add: queue_inv_def)
next
  fix d d' rs action now assume "queue_inv E d" "enqueue_next_batch E rs action now d = Inr d'"
  then show "queue_inv E d'" using run_table_next[of E rs action now d d'] by (simp add: queue_inv_def)
next
  fix d st acct r res err dlv knd now assume "queue_inv E d" "st \<notin> BACKLOG_STATES"
  then show "queue_inv E (snd (complete E acct r st res err dlv knd now d))"
    by (simp add: queue_inv_def run_table_complete)
next
  fix d assume "queue_inv E d"
  then show "distinct (map r_id (runs d))" by (auto simp: queue_inv_def dest: run_tableD(2))
qed (simp_all add: queue_inv_def run_table_reap run_table_claim_one run_table_complete_batch
    run_table_fail_batch run_table_close)

text \<open>Rewriting rows without making any pending keeps the coordination.\<close>

lemma coordinated_runs:
  assumes "coordinated E d" and "\<And>r. r \<in> set rs \<Longrightarrow> r \<in> set (runs d) \<or> r_state r \<noteq> PENDING
      \<or> (\<exists>q \<in> set (runs d). r_state q = PENDING \<and> r_account q = r_account r \<and> r_action q = r_action r)"
  shows "coordinated E (d\<lparr>runs := rs\<rparr>)"
proof -
  have "not_stranded (d\<lparr>runs := rs\<rparr>)"
    by (rule not_stranded_insert[of d]) (use assms in \<open>fastforce simp: coordinated_def not_stranded_def\<close>)+
  with assms(1) show ?thesis by (simp add: coordinated_def windows_digest_def has_window_def)
qed

lemma coordinated_update:
  assumes "coordinated E d"
    and "\<And>r. P r \<Longrightarrow> r_state (f r) \<noteq> PENDING \<or> (r_state r = PENDING \<and> r_account (f r) = r_account r \<and> r_action (f r) = r_action r)"
  shows "coordinated E (d\<lparr>runs := update_where P f (runs d)\<rparr>)"
  by (rule coordinated_runs[OF assms(1)]) (use assms(2) in \<open>fastforce simp: in_update_where split: if_splits\<close>)

lemma coordinated_audit:
  "coordinated E d \<Longrightarrow> runs d' = runs d \<Longrightarrow> windows d' = windows d \<Longrightarrow> actions d' = actions d \<Longrightarrow> coordinated E d'"
  using not_stranded_insert[of d d'] windows_digest_cong[of d d' E] by (simp add: coordinated_def)

lemma windows_digest_close: "windows_digest E d \<Longrightarrow> windows_digest E (snd (close_if_drained acct act d))"
proof -
  have "has_window (snd (close_if_drained acct act d)) a b \<longleftrightarrow> has_window d a b" for a b
    using get_window_other(2)[of a b acct act d]
    by (cases "(a, b) = (acct, act)")
      (auto simp: has_window_get close_if_drained_def get_window_update window_key_def split: option.split)
  then show "windows_digest E d \<Longrightarrow> ?thesis" by (simp add: windows_digest_def frame_simps)
qed

lemma windows_digest_open:
  assumes "windows_digest E d" "distinct (map a_id (actions d))" "nxt \<in> set (actions d)" "a_account nxt = acct"
    and "load_config E nxt = Inr config" "is_digest config"
  shows "windows_digest E (snd (open_window E acct (a_id nxt) interval now d))"
  unfolding windows_digest_def frame_simps has_window_open_window
proof (intro ballI impI)
  fix a assume a: "a \<in> set (actions d)"
    and w: "(a_account a, a_id a) = (acct, a_id nxt) \<or> has_window d (a_account a) (a_id a)"
  from w show "\<exists>c. load_config E a = Inr c \<and> is_digest c"
  proof
    assume "(a_account a, a_id a) = (acct, a_id nxt)"
    with a assms(2,3) have "a = nxt" by (auto simp: distinct_map dest: inj_onD)
    with assms show ?thesis by blast
  qed (use a assms(1) in \<open>auto simp: windows_digest_def\<close>)
qed

lemma coordinated_next:
  assumes inv: "coordinated E d" and adv: "enqueue_next_batch E rs action now d = Inr d'"
  shows "coordinated E d'"
proof -
  have ns: "not_stranded d'" using not_stranded_next[OF adv] inv by (simp add: coordinated_def)
  from adv have "windows_digest E d' \<and> actions d' = actions d"
  proof (cases rule: enqueue_next_batch_cases)
    case 1
    with inv show ?thesis by (simp add: coordinated_def)
  next
    case (2 nxt config sched d1)
    have "windows_digest E d1 \<and> actions d1 = actions d"
    proof (cases "is_digest config")
      case True
      then have "d1 = snd (open_window E (r_account (hd rs)) (a_id nxt) (digest_interval config) now d)"
        using 2(4) by simp
      then show ?thesis
        using windows_digest_open[of E d nxt "r_account (hd rs)" config] inv next_in_chain_SomeD[OF 2(2)] 2(3) True
        by (simp add: coordinated_def frame_simps)
    next
      case False
      with 2(4) inv show ?thesis by (simp add: coordinated_def)
    qed
    then show ?thesis
      using windows_digest_cong[of d' d1 E] by (simp add: 2(5) enqueue_advance_batch_eq)
  qed
  with ns inv show ?thesis by (simp add: coordinated_def)
qed

interpretation windows_ok: pipeline_invariant E "coordinated E" for E
proof
  fix d d' :: db assume "coordinated E d" "runs d' = runs d" "windows d' = windows d" "actions d' = actions d"
  then show "coordinated E d'" by (rule coordinated_audit)
next
  fix d rs action now d' assume "coordinated E d" "enqueue_next_batch E rs action now d = Inr d'"
  then show "coordinated E d'" by (rule coordinated_next)
next
  fix d acct act assume "coordinated E d"
  then show "coordinated E (snd (close_if_drained acct act d))"
    by (simp add: coordinated_def not_stranded_close windows_digest_close frame_simps)
next
  fix d acct now and ids :: "ulid list" assume "coordinated E d" "distinct ids"
  then show "coordinated E (snd (fail_batch E acct ids now d))"
    by (auto simp: fail_batch_eq batch_target_def fail_row_def exhaust_row_def burn_row_def intro!: coordinated_update)
next
  fix d st acct r res err dlv knd now assume "coordinated E d" "st \<notin> BACKLOG_STATES"
  then show "coordinated E (snd (complete E acct r st res err dlv knd now d))"
    by (auto simp: complete_eq intro!: coordinated_update)
next
  fix d st acct ids res err dlv knd now assume inv: "coordinated E d" and "st \<in> TERMINAL_STATES"
  then have "st \<noteq> PENDING" by auto
  then show "coordinated E (snd (complete_batch E acct ids st res err dlv knd now d))"
    using inv by (auto simp: complete_batch_eq intro!: coordinated_update)
next
  fix d now and c :: run assume "coordinated E d" "r_state c \<in> CLAIMABLE_STATES"
  then show "coordinated E (snd (claim_one E now c d))"
    by (auto simp: claim_one_eq intro!: coordinated_update)
next
  fix d now assume "coordinated E d"
  then show "coordinated E (snd (reap_stale E now d))"
    by (auto simp: reap_stale_eq intro!: coordinated_update)
qed

text \<open>Two invariants of the pipeline are one.\<close>

lemma pipeline_invariant_conj:
  assumes P: "pipeline_invariant E P" and Q: "pipeline_invariant E Q"
  shows "pipeline_invariant E (\<lambda>d. P d \<and> Q d)"
proof
  fix d d' :: db assume "P d \<and> Q d" and same: "runs d' = runs d" "windows d' = windows d" "actions d' = actions d" "drawn d \<le> drawn d'"
  then show "P d' \<and> Q d'"
    using pipeline_invariant.audit[OF P _ same] pipeline_invariant.audit[OF Q _ same] by blast
next
  fix d rs action now d' assume "P d \<and> Q d" and adv: "enqueue_next_batch E rs action now d = Inr d'"
  then show "P d' \<and> Q d'"
    using pipeline_invariant.advance[OF P _ adv] pipeline_invariant.advance[OF Q _ adv] by blast
qed (simp_all add: pipeline_invariant.reap[OF P] pipeline_invariant.reap[OF Q] pipeline_invariant.claim[OF P]
    pipeline_invariant.claim[OF Q] pipeline_invariant.settle[OF P] pipeline_invariant.settle[OF Q]
    pipeline_invariant.batch[OF P] pipeline_invariant.batch[OF Q] pipeline_invariant.burn[OF P]
    pipeline_invariant.burn[OF Q] pipeline_invariant.close[OF P] pipeline_invariant.close[OF Q])

interpretation sound: flush_invariant E "sound E" for E
proof (intro flush_invariant.intro flush_invariant_axioms.intro)
  show "pipeline_invariant E (sound E)"
    using pipeline_invariant_conj[OF queue.pipeline_invariant_axioms windows_ok.pipeline_invariant_axioms, of E]
    by (simp add: sound_def [abs_def])
  show "sound E d \<Longrightarrow> distinct (map r_id (runs d))" for d
    unfolding sound_def by (blast intro: queue.run_ids)
qed

subsection \<open>The flush ends\<close>

interpretation fixed_actions: pipeline_invariant E "\<lambda>d. actions d = A" for E A
proof
  fix d d' :: db and rs action now assume a: "actions d = A" and adv: "enqueue_next_batch E rs action now d = Inr d'"
  from adv show "actions d' = A"
  proof (cases rule: enqueue_next_batch_cases)
    case (2 nxt config sched d1)
    then have "actions d1 = actions d"
      using open_window_frame(2)[of E "r_account (hd rs)" "a_id nxt" "digest_interval config" now d]
      by (auto split: if_splits)
    with a 2(5) show ?thesis by (simp add: enqueue_advance_batch_eq)
  qed (use a in simp)
next
  fix d :: db and st acct ids res err dlv knd now assume "actions d = A" "st \<in> TERMINAL_STATES"
  then show "actions (snd (complete_batch E acct ids st res err dlv knd now d)) = A"
    by (auto simp: complete_batch_eq)
qed (simp_all add: reap_stale_eq claim_one_eq complete_eq fail_batch_eq frame_simps)

lemma flush_slice_keeps:
  assumes "queue_inv E d" "outcomes E"
  shows "queue_inv E (snd (flush_slice E w now d)) \<and> actions (snd (flush_slice E w now d)) = actions d"
  using queue.flush_one[OF assms queue.run_ids[OF assms(1)], of w now]
    fixed_actions.flush_one[OF refl assms(2) queue.run_ids[OF assms(1)], of w now] by simp

lemma flush_loop_total:
  "queue_inv E d \<Longrightarrow> distinct (map a_id (actions d)) \<Longrightarrow> outcomes E \<Longrightarrow>
   digest_pending_count (dw_account w) (dw_action w) d < k \<Longrightarrow> \<exists>x. flush_loop k E w now l d = Some x"
proof (induction k arbitrary: l d)
  case (Suc k)
  obtain res d1 where s: "flush_slice E w now d = (res, d1)" by fastforce
  have keep: "queue_inv E d1" "actions d1 = actions d"
    using flush_slice_keeps[OF Suc.prems(1,3), of w now] s by simp_all
  show ?case
  proof (cases "\<exists>sl. res = Inr sl \<and> sl_more sl")
    case True
    then obtain sl where sl: "res = Inr sl" "sl_more sl" by blast
    have "digest_pending_count (dw_account w) (dw_action w) d1 < digest_pending_count (dw_account w) (dw_action w) d"
      using slice_more_decreases[OF queue.run_ids[OF Suc.prems(1)] Suc.prems(2,3), of w now sl d1] s sl by simp
    with Suc keep have "\<exists>x. flush_loop k E w now l' d1 = Some x" for l' by simp
    with s sl show ?thesis by (simp add: Let_def)
  next
    case False
    with s show ?thesis by (cases res) (auto simp: Let_def)
  qed
qed simp

lemma flush_run_total:
  "queue_inv E d \<Longrightarrow> distinct (map a_id (actions d)) \<Longrightarrow> outcomes E \<Longrightarrow> \<exists>x. flush_run E w now d = Some x"
  unfolding flush_run_def by (rule flush_loop_total) simp_all

text \<open>A single-window flush keeps the actions, so a pass over all windows ends too.\<close>

lemma flush_loop_actions:
  "queue_inv E d \<Longrightarrow> outcomes E \<Longrightarrow> flush_loop k E w now l d = Some (res, d') \<Longrightarrow>
     queue_inv E d' \<and> actions d' = actions d"
proof (induction k arbitrary: l d)
  case (Suc k)
  obtain x d1 where s: "flush_slice E w now d = (x, d1)" by fastforce
  then have "queue_inv E d1 \<and> actions d1 = actions d" using flush_slice_keeps[OF Suc.prems(1,2), of w now] by simp
  with Suc s show ?case by (auto simp: Let_def split: sum.splits if_splits)
qed simp

lemma flush_all_total:
  "queue_inv E d \<Longrightarrow> distinct (map a_id (actions d)) \<Longrightarrow> outcomes E \<Longrightarrow> \<exists>x. flush_all E now ws d = Some x"
proof (induction ws arbitrary: d)
  case (Cons w ws)
  obtain res d1 where f: "flush_run E w now d = Some (res, d1)" using flush_run_total[OF Cons.prems, of w now] by auto
  then have "queue_inv E d1 \<and> actions d1 = actions d"
    using flush_loop_actions Cons.prems unfolding flush_run_def by blast
  with Cons.prems Cons.IH[of d1] f show ?case by auto
qed simp

end
