(* ===== verification/Trigger.thy ===== *)
theory Trigger
  imports Pipeline
begin

text \<open>
  The trigger pass (operations/trigger.py, process\_due\_watches): for each subscribed feed of a
  watch, enqueue a run of the chain's head for every item past the subscription's watermark, then
  move the watermark to the newest item scanned. A digest head has its window opened first, once.
\<close>

definition feed_global_get :: "ulid \<Rightarrow> db \<Rightarrow> exn + feed" where
  "feed_global_get fid d =
     (case first (filter (\<lambda>f. f_id f = fid) (feeds d)) of None \<Rightarrow> Inl DoesNotExist | Some f \<Rightarrow> Inr f)"

text \<open>The schedule of a digest head: the window is opened on the first feed that has new items.\<close>

definition digest_scheduled_at :: "env \<Rightarrow> ulid \<Rightarrow> ulid \<Rightarrow> int option \<Rightarrow> instant \<Rightarrow> instant option \<Rightarrow> db
    \<Rightarrow> instant \<times> instant option \<times> db" where
  "digest_scheduled_at E acct act interval now opened d =
     (case interval of
        None \<Rightarrow> (now, opened, d)
      | Some n \<Rightarrow>
          (case opened of
             Some t \<Rightarrow> (t, opened, d)
           | None \<Rightarrow> let (t, d') = open_window E acct act n now d in (t, Some t, d')))"

fun trigger_feeds :: "env \<Rightarrow> watch \<Rightarrow> watch_action \<Rightarrow> int option \<Rightarrow> instant \<Rightarrow> watch_feed list \<Rightarrow> instant option
    \<Rightarrow> nat \<Rightarrow> nat \<Rightarrow> db \<Rightarrow> (exn + nat \<times> nat) \<times> db" where
  "trigger_feeds E w head interval now [] opened scanned enq d = (Inr (scanned, enq), d)"
| "trigger_feeds E w head interval now (s # ss) opened scanned enq d =
     (let acct = w_account w
      in case feed_global_get (wf_feed s) d of
           Inl _ \<Rightarrow> trigger_feeds E w head interval now ss opened scanned enq d
         | Inr fd \<Rightarrow>
             (case newest_item_id acct fd d of
                Inl e \<Rightarrow> (Inl e, d)
              | Inr None \<Rightarrow> trigger_feeds E w head interval now ss opened (Suc scanned) enq d
              | Inr (Some thru) \<Rightarrow>
                  if wf_last_item s = thru then trigger_feeds E w head interval now ss opened (Suc scanned) enq d
                  else
                    (let (sched, opened', d1) = digest_scheduled_at E acct (a_id head) interval now opened d
                     in case iter_item_ids_in_window acct fd (wf_last_item s) thru d1 of
                          Inl e \<Rightarrow> (Inl e, d1)
                        | Inr ids \<Rightarrow>
                            (case enqueue_many E acct (w_id w) (a_id head) (a_kind head) sched ids d1 of
                               (Inl e, d2) \<Rightarrow> (Inl e, d2)
                             | (Inr n, d2) \<Rightarrow>
                                 (case advance_watermark acct s thru d2 of
                                    (Inl e, d3) \<Rightarrow> (Inl e, d3)
                                  | (Inr _, d3) \<Rightarrow>
                                      trigger_feeds E w head interval now ss opened' (Suc scanned) (enq + n) d3)))))"

definition trigger_run :: "env \<Rightarrow> watch \<Rightarrow> instant \<Rightarrow> db \<Rightarrow> (exn + nat \<times> nat) \<times> db" where
  "trigger_run E w now d =
     (case initial_actions (w_account w) w d of
        Inl e \<Rightarrow> (Inl e, d)
      | Inr [] \<Rightarrow> (Inr (0, 0), d)
      | Inr (head # _) \<Rightarrow>
          (case load_config E head of
             Inl e \<Rightarrow> (Inl e, d)
           | Inr cfg \<Rightarrow>
               (case list_watch_feeds (w_account w) w d of
                  Inl e \<Rightarrow> (Inl e, d)
                | Inr ss \<Rightarrow>
                    trigger_feeds E w head (if is_digest cfg then Some (digest_interval cfg) else None) now ss None 0 0 d)))"

text \<open>The pass: a watch that raises is counted as failed and the pass goes on with what it wrote.\<close>

fun trigger_all :: "env \<Rightarrow> instant \<Rightarrow> watch list \<Rightarrow> db \<Rightarrow> (nat \<times> nat \<times> nat) \<times> db" where
  "trigger_all E now [] d = ((0, 0, 0), d)"
| "trigger_all E now (w # ws) d =
     (case trigger_run E w now d of
        (Inl _, d1) \<Rightarrow> (let ((ok, n, failed), d2) = trigger_all E now ws d1 in ((ok, n, Suc failed), d2))
      | (Inr (_, enq), d1) \<Rightarrow>
          (let ((ok, n, failed), d2) = trigger_all E now ws d1 in ((Suc ok, enq + n, failed), d2)))"

definition process_due_watches :: "env \<Rightarrow> instant \<Rightarrow> db \<Rightarrow> (nat \<times> nat \<times> nat) \<times> db" where
  "process_due_watches E now d = trigger_all E now (iter_active d) d"

subsection \<open>One feed\<close>

text \<open>What a subscription has not triggered on yet.\<close>

definition unseen :: "ulid \<Rightarrow> watch_feed \<Rightarrow> db \<Rightarrow> ulid set" where
  "unseen acct s d = (case feed_global_get (wf_feed s) d of Inl _ \<Rightarrow> {}
     | Inr fd \<Rightarrow> {i \<in> set (feed_item_ids acct (f_id fd) d). wf_last_item s < i})"

lemma newest_is_max:
  assumes "newest_item_id acct fd d = Inr (Some thru)"
  shows "thru \<in> set (feed_item_ids acct (f_id fd) d)" "\<forall>i \<in> set (feed_item_ids acct (f_id fd) d). i \<le> thru"
proof -
  let ?ids = "feed_item_ids acct (f_id fd) d"
  have thru: "first (rev (sort ?ids)) = Some thru"
    using assms by (auto simp: newest_item_id_def order_by_desc_def split: if_splits)
  then obtain ys where ys: "sort ?ids = ys @ [thru]" by (cases "sort ?ids" rule: rev_cases) auto
  have "sorted (ys @ [thru])" using sorted_sort[of ?ids] by (simp only: ys)
  then have le: "\<forall>y \<in> set ys. y \<le> thru" by (simp add: sorted_append)
  have "set ?ids = insert thru (set ys)" using arg_cong[OF ys, of set] by simp
  with le show "thru \<in> set ?ids" "\<forall>i \<in> set ?ids. i \<le> thru" by auto
qed

lemma window_ids_are_unseen:
  assumes "item_table d" "newest_item_id acct fd d = Inr (Some thru)"
    and "iter_item_ids_in_window acct fd after thru d = Inr ids"
  shows "distinct ids \<and> set ids = {i \<in> set (feed_item_ids acct (f_id fd) d). after < i}"
proof -
  have dist: "distinct (feed_item_ids acct (f_id fd) d)"
    using assms(1) by (simp add: item_table_def feed_item_ids_def distinct_map_filter)
  then have "ids = sort (filter (\<lambda>i. after < i) (filter (\<lambda>i. i \<le> thru) (feed_item_ids acct (f_id fd) d)))"
    using assms(3) by (auto simp: iter_item_ids_in_window_def window_ids_eq split: if_splits)
  with dist newest_is_max(2)[OF assms(2)] show ?thesis by auto
qed

subsection \<open>The loop over the subscriptions\<close>

definition mark :: "ulid \<Rightarrow> watch_feed \<Rightarrow> db \<Rightarrow> ulid" where
  "mark acct s d = (case feed_global_get (wf_feed s) d of Inl _ \<Rightarrow> wf_last_item s
     | Inr fd \<Rightarrow> (case newest_item_id acct fd d of Inr (Some thru) \<Rightarrow> thru | _ \<Rightarrow> wf_last_item s))"

lemma feed_reads_cong:
  assumes "feeds d = feeds d'" "feed_items d = feed_items d'"
  shows "feed_global_get fid d = feed_global_get fid d'" "newest_item_id acct fd d = newest_item_id acct fd d'"
    "feed_item_ids acct fid d = feed_item_ids acct fid d'" "unseen acct s d = unseen acct s d'"
    "mark acct s d = mark acct s d'"
    "iter_item_ids_in_window acct fd after thru d = iter_item_ids_in_window acct fd after thru d'"
proof -
  have reads: "feed_global_get fid d = feed_global_get fid d'" "newest_item_id acct fd d = newest_item_id acct fd d'"
    "feed_item_ids acct fid d = feed_item_ids acct fid d'" for fid fd
    using assms by (simp_all add: feed_global_get_def newest_item_id_def feed_item_ids_def)
  then show "feed_global_get fid d = feed_global_get fid d'" "newest_item_id acct fd d = newest_item_id acct fd d'"
    "feed_item_ids acct fid d = feed_item_ids acct fid d'" "unseen acct s d = unseen acct s d'"
    "mark acct s d = mark acct s d'"
    "iter_item_ids_in_window acct fd after thru d = iter_item_ids_in_window acct fd after thru d'"
    by (simp_all only: unseen_def mark_def iter_item_ids_in_window_def reads)
qed

lemma digest_scheduled_at_tables:
  assumes "digest_scheduled_at E acct act interval now opened d = (sched, opened', d1)"
  shows "runs d1 = runs d" "feeds d1 = feeds d" "feed_items d1 = feed_items d" "watch_feeds d1 = watch_feeds d"
    "actions d1 = actions d" "watches d1 = watches d"
proof -
  have "d1 = d \<or> (\<exists>n. d1 = snd (open_window E acct act n now d))"
    using assms by (auto simp: digest_scheduled_at_def split: option.splits prod.splits)
      (metis snd_conv)
  then show "runs d1 = runs d" "feeds d1 = feeds d" "feed_items d1 = feed_items d" "watch_feeds d1 = watch_feeds d"
    "actions d1 = actions d" "watches d1 = watches d"
    by (auto simp: frame_simps)
qed

lemma digest_scheduled_at_drawn:
  "digest_scheduled_at E acct act interval now opened d = (sched, opened', d1) \<Longrightarrow> drawn d \<le> drawn d1"
  using open_window_drawn[of d E acct act _ now]
  by (auto simp: digest_scheduled_at_def split: option.splits prod.splits) (metis snd_conv)

text \<open>One subscription that has something new, as one step.\<close>

definition feed_pass :: "env \<Rightarrow> watch \<Rightarrow> watch_action \<Rightarrow> instant \<Rightarrow> instant \<Rightarrow> ulid list \<Rightarrow> ulid \<Rightarrow> watch_feed \<Rightarrow> db \<Rightarrow> db" where
  "feed_pass E w head now sched ids thru s d =
     (let d2 = snd (enqueue_many E (w_account w) (w_id w) (a_id head) (a_kind head) sched ids d)
      in d2\<lparr>watch_feeds := update_where (\<lambda>x. wf_id x = wf_id s) (\<lambda>x. x\<lparr>wf_last_item := thru\<rparr>) (watch_feeds d2)\<rparr>)"

lemma feed_pass_eq:
  assumes "distinct ids"
  shows "runs (feed_pass E w head now sched ids thru s d) = runs d
      @ new_rows E (w_account w) (w_id w) (a_id head) (a_kind head) sched
          (fresh_items (w_account w) (w_id w) (a_id head) ids d) (drawn d)"
    and "watch_feeds (feed_pass E w head now sched ids thru s d) =
      update_where (\<lambda>x. wf_id x = wf_id s) (\<lambda>x. x\<lparr>wf_last_item := thru\<rparr>) (watch_feeds d)"
    and "feeds (feed_pass E w head now sched ids thru s d) = feeds d"
    and "feed_items (feed_pass E w head now sched ids thru s d) = feed_items d"
    and "actions (feed_pass E w head now sched ids thru s d) = actions d"
    and "windows (feed_pass E w head now sched ids thru s d) = windows d"
    and "run_keys (feed_pass E w head now sched ids thru s d) =
      run_keys d \<union> (\<lambda>i. (w_account w, w_id w, a_id head, i)) ` set ids"
proof -
  show rows: "runs (feed_pass E w head now sched ids thru s d) = runs d
      @ new_rows E (w_account w) (w_id w) (a_id head) (a_kind head) sched
          (fresh_items (w_account w) (w_id w) (a_id head) ids d) (drawn d)"
    "watch_feeds (feed_pass E w head now sched ids thru s d) =
      update_where (\<lambda>x. wf_id x = wf_id s) (\<lambda>x. x\<lparr>wf_last_item := thru\<rparr>) (watch_feeds d)"
    "feeds (feed_pass E w head now sched ids thru s d) = feeds d"
    "feed_items (feed_pass E w head now sched ids thru s d) = feed_items d"
    "actions (feed_pass E w head now sched ids thru s d) = actions d"
    "windows (feed_pass E w head now sched ids thru s d) = windows d"
    using assms by (simp_all add: feed_pass_def enqueue_many_eq Let_def)
  show "run_keys (feed_pass E w head now sched ids thru s d) =
      run_keys d \<union> (\<lambda>i. (w_account w, w_id w, a_id head, i)) ` set ids"
    unfolding run_keys_def[of "feed_pass _ _ _ _ _ _ _ _ _"] rows(1) set_append image_Un run_key_new_rows
    by (auto simp: fresh_items_def run_keys_def)
qed

lemma trigger_feeds_cases:
  assumes "trigger_feeds E w head interval now (s # ss) opened scanned enq d = (Inr out, d')"
    and "item_table d"
  obtains (quiet) scanned' where "unseen (w_account w) s d = {}" "mark (w_account w) s d = wf_last_item s"
      "trigger_feeds E w head interval now ss opened scanned' enq d = (Inr out, d')"
  | (busy) sched opened' d1 ids thru n where
      "digest_scheduled_at E (w_account w) (a_id head) interval now opened d = (sched, opened', d1)"
      "distinct ids" "set ids = unseen (w_account w) s d" "mark (w_account w) s d = thru"
      "n = length (fresh_items (w_account w) (w_id w) (a_id head) ids d1)"
      "trigger_feeds E w head interval now ss opened' (Suc scanned) (enq + n) (feed_pass E w head now sched ids thru s d1)
         = (Inr out, d')"
proof (cases "feed_global_get (wf_feed s) d")
  case (Inl e)
  then show ?thesis using assms by (intro quiet[of scanned]) (simp_all add: unseen_def mark_def)
next
  case (Inr fd)
  let ?acct = "w_account w"
  obtain newest where newest: "newest_item_id ?acct fd d = Inr newest"
    using assms Inr by (auto simp: Let_def split: sum.splits)
  show ?thesis
  proof (cases newest)
    case None
    then have "sort (feed_item_ids ?acct (f_id fd) d) = []"
      using newest by (auto simp: newest_item_id_def order_by_desc_def split: if_splits)
    then have "set (feed_item_ids ?acct (f_id fd) d) = {}" by (metis set_sort list.set(1))
    then have "feed_item_ids ?acct (f_id fd) d = []" by (simp only: set_empty)
    then show ?thesis using assms Inr newest None
      by (intro quiet[of "Suc scanned"]) (simp_all add: unseen_def mark_def Let_def)
  next
    case (Some thru)
    show ?thesis
    proof (cases "wf_last_item s = thru")
      case True
      then have "unseen ?acct s d = {}"
        using newest_is_max(2)[of ?acct fd d thru] newest Some Inr by (auto simp: unseen_def)
      then show ?thesis using assms Inr newest Some True
        by (intro quiet[of "Suc scanned"]) (simp_all add: mark_def Let_def)
    next
      case False
      obtain sched opened' d1 where sd: "digest_scheduled_at E ?acct (a_id head) interval now opened d = (sched, opened', d1)"
        by (metis prod_cases3)
      note tabs = digest_scheduled_at_tables[OF sd]
      note reads = feed_reads_cong[OF tabs(2,3)]
      obtain ids where ids: "iter_item_ids_in_window ?acct fd (wf_last_item s) thru d1 = Inr ids"
        using assms Inr newest Some False sd by (auto simp: Let_def split: sum.splits)
      have "item_table d1" using assms(2) tabs by (simp add: item_table_def)
      then have win: "distinct ids" "set ids = unseen ?acct s d"
        using window_ids_are_unseen[of d1 ?acct fd thru "wf_last_item s" ids] ids newest Some Inr reads
        by (simp_all add: unseen_def)
      have acct: "wf_account s = ?acct"
        using assms Inr newest Some False sd ids win(1)
        by (auto simp: Let_def enqueue_many_eq advance_watermark_def split: if_splits)
      show ?thesis
        by (rule busy[OF sd win])
          (use assms Inr newest Some False sd ids win(1) acct in
            \<open>auto simp: mark_def Let_def enqueue_many_eq advance_watermark_def feed_pass_def\<close>)
    qed
  qed
qed

text \<open>What a whole pass over the subscriptions leaves, when it does not raise.\<close>

definition marked :: "ulid \<Rightarrow> db \<Rightarrow> watch_feed \<Rightarrow> watch_feed" where
  "marked acct d s = s\<lparr>wf_last_item := mark acct s d\<rparr>"

lemma marked_id [simp]: "wf_id (marked acct d s) = wf_id s" "wf_feed (marked acct d s) = wf_feed s"
  "wf_account (marked acct d s) = wf_account s" "wf_watch (marked acct d s) = wf_watch s"
  "wf_last_item (marked acct d s) = mark acct s d"
  by (simp_all add: marked_def)

lemma marked_same: "mark acct s d = wf_last_item s \<Longrightarrow> marked acct d s = s"
  by (simp add: marked_def)

lemma trigger_feeds_frame:
  assumes "trigger_feeds E w head interval now ss opened scanned enq d = (Inr (sc, n), d')" "item_table d"
  shows "feeds d' = feeds d \<and> feed_items d' = feed_items d \<and> actions d' = actions d \<and> watches d' = watches d"
  using assms
proof (induction ss arbitrary: opened scanned enq d)
  case (Cons s ss)
  from Cons.prems show ?case
  proof (cases rule: trigger_feeds_cases)
    case (quiet scanned')
    then show ?thesis using Cons.IH Cons.prems(2) by blast
  next
    case (busy sched opened' d1 ids thru m)
    let ?d2 = "feed_pass E w head now sched ids thru s d1"
    note tabs = digest_scheduled_at_tables[OF busy(1)] feed_pass_eq[OF busy(2), of E w head now sched thru s d1]
    have "watches ?d2 = watches d1" using busy(2) by (simp add: feed_pass_def enqueue_many_eq Let_def)
    then show ?thesis using Cons.IH[OF busy(6)] Cons.prems(2) tabs by (simp add: item_table_def)
  qed
qed simp

lemma trigger_feeds_runs:
  assumes "trigger_feeds E w head interval now ss opened scanned enq d = (Inr (sc, n), d')" "item_table d"
  shows "\<exists>rs. runs d' = runs d @ rs \<and> n = enq + length rs \<and> (\<forall>r \<in> set rs. r_state r = PENDING \<and> r_attempts r = 0)"
    and "run_keys d' = run_keys d \<union>
      (\<Union>s \<in> set ss. (\<lambda>i. (w_account w, w_id w, a_id head, i)) ` unseen (w_account w) s d)"
proof -
  have "(\<exists>rs. runs d' = runs d @ rs \<and> n = enq + length rs \<and> (\<forall>r \<in> set rs. r_state r = PENDING \<and> r_attempts r = 0))
    \<and> run_keys d' = run_keys d \<union> (\<Union>s \<in> set ss. (\<lambda>i. (w_account w, w_id w, a_id head, i)) ` unseen (w_account w) s d)"
    using assms
  proof (induction ss arbitrary: opened scanned enq d)
    case (Cons s ss)
    from Cons.prems show ?case
    proof (cases rule: trigger_feeds_cases)
      case (quiet scanned')
      then show ?thesis using Cons.IH[OF quiet(3) Cons.prems(2)] by simp
    next
      case (busy sched opened' d1 ids thru m)
      let ?d2 = "feed_pass E w head now sched ids thru s d1"
      let ?rs = "new_rows E (w_account w) (w_id w) (a_id head) (a_kind head) sched
          (fresh_items (w_account w) (w_id w) (a_id head) ids d1) (drawn d1)"
      note t1 = digest_scheduled_at_tables[OF busy(1)]
      note t2 = feed_pass_eq[OF busy(2), of E w head now sched thru s d1]
      have same: "unseen (w_account w) x ?d2 = unseen (w_account w) x d" for x
        by (rule feed_reads_cong) (simp_all add: t1 t2)
      have keys: "run_keys d1 = run_keys d" by (simp add: run_keys_def t1)
      have new: "r_state r = PENDING \<and> r_attempts r = 0" if "r \<in> set ?rs" for r
        using new_rows_in[OF that] by auto
      obtain rs where rs: "runs d' = runs ?d2 @ rs" "n = enq + m + length rs"
          "\<forall>r \<in> set rs. r_state r = PENDING \<and> r_attempts r = 0"
        and ks: "run_keys d' = run_keys ?d2 \<union>
          (\<Union>s \<in> set ss. (\<lambda>i. (w_account w, w_id w, a_id head, i)) ` unseen (w_account w) s ?d2)"
        using Cons.IH[OF busy(6)] Cons.prems(2) t1 t2 by (auto simp: item_table_def)
      have "length ?rs = m" by (simp add: busy(5) new_rows_def)
      then have "runs d' = runs d @ (?rs @ rs)" "n = enq + length (?rs @ rs)"
        using rs t1 t2(1) by simp_all
      moreover have "\<forall>r \<in> set (?rs @ rs). r_state r = PENDING \<and> r_attempts r = 0" using new rs(3) by auto
      moreover have "run_keys d' = run_keys d \<union> (\<Union>x \<in> set (s # ss).
          (\<lambda>i. (w_account w, w_id w, a_id head, i)) ` unseen (w_account w) x d)"
        unfolding ks t2(7) keys same busy(3) by auto
      ultimately show ?thesis by blast
    qed
  qed simp
  then show "\<exists>rs. runs d' = runs d @ rs \<and> n = enq + length rs \<and> (\<forall>r \<in> set rs. r_state r = PENDING \<and> r_attempts r = 0)"
    "run_keys d' = run_keys d \<union> (\<Union>s \<in> set ss. (\<lambda>i. (w_account w, w_id w, a_id head, i)) ` unseen (w_account w) s d)"
    by blast+
qed

lemma trigger_feeds_marks:
  assumes "trigger_feeds E w head interval now ss opened scanned enq d = (Inr (sc, n), d')" "item_table d"
    and "distinct (map wf_id (watch_feeds d))" "set ss \<subseteq> set (watch_feeds d)" "distinct (map wf_id ss)"
  shows "watch_feeds d' = map (\<lambda>x. if wf_id x \<in> wf_id ` set ss then marked (w_account w) d x else x) (watch_feeds d)"
  using assms
proof (induction ss arbitrary: opened scanned enq d)
  case (Cons s ss)
  let ?acct = "w_account w"
  have row: "x = s" if "x \<in> set (watch_feeds d)" "wf_id x = wf_id s" for x
    using that Cons.prems(3,4) by (auto simp: distinct_map dest: inj_onD)
  from Cons.prems(1,2) show ?case
  proof (cases rule: trigger_feeds_cases)
    case (quiet scanned')
    have "watch_feeds d' = map (\<lambda>x. if wf_id x \<in> wf_id ` set ss then marked ?acct d x else x) (watch_feeds d)"
      using Cons.IH[OF quiet(3)] Cons.prems by simp
    also have "\<dots> = map (\<lambda>x. if wf_id x \<in> wf_id ` set (s # ss) then marked ?acct d x else x) (watch_feeds d)"
    proof (intro map_cong refl)
      fix x assume x: "x \<in> set (watch_feeds d)"
      have "marked ?acct d x = x" if "wf_id x = wf_id s" using row[OF x that] marked_same[OF quiet(2)] by simp
      then show "(if wf_id x \<in> wf_id ` set ss then marked ?acct d x else x) =
          (if wf_id x \<in> wf_id ` set (s # ss) then marked ?acct d x else x)" by auto
    qed
    finally show ?thesis .
  next
    case (busy sched opened' d1 ids thru m)
    let ?d2 = "feed_pass E w head now sched ids thru s d1"
    let ?f = "\<lambda>x. if wf_id x = wf_id s then x\<lparr>wf_last_item := thru\<rparr> else x"
    note t1 = digest_scheduled_at_tables[OF busy(1)]
    note t2 = feed_pass_eq[OF busy(2), of E w head now sched thru s d1]
    have wf: "watch_feeds ?d2 = map ?f (watch_feeds d)" by (simp add: t1 t2 update_where_def)
    have same: "marked ?acct ?d2 x = marked ?acct d x" for x
      using feed_reads_cong(5)[of ?d2 d] by (simp add: marked_def t1 t2)
    have ids2: "map wf_id (watch_feeds ?d2) = map wf_id (watch_feeds d)" by (simp add: wf)
    have sub: "set ss \<subseteq> set (watch_feeds ?d2)"
    proof
      fix x assume x: "x \<in> set ss"
      then have "wf_id x \<in> wf_id ` set ss" by (rule imageI)
      then have "wf_id x \<noteq> wf_id s" using Cons.prems(5) by (metis distinct.simps(2) list.simps(9) set_map)
      with x Cons.prems(4) show "x \<in> set (watch_feeds ?d2)" by (force simp: wf)
    qed
    have "watch_feeds d' = map (\<lambda>x. if wf_id x \<in> wf_id ` set ss then marked ?acct ?d2 x else x) (watch_feeds ?d2)"
      using Cons.IH[OF busy(6) _ _ sub] Cons.prems(2,3,5) ids2 t1 t2 by (simp add: item_table_def)
    also have "\<dots> = map (\<lambda>x. if wf_id x \<in> wf_id ` set ss then marked ?acct d (?f x) else ?f x) (watch_feeds d)"
      by (auto simp: wf same)
    also have "\<dots> = map (\<lambda>x. if wf_id x \<in> wf_id ` set (s # ss) then marked ?acct d x else x) (watch_feeds d)"
    proof (intro map_cong refl)
      fix x assume x: "x \<in> set (watch_feeds d)"
      show "(if wf_id x \<in> wf_id ` set ss then marked ?acct d (?f x) else ?f x) =
          (if wf_id x \<in> wf_id ` set (s # ss) then marked ?acct d x else x)"
      proof (cases "wf_id x = wf_id s")
        case True
        with row[OF x] have "x = s" by simp
        then show ?thesis using Cons.prems(5) by (auto simp: marked_def busy(4))
      qed simp
    qed
    finally show ?thesis .
  qed
qed simp

text \<open>A subscription at the head of its feed is passed over, so a second pass writes nothing.\<close>

definition at_head :: "ulid \<Rightarrow> db \<Rightarrow> watch_feed \<Rightarrow> bool" where
  "at_head acct d s \<longleftrightarrow> (case feed_global_get (wf_feed s) d of Inl _ \<Rightarrow> True
     | Inr fd \<Rightarrow> newest_item_id acct fd d = Inr None \<or> newest_item_id acct fd d = Inr (Some (wf_last_item s)))"

lemma at_head_cong:
  assumes "feeds d = feeds d'" "feed_items d = feed_items d'"
  shows "at_head acct d s = at_head acct d' s" "marked acct d s = marked acct d' s"
  unfolding at_head_def marked_def
  by (simp_all only: feed_reads_cong(1,2)[OF assms] feed_reads_cong(5)[OF assms])

lemma trigger_feeds_quiet:
  "\<forall>s \<in> set ss. at_head (w_account w) d s \<Longrightarrow>
   \<exists>sc. trigger_feeds E w head interval now ss opened scanned enq d = (Inr (sc, enq), d)"
proof (induction ss arbitrary: scanned)
  case (Cons s ss)
  then have "at_head (w_account w) d s" by simp
  then show ?case using Cons
    by (auto simp: at_head_def Let_def split: sum.splits)
qed simp

lemma trigger_feeds_readable:
  assumes "trigger_feeds E w head interval now ss opened scanned enq d = (Inr out, d')" "item_table d"
  shows "\<forall>s \<in> set ss. at_head (w_account w) d (marked (w_account w) d s)"
  using assms
proof (induction ss arbitrary: opened scanned enq d)
  case (Cons s ss)
  let ?acct = "w_account w"
  have "at_head ?acct d (marked ?acct d s)"
  proof (cases "feed_global_get (wf_feed s) d")
    case (Inr fd)
    then obtain newest where "newest_item_id ?acct fd d = Inr newest"
      using Cons.prems(1) by (cases "newest_item_id ?acct fd d") (auto simp: Let_def)
    with Inr show ?thesis by (cases newest) (simp_all add: at_head_def mark_def)
  qed (simp add: at_head_def)
  moreover from Cons.prems have "\<forall>s \<in> set ss. at_head ?acct d (marked ?acct d s)"
  proof (cases rule: trigger_feeds_cases)
    case (quiet scanned')
    then show ?thesis using Cons.IH Cons.prems(2) by blast
  next
    case (busy sched opened' d1 ids thru m)
    let ?d2 = "feed_pass E w head now sched ids thru s d1"
    note t1 = digest_scheduled_at_tables[OF busy(1)]
    note t2 = feed_pass_eq[OF busy(2), of E w head now sched thru s d1]
    have "feeds ?d2 = feeds d" "feed_items ?d2 = feed_items d" by (simp_all add: t1 t2)
    note same = at_head_cong[OF this]
    have "item_table ?d2" using Cons.prems(2) by (simp add: item_table_def t1 t2)
    from Cons.IH[OF busy(6) this] show ?thesis by (simp only: same)
  qed
  ultimately show ?case by simp
qed simp

subsection \<open>A watch\<close>

text \<open>What a successful pass of one watch was: an empty chain, or a pass of the head over every subscription.\<close>

lemma trigger_run_cases:
  assumes "trigger_run E w now d = (Inr (sc, n), d')"
  obtains (empty) "list_for_path (w_account w) (w_initial_path w) d = []" "d' = d" "n = 0"
  | (head) head rest cfg interval where "list_for_path (w_account w) (w_initial_path w) d = head # rest"
      "load_config E head = Inr cfg"
      "interval = (if is_digest cfg then Some (digest_interval cfg) else None)"
      "trigger_feeds E w head interval now
         (order_by wf_id (subscriptions (w_account w) (w_id w) d)) None 0 0 d = (Inr (sc, n), d')"
proof -
  have path: "w_initial_path w \<noteq> blank"
    using assms by (auto simp: trigger_run_def initial_actions_def split: if_splits)
  show thesis
  proof (cases "list_for_path (w_account w) (w_initial_path w) d")
    case Nil
    then have "d' = d \<and> n = 0" using assms path
      by (simp add: trigger_run_def initial_actions_def split: if_splits)
    with Nil show thesis by (intro empty) simp_all
  next
    case (Cons head rest)
    obtain cfg where "load_config E head = Inr cfg"
      using assms path Cons by (cases "load_config E head") (simp_all add: trigger_run_def initial_actions_def)
    then show thesis using assms path Cons
      by (intro head[OF Cons _ refl]) (simp_all add: trigger_run_def initial_actions_def list_watch_feeds_def)
  qed
qed

lemma trigger_run_again:
  assumes run: "trigger_run E w now d = (Inr (sc, n), d')" and "item_table d"
    and ids: "distinct (map wf_id (watch_feeds d))"
  shows "\<exists>sc'. trigger_run E w later d' = (Inr (sc', 0), d')"
  using run
proof (cases rule: trigger_run_cases)
  case empty
  with run show ?thesis by (simp add: trigger_run_def initial_actions_def split: if_splits)
next
  case (head head rest cfg interval)
  let ?acct = "w_account w" let ?ss = "order_by wf_id (subscriptions ?acct (w_id w) d)"
  have sub: "set ?ss \<subseteq> set (watch_feeds d)" by (auto simp: subscriptions_def order_by_def)
  have "distinct (map wf_id (subscriptions ?acct (w_id w) d))"
    using ids by (simp add: subscriptions_def distinct_map_filter)
  then have "distinct (map wf_id ?ss)" by (simp add: order_by_def distinct_map)
  note marks = trigger_feeds_marks[OF head(4) assms(2) ids sub this]
  note frame = trigger_feeds_frame[OF head(4) assms(2)]
  have heads: "at_head ?acct d' x" if x: "x \<in> set (subscriptions ?acct (w_id w) d')" for x
  proof -
    obtain y where y: "y \<in> set (watch_feeds d)" "x = (if wf_id y \<in> wf_id ` set ?ss then marked ?acct d y else y)"
        "wf_account x = ?acct" "wf_watch x = w_id w"
      using x unfolding subscriptions_def marks by auto
    then have "wf_account y = ?acct" "wf_watch y = w_id w" by (auto split: if_splits)
    with y(1) have "y \<in> set ?ss" by (simp add: subscriptions_def order_by_def)
    with y(2) have "x = marked ?acct d y" by simp
    then have "at_head ?acct d x" using trigger_feeds_readable[OF head(4) assms(2)] \<open>y \<in> set ?ss\<close> by simp
    then show ?thesis using at_head_cong(1)[of d' d ?acct x] frame by simp
  qed
  have chain: "list_for_path ?acct (w_initial_path w) d' = head # rest"
    using head(1) frame by (simp add: list_for_path_def)
  have "w_initial_path w \<noteq> blank"
    using run by (auto simp: trigger_run_def initial_actions_def split: if_splits)
  moreover obtain sc' where "trigger_feeds E w head interval later
      (order_by wf_id (subscriptions ?acct (w_id w) d')) None 0 0 d' = (Inr (sc', 0), d')"
    using trigger_feeds_quiet[of "order_by wf_id (subscriptions ?acct (w_id w) d')" w d' E head interval later None 0 0]
      heads by auto
  ultimately show ?thesis using chain head(2,3)
    by (simp add: trigger_run_def initial_actions_def list_watch_feeds_def)
qed

text \<open>A second trigger pass right after a successful one does nothing: no run, no watermark and no window
  changes, so overlapping or repeated passes cost nothing.\<close>

lemma trigger_idempotent:
  assumes "trigger_run E w now d = (Inr (scanned, n), d')" "item_table d" "distinct (map wf_id (watch_feeds d))"
  shows "snd (trigger_run E w later d') = d' \<and> (\<exists>scanned'. fst (trigger_run E w later d') = Inr (scanned', 0))"
  using trigger_run_again[OF assms, of later] by auto

end
