(* ===== verification/Backfill.thy ===== *)
theory Backfill
  imports Trigger
begin

text \<open>
  The backfill flow: the job queue (services/backfills.py), one job's work (operations/backfill.py),
  the pass (process\_due\_backfills) and the endpoint that previews or queues a job
  (views\_backfill.py).

  A source set is never a list read once: \<open>resolve_present\<close> hands back a count, a subquery and a
  stream, and the last two are evaluated by the statement that uses them. They are functions of
  the database here, so that a delete in between is seen as the code sees it.
\<close>

subsection \<open>The job queue\<close>

definition stale_job :: "env \<Rightarrow> instant \<Rightarrow> backfill_job \<Rightarrow> bool" where
  "stale_job E now b \<longleftrightarrow> b_state b = BF_RUNNING \<and> null_lt (b_started b) (now - seconds (BACKFILL_STALE_SECONDS E))"

definition backfill_reap_stale :: "env \<Rightarrow> instant \<Rightarrow> db \<Rightarrow> nat \<times> db" where
  "backfill_reap_stale E now d =
     (let P1 = (\<lambda>b. stale_job E now b \<and> BACKFILL_MAX_ATTEMPTS E \<le> b_attempts b);
          exhausted = count_where P1 (backfills d);
          d1 = d\<lparr>backfills := update_where P1
                   (\<lambda>b. b\<lparr>b_state := BF_FAILED, b_error := BACKFILL_TIMED_OUT_EXHAUSTED, b_completed := Some now\<rparr>)
                   (backfills d)\<rparr>;
          P2 = (\<lambda>b. stale_job E now b \<and> b_attempts b < BACKFILL_MAX_ATTEMPTS E);
          retryable = count_where P2 (backfills d1);
          d2 = d1\<lparr>backfills := update_where P2
                   (\<lambda>b. b\<lparr>b_state := BF_FAILED, b_error := BACKFILL_TIMED_OUT, b_completed := None\<rparr>)
                   (backfills d1)\<rparr>
      in (exhausted + retryable, d2))"

definition due_job :: "env \<Rightarrow> instant \<Rightarrow> backfill_job \<Rightarrow> bool" where
  "due_job E ts b \<longleftrightarrow> b_state b \<in> BACKFILL_CLAIMABLE_STATES \<and> b_attempts b < BACKFILL_MAX_ATTEMPTS E
     \<and> null_le (b_scheduled b) ts"

definition job_schedule_key :: "backfill_job \<Rightarrow> instant" where
  "job_schedule_key b = (case b_scheduled b of Some t \<Rightarrow> t | None \<Rightarrow> 0)"

definition backfill_candidates :: "env \<Rightarrow> instant \<Rightarrow> db \<Rightarrow> backfill_job list" where
  "backfill_candidates E ts d = order_by job_schedule_key (filter (due_job E ts) (backfills d))"

definition get_job :: "ulid \<Rightarrow> db \<Rightarrow> backfill_job option" where
  "get_job jid d = first (filter (\<lambda>b. b_id b = jid) (backfills d))"

definition claim_job_row :: "instant \<Rightarrow> backfill_job \<Rightarrow> backfill_job" where
  "claim_job_row ts b = b\<lparr>b_state := BF_RUNNING, b_started := Some ts, b_attempts := Suc (b_attempts b)\<rparr>"

definition backfill_claim_one :: "env \<Rightarrow> instant \<Rightarrow> backfill_job \<Rightarrow> db \<Rightarrow> backfill_job option \<times> db" where
  "backfill_claim_one E ts cand d =
     (let P = (\<lambda>b. b_id b = b_id cand \<and> b_state b = b_state cand \<and> b_attempts b < BACKFILL_MAX_ATTEMPTS E);
          d' = d\<lparr>backfills := update_where P (claim_job_row ts) (backfills d)\<rparr>
      in if count_where P (backfills d) = 0 then (None, d') else (get_job (b_id cand) d', d'))"

definition backfill_create :: "env \<Rightarrow> ulid \<Rightarrow> ulid \<Rightarrow> ulid \<Rightarrow> ulid \<Rightarrow> bool \<Rightarrow> string \<Rightarrow> bool \<Rightarrow> instant run_windows
    \<Rightarrow> instant \<Rightarrow> db \<Rightarrow> backfill_job \<times> db" where
  "backfill_create E acct wat target source is_head kind rep ws scheduled d =
     (let (jid, d1) = new_id E d;
          job = \<lparr>b_id = jid, b_account = acct, b_watch = wat, b_target = target, b_source = source,
                 b_is_head = is_head, b_kind = kind, b_replace = rep,
                 b_occ_since = occurred_since ws, b_occ_until = occurred_until ws,
                 b_comp_since = completed_since ws, b_comp_until = completed_until ws,
                 b_state = BF_PENDING, b_matched = 0, b_present = 0, b_pruned = 0, b_deleted = 0, b_enqueued = 0,
                 b_replace_deleted_at = None, b_scheduled = Some scheduled, b_started = None, b_completed = None,
                 b_error = '''', b_attempts = 0\<rparr>
      in (job, d1\<lparr>backfills := backfills d1 @ [job]\<rparr>))"

definition backfill_get :: "ulid \<Rightarrow> ulid \<Rightarrow> db \<Rightarrow> exn + backfill_job" where
  "backfill_get acct jid d =
     (case first (filter (\<lambda>b. b_id b = jid \<and> b_account b = acct) (backfills d)) of
        None \<Rightarrow> Inl DoesNotExist | Some b \<Rightarrow> Inr b)"

definition backfill_list :: "ulid \<Rightarrow> ulid option \<Rightarrow> nat \<Rightarrow> db \<Rightarrow> backfill_job list" where
  "backfill_list acct after lmt d = page_desc b_id after lmt (filter (\<lambda>b. b_account b = acct) (backfills d))"

interpretation backfill_pages: newest_first "\<lambda>after lmt. backfill_list acct after lmt d" b_id
    "filter (\<lambda>b. b_account b = acct) (backfills d)" for acct d
  by unfold_locales (simp add: backfill_list_def)

text \<open>\<open>BackfillListView.get\<close>: a page and the cursor of the next, when the page is full.\<close>

definition backfill_list_view :: "ulid \<Rightarrow> ulid option \<Rightarrow> nat \<Rightarrow> db \<Rightarrow> backfill_job list \<times> ulid option" where
  "backfill_list_view acct after lmt d =
     (let jobs = backfill_list acct after lmt d
      in (jobs, if length jobs = lmt then map_option b_id (first (rev jobs)) else None))"

subsection \<open>The source of a backfill\<close>

record resolved_present =
  rp_matched :: nat
  rp_present :: nat
  rp_subquery :: "db \<Rightarrow> ulid set"
  rp_stream :: "db \<Rightarrow> ulid list"

text \<open>A source given as a query on the item table: its subquery and its keyset stream.\<close>

definition source_of :: "nat \<Rightarrow> nat \<Rightarrow> (db \<Rightarrow> feed_item list) \<Rightarrow> resolved_present" where
  "source_of matched n qs =
     \<lparr>rp_matched = matched, rp_present = n, rp_subquery = (\<lambda>d. i_id ` set (qs d)),
      rp_stream = (\<lambda>d. iter_ids_keyset (qs d))\<rparr>"

definition resolve_present :: "ulid \<Rightarrow> ulid \<Rightarrow> bool \<Rightarrow> ulid \<Rightarrow> instant run_windows \<Rightarrow> db
    \<Rightarrow> exn + resolved_present" where
  "resolve_present acct source is_head wat ws d =
     (if is_head then
        (case watch_get acct wat d of
           Inl e \<Rightarrow> Inl e
         | Inr w \<Rightarrow>
             (case feed_ids acct w d of
                Inl e \<Rightarrow> Inl e
              | Inr fids \<Rightarrow>
                  (let window = occurred_window_items acct (set fids) (occurred_since ws) (occurred_until ws)
                   in case window d of
                        Inl e \<Rightarrow> Inl e
                      | Inr items \<Rightarrow>
                          Inr (source_of (length items) (length items)
                                 (\<lambda>d'. case window d' of Inl _ \<Rightarrow> [] | Inr qs \<Rightarrow> qs)))))
      else
        (let qs = (\<lambda>d'. existing_items acct (succeeded_feed_item_ids acct source ws d') d')
         in Inr (source_of (count_succeeded_feed_items acct source ws d) (length (qs d)) qs)))"

subsection \<open>The chain below an action\<close>

text \<open>The walk ends because \<open>next_in_chain\<close> goes to a strictly greater rank of the same path.\<close>

definition ranks_above :: "watch_action \<Rightarrow> db \<Rightarrow> nat" where
  "ranks_above a d = length (filter (\<lambda>x. a_path x = a_path a \<and> a_rank a < a_rank x) (actions d))"

lemma ranks_above_next:
  assumes "next_in_chain acct a d = Some b"
  shows "ranks_above b d < ranks_above a d"
proof -
  have b: "b \<in> set (actions d)" "a_path b = a_path a" "a_rank a < a_rank b"
    using next_in_chain_SomeD[OF assms] by simp_all
  have "filter (\<lambda>x. a_path x = a_path b \<and> a_rank b < a_rank x) (actions d)
      = filter (\<lambda>x. a_path x = a_path b \<and> a_rank b < a_rank x)
          (filter (\<lambda>x. a_path x = a_path a \<and> a_rank a < a_rank x) (actions d))"
    using b by (auto intro!: filter_cong)
  also have "length \<dots> < length (filter (\<lambda>x. a_path x = a_path a \<and> a_rank a < a_rank x) (actions d))"
    using b by (intro length_filter_less[of b]) auto
  finally show ?thesis by (simp add: ranks_above_def)
qed

function chain_from :: "ulid \<Rightarrow> watch_action \<Rightarrow> db \<Rightarrow> watch_action list" where
  "chain_from acct action d =
     action # (case next_in_chain acct action d of None \<Rightarrow> [] | Some nxt \<Rightarrow> chain_from acct nxt d)"
  by pat_completeness auto
termination
  by (relation "measure (\<lambda>(acct, a, d). ranks_above a d)") (simp_all add: ranks_above_next)

declare chain_from.simps [simp del]

subsection \<open>One job\<close>

record backfill_counts =
  bc_matched :: nat
  bc_present :: nat
  bc_pruned :: int
  bc_deleted :: nat
  bc_enqueued :: nat

definition job_windows :: "backfill_job \<Rightarrow> instant run_windows" where
  "job_windows b = \<lparr>occurred_since = b_occ_since b, occurred_until = b_occ_until b,
                    completed_since = b_comp_since b, completed_until = b_comp_until b\<rparr>"

text \<open>The claim guard of every write to the job: still \<open>RUNNING\<close> under this worker's attempt.\<close>

definition job_guard :: "backfill_job \<Rightarrow> backfill_job \<Rightarrow> bool" where
  "job_guard job b \<longleftrightarrow> b_id b = b_id job \<and> b_state b = BF_RUNNING \<and> b_attempts b = b_attempts job"

fun delete_along :: "ulid \<Rightarrow> ulid \<Rightarrow> (db \<Rightarrow> ulid set) \<Rightarrow> watch_action list \<Rightarrow> db \<Rightarrow> nat \<times> db" where
  "delete_along acct wat sub [] d = (0, d)"
| "delete_along acct wat sub (a # as) d =
     (let (n, d1) = delete_terminal_for_action acct (a_id a) wat (sub d) d;
          (m, d2) = delete_along acct wat sub as d1
      in (n + m, d2))"

definition stamp_job :: "instant \<Rightarrow> nat \<Rightarrow> backfill_job \<Rightarrow> backfill_job" where
  "stamp_job now deleted b = b\<lparr>b_replace_deleted_at := Some now, b_deleted := deleted\<rparr>"

text \<open>\<open>\_delete\_phase\<close>: the count, the operation's own copy of the job, the database.\<close>

definition delete_phase :: "backfill_job \<Rightarrow> watch_action \<Rightarrow> (db \<Rightarrow> ulid set) \<Rightarrow> instant \<Rightarrow> db
    \<Rightarrow> nat \<times> backfill_job \<times> db" where
  "delete_phase job target sub now d =
     (if \<not> b_replace job then (0, job, d)
      else if b_replace_deleted_at job \<noteq> None then (b_deleted job, job, d)
      else
        (let (deleted, d1) = delete_along (b_account job) (b_watch job) sub (chain_from (b_account job) target d) d;
             d2 = d1\<lparr>backfills := update_where (job_guard job) (stamp_job now deleted) (backfills d1)\<rparr>
         in (deleted, stamp_job now deleted job, d2)))"

definition finish_row :: "env \<Rightarrow> backfill_state \<Rightarrow> backfill_counts option \<Rightarrow> string \<Rightarrow> bool \<Rightarrow> instant
    \<Rightarrow> backfill_job \<Rightarrow> backfill_job" where
  "finish_row E st counts err exhaust now b =
     (let b1 = b\<lparr>b_state := st, b_error := err, b_completed := Some now\<rparr>;
          b2 = (case counts of None \<Rightarrow> b1 | Some c \<Rightarrow>
                  b1\<lparr>b_matched := bc_matched c, b_present := bc_present c, b_pruned := bc_pruned c,
                     b_deleted := bc_deleted c, b_enqueued := bc_enqueued c\<rparr>)
      in if exhaust then b2\<lparr>b_attempts := BACKFILL_MAX_ATTEMPTS E\<rparr> else b2)"

text \<open>What a win mirrors onto the operation's copy: the written fields, the attempts apart.\<close>

definition finish_job :: "env \<Rightarrow> backfill_job \<Rightarrow> backfill_state \<Rightarrow> backfill_counts option \<Rightarrow> string \<Rightarrow> bool
    \<Rightarrow> instant \<Rightarrow> db \<Rightarrow> backfill_job \<times> db" where
  "finish_job E job st counts err exhaust now d =
     (let won = count_where (job_guard job) (backfills d);
          d' = d\<lparr>backfills := update_where (job_guard job) (finish_row E st counts err exhaust now) (backfills d)\<rparr>
      in if won = 0 then (job, d') else (finish_row E st counts err False now job, d'))"

definition fail_job :: "env \<Rightarrow> backfill_job \<Rightarrow> string \<Rightarrow> instant \<Rightarrow> db \<Rightarrow> backfill_job \<times> db" where
  "fail_job E job message now d = finish_job E job BF_FAILED None message True now d"

text \<open>
  \<open>run\<close>: \<open>Inr None\<close> is a job failed for good, \<open>Inl\<close> an unexpected error that leaves the job to the
  reaper. The stream is read while the enqueue inserts \<open>PENDING\<close> rows of the target, which no
  source query selects, so it yields what it would before the first insert.
\<close>

definition backfill_run :: "env \<Rightarrow> backfill_job \<Rightarrow> instant \<Rightarrow> db
    \<Rightarrow> (exn + backfill_counts option) \<times> backfill_job \<times> db" where
  "backfill_run E job now d =
     (let acct = b_account job
      in case action_get acct (b_target job) d of
           Inl _ \<Rightarrow> (let (job', d') = fail_job E job BACKFILL_TARGET_GONE now d in (Inr None, job', d'))
         | Inr target \<Rightarrow>
             (case resolve_present acct (b_source job) (b_is_head job) (b_watch job) (job_windows job) d of
                Inl DoesNotExist \<Rightarrow>
                  (let (job', d') = fail_job E job BACKFILL_WATCH_GONE now d in (Inr None, job', d'))
              | Inl e \<Rightarrow> (Inl e, job, d)
              | Inr present \<Rightarrow>
                  (let (deleted, job1, d1) = delete_phase job target (rp_subquery present) now d
                   in case enqueue_many E acct (b_watch job) (a_id target) (a_kind target) now
                             (rp_stream present d1) d1 of
                        (Inl e, d2) \<Rightarrow> (Inl e, job1, d2)
                      | (Inr n, d2) \<Rightarrow>
                          (let counts = \<lparr>bc_matched = rp_matched present, bc_present = rp_present present,
                                         bc_pruned = int (rp_matched present) - int (rp_present present),
                                         bc_deleted = deleted, bc_enqueued = n\<rparr>;
                               (job2, d3) = finish_job E job1 BF_DONE (Some counts) '''' False now d2
                           in (Inr (Some counts), job2, d3)))))"

subsection \<open>The pass\<close>

record backfill_pass =
  bp_reaped :: nat
  bp_done :: nat
  bp_failed :: nat
  bp_infra :: nat

fun backfill_all :: "env \<Rightarrow> instant \<Rightarrow> backfill_job list \<Rightarrow> backfill_pass \<Rightarrow> db \<Rightarrow> backfill_pass \<times> db" where
  "backfill_all E now [] p d = (p, d)"
| "backfill_all E now (c # cs) p d =
     (case backfill_claim_one E now c d of
        (None, d1) \<Rightarrow> backfill_all E now cs p d1
      | (Some job, d1) \<Rightarrow>
          (case backfill_run E job now d1 of
             (Inl _, _, d2) \<Rightarrow> backfill_all E now cs (p\<lparr>bp_infra := Suc (bp_infra p)\<rparr>) d2
           | (Inr None, _, d2) \<Rightarrow> backfill_all E now cs (p\<lparr>bp_failed := Suc (bp_failed p)\<rparr>) d2
           | (Inr (Some _), _, d2) \<Rightarrow> backfill_all E now cs (p\<lparr>bp_done := Suc (bp_done p)\<rparr>) d2))"

definition process_due_backfills :: "env \<Rightarrow> instant \<Rightarrow> db \<Rightarrow> backfill_pass \<times> db" where
  "process_due_backfills E now d =
     (let (reaped, d1) = backfill_reap_stale E now d
      in backfill_all E now (backfill_candidates E now d1)
           \<lparr>bp_reaped = reaped, bp_done = 0, bp_failed = 0, bp_infra = 0\<rparr> d1)"

subsection \<open>The endpoint\<close>

record backfill_preview =
  pv_source :: ulid
  pv_is_head :: bool
  pv_replace :: bool
  pv_matched :: nat
  pv_present :: nat
  pv_pruned :: int
  pv_would_delete :: nat
  pv_would_enqueue :: int

definition preview_backfill :: "ulid \<Rightarrow> watch_action \<Rightarrow> ulid \<Rightarrow> bool \<Rightarrow> ulid \<Rightarrow> instant run_windows \<Rightarrow> bool \<Rightarrow> db
    \<Rightarrow> exn + backfill_preview" where
  "preview_backfill acct target source is_head wat ws rep d =
     (case resolve_present acct source is_head wat ws d of
        Inl e \<Rightarrow> Inl e
      | Inr present \<Rightarrow>
          (let ids = rp_subquery present d;
               existing_count = count_runs_for_action acct (a_id target) wat ids False d;
               delete_target_count = count_runs_for_action acct (a_id target) wat ids True d
           in Inr \<lparr>pv_source = source, pv_is_head = is_head, pv_replace = rep,
                   pv_matched = rp_matched present, pv_present = rp_present present,
                   pv_pruned = int (rp_matched present) - int (rp_present present),
                   pv_would_delete =
                     (if rep then sum_list (map (\<lambda>a. count_runs_for_action acct (a_id a) wat ids True d)
                                              (chain_from acct target d))
                      else 0),
                   pv_would_enqueue =
                     (if rep then int (rp_present present) - int existing_count + int delete_target_count
                      else int (rp_present present) - int existing_count)\<rparr>))"

datatype backfill_reply =
    Windows_Error
  | Not_Found
  | Preview (preview: backfill_preview)
  | Queued (queued: backfill_job)
  | Server_Error exn

definition instants_of :: "dt run_windows \<Rightarrow> instant run_windows" where
  "instants_of ws =
     \<lparr>occurred_since = map_option instant_of (occurred_since ws),
      occurred_until = map_option instant_of (occurred_until ws),
      completed_since = map_option instant_of (completed_since ws),
      completed_until = map_option instant_of (completed_until ws)\<rparr>"

text \<open>\<open>BackfillActionView.post\<close>, its body validated by the serializer into the raw window values.\<close>

definition post_backfill :: "env \<Rightarrow> (string \<Rightarrow> dt option) \<Rightarrow> ulid \<Rightarrow> ulid \<Rightarrow> string run_windows \<Rightarrow> bool \<Rightarrow> bool
    \<Rightarrow> dt \<Rightarrow> db \<Rightarrow> backfill_reply \<times> db" where
  "post_backfill E fromiso acct aid body rep dry_run now d =
     (case action_get acct aid d of
        Inl _ \<Rightarrow> (Not_Found, d)
      | Inr target \<Rightarrow>
          (let raw = run_window_params (occurred_since body) (occurred_until body) (completed_since body)
                       (completed_until body)
           in if raw = no_windows then (Windows_Error, d)
              else case resolve_run_windows fromiso raw now of
                Inl _ \<Rightarrow> (Windows_Error, d)
              | Inr resolved \<Rightarrow>
                  (let ws = instants_of resolved;
                       prev = prev_in_chain acct target d;
                       is_head = (prev = None);
                       source = (case prev of None \<Rightarrow> blank | Some p \<Rightarrow> a_id p)
                   in if is_head \<and> (completed_since ws \<noteq> None \<or> completed_until ws \<noteq> None) then (Windows_Error, d)
                      else case watch_id_for_path acct (a_path target) d of
                        Inl e \<Rightarrow> (Server_Error e, d)
                      | Inr wat \<Rightarrow>
                          if dry_run then
                            (case preview_backfill acct target source is_head wat ws rep d of
                               Inl e \<Rightarrow> (Server_Error e, d) | Inr p \<Rightarrow> (Preview p, d))
                          else
                            (let (job, d') = backfill_create E acct wat (a_id target) source is_head (a_kind target)
                                               rep ws (instant_of now) d
                             in (Queued job, d')))))"

end
