(* ===== verification/Backfill_Facts.thy ===== *)
theory Backfill_Facts
  imports Backfill
begin

text \<open>
  What a backfill job does: the size of its source, what its delete phase removes and what its
  enqueue adds; an additive job removes nothing, a job whose marker is stamped deletes nothing
  again, and the preview announces the counts of the run. The job queue is a \<open>claim_queue\<close>.
\<close>

subsection \<open>The source\<close>

lemma iter_ids_keyset_eq:
  assumes "distinct (map i_id qs)" "blank \<notin> i_id ` set qs"
  shows "iter_ids_keyset qs = sort (map i_id qs)"
proof -
  have "filter (\<lambda>i. blank < i) (map i_id qs) = map i_id qs"
  proof (intro filter_True ballI)
    fix i assume "i \<in> set (map i_id qs)"
    with assms(2) have "i \<noteq> blank" by auto
    then show "blank < i" by (cases i) simp_all
  qed
  then show ?thesis using assms(1) by (simp add: iter_ids_keyset_def keyset_eq)
qed

lemma source_sizes:
  assumes "item_table d" "resolve_present acct source is_head wat ws d = Inr p"
  shows "distinct (rp_stream p d)" "set (rp_stream p d) = rp_subquery p d"
    "length (rp_stream p d) = rp_present p" "rp_present p \<le> rp_matched p"
proof -
  have sel: "distinct (map i_id (filter P (feed_items d)))" "blank \<notin> i_id ` set (filter P (feed_items d))" for P
    using assms(1) by (auto simp: item_table_def distinct_map_filter)
  obtain P m where p: "rp_stream p d = iter_ids_keyset (filter P (feed_items d))"
      "rp_subquery p d = i_id ` set (filter P (feed_items d))"
      "rp_present p = length (filter P (feed_items d))"
      "\<not> is_head \<Longrightarrow> P = (\<lambda>i. i_account i = acct \<and> i_id i \<in> succeeded_feed_item_ids acct source ws d)
         \<and> rp_matched p = count_succeeded_feed_items acct source ws d"
      "is_head \<Longrightarrow> rp_matched p = rp_present p"
    using assms(2)
    by (auto simp: resolve_present_def source_of_def occurred_window_items_def existing_items_def Let_def
        split: if_splits sum.splits)
  show "distinct (rp_stream p d)" "set (rp_stream p d) = rp_subquery p d" "length (rp_stream p d) = rp_present p"
    using sel by (simp_all add: p iter_ids_keyset_eq)
  show "rp_present p \<le> rp_matched p"
  proof (cases is_head)
    case False
    note np = p(4)[OF False]
    have "rp_present p = card (i_id ` set (filter P (feed_items d)))"
      using distinct_card[OF sel(1)[of P]] by (simp add: p(3))
    also have "\<dots> \<le> card (succeeded_feed_item_ids acct source ws d)"
      using np by (intro card_mono) (auto simp: succeeded_feed_item_ids_def)
    also have "\<dots> \<le> rp_matched p"
      using np by (simp add: succeeded_feed_item_ids_def count_succeeded_feed_items_def)
        (metis card_length length_map set_map)
    finally show ?thesis .
  qed (use p(5) in simp)
qed

text \<open>
  A delete that spares the runs the source selects leaves the source as it was. A head source reads
  only feed items, a predecessor source the \<open>SUCCEEDED\<close> runs of the source action.
\<close>

lemma source_kept:
  assumes "resolve_present acct source is_head wat ws d = Inr p" "feed_items d' = feed_items d"
    and "\<not> is_head \<Longrightarrow> filter (\<lambda>r. r_action r = source \<and> r_state r = SUCCEEDED) (runs d')
                = filter (\<lambda>r. r_action r = source \<and> r_state r = SUCCEEDED) (runs d)"
  shows "rp_subquery p d' = rp_subquery p d" "rp_stream p d' = rp_stream p d"
proof -
  have ids: "succeeded_feed_item_ids acct source ws d' = succeeded_feed_item_ids acct source ws d" if "\<not> is_head"
  proof -
    have "occurred_window_ids a s u d' = occurred_window_ids a s u d" for a s u
      by (simp only: occurred_window_ids_def assms(2))
    then have win: "in_run_windows acct ws d' = in_run_windows acct ws d"
      by (intro ext) (simp only: in_run_windows_def)
    have form: "succeeded_in_window acct source ws d0 =
        filter (\<lambda>r. r_account r = acct \<and> in_run_windows acct ws d0 r)
          (filter (\<lambda>r. r_action r = source \<and> r_state r = SUCCEEDED) (runs d0))" for d0
      by (auto simp: succeeded_in_window_def intro!: filter_cong)
    have "succeeded_in_window acct source ws d' = succeeded_in_window acct source ws d"
      by (simp only: form win assms(3)[OF that])
    then show ?thesis by (simp add: succeeded_feed_item_ids_def)
  qed
  have "rp_subquery p d' = rp_subquery p d \<and> rp_stream p d' = rp_stream p d"
  proof (cases is_head)
    case False
    then have "p = source_of (count_succeeded_feed_items acct source ws d)
        (length (existing_items acct (succeeded_feed_item_ids acct source ws d) d))
        (\<lambda>d'. existing_items acct (succeeded_feed_item_ids acct source ws d') d')"
      using assms(1) by (simp add: resolve_present_def Let_def)
    then show ?thesis using ids[OF False] by (simp add: source_of_def existing_items_def assms(2))
  next
    case True
    then obtain fids n where "p = source_of n n (\<lambda>d'. case occurred_window_items acct (set fids) (occurred_since ws)
        (occurred_until ws) d' of Inl _ \<Rightarrow> [] | Inr qs \<Rightarrow> qs)"
      using assms(1) by (auto simp: resolve_present_def Let_def split: sum.splits)
    then show ?thesis by (simp add: source_of_def occurred_window_items_def assms(2))
  qed
  then show "rp_subquery p d' = rp_subquery p d" "rp_stream p d' = rp_stream p d" by simp_all
qed

subsection \<open>The delete phase\<close>

definition doomed :: "ulid \<Rightarrow> ulid \<Rightarrow> ulid set \<Rightarrow> watch_action list \<Rightarrow> run \<Rightarrow> bool" where
  "doomed acct wat ids as r \<longleftrightarrow> deletable_terminal r \<and> (\<exists>a \<in> set as. run_of_items acct (a_id a) wat ids r)"

lemma delete_delete: "delete_where P (delete_where Q rows) = delete_where (\<lambda>r. Q r \<or> P r) rows"
  by (auto simp: delete_where_def intro!: filter_cong)

lemma count_where_delete:
  "(\<And>r. r \<in> set rows \<Longrightarrow> Q r \<Longrightarrow> \<not> P r) \<Longrightarrow> count_where P (delete_where Q rows) = count_where P rows"
  by (induction rows) auto

lemma delete_along_eq:
  assumes sub: "\<And>P. (\<And>r. P r \<Longrightarrow> \<exists>a \<in> set as. r_action r = a_id a) \<Longrightarrow>
      sub (d\<lparr>runs := delete_where P (runs d)\<rparr>) = ids"
    and "distinct (map a_id as)"
  shows "delete_along acct wat sub as d =
      (sum_list (map (\<lambda>a. count_runs_for_action acct (a_id a) wat ids True d) as),
       d\<lparr>runs := delete_where (doomed acct wat ids as) (runs d)\<rparr>)"
  using assms
proof (induction as arbitrary: d)
  case Nil
  then show ?case by (simp add: doomed_def delete_where_never)
next
  case (Cons a as)
  let ?P = "\<lambda>r. deletable_terminal r \<and> run_of_items acct (a_id a) wat ids r"
  let ?d1 = "d\<lparr>runs := delete_where ?P (runs d)\<rparr>"
  have "delete_where (\<lambda>_. False) (runs d) = runs d" by (simp add: delete_where_def)
  then have ids: "sub d = ids" using Cons.prems(1)[of "\<lambda>_. False"] by simp
  have step: "delete_terminal_for_action acct (a_id a) wat (sub d) d = (count_where ?P (runs d), ?d1)"
    by (simp add: delete_terminal_for_action_def ids Let_def)
  have sub1: "sub (?d1\<lparr>runs := delete_where P (runs ?d1)\<rparr>) = ids"
    if P: "\<And>r. P r \<Longrightarrow> \<exists>b \<in> set as. r_action r = a_id b" for P
    using Cons.prems(1)[of "\<lambda>r. ?P r \<or> P r"] P by (auto simp: delete_delete run_of_items_def)
  have ih: "delete_along acct wat sub as ?d1 =
      (sum_list (map (\<lambda>a. count_runs_for_action acct (a_id a) wat ids True ?d1) as),
       ?d1\<lparr>runs := delete_where (doomed acct wat ids as) (runs ?d1)\<rparr>)"
    using Cons.prems(2) by (intro Cons.IH sub1) auto
  have same: "count_runs_for_action acct (a_id b) wat ids True ?d1 = count_runs_for_action acct (a_id b) wat ids True d"
    if "b \<in> set as" for b
  proof -
    have "a_id b \<in> a_id ` set as" using that by (rule imageI)
    then have "a_id b \<noteq> a_id a" using Cons.prems(2) by (metis distinct.simps(2) list.simps(9) set_map)
    then show ?thesis by (auto simp: count_runs_for_action_def run_of_items_def intro!: count_where_delete)
  qed
  have "count_where ?P (runs d) = count_runs_for_action acct (a_id a) wat ids True d"
    by (auto simp: count_runs_for_action_def intro!: count_where_cong)
  moreover have "delete_where (doomed acct wat ids as) (runs ?d1) = delete_where (doomed acct wat ids (a # as)) (runs d)"
    by (auto simp: delete_delete doomed_def delete_where_def intro!: filter_cong)
  moreover have "map (\<lambda>b. count_runs_for_action acct (a_id b) wat ids True ?d1) as
      = map (\<lambda>b. count_runs_for_action acct (a_id b) wat ids True d) as"
    using same by (intro map_cong refl)
  ultimately show ?case by (simp add: step ih Let_def del: map_eq_conv)
qed

subsection \<open>The chain walked\<close>

lemma chain_from_ranks:
  "a \<in> set (chain_from acct target d) \<Longrightarrow>
     a = target \<or> (a \<in> set (actions d) \<and> a_account a = acct \<and> a_path a = a_path target \<and> a_rank target < a_rank a)"
proof (induction acct target d arbitrary: rule: chain_from.induct)
  case (1 acct target d)
  show ?case
  proof (cases "next_in_chain acct target d")
    case None
    with "1.prems" show ?thesis by (simp add: chain_from.simps[of acct target])
  next
    case (Some b)
    note b = next_in_chain_SomeD[OF Some]
    from "1.prems" Some consider "a = target" | "a \<in> set (chain_from acct b d)"
      by (auto simp: chain_from.simps[of acct target])
    then show ?thesis
    proof cases
      case 2
      with "1.IH"[OF Some] b show ?thesis by auto
    qed simp
  qed
qed

lemma chain_from_distinct:
  assumes "distinct (map a_id (actions d))" "target \<in> set (actions d)"
  shows "distinct (map a_id (chain_from acct target d))"
  using assms
proof (induction acct target d rule: chain_from.induct)
  case (1 acct target d)
  show ?case
  proof (cases "next_in_chain acct target d")
    case None
    then show ?thesis by (simp add: chain_from.simps[of acct target])
  next
    case (Some b)
    note b = next_in_chain_SomeD[OF Some]
    have "a_id x \<noteq> a_id target" if x: "x \<in> set (chain_from acct b d)" for x
    proof
      assume "a_id x = a_id target"
      moreover have "x \<in> set (actions d)" "a_rank target < a_rank x" using chain_from_ranks[OF x] b by auto
      ultimately show False using "1.prems" by (auto simp: distinct_map dest: inj_onD)
    qed
    then have "a_id target \<notin> a_id ` set (chain_from acct b d)" by (metis imageE)
    with "1.IH"[OF Some] "1.prems" b Some show ?thesis by (simp add: chain_from.simps[of acct target])
  qed
qed

text \<open>The step before the target is not walked: the source a request resolves is never deleted.\<close>

lemma prev_not_below:
  assumes "distinct (map a_id (actions d))" "target \<in> set (actions d)" "prev_in_chain acct target d = Some p"
  shows "a_id p \<notin> a_id ` set (chain_from acct target d)"
proof
  assume "a_id p \<in> a_id ` set (chain_from acct target d)"
  then obtain x where x: "x \<in> set (chain_from acct target d)" "a_id x = a_id p" by auto
  have p: "p \<in> set (actions d)" "a_rank p < a_rank target"
    using assms(3) by (auto simp: prev_in_chain_def adjacent_def dest!: first_in)
  have "x \<in> set (actions d)" "a_rank target \<le> a_rank x" using chain_from_ranks[OF x(1)] assms(2) by auto
  moreover from this have "x = p" using x(2) p(1) assms(1) inj_onD[of a_id "set (actions d)" x p]
    by (simp add: distinct_map)
  ultimately show False using p(2) by simp
qed

lemma rp_stream_distinct:
  assumes "item_table d'" "resolve_present acct source is_head wat ws d = Inr p"
  shows "distinct (rp_stream p d')"
proof -
  obtain qs where qs: "rp_stream p = (\<lambda>d. iter_ids_keyset (qs d))" "\<And>d. \<exists>P. qs d = filter P (feed_items d)"
  proof (cases is_head)
    case False
    then have "rp_stream p = (\<lambda>d. iter_ids_keyset (existing_items acct (succeeded_feed_item_ids acct source ws d) d))"
      using assms(2) by (auto simp: resolve_present_def source_of_def Let_def)
    then show thesis by (rule that) (auto simp: existing_items_def)
  next
    case True
    then obtain fids where "rp_stream p = (\<lambda>d. iter_ids_keyset (case occurred_window_items acct (set fids)
        (occurred_since ws) (occurred_until ws) d of Inl _ \<Rightarrow> [] | Inr qs \<Rightarrow> qs))"
      using assms(2) by (auto simp: resolve_present_def source_of_def Let_def split: sum.splits)
    moreover have "\<exists>P. (case occurred_window_items acct F s u d of Inl _ \<Rightarrow> [] | Inr qs \<Rightarrow> qs) = filter P (feed_items d)"
      for F s u d
      by (cases "s = None \<and> u = None")
        (auto simp: occurred_window_items_def intro: exI[of _ "\<lambda>_. False"])
    ultimately show thesis by (rule that)
  qed
  obtain P where P: "qs d' = filter P (feed_items d')" using qs(2) by blast
  have "distinct (map i_id (qs d'))" "blank \<notin> i_id ` set (qs d')"
    using assms(1) by (auto simp: P item_table_def distinct_map_filter)
  then show ?thesis by (simp add: qs(1) iter_ids_keyset_eq)
qed

subsection \<open>One job\<close>

definition redoes :: "backfill_job \<Rightarrow> bool" where
  "redoes job \<longleftrightarrow> b_replace job \<and> b_replace_deleted_at job = None"

lemma delete_phase_quiet:
  "\<not> redoes job \<Longrightarrow> delete_phase job target sub now d = (if b_replace job then b_deleted job else 0, job, d)"
  by (auto simp: redoes_def delete_phase_def)

lemma delete_phase_redo:
  assumes "redoes job" "distinct (map a_id (actions d))" "target \<in> set (actions d)"
    and p: "resolve_present (b_account job) (b_source job) (b_is_head job) (b_watch job) ws d = Inr p"
    and src: "b_is_head job \<or> b_source job \<notin> a_id ` set (chain_from (b_account job) target d)"
  shows "delete_phase job target (rp_subquery p) now d =
    (let as = chain_from (b_account job) target d;
         n = sum_list (map (\<lambda>a. count_runs_for_action (b_account job) (a_id a) (b_watch job) (rp_subquery p d) True d) as)
     in (n, stamp_job now n job,
         d\<lparr>runs := delete_where (doomed (b_account job) (b_watch job) (rp_subquery p d) as) (runs d),
           backfills := update_where (job_guard job) (stamp_job now n) (backfills d)\<rparr>))"
proof -
  let ?as = "chain_from (b_account job) target d"
  have "rp_subquery p (d\<lparr>runs := delete_where P (runs d)\<rparr>) = rp_subquery p d"
    if P: "\<And>r. P r \<Longrightarrow> \<exists>a \<in> set ?as. r_action r = a_id a" for P
  proof (rule source_kept(1)[OF p])
    assume "\<not> b_is_head job"
    with src have "b_source job \<notin> a_id ` set ?as" by simp
    then have "\<not> P r" if "r_action r = b_source job" for r using P[of r] that by force
    then show "filter (\<lambda>r. r_action r = b_source job \<and> r_state r = SUCCEEDED)
          (runs (d\<lparr>runs := delete_where P (runs d)\<rparr>)) =
        filter (\<lambda>r. r_action r = b_source job \<and> r_state r = SUCCEEDED) (runs d)"
      by (auto simp: delete_where_def intro!: filter_cong)
  qed simp
  from delete_along_eq[of ?as "rp_subquery p" d "rp_subquery p d" "b_account job" "b_watch job", OF this
      chain_from_distinct[OF assms(2,3)]]
  show ?thesis using assms(1) by (simp add: delete_phase_def redoes_def Let_def)
qed

lemma backfill_run_eq:
  assumes "action_get (b_account job) (b_target job) d = Inr target"
    and p: "resolve_present (b_account job) (b_source job) (b_is_head job) (b_watch job) (job_windows job) d = Inr p"
    and del: "delete_phase job target (rp_subquery p) now d = (n, job1, d1)" and "item_table d1"
    and fs: "fs = fresh_items (b_account job) (b_watch job) (a_id target) (rp_stream p d1) d1"
    and c: "c = \<lparr>bc_matched = rp_matched p, bc_present = rp_present p,
      bc_pruned = int (rp_matched p) - int (rp_present p), bc_deleted = n, bc_enqueued = length fs\<rparr>"
  shows "backfill_run E job now d = (let (job2, d2) = finish_job E job1 BF_DONE (Some c) '''' False now
      (d1\<lparr>drawn := drawn d1 + length fs,
          runs := runs d1 @ new_rows E (b_account job) (b_watch job) (a_id target) (a_kind target) now fs (drawn d1)\<rparr>)
    in (Inr (Some c), job2, d2))"
  unfolding backfill_run_def Let_def assms(1) sum.case p del prod.case
  by (simp add: enqueue_many_eq[OF rp_stream_distinct[OF assms(4) p]] Let_def fs[symmetric] c)

lemma finish_job_tables [simp]:
  "runs (snd (finish_job E job st c err ex now d)) = runs d"
  "feed_items (snd (finish_job E job st c err ex now d)) = feed_items d"
  "actions (snd (finish_job E job st c err ex now d)) = actions d"
  "drawn (snd (finish_job E job st c err ex now d)) = drawn d"
  by (simp_all add: finish_job_def Let_def)

lemma finish_job_backfills:
  "backfills (snd (finish_job E job st c err ex now d)) =
     update_where (job_guard job) (finish_row E st c err ex now) (backfills d)"
  by (simp add: finish_job_def Let_def)

subsection \<open>Counting\<close>

lemma fresh_count:
  assumes "distinct (map run_key (runs d))" "distinct ids"
  shows "length (fresh_items acct wat act ids d) + count_runs_for_action acct act wat (set ids) False d = length ids"
proof -
  let ?rs = "filter (run_of_items acct act wat (set ids)) (runs d)"
  have keyed: "run_key r = (acct, wat, act, r_item r)" if "r \<in> set ?rs" for r
    using that by (simp add: run_of_items_def run_key_def)
  have "distinct (map run_key ?rs)" using assms(1) by (simp add: distinct_map_filter)
  moreover have "map run_key ?rs = map (\<lambda>i. (acct, wat, act, i)) (map r_item ?rs)"
    using keyed by simp
  ultimately have dist: "distinct (map r_item ?rs)" by (metis distinct_map)
  have "set (map r_item ?rs) = {i \<in> set ids. (acct, wat, act, i) \<in> run_keys d}"
    by (force simp: run_of_items_def run_keys_def run_key_def)
  also have "\<dots> = set (filter (\<lambda>i. (acct, wat, act, i) \<in> run_keys d) ids)" by auto
  finally have "card (set (map r_item ?rs)) = card (set (filter (\<lambda>i. (acct, wat, act, i) \<in> run_keys d) ids))"
    by (rule arg_cong)
  then have "length ?rs = length (filter (\<lambda>i. (acct, wat, act, i) \<in> run_keys d) ids)"
    using distinct_card[OF dist] distinct_card[OF distinct_filter[OF assms(2)]] by (metis length_map)
  moreover have "count_runs_for_action acct act wat (set ids) False d = length ?rs"
    by (simp add: count_runs_for_action_def count_where_def)
  ultimately show ?thesis
    using sum_length_filter_compl[of "\<lambda>i. (acct, wat, act, i) \<in> run_keys d" ids]
    by (simp add: fresh_items_def)
qed

lemma count_after_delete:
  assumes "target \<in> set as"
  shows "count_runs_for_action acct (a_id target) wat ids False (d\<lparr>runs := delete_where (doomed acct wat ids as) (runs d)\<rparr>)
      + count_runs_for_action acct (a_id target) wat ids True d
    = count_runs_for_action acct (a_id target) wat ids False d"
proof -
  have "count_where (run_of_items acct (a_id target) wat ids) (delete_where (doomed acct wat ids as) rows)
      + count_where (\<lambda>r. run_of_items acct (a_id target) wat ids r \<and> deletable_terminal r) rows
    = count_where (run_of_items acct (a_id target) wat ids) rows" for rows
  proof (induction rows)
    case (Cons r rows)
    have "run_of_items acct (a_id target) wat ids r \<Longrightarrow> doomed acct wat ids as r \<longleftrightarrow> deletable_terminal r"
      using assms by (auto simp: doomed_def)
    with Cons show ?case by auto
  qed simp
  then show ?thesis by (simp add: count_runs_for_action_def)
qed

lemma action_get_in: "action_get acct aid d = Inr a \<Longrightarrow> a \<in> set (actions d) \<and> a_id a = aid \<and> a_account a = acct"
  by (auto simp: action_get_def split: option.splits dest!: first_in)

lemma target_in_chain [simp]: "target \<in> set (chain_from acct target d)"
  by (simp add: chain_from.simps[of acct target])

subsection \<open>Additive and replacing runs\<close>

lemma additive_run:
  assumes "\<not> redoes job" "item_table d"
    and "action_get (b_account job) (b_target job) d = Inr target"
    and "resolve_present (b_account job) (b_source job) (b_is_head job) (b_watch job) (job_windows job) d = Inr p"
  obtains c job' d' where "backfill_run E job now d = (Inr (Some c), job', d')"
    "runs d' = runs d @ new_rows E (b_account job) (b_watch job) (a_id target) (a_kind target) now
       (fresh_items (b_account job) (b_watch job) (a_id target) (rp_stream p d) d) (drawn d)"
    "c = \<lparr>bc_matched = rp_matched p, bc_present = rp_present p,
      bc_pruned = int (rp_matched p) - int (rp_present p), bc_deleted = (if b_replace job then b_deleted job else 0),
      bc_enqueued = length (fresh_items (b_account job) (b_watch job) (a_id target) (rp_stream p d) d)\<rparr>"
    "backfills d' = update_where (job_guard job) (finish_row E BF_DONE (Some c) '''' False now) (backfills d)"
proof -
  note run = backfill_run_eq[OF assms(3,4) delete_phase_quiet[OF assms(1)] assms(2) refl refl, of E now]
  show thesis by (rule that[OF run[unfolded Let_def case_prod_unfold]]) (simp_all add: finish_job_backfills)
qed

lemma replacing_run:
  assumes "redoes job" "item_table d" "distinct (map a_id (actions d))"
    and "action_get (b_account job) (b_target job) d = Inr target"
    and p: "resolve_present (b_account job) (b_source job) (b_is_head job) (b_watch job) (job_windows job) d = Inr p"
    and src: "b_is_head job \<or> b_source job \<notin> a_id ` set (chain_from (b_account job) target d)"
    and "rows = delete_where (doomed (b_account job) (b_watch job) (rp_subquery p d)
      (chain_from (b_account job) target d)) (runs d)"
    and "fs = fresh_items (b_account job) (b_watch job) (a_id target) (rp_stream p d) (d\<lparr>runs := rows\<rparr>)"
  obtains c job' d' where "backfill_run E job now d = (Inr (Some c), job', d')"
    "runs d' = rows @ new_rows E (b_account job) (b_watch job) (a_id target) (a_kind target) now fs (drawn d)"
    "c = \<lparr>bc_matched = rp_matched p, bc_present = rp_present p,
      bc_pruned = int (rp_matched p) - int (rp_present p),
      bc_deleted = sum_list (map (\<lambda>a. count_runs_for_action (b_account job) (a_id a) (b_watch job) (rp_subquery p d) True d)
        (chain_from (b_account job) target d)),
      bc_enqueued = length fs\<rparr>"
proof -
  have t: "target \<in> set (actions d)" using action_get_in[OF assms(4)] by simp
  note del = delete_phase_redo[OF assms(1,3) t p src, of now, unfolded Let_def]
  let ?n = "sum_list (map (\<lambda>a. count_runs_for_action (b_account job) (a_id a) (b_watch job) (rp_subquery p d) True d)
        (chain_from (b_account job) target d))"
  let ?d1 = "d\<lparr>runs := rows, backfills := update_where (job_guard job) (stamp_job now ?n) (backfills d)\<rparr>"
  have same: "rp_stream p ?d1 = rp_stream p d"
  proof (rule source_kept(2)[OF p])
    assume "\<not> b_is_head job"
    with src have "a_id a \<noteq> b_source job" if "a \<in> set (chain_from (b_account job) target d)" for a
      using that by force
    then show "filter (\<lambda>r. r_action r = b_source job \<and> r_state r = SUCCEEDED) (runs ?d1)
        = filter (\<lambda>r. r_action r = b_source job \<and> r_state r = SUCCEEDED) (runs d)"
      by (auto simp: assms(7) delete_where_def doomed_def run_of_items_def intro!: filter_cong)
  qed simp
  have fs: "fresh_items (b_account job) (b_watch job) (a_id target) (rp_stream p ?d1) ?d1 = fs"
    unfolding same by (simp add: assms(8) fresh_items_def run_keys_def)
  have it: "item_table ?d1" using assms(2) by (simp add: item_table_def)
  note run = backfill_run_eq[OF assms(4) p del[folded assms(7)] it refl refl, of E, unfolded fs]
  show thesis by (rule that[OF run[unfolded Let_def case_prod_unfold]]) simp_all
qed

text \<open>The preview of a job's request, on the database the job then runs on, is what the run does.\<close>

lemma preview_exact:
  assumes "item_table d" "distinct (map run_key (runs d))" "distinct (map a_id (actions d))"
    and "action_get (b_account job) (b_target job) d = Inr target" "b_replace_deleted_at job = None"
    and src: "b_is_head job \<or> b_source job \<notin> a_id ` set (chain_from (b_account job) target d)"
    and pv: "preview_backfill (b_account job) target (b_source job) (b_is_head job) (b_watch job) (job_windows job)
      (b_replace job) d = Inr pv"
  shows "\<exists>c job' d'. backfill_run E job now d = (Inr (Some c), job', d')
    \<and> bc_matched c = pv_matched pv \<and> bc_present c = pv_present pv \<and> bc_pruned c = pv_pruned pv \<and> 0 \<le> pv_pruned pv
    \<and> bc_deleted c = pv_would_delete pv \<and> int (bc_enqueued c) = pv_would_enqueue pv"
proof -
  let ?acct = "b_account job" let ?as = "chain_from ?acct target d"
  obtain p where p: "resolve_present ?acct (b_source job) (b_is_head job) (b_watch job) (job_windows job) d = Inr p"
    using pv by (auto simp: preview_backfill_def split: sum.splits)
  note size = source_sizes[OF assms(1) p]
  note pv' = pv[unfolded preview_backfill_def p Let_def, simplified]
  show ?thesis
  proof (cases "b_replace job")
    case False
    then have "\<not> redoes job" by (simp add: redoes_def)
    from additive_run[OF this assms(1,4) p, of E now] obtain c job' d' where
      run: "backfill_run E job now d = (Inr (Some c), job', d')"
        "c = \<lparr>bc_matched = rp_matched p, bc_present = rp_present p,
          bc_pruned = int (rp_matched p) - int (rp_present p), bc_deleted = (if b_replace job then b_deleted job else 0),
          bc_enqueued = length (fresh_items ?acct (b_watch job) (a_id target) (rp_stream p d) d)\<rparr>" by blast
    have "int (length (fresh_items ?acct (b_watch job) (a_id target) (rp_stream p d) d)) =
        int (rp_present p) - int (count_runs_for_action ?acct (a_id target) (b_watch job) (rp_subquery p d) False d)"
      using fresh_count[OF assms(2) size(1), of ?acct "b_watch job" "a_id target"] size(2,3) by simp
    with run False size(4) show ?thesis by (auto simp: pv'[symmetric])
  next
    case True
    then have "redoes job" using assms(5) by (simp add: redoes_def)
    let ?rows = "delete_where (doomed ?acct (b_watch job) (rp_subquery p d) ?as) (runs d)"
    let ?fs = "fresh_items ?acct (b_watch job) (a_id target) (rp_stream p d) (d\<lparr>runs := ?rows\<rparr>)"
    from replacing_run[OF \<open>redoes job\<close> assms(1,3,4) p src refl refl, of E now] obtain c job' d' where
      run: "backfill_run E job now d = (Inr (Some c), job', d')"
        "c = \<lparr>bc_matched = rp_matched p, bc_present = rp_present p,
          bc_pruned = int (rp_matched p) - int (rp_present p),
          bc_deleted = sum_list (map (\<lambda>a. count_runs_for_action ?acct (a_id a) (b_watch job) (rp_subquery p d) True d) ?as),
          bc_enqueued = length ?fs\<rparr>" by blast
    have "distinct (map run_key (runs (d\<lparr>runs := ?rows\<rparr>)))"
      using assms(2) by (simp add: delete_where_def distinct_map_filter)
    from fresh_count[OF this size(1), of ?acct "b_watch job" "a_id target"]
      count_after_delete[of target ?as ?acct "b_watch job" "rp_subquery p d" d] size(2,3)
    have "int (length ?fs) = int (rp_present p)
        - int (count_runs_for_action ?acct (a_id target) (b_watch job) (rp_subquery p d) False d)
        + int (count_runs_for_action ?acct (a_id target) (b_watch job) (rp_subquery p d) True d)" by simp
    with run True size(4) show ?thesis by (auto simp: pv'[symmetric])
  qed
qed

subsection \<open>A source below its target\<close>

text \<open>
  A job pins its source action when it is queued and walks the live chain when it runs. When an
  edit of the chain in between puts the source below the target, the walk deletes the very runs
  the source set is read from.
\<close>

lemma in_run_windows_runs: "in_run_windows acct ws (d\<lparr>runs := x\<rparr>) = in_run_windows acct ws d"
proof -
  have same: "feed_items (d\<lparr>runs := x\<rparr>) = feed_items d" by simp
  show ?thesis by (intro ext) (simp only: in_run_windows_def occurred_window_ids_def same)
qed

lemma succeeded_mono:
  "set (succeeded_in_window acct src ws (d\<lparr>runs := delete_where P (runs d)\<rparr>)) \<subseteq> set (succeeded_in_window acct src ws d)"
  unfolding succeeded_in_window_def in_run_windows_runs by (auto simp: set_delete_where)

definition runs_of_watch :: "ulid \<Rightarrow> ulid \<Rightarrow> ulid \<Rightarrow> db \<Rightarrow> bool" where
  "runs_of_watch acct act wat d \<longleftrightarrow> (\<forall>r \<in> set (runs d). r_account r = acct \<and> r_action r = act \<longrightarrow> r_watch r = wat)"

definition source_items :: "ulid \<Rightarrow> ulid \<Rightarrow> instant run_windows \<Rightarrow> db \<Rightarrow> feed_item list" where
  "source_items acct src ws d = existing_items acct (succeeded_feed_item_ids acct src ws d) d"

lemma source_items_cong:
  assumes "runs d' = runs d" "feed_items d' = feed_items d"
  shows "source_items acct src ws d' = source_items acct src ws d"
proof -
  have "in_run_windows acct ws d' = in_run_windows acct ws d"
    by (intro ext) (simp only: in_run_windows_def occurred_window_ids_def assms)
  then show ?thesis
    by (simp only: source_items_def existing_items_def succeeded_feed_item_ids_def succeeded_in_window_def assms)
qed

lemma source_items_mono:
  assumes "source_items acct src ws d = []"
  shows "source_items acct src ws (d\<lparr>runs := delete_where P (runs d)\<rparr>) = []"
  using assms succeeded_mono[of acct src ws P d]
  by (auto simp: source_items_def existing_items_def succeeded_feed_item_ids_def filter_empty_conv)

lemma source_deleted:
  assumes "runs_of_watch acct src wat d"
  shows "source_items acct src ws (snd (delete_terminal_for_action acct src wat (i_id ` set (source_items acct src ws d)) d)) = []"
proof -
  let ?ids = "i_id ` set (source_items acct src ws d)"
  let ?P = "\<lambda>r. deletable_terminal r \<and> run_of_items acct src wat ?ids r"
  have False if i: "i \<in> set (source_items acct src ws (d\<lparr>runs := delete_where ?P (runs d)\<rparr>))" for i
  proof -
    from i obtain r where r: "r \<in> set (succeeded_in_window acct src ws (d\<lparr>runs := delete_where ?P (runs d)\<rparr>))" "r_item r = i_id i"
      and item: "i \<in> set (feed_items d)" "i_account i = acct"
      by (auto simp: source_items_def existing_items_def succeeded_feed_item_ids_def)
    from r(1) have kept: "r \<in> set (runs d)" "\<not> ?P r" "r_account r = acct" "r_action r = src" "r_state r = SUCCEEDED"
      by (auto simp: succeeded_in_window_def set_delete_where)
    have "i \<in> set (source_items acct src ws d)"
      using item r succeeded_mono[of acct src ws ?P d]
      by (force simp: source_items_def existing_items_def succeeded_feed_item_ids_def)
    with kept r(2) assms show False
      by (auto simp: deletable_terminal_def run_of_items_def runs_of_watch_def state_sets)
  qed
  then have "source_items acct src ws (d\<lparr>runs := delete_where ?P (runs d)\<rparr>) = []"
    by (cases "source_items acct src ws (d\<lparr>runs := delete_where ?P (runs d)\<rparr>)") auto
  then show ?thesis by (simp add: delete_terminal_for_action_def Let_def)
qed

lemma delete_along_empties:
  assumes "runs_of_watch acct src wat d" "src \<in> a_id ` set as \<or> source_items acct src ws d = []"
  shows "source_items acct src ws (snd (delete_along acct wat (\<lambda>d. i_id ` set (source_items acct src ws d)) as d)) = []"
  using assms
proof (induction as arbitrary: d)
  case (Cons a as)
  let ?ids = "i_id ` set (source_items acct src ws d)"
  let ?P = "\<lambda>r. deletable_terminal r \<and> run_of_items acct (a_id a) wat ?ids r"
  let ?d1 = "d\<lparr>runs := delete_where ?P (runs d)\<rparr>"
  have "runs_of_watch acct src wat ?d1" using Cons.prems(1) by (auto simp: runs_of_watch_def set_delete_where)
  moreover have "src \<in> a_id ` set as \<or> source_items acct src ws ?d1 = []"
    using Cons.prems source_items_mono[of acct src ws d ?P] source_deleted[OF Cons.prems(1), of ws]
    by (auto simp: delete_terminal_for_action_def Let_def)
  ultimately show ?case using Cons.IH[of ?d1]
    by (simp add: delete_terminal_for_action_def Let_def case_prod_unfold)
qed simp

lemma enqueue_none: "enqueue_many E acct wat act kind sched [] d = (Inr 0, d)"
  by (simp add: enqueue_many_eq fresh_items_def new_rows_def)

lemma replace_below_source:
  assumes redo: "redoes job" "\<not> b_is_head job"
    and target: "action_get (b_account job) (b_target job) d = Inr target"
    and below: "b_source job \<in> a_id ` set (chain_from (b_account job) target d)"
    and rw: "runs_of_watch (b_account job) (b_source job) (b_watch job) d"
  shows "\<exists>c job' d'. backfill_run E job now d = (Inr (Some c), job', d') \<and> bc_enqueued c = 0
    \<and> source_items (b_account job) (b_source job) (job_windows job) d' = []"
proof -
  let ?acct = "b_account job" let ?ws = "job_windows job"
  let ?qs = "source_items ?acct (b_source job) ?ws"
  have p: "resolve_present ?acct (b_source job) (b_is_head job) (b_watch job) ?ws d =
      Inr (source_of (count_succeeded_feed_items ?acct (b_source job) ?ws d) (length (?qs d)) ?qs)"
    using redo(2) by (simp add: resolve_present_def Let_def source_items_def [abs_def])
  let ?r = "delete_along ?acct (b_watch job) (\<lambda>d. i_id ` set (?qs d)) (chain_from ?acct target d) d"
  let ?d2 = "(snd ?r)\<lparr>backfills := update_where (job_guard job) (stamp_job now (fst ?r)) (backfills (snd ?r))\<rparr>"
  have gone: "?qs (snd ?r) = []" using delete_along_empties[OF rw] below by blast
  have other: "?qs ?d2 = []" using gone source_items_cong[of ?d2 "snd ?r"] by simp
  have del: "delete_phase job target (\<lambda>d. i_id ` set (?qs d)) now d = (fst ?r, stamp_job now (fst ?r) job, ?d2)"
    using redo(1) by (simp add: delete_phase_def redoes_def case_prod_unfold Let_def)
  have str: "iter_ids_keyset (?qs ?d2) = []" unfolding other by (simp add: iter_ids_keyset_eq)
  let ?c = "\<lparr>bc_matched = count_succeeded_feed_items ?acct (b_source job) ?ws d, bc_present = length (?qs d),
    bc_pruned = int (count_succeeded_feed_items ?acct (b_source job) ?ws d) - int (length (?qs d)),
    bc_deleted = fst ?r, bc_enqueued = 0\<rparr>"
  let ?f = "finish_job E (stamp_job now (fst ?r) job) BF_DONE (Some ?c) '''' False now ?d2"
  have "backfill_run E job now d = (Inr (Some ?c), fst ?f, snd ?f)"
    unfolding backfill_run_def Let_def target p
    by (simp only: sum.case source_of_def resolved_present.simps del prod.case str enqueue_none case_prod_unfold fst_conv snd_conv)
  moreover have "?qs (snd ?f) = []" using other source_items_cong[of "snd ?f" ?d2] by (simp only: finish_job_tables)
  ultimately show ?thesis by (intro exI conjI) (assumption, simp, assumption)
qed
subsection \<open>Lost claims\<close>

definition job_held :: "backfill_job \<Rightarrow> db \<Rightarrow> bool" where
  "job_held job d \<longleftrightarrow> (\<exists>b \<in> set (backfills d). job_guard job b)"

lemma finish_job_lost: "\<not> job_held job d \<Longrightarrow> finish_job E job st c err ex now d = (job, d)"
  by (auto simp: finish_job_def Let_def job_held_def count_where_0 update_where_never)

lemma finish_job_won: "job_held job d \<Longrightarrow> finish_job E job st c err ex now d =
    (finish_row E st c err False now job,
     d\<lparr>backfills := update_where (job_guard job) (finish_row E st c err ex now) (backfills d)\<rparr>)"
  by (auto simp: finish_job_def Let_def job_held_def count_where_0)

subsection \<open>The job queue is a claim queue\<close>

datatype job_event =
    Claim_Job instant backfill_job
  | Finish_Job backfill_job backfill_state "backfill_counts option" string bool instant
  | Reap_Jobs instant
  | Stamp_Job backfill_job instant nat
  | Create_Job ulid ulid ulid ulid bool string bool "instant run_windows" instant

fun job_step :: "env \<Rightarrow> job_event \<Rightarrow> db \<Rightarrow> outcome \<times> db" where
  "job_step E (Claim_Job ts c) d =
     (if b_state c \<in> BACKFILL_CLAIMABLE_STATES
      then case backfill_claim_one E ts c d of
             (None, d') \<Rightarrow> (Quiet, d')
           | (Some b, d') \<Rightarrow> (Claimed (b_id b) (b_attempts b), d')
      else (Quiet, d))"
| "job_step E (Finish_Job job st c err ex now) d =
     (if st = BF_RUNNING then (Quiet, d)
      else (if count_where (job_guard job) (backfills d) = 0 then Quiet else Settled (b_id job) (b_attempts job),
            snd (finish_job E job st c err ex now d)))"
| "job_step E (Reap_Jobs now) d = (Quiet, snd (backfill_reap_stale E now d))"
| "job_step E (Stamp_Job job now n) d =
     (Quiet, d\<lparr>backfills := update_where (job_guard job) (stamp_job now n) (backfills d)\<rparr>)"
| "job_step E (Create_Job acct wat target source is_head kind rep ws ts) d =
     (Quiet, snd (backfill_create E acct wat target source is_head kind rep ws ts d))"

definition job_table :: "env \<Rightarrow> db \<Rightarrow> bool" where
  "job_table E d \<longleftrightarrow> mints_fresh E \<and> distinct (map b_id (backfills d))
     \<and> (\<forall>b \<in> set (backfills d). b_id b \<in> mint E ` {..<drawn d} \<and> b_attempts b \<le> BACKFILL_MAX_ATTEMPTS E)"

definition job_live :: "db \<Rightarrow> ulid \<Rightarrow> bool" where
  "job_live d i \<longleftrightarrow> (case get_job i d of None \<Rightarrow> False | Some b \<Rightarrow> b_state b = BF_RUNNING)"

definition job_tries :: "db \<Rightarrow> ulid \<Rightarrow> nat" where
  "job_tries d i = (case get_job i d of None \<Rightarrow> 0 | Some b \<Rightarrow> b_attempts b)"

lemma get_job_in: "get_job j d = Some b \<Longrightarrow> b \<in> set (backfills d) \<and> b_id b = j"
  by (auto simp: get_job_def dest: first_in)

lemma get_job_update:
  "(\<And>b. b_id (f b) = b_id b) \<Longrightarrow> get_job j (d\<lparr>backfills := update_where P f (backfills d)\<rparr>) =
     map_option (\<lambda>b. if P b then f b else b) (get_job j d)"
proof -
  assume "\<And>b. b_id (f b) = b_id b"
  then have "first (filter (\<lambda>b. b_id b = j) (update_where P f rows)) =
      map_option (\<lambda>b. if P b then f b else b) (first (filter (\<lambda>b. b_id b = j) rows))" for rows
    by (induction rows) auto
  then show ?thesis by (simp add: get_job_def)
qed

lemma get_job_unique:
  assumes "distinct (map b_id (backfills d))" "b \<in> set (backfills d)"
  shows "get_job (b_id b) d = Some b"
proof -
  obtain q where q: "get_job (b_id b) d = Some q"
    using assms(2) by (cases "get_job (b_id b) d") (auto simp: get_job_def filter_empty_conv)
  then have "q \<in> set (backfills d)" "b_id q = b_id b" by (auto dest: get_job_in)
  with assms q show ?thesis by (auto simp: distinct_map dest: inj_onD)
qed

lemma job_table_update:
  assumes "job_table E d" "\<And>b. b_id (f b) = b_id b"
    and "\<And>b. b \<in> set (backfills d) \<Longrightarrow> P b \<Longrightarrow> b_attempts (f b) \<le> BACKFILL_MAX_ATTEMPTS E"
  shows "job_table E (d\<lparr>backfills := update_where P f (backfills d)\<rparr>)"
  using assms by (auto simp: job_table_def in_update_where map_key_update_where)

lemma backfill_rows_id [simp]:
  "b_id (claim_job_row ts b) = b_id b" "b_id (stamp_job now n b) = b_id b"
  "b_id (finish_row E st c err ex now b) = b_id b"
  "b_attempts (stamp_job now n b) = b_attempts b" "b_state (stamp_job now n b) = b_state b"
  "b_state (claim_job_row ts b) = BF_RUNNING" "b_attempts (claim_job_row ts b) = Suc (b_attempts b)"
  "b_state (finish_row E st c err ex now b) = st"
  "b_attempts (finish_row E st c err ex now b) = (if ex then BACKFILL_MAX_ATTEMPTS E else b_attempts b)"
  by (simp_all add: claim_job_row_def stamp_job_def finish_row_def Let_def split: option.split)

definition reap_job :: "env \<Rightarrow> instant \<Rightarrow> backfill_job \<Rightarrow> backfill_job" where
  "reap_job E now b = (if BACKFILL_MAX_ATTEMPTS E \<le> b_attempts b
     then b\<lparr>b_state := BF_FAILED, b_error := BACKFILL_TIMED_OUT_EXHAUSTED, b_completed := Some now\<rparr>
     else b\<lparr>b_state := BF_FAILED, b_error := BACKFILL_TIMED_OUT, b_completed := None\<rparr>)"

lemma backfill_reap_eq:
  "backfill_reap_stale E now d = (count_where (stale_job E now) (backfills d),
     d\<lparr>backfills := update_where (stale_job E now) (reap_job E now) (backfills d)\<rparr>)"
proof -
  let ?P1 = "\<lambda>b. stale_job E now b \<and> BACKFILL_MAX_ATTEMPTS E \<le> b_attempts b"
  let ?P2 = "\<lambda>b. stale_job E now b \<and> b_attempts b < BACKFILL_MAX_ATTEMPTS E"
  let ?f = "\<lambda>b. b\<lparr>b_state := BF_FAILED, b_error := BACKFILL_TIMED_OUT_EXHAUSTED, b_completed := Some now\<rparr>"
  let ?g = "\<lambda>b. b\<lparr>b_state := BF_FAILED, b_error := BACKFILL_TIMED_OUT, b_completed := None\<rparr>"
  obtain rows where rows_def: "rows = backfills d" by simp
  have rows: "update_where ?P2 ?g (update_where ?P1 ?f rows) = update_where (stale_job E now) (reap_job E now) rows"
    unfolding update_where_def map_map
  proof (intro map_cong refl)
    fix b
    show "((\<lambda>b. if ?P2 b then ?g b else b) \<circ> (\<lambda>b. if ?P1 b then ?f b else b)) b =
        (if stale_job E now b then reap_job E now b else b)"
    proof (cases "?P1 b")
      case True
      then have "\<not> stale_job E now (?f b)" by (simp add: stale_job_def)
      with True show ?thesis by (simp only: o_apply reap_job_def if_True simp_thms if_False)
    next
      case False
      then show ?thesis by (simp only: o_apply reap_job_def if_False not_le) (simp only: not_le if_False simp_thms split: if_split; blast)
    qed
  qed
  have "count_where ?P1 rows + count_where ?P2 (update_where ?P1 ?f rows) = count_where (stale_job E now) rows"
    by (induction rows) (auto simp: stale_job_def)
  with rows show ?thesis by (simp add: backfill_reap_stale_def Let_def rows_def)
qed

lemma reap_job_simps [simp]: "b_id (reap_job E now b) = b_id b" "b_attempts (reap_job E now b) = b_attempts b"
  "b_state (reap_job E now b) = BF_FAILED"
  by (simp_all add: reap_job_def)

lemma job_table_create:
  assumes "job_table E d"
  shows "job_table E (snd (backfill_create E acct wat target source is_head kind rep ws ts d))"
    and "get_job j (snd (backfill_create E acct wat target source is_head kind rep ws ts d)) =
      (if j = mint E (drawn d) then Some (fst (backfill_create E acct wat target source is_head kind rep ws ts d))
       else get_job j d)"
proof -
  have new: "mint E (drawn d) \<notin> b_id ` set (backfills d)"
    using assms minted_new[of E "b_id ` set (backfills d)" "drawn d" "drawn d"] by (auto simp: job_table_def)
  then show "job_table E (snd (backfill_create E acct wat target source is_head kind rep ws ts d))"
    using assms by (auto simp: job_table_def backfill_create_def new_id_def Let_def)
  have "filter (\<lambda>b. b_id b = mint E (drawn d)) (backfills d) = []"
    using new by (simp add: filter_empty_conv) (metis image_eqI)
  then show "get_job j (snd (backfill_create E acct wat target source is_head kind rep ws ts d)) =
      (if j = mint E (drawn d) then Some (fst (backfill_create E acct wat target source is_head kind rep ws ts d))
       else get_job j d)"
    by (auto simp: get_job_def backfill_create_def new_id_def Let_def)
qed

lemma job_claim_eq:
  assumes "job_table E d"
  shows "backfill_claim_one E ts c d =
    (case get_job (b_id c) d of
       Some b \<Rightarrow> if b_state b = b_state c \<and> b_attempts b < BACKFILL_MAX_ATTEMPTS E
         then (Some (claim_job_row ts b), d\<lparr>backfills := update_where (\<lambda>x. b_id x = b_id c) (claim_job_row ts) (backfills d)\<rparr>)
         else (None, d)
     | None \<Rightarrow> (None, d))"
proof -
  let ?P = "\<lambda>b. b_id b = b_id c \<and> b_state b = b_state c \<and> b_attempts b < BACKFILL_MAX_ATTEMPTS E"
  have dist: "distinct (map b_id (backfills d))" using assms by (simp add: job_table_def)
  show ?thesis
  proof (cases "get_job (b_id c) d")
    case None
    then have "\<not> ?P b" if "b \<in> set (backfills d)" for b
      using that get_job_unique[OF dist] by fastforce
    then have "count_where ?P (backfills d) = 0" "update_where ?P (claim_job_row ts) (backfills d) = backfills d"
      by (auto simp: count_where_0 intro!: update_where_never)
    with None show ?thesis by (simp add: backfill_claim_one_def Let_def)
  next
    case (Some b)
    then have b: "b \<in> set (backfills d)" "b_id b = b_id c" by (auto dest: get_job_in)
    have row: "x = b" if "x \<in> set (backfills d)" "b_id x = b_id c" for x
      using that b dist inj_onD[of b_id "set (backfills d)" x b] by (simp add: distinct_map)
    show ?thesis
    proof (cases "?P b")
      case True
      then have "count_where ?P (backfills d) \<noteq> 0" using b by (auto simp: count_where_0)
      moreover have "update_where ?P (claim_job_row ts) (backfills d)
          = update_where (\<lambda>x. b_id x = b_id c) (claim_job_row ts) (backfills d)"
        using row True by (auto simp: update_where_def)
      ultimately show ?thesis using Some True by (simp add: backfill_claim_one_def Let_def get_job_update)
    next
      case False
      then have "\<not> ?P x" if "x \<in> set (backfills d)" for x using row[OF that] by auto
      then have "count_where ?P (backfills d) = 0" "update_where ?P (claim_job_row ts) (backfills d) = backfills d"
        by (auto simp: count_where_0 intro!: update_where_never)
      with Some False b show ?thesis by (auto simp: backfill_claim_one_def Let_def)
    qed
  qed
qed

subsection \<open>What an event does to the tickets\<close>

definition job_calm :: "db \<Rightarrow> db \<Rightarrow> ulid \<Rightarrow> bool" where
  "job_calm d d' j \<longleftrightarrow> job_tries d j \<le> job_tries d' j \<and> (job_live d' j \<longrightarrow> job_live d j \<and> job_tries d' j = job_tries d j)"

lemma job_calm_refl [simp]: "job_calm d d j"
  by (simp add: job_calm_def)

lemma job_calm_update:
  assumes "\<And>b. b_id (f b) = b_id b"
    and "\<And>b. b \<in> set (backfills d) \<Longrightarrow> b_id b = j \<Longrightarrow> P b \<Longrightarrow> b_attempts b \<le> b_attempts (f b)
           \<and> (b_state (f b) = BF_RUNNING \<longrightarrow> b_state b = BF_RUNNING \<and> b_attempts (f b) = b_attempts b)"
  shows "job_calm d (d\<lparr>backfills := update_where P f (backfills d)\<rparr>) j"
  using assms
  by (cases "get_job j d") (auto simp: job_calm_def job_tries_def job_live_def get_job_update dest!: get_job_in)

lemma job_finish_ticket:
  assumes "job_table E d" "count_where (job_guard job) (backfills d) \<noteq> 0" "st \<noteq> BF_RUNNING"
    and "d' = snd (finish_job E job st c err ex now d)"
  shows "job_live d (b_id job) \<and> job_tries d (b_id job) = b_attempts job
    \<and> \<not> job_live d' (b_id job) \<and> b_attempts job \<le> job_tries d' (b_id job)"
proof -
  obtain b where b: "b \<in> set (backfills d)" "job_guard job b" using assms(2) by (auto simp: count_where_0)
  then have get: "get_job (b_id job) d = Some b"
    using get_job_unique[of d b] assms(1) by (auto simp: job_table_def job_guard_def)
  have d': "d' = d\<lparr>backfills := update_where (job_guard job) (finish_row E st c err ex now) (backfills d)\<rparr>"
    by (simp add: assms(4) finish_job_def Let_def)
  have "b_attempts b \<le> BACKFILL_MAX_ATTEMPTS E" using assms(1) b(1) by (simp add: job_table_def)
  with get b(2) assms(3) show ?thesis
    by (simp add: d' get_job_update job_live_def job_tries_def job_guard_def)
qed

lemma job_step_table: "job_table E d \<Longrightarrow> job_table E (snd (job_step E e d))"
proof (cases e)
  case (Claim_Job ts c)
  assume tab: "job_table E d"
  have "job_table E (snd (backfill_claim_one E ts c d))"
  proof (cases "snd (backfill_claim_one E ts c d) = d")
    case False
    then obtain b where b: "get_job (b_id c) d = Some b" "b_attempts b < BACKFILL_MAX_ATTEMPTS E"
      "snd (backfill_claim_one E ts c d) =
         d\<lparr>backfills := update_where (\<lambda>x. b_id x = b_id c) (claim_job_row ts) (backfills d)\<rparr>"
      by (auto simp: job_claim_eq[OF tab] split: option.splits if_splits)
    have "x = b" if "x \<in> set (backfills d)" "b_id x = b_id c" for x
      using that b(1) get_job_unique[of d x] tab by (simp add: job_table_def)
    with b(2) have "b_attempts (claim_job_row ts x) \<le> BACKFILL_MAX_ATTEMPTS E"
      if "x \<in> set (backfills d)" "b_id x = b_id c" for x using that by simp
    then show ?thesis unfolding b(3) by (intro job_table_update[OF tab]) auto
  qed (simp add: tab)
  then show ?thesis using Claim_Job tab by (auto split: prod.splits option.splits)
next
  case (Finish_Job job st c err ex now)
  assume tab: "job_table E d"
  have "job_table E (d\<lparr>backfills := update_where (job_guard job) (finish_row E st c err ex now) (backfills d)\<rparr>)"
    using tab by (intro job_table_update[OF tab]) (auto simp: job_table_def)
  with Finish_Job tab show ?thesis by (simp add: finish_job_def Let_def)
next
  case (Reap_Jobs now)
  assume tab: "job_table E d"
  have "job_table E (d\<lparr>backfills := update_where (stale_job E now) (reap_job E now) (backfills d)\<rparr>)"
    using tab by (intro job_table_update[OF tab]) (auto simp: job_table_def)
  with Reap_Jobs show ?thesis by (simp add: backfill_reap_eq)
next
  case (Stamp_Job job now n)
  assume tab: "job_table E d"
  have "job_table E (d\<lparr>backfills := update_where (job_guard job) (stamp_job now n) (backfills d)\<rparr>)"
    using tab by (intro job_table_update[OF tab]) (auto simp: job_table_def)
  with Stamp_Job show ?thesis by simp
qed (simp add: job_table_create)

lemma job_step_claimed:
  assumes tab: "job_table E d" and s: "job_step E e d = (Claimed i n, d')"
  shows "\<not> job_live d i \<and> job_live d' i \<and> job_tries d i < n \<and> job_tries d' i = n \<and> n \<le> BACKFILL_MAX_ATTEMPTS E"
proof -
  from s obtain ts c b where c: "b_state c \<in> BACKFILL_CLAIMABLE_STATES"
    "backfill_claim_one E ts c d = (Some b, d')" "i = b_id b" "n = b_attempts b"
    by (cases e) (auto split: if_splits prod.splits option.splits)
  from c(2) obtain q where q: "get_job (b_id c) d = Some q" "b_state q = b_state c"
    "b_attempts q < BACKFILL_MAX_ATTEMPTS E" "b = claim_job_row ts q"
    "d' = d\<lparr>backfills := update_where (\<lambda>x. b_id x = b_id c) (claim_job_row ts) (backfills d)\<rparr>"
    by (auto simp: job_claim_eq[OF tab] split: option.splits if_splits)
  have "b_id q = b_id c" using get_job_in[OF q(1)] by simp
  with q c show ?thesis
    by (auto simp: job_live_def job_tries_def get_job_update BACKFILL_CLAIMABLE_STATES_def)
qed

lemma job_step_others:
  assumes tab: "job_table E d" and s: "job_step E e d = (out, d')" and j: "subject out \<noteq> Some j"
  shows "job_calm d d' j"
proof (cases e)
  case (Claim_Job ts c)
  show ?thesis
  proof (cases "backfill_claim_one E ts c d")
    case (Pair got d1)
    show ?thesis
    proof (cases got)
      case None
      then have "d1 = d" using Pair by (auto simp: job_claim_eq[OF tab] split: option.splits if_splits)
      with Claim_Job s Pair None show ?thesis by (auto split: if_splits)
    next
      case (Some b)
      with Pair obtain q where q: "get_job (b_id c) d = Some q" "b = claim_job_row ts q"
        "d1 = d\<lparr>backfills := update_where (\<lambda>x. b_id x = b_id c) (claim_job_row ts) (backfills d)\<rparr>"
        by (auto simp: job_claim_eq[OF tab] split: option.splits if_splits)
      have "b_id b = b_id c" using get_job_in[OF q(1)] q(2) by simp
      with q(3) have "b_id b \<noteq> j \<Longrightarrow> job_calm d d1 j" by (auto intro!: job_calm_update)
      with Claim_Job s Pair Some j show ?thesis by (auto split: if_splits)
    qed
  qed
next
  case (Finish_Job job st c err ex now)
  have form: "snd (finish_job E job st c err ex now d) =
      d\<lparr>backfills := update_where (job_guard job) (finish_row E st c err ex now) (backfills d)\<rparr>"
    by (simp add: finish_job_def Let_def)
  show ?thesis
  proof (cases "st = BF_RUNNING \<or> count_where (job_guard job) (backfills d) = 0")
    case True
    then have "d' = d"
    proof
      assume "count_where (job_guard job) (backfills d) = 0"
      then have "snd (finish_job E job st c err ex now d) = d" by (simp add: form count_where_0 update_where_never)
      with Finish_Job s show ?thesis by (auto split: if_splits)
    qed (use Finish_Job s in simp)
    then show ?thesis by simp
  next
    case False
    with Finish_Job s j have "b_id job \<noteq> j" by auto
    then have "job_calm d (snd (finish_job E job st c err ex now d)) j"
      unfolding form by (intro job_calm_update) (auto simp: job_guard_def)
    with False Finish_Job s show ?thesis by auto
  qed
next
  case (Reap_Jobs now)
  with s show ?thesis by (auto simp: backfill_reap_eq intro!: job_calm_update)
next
  case (Stamp_Job job now n)
  with s show ?thesis by (auto intro!: job_calm_update)
next
  case (Create_Job acct wat target source is_head kind rep ws ts)
  have "get_job (mint E (drawn d)) d = None"
  proof (rule ccontr)
    assume "get_job (mint E (drawn d)) d \<noteq> None"
    then obtain b where b: "b \<in> set (backfills d)" "b_id b = mint E (drawn d)" by (auto dest: get_job_in)
    then obtain k where "k < drawn d" "mint E (drawn d) = mint E k" using tab by (auto simp: job_table_def)
    then show False using tab by (auto simp: job_table_def mints_fresh_def inj_eq)
  qed
  moreover have "b_state (fst (backfill_create E acct wat target source is_head kind rep ws ts d)) = BF_PENDING"
    by (simp add: backfill_create_def new_id_def Let_def)
  ultimately show ?thesis using s Create_Job
    by (auto simp: job_calm_def job_tries_def job_live_def job_table_create(2)[OF tab] split: if_splits)
qed

interpretation bq: claim_queue "job_step E" "job_table E" job_live job_tries "BACKFILL_MAX_ATTEMPTS E" for E
proof
  fix d :: db and e show "job_table E d \<Longrightarrow> job_table E (snd (job_step E e d))" by (rule job_step_table)
next
  fix d d' :: db and e i n assume "job_table E d" "job_step E e d = (Claimed i n, d')"
  then show "\<not> job_live d i \<and> job_live d' i \<and> job_tries d i < n \<and> job_tries d' i = n \<and> n \<le> BACKFILL_MAX_ATTEMPTS E"
    by (rule job_step_claimed)
next
  fix d d' :: db and e i n assume tab: "job_table E d" and s: "job_step E e d = (Settled i n, d')"
  from s obtain job st c err ex now where "e = Finish_Job job st c err ex now" "st \<noteq> BF_RUNNING"
    "count_where (job_guard job) (backfills d) \<noteq> 0" "i = b_id job" "n = b_attempts job"
    "d' = snd (finish_job E job st c err ex now d)"
    by (cases e) (auto split: if_splits prod.splits option.splits)
  with job_finish_ticket[OF tab, of job st d' c err ex now]
  show "job_live d i \<and> job_tries d i = n \<and> \<not> job_live d' i \<and> n \<le> job_tries d' i" by simp
next
  fix d d' :: db and e out j assume "job_table E d" "job_step E e d = (out, d')" "subject out \<noteq> Some j"
  then show "job_tries d j \<le> job_tries d' j \<and> (job_live d' j \<longrightarrow> job_live d j \<and> job_tries d' j = job_tries d j)"
    using job_step_others by (auto simp: job_calm_def)
qed

end
