(* ===== verification/Samples.thy ===== *)
theory Samples
  imports Pipeline Trigger Backfill_Facts
begin

text \<open>
  One configuration and one database, small and concrete, on which the properties of the root
  theory are exercised: a watch of one feed with two items and the chain log, log digest, where the
  first action has a pending run and the second a succeeded one.
\<close>

definition log_executor :: executor where
  "log_executor n a items ctx = Some (ActionResult SUCCEEDED [] '''')"

definition sample_env :: env where
  "sample_env =
     \<lparr>MAX_ATTEMPTS = 3, STALE_SECONDS = 600, BACKFILL_MAX_ATTEMPTS = 3, BACKFILL_STALE_SECONDS = 600,
      DIGEST_MAX_BATCH_ITEMS = 2, DIGEST_MIN_INTERVAL = 60, DIGEST_MAX_INTERVAL = 86400, mint = Suc,
      known_kinds = {''log''},
      model_validate = (\<lambda>k b. if k = ''log''
        then Some (if b = [] then LogConfig INSTANT 0 [] [] else LogConfig DIGEST 3600 [] []) else None),
      model_dump = (\<lambda>c. if is_digest c then [(''delivery'', JStr ''digest'')] else []),
      executor_of = (\<lambda>k. if k = ''log'' then Some log_executor else None),
      result_valid = (\<lambda>_ _. True), WEBHOOK_REQUIRE_HTTPS = True,
      WEBHOOK_BLOCK_PRIVATE_IPS = True,
      plugin_merge = (\<lambda>c _. Inr c), plugin_masked = (\<lambda>_. False)\<rparr>"

definition sample_watch :: watch where
  "sample_watch = \<lparr>w_id = 1, w_account = 100, w_name = ''w'', w_active = True, w_initial_path = 2\<rparr>"

definition sample_subscription :: watch_feed where
  "sample_subscription = \<lparr>wf_id = 3, wf_account = 100, wf_watch = 1, wf_feed = 4, wf_last_item = 0\<rparr>"

definition sample_head :: watch_action where
  "sample_head = \<lparr>a_id = 5, a_account = 100, a_path = 2, a_kind = ''log'', a_config = [], a_rank = 0\<rparr>"

definition sample_digest :: watch_action where
  "sample_digest = \<lparr>a_id = 6, a_account = 100, a_path = 2, a_kind = ''log'',
     a_config = [(''delivery'', JStr ''digest'')], a_rank = 1\<rparr>"

definition sample_feed :: feed where
  "sample_feed = \<lparr>f_id = 4, f_user = 0, f_account = 100, f_kind = ''curated'', f_name = ''f'', f_active = True,
     f_poll_interval = 300, f_last_polled = None, f_next_poll = None, f_data = []\<rparr>"

definition sample_item :: "ulid \<Rightarrow> feed_item" where
  "sample_item i = \<lparr>i_id = i, i_account = 100, i_feed = 4, i_source_kind = ''hn'', i_external_id = [],
     i_source_label = [], i_source_meta = [], i_occurred = Some 5, i_data = []\<rparr>"

definition sample_run :: "ulid \<Rightarrow> ulid \<Rightarrow> ulid \<Rightarrow> run" where
  "sample_run i act item = pending_run 100 1 act ''log'' item 0 blank i"

definition sample_job :: backfill_job where
  "sample_job = \<lparr>b_id = 12, b_account = 100, b_watch = 1, b_target = 6, b_source = 5, b_is_head = False,
     b_kind = ''log'', b_replace = True, b_occ_since = None, b_occ_until = None, b_comp_since = Some 0,
     b_comp_until = None, b_state = BF_RUNNING, b_matched = 0, b_present = 0, b_pruned = 0, b_deleted = 0,
     b_enqueued = 0, b_replace_deleted_at = None, b_scheduled = Some 0, b_started = Some 0, b_completed = None,
     b_error = [], b_attempts = 1\<rparr>"

definition sample_db :: db where
  "sample_db =
     \<lparr>watches = [sample_watch], paths = [\<lparr>p_id = 2, p_account = 100, p_watch = 1\<rparr>],
      watch_feeds = [sample_subscription], actions = [sample_head, sample_digest],
      runs = [sample_run 9 5 7], windows = [], deliveries = [], backfills = [], feeds = [sample_feed],
      feed_items = [sample_item 7, sample_item 8], sources = [], drawn = 20, calls = 0\<rparr>"

lemmas sample_defs = sample_env_def sample_watch_def sample_subscription_def sample_head_def sample_digest_def
  sample_feed_def sample_item_def sample_run_def sample_job_def sample_db_def

lemma sample_env_simps [simp]:
  "MAX_ATTEMPTS sample_env = 3" "BACKFILL_MAX_ATTEMPTS sample_env = 3" "mint sample_env = Suc"
  "DIGEST_MAX_BATCH_ITEMS sample_env = 2" "STALE_SECONDS sample_env = 600"
  "BACKFILL_STALE_SECONDS sample_env = 600"
  by (simp_all add: sample_env_def)

lemma sample_mints [simp]: "mints_fresh sample_env"
  by (simp add: mints_fresh_def)

lemma sample_outcomes [simp]: "outcomes sample_env"
  by (auto simp: outcomes_def sample_env_def log_executor_def state_sets split: if_splits)

lemma sample_run_ok: "run_ok sample_env (sample_run i act item)"
  by (simp add: sample_run_def pending_ok)

lemma sample_run_simps [simp]:
  "r_id (sample_run i act item) = i" "r_account (sample_run i act item) = 100" "r_action (sample_run i act item) = act"
  "r_item (sample_run i act item) = item" "r_watch (sample_run i act item) = 1" "r_attempts (sample_run i act item) = 0"
  "r_state (sample_run i act item) = PENDING"
  by (simp_all add: sample_run_def)

lemma sample_tables [simp]:
  "runs sample_db = [sample_run 9 5 7]" "drawn sample_db = 20" "windows sample_db = []" "backfills sample_db = []"
  "actions sample_db = [sample_head, sample_digest]" "feed_items sample_db = [sample_item 7, sample_item 8]"
  "watch_feeds sample_db = [sample_subscription]" "feeds sample_db = [sample_feed]"
  by (simp_all add: sample_db_def)

lemma sample_queue [simp]: "queue_inv sample_env sample_db"
proof -
  have "(9::nat) \<in> Suc ` {..<20}" by (rule image_eqI[of _ _ 8]) simp_all
  then show ?thesis by (simp add: queue_inv_def run_table_def sample_run_ok)
qed

lemma sample_run_table: "run_table sample_env sample_db"
  using sample_queue by (simp add: queue_inv_def)

lemma sample_load: "load_config sample_env sample_head = Inr (LogConfig INSTANT 0 [] [])"
  "load_config sample_env sample_digest = Inr (LogConfig DIGEST 3600 [] [])"
  by (simp_all add: load_config_def parse_config_def sample_env_def sample_head_def sample_digest_def)

lemma sample_sound [simp]: "sound sample_env sample_db"
  by (simp add: sound_def coordinated_def windows_digest_def has_window_def not_stranded_def sample_head_def
      sample_digest_def)

lemma sample_items [simp]: "item_table sample_db"
  by (simp add: item_table_def sample_item_def)

lemma sample_path: "list_for_path 100 2 sample_db = [sample_head, sample_digest]"
  by code_simp

lemma sample_actions: "action_table sample_env sample_db"
proof -
  have "(5::nat) \<in> Suc ` {..<20}" "(6::nat) \<in> Suc ` {..<20}" by (auto intro: image_eqI[of _ _ 4] image_eqI[of _ _ 5])
  then show ?thesis by (simp add: action_table_def sample_head_def sample_digest_def)
qed

text \<open>The edit of the chain, the added action and the trigger pass the witnesses run.\<close>

definition sample_specs :: "action_spec list" where
  "sample_specs = [\<lparr>sp_id = 6, sp_kind = ''log'', sp_config = []\<rparr>, \<lparr>sp_id = 0, sp_kind = ''log'', sp_config = []\<rparr>]"

lemma sample_replace:
  "map_sum id (map a_id) (fst (replace_chain sample_env 100 2 sample_specs True sample_db)) = Inr [6, 21]"
  by code_simp

lemma sample_add:
  "map_sum id a_id (fst (add_action sample_env 100 2 (hd sample_specs) (Some 1) False True sample_db)) = Inr 21"
  by code_simp

lemma sample_trigger: "fst (trigger_run sample_env sample_watch 10 sample_db) = Inr (1, 1)"
  by code_simp

text \<open>
  The database a backfill job runs on: the two actions have delivered the first item, and the job
  replaces what the second did. In the second database the chain has been reordered since.
\<close>

definition sample_done :: db where
  "sample_done = sample_db
     \<lparr>runs := [(sample_run 9 5 7)\<lparr>r_state := SUCCEEDED, r_completed := Some 5\<rparr>,
               (sample_run 10 6 7)\<lparr>r_state := SUCCEEDED, r_completed := Some 6\<rparr>],
      backfills := [sample_job]\<rparr>"

definition sample_swapped :: db where
  "sample_swapped = sample_done
     \<lparr>actions := [sample_head\<lparr>a_rank := 1\<rparr>, sample_digest\<lparr>a_rank := 0\<rparr>]\<rparr>"

lemma sample_job_simps [simp]:
  "b_id sample_job = 12" "b_account sample_job = 100" "b_watch sample_job = 1" "b_target sample_job = 6"
  "b_source sample_job = 5" "\<not> b_is_head sample_job" "b_replace sample_job" "b_replace_deleted_at sample_job = None"
  "b_state sample_job = BF_RUNNING" "b_attempts sample_job = 1"
  by (simp_all add: sample_job_def)

lemma sample_done_simps [simp]:
  "actions sample_done = [sample_head, sample_digest]" "feed_items sample_done = [sample_item 7, sample_item 8]"
  "backfills sample_done = [sample_job]" "map r_id (runs sample_done) = [9, 10]"
  by (simp_all add: sample_done_def)

lemma sample_done_target:
  "action_get 100 6 sample_done = Inr sample_digest" "chain_from 100 sample_digest sample_done = [sample_digest]"
  "action_get 100 6 sample_swapped = Inr (sample_digest\<lparr>a_rank := 0\<rparr>)"
  "chain_from 100 (sample_digest\<lparr>a_rank := 0\<rparr>) sample_swapped = [sample_digest\<lparr>a_rank := 0\<rparr>, sample_head\<lparr>a_rank := 1\<rparr>]"
  by code_simp+

lemma sample_done_preview:
  "preview_backfill 100 sample_digest 5 False 1 (job_windows sample_job) True sample_done =
     Inr \<lparr>pv_source = 5, pv_is_head = False, pv_replace = True, pv_matched = 1, pv_present = 1, pv_pruned = 0,
          pv_would_delete = 1, pv_would_enqueue = 1\<rparr>"
  by code_simp

lemma sample_done_tables: "item_table sample_done" "distinct (map run_key (runs sample_done))"
  by (simp_all add: item_table_def sample_item_def sample_done_def run_key_def)

lemma sample_jobs: "job_table sample_env sample_done"
proof -
  have "(12::nat) \<in> Suc ` {..<20}" by (rule image_eqI[of _ _ 11]) simp_all
  then show ?thesis by (simp add: job_table_def sample_done_def)
qed

end
