(* ===== verification/Source_Specs.thy ===== *)
theory Source_Specs
  imports Run_Windows "HOL-Library.List_Lexorder" "HOL-Library.Char_ord"
begin

text \<open>
  What a source is (packages/openmagpie-schema configs.py): one spec class per kind with its
  validators, the plugin fallback of the union, the display label, and the canonical form whose
  hash identifies a source within its feed. A value of \<open>source_spec\<close> holds the fields of one class;
  \<open>spec_validate\<close> is what its validators make of submitted fields. \<open>json.dumps\<close> of a key-sorted
  value is the parameter \<open>dumps\<close>.
\<close>

datatype hn_match = Match_All | Match_Any
datatype hn_feed = Hn_New | Hn_Show | Hn_Ask
datatype twitter_mode = Latest | Top
datatype github_sort = Stars | Updated

datatype source_spec =
    RedditSubredditSourceSpec string
  | RssSourceSpec string string
  | HackerNewsFeedSourceSpec string hn_match hn_feed
  | HackerNewsCommentSourceSpec string hn_match
  | TwitterSearchSourceSpec string twitter_mode int string
  | GitHubSearchSourceSpec string github_sort int int
  | GitHubEventsSourceSpec "string list" bool int
  | PluginSourceSpec string blob

definition MAX_SUBREDDIT_LENGTH :: nat where
  "MAX_SUBREDDIT_LENGTH = 21"

definition KIND_MAX_LENGTH :: nat where
  "KIND_MAX_LENGTH = 32"

fun SOURCE_KIND :: "source_spec \<Rightarrow> string" where
  "SOURCE_KIND (RedditSubredditSourceSpec _) = ''reddit_subreddit''"
| "SOURCE_KIND (RssSourceSpec _ _) = ''rss''"
| "SOURCE_KIND (HackerNewsFeedSourceSpec _ _ _) = ''hn_feed''"
| "SOURCE_KIND (HackerNewsCommentSourceSpec _ _) = ''hn_comment''"
| "SOURCE_KIND (TwitterSearchSourceSpec _ _ _ _) = ''twitter_search''"
| "SOURCE_KIND (GitHubSearchSourceSpec _ _ _ _) = ''github_search''"
| "SOURCE_KIND (GitHubEventsSourceSpec _ _ _) = ''github_events''"
| "SOURCE_KIND (PluginSourceSpec kind _) = kind"

definition BUILTIN_SOURCE_KINDS :: "string set" where
  "BUILTIN_SOURCE_KINDS = {''reddit_subreddit'', ''rss'', ''hn_feed'', ''hn_comment'', ''twitter_search'',
     ''github_search'', ''github_events''}"

subsection \<open>Validators\<close>

text \<open>Letter case is that of ASCII, which the slugs and language codes are in.\<close>

text \<open>\<open>re.sub(r"^/?r/", "", s, flags=re.IGNORECASE)\<close>.\<close>

definition drop_r :: "string \<Rightarrow> string" where
  "drop_r s =
     (let t = (case s of c # cs \<Rightarrow> if c = CHR ''/'' then cs else s | [] \<Rightarrow> s)
      in case t of
           r # slash # rest \<Rightarrow> if to_lower r = CHR ''r'' \<and> slash = CHR ''/'' then rest else s
         | _ \<Rightarrow> s)"

definition slug_char :: "char \<Rightarrow> bool" where
  "slug_char c \<longleftrightarrow> is_alpha c \<or> is_digit c \<or> c = CHR ''_''"

definition validate_subreddit :: "string \<Rightarrow> string option" where
  "validate_subreddit v =
     (let slug = drop_r (strip v)
      in if 1 \<le> length slug \<and> length slug \<le> MAX_SUBREDDIT_LENGTH \<and> list_all slug_char slug
         then Some (map to_lower slug) else None)"

definition valid_rss_url :: "string \<Rightarrow> bool" where
  "valid_rss_url v =
     (case urlsplit v of
        Inl _ \<Rightarrow> False
      | Inr parts \<Rightarrow> (scheme parts = ''http'' \<or> scheme parts = ''https'') \<and> netloc parts \<noteq> [])"

definition query_not_blank :: "string \<Rightarrow> string option" where
  "query_not_blank v = (let q = strip v in if q = [] then None else Some q)"

definition reject_builtin_kind :: "string \<Rightarrow> string set \<Rightarrow> string option" where
  "reject_builtin_kind kind builtin_kinds =
     (if kind \<noteq> strip kind then None else if kind \<in> builtin_kinds then None else Some kind)"

fun spec_validate :: "source_spec \<Rightarrow> source_spec option" where
  "spec_validate (RedditSubredditSourceSpec sub) = map_option RedditSubredditSourceSpec (validate_subreddit sub)"
| "spec_validate (RssSourceSpec u nm) = (if valid_rss_url u then Some (RssSourceSpec u nm) else None)"
| "spec_validate (HackerNewsFeedSourceSpec q m f) = Some (HackerNewsFeedSourceSpec q m f)"
| "spec_validate (HackerNewsCommentSourceSpec q m) = map_option (\<lambda>q. HackerNewsCommentSourceSpec q m) (query_not_blank q)"
| "spec_validate (TwitterSearchSourceSpec q mode n lang) =
     (if 1 \<le> n \<and> n \<le> 100
      then map_option (\<lambda>q. TwitterSearchSourceSpec q mode n (map to_lower (strip lang))) (query_not_blank q) else None)"
| "spec_validate (GitHubSearchSourceSpec q srt stars n) =
     (if 0 \<le> stars \<and> 1 \<le> n \<and> n \<le> 100
      then map_option (\<lambda>q. GitHubSearchSourceSpec q srt stars n) (query_not_blank q) else None)"
| "spec_validate (GitHubEventsSourceSpec types pushes stars) =
     (if 0 \<le> stars \<and> list_all (\<lambda>t. t = ''create'' \<or> t = ''push'') types
      then Some (GitHubEventsSourceSpec types pushes stars) else None)"
| "spec_validate (PluginSourceSpec kind extra) =
     (if 1 \<le> length kind \<and> length kind \<le> KIND_MAX_LENGTH
      then map_option (\<lambda>k. PluginSourceSpec k extra) (reject_builtin_kind kind BUILTIN_SOURCE_KINDS) else None)"

subsection \<open>Labels\<close>

fun comma_join :: "string list \<Rightarrow> string" where
  "comma_join [] = []"
| "comma_join [s] = s"
| "comma_join (s # t # ss) = s @ '', '' @ comma_join (t # ss)"

text \<open>\<open>display\<close>; \<open>py_str\<close> is Python's \<open>str\<close> of a JSON value.\<close>

fun spec_display :: "(json \<Rightarrow> string) \<Rightarrow> source_spec \<Rightarrow> string" where
  "spec_display py_str (RedditSubredditSourceSpec sub) = ''r/'' @ sub"
| "spec_display py_str (RssSourceSpec u nm) = (if nm \<noteq> [] then nm else u)"
| "spec_display py_str (HackerNewsFeedSourceSpec q m f) =
     (case f of Hn_New \<Rightarrow> ''Hacker News (new)'' | Hn_Show \<Rightarrow> ''Show HN'' | Hn_Ask \<Rightarrow> ''Ask HN'')"
| "spec_display py_str (HackerNewsCommentSourceSpec q m) = ''HN comments: \"'' @ q @ ''\"''"
| "spec_display py_str (TwitterSearchSourceSpec q mode n lang) = ''X search: \"'' @ q @ ''\"''"
| "spec_display py_str (GitHubSearchSourceSpec q srt stars n) = ''GitHub search: \"'' @ q @ ''\"''"
| "spec_display py_str (GitHubEventsSourceSpec types pushes stars) = ''GitHub events radar: '' @ comma_join types"
| "spec_display py_str (PluginSourceSpec kind extra) =
     (case map_of extra ''name'' of
        Some v \<Rightarrow> if json_truthy v then py_str v
                   else (case map_of extra ''label'' of Some l \<Rightarrow> if json_truthy l then py_str l else kind | None \<Rightarrow> kind)
      | None \<Rightarrow> (case map_of extra ''label'' of Some l \<Rightarrow> if json_truthy l then py_str l else kind | None \<Rightarrow> kind))"

subsection \<open>Identity\<close>

definition hn_match_value :: "hn_match \<Rightarrow> string" where
  "hn_match_value m = (case m of Match_All \<Rightarrow> ''all'' | Match_Any \<Rightarrow> ''any'')"

definition hn_feed_value :: "hn_feed \<Rightarrow> string" where
  "hn_feed_value f = (case f of Hn_New \<Rightarrow> ''new'' | Hn_Show \<Rightarrow> ''show'' | Hn_Ask \<Rightarrow> ''ask'')"

definition twitter_mode_value :: "twitter_mode \<Rightarrow> string" where
  "twitter_mode_value m = (case m of Latest \<Rightarrow> ''latest'' | Top \<Rightarrow> ''top'')"

definition github_sort_value :: "github_sort \<Rightarrow> string" where
  "github_sort_value s = (case s of Stars \<Rightarrow> ''stars'' | Updated \<Rightarrow> ''updated'')"

text \<open>\<open>model_dump(mode="json")\<close>, the fields in the order they are declared.\<close>

fun spec_dump :: "source_spec \<Rightarrow> blob" where
  "spec_dump (RedditSubredditSourceSpec sub) = [(''kind'', JStr ''reddit_subreddit''), (''subreddit'', JStr sub)]"
| "spec_dump (RssSourceSpec u nm) = [(''kind'', JStr ''rss''), (''url'', JStr u), (''name'', JStr nm)]"
| "spec_dump (HackerNewsFeedSourceSpec q m f) =
     [(''query'', JStr q), (''match'', JStr (hn_match_value m)), (''kind'', JStr ''hn_feed''), (''feed'', JStr (hn_feed_value f))]"
| "spec_dump (HackerNewsCommentSourceSpec q m) =
     [(''query'', JStr q), (''match'', JStr (hn_match_value m)), (''kind'', JStr ''hn_comment'')]"
| "spec_dump (TwitterSearchSourceSpec q mode n lang) =
     [(''kind'', JStr ''twitter_search''), (''query'', JStr q), (''mode'', JStr (twitter_mode_value mode)),
      (''count'', JNum n), (''lang'', JStr lang)]"
| "spec_dump (GitHubSearchSourceSpec q srt stars n) =
     [(''kind'', JStr ''github_search''), (''query'', JStr q), (''sort'', JStr (github_sort_value srt)),
      (''min_stars'', JNum stars), (''count'', JNum n)]"
| "spec_dump (GitHubEventsSourceSpec types pushes stars) =
     [(''kind'', JStr ''github_events''), (''event_types'', JArr (map JStr types)), (''include_pushes'', JBool pushes),
      (''min_stars'', JNum stars)]"
| "spec_dump (PluginSourceSpec kind extra) = (''kind'', JStr kind) # extra"

text \<open>\<open>sort_keys=True\<close>.\<close>

fun sort_json :: "json \<Rightarrow> json" where
  "sort_json (JArr xs) = JArr (map sort_json xs)"
| "sort_json (JObj kvs) = JObj (sort_key fst (map (\<lambda>(k, v). (k, sort_json v)) kvs))"
| "sort_json v = v"

definition canonical_spec :: "(json \<Rightarrow> string) \<Rightarrow> source_spec \<Rightarrow> string" where
  "canonical_spec dumps spec = dumps (sort_json (JObj (spec_dump spec)))"

record source_identity =
  id_spec :: string
  id_meta :: "(string \<times> string) list"
  id_field_map :: "(string \<times> string) list"

definition source_identity :: "(json \<Rightarrow> string) \<Rightarrow> source_spec \<Rightarrow> (string \<times> string) list \<Rightarrow> (string \<times> string) list
    \<Rightarrow> source_identity" where
  "source_identity dumps spec meta field_map =
     \<lparr>id_spec = canonical_spec dumps spec, id_meta = sort meta, id_field_map = sort field_map\<rparr>"

subsection \<open>Facts\<close>

lemma dropWhile_head: "dropWhile P xs = [] \<or> \<not> P (hd (dropWhile P xs))"
  by (induction xs) auto

lemma strip_idem [simp]: "strip (strip s) = strip s"
proof -
  let ?t = "dropWhile is_space s"
  let ?u = "rev (dropWhile is_space (rev ?t))"
  have tail: "dropWhile is_space (rev ?u) = rev ?u" by simp
  have "dropWhile is_space ?u = ?u"
  proof (cases ?u)
    case Nil
    show ?thesis unfolding Nil by simp
  next
    case (Cons c cs)
    obtain zs where zs: "?t = ?u @ zs"
      by (metis rev_append rev_rev_ident takeWhile_dropWhile_id)
    with Cons have "hd ?t = c" "?t \<noteq> []" by (metis append_Cons list.sel(1), auto)
    with dropWhile_head[of is_space s] have "\<not> is_space c" by auto
    with Cons show ?thesis by simp
  qed
  then show ?thesis by (simp add: strip_def tail)
qed

lemma to_lower_idem [simp]: "to_lower (to_lower c) = to_lower c"
  by (auto simp: to_lower_def is_upper_def)

lemma slug_lower: "slug_char c \<Longrightarrow> slug_char (to_lower c)"
  by (auto simp: slug_char_def to_lower_def is_alpha_def is_upper_def is_lower_def)

lemma slug_not_special: "slug_char c \<Longrightarrow> \<not> is_space c \<and> c \<noteq> CHR ''/''"
  by (auto simp: slug_char_def is_alpha_def is_lower_def is_upper_def is_digit_def is_space_def)

lemma strip_slug: "list_all slug_char s \<Longrightarrow> strip s = s"
proof -
  assume slug: "list_all slug_char s"
  have keep: "dropWhile is_space t = t" if "set t \<subseteq> set s" for t
    using that slug slug_not_special by (cases t) (auto simp: list_all_iff)
  show ?thesis by (simp add: strip_def keep)
qed

lemma drop_r_slug: "list_all slug_char s \<Longrightarrow> drop_r s = s"
proof -
  assume slug: "list_all slug_char s"
  have "c \<noteq> CHR ''/''" if "c \<in> set s" for c using slug slug_not_special that by (auto simp: list_all_iff)
  then show ?thesis by (auto simp: drop_r_def Let_def split: list.splits)
qed

text \<open>What a validator lets through is a fixed point of it: the stored form is the canonical one.\<close>

lemma validate_subreddit_idem: "validate_subreddit v = Some s \<Longrightarrow> validate_subreddit s = Some s"
proof -
  assume v: "validate_subreddit v = Some s"
  let ?slug = "drop_r (strip v)"
  from v have s: "s = map to_lower ?slug" "1 \<le> length ?slug" "length ?slug \<le> MAX_SUBREDDIT_LENGTH" "list_all slug_char ?slug"
    by (auto simp: validate_subreddit_def Let_def split: if_splits)
  then have slug: "list_all slug_char s" by (auto simp: list_all_iff slug_lower)
  then have "drop_r (strip s) = s" by (simp add: strip_slug drop_r_slug)
  with slug s show ?thesis by (simp add: validate_subreddit_def comp_def)
qed

lemma query_not_blank_idem: "query_not_blank v = Some q \<Longrightarrow> query_not_blank q = Some q"
  by (auto simp: query_not_blank_def Let_def split: if_splits)

lemma of_char_lower: "is_upper c \<Longrightarrow> (of_char (to_lower c) :: nat) = of_char c + 32"
  by (simp add: to_lower_def is_upper_def)

lemma space_code: "is_space c \<Longrightarrow> (of_char c :: nat) < 65 \<or> 122 < (of_char c :: nat)"
  by (auto simp: is_space_def)

lemma space_lower: "is_space (to_lower c) = is_space c"
proof (cases "is_upper c")
  case True
  with of_char_lower[OF True] space_code[of c] space_code[of "to_lower c"] show ?thesis
    by (auto simp: is_upper_def)
qed (simp add: to_lower_def)

lemma strip_map_lower: "strip (map to_lower s) = map to_lower (strip s)"
proof -
  have "is_space \<circ> to_lower = is_space" by (simp add: comp_def space_lower)
  then show ?thesis by (simp add: strip_def dropWhile_map rev_map)
qed

lemma spec_validate_idem: "spec_validate s = Some t \<Longrightarrow> spec_validate t = Some t"
  by (cases s) (auto simp: validate_subreddit_idem query_not_blank_idem strip_map_lower reject_builtin_kind_def comp_def
      split: if_splits)

lemma spec_validate_kind: "spec_validate s = Some t \<Longrightarrow> SOURCE_KIND t = SOURCE_KIND s"
  by (cases s) (auto simp: reject_builtin_kind_def split: if_splits)

lemma plugin_never_builtin: "spec_validate s = Some (PluginSourceSpec k extra) \<Longrightarrow> k \<notin> BUILTIN_SOURCE_KINDS"
  by (cases s) (auto simp: reject_builtin_kind_def split: if_splits)

lemma builtin_kinds: "SOURCE_KIND s \<in> BUILTIN_SOURCE_KINDS \<or> (\<exists>k extra. s = PluginSourceSpec k extra)"
  by (cases s) (simp_all add: BUILTIN_SOURCE_KINDS_def)

subsection \<open>The canonical form identifies a built-in source\<close>

lemma map_of_sort_fst: "distinct (map fst kvs) \<Longrightarrow> map_of (sort_key fst kvs) = map_of kvs"
  by (rule map_of_inject_set[THEN iffD2]) (simp_all add: distinct_map inj_on_def)

fun builtin_spec :: "source_spec \<Rightarrow> bool" where
  "builtin_spec (PluginSourceSpec _ _) = False"
| "builtin_spec s = True"

lemma map_of_values: "map_of (map (\<lambda>p. (fst p, f (snd p))) kvs) k = map_option f (map_of kvs k)"
  by (induction kvs) auto

lemma dump_fields:
  assumes "sort_json (JObj (spec_dump s)) = sort_json (JObj (spec_dump t))" "builtin_spec s" "builtin_spec t"
  shows "map_option sort_json (map_of (spec_dump s) k) = map_option sort_json (map_of (spec_dump t) k)"
proof -
  have keys: "distinct (map fst (spec_dump x))" if "builtin_spec x" for x using that by (cases x) simp_all
  have "map_of (sort_key fst (map (\<lambda>(k, v). (k, sort_json v)) (spec_dump x))) k = map_option sort_json (map_of (spec_dump x) k)"
    if "builtin_spec x" for x
    using keys[OF that] by (subst map_of_sort_fst) (simp_all add: comp_def case_prod_unfold map_of_values)
  with assms show ?thesis by (metis json.inject(6) sort_json.simps(2))
qed

lemma dump_kind: "map_of (spec_dump s) ''kind'' = Some (JStr (SOURCE_KIND s))"
  by (cases s) simp_all

lemma map_JStr_inj: "map (sort_json \<circ> JStr) xs = map (sort_json \<circ> JStr) ys \<longleftrightarrow> xs = ys"
  by (simp add: comp_def inj_def inj_map_eq_map)

lemma value_inj [simp]:
  "hn_match_value m = hn_match_value m' \<longleftrightarrow> m = m'" "hn_feed_value f = hn_feed_value f' \<longleftrightarrow> f = f'"
  "twitter_mode_value t = twitter_mode_value t' \<longleftrightarrow> t = t'" "github_sort_value g = github_sort_value g' \<longleftrightarrow> g = g'"
  by (auto simp: hn_match_value_def hn_feed_value_def twitter_mode_value_def github_sort_value_def
      split: hn_match.splits hn_feed.splits twitter_mode.splits github_sort.splits)

lemma canonical_inj:
  assumes "inj dumps" "builtin_spec s" "builtin_spec t" "canonical_spec dumps s = canonical_spec dumps t"
  shows "s = t"
proof -
  have "sort_json (JObj (spec_dump s)) = sort_json (JObj (spec_dump t))"
    using assms(1,4) unfolding canonical_spec_def by (rule injD)
  note same = dump_fields[OF this assms(2,3)]
  have kind: "SOURCE_KIND s = SOURCE_KIND t" using same[of "''kind''"] by (simp add: dump_kind)
  show ?thesis
    by (cases s; cases t; (use kind assms(2,3) in \<open>simp; fail\<close>)?)
      (use same[of "''subreddit''"] same[of "''url''"] same[of "''name''"] same[of "''query''"]
        same[of "''match''"] same[of "''feed''"] same[of "''mode''"] same[of "''count''"] same[of "''lang''"]
        same[of "''sort''"] same[of "''min_stars''"] same[of "''event_types''"] same[of "''include_pushes''"]
        in \<open>simp_all add: map_JStr_inj\<close>)
qed

end
