(* ===== verification/Sources.thy ===== *)
theory Sources
  imports Feed_Items Source_Specs
begin

text \<open>
  The source rows of a feed: the service over them (feeds/services/sources.py), the policy a
  submitted source has to pass (feeds/policy.py) and the configuration of a curated feed
  (openmagpie\_schema feed.py, feeds/registry.py).

  \<open>source_env\<close> holds what the code takes from elsewhere: the connectors that are loaded, the
  settings, \<open>sha256\<close> and \<open>json.dumps\<close> of the standard library, and the two pydantic adapters. \<open>spec_adapter\<close> parses a stored spec.
\<close>

record curated_config =
  retention_days :: int
  default_field_map :: "(string \<times> string) list"

record source_env =
  registered_kinds :: "string set"
  SOURCE_BLOCK_PRIVATE_IPS :: bool
  sha256 :: "string \<Rightarrow> string"
  json_dumps :: "json \<Rightarrow> string"
  py_str :: "json \<Rightarrow> string"
  spec_adapter :: "blob \<Rightarrow> source_spec option"
  feed_validate :: "blob \<Rightarrow> curated_config option"

subsection \<open>Policy\<close>

definition RETENTION_MIN_DAYS :: int where
  "RETENTION_MIN_DAYS = 1"

definition RETENTION_MAX_DAYS :: int where
  "RETENTION_MAX_DAYS = 365"

definition enforce_feed_policy :: "curated_config \<Rightarrow> exn + curated_config" where
  "enforce_feed_policy cfg =
     (if RETENTION_MIN_DAYS \<le> retention_days cfg \<and> retention_days cfg \<le> RETENTION_MAX_DAYS
      then Inr cfg else Inl PolicyError)"

definition default_and_enforce_source_watermark :: "dt option \<Rightarrow> instant \<Rightarrow> exn + instant" where
  "default_and_enforce_source_watermark v now =
     (case v of None \<Rightarrow> Inr now
      | Some t \<Rightarrow> if now < instant_of t then Inl PolicyError else Inr (instant_of t))"

text \<open>\<open>_iter_strings\<close>: every string leaf.\<close>

fun iter_strings :: "json \<Rightarrow> string list" where
  "iter_strings (JStr s) = [s]"
| "iter_strings (JObj kvs) = concat (map (\<lambda>(k, v). iter_strings v) kvs)"
| "iter_strings (JArr xs) = concat (map iter_strings xs)"
| "iter_strings v = []"

text \<open>\<open>_check_url_ip\<close> refuses a URL whose host is an IP literal in a blocked range.\<close>

definition check_url_ip :: "string \<Rightarrow> bool" where
  "check_url_ip candidate =
     (case urlsplit candidate of
        Inl _ \<Rightarrow> True
      | Inr parts \<Rightarrow> (case hostname parts of 
            None \<Rightarrow> True
          | Some host \<Rightarrow>
              (case ip_address host of
                 None \<Rightarrow> True
               | Some i \<Rightarrow> \<not> (is_private i \<or> is_loopback i \<or> is_link_local i \<or> is_multicast i \<or> is_reserved i))))"

fun url_candidates :: "source_spec \<Rightarrow> string list" where
  "url_candidates (RssSourceSpec u nm) = [u]"
| "url_candidates (PluginSourceSpec kind extra) = iter_strings (JObj (spec_dump (PluginSourceSpec kind extra)))"
| "url_candidates spec = []"

definition enforce_source_url_safety :: "source_env \<Rightarrow> source_spec \<Rightarrow> bool" where
  "enforce_source_url_safety S spec \<longleftrightarrow>
     \<not> SOURCE_BLOCK_PRIVATE_IPS S \<or> list_all check_url_ip (url_candidates spec)"

subsection \<open>Feed configuration\<close>

definition parse_feed_config :: "source_env \<Rightarrow> string \<Rightarrow> blob \<Rightarrow> exn + curated_config" where
  "parse_feed_config S kind data =
     (if kind \<noteq> ''curated'' then Inl KeyError
      else case feed_validate S data of None \<Rightarrow> Inl ValidationError | Some cfg \<Rightarrow> Inr cfg)"

definition validate_feed_config :: "source_env \<Rightarrow> string \<Rightarrow> blob \<Rightarrow> exn + curated_config" where
  "validate_feed_config S kind data =
     (case parse_feed_config S kind data of Inl e \<Rightarrow> Inl e | Inr cfg \<Rightarrow> enforce_feed_policy cfg)"

definition load_feed_config :: "source_env \<Rightarrow> feed \<Rightarrow> exn + curated_config" where
  "load_feed_config S fd = parse_feed_config S (f_kind fd) (f_data fd)"

definition feed_config_dump :: "curated_config \<Rightarrow> blob" where
  "feed_config_dump cfg =
     [(''retention_days'', JNum (retention_days cfg)),
      (''default_field_map'', JObj (map (\<lambda>(k, v). (k, JStr v)) (default_field_map cfg)))]"

subsection \<open>The rows of a feed\<close>

definition hash_spec :: "source_env \<Rightarrow> source_spec \<Rightarrow> string" where
  "hash_spec S spec = sha256 S (canonical_spec (json_dumps S) spec)"

definition of_feed :: "ulid \<Rightarrow> feed \<Rightarrow> source \<Rightarrow> bool" where
  "of_feed acct fd s \<longleftrightarrow> so_account s = acct \<and> so_feed s = f_id fd"

definition assert_curated :: "ulid \<Rightarrow> feed \<Rightarrow> exn option" where
  "assert_curated acct fd =
     (if f_account fd \<noteq> acct then Some ValueError else if f_kind fd \<noteq> ''curated'' then Some PolicyError else None)"

definition source_list :: "ulid \<Rightarrow> feed \<Rightarrow> db \<Rightarrow> exn + source list" where
  "source_list acct fd d =
     (if f_account fd \<noteq> acct then Inl ValueError else Inr (order_by so_id (filter (of_feed acct fd) (sources d))))"

definition source_count :: "ulid \<Rightarrow> feed \<Rightarrow> db \<Rightarrow> exn + nat" where
  "source_count acct fd d =
     (if f_account fd \<noteq> acct then Inl ValueError else Inr (count_where (of_feed acct fd) (sources d)))"

text \<open>
  The two streams of a poll cycle. \<open>ORDER BY RANDOM()\<close> is \<open>shuffle\<close>, some permutation.
\<close>

definition iter_for_poll :: "(source list \<Rightarrow> source list) \<Rightarrow> ulid \<Rightarrow> feed \<Rightarrow> string set \<Rightarrow> db \<Rightarrow> exn + source list" where
  "iter_for_poll shuffle acct fd exclude d =
     (if f_account fd \<noteq> acct then Inl ValueError
      else Inr (shuffle (filter (\<lambda>s. of_feed acct fd s \<and> so_kind s \<notin> exclude) (sources d))))"

definition iter_by_kind :: "(source list \<Rightarrow> source list) \<Rightarrow> ulid \<Rightarrow> feed \<Rightarrow> string \<Rightarrow> db \<Rightarrow> exn + source list" where
  "iter_by_kind shuffle acct fd kind d =
     (if f_account fd \<noteq> acct then Inl ValueError
      else Inr (shuffle (filter (\<lambda>s. of_feed acct fd s \<and> so_kind s = kind) (sources d))))"

text \<open>\<open>advance_watermark\<close> moves a mark strictly forward, or sets one that is null.\<close>

definition behind :: "ulid \<Rightarrow> ulid \<Rightarrow> instant \<Rightarrow> source \<Rightarrow> bool" where
  "behind acct sid v s \<longleftrightarrow> so_account s = acct \<and> so_id s = sid
     \<and> (case so_last_event s of None \<Rightarrow> True | Some t \<Rightarrow> t < v)"

definition source_advance :: "ulid \<Rightarrow> ulid \<Rightarrow> instant \<Rightarrow> db \<Rightarrow> nat \<times> db" where
  "source_advance acct sid v d =
     (count_where (behind acct sid v) (sources d),
      d\<lparr>sources := update_where (behind acct sid v) (\<lambda>s. s\<lparr>so_last_event := Some v\<rparr>) (sources d)\<rparr>)"

definition delete_for_feed :: "ulid \<Rightarrow> feed \<Rightarrow> db \<Rightarrow> (exn + nat) \<times> db" where
  "delete_for_feed acct fd d =
     (if f_account fd \<noteq> acct then (Inl ValueError, d)
      else (Inr (count_where (of_feed acct fd) (sources d)), d\<lparr>sources := delete_where (of_feed acct fd) (sources d)\<rparr>))"

definition source_get_by_id :: "ulid \<Rightarrow> ulid \<Rightarrow> db \<Rightarrow> exn + source" where
  "source_get_by_id acct sid d =
     (case first (filter (\<lambda>s. so_id s = sid \<and> so_account s = acct) (sources d)) of
        None \<Rightarrow> Inl DoesNotExist | Some s \<Rightarrow> Inr s)"

definition source_remove_by_id :: "ulid \<Rightarrow> ulid \<Rightarrow> db \<Rightarrow> (exn + nat) \<times> db" where
  "source_remove_by_id acct sid d =
     (case source_get_by_id acct sid d of
        Inl e \<Rightarrow> (Inl e, d)
      | Inr s \<Rightarrow>
          (case first (filter (\<lambda>f. f_id f = so_feed s \<and> f_account f = acct) (feeds d)) of
             None \<Rightarrow> (Inl DoesNotExist, d)
           | Some fd \<Rightarrow>
               (case assert_curated acct fd of
                  Some e \<Rightarrow> (Inl e, d)
                | None \<Rightarrow> (Inr (count_where (\<lambda>x. so_id x = so_id s) (sources d)),
                           d\<lparr>sources := delete_where (\<lambda>x. so_id x = so_id s) (sources d)\<rparr>))))"

subsection \<open>Replacing the set\<close>

record source_input =
  si_spec :: source_spec
  si_meta :: "(string \<times> string) list"
  si_field_map :: "(string \<times> string) list"
  si_last_event :: "dt option"

record source_set_result =
  sr_added :: nat
  sr_removed :: nat
  sr_persisted :: nat
  sr_source_count :: nat

text \<open>The inputs by hash, the first of each kept, in submitted order.\<close>

fun inputs_by_hash :: "source_env \<Rightarrow> source_input list \<Rightarrow> (string \<times> source_input) list \<Rightarrow> (string \<times> source_input) list" where
  "inputs_by_hash S [] acc = acc"
| "inputs_by_hash S (x # xs) acc =
     (let h = hash_spec S (si_spec x)
      in if h \<in> fst ` set acc then inputs_by_hash S xs acc else inputs_by_hash S xs (acc @ [(h, x)]))"

definition new_source :: "ulid \<Rightarrow> feed \<Rightarrow> string \<Rightarrow> source_input \<Rightarrow> instant \<Rightarrow> ulid \<Rightarrow> source" where
  "new_source acct fd h x mark sid =
     \<lparr>so_id = sid, so_account = acct, so_feed = f_id fd, so_kind = SOURCE_KIND (si_spec x),
      so_spec = spec_dump (si_spec x), so_hash = h, so_last_event = Some mark,
      so_meta = si_meta x, so_field_map = si_field_map x\<rparr>"

text \<open>The marks of the added rows, in order; the first future one raises.\<close>

fun marks_of :: "source_input list \<Rightarrow> instant \<Rightarrow> exn + instant list" where
  "marks_of [] now = Inr []"
| "marks_of (x # xs) now =
     (case default_and_enforce_source_watermark (si_last_event x) now of
        Inl e \<Rightarrow> Inl e
      | Inr m \<Rightarrow> (case marks_of xs now of Inl e \<Rightarrow> Inl e | Inr ms \<Rightarrow> Inr (m # ms)))"

text \<open>Python compares dicts as sets of items.\<close>

definition same_dicts :: "source \<Rightarrow> source_input \<Rightarrow> bool" where
  "same_dicts s x \<longleftrightarrow> set (so_meta s) = set (si_meta x) \<and> set (so_field_map s) = set (si_field_map x)"

text \<open>One \<open>UPDATE\<close> per persisted row whose tags or hints the input changed.\<close>

definition refresh_source :: "ulid \<Rightarrow> feed \<Rightarrow> string \<Rightarrow> source_input \<Rightarrow> source list \<Rightarrow> source list" where
  "refresh_source acct fd h x rows =
     update_where (\<lambda>s. of_feed acct fd s \<and> so_hash s = h) (\<lambda>s. s\<lparr>so_meta := si_meta x, so_field_map := si_field_map x\<rparr>) rows"

definition set_result :: "string set \<Rightarrow> string set \<Rightarrow> source_set_result" where
  "set_result existing new =
     \<lparr>sr_added = card (new - existing), sr_removed = card (existing - new),
      sr_persisted = card (new \<inter> existing), sr_source_count = card new\<rparr>"

definition feed_hashes :: "ulid \<Rightarrow> feed \<Rightarrow> db \<Rightarrow> string set" where
  "feed_hashes acct fd d = so_hash ` set (filter (of_feed acct fd) (sources d))"

definition added_inputs :: "ulid \<Rightarrow> feed \<Rightarrow> (string \<times> source_input) list \<Rightarrow> db \<Rightarrow> (string \<times> source_input) list" where
  "added_inputs acct fd new d = filter (\<lambda>p. fst p \<notin> feed_hashes acct fd d) new"

definition dirty_inputs :: "ulid \<Rightarrow> feed \<Rightarrow> (string \<times> source_input) list \<Rightarrow> db \<Rightarrow> (string \<times> source_input) list" where
  "dirty_inputs acct fd new d =
     filter (\<lambda>(h, x). \<exists>s \<in> set (filter (of_feed acct fd) (sources d)). so_hash s = h \<and> \<not> same_dicts s x)
       (filter (\<lambda>p. fst p \<in> feed_hashes acct fd d) new)"

definition new_sources :: "ulid \<Rightarrow> feed \<Rightarrow> (string \<times> source_input) list \<Rightarrow> instant list \<Rightarrow> ulid list \<Rightarrow> source list" where
  "new_sources acct fd added marks ids =
     map (\<lambda>((h, x), m, i). new_source acct fd h x m i) (zip added (zip marks ids))"

text \<open>
  The transaction under the lock: delete what is gone, insert what is new, refresh what changed. A
  mark in the future raises and rolls it back. Which order a Python set of added hashes yields is not
  fixed: the model takes that of the input.
\<close>

definition write_sources :: "env \<Rightarrow> ulid \<Rightarrow> feed \<Rightarrow> (string \<times> source_input) list \<Rightarrow> instant \<Rightarrow> db
    \<Rightarrow> (exn + source_set_result) \<times> db" where
  "write_sources E acct fd new now d =
     (let existing = feed_hashes acct fd d;
          removed = existing - fst ` set new;
          added = added_inputs acct fd new d;
          kept = (if removed = {} then sources d
                  else delete_where (\<lambda>s. of_feed acct fd s \<and> so_hash s \<in> removed) (sources d))
      in case marks_of (map snd added) now of
           Inl e \<Rightarrow> (Inl e, d)
         | Inr marks \<Rightarrow>
             (let (ids, d1) = new_ids E (length added) d;
                  with_new = insert_ignore source_key (new_sources acct fd added marks ids) kept
              in (Inr (set_result existing (fst ` set new)),
                  d1\<lparr>sources := fold (\<lambda>(h, x). refresh_source acct fd h x) (dirty_inputs acct fd new d) with_new\<rparr>)))"

text \<open>\<open>set_sources\<close>; \<open>acquired\<close> says whether the feed's lock was.\<close>

definition set_sources :: "env \<Rightarrow> source_env \<Rightarrow> ulid \<Rightarrow> feed \<Rightarrow> source_input list \<Rightarrow> bool \<Rightarrow> bool \<Rightarrow> instant \<Rightarrow> db
    \<Rightarrow> (exn + source_set_result) \<times> db" where
  "set_sources E S acct fd items dry_run acquired now d =
     (case assert_curated acct fd of
        Some e \<Rightarrow> (Inl e, d)
      | None \<Rightarrow>
          if \<not> list_all (\<lambda>x. SOURCE_KIND (si_spec x) \<in> registered_kinds S) items then (Inl PolicyError, d)
          else if \<not> list_all (\<lambda>x. enforce_source_url_safety S (si_spec x)) items then (Inl PolicyError, d)
          else let new = inputs_by_hash S items []
               in if dry_run then (Inr (set_result (feed_hashes acct fd d) (fst ` set new)), d)
                  else if \<not> acquired then (Inl ConcurrentSetSourcesError, d)
                  else write_sources E acct fd new now d)"

subsection \<open>Facts\<close>

lemma inputs_by_hash_acc:
  assumes "distinct (map fst acc)"
  shows "distinct (map fst (inputs_by_hash S xs acc))
    \<and> fst ` set (inputs_by_hash S xs acc) = fst ` set acc \<union> (hash_spec S \<circ> si_spec) ` set xs
    \<and> set (inputs_by_hash S xs acc) \<subseteq> set acc \<union> (\<lambda>x. (hash_spec S (si_spec x), x)) ` set xs"
  using assms
proof (induction xs arbitrary: acc)
  case (Cons x xs)
  let ?h = "hash_spec S (si_spec x)"
  show ?case
  proof (cases "?h \<in> fst ` set acc")
    case True
    with Cons.IH[OF Cons.prems] show ?thesis by (auto simp: Let_def)
  next
    case False
    then have "distinct (map fst (acc @ [(?h, x)]))" using Cons.prems by auto
    from Cons.IH[OF this] False show ?thesis by (auto simp: Let_def)
  qed
qed simp

lemma inputs_by_hash:
  shows "distinct (map fst (inputs_by_hash S xs []))"
    and "fst ` set (inputs_by_hash S xs []) = (hash_spec S \<circ> si_spec) ` set xs"
    and "(h, x) \<in> set (inputs_by_hash S xs []) \<Longrightarrow> x \<in> set xs \<and> h = hash_spec S (si_spec x)"
  using inputs_by_hash_acc[of "[]" S xs] by auto

definition refreshed :: "ulid \<Rightarrow> feed \<Rightarrow> (string \<times> source_input) list \<Rightarrow> source \<Rightarrow> source" where
  "refreshed acct fd dirty s =
     (if of_feed acct fd s
      then (case map_of dirty (so_hash s) of Some x \<Rightarrow> s\<lparr>so_meta := si_meta x, so_field_map := si_field_map x\<rparr> | None \<Rightarrow> s)
      else s)"

lemma refreshed_simps [simp]:
  "so_id (refreshed acct fd xs s) = so_id s" "so_account (refreshed acct fd xs s) = so_account s"
  "so_feed (refreshed acct fd xs s) = so_feed s" "so_hash (refreshed acct fd xs s) = so_hash s"
  "so_last_event (refreshed acct fd xs s) = so_last_event s" "so_spec (refreshed acct fd xs s) = so_spec s"
  "so_kind (refreshed acct fd xs s) = so_kind s" "of_feed acct fd (refreshed acct fd xs s) = of_feed acct fd s"
  "source_key (refreshed acct fd xs s) = source_key s"
  unfolding refreshed_def of_feed_def source_key_def by (simp_all split: option.split)

lemma of_feed_tags [simp]: "of_feed acct fd (s\<lparr>so_meta := m, so_field_map := f\<rparr>) = of_feed acct fd s"
  by (simp add: of_feed_def)

lemma fold_refresh:
  "distinct (map fst dirty) \<Longrightarrow> fold (\<lambda>(h, x). refresh_source acct fd h x) dirty rows = map (refreshed acct fd dirty) rows"
proof (induction dirty arbitrary: rows)
  case Nil
  have "refreshed acct fd [] = (\<lambda>s. s)" by (auto simp: refreshed_def)
  then show ?case by simp
next
  case (Cons p dirty)
  obtain h x where p: "p = (h, x)" by fastforce
  have "refreshed acct fd dirty (if of_feed acct fd s \<and> so_hash s = h then s\<lparr>so_meta := si_meta x, so_field_map := si_field_map x\<rparr> else s)
      = refreshed acct fd (p # dirty) s" for s
  proof -
    have none: "map_of dirty h = None" using Cons.prems by (simp add: p map_of_eq_None_iff)
    show ?thesis
      by (cases "of_feed acct fd s"; cases "so_hash s = h") (auto simp: p refreshed_def none)
  qed
  with Cons show ?case by (simp add: p refresh_source_def update_where_def)
qed

lemma marks_of_length: "marks_of xs now = Inr ms \<Longrightarrow> length ms = length xs"
  by (induction xs arbitrary: ms) (auto split: sum.splits)

lemma new_sources_keys:
  assumes "length marks = length added" "length ids = length added"
  shows "map source_key (new_sources acct fd added marks ids) = map (\<lambda>p. (acct, f_id fd, fst p)) added"
  using assms by (intro nth_equalityI) (simp_all add: new_sources_def source_key_def new_source_def case_prod_unfold)

lemma new_sources_all:
  "s \<in> set (new_sources acct fd added marks ids) \<Longrightarrow>
     of_feed acct fd s \<and> (\<exists>x. (so_hash s, x) \<in> set added \<and> same_dicts s x \<and> so_last_event s \<noteq> None)"
  unfolding new_sources_def new_source_def of_feed_def same_dicts_def
  by (force dest: set_zip_leftD)

text \<open>The rows after a replace that succeeds: the kept ones refreshed, then the added ones.\<close>

lemma write_sources_eq:
  assumes "distinct (map fst new)" "write_sources E acct fd new now d = (Inr res, d')"
  shows "\<exists>fresh.
    sources d' = map (refreshed acct fd (dirty_inputs acct fd new d))
       (filter (\<lambda>s. of_feed acct fd s \<longrightarrow> so_hash s \<in> fst ` set new) (sources d)) @ fresh
    \<and> map source_key fresh = map (\<lambda>p. (acct, f_id fd, fst p)) (added_inputs acct fd new d)
    \<and> (\<forall>s \<in> set fresh. of_feed acct fd s \<and> (\<exists>x. (so_hash s, x) \<in> set (added_inputs acct fd new d)
         \<and> same_dicts s x \<and> so_last_event s \<noteq> None))
    \<and> res = set_result (feed_hashes acct fd d) (fst ` set new)
    \<and> d' = d\<lparr>drawn := drawn d + length (added_inputs acct fd new d), sources := sources d'\<rparr>"
proof -
  let ?added = "added_inputs acct fd new d"
  let ?kept = "filter (\<lambda>s. of_feed acct fd s \<longrightarrow> so_hash s \<in> fst ` set new) (sources d)"
  obtain marks where marks: "marks_of (map snd ?added) now = Inr marks"
    using assms(2) by (auto simp: write_sources_def Let_def split: sum.splits)
  let ?fresh = "new_sources acct fd ?added marks (fst (new_ids E (length ?added) d))"
  have len: "length marks = length ?added" using marks_of_length[OF marks] by simp
  have kept: "(if feed_hashes acct fd d - fst ` set new = {} then sources d
      else delete_where (\<lambda>s. of_feed acct fd s \<and> so_hash s \<in> feed_hashes acct fd d - fst ` set new) (sources d)) = ?kept"
  proof -
    have "delete_where (\<lambda>s. of_feed acct fd s \<and> so_hash s \<in> feed_hashes acct fd d - fst ` set new) (sources d) = ?kept"
      by (auto simp: delete_where_def feed_hashes_def intro!: filter_cong)
    moreover have "?kept = sources d" if "feed_hashes acct fd d - fst ` set new = {}"
      using that by (auto simp: feed_hashes_def filter_id_conv)
    ultimately show ?thesis by simp
  qed
  have keys: "map source_key ?fresh = map (\<lambda>p. (acct, f_id fd, fst p)) ?added"
    by (rule new_sources_keys) (simp_all add: len)
  have "distinct (map source_key ?fresh)"
    unfolding keys using assms(1) by (simp add: added_inputs_def distinct_map inj_on_def)
  moreover have "source_key ` set ?fresh \<inter> source_key ` set ?kept = {}"
  proof -
    have "source_key ` set ?fresh = (\<lambda>p. (acct, f_id fd, fst p)) ` set ?added"
      using arg_cong[OF keys, of set] by (simp only: set_map)
    then show ?thesis by (auto simp: source_key_def of_feed_def added_inputs_def feed_hashes_def)
  qed
  ultimately have ins: "insert_ignore source_key ?fresh ?kept = ?kept @ ?fresh" by (rule insert_ignore_all_new)
  have "distinct (map fst (dirty_inputs acct fd new d))"
    using assms(1) by (simp add: dirty_inputs_def distinct_map_filter)
  note fold = fold_refresh[OF this, of acct fd "?kept @ ?fresh"]
  have untouched: "refreshed acct fd (dirty_inputs acct fd new d) s = s" if "s \<in> set ?fresh" for s
  proof -
    have "map_of (dirty_inputs acct fd new d) (so_hash s) = None"
      using new_sources_all[OF that] by (auto simp: map_of_eq_None_iff dirty_inputs_def added_inputs_def)
    then show ?thesis by (simp add: refreshed_def)
  qed
  have same: "map (refreshed acct fd (dirty_inputs acct fd new d)) ?fresh = ?fresh" by (rule map_idI[OF untouched])
  have d': "d' = d\<lparr>drawn := drawn d + length ?added,
      sources := map (refreshed acct fd (dirty_inputs acct fd new d)) ?kept @ ?fresh\<rparr>"
    "res = set_result (feed_hashes acct fd d) (fst ` set new)"
    using assms(2) unfolding write_sources_def Let_def kept marks sum.case case_prod_unfold ins fold[unfolded case_prod_unfold]
      map_append same snd_new_ids by simp_all
  show ?thesis by (rule exI[of _ ?fresh]) (use d' keys new_sources_all in simp)
qed

lemma set_sources_ok:
  assumes "set_sources E S acct fd items False acquired now d = (Inr res, d')"
  shows "acquired \<and> write_sources E acct fd (inputs_by_hash S items []) now d = (Inr res, d')"
  using assms unfolding set_sources_def Let_def by (simp split: option.splits if_splits)

lemma set_sources_again:
  assumes "set_sources E S acct fd items False acquired now d = (Inr res, d')"
  shows "set_sources E S acct fd items False True later d'' = write_sources E acct fd (inputs_by_hash S items []) later d''"
  using assms unfolding set_sources_def Let_def by (simp split: option.splits if_splits)

lemma set_sources_error:
  "fst (set_sources E S acct fd items dry acquired now d) = Inl e \<Longrightarrow>
     snd (set_sources E S acct fd items dry acquired now d) = d"
  by (auto simp: set_sources_def write_sources_def Let_def split: option.splits sum.splits prod.splits if_splits)

lemma set_sources_hashes:
  assumes "set_sources E S acct fd items False acquired now d = (Inr res, d')"
  shows "feed_hashes acct fd d' = (hash_spec S \<circ> si_spec) ` set items"
    and "res = set_result (feed_hashes acct fd d) (feed_hashes acct fd d')"
    and "filter (\<lambda>s. \<not> of_feed acct fd s) (sources d') = filter (\<lambda>s. \<not> of_feed acct fd s) (sources d)"
proof -
  let ?new = "inputs_by_hash S items []"
  from set_sources_ok[OF assms] have w: "write_sources E acct fd ?new now d = (Inr res, d')" by simp
  obtain fresh where
    all: "sources d' = map (refreshed acct fd (dirty_inputs acct fd ?new d))
       (filter (\<lambda>s. of_feed acct fd s \<longrightarrow> so_hash s \<in> fst ` set ?new) (sources d)) @ fresh
    \<and> map source_key fresh = map (\<lambda>p. (acct, f_id fd, fst p)) (added_inputs acct fd ?new d)
    \<and> (\<forall>s \<in> set fresh. of_feed acct fd s \<and> (\<exists>x. (so_hash s, x) \<in> set (added_inputs acct fd ?new d)
         \<and> same_dicts s x \<and> so_last_event s \<noteq> None))
    \<and> res = set_result (feed_hashes acct fd d) (fst ` set ?new)
    \<and> d' = d\<lparr>drawn := drawn d + length (added_inputs acct fd ?new d), sources := sources d'\<rparr>"
    using write_sources_eq[OF inputs_by_hash(1) w] by (elim exE)
  note rows = all[THEN conjunct1] all[THEN conjunct2, THEN conjunct1]
    all[THEN conjunct2, THEN conjunct2, THEN conjunct1, rule_format, THEN conjunct1]
    all[THEN conjunct2, THEN conjunct2, THEN conjunct2, THEN conjunct1]
  have "so_hash ` set fresh = fst ` set (added_inputs acct fd ?new d)"
  proof -
    have "map so_hash fresh = map (snd \<circ> snd) (map source_key fresh)" by (simp add: source_key_def comp_def)
    also have "\<dots> = map fst (added_inputs acct fd ?new d)" by (simp add: rows(2) comp_def)
    finally show ?thesis by (metis set_map)
  qed
  moreover have "feed_hashes acct fd d' = (feed_hashes acct fd d \<inter> fst ` set ?new) \<union> so_hash ` set fresh"
  proof -
    have "filter (of_feed acct fd) fresh = fresh" using rows(3) by (simp add: filter_id_conv)
    moreover have "filter (of_feed acct fd) (map (refreshed acct fd (dirty_inputs acct fd ?new d)) xs)
        = map (refreshed acct fd (dirty_inputs acct fd ?new d)) (filter (of_feed acct fd) xs)" for xs
      by (simp add: filter_map comp_def)
    ultimately have "set (filter (of_feed acct fd) (sources d')) =
        refreshed acct fd (dirty_inputs acct fd ?new d) ` {s \<in> set (sources d). of_feed acct fd s \<and> so_hash s \<in> fst ` set ?new}
        \<union> set fresh" by (auto simp: rows(1))
    then have "feed_hashes acct fd d' =
        so_hash ` {s \<in> set (sources d). of_feed acct fd s \<and> so_hash s \<in> fst ` set ?new} \<union> so_hash ` set fresh"
      by (simp add: feed_hashes_def image_Un image_image)
    moreover have "so_hash ` {s \<in> set (sources d). of_feed acct fd s \<and> so_hash s \<in> N} =
        so_hash ` {s \<in> set (sources d). of_feed acct fd s} \<inter> N" for N by auto
    ultimately show ?thesis by (simp add: feed_hashes_def)
  qed
  ultimately have "feed_hashes acct fd d' = fst ` set ?new" by (auto simp: added_inputs_def)
  then show "feed_hashes acct fd d' = (hash_spec S \<circ> si_spec) ` set items"
    "res = set_result (feed_hashes acct fd d) (feed_hashes acct fd d')"
    using rows(4) by (simp_all add: inputs_by_hash(2))
  have "filter (\<lambda>s. \<not> of_feed acct fd s) fresh = []" using rows(3) by (simp add: filter_empty_conv)
  moreover have "refreshed acct fd (dirty_inputs acct fd ?new d) s = s" if "\<not> of_feed acct fd s" for s
    using that by (simp add: refreshed_def)
  then have "filter (\<lambda>s. \<not> of_feed acct fd s) (map (refreshed acct fd (dirty_inputs acct fd ?new d)) xs)
      = filter (\<lambda>s. \<not> of_feed acct fd s) xs" for xs
    by (induction xs) simp_all
  ultimately show "filter (\<lambda>s. \<not> of_feed acct fd s) (sources d') = filter (\<lambda>s. \<not> of_feed acct fd s) (sources d)"
    by (auto simp: rows(1) intro!: filter_cong)
qed

text \<open>A source that stays keeps its row and its watermark, with the submitted tags and hints.\<close>

lemma set_sources_rows:
  assumes "set_sources E S acct fd items False acquired now d = (Inr res, d')"
  shows "s \<in> set (sources d) \<Longrightarrow> of_feed acct fd s \<Longrightarrow> so_hash s \<in> feed_hashes acct fd d' \<Longrightarrow>
      \<exists>s' \<in> set (sources d'). so_id s' = so_id s \<and> so_hash s' = so_hash s \<and> so_last_event s' = so_last_event s
        \<and> so_spec s' = so_spec s"
    and "s' \<in> set (sources d') \<Longrightarrow> of_feed acct fd s' \<Longrightarrow> (so_hash s', x) \<in> set (inputs_by_hash S items []) \<Longrightarrow> same_dicts s' x"
    and "s' \<in> set (sources d') \<Longrightarrow> of_feed acct fd s' \<Longrightarrow>
      (\<exists>s \<in> set (sources d). so_id s' = so_id s \<and> so_last_event s' = so_last_event s) \<or> so_last_event s' \<noteq> None"
proof -
  let ?new = "inputs_by_hash S items []" let ?dirty = "dirty_inputs acct fd ?new d"
  from set_sources_ok[OF assms] have w: "write_sources E acct fd ?new now d = (Inr res, d')" by simp
  obtain fresh where
    all: "sources d' = map (refreshed acct fd ?dirty)
       (filter (\<lambda>s. of_feed acct fd s \<longrightarrow> so_hash s \<in> fst ` set ?new) (sources d)) @ fresh
    \<and> map source_key fresh = map (\<lambda>p. (acct, f_id fd, fst p)) (added_inputs acct fd ?new d)
    \<and> (\<forall>s \<in> set fresh. of_feed acct fd s \<and> (\<exists>x. (so_hash s, x) \<in> set (added_inputs acct fd ?new d)
         \<and> same_dicts s x \<and> so_last_event s \<noteq> None))
    \<and> res = set_result (feed_hashes acct fd d) (fst ` set ?new)
    \<and> d' = d\<lparr>drawn := drawn d + length (added_inputs acct fd ?new d), sources := sources d'\<rparr>"
    using write_sources_eq[OF inputs_by_hash(1) w] by (elim exE)
  note rows = all[THEN conjunct1] all[THEN conjunct2, THEN conjunct2, THEN conjunct1, rule_format]
  have hashes: "feed_hashes acct fd d' = fst ` set ?new" using set_sources_hashes(1)[OF assms] by (simp add: inputs_by_hash(2))
  {
    assume "s \<in> set (sources d)" "of_feed acct fd s" "so_hash s \<in> feed_hashes acct fd d'"
    then have "refreshed acct fd ?dirty s \<in> set (sources d')" by (simp add: rows(1) hashes)
    then show "\<exists>s' \<in> set (sources d'). so_id s' = so_id s \<and> so_hash s' = so_hash s \<and> so_last_event s' = so_last_event s
        \<and> so_spec s' = so_spec s" by (intro bexI) simp_all
  }
  have one: "y = x" if "(h, x) \<in> set ?new" "(h, y) \<in> set ?new" for h x y
    by (rule eq_key_imp_eq_value[OF inputs_by_hash(1) that(2,1)])
  {
    assume s': "s' \<in> set (sources d')" "of_feed acct fd s'" "(so_hash s', x) \<in> set ?new"
    from s'(1) consider s where "s \<in> set (sources d)" "s' = refreshed acct fd ?dirty s" | "s' \<in> set fresh"
      by (auto simp: rows(1))
    then show "same_dicts s' x"
    proof cases
      case 1
      show ?thesis
      proof (cases "same_dicts s x")
        case True
        have "map_of ?dirty (so_hash s) = None \<or> map_of ?dirty (so_hash s) = Some x"
        proof (cases "map_of ?dirty (so_hash s)")
          case (Some y)
          then have "(so_hash s, y) \<in> set ?new" using map_of_SomeD[OF Some] by (simp add: dirty_inputs_def)
          moreover have "(so_hash s, x) \<in> set ?new" using s'(3) 1(2) by simp
          ultimately have "y = x" using one by simp
          with Some show ?thesis by simp
        qed simp
        then show ?thesis using True s'(2)
          by (elim disjE) (simp_all add: 1(2) refreshed_def same_dicts_def)
      next
        case False
        then have "(so_hash s, x) \<in> set ?dirty" using 1 s'(2,3) by (auto simp: dirty_inputs_def feed_hashes_def)
        moreover have "distinct (map fst ?dirty)"
          using inputs_by_hash(1)[of S items] by (simp add: dirty_inputs_def distinct_map_filter)
        ultimately have "map_of ?dirty (so_hash s) = Some x" by simp
        moreover have "of_feed acct fd s" using s'(2) 1(2) by simp
        ultimately show ?thesis by (simp add: 1(2) refreshed_def same_dicts_def)
      qed
    next
      case 2
      from rows(2)[OF 2] obtain y where y: "(so_hash s', y) \<in> set (added_inputs acct fd ?new d)" "same_dicts s' y" by blast
      then have "(so_hash s', y) \<in> set ?new" by (simp add: added_inputs_def)
      with one[OF s'(3)] y(2) show ?thesis by simp
    qed
  }
  assume "s' \<in> set (sources d')" "of_feed acct fd s'"
  then show "(\<exists>s \<in> set (sources d). so_id s' = so_id s \<and> so_last_event s' = so_last_event s) \<or> so_last_event s' \<noteq> None"
    using rows(2) by (auto simp: rows(1))
qed

lemma set_sources_twice:
  assumes "set_sources E S acct fd items False acquired now d = (Inr res, d')"
  shows "set_sources E S acct fd items False True later d' =
    (Inr (set_result (feed_hashes acct fd d') (feed_hashes acct fd d')), d')"
proof -
  let ?new = "inputs_by_hash S items []"
  have hashes: "feed_hashes acct fd d' = fst ` set ?new" using set_sources_hashes(1)[OF assms] by (simp add: inputs_by_hash(2))
  then have "added_inputs acct fd ?new d' = []" by (auto simp: added_inputs_def filter_empty_conv)
  moreover have "dirty_inputs acct fd ?new d' = []"
    using set_sources_rows(2)[OF assms] by (auto simp: dirty_inputs_def filter_empty_conv)
  ultimately show ?thesis unfolding set_sources_again[OF assms]
    by (simp add: write_sources_def hashes new_ids_def new_sources_def Let_def)
qed

end
