(* ===== verification/Polling.thy ===== *)
theory Polling
  imports Sources
begin

text \<open>
  A poll of a feed (feeds/services/polling.py), its combined reddit requests (\_reddit\_batch.py) and
  the pass over the due feeds (poll\_due\_feeds). A connector is a parameter: what it yields before it
  ends or raises may differ at every call, so it is given the number of the call. So is the
  heartbeat, which renews the poll lease, and the order of \<open>ORDER BY RANDOM()\<close>.
\<close>

type_synonym stream = "source_payload list \<times> exn option"

record poll_env =
  connector_of :: "string \<Rightarrow> (source_spec \<Rightarrow> instant \<Rightarrow> (string \<times> string) list \<Rightarrow> nat \<Rightarrow> stream) option"
  reddit_combined :: "(string list \<Rightarrow> instant option \<Rightarrow> nat \<Rightarrow> stream) option"
  beat :: "nat \<Rightarrow> bool"
  shuffled :: "nat \<Rightarrow> source list \<Rightarrow> source list"
  min_ulid :: "instant \<Rightarrow> ulid"

definition RECOVERABLE_ERRORS :: "exn set" where
  "RECOVERABLE_ERRORS = {HTTPError, ValidationError, ConnectionError, ConnectorParseError, KeyError}"

definition REDDIT_KIND :: string where
  "REDDIT_KIND = ''reddit_subreddit''"

definition tick :: "db \<Rightarrow> db" where
  "tick d = d\<lparr>calls := Suc (calls d)\<rparr>"

definition lower :: "string \<Rightarrow> string" where
  "lower s = map to_lower s"

lemma lower_idem [simp]: "lower (lower s) = lower s"
  by (simp add: lower_def)

lemma address_normal: "lower (strip (lower (strip s))) = lower (strip s)"
  by (simp add: lower_def strip_map_lower)

subsection \<open>One source\<close>

text \<open>\<open>_PolledSource\<close>: the newest occurrence among the payloads that flowed.\<close>

fun polled_newest :: "instant \<Rightarrow> source_payload list \<Rightarrow> instant" where
  "polled_newest newest [] = newest"
| "polled_newest newest (pl # pls) =
     polled_newest (if newest < instant_of (pl_occurred pl) then instant_of (pl_occurred pl) else newest) pls"

text \<open>\<open>record_items\<close> over a stream: an error loses the chunk that was filling, not the recorded ones.\<close>

definition RECORD_CHUNK :: nat where
  "RECORD_CHUNK = 200"

definition record_stream :: "env \<Rightarrow> ulid \<Rightarrow> feed \<Rightarrow> string \<Rightarrow> stream \<Rightarrow> (string \<times> string) list \<Rightarrow> db \<Rightarrow> (exn + nat) \<times> db" where
  "record_stream E acct fd label strm meta d =
     (case strm of
        (payloads, None) \<Rightarrow> record_items E acct fd label payloads meta RECORD_CHUNK d
      | (payloads, Some e) \<Rightarrow>
          if f_account fd \<noteq> acct then (Inl ValueError, d)
          else (Inl e, snd (record_chunks E acct (f_id fd) label meta
                  (batched RECORD_CHUNK (take (length payloads div RECORD_CHUNK * RECORD_CHUNK) payloads)) d)))"

text \<open>\<open>{**a, **b}\<close>.\<close>

definition dict_union :: "(string \<times> string) list \<Rightarrow> (string \<times> string) list \<Rightarrow> (string \<times> string) list" where
  "dict_union a b =
     map (\<lambda>(k, v). (k, case map_of b k of Some w \<Rightarrow> w | None \<Rightarrow> v)) a @ filter (\<lambda>(k, v). k \<notin> fst ` set a) b"

definition poll_source :: "env \<Rightarrow> source_env \<Rightarrow> poll_env \<Rightarrow> ulid \<Rightarrow> feed \<Rightarrow> curated_config \<Rightarrow> source \<Rightarrow> source_spec
    \<Rightarrow> db \<Rightarrow> (exn + nat \<times> nat) \<times> db" where
  "poll_source E S P acct fd cfg src spec d =
     (let field_map = dict_union (default_field_map cfg) (so_field_map src)
      in case connector_of P (SOURCE_KIND spec) of
           None \<Rightarrow> (Inl KeyError, d)
         | Some poll \<Rightarrow>
             (case so_last_event src of
                None \<Rightarrow> (Inl AttributeError, d)
              | Some since \<Rightarrow>
                  (let strm = poll spec since field_map (calls d)
                   in case record_stream E acct fd (spec_display (py_str S) spec) strm (so_meta src) (tick d) of
                        (Inl e, d1) \<Rightarrow> (Inl e, d1)
                      | (Inr recorded, d1) \<Rightarrow>
                          (let newest = polled_newest since (fst strm);
                               d2 = (if newest \<noteq> since then snd (source_advance acct (so_id src) newest d1) else d1)
                           in (Inr (length (fst strm), recorded), d2)))))"

subsection \<open>The reddit sources of a feed\<close>

fun parse_reddit :: "source_env \<Rightarrow> string set \<Rightarrow> source list \<Rightarrow> (source \<times> string) list" where
  "parse_reddit S seen [] = []"
| "parse_reddit S seen (src # srcs) =
     (case spec_adapter S (so_spec src) of
        Some (RedditSubredditSourceSpec sub) \<Rightarrow>
          if lower sub \<in> seen then parse_reddit S seen srcs
          else (src, sub) # parse_reddit S (insert (lower sub) seen) srcs
      | _ \<Rightarrow> parse_reddit S seen srcs)"

definition MAX_COMBINED_URL_BYTES :: nat where
  "MAX_COMBINED_URL_BYTES = 7500"

definition COMBINED_URL_OVERHEAD :: nat where
  "COMBINED_URL_OVERHEAD = 75"

fun url_budget_chunks :: "nat \<Rightarrow> (source \<times> string) list \<Rightarrow> nat \<Rightarrow> (source \<times> string) list \<Rightarrow> (source \<times> string) list list" where
  "url_budget_chunks budget cur used [] = (if cur = [] then [] else [cur])"
| "url_budget_chunks budget cur used (p # ps) =
     (let add = length (snd p) + (if cur = [] then 0 else 1)
      in if cur \<noteq> [] \<and> budget < used + add
         then cur # url_budget_chunks budget [p] add ps
         else url_budget_chunks budget (cur @ [p]) (used + add) ps)"

definition iter_url_budget_chunks :: "(source \<times> string) list \<Rightarrow> (source \<times> string) list list" where
  "iter_url_budget_chunks pairs = url_budget_chunks (MAX_COMBINED_URL_BYTES - COMBINED_URL_OVERHEAD) [] 0 pairs"

definition min_mark :: "instant list \<Rightarrow> instant option" where
  "min_mark ms = (case ms of [] \<Rightarrow> None | m # rest \<Rightarrow> Some (fold min rest m))"

definition max_occurred :: "source_payload list \<Rightarrow> instant option" where
  "max_occurred pls = (case map (\<lambda>p. instant_of (pl_occurred p)) pls of [] \<Rightarrow> None | m # rest \<Rightarrow> Some (fold max rest m))"

text \<open>A sub's own posts of the combined fetch, from its own mark on.\<close>

definition bucket :: "source \<Rightarrow> string \<Rightarrow> source_payload list \<Rightarrow> source_payload list" where
  "bucket src sub pls =
     (let items = filter (\<lambda>p. lower (pl_subreddit p) = lower sub) pls
      in case so_last_event src of None \<Rightarrow> items
         | Some m \<Rightarrow> filter (\<lambda>p. m \<le> instant_of (pl_occurred p)) items)"

fun scatter :: "env \<Rightarrow> source_env \<Rightarrow> ulid \<Rightarrow> feed \<Rightarrow> source_payload list \<Rightarrow> (source \<times> string) list \<Rightarrow> db
    \<Rightarrow> (exn + nat \<times> nat) \<times> db" where
  "scatter E S acct fd pls [] d = (Inr (0, 0), d)"
| "scatter E S acct fd pls ((src, sub) # rest) d =
     (let items = bucket src sub pls
      in case record_items E acct fd (spec_display (py_str S) (RedditSubredditSourceSpec sub)) items (so_meta src) RECORD_CHUNK d of
           (Inl e, d1) \<Rightarrow> (Inl e, d1)
         | (Inr recorded, d1) \<Rightarrow>
             (let d2 = (case max_occurred items of
                          None \<Rightarrow> d1
                        | Some newest \<Rightarrow>
                            if (case so_last_event src of None \<Rightarrow> True | Some m \<Rightarrow> m < newest)
                            then snd (source_advance acct (so_id src) newest d1) else d1)
              in case scatter E S acct fd pls rest d2 of
                   (Inl e, d3) \<Rightarrow> (Inl e, d3)
                 | (Inr (obs, rcd), d3) \<Rightarrow> (Inr (length items + obs, recorded + rcd), d3)))"

definition poll_chunk :: "env \<Rightarrow> source_env \<Rightarrow> (string list \<Rightarrow> instant option \<Rightarrow> nat \<Rightarrow> stream) \<Rightarrow> ulid \<Rightarrow> feed
    \<Rightarrow> (source \<times> string) list \<Rightarrow> db \<Rightarrow> (exn + nat \<times> nat \<times> nat) \<times> db" where
  "poll_chunk E S combined acct fd chunk d =
     (let since = min_mark (List.map_filter (\<lambda>(src, sub). so_last_event src) chunk);
          strm = combined (map snd chunk) since (calls d)
      in case strm of
           (pls, Some e) \<Rightarrow> if e \<in> RECOVERABLE_ERRORS then (Inr (0, 0, 0), tick d) else (Inl e, tick d)
         | (pls, None) \<Rightarrow>
             (case scatter E S acct fd pls chunk (tick d) of
                (Inl e, d1) \<Rightarrow> (Inl e, d1)
              | (Inr (obs, rcd), d1) \<Rightarrow> (Inr (obs, rcd, length chunk), d1)))"

fun poll_chunks :: "env \<Rightarrow> source_env \<Rightarrow> poll_env \<Rightarrow> (string list \<Rightarrow> instant option \<Rightarrow> nat \<Rightarrow> stream) \<Rightarrow> ulid \<Rightarrow> feed
    \<Rightarrow> (source \<times> string) list list \<Rightarrow> nat \<times> nat \<times> nat \<Rightarrow> db \<Rightarrow> (exn + nat \<times> nat \<times> nat) \<times> db" where
  "poll_chunks E S P combined acct fd [] acc d = (Inr acc, d)"
| "poll_chunks E S P combined acct fd (chunk # chunks) acc d =
     (if \<not> beat P (calls d) then (Inr acc, tick d)
      else case poll_chunk E S combined acct fd chunk (tick d) of
             (Inl e, d1) \<Rightarrow> (Inl e, d1)
           | (Inr (obs, rcd, ok), d1) \<Rightarrow>
               poll_chunks E S P combined acct fd chunks (fst acc + obs, fst (snd acc) + rcd, snd (snd acc) + ok) d1)"

definition poll_reddit_group :: "env \<Rightarrow> source_env \<Rightarrow> poll_env \<Rightarrow> ulid \<Rightarrow> feed \<Rightarrow> source list \<Rightarrow> db
    \<Rightarrow> (exn + nat \<times> nat \<times> nat) \<times> db" where
  "poll_reddit_group E S P acct fd srcs d =
     (case reddit_combined P of
        None \<Rightarrow> (Inl KeyError, d)
      | Some combined \<Rightarrow>
          poll_chunks E S P combined acct fd (iter_url_budget_chunks (parse_reddit S {} srcs)) (0, 0, 0) d)"

subsection \<open>One feed\<close>

text \<open>
  The sources that are polled one by one. A lost lease ends the loop, a spec that does not parse is
  skipped, an expected error of a source is logged and any other one raised.
\<close>

fun poll_each :: "env \<Rightarrow> source_env \<Rightarrow> poll_env \<Rightarrow> ulid \<Rightarrow> feed \<Rightarrow> curated_config \<Rightarrow> source list
    \<Rightarrow> nat \<times> nat \<times> nat \<Rightarrow> db \<Rightarrow> (exn + nat \<times> nat \<times> nat) \<times> db" where
  "poll_each E S P acct fd cfg [] acc d = (Inr acc, d)"
| "poll_each E S P acct fd cfg (src # srcs) acc d =
     (if \<not> beat P (calls d) then (Inr acc, tick d)
      else case spec_adapter S (so_spec src) of
             None \<Rightarrow> poll_each E S P acct fd cfg srcs acc (tick d)
           | Some spec \<Rightarrow>
               (case poll_source E S P acct fd cfg src spec (tick d) of
                  (Inr (obs, rcd), d1) \<Rightarrow>
                    poll_each E S P acct fd cfg srcs (fst acc + obs, fst (snd acc) + rcd, Suc (snd (snd acc))) d1
                | (Inl e, d1) \<Rightarrow>
                    if e \<in> RECOVERABLE_ERRORS then poll_each E S P acct fd cfg srcs acc d1 else (Inl e, d1)))"

text \<open>The polling half of \<open>run\<close>: the reddit group, whose expected errors are logged, then the rest.\<close>

definition poll_cycle :: "env \<Rightarrow> source_env \<Rightarrow> poll_env \<Rightarrow> ulid \<Rightarrow> feed \<Rightarrow> curated_config \<Rightarrow> db
    \<Rightarrow> (exn + nat \<times> nat \<times> nat) \<times> db" where
  "poll_cycle E S P acct fd cfg d =
     (case iter_by_kind (shuffled P (calls d)) acct fd REDDIT_KIND d of
        Inl e \<Rightarrow> (Inl e, d)
      | Inr reddit \<Rightarrow>
          (let (res, d1) = poll_reddit_group E S P acct fd reddit (tick d)
           in case (case res of Inr acc \<Rightarrow> Inr acc
                     | Inl e \<Rightarrow> if e \<in> RECOVERABLE_ERRORS then Inr (0, 0, 0) else Inl e) of
                Inl e \<Rightarrow> (Inl e, d1)
              | Inr acc \<Rightarrow>
                  (case iter_for_poll (shuffled P (calls d1)) acct fd {REDDIT_KIND} d1 of
                     Inl e \<Rightarrow> (Inl e, d1)
                   | Inr rest \<Rightarrow> poll_each E S P acct fd cfg rest acc (tick d1))))"

text \<open>\<open>update_poll_state\<close>; the poll never passes a config to write.\<close>

definition update_poll_state :: "ulid \<Rightarrow> feed \<Rightarrow> instant \<Rightarrow> db \<Rightarrow> (exn + unit) \<times> db" where
  "update_poll_state acct fd last_polled d =
     (if f_account fd \<noteq> acct then (Inl ValueError, d)
      else if count_where (\<lambda>f. f_id f = f_id fd) (feeds d) = 0 then (Inl DatabaseError, d)
      else (Inr (), d\<lparr>feeds := update_where (\<lambda>f. f_id f = f_id fd)
                       (\<lambda>f. f\<lparr>f_last_polled := Some last_polled,
                               f_next_poll := Some (last_polled + seconds (f_poll_interval fd))\<rparr>) (feeds d)\<rparr>))"

record poll_result =
  pr_observed :: nat
  pr_recorded :: nat
  pr_pruned :: nat

definition poll_run :: "env \<Rightarrow> source_env \<Rightarrow> poll_env \<Rightarrow> feed \<Rightarrow> instant \<Rightarrow> db \<Rightarrow> (exn + poll_result) \<times> db" where
  "poll_run E S P fd now d =
     (case load_feed_config S fd of
        Inl e \<Rightarrow> (Inl e, d)
      | Inr cfg \<Rightarrow>
          (let acct = f_account fd in
           case source_count acct fd d of
             Inl e \<Rightarrow> (Inl e, d)
           | Inr total_sources \<Rightarrow>
               (case poll_cycle E S P acct fd cfg d of
                  (Inl e, d1) \<Rightarrow> (Inl e, d1)
                | (Inr (obs, rcd, ok), d1) \<Rightarrow>
                    (case update_poll_state acct fd now d1 of
                       (Inl e, d2) \<Rightarrow> (Inl e, d2)
                     | (Inr _, d2) \<Rightarrow>
                         if 0 < total_sources \<and> ok = 0
                         then (Inr \<lparr>pr_observed = obs, pr_recorded = rcd, pr_pruned = 0\<rparr>, d2)
                         else case prune_items (min_ulid P) acct fd (retention_days cfg) now d2 of
                                (Inl e, d3) \<Rightarrow> (Inl e, d3)
                              | (Inr pruned, d3) \<Rightarrow>
                                  (Inr \<lparr>pr_observed = obs, pr_recorded = rcd, pr_pruned = pruned\<rparr>, d3)))))"

text \<open>\<open>poll_feed\<close>: \<open>acquired\<close> says whether the feed's poll lock was.\<close>

definition poll_feed :: "env \<Rightarrow> source_env \<Rightarrow> poll_env \<Rightarrow> feed \<Rightarrow> bool \<Rightarrow> instant \<Rightarrow> db
    \<Rightarrow> (exn + poll_result option) \<times> db" where
  "poll_feed E S P fd acquired now d =
     (if \<not> acquired then (Inr None, d)
      else case poll_run E S P fd now d of (Inl e, d') \<Rightarrow> (Inl e, d') | (Inr r, d') \<Rightarrow> (Inr (Some r), d'))"

subsection \<open>The pass\<close>

definition due_for_poll :: "instant \<Rightarrow> feed \<Rightarrow> bool" where
  "due_for_poll now f \<longleftrightarrow> f_active f \<and> (case f_next_poll f of None \<Rightarrow> True | Some t \<Rightarrow> t \<le> now)"

definition iter_due_for_poll :: "instant \<Rightarrow> db \<Rightarrow> feed list" where
  "iter_due_for_poll now d = filter (due_for_poll now) (feeds d)"

record poll_pass =
  pp_feeds :: nat
  pp_observed :: nat
  pp_recorded :: nat
  pp_skipped :: nat
  pp_failed :: nat

text \<open>A feed that raises is counted and does not keep the later ones from being polled.\<close>

fun poll_feeds :: "env \<Rightarrow> source_env \<Rightarrow> poll_env \<Rightarrow> (nat \<Rightarrow> bool) \<Rightarrow> instant \<Rightarrow> feed list \<Rightarrow> poll_pass \<Rightarrow> db
    \<Rightarrow> poll_pass \<times> db" where
  "poll_feeds E S P locked now [] p d = (p, d)"
| "poll_feeds E S P locked now (fd # fds) p d =
     (case poll_feed E S P fd (\<not> locked (calls d)) now (tick d) of
        (Inl e, d1) \<Rightarrow> poll_feeds E S P locked now fds (p\<lparr>pp_failed := Suc (pp_failed p)\<rparr>) d1
      | (Inr None, d1) \<Rightarrow> poll_feeds E S P locked now fds (p\<lparr>pp_skipped := Suc (pp_skipped p)\<rparr>) d1
      | (Inr (Some r), d1) \<Rightarrow>
          poll_feeds E S P locked now fds
            (p\<lparr>pp_feeds := Suc (pp_feeds p), pp_observed := pp_observed p + pr_observed r,
               pp_recorded := pp_recorded p + pr_recorded r\<rparr>) d1)"

definition poll_due_feeds :: "env \<Rightarrow> source_env \<Rightarrow> poll_env \<Rightarrow> (nat \<Rightarrow> bool) \<Rightarrow> instant \<Rightarrow> db \<Rightarrow> poll_pass \<times> db" where
  "poll_due_feeds E S P locked now d =
     poll_feeds E S P locked now (iter_due_for_poll now d)
       \<lparr>pp_feeds = 0, pp_observed = 0, pp_recorded = 0, pp_skipped = 0, pp_failed = 0\<rparr> d"

subsection \<open>Chunks of the combined request\<close>

text \<open>The URL of a chunk: its slugs joined by \<open>+\<close>.\<close>

definition joined_length :: "(source \<times> string) list \<Rightarrow> nat" where
  "joined_length chunk = sum_list (map (\<lambda>p. length (snd p)) chunk) + (length chunk - 1)"

lemma url_budget_chunks:
  assumes "joined_length cur \<le> used" "joined_length cur \<le> budget" "\<And>p. p \<in> set ps \<Longrightarrow> length (snd p) \<le> budget"
  shows "concat (url_budget_chunks budget cur used ps) = cur @ ps
    \<and> (\<forall>c \<in> set (url_budget_chunks budget cur used ps). c \<noteq> [] \<and> joined_length c \<le> budget)"
  using assms
proof (induction ps arbitrary: cur used)
  case (Cons p ps)
  let ?add = "length (snd p) + (if cur = [] then 0 else 1)"
  have later: "length (snd q) \<le> budget" if "q \<in> set ps" for q using Cons.prems(3) that by simp
  show ?case
  proof (cases "cur \<noteq> [] \<and> budget < used + ?add")
    case True
    have step: "url_budget_chunks budget cur used (p # ps) = cur # url_budget_chunks budget [p] ?add ps"
      unfolding url_budget_chunks.simps Let_def by (rule if_P[OF True])
    have "joined_length [p] \<le> ?add" "joined_length [p] \<le> budget"
      using Cons.prems(3) by (simp_all add: joined_length_def)
    note IH = Cons.IH[OF this later]
    have "cur \<noteq> []" using True by (rule conjunct1)
    with IH Cons.prems(2) show ?thesis unfolding step by simp
  next
    case False
    have step: "url_budget_chunks budget cur used (p # ps) = url_budget_chunks budget (cur @ [p]) (used + ?add) ps"
      unfolding url_budget_chunks.simps Let_def by (rule if_not_P[OF False])
    have "joined_length (cur @ [p]) \<le> used + ?add" "joined_length (cur @ [p]) \<le> budget"
      using Cons.prems(1) Cons.prems(3)[of p] False by (cases cur; simp add: joined_length_def)+
    note IH = Cons.IH[OF this later]
    then show ?thesis unfolding step append_assoc append_Cons append_Nil .
  qed
qed (auto simp: joined_length_def)

lemma iter_url_budget_chunks:
  assumes "\<And>p. p \<in> set pairs \<Longrightarrow> length (snd p) \<le> MAX_SUBREDDIT_LENGTH"
  shows "concat (iter_url_budget_chunks pairs) = pairs"
    and "c \<in> set (iter_url_budget_chunks pairs) \<Longrightarrow> c \<noteq> [] \<and> joined_length c + COMBINED_URL_OVERHEAD \<le> MAX_COMBINED_URL_BYTES"
proof -
  have "length (snd p) \<le> MAX_COMBINED_URL_BYTES - COMBINED_URL_OVERHEAD" if "p \<in> set pairs" for p
    using assms[OF that] by (simp add: MAX_SUBREDDIT_LENGTH_def MAX_COMBINED_URL_BYTES_def COMBINED_URL_OVERHEAD_def)
  from url_budget_chunks[of "[]" 0, OF _ _ this]
  show "concat (iter_url_budget_chunks pairs) = pairs"
    and "c \<in> set (iter_url_budget_chunks pairs) \<Longrightarrow> c \<noteq> [] \<and> joined_length c + COMBINED_URL_OVERHEAD \<le> MAX_COMBINED_URL_BYTES"
    by (auto simp: iter_url_budget_chunks_def joined_length_def MAX_COMBINED_URL_BYTES_def COMBINED_URL_OVERHEAD_def)
qed

text \<open>No sub is fetched twice, whatever case its rows write it in.\<close>

lemma parse_reddit:
  "distinct (map (lower \<circ> snd) (parse_reddit S seen srcs))
    \<and> (\<forall>p \<in> set (parse_reddit S seen srcs). lower (snd p) \<notin> seen \<and> fst p \<in> set srcs
        \<and> spec_adapter S (so_spec (fst p)) = Some (RedditSubredditSourceSpec (snd p)))"
proof (induction S seen srcs rule: parse_reddit.induct)
  case (2 S seen src srcs)
  show ?case
  proof (cases "spec_adapter S (so_spec src)")
    case (Some spec)
    show ?thesis
    proof (cases spec)
      case (RedditSubredditSourceSpec sub)
      let ?rest = "parse_reddit S (insert (lower sub) seen) srcs"
      have "lower sub \<notin> (lower \<circ> snd) ` set ?rest" if "lower sub \<notin> seen"
        using "2.IH"(3)[OF Some RedditSubredditSourceSpec that] by fastforce
      with 2 Some RedditSubredditSourceSpec show ?thesis by auto
    qed (use 2 Some in auto)
  qed (use 2 in auto)
qed simp

subsection \<open>What a poll may change\<close>

fun mark_le :: "instant option \<Rightarrow> instant option \<Rightarrow> bool" where
  "mark_le None m = True"
| "mark_le (Some a) None = False"
| "mark_le (Some a) (Some b) = (a \<le> b)"

lemma mark_le_refl [simp]: "mark_le m m"
  by (cases m) simp_all

lemma mark_le_trans: "mark_le a b \<Longrightarrow> mark_le b c \<Longrightarrow> mark_le a c"
  by (cases a; cases b; cases c) simp_all

text \<open>
  Of the rows of the sources, only the mark of a polled one moves, and forward; the item log only
  grows; the feeds are as they were.
\<close>

definition moved :: "ulid set \<Rightarrow> source \<Rightarrow> source \<Rightarrow> bool" where
  "moved ids s s' \<longleftrightarrow> s' = s\<lparr>so_last_event := so_last_event s'\<rparr> \<and> mark_le (so_last_event s) (so_last_event s')
     \<and> (so_id s \<in> ids \<or> s' = s)"

definition polled :: "ulid set \<Rightarrow> db \<Rightarrow> db \<Rightarrow> bool" where
  "polled ids d d' \<longleftrightarrow> list_all2 (moved ids) (sources d) (sources d') \<and> set (feed_items d) \<subseteq> set (feed_items d')
     \<and> feeds d' = feeds d"

lemma moved_refl [simp]: "moved ids s s"
  by (simp add: moved_def)

lemma moved_trans:
  assumes "moved ids a b" "moved ids b c"
  shows "moved ids a c"
proof -
  have "b = a\<lparr>so_last_event := so_last_event b\<rparr>" "c = b\<lparr>so_last_event := so_last_event c\<rparr>"
    using assms unfolding moved_def by blast+
  then have "c = a\<lparr>so_last_event := so_last_event c\<rparr>" "so_id b = so_id a" by (cases a; cases b; cases c; simp)+
  with assms show ?thesis unfolding moved_def by (auto intro: mark_le_trans)
qed

lemma polled_refl [simp]: "polled ids d d"
  by (simp add: polled_def list_all2_refl)

lemma polled_trans: "polled ids a b \<Longrightarrow> polled ids b c \<Longrightarrow> polled ids a c"
  unfolding polled_def by (auto intro: list_all2_trans[of "moved ids" "moved ids" "moved ids", rotated -2] moved_trans)

lemma polled_tick [simp]: "polled ids d (tick d)"
  by (simp add: polled_def tick_def list_all2_refl)

lemma record_chunk_frame:
  "sources (snd (record_chunk E acct fid label meta c d)) = sources d"
  "feeds (snd (record_chunk E acct fid label meta c d)) = feeds d"
  "set (feed_items d) \<subseteq> set (feed_items (snd (record_chunk E acct fid label meta c d)))"
  by (auto simp: record_chunk_def Let_def new_ids_def intro: insert_ignore_keeps)

lemma record_chunks_frame:
  "sources (snd (record_chunks E acct fid label meta cs d)) = sources d
   \<and> feeds (snd (record_chunks E acct fid label meta cs d)) = feeds d
   \<and> set (feed_items d) \<subseteq> set (feed_items (snd (record_chunks E acct fid label meta cs d)))"
proof (induction cs arbitrary: d)
  case (Cons c cs)
  let ?d1 = "snd (record_chunk E acct fid label meta c d)"
  have "set (feed_items d) \<subseteq> set (feed_items ?d1)" by (rule record_chunk_frame(3))
  with Cons[of ?d1] show ?case by (auto simp: case_prod_unfold Let_def record_chunk_frame(1,2) subset_iff)
qed simp

lemma polled_record:
  "polled ids d (snd (record_items E acct fd label pls meta n d))"
  "sources (snd (record_items E acct fd label pls meta n d)) = sources d"
  "polled ids d (snd (record_stream E acct fd label strm meta d))"
  "sources (snd (record_stream E acct fd label strm meta d)) = sources d"
proof -
  have items: "polled ids d (snd (record_items E acct fd label pls meta n d))
      \<and> sources (snd (record_items E acct fd label pls meta n d)) = sources d" for pls n
    using record_chunks_frame[of E acct "f_id fd" label meta "batched n pls" d]
    by (auto simp: record_items_def polled_def list_all2_refl case_prod_unfold Let_def)
  moreover have "polled ids d (snd (record_chunks E acct (f_id fd) label meta cs d))
      \<and> sources (snd (record_chunks E acct (f_id fd) label meta cs d)) = sources d" for cs
    using record_chunks_frame[of E acct "f_id fd" label meta cs d] by (simp add: polled_def list_all2_refl)
  ultimately show "polled ids d (snd (record_items E acct fd label pls meta n d))"
    "sources (snd (record_items E acct fd label pls meta n d)) = sources d"
    "polled ids d (snd (record_stream E acct fd label strm meta d))"
    "sources (snd (record_stream E acct fd label strm meta d)) = sources d"
    by (auto simp: record_stream_def split: prod.split option.split)
qed

lemma polled_advance:
  assumes "sid \<in> ids"
  shows "polled ids d (snd (source_advance acct sid v d))"
proof -
  have "moved ids s (if behind acct sid v s then s\<lparr>so_last_event := Some v\<rparr> else s)" for s
    using assms by (cases "so_last_event s") (auto simp: moved_def behind_def)
  then show ?thesis by (simp add: polled_def source_advance_def update_where_def list.rel_map list_all2_same)
qed

lemma poll_source_polled:
  assumes "so_id src \<in> ids"
  shows "polled ids d (snd (poll_source E S P acct fd cfg src spec d))"
proof (cases "connector_of P (SOURCE_KIND spec)")
  case (Some poll)
  show ?thesis
  proof (cases "so_last_event src")
    case (Some since)
    let ?strm = "poll spec since (dict_union (default_field_map cfg) (so_field_map src)) (calls d)"
    let ?rec = "record_stream E acct fd (spec_display (py_str S) spec) ?strm (so_meta src) (tick d)"
    have rec: "polled ids d (snd ?rec)" using polled_trans[OF polled_tick polled_record(3)] by blast
    have adv: "polled ids d (snd (source_advance acct (so_id src) v (snd ?rec)))" for v
      by (rule polled_trans[OF rec polled_advance[OF assms]])
    show ?thesis
      by (cases ?rec; cases "fst ?rec")
        (use rec adv in \<open>simp_all add: poll_source_def \<open>connector_of P (SOURCE_KIND spec) = Some poll\<close> Some Let_def\<close>)
  qed (simp add: poll_source_def Some)
qed (simp add: poll_source_def)

lemma scatter_polled:
  "(\<And>p. p \<in> set chunk \<Longrightarrow> so_id (fst p) \<in> ids) \<Longrightarrow> polled ids d (snd (scatter E S acct fd pls chunk d))"
proof (induction chunk arbitrary: d)
  case (Cons p rest)
  obtain src sub where p: "p = (src, sub)" by fastforce
  let ?items = "bucket src sub pls"
  obtain r d1 where rec: "record_items E acct fd (spec_display (py_str S) (RedditSubredditSourceSpec sub)) ?items (so_meta src)
      RECORD_CHUNK d = (r, d1)" by fastforce
  have d1: "polled ids d d1"
    using polled_record(1)[of ids d E acct fd _ ?items "so_meta src" RECORD_CHUNK] rec by (metis snd_conv)
  show ?case
  proof (cases r)
    case (Inl e)
    with rec d1 show ?thesis by (simp add: p Let_def)
  next
    case (Inr n)
    let ?d2 = "case max_occurred ?items of None \<Rightarrow> d1
      | Some newest \<Rightarrow> if (case so_last_event src of None \<Rightarrow> True | Some m \<Rightarrow> m < newest)
                       then snd (source_advance acct (so_id src) newest d1) else d1"
    have "so_id src \<in> ids" using Cons.prems[of p] p by simp
    then have "polled ids d1 ?d2" by (auto simp: polled_advance split: option.split)
    then have d2: "polled ids d ?d2" by (rule polled_trans[OF d1])
    have "polled ids ?d2 (snd (scatter E S acct fd pls rest ?d2))" by (rule Cons.IH) (use Cons.prems in simp)
    then have "polled ids d (snd (scatter E S acct fd pls rest ?d2))" by (rule polled_trans[OF d2])
    with rec Inr show ?thesis
      by (cases "scatter E S acct fd pls rest ?d2") (auto simp: p Let_def split: sum.split prod.split)
  qed
qed simp

lemma poll_chunk_polled:
  assumes "\<And>p. p \<in> set chunk \<Longrightarrow> so_id (fst p) \<in> ids"
  shows "polled ids d (snd (poll_chunk E S combined acct fd chunk d))"
proof -
  let ?strm = "combined (map snd chunk) (min_mark (List.map_filter (\<lambda>(src, sub). so_last_event src) chunk)) (calls d)"
  have sc: "polled ids d (snd (scatter E S acct fd pls chunk (tick d)))" for pls
    by (rule polled_trans[OF polled_tick scatter_polled]) (rule assms)
  obtain pls err where strm: "?strm = (pls, err)" by fastforce
  show ?thesis
    by (cases err; cases "scatter E S acct fd pls chunk (tick d)"; cases "fst (scatter E S acct fd pls chunk (tick d))")
      (use sc[of pls] in \<open>simp_all add: poll_chunk_def strm Let_def split: prod.splits\<close>)
qed

lemma poll_chunks_polled:
  "(\<And>c p. c \<in> set chunks \<Longrightarrow> p \<in> set c \<Longrightarrow> so_id (fst p) \<in> ids) \<Longrightarrow>
     polled ids d (snd (poll_chunks E S P combined acct fd chunks acc d))"
proof (induction chunks arbitrary: acc d)
  case (Cons c chunks)
  obtain r d1 where c: "poll_chunk E S combined acct fd c (tick d) = (r, d1)" by fastforce
  have "so_id (fst p) \<in> ids" if "p \<in> set c" for p by (rule Cons.prems[of c]) (simp_all add: that)
  from poll_chunk_polled[OF this, of c "tick d" E S combined acct fd] have "polled ids (tick d) d1" by (simp add: c)
  then have d1: "polled ids d d1" by (rule polled_trans[OF polled_tick])
  have "polled ids d (snd (poll_chunks E S P combined acct fd chunks acc' d1))" for acc'
    by (rule polled_trans[OF d1 Cons.IH]) (use Cons.prems in auto)
  with c d1 show ?case by (cases r) (auto split: prod.splits)
qed simp

lemma concat_chunks: "concat (url_budget_chunks budget cur used ps) = cur @ ps"
  by (induction ps arbitrary: cur used) (simp_all add: Let_def)

lemma poll_reddit_group_polled:
  assumes "\<And>s. s \<in> set srcs \<Longrightarrow> so_id s \<in> ids"
  shows "polled ids d (snd (poll_reddit_group E S P acct fd srcs d))"
proof (cases "reddit_combined P")
  case (Some combined)
  have "so_id (fst p) \<in> ids" if "c \<in> set (iter_url_budget_chunks (parse_reddit S {} srcs))" "p \<in> set c" for c p
  proof -
    from that have "p \<in> set (concat (iter_url_budget_chunks (parse_reddit S {} srcs)))" by auto
    then have "p \<in> set (parse_reddit S {} srcs)" by (simp add: iter_url_budget_chunks_def concat_chunks del: set_concat)
    then show ?thesis using parse_reddit[of S "{}" srcs] assms by blast
  qed
  then show ?thesis unfolding poll_reddit_group_def Some option.case by (rule poll_chunks_polled)
qed (simp add: poll_reddit_group_def)

lemma poll_each_polled:
  "(\<And>s. s \<in> set srcs \<Longrightarrow> so_id s \<in> ids) \<Longrightarrow> polled ids d (snd (poll_each E S P acct fd cfg srcs acc d))"
proof (induction srcs arbitrary: acc d)
  case (Cons src srcs)
  note IH = polled_trans[OF _ Cons.IH]
  show ?case
  proof (cases "spec_adapter S (so_spec src)")
    case None
    with IH[OF polled_tick] Cons.prems show ?thesis by simp
  next
    case (Some spec)
    obtain r d1 where one: "poll_source E S P acct fd cfg src spec (tick d) = (r, d1)" by fastforce
    have "polled ids (tick d) d1"
      using poll_source_polled[of src ids "tick d" E S P acct fd cfg spec] Cons.prems by (simp add: one)
    then have d1: "polled ids d d1" by (rule polled_trans[OF polled_tick])
    have "polled ids d (snd (poll_each E S P acct fd cfg srcs acc' d1))" for acc' by (rule IH[OF d1]) (use Cons.prems in simp)
    with Some one d1 show ?thesis by (cases r) (auto split: prod.splits)
  qed
qed simp

definition shuffles :: "poll_env \<Rightarrow> bool" where
  "shuffles P \<longleftrightarrow> (\<forall>n xs. mset (shuffled P n xs) = mset xs)"

lemma set_shuffled: "shuffles P \<Longrightarrow> set (shuffled P n xs) = set xs"
  unfolding shuffles_def by (metis set_mset_mset)

definition feed_source_ids :: "ulid \<Rightarrow> feed \<Rightarrow> db \<Rightarrow> ulid set" where
  "feed_source_ids acct fd d = so_id ` set (filter (of_feed acct fd) (sources d))"

lemma polled_ids:
  assumes "polled ids d d'"
  shows "feed_source_ids acct fd d' = feed_source_ids acct fd d"
proof -
  have "list_all2 (\<lambda>s s'. (so_id s', of_feed acct fd s') = (so_id s, of_feed acct fd s)) (sources d) (sources d')"
  proof (rule list_all2_mono)
    show "list_all2 (moved ids) (sources d) (sources d')" using assms by (simp add: polled_def)
    fix s s' assume "moved ids s s'"
    then have "s' = s\<lparr>so_last_event := so_last_event s'\<rparr>" by (simp add: moved_def)
    then show "(so_id s', of_feed acct fd s') = (so_id s, of_feed acct fd s)"
      by (cases s; cases s') (simp add: of_feed_def)
  qed
  then have "map (\<lambda>s. (so_id s, of_feed acct fd s)) (sources d') = map (\<lambda>s. (so_id s, of_feed acct fd s)) (sources d)"
    by (induction rule: list_all2_induct) simp_all
  then have "set (map (\<lambda>s. (so_id s, of_feed acct fd s)) (sources d')) = set (map (\<lambda>s. (so_id s, of_feed acct fd s)) (sources d))"
    by simp
  moreover have "feed_source_ids acct fd x = {i. (i, True) \<in> set (map (\<lambda>s. (so_id s, of_feed acct fd s)) (sources x))}" for x
    by (auto simp: feed_source_ids_def)
  ultimately show ?thesis by simp
qed

lemma poll_cycle_polled:
  assumes "shuffles P"
  shows "polled (feed_source_ids acct fd d) d (snd (poll_cycle E S P acct fd cfg d))"
proof (cases "f_account fd = acct")
  case True
  let ?ids = "feed_source_ids acct fd d"
  let ?reddit = "shuffled P (calls d) (filter (\<lambda>s. of_feed acct fd s \<and> so_kind s = REDDIT_KIND) (sources d))"
  obtain r d1 where group: "poll_reddit_group E S P acct fd ?reddit (tick d) = (r, d1)" by fastforce
  have "polled ?ids (tick d) (snd (poll_reddit_group E S P acct fd ?reddit (tick d)))"
    by (rule poll_reddit_group_polled) (auto simp: set_shuffled[OF assms] feed_source_ids_def)
  then have d1: "polled ?ids d d1" unfolding group snd_conv by (rule polled_trans[OF polled_tick])
  let ?rest = "shuffled P (calls d1) (filter (\<lambda>s. of_feed acct fd s \<and> so_kind s \<notin> {REDDIT_KIND}) (sources d1))"
  have rest: "so_id s \<in> ?ids" if "s \<in> set ?rest" for s
    using that polled_ids[OF d1, of acct fd] by (auto simp: set_shuffled[OF assms] feed_source_ids_def)
  have each: "polled ?ids d (snd (poll_each E S P acct fd cfg ?rest acc (tick d1)))" for acc
    by (rule polled_trans[OF d1], rule polled_trans[OF polled_tick], rule poll_each_polled, rule rest)
  have iter: "iter_by_kind (shuffled P (calls d)) acct fd REDDIT_KIND d = Inr ?reddit"
    "iter_for_poll (shuffled P (calls d1)) acct fd {REDDIT_KIND} d1 = Inr ?rest"
    by (simp_all add: iter_by_kind_def iter_for_poll_def True)
  show ?thesis
  proof (cases "\<exists>e. r = Inl e \<and> e \<notin> RECOVERABLE_ERRORS")
    case True
    then have "poll_cycle E S P acct fd cfg d = (r, d1)" unfolding poll_cycle_def iter sum.case group by auto
    with d1 show ?thesis by simp
  next
    case False
    then obtain acc where "poll_cycle E S P acct fd cfg d = poll_each E S P acct fd cfg ?rest acc (tick d1)"
      unfolding poll_cycle_def iter sum.case group by (cases r) (auto simp: iter)
    with each show ?thesis by simp
  qed
qed (simp add: poll_cycle_def iter_by_kind_def)

subsection \<open>What a poll records\<close>

definition logged :: "feed \<Rightarrow> source_payload \<Rightarrow> db \<Rightarrow> bool" where
  "logged fd pl d \<longleftrightarrow> (f_id fd, pl_source pl, pl_external_id pl) \<in> item_key ` set (feed_items d)"

lemma logged_mono: "set (feed_items d) \<subseteq> set (feed_items d') \<Longrightarrow> logged fd pl d \<Longrightarrow> logged fd pl d'"
  by (auto simp: logged_def)

lemma record_chunk_logged:
  assumes "pl \<in> set c"
  shows "logged fd pl (snd (record_chunk E acct (f_id fd) label meta c d))"
proof -
  let ?existing = "(\<lambda>i. (i_source_kind i, i_external_id i)) `
    set (filter (\<lambda>i. i_account i = acct \<and> i_feed i = f_id fd \<and> i_external_id i \<in> set (map pl_external_id c)) (feed_items d))"
  let ?fresh = "filter (\<lambda>pl. (pl_source pl, pl_external_id pl) \<notin> ?existing) c"
  show ?thesis
  proof (cases "(pl_source pl, pl_external_id pl) \<in> ?existing")
    case True
    then obtain i where "i \<in> set (feed_items d)" "i_feed i = f_id fd"
        "(i_source_kind i, i_external_id i) = (pl_source pl, pl_external_id pl)" by auto
    then have "item_key i = (f_id fd, pl_source pl, pl_external_id pl)" "i \<in> set (feed_items d)"
      by (simp_all add: item_key_def)
    then have "logged fd pl d" unfolding logged_def by (metis imageI)
    then show ?thesis by (rule logged_mono[OF record_chunk_frame(3)])
  next
    case False
    then have pl: "pl \<in> set ?fresh" using assms by simp
    let ?rows = "map2 (item_of acct (f_id fd) label meta) ?fresh (fst (new_ids E (length ?fresh) d))"
    have "map item_key ?rows = map (\<lambda>p. (f_id fd, pl_source p, pl_external_id p)) ?fresh"
      by (intro nth_equalityI) (simp_all add: item_key_def item_of_def)
    from arg_cong[OF this, of set]
    have "item_key ` set ?rows = (\<lambda>p. (f_id fd, pl_source p, pl_external_id p)) ` set ?fresh"
      by (simp only: set_map)
    then have "(f_id fd, pl_source pl, pl_external_id pl) \<in> item_key ` set (insert_ignore item_key ?rows (feed_items d))"
      unfolding keys_insert_ignore using pl by blast
    moreover have ne: "?fresh \<noteq> []" using pl by (metis list.set(1) empty_iff)
    have "feed_items (snd (record_chunk E acct (f_id fd) label meta c d)) = insert_ignore item_key ?rows (feed_items d)"
      unfolding record_chunk_def Let_def if_not_P[OF ne] case_prod_unfold by (simp add: new_ids_def)
    ultimately show ?thesis unfolding logged_def by (simp only:)
  qed
qed

lemma record_chunks_logged:
  "pl \<in> set (concat cs) \<Longrightarrow> logged fd pl (snd (record_chunks E acct (f_id fd) label meta cs d))"
proof (induction cs arbitrary: d)
  case (Cons c cs)
  let ?d1 = "snd (record_chunk E acct (f_id fd) label meta c d)"
  have "logged fd pl (snd (record_chunks E acct (f_id fd) label meta cs ?d1))"
  proof (cases "pl \<in> set c")
    case True
    from logged_mono[OF _ record_chunk_logged[OF True]] record_chunks_frame show ?thesis by blast
  qed (use Cons in auto)
  then show ?case by (simp add: case_prod_unfold Let_def)
qed simp

lemma record_items_logged:
  assumes "record_items E acct fd label pls meta RECORD_CHUNK d = (Inr n, d')" "pl \<in> set pls"
  shows "logged fd pl d'"
proof -
  have "pl \<in> set (concat (batched RECORD_CHUNK pls))" using assms(2) by (simp add: concat_batched RECORD_CHUNK_def del: set_concat)
  from record_chunks_logged[OF this] assms(1) show ?thesis
    by (auto simp: record_items_def Let_def split: if_splits prod.splits) (metis snd_conv)
qed

lemma polled_newest_Max: "polled_newest m pls = Max (insert m ((\<lambda>p. instant_of (pl_occurred p)) ` set pls))"
proof (induction pls arbitrary: m)
  case (Cons p pls)
  let ?t = "instant_of (pl_occurred p)"
  have "polled_newest m (p # pls) = Max (insert (max m ?t) ((\<lambda>p. instant_of (pl_occurred p)) ` set pls))"
    by (simp add: Cons.IH max_def)
  also have "\<dots> = Max (insert m (insert ?t ((\<lambda>p. instant_of (pl_occurred p)) ` set pls)))"
    by (cases "set pls = {}") (simp_all add: max.assoc)
  finally show ?case by simp
qed simp

text \<open>A clean poll of a source logs every payload and moves the mark to the newest.\<close>

lemma poll_source_ok:
  assumes "poll_source E S P acct fd cfg src spec d = (Inr (obs, rcd), d')"
  shows "\<exists>poll since pls. connector_of P (SOURCE_KIND spec) = Some poll \<and> so_last_event src = Some since
    \<and> poll spec since (dict_union (default_field_map cfg) (so_field_map src)) (calls d) = (pls, None)
    \<and> obs = length pls \<and> list_all (\<lambda>pl. logged fd pl d') pls
    \<and> (src \<in> set (sources d) \<and> so_account src = acct \<longrightarrow>
        src\<lparr>so_last_event := Some (Max (insert since ((\<lambda>p. instant_of (pl_occurred p)) ` set pls)))\<rparr> \<in> set (sources d'))"
proof -
  obtain poll where poll: "connector_of P (SOURCE_KIND spec) = Some poll"
    using assms by (cases "connector_of P (SOURCE_KIND spec)") (simp_all add: poll_source_def)
  obtain since where since: "so_last_event src = Some since"
    using assms poll by (cases "so_last_event src") (simp_all add: poll_source_def)
  obtain pls err where strm: "poll spec since (dict_union (default_field_map cfg) (so_field_map src)) (calls d) = (pls, err)"
    by fastforce
  have none: "err = None"
    using assms by (cases err) (auto simp: poll_source_def poll since strm record_stream_def Let_def split: if_splits)
  obtain r d1 where rec: "record_items E acct fd (spec_display (py_str S) spec) pls (so_meta src) RECORD_CHUNK (tick d) = (r, d1)"
    by fastforce
  obtain n where n: "r = Inr n"
    using assms by (cases r) (simp_all add: poll_source_def poll since strm none record_stream_def rec)
  let ?newest = "polled_newest since pls"
  have res: "obs = length pls" "d' = (if ?newest \<noteq> since then snd (source_advance acct (so_id src) ?newest d1) else d1)"
    using assms by (simp_all add: poll_source_def poll since strm none record_stream_def rec n Let_def)
  have items: "feed_items d' = feed_items d1" by (simp add: res(2) source_advance_def)
  have "logged fd pl d'" if "pl \<in> set pls" for pl
    using record_items_logged[OF rec[unfolded n] that] items by (simp add: logged_def)
  moreover have "src\<lparr>so_last_event := Some ?newest\<rparr> \<in> set (sources d')" if src: "src \<in> set (sources d)" "so_account src = acct"
  proof -
    have "sources d1 = sources (tick d)"
      using polled_record(2)[of E acct fd "spec_display (py_str S) spec" pls "so_meta src" RECORD_CHUNK "tick d"]
      unfolding rec by (simp only: snd_conv)
    then have "sources d1 = sources d" by (simp add: tick_def)
    then have in1: "src \<in> set (sources d1)" using src(1) by simp
    show ?thesis
    proof (cases "?newest = since")
      case True
      then have "src\<lparr>so_last_event := Some ?newest\<rparr> = src" using since by (cases src) simp
      with in1 True show ?thesis by (simp add: res(2))
    next
      case False
      have "since \<le> ?newest" by (simp add: polled_newest_Max)
      with False have "behind acct (so_id src) ?newest src" using src(2) since by (simp add: behind_def)
      with in1 False show ?thesis by (auto simp: res(2) source_advance_def in_update_where)
    qed
  qed
  ultimately show ?thesis
    using poll since strm none res(1)
    by (intro exI[of _ poll] exI[of _ since] exI[of _ pls]) (simp add: polled_newest_Max list_all_iff)
qed

text \<open>A source whose poll raises keeps its mark, so that the next poll reads the same items again.\<close>

lemma poll_source_failed:
  assumes "poll_source E S P acct fd cfg src spec d = (Inl e, d')"
  shows "sources d' = sources d"
proof (cases "connector_of P (SOURCE_KIND spec)")
  case None
  with assms show ?thesis by (simp add: poll_source_def)
next
  case (Some poll)
  note poll = Some
  show ?thesis
  proof (cases "so_last_event src")
    case None
    with assms poll show ?thesis by (simp add: poll_source_def)
  next
    case (Some since)
    let ?strm = "poll spec since (dict_union (default_field_map cfg) (so_field_map src)) (calls d)"
    obtain r d1 where rec: "record_stream E acct fd (spec_display (py_str S) spec) ?strm (so_meta src) (tick d) = (r, d1)"
      by fastforce
    have "sources d1 = sources (tick d)"
      using polled_record(4)[of E acct fd "spec_display (py_str S) spec" ?strm "so_meta src" "tick d"]
      unfolding rec by (simp only: snd_conv)
    moreover have "d' = d1" using assms by (cases r) (simp_all add: poll_source_def poll Some rec Let_def)
    ultimately show ?thesis by (simp add: tick_def)
  qed
qed

text \<open>A combined request that succeeds logs, for each sub, every post from the sub's own mark on.\<close>

lemma scatter_logged:
  "scatter E S acct fd pls chunk d = (Inr x, d') \<Longrightarrow> (src, sub) \<in> set chunk \<Longrightarrow> pl \<in> set (bucket src sub pls)
     \<Longrightarrow> logged fd pl d'"
proof (induction chunk arbitrary: d x)
  case (Cons p rest)
  obtain src' sub' where p: "p = (src', sub')" by fastforce
  let ?items = "bucket src' sub' pls"
  obtain r d1 where rec: "record_items E acct fd (spec_display (py_str S) (RedditSubredditSourceSpec sub')) ?items (so_meta src')
      RECORD_CHUNK d = (r, d1)" by fastforce
  obtain n where n: "r = Inr n" using Cons.prems(1) rec by (cases r) (simp_all add: p Let_def)
  let ?d2 = "case max_occurred ?items of None \<Rightarrow> d1
      | Some newest \<Rightarrow> if (case so_last_event src' of None \<Rightarrow> True | Some m \<Rightarrow> m < newest)
                       then snd (source_advance acct (so_id src') newest d1) else d1"
  have items: "feed_items ?d2 = feed_items d1" by (simp add: source_advance_def split: option.split)
  obtain r3 d3 where sc: "scatter E S acct fd pls rest ?d2 = (r3, d3)" by fastforce
  obtain y where y: "r3 = Inr y" "d' = d3" using Cons.prems(1) rec n sc by (cases r3) (auto simp: p Let_def split: prod.splits)
  show ?case
  proof (cases "(src, sub) = p")
    case True
    then have "logged fd pl d1" using record_items_logged[OF rec[unfolded n]] Cons.prems(3) p by simp
    then have "logged fd pl ?d2" using items by (simp add: logged_def)
    moreover have "set (feed_items ?d2) \<subseteq> set (feed_items d3)"
      using scatter_polled[of rest UNIV ?d2 E S acct fd pls] by (simp add: polled_def sc)
    ultimately show ?thesis using logged_mono y(2) by blast
  next
    case False
    then have "(src, sub) \<in> set rest" using Cons.prems(2) by simp
    moreover have "scatter E S acct fd pls rest ?d2 = (Inr y, d')" using sc y by simp
    ultimately show ?thesis using Cons.IH[of ?d2 y] Cons.prems(3) by simp
  qed
qed simp

subsection \<open>A whole poll\<close>

lemma update_poll_state_frame:
  "sources (snd (update_poll_state acct fd t d)) = sources d"
  "feed_items (snd (update_poll_state acct fd t d)) = feed_items d"
  by (simp_all add: update_poll_state_def)

definition retained :: "poll_env \<Rightarrow> feed \<Rightarrow> curated_config \<Rightarrow> instant \<Rightarrow> feed_item \<Rightarrow> bool" where
  "retained P fd cfg now i \<longleftrightarrow> i_account i \<noteq> f_account fd \<or> i_feed i \<noteq> f_id fd
     \<or> min_ulid P (now - seconds (retention_days cfg * 86400)) \<le> i_id i"

lemma prune_frame:
  "sources (snd (prune_items mu acct fd days now d)) = sources d"
  "i \<in> set (feed_items d) \<Longrightarrow> i_account i \<noteq> acct \<or> i_feed i \<noteq> f_id fd \<or> mu (now - seconds (days * 86400)) \<le> i_id i \<Longrightarrow>
     i \<in> set (feed_items (snd (prune_items mu acct fd days now d)))"
  by (auto simp: prune_items_def Let_def set_delete_where)

lemma poll_run_safe:
  assumes "shuffles P" "load_feed_config S fd = Inr cfg" "poll_run E S P fd now d = (res, d')"
  shows "list_all2 (moved (feed_source_ids (f_account fd) fd d)) (sources d) (sources d')"
    and "i \<in> set (feed_items d) \<Longrightarrow> retained P fd cfg now i \<Longrightarrow> i \<in> set (feed_items d')"
    and "fst (poll_cycle E S P (f_account fd) fd cfg d) = Inr (obs, rcd, 0) \<Longrightarrow> filter (of_feed (f_account fd) fd) (sources d) \<noteq> [] \<Longrightarrow>
      set (feed_items d) \<subseteq> set (feed_items d') \<and> (\<forall>r. res = Inr r \<longrightarrow> pr_pruned r = 0)"
proof -
  let ?acct = "f_account fd" let ?ids = "feed_source_ids ?acct fd d"
  obtain r d1 where cycle: "poll_cycle E S P ?acct fd cfg d = (r, d1)" by fastforce
  have d1: "polled ?ids d d1" using poll_cycle_polled[OF assms(1), of ?acct fd d E S cfg] by (simp add: cycle)
  have cnt: "source_count ?acct fd d = Inr (count_where (of_feed ?acct fd) (sources d))" by (simp add: source_count_def)
  have run: "poll_run E S P fd now d = (case r of Inl e \<Rightarrow> (Inl e, d1)
      | Inr (obs, rcd, ok) \<Rightarrow> (case update_poll_state ?acct fd now d1 of
          (Inl e, d2) \<Rightarrow> (Inl e, d2)
        | (Inr _, d2) \<Rightarrow> if 0 < count_where (of_feed ?acct fd) (sources d) \<and> ok = 0
            then (Inr \<lparr>pr_observed = obs, pr_recorded = rcd, pr_pruned = 0\<rparr>, d2)
            else case prune_items (min_ulid P) ?acct fd (retention_days cfg) now d2 of
                   (Inl e, d3) \<Rightarrow> (Inl e, d3)
                 | (Inr pruned, d3) \<Rightarrow> (Inr \<lparr>pr_observed = obs, pr_recorded = rcd, pr_pruned = pruned\<rparr>, d3)))"
    unfolding poll_run_def assms(2) sum.case Let_def cnt cycle by (simp split: sum.split)
  let ?d2 = "snd (update_poll_state ?acct fd now d1)"
  let ?d3 = "snd (prune_items (min_ulid P) ?acct fd (retention_days cfg) now ?d2)"
  have ends: "d' = d1 \<or> d' = ?d2 \<or> d' = ?d3"
    using assms(3) unfolding run
    by (cases "update_poll_state ?acct fd now d1"; cases "prune_items (min_ulid P) ?acct fd (retention_days cfg) now ?d2")
      (auto split: sum.splits prod.splits if_splits)
  then have "sources d' = sources d1" by (auto simp: update_poll_state_frame prune_frame(1))
  then show "list_all2 (moved ?ids) (sources d) (sources d')" using d1 by (simp add: polled_def)
  show "i \<in> set (feed_items d')" if i: "i \<in> set (feed_items d)" "retained P fd cfg now i"
  proof -
    have in1: "i \<in> set (feed_items d1)" using i(1) d1 by (auto simp: polled_def)
    then have in2: "i \<in> set (feed_items ?d2)" by (simp add: update_poll_state_frame)
    then have "i \<in> set (feed_items ?d3)" using i(2) by (intro prune_frame(2)) (simp_all add: retained_def)
    with in1 in2 ends show ?thesis by auto
  qed
  assume out: "fst (poll_cycle E S P ?acct fd cfg d) = Inr (obs, rcd, 0)" "filter (of_feed ?acct fd) (sources d) \<noteq> []"
  then have r: "r = Inr (obs, rcd, 0)" "0 < count_where (of_feed ?acct fd) (sources d)"
    by (simp_all add: cycle count_where_def)
  then have "d' = ?d2 \<and> (\<forall>r. res = Inr r \<longrightarrow> pr_pruned r = 0)"
    using assms(3) unfolding run by (cases "update_poll_state ?acct fd now d1") (auto split: sum.splits)
  then show "set (feed_items d) \<subseteq> set (feed_items d') \<and> (\<forall>r. res = Inr r \<longrightarrow> pr_pruned r = 0)"
    using d1 by (simp add: polled_def update_poll_state_frame)
qed

end
