(* ===== verification/Cache.thy ===== *)
theory Cache
  imports Prelude
begin

text \<open>
  The shared cache (\<open>django.core.cache\<close>), a parameter of what uses it: the four calls the code makes,
  each atomic, over a cache state of any type. \<open>cache_laws\<close> is what their documentation promises.
\<close>

subsection \<open>The cache\<close>

record ('s, 'v) cache_ops =
  cache_get :: "string \<Rightarrow> instant \<Rightarrow> 's \<Rightarrow> 'v option"
  cache_add :: "string \<Rightarrow> 'v \<Rightarrow> int \<Rightarrow> instant \<Rightarrow> 's \<Rightarrow> bool \<times> 's"
  cache_set :: "string \<Rightarrow> 'v \<Rightarrow> int \<Rightarrow> instant \<Rightarrow> 's \<Rightarrow> 's"
  cache_delete :: "string \<Rightarrow> instant \<Rightarrow> 's \<Rightarrow> 's"

text \<open>
  \<open>add\<close> stores exactly when the key is absent and says whether it did; a stored value is read back
  until its timeout; a write to one key leaves the others alone; a key that is gone stays gone.
\<close>

definition cache_laws :: "('s, 'v) cache_ops \<Rightarrow> bool" where
  "cache_laws C \<longleftrightarrow>
     (\<forall>k v t now s. fst (cache_add C k v t now s) \<longleftrightarrow> cache_get C k now s = None) \<and>
     (\<forall>k v t now s j u. now \<le> u \<longrightarrow> cache_get C j u (snd (cache_add C k v t now s)) =
        (if fst (cache_add C k v t now s) \<and> j = k then (if u < now + seconds t then Some v else None)
         else cache_get C j u s)) \<and>
     (\<forall>k v t now s j u. now \<le> u \<longrightarrow> cache_get C j u (cache_set C k v t now s) =
        (if j = k then (if u < now + seconds t then Some v else None) else cache_get C j u s)) \<and>
     (\<forall>k now s j u. now \<le> u \<longrightarrow> cache_get C j u (cache_delete C k now s) =
        (if j = k then None else cache_get C j u s)) \<and>
     (\<forall>k now s u. now \<le> u \<longrightarrow> cache_get C k u s \<in> {None, cache_get C k now s})"

lemma cache_lawsD:
  assumes "cache_laws C"
  shows "fst (cache_add C k v t now s) \<longleftrightarrow> cache_get C k now s = None"
    and "now \<le> u \<Longrightarrow> cache_get C j u (snd (cache_add C k v t now s)) =
      (if fst (cache_add C k v t now s) \<and> j = k then (if u < now + seconds t then Some v else None)
       else cache_get C j u s)"
    and "now \<le> u \<Longrightarrow> cache_get C j u (cache_set C k v t now s) =
      (if j = k then (if u < now + seconds t then Some v else None) else cache_get C j u s)"
    and "now \<le> u \<Longrightarrow> cache_get C j u (cache_delete C k now s) = (if j = k then None else cache_get C j u s)"
    and "now \<le> u \<Longrightarrow> cache_get C k u s \<in> {None, cache_get C k now s}"
proof -
  note laws = assms[unfolded cache_laws_def]
  show "fst (cache_add C k v t now s) \<longleftrightarrow> cache_get C k now s = None"
    by (rule laws[THEN conjunct1, rule_format])
  show "now \<le> u \<Longrightarrow> cache_get C j u (snd (cache_add C k v t now s)) =
      (if fst (cache_add C k v t now s) \<and> j = k then (if u < now + seconds t then Some v else None)
       else cache_get C j u s)"
    by (rule laws[THEN conjunct2, THEN conjunct1, rule_format])
  show "now \<le> u \<Longrightarrow> cache_get C j u (cache_set C k v t now s) =
      (if j = k then (if u < now + seconds t then Some v else None) else cache_get C j u s)"
    by (rule laws[THEN conjunct2, THEN conjunct2, THEN conjunct1, rule_format])
  show "now \<le> u \<Longrightarrow> cache_get C j u (cache_delete C k now s) = (if j = k then None else cache_get C j u s)"
    by (rule laws[THEN conjunct2, THEN conjunct2, THEN conjunct2, THEN conjunct1, rule_format])
  show "now \<le> u \<Longrightarrow> cache_get C k u s \<in> {None, cache_get C k now s}"
    by (rule laws[THEN conjunct2, THEN conjunct2, THEN conjunct2, THEN conjunct2, rule_format])
qed

text \<open>A cache that has them: a map to values and the instants they expire at.\<close>

definition table_cache :: "(string \<Rightarrow> ('v \<times> instant) option, 'v) cache_ops" where
  "table_cache =
     \<lparr>cache_get = (\<lambda>k now s. case s k of None \<Rightarrow> None | Some (v, x) \<Rightarrow> if now < x then Some v else None),
      cache_add = (\<lambda>k v t now s. case s k of
         Some (w, x) \<Rightarrow> if now < x then (False, s) else (True, s(k \<mapsto> (v, now + seconds t)))
       | None \<Rightarrow> (True, s(k \<mapsto> (v, now + seconds t)))),
      cache_set = (\<lambda>k v t now s. s(k \<mapsto> (v, now + seconds t))),
      cache_delete = (\<lambda>k now s. s(k := None))\<rparr>"

lemma table_cache_laws: "cache_laws table_cache"
  unfolding cache_laws_def
  by (intro conjI allI impI) (auto simp: table_cache_def split: option.splits if_splits)

end
