(* ===== verification/Locks.thy ===== *)
theory Locks
  imports Cache "HOL-Library.List_Lexorder" "HOL-Library.Char_ord" "HOL-Library.Sublist"
begin

text \<open>
  The cache backed try-locks (common/locks.py), the commands that run under one (common/commands.py)
  and the two operator commands that release or stop them (clear\_job\_locks and stop\_due\_jobs).

  A lock of the code is a key of the cache; the checks it makes before it renews or releases are calls of their own, and \<open>lock_step\<close>
  interleaves them with the calls of every other process and with the clock.
\<close>

type_synonym 's cache_api = "('s, string) cache_ops"

subsection \<open>The lock\<close>

record lease =
  ls_name :: string
  ls_token :: string
  ls_timeout :: int
  ls_acquired :: bool

text \<open>\<open>named_lock\<close> up to its \<open>yield\<close>.\<close>

definition named_lock_enter :: "'s cache_api \<Rightarrow> string \<Rightarrow> string \<Rightarrow> int \<Rightarrow> instant \<Rightarrow> 's \<Rightarrow> lease \<times> 's" where
  "named_lock_enter C name token timeout now s =
     (let (acquired, s') = cache_add C name token timeout now s
      in (\<lparr>ls_name = name, ls_token = token, ls_timeout = timeout, ls_acquired = acquired\<rparr>, s'))"

text \<open>\<open>LockLease.renew\<close>: its check, its write, and both.\<close>

definition renew_check :: "'s cache_api \<Rightarrow> lease \<Rightarrow> instant \<Rightarrow> 's \<Rightarrow> bool \<times> lease" where
  "renew_check C l now s =
     (if \<not> ls_acquired l then (False, l)
      else if cache_get C (ls_name l) now s \<noteq> Some (ls_token l) then (False, l\<lparr>ls_acquired := False\<rparr>)
      else (True, l))"

definition renew_write :: "'s cache_api \<Rightarrow> lease \<Rightarrow> instant \<Rightarrow> 's \<Rightarrow> 's" where
  "renew_write C l now s = cache_set C (ls_name l) (ls_token l) (ls_timeout l) now s"

definition lease_renew :: "'s cache_api \<Rightarrow> lease \<Rightarrow> instant \<Rightarrow> instant \<Rightarrow> 's \<Rightarrow> bool \<times> lease \<times> 's" where
  "lease_renew C l now later s =
     (let (ok, l') = renew_check C l now s in (ok, l', if ok then renew_write C l' later s else s))"

text \<open>The \<open>finally\<close> of \<open>named_lock\<close>, which looks at its own \<open>acquired\<close>, not at the lease's.\<close>

definition exit_check :: "'s cache_api \<Rightarrow> bool \<Rightarrow> lease \<Rightarrow> instant \<Rightarrow> 's \<Rightarrow> bool" where
  "exit_check C acquired l now s \<longleftrightarrow> acquired \<and> cache_get C (ls_name l) now s = Some (ls_token l)"

definition exit_delete :: "'s cache_api \<Rightarrow> lease \<Rightarrow> instant \<Rightarrow> 's \<Rightarrow> 's" where
  "exit_delete C l now s = cache_delete C (ls_name l) now s"

definition named_lock_exit :: "'s cache_api \<Rightarrow> bool \<Rightarrow> lease \<Rightarrow> instant \<Rightarrow> instant \<Rightarrow> 's \<Rightarrow> 's" where
  "named_lock_exit C acquired l now later s =
     (if exit_check C acquired l now s then exit_delete C l later s else s)"

text \<open>The keys of the scopes; \<open>sha256\<close> is the hex digest of the standard library.\<close>

definition poll_lock_key :: "string \<Rightarrow> string" where
  "poll_lock_key fid = ''feed_poll_lock:'' @ fid"

definition feed_set_lock_key :: "string \<Rightarrow> string" where
  "feed_set_lock_key fid = ''feed_set_lock:'' @ fid"

definition path_chain_lock_key :: "string \<Rightarrow> string" where
  "path_chain_lock_key pid = ''path_chain_lock:'' @ pid"

definition JOB_LOCK_KEY_PREFIX :: string where
  "JOB_LOCK_KEY_PREFIX = ''job_lock:''"

definition job_lock_key :: "string \<Rightarrow> string" where
  "job_lock_key name = JOB_LOCK_KEY_PREFIX @ name"

definition refresh_token_lock_key :: "(string \<Rightarrow> string) \<Rightarrow> string \<Rightarrow> string" where
  "refresh_token_lock_key sha256 tok = ''refresh_token_lock:'' @ take 32 (sha256 tok)"

lemma lock_keys_apart:
  "poll_lock_key x \<noteq> feed_set_lock_key y" "poll_lock_key x \<noteq> path_chain_lock_key y"
  "poll_lock_key x \<noteq> job_lock_key y" "poll_lock_key x \<noteq> refresh_token_lock_key h y"
  "feed_set_lock_key x \<noteq> path_chain_lock_key y" "feed_set_lock_key x \<noteq> job_lock_key y"
  "feed_set_lock_key x \<noteq> refresh_token_lock_key h y" "path_chain_lock_key x \<noteq> job_lock_key y"
  "path_chain_lock_key x \<noteq> refresh_token_lock_key h y" "job_lock_key x \<noteq> refresh_token_lock_key h y"
  by (simp_all add: poll_lock_key_def feed_set_lock_key_def path_chain_lock_key_def job_lock_key_def
      JOB_LOCK_KEY_PREFIX_def refresh_token_lock_key_def)

lemma lock_keys_inj:
  "poll_lock_key x = poll_lock_key y \<longleftrightarrow> x = y" "feed_set_lock_key x = feed_set_lock_key y \<longleftrightarrow> x = y"
  "path_chain_lock_key x = path_chain_lock_key y \<longleftrightarrow> x = y" "job_lock_key x = job_lock_key y \<longleftrightarrow> x = y"
  by (simp_all add: poll_lock_key_def feed_set_lock_key_def path_chain_lock_key_def job_lock_key_def)

subsection \<open>Processes over one cache\<close>

text \<open>
  A process is one \<open>with named_lock(...)\<close> block; its token is \<open>uuid4().hex\<close>. \<open>Within\<close> carries the
  local \<open>acquired\<close>, the lease and the instant its last stamp expires at; \<open>Renewing\<close> and \<open>Leaving\<close>
  are between the check and the write. A process may crash anywhere.
\<close>

record lock_params =
  lp_name :: string
  lp_token :: string
  lp_timeout :: int

datatype phase =
    Before
  | Within bool lease instant
  | Renewing bool lease instant
  | Leaving lease instant
  | After

record 's lock_world =
  clock :: instant
  store :: 's
  phases :: "nat \<Rightarrow> phase"

definition move :: "nat \<Rightarrow> phase \<Rightarrow> 's \<Rightarrow> 's lock_world \<Rightarrow> 's lock_world" where
  "move p ph s w = w\<lparr>store := s, phases := (phases w)(p := ph)\<rparr>"

lemma move_simps [simp]:
  "clock (move p ph s w) = clock w" "store (move p ph s w) = s"
  "phases (move p ph s w) q = (if q = p then ph else phases w q)"
  by (simp_all add: move_def)

fun expiry :: "phase \<Rightarrow> instant option" where
  "expiry (Renewing a l x) = Some x"
| "expiry (Leaving l x) = Some x"
| "expiry ph = None"

text \<open>
  With \<open>prompt\<close>, the write after a check is made before the stamp the check saw expires; without it,
  any time may pass in between.
\<close>

inductive lock_step :: "bool \<Rightarrow> 's cache_api \<Rightarrow> (nat \<Rightarrow> lock_params) \<Rightarrow> 's lock_world \<Rightarrow> 's lock_world \<Rightarrow> bool"
  for prompt C P where
  enter: "phases w p = Before \<Longrightarrow>
    named_lock_enter C (lp_name (P p)) (lp_token (P p)) (lp_timeout (P p)) (clock w) (store w) = (l, s) \<Longrightarrow>
    lock_step prompt C P w (move p (Within (ls_acquired l) l (clock w + seconds (lp_timeout (P p)))) s w)"
| renew_ours: "phases w p = Within a l x \<Longrightarrow> renew_check C l (clock w) (store w) = (True, l') \<Longrightarrow>
    lock_step prompt C P w (move p (Renewing a l' x) (store w) w)"
| renew_lost: "phases w p = Within a l x \<Longrightarrow> renew_check C l (clock w) (store w) = (False, l') \<Longrightarrow>
    lock_step prompt C P w (move p (Within a l' x) (store w) w)"
| renewed: "phases w p = Renewing a l x \<Longrightarrow>
    lock_step prompt C P w
      (move p (Within a l (clock w + seconds (ls_timeout l))) (renew_write C l (clock w) (store w)) w)"
| leave_ours: "phases w p = Within a l x \<Longrightarrow> exit_check C a l (clock w) (store w) \<Longrightarrow>
    lock_step prompt C P w (move p (Leaving l x) (store w) w)"
| leave_lost: "phases w p = Within a l x \<Longrightarrow> \<not> exit_check C a l (clock w) (store w) \<Longrightarrow>
    lock_step prompt C P w (move p After (store w) w)"
| released: "phases w p = Leaving l x \<Longrightarrow>
    lock_step prompt C P w (move p After (exit_delete C l (clock w) (store w)) w)"
| crash: "lock_step prompt C P w (move p After (store w) w)"
| tick: "0 < delta \<Longrightarrow> (prompt \<Longrightarrow> \<forall>p x. expiry (phases w p) = Some x \<longrightarrow> clock w + delta < x) \<Longrightarrow>
    lock_step prompt C P w (w\<lparr>clock := clock w + delta\<rparr>)"

text \<open>A process is in its critical section on a lease that is still good.\<close>

fun live_phase :: "instant \<Rightarrow> phase \<Rightarrow> bool" where
  "live_phase now (Within a l x) \<longleftrightarrow> ls_acquired l \<and> now < x"
| "live_phase now (Renewing a l x) \<longleftrightarrow> now < x"
| "live_phase now ph \<longleftrightarrow> False"

definition holds_lock :: "'s lock_world \<Rightarrow> nat \<Rightarrow> bool" where
  "holds_lock w p \<longleftrightarrow> live_phase (clock w) (phases w p)"

text \<open>Nobody has entered yet, and no token has ever been stored: they are fresh.\<close>

definition lock_start :: "'s cache_api \<Rightarrow> (nat \<Rightarrow> lock_params) \<Rightarrow> 's lock_world \<Rightarrow> bool" where
  "lock_start C P w \<longleftrightarrow> phases w = (\<lambda>_. Before) \<and> inj (\<lambda>p. lp_token (P p))
     \<and> (\<forall>p u. cache_get C (lp_name (P p)) u (store w) \<noteq> Some (lp_token (P p)))"

text \<open>Whose stamp the key may carry, and until when.\<close>

fun stamp :: "phase \<Rightarrow> (lease \<times> instant) option" where
  "stamp (Within a l x) = (if ls_acquired l then Some (l, x) else None)"
| "stamp (Renewing a l x) = Some (l, x)"
| "stamp (Leaving l x) = Some (l, x)"
| "stamp ph = None"

fun lease_in :: "phase \<Rightarrow> lease option" where
  "lease_in (Within a l x) = Some l"
| "lease_in (Renewing a l x) = Some l"
| "lease_in (Leaving l x) = Some l"
| "lease_in ph = None"

text \<open>
  \<open>ours\<close>: a lease carries its process's name and token; its stamp is in the cache until it
  expires; a write after a check is still in time; and the cache carries the token of no process
  but one whose stamp is good, or that is gone.
\<close>

definition ours :: "'s cache_api \<Rightarrow> instant \<Rightarrow> 's \<Rightarrow> lock_params \<Rightarrow> phase \<Rightarrow> bool" where
  "ours C now s q ph \<longleftrightarrow>
     (\<forall>l. lease_in ph = Some l \<longrightarrow> ls_name l = lp_name q \<and> ls_token l = lp_token q) \<and>
     (\<forall>l x u. stamp ph = Some (l, x) \<longrightarrow> now \<le> u \<longrightarrow> u < x \<longrightarrow> cache_get C (lp_name q) u s = Some (lp_token q)) \<and>
     (\<forall>x. expiry ph = Some x \<longrightarrow> now < x) \<and>
     (\<forall>a l x. ph = Renewing a l x \<longrightarrow> ls_acquired l) \<and>
     (\<forall>u. now \<le> u \<longrightarrow> cache_get C (lp_name q) u s = Some (lp_token q) \<longrightarrow>
        ph = After \<or> (\<exists>l x. stamp ph = Some (l, x) \<and> u < x))"

definition lock_inv :: "'s cache_api \<Rightarrow> (nat \<Rightarrow> lock_params) \<Rightarrow> 's lock_world \<Rightarrow> bool" where
  "lock_inv C P w \<longleftrightarrow> inj (\<lambda>p. lp_token (P p)) \<and> (\<forall>p. ours C (clock w) (store w) (P p) (phases w p))"

lemma lock_inv_start: "lock_start C P w \<Longrightarrow> lock_inv C P w"
  by (simp add: lock_start_def lock_inv_def ours_def)

lemma oursD:
  assumes "ours C now s q ph"
  shows "lease_in ph = Some l \<Longrightarrow> ls_name l = lp_name q \<and> ls_token l = lp_token q"
    and "stamp ph = Some (l, x) \<Longrightarrow> now \<le> u \<Longrightarrow> u < x \<Longrightarrow> cache_get C (lp_name q) u s = Some (lp_token q)"
    and "expiry ph = Some x \<Longrightarrow> now < x"
    and "now \<le> u \<Longrightarrow> cache_get C (lp_name q) u s = Some (lp_token q) \<Longrightarrow>
      ph = After \<or> (\<exists>l x. stamp ph = Some (l, x) \<and> u < x)"
    and "ph = Renewing a l x \<Longrightarrow> ls_acquired l"
  using assms unfolding ours_def by blast+

text \<open>A write to the key of a process whose stamp is good does not touch a good stamp of another.\<close>

lemma one_stamp:
  assumes "lock_inv C P w" "stamp (phases w p) = Some (l, x)" "stamp (phases w q) = Some (l', y)"
    and "clock w < x" "clock w < y" "lp_name (P p) = lp_name (P q)"
  shows "p = q"
proof -
  have inv: "ours C (clock w) (store w) (P r) (phases w r)" for r using assms(1) by (simp add: lock_inv_def)
  have "cache_get C (lp_name (P p)) (clock w) (store w) = Some (lp_token (P p))"
    by (rule oursD(2)[OF inv assms(2)]) (use assms(4) in simp_all)
  moreover have "cache_get C (lp_name (P q)) (clock w) (store w) = Some (lp_token (P q))"
    by (rule oursD(2)[OF inv assms(3)]) (use assms(5) in simp_all)
  ultimately have "lp_token (P p) = lp_token (P q)" using assms(6) by simp
  then show ?thesis using assms(1) by (simp add: lock_inv_def inj_def)
qed

lemma ours_after: "ours C now s q After"
  by (simp add: ours_def)

lemma lock_inv_move:
  assumes "lock_inv C P w" "ours C (clock w) s (P p) ph"
    and "\<And>q. q \<noteq> p \<Longrightarrow> ours C (clock w) (store w) (P q) (phases w q) \<Longrightarrow> ours C (clock w) s (P q) (phases w q)"
  shows "lock_inv C P (move p ph s w)"
  using assms by (simp add: lock_inv_def)

text \<open>Another process's write to a key: what it means to a process.\<close>

lemma ours_same_store:
  "ours C now s q ph \<Longrightarrow> (\<And>u. now \<le> u \<Longrightarrow> cache_get C (lp_name q) u s' = cache_get C (lp_name q) u s) \<Longrightarrow> ours C now s' q ph"
  unfolding ours_def by auto

lemma ours_overwritten:
  assumes "ours C now s q ph" "\<And>l x. stamp ph = Some (l, x) \<Longrightarrow> x \<le> now"
    and "\<And>u. now \<le> u \<Longrightarrow> cache_get C (lp_name q) u s' \<noteq> Some (lp_token q)"
  shows "ours C now s' q ph"
  using assms unfolding ours_def by fastforce

lemma written_stamp:
  assumes "cache_laws C" "lock_inv C P w" "stamp (phases w p) = Some (l, x)" "clock w < x" "q \<noteq> p"
    and "\<And>u j. clock w \<le> u \<Longrightarrow> j \<noteq> lp_name (P p) \<Longrightarrow> cache_get C j u s' = cache_get C j u (store w)"
    and "\<And>u. clock w \<le> u \<Longrightarrow> cache_get C (lp_name (P p)) u s' \<in> {None, Some (lp_token (P p))}"
  shows "ours C (clock w) s' (P q) (phases w q)"
proof -
  have q: "ours C (clock w) (store w) (P q) (phases w q)" using assms(2) by (simp add: lock_inv_def)
  have tok: "lp_token (P q) \<noteq> lp_token (P p)" using assms(2,5) by (auto simp: lock_inv_def inj_def)
  show ?thesis
  proof (cases "lp_name (P q) = lp_name (P p)")
    case False
    with assms(6) show ?thesis by (blast intro: ours_same_store[OF q])
  next
    case True
    show ?thesis
    proof (rule ours_overwritten[OF q])
      fix l' y assume "stamp (phases w q) = Some (l', y)"
      with one_stamp[OF assms(2) _ assms(3)] assms(4,5) True show "y \<le> clock w" by force
    qed (use assms(7) True tok in fastforce)
  qed
qed

lemma ours_later:
  assumes "ours C now s q ph" "now \<le> later" "\<And>x. expiry ph = Some x \<Longrightarrow> later < x"
  shows "ours C later s q ph"
  unfolding ours_def
proof (intro conjI allI impI)
  fix l x u assume "stamp ph = Some (l, x)" "later \<le> u" "u < x"
  with assms(2) oursD(2)[OF assms(1)] show "cache_get C (lp_name q) u s = Some (lp_token q)" by force
next
  fix u assume "later \<le> u" "cache_get C (lp_name q) u s = Some (lp_token q)"
  with assms(2) oursD(4)[OF assms(1), of u] show "ph = After \<or> (\<exists>l x. stamp ph = Some (l, x) \<and> u < x)" by simp
qed (use assms(3) oursD(1,5)[OF assms(1)] in auto)

lemma ours_checked:
  assumes "ours C now s q (Within a l x)" "ls_acquired l" "now < x"
  shows "ours C now s q (Renewing a l x)" and "ours C now s q (Leaving l x)"
  using assms by (simp_all add: ours_def)

lemma lock_inv_step:
  assumes laws: "cache_laws C" and step: "lock_step True C P w w'" and inv: "lock_inv C P w"
  shows "lock_inv C P w'"
  using step
proof cases
  case (enter p l s)
  have p: "ours C (clock w) (store w) (P p) (phases w p)" using inv by (simp add: lock_inv_def)
  obtain got where add: "cache_add C (lp_name (P p)) (lp_token (P p)) (lp_timeout (P p)) (clock w) (store w) = (got, s)"
    "l = \<lparr>ls_name = lp_name (P p), ls_token = lp_token (P p), ls_timeout = lp_timeout (P p), ls_acquired = got\<rparr>"
    using enter(3) by (auto simp: named_lock_enter_def split: prod.splits)
  note get = cache_lawsD(1)[OF laws, of "lp_name (P p)" "lp_token (P p)" "lp_timeout (P p)" "clock w" "store w",
      unfolded add(1) fst_conv snd_conv]
    cache_lawsD(2)[OF laws, of "clock w" _ _ "lp_name (P p)" "lp_token (P p)" "lp_timeout (P p)" "store w",
      unfolded add(1) fst_conv snd_conv]
  show ?thesis unfolding enter(1)
  proof (rule lock_inv_move[OF inv])
    show "ours C (clock w) s (P p) (Within (ls_acquired l) l (clock w + seconds (lp_timeout (P p))))"
      using p enter(2) by (auto simp: ours_def add(2) get(2) split: if_splits)
    fix q assume q: "q \<noteq> p" "ours C (clock w) (store w) (P q) (phases w q)"
    show "ours C (clock w) s (P q) (phases w q)"
    proof (cases "got \<and> lp_name (P q) = lp_name (P p)")
      case False
      then show ?thesis by (intro ours_same_store[OF q(2)]) (auto simp: get(2))
    next
      case True
      have "lp_token (P q) \<noteq> lp_token (P p)" using inv q(1) by (auto simp: lock_inv_def inj_def)
      moreover have "x \<le> clock w" if "stamp (phases w q) = Some (l', x)" for l' x
        using oursD(2)[OF q(2) that, of "clock w"] True get(1) by fastforce
      ultimately show ?thesis using True by (intro ours_overwritten[OF q(2)]) (auto simp: get(2))
    qed
  qed
next
  case (renew_ours p a l x l')
  have p: "ours C (clock w) (store w) (P p) (phases w p)" using inv by (simp add: lock_inv_def)
  from renew_ours(3) have l: "l' = l" "ls_acquired l" "cache_get C (ls_name l) (clock w) (store w) = Some (ls_token l)"
    by (auto simp: renew_check_def split: if_splits)
  have "clock w < x" using oursD(1)[OF p] oursD(4)[OF p, of "clock w"] renew_ours(2) l by auto
  with l have "ours C (clock w) (store w) (P p) (Renewing a l' x)" using ours_checked(1)[OF p[unfolded renew_ours(2)]] by simp
  then show ?thesis unfolding renew_ours(1) by (rule lock_inv_move[OF inv])
next
  case (renew_lost p a l x l')
  have p: "ours C (clock w) (store w) (P p) (phases w p)" using inv by (simp add: lock_inv_def)
  note key = oursD(1)[OF p, of l]
  from renew_lost(3) consider "l' = l" "\<not> ls_acquired l"
    | "l' = l\<lparr>ls_acquired := False\<rparr>" "cache_get C (ls_name l) (clock w) (store w) \<noteq> Some (ls_token l)"
    by (auto simp: renew_check_def split: if_splits)
  then have "ours C (clock w) (store w) (P p) (Within a l' x)"
  proof cases
    case 1
    with p renew_lost(2) show ?thesis by (simp add: ours_def)
  next
    case 2
    have "cache_get C (lp_name (P p)) u (store w) \<noteq> Some (lp_token (P p))" if "clock w \<le> u" for u
      using cache_lawsD(5)[OF laws that, of "lp_name (P p)" "store w"] 2(2) key renew_lost(2) by auto
    with key renew_lost(2) 2(1) show ?thesis by (auto simp: ours_def)
  qed
  then show ?thesis unfolding renew_lost(1) by (rule lock_inv_move[OF inv])
next
  case (renewed p a l x)
  have p: "ours C (clock w) (store w) (P p) (phases w p)" using inv by (simp add: lock_inv_def)
  have l: "ls_name l = lp_name (P p)" "ls_token l = lp_token (P p)" "clock w < x" "ls_acquired l"
    using oursD(1)[OF p] oursD(3)[OF p] oursD(5)[OF p] renewed(2) by auto
  note get = cache_lawsD(3)[OF laws, of "clock w" _ _ "ls_name l" "ls_token l" "ls_timeout l" "store w", folded renew_write_def]
  show ?thesis unfolding renewed(1)
  proof (rule lock_inv_move[OF inv])
    show "ours C (clock w) (renew_write C l (clock w) (store w)) (P p) (Within a l (clock w + seconds (ls_timeout l)))"
      using l by (auto simp: ours_def get split: if_splits)
    show "ours C (clock w) (renew_write C l (clock w) (store w)) (P q) (phases w q)" if "q \<noteq> p" for q
      by (rule written_stamp[OF laws inv, of p l x]) (use renewed(2) l that get in auto)
  qed
next
  case (leave_ours p a l x)
  have p: "ours C (clock w) (store w) (P p) (phases w p)" using inv by (simp add: lock_inv_def)
  have l: "ls_name l = lp_name (P p)" "ls_token l = lp_token (P p)" using oursD(1)[OF p] leave_ours(2) by auto
  with leave_ours(3) have "ls_acquired l \<and> clock w < x"
    using oursD(4)[OF p, of "clock w"] leave_ours(2) by (auto simp: exit_check_def split: if_splits)
  then have "ours C (clock w) (store w) (P p) (Leaving l x)" using ours_checked(2)[OF p[unfolded leave_ours(2)]] by simp
  then show ?thesis unfolding leave_ours(1) by (rule lock_inv_move[OF inv])
next
  case (leave_lost p a l x)
  then show ?thesis using lock_inv_move[OF inv ours_after] by simp
next
  case (released p l x)
  have p: "ours C (clock w) (store w) (P p) (phases w p)" using inv by (simp add: lock_inv_def)
  have l: "ls_name l = lp_name (P p)" "clock w < x" using oursD(1)[OF p] oursD(3)[OF p] released(2) by auto
  note get = cache_lawsD(4)[OF laws, of "clock w" _ _ "ls_name l" "store w", folded exit_delete_def]
  show ?thesis unfolding released(1)
    by (rule lock_inv_move[OF inv ours_after], rule written_stamp[OF laws inv, of p l x]) (use released(2) l get in auto)
next
  case (crash p)
  then show ?thesis using lock_inv_move[OF inv ours_after] by simp
next
  case (tick delta)
  have "ours C (clock w + delta) (store w) (P q) (phases w q)" for q
    by (rule ours_later[of C "clock w"]) (use inv tick(2,3) in \<open>auto simp: lock_inv_def\<close>)
  then show ?thesis using inv by (simp add: tick(1) lock_inv_def)
qed

theorem lock_inv_reachable:
  assumes "cache_laws C" "(lock_step True C P)\<^sup>*\<^sup>* w w'" "lock_start C P w"
  shows "lock_inv C P w'"
  using assms(2)
proof induction
  case base
  then show ?case by (rule lock_inv_start[OF assms(3)])
next
  case (step y z)
  then show ?case using lock_inv_step[OF assms(1)] by blast
qed

lemma holds_stamp: "holds_lock w p \<Longrightarrow> \<exists>l x. stamp (phases w p) = Some (l, x) \<and> clock w < x"
  by (cases "phases w p") (auto simp: holds_lock_def)

lemma lock_exclusive:
  assumes "lock_inv C P w" "holds_lock w p" "holds_lock w q" "lp_name (P p) = lp_name (P q)"
  shows "p = q"
  using one_stamp[OF assms(1) _ _ _ _ assms(4)] holds_stamp[OF assms(2)] holds_stamp[OF assms(3)] by blast

text \<open>While a process holds the lock, no other process acquires it; a holder's renewal succeeds.\<close>

lemma holder_blocks:
  assumes "cache_laws C" "lock_inv C P w" "holds_lock w p" "lp_name (P q) = lp_name (P p)"
  shows "\<not> ls_acquired (fst (named_lock_enter C (lp_name (P q)) tok t (clock w) (store w)))"
proof -
  obtain l x where st: "stamp (phases w p) = Some (l, x)" "clock w < x" using holds_stamp[OF assms(3)] by blast
  have "cache_get C (lp_name (P p)) (clock w) (store w) = Some (lp_token (P p))"
    by (rule oursD(2)[of C "clock w", OF _ st(1)]) (use assms(2) st(2) in \<open>simp_all add: lock_inv_def\<close>)
  then show ?thesis
    using cache_lawsD(1)[OF assms(1), of "lp_name (P q)" tok t "clock w" "store w"] assms(4)
    by (simp add: named_lock_enter_def case_prod_unfold Let_def)
qed

text \<open>An acquired lock that nobody touches frees by itself when its window has passed, and not before.\<close>

lemma lock_window:
  assumes "cache_laws C" "named_lock_enter C k tok t now s = (l, s')" "ls_acquired l" "now \<le> u"
  shows "ls_acquired (fst (named_lock_enter C k tok' t' u s')) \<longleftrightarrow> now + seconds t \<le> u"
proof -
  have "cache_add C k tok t now s = (True, s')" using assms(2,3)
    by (auto simp: named_lock_enter_def split: prod.splits)
  then have "cache_get C k u s' = (if u < now + seconds t then Some tok else None)"
    using cache_lawsD(2)[OF assms(1,4), of k k tok t s] by simp
  then show ?thesis using cache_lawsD(1)[OF assms(1), of k tok' t' u s']
    by (auto simp: named_lock_enter_def case_prod_unfold Let_def)
qed

text \<open>
  Without \<open>prompt\<close> two processes can hold one lock at once: a process checks that the key is its
  own, its stamp expires, another takes the lock over, the first deletes the key, a third enters.
  The code accepts this: it issues no fencing tokens, and what the locks guard is idempotent.
\<close>

definition trio :: "nat \<Rightarrow> lock_params" where
  "trio p = \<lparr>lp_name = ''k'', lp_token = replicate p CHR ''x'', lp_timeout = 1\<rparr>"

definition trio_lease :: "nat \<Rightarrow> lease" where
  "trio_lease p = \<lparr>ls_name = ''k'', ls_token = replicate p CHR ''x'', ls_timeout = 1, ls_acquired = True\<rparr>"

definition trio_start :: "(string \<Rightarrow> (string \<times> instant) option) lock_world" where
  "trio_start = \<lparr>clock = 0, store = Map.empty, phases = (\<lambda>_. Before)\<rparr>"

lemma trio_enter:
  assumes "phases w p = Before" "cache_get table_cache ''k'' (clock w) (store w) = None"
  shows "lock_step prompt table_cache trio w
    (move p (Within True (trio_lease p) (clock w + seconds 1)) ((store w)(''k'' \<mapsto> (replicate p CHR ''x'', clock w + seconds 1))) w)"
proof -
  have "named_lock_enter table_cache (lp_name (trio p)) (lp_token (trio p)) (lp_timeout (trio p)) (clock w) (store w) =
      (trio_lease p, (store w)(''k'' \<mapsto> (replicate p CHR ''x'', clock w + seconds 1)))"
    using assms(2) by (auto simp: named_lock_enter_def table_cache_def trio_def trio_lease_def split: option.splits if_splits)
  from lock_step.enter[where P = trio and p = p, OF assms(1) this]
  show ?thesis by (simp add: trio_def trio_lease_def)
qed

lemma overlap_when_slow:
  "\<exists>w. (lock_step False table_cache trio)\<^sup>*\<^sup>* trio_start w \<and> holds_lock w 1 \<and> holds_lock w 2"
proof -
  let ?step = "lock_step False table_cache trio"
  let ?s = "\<lambda>p x. Map.empty(''k'' \<mapsto> (replicate p CHR ''x'', x :: instant))"
  let ?w1 = "move 0 (Within True (trio_lease 0) (seconds 1)) (?s 0 (seconds 1)) trio_start"
  let ?w2 = "move 0 (Leaving (trio_lease 0) (seconds 1)) (?s 0 (seconds 1)) ?w1"
  let ?w3 = "?w2\<lparr>clock := clock ?w2 + seconds 2\<rparr>"
  let ?w4 = "move 1 (Within True (trio_lease 1) (seconds 3)) (?s 1 (seconds 3)) ?w3"
  let ?w5 = "move 0 After Map.empty ?w4"
  let ?w6 = "move 2 (Within True (trio_lease 2) (seconds 3)) (?s 2 (seconds 3)) ?w5"
  have start: "clock trio_start = 0" "store trio_start = Map.empty" "phases trio_start = (\<lambda>_. Before)"
    by (simp_all add: trio_start_def)
  have sec: "seconds 2 + seconds 1 = seconds 3" by (simp add: seconds_def)
  have "?step trio_start ?w1" using trio_enter[of trio_start 0] by (simp add: start table_cache_def)
  moreover have "?step ?w1 ?w2"
    using lock_step.leave_ours[of ?w1 0 True "trio_lease 0" "seconds 1" table_cache False trio]
    by (simp add: exit_check_def table_cache_def trio_lease_def start seconds_def)
  moreover have "?step ?w2 ?w3" by (rule lock_step.tick) (simp_all add: seconds_def)
  moreover have "?step ?w3 ?w4" using trio_enter[of ?w3 1] by (simp add: table_cache_def start sec seconds_def)
  moreover have "?step ?w4 ?w5"
    using lock_step.released[of ?w4 0 "trio_lease 0" "seconds 1" False table_cache trio]
    by (simp add: exit_delete_def table_cache_def trio_lease_def)
  moreover have "?step ?w5 ?w6" using trio_enter[of ?w5 2] by (simp add: table_cache_def start sec seconds_def)
  ultimately have "?step\<^sup>*\<^sup>* trio_start ?w6" by (meson rtranclp.rtrancl_into_rtrancl rtranclp.rtrancl_refl)
  moreover have "holds_lock ?w6 1" "holds_lock ?w6 2"
    by (simp_all add: holds_lock_def trio_lease_def start seconds_def)
  ultimately show ?thesis by blast
qed

end
