(* ===== verification/Single_Flight.thy ===== *)
theory Single_Flight
  imports Locks
begin

text \<open>
  The commands that do not run twice at once (common/commands.py), and the operator commands that
  clear their locks and pick the processes to stop (clear\_job\_locks.py, stop\_due\_jobs.py). Output
  and signals are left out: \<open>SIGTERM\<close> arrives in a command as an exception of its body.
\<close>

datatype command_error = ImproperlyConfigured | CommandError

subsection \<open>The name of a job\<close>

definition COMMANDS_MARKER :: string where
  "COMMANDS_MARKER = ''.management.commands.''"

text \<open>\<open>str.partition\<close>: the text before the first occurrence, whether there is one, and the text after.\<close>

fun partition_at :: "string \<Rightarrow> string \<Rightarrow> string \<times> bool \<times> string" where
  "partition_at sep [] = (if sep = [] then ([], True, []) else ([], False, []))"
| "partition_at sep (c # cs) =
     (if prefix sep (c # cs) then ([], True, drop (length sep) (c # cs))
      else let (before, found, rest) = partition_at sep cs in (c # before, found, rest))"

record command =
  cmd_single_flight :: bool
  cmd_job_name :: "string option"
  cmd_module :: string

definition resolve_job_name :: "command \<Rightarrow> command_error + string" where
  "resolve_job_name cmd =
     (case cmd_job_name cmd of
        Some (c # cs) \<Rightarrow> Inr (c # cs)
      | _ \<Rightarrow> (let (app, sep, name) = partition_at COMMANDS_MARKER (cmd_module cmd)
              in if \<not> sep then Inl ImproperlyConfigured else Inr (app @ ''.'' @ name)))"

subsection \<open>A single-flight run\<close>

text \<open>
  \<open>SingleFlightCommand.execute\<close>. The body is \<open>handle\<close>: it may use the cache, change the data \<open>'d\<close>
  and raise; the lock is left in either case. \<open>Skipped\<close> is the run that found a prior one going.
\<close>

datatype 'r flight = Skipped | Ran 'r

definition single_flight :: "'s cache_api \<Rightarrow> command \<Rightarrow> string \<Rightarrow> int \<Rightarrow> instant \<Rightarrow> instant \<Rightarrow> instant
    \<Rightarrow> ('s \<Rightarrow> 'd \<Rightarrow> 'r \<times> 's \<times> 'd) \<Rightarrow> 's \<Rightarrow> 'd \<Rightarrow> (command_error + 'r flight) \<times> 's \<times> 'd" where
  "single_flight C cmd token timeout now done_at out_at body s d =
     (case resolve_job_name cmd of
        Inl e \<Rightarrow> (Inl e, s, d)
      | Inr name \<Rightarrow>
          (let (l, s1) = named_lock_enter C (job_lock_key name) token timeout now s
           in if \<not> ls_acquired l then (Inr Skipped, named_lock_exit C False l done_at out_at s1, d)
              else let (r, s2, d') = body s1 d
                   in (Inr (Ran r), named_lock_exit C True l done_at out_at s2, d')))"

subsection \<open>Clearing and stopping\<close>

text \<open>The command registry: the commands by name, in its order; \<open>None\<close> is one that fails to load.\<close>

fun iter_single_flight_commands :: "(string \<times> command option) list \<Rightarrow> (string \<times> command) list" where
  "iter_single_flight_commands [] = []"
| "iter_single_flight_commands ((name, loaded) # rest) =
     (case loaded of
        Some cmd \<Rightarrow> if cmd_single_flight cmd then (name, cmd) # iter_single_flight_commands rest
                     else iter_single_flight_commands rest
      | None \<Rightarrow> iter_single_flight_commands rest)"

definition discover_jobs :: "(string \<times> command option) list \<Rightarrow> string set" where
  "discover_jobs registry = set (List.map_filter
     (\<lambda>(name, cmd). case resolve_job_name cmd of Inl _ \<Rightarrow> None | Inr n \<Rightarrow> Some n)
     (iter_single_flight_commands registry))"

record clear_options =
  co_jobs :: "string list"
  co_all :: bool
  co_dry_run :: bool
  co_yes :: bool

text \<open>What the command reports: the requested names it does not know, the held locks, the cleared ones.\<close>

record clear_report =
  cr_unknown :: "string list"
  cr_held :: "string list"
  cr_cleared :: "string list"

definition clear_job_locks :: "'s cache_api \<Rightarrow> bool \<Rightarrow> (string \<times> command option) list \<Rightarrow> clear_options
    \<Rightarrow> instant \<Rightarrow> 's \<Rightarrow> (command_error + clear_report) \<times> 's" where
  "clear_job_locks C is_cloud registry opts now s =
     (if co_all opts \<and> is_cloud \<and> \<not> co_dry_run opts \<and> \<not> co_yes opts then (Inl CommandError, s)
      else
        (let discovered = discover_jobs registry;
             jobs = (if co_all opts then sorted_list_of_set (set (co_jobs opts) \<union> discovered) else co_jobs opts)
         in if jobs = [] then (Inl CommandError, s)
            else let unknown = filter (\<lambda>n. n \<notin> discovered) (co_jobs opts);
                     held = filter (\<lambda>n. cache_get C (job_lock_key n) now s \<noteq> None) jobs
                 in if co_dry_run opts then (Inr \<lparr>cr_unknown = unknown, cr_held = held, cr_cleared = []\<rparr>, s)
                    else (Inr \<lparr>cr_unknown = unknown, cr_held = held, cr_cleared = jobs\<rparr>,
                          fold (\<lambda>n s. cache_delete C (job_lock_key n) now s) jobs s)))"

text \<open>\<open>argv[0].rsplit("/", 1)[-1]\<close>, the last segment of a path.\<close>

definition last_segment :: "string \<Rightarrow> string" where
  "last_segment path = rev (takeWhile (\<lambda>c. c \<noteq> CHR ''/'') (rev path))"

fun after_manage :: "string list \<Rightarrow> string set \<Rightarrow> string option" where
  "after_manage (tok # candidate # rest) jobs =
     (if suffix ''manage.py'' tok then (if candidate \<in> jobs then Some candidate else None)
      else after_manage (candidate # rest) jobs)"
| "after_manage argv jobs = None"

definition job_command_in :: "string list \<Rightarrow> string set \<Rightarrow> string option" where
  "job_command_in argv job_commands =
     (case argv of [] \<Rightarrow> None
      | exe # _ \<Rightarrow> if \<not> sublist ''python'' (last_segment exe) then None else after_manage argv job_commands)"

text \<open>
  The processes a pass of \<open>stop_due_jobs\<close> signals: the entries of \<open>/proc\<close> with a pid, this process
  apart, whose command line runs a single-flight command.
\<close>

definition stop_targets :: "nat \<Rightarrow> (string \<times> command option) list \<Rightarrow> (nat option \<times> string list) list
    \<Rightarrow> (nat \<times> string) list" where
  "stop_targets me registry entries =
     (let job_commands = fst ` set (iter_single_flight_commands registry)
      in List.map_filter (\<lambda>(pid, argv). case pid of None \<Rightarrow> None
           | Some p \<Rightarrow> if p = me then None else map_option (Pair p) (job_command_in argv job_commands)) entries)"

subsection \<open>Facts\<close>

lemma partition_at_found: "partition_at sep s = (a, True, b) \<Longrightarrow> s = a @ sep @ b"
proof (induction s arbitrary: a b)
  case (Cons c cs)
  show ?case
  proof (cases "prefix sep (c # cs)")
    case True
    with Cons.prems show ?thesis by (auto simp: prefix_def)
  next
    case False
    with Cons show ?thesis by (auto split: prod.splits)
  qed
qed (auto split: if_splits)

lemma partition_at_missing: "partition_at sep s = (a, False, b) \<Longrightarrow> a = s \<and> b = [] \<and> \<not> sublist sep s"
proof (induction s arbitrary: a b)
  case (Cons c cs)
  then show ?case by (auto simp: sublist_Cons_right split: if_splits prod.splits)
qed (auto split: if_splits)

text \<open>The split is at the first occurrence.\<close>

lemma partition_at_first:
  "(\<And>k. k < length a \<Longrightarrow> \<not> prefix sep (drop k (a @ sep @ b))) \<Longrightarrow> sep \<noteq> [] \<Longrightarrow> partition_at sep (a @ sep @ b) = (a, True, b)"
proof (induction a)
  case Nil
  then show ?case by (cases sep) auto
next
  case (Cons c cs)
  from Cons.prems(1)[of 0] have "\<not> prefix sep (c # cs @ sep @ b)" by simp
  moreover have "partition_at sep (cs @ sep @ b) = (cs, True, b)"
  proof (rule Cons.IH)
    fix k assume "k < length cs"
    with Cons.prems(1)[of "Suc k"] show "\<not> prefix sep (drop k (cs @ sep @ b))" by simp
  qed (rule Cons.prems(2))
  ultimately show ?case by simp
qed

lemma resolve_default:
  assumes "cmd_job_name cmd \<in> {None, Some []}" "resolve_job_name cmd = Inr name"
  shows "\<exists>app command. cmd_module cmd = app @ COMMANDS_MARKER @ command \<and> name = app @ ''.'' @ command"
proof -
  obtain app sep rest where part: "partition_at COMMANDS_MARKER (cmd_module cmd) = (app, sep, rest)"
    by (cases "partition_at COMMANDS_MARKER (cmd_module cmd)")
  with assms have "sep" "name = app @ ''.'' @ rest"
    by (auto simp: resolve_job_name_def split: if_splits)
  with partition_at_found[of COMMANDS_MARKER "cmd_module cmd" app rest] part
  show ?thesis by (intro exI[of _ app] exI[of _ rest]) simp
qed

lemma resolve_error:
  "resolve_job_name cmd = Inl e \<longleftrightarrow>
     e = ImproperlyConfigured \<and> cmd_job_name cmd \<in> {None, Some []} \<and> \<not> fst (snd (partition_at COMMANDS_MARKER (cmd_module cmd)))"
  by (cases "cmd_job_name cmd"; cases "the (cmd_job_name cmd)")
     (auto simp: resolve_job_name_def split: prod.splits)

lemma single_flight_held:
  assumes "cache_laws C" "resolve_job_name cmd = Inr name" "cache_get C (job_lock_key name) now s \<noteq> None"
  shows "\<exists>s'. single_flight C cmd tok t now x y body s d = (Inr Skipped, s', d)
    \<and> (\<forall>j u. now \<le> u \<longrightarrow> cache_get C j u s' = cache_get C j u s)"
proof -
  obtain got s1 where add: "cache_add C (job_lock_key name) tok t now s = (got, s1)" by fastforce
  have "\<not> got" using cache_lawsD(1)[OF assms(1), of "job_lock_key name" tok t now s] assms(3) add by simp
  moreover from this have "cache_get C j u s1 = cache_get C j u s" if "now \<le> u" for j u
    using cache_lawsD(2)[OF assms(1) that, of j "job_lock_key name" tok t s] add by simp
  ultimately show ?thesis
    by (simp add: single_flight_def assms(2) named_lock_enter_def add named_lock_exit_def exit_check_def)
qed

text \<open>A run on a free lock, whatever its body does with the cache; \<open>s1\<close> is the cache its body starts on.\<close>

lemma single_flight_free:
  assumes "cache_laws C" "resolve_job_name cmd = Inr name" "cache_get C (job_lock_key name) now s = None"
  shows "\<exists>s1. (\<forall>j u. now \<le> u \<longrightarrow> cache_get C j u s1 =
        (if j = job_lock_key name then (if u < now + seconds t then Some tok else None) else cache_get C j u s))
    \<and> (case body s1 d of (r, s2, d') \<Rightarrow>
        \<exists>s'. single_flight C cmd tok t now x y body s d = (Inr (Ran r), s', d')
          \<and> (if cache_get C (job_lock_key name) x s2 = Some tok
             then \<forall>j u. y \<le> u \<longrightarrow> cache_get C j u s' = (if j = job_lock_key name then None else cache_get C j u s2)
             else s' = s2))"
proof -
  let ?k = "job_lock_key name"
  obtain got s1 where add: "cache_add C ?k tok t now s = (got, s1)" by fastforce
  have got: got using cache_lawsD(1)[OF assms(1), of ?k tok t now s] assms(3) add by simp
  have start: "cache_get C j u s1 = (if j = ?k then (if u < now + seconds t then Some tok else None) else cache_get C j u s)"
    if "now \<le> u" for j u using cache_lawsD(2)[OF assms(1) that, of j ?k tok t s] add got by simp
  obtain r s2 d' where body: "body s1 d = (r, s2, d')" by (cases "body s1 d")
  have "single_flight C cmd tok t now x y body s d =
      (Inr (Ran r), if cache_get C ?k x s2 = Some tok then cache_delete C ?k y s2 else s2, d')"
    by (simp add: single_flight_def assms(2) named_lock_enter_def add got body named_lock_exit_def exit_check_def exit_delete_def)
  then show ?thesis
    by (intro exI[of _ s1]) (auto simp: start body cache_lawsD(4)[OF assms(1)])
qed

lemma fold_clear:
  assumes "cache_laws C" "now \<le> u"
  shows "cache_get C j u (fold (\<lambda>n s. cache_delete C (job_lock_key n) now s) jobs s) =
    (if j \<in> job_lock_key ` set jobs then None else cache_get C j u s)"
  by (induction jobs arbitrary: s) (auto simp: cache_lawsD(4)[OF assms])

end
