(* ===== verification/Samples_Feeds.thy ===== *)
theory Samples_Feeds
  imports Samples Polling Single_Flight "HOL-Library.Countable"
begin

text \<open>
  A concrete feed of one source, what a connector yields for it, a cache and a single-flight
  command, on which the properties of sources, polls and locks are exercised.
\<close>

instance json :: countable
  by countable_datatype

definition sample_spec :: source_spec where
  "sample_spec = RedditSubredditSourceSpec ''isabelle''"

definition sample_source_env :: source_env where
  "sample_source_env =
     \<lparr>registered_kinds = {''reddit_subreddit'', ''hn_comment''}, SOURCE_BLOCK_PRIVATE_IPS = True,
      sha256 = id,
      json_dumps = (\<lambda>v. case v of JObj kvs \<Rightarrow> concat (map (\<lambda>(k, v). case v of JStr s \<Rightarrow> s | _ \<Rightarrow> []) kvs) | _ \<Rightarrow> []),
      py_str = (\<lambda>_. []),
      spec_adapter = (\<lambda>b. if b = [] then Some (HackerNewsCommentSourceSpec ''hol'' Match_All) else None),
      feed_validate = (\<lambda>_. Some \<lparr>retention_days = 30, default_field_map = []\<rparr>)\<rparr>"

definition sample_source :: source where
  "sample_source = \<lparr>so_id = 13, so_account = 100, so_feed = 4, so_kind = ''hn_comment'', so_spec = [],
     so_hash = ''h'', so_last_event = Some 2, so_meta = [], so_field_map = []\<rparr>"

definition sample_payload :: source_payload where
  "sample_payload = \<lparr>pl_source = ''hn_comment'', pl_external_id = ''x1'', pl_occurred = \<lparr>dt_local = 7, dt_offset = None\<rparr>,
     pl_subreddit = [], pl_dump = []\<rparr>"

text \<open>The connector yields the payload, save that it is down at its call number one.\<close>

definition sample_poll :: poll_env where
  "sample_poll =
     \<lparr>connector_of = (\<lambda>k. if k = ''hn_comment'' then Some (\<lambda>spec since fm n. if n \<noteq> 1 then ([sample_payload], None)
        else ([], Some ConnectionError)) else None),
      reddit_combined = Some (\<lambda>subs since n. ([], None)), beat = (\<lambda>_. True), shuffled = (\<lambda>_ xs. xs),
      min_ulid = (\<lambda>_. 0)\<rparr>"

definition sample_sourced :: db where
  "sample_sourced = sample_db\<lparr>sources := [sample_source]\<rparr>"

lemmas sample_feed_defs = sample_spec_def sample_source_env_def sample_source_def sample_payload_def sample_poll_def
  sample_sourced_def

lemma sample_shuffles: "shuffles sample_poll"
  by (simp add: shuffles_def sample_poll_def)

lemma sample_config: "load_feed_config sample_source_env sample_feed = Inr \<lparr>retention_days = 30, default_field_map = []\<rparr>"
  by (simp add: load_feed_config_def parse_feed_config_def sample_feed_def sample_source_env_def)

lemma sample_poll_source:
  "fst (poll_source sample_env sample_source_env sample_poll 100 sample_feed \<lparr>retention_days = 30, default_field_map = []\<rparr>
     sample_source (HackerNewsCommentSourceSpec ''hol'' Match_All) sample_sourced) = Inr (1, 1)"
  by code_simp

lemma sample_poll_run:
  "fst (poll_run sample_env sample_source_env sample_poll sample_feed 10 sample_sourced) =
     Inr \<lparr>pr_observed = 1, pr_recorded = 1, pr_pruned = 0\<rparr>"
  by code_simp

definition sample_inputs :: "source_input list" where
  "sample_inputs = [\<lparr>si_spec = sample_spec, si_meta = [(''team'', ''a'')], si_field_map = [], si_last_event = None\<rparr>]"

lemma sample_set_sources:
  "fst (set_sources sample_env sample_source_env 100 sample_feed sample_inputs False True 10 sample_sourced) =
     Inr \<lparr>sr_added = 1, sr_removed = 1, sr_persisted = 0, sr_source_count = 1\<rparr>"
  by code_simp

text \<open>The three processes of \<open>overlap_when_slow\<close> before any of them runs, and an injective \<open>dumps\<close>.\<close>

lemma trio_starts: "lock_start table_cache trio trio_start"
proof -
  have "inj (\<lambda>p. replicate p CHR ''x'')" by (rule injI) (metis length_replicate)
  then show ?thesis by (simp add: lock_start_def trio_start_def trio_def table_cache_def)
qed

definition sample_dumps :: "json \<Rightarrow> string" where
  "sample_dumps v = replicate (to_nat v) CHR ''x''"

lemma sample_dumps_inj: "inj sample_dumps"
  by (rule injI) (metis sample_dumps_def length_replicate inj_to_nat injD)

end
