(* ===== verification/Fetching.thy ===== *)
theory Fetching
  imports Ssrf
begin

text \<open>
  Fetching over HTTP (sources/connectors/base.py and challenge\_bypass.py): the capped read of a
  streamed body, the wait a rate limit asks for, the fetch of an untrusted URL over the pinned
  transport, the challenge-bypass sidecar, and the text of an article.

  \<open>web\<close> is what lies outside: the resolver, httpx (for a URL, the hosts it connects to in turn over
  its redirects and what it then has), the sidecar service, and trafilatura. A fetch is given the log
  of \<open>egress\<close> events, newest first, and returns it extended with its own: the lookups it made, the
  addresses sockets were opened to and the URLs the sidecar was handed. What the sidecar then does is
  its own. Bytes are characters; times are microseconds.
\<close>

type_synonym bytes = string

datatype chunk = Chunk int bytes | Read_Error exn

record http_reply =
  rp_status :: int
  rp_headers :: "(string \<times> string) list"
  rp_chunks :: "chunk list"

record exchange =
  ex_hops :: "(string \<times> nat option) list"
  ex_reply :: "exn + http_reply"

record post_reply =
  pr_status :: int
  pr_json :: "json option"

record web =
  getaddrinfo :: resolver
  http_get :: "string \<Rightarrow> exchange"
  sidecar :: "string \<Rightarrow> string \<Rightarrow> exn + post_reply"
  trafilatura :: "bytes \<Rightarrow> exn + string option"
  CHALLENGE_BYPASS_URL :: string
  monotonic :: int

definition FETCH_TOTAL_TIMEOUT :: int where
  "FETCH_TOTAL_TIMEOUT = seconds 30"

definition FETCH_DEFAULT_MAX_BYTES :: nat where
  "FETCH_DEFAULT_MAX_BYTES = 5 * 1024 * 1024"

subsection \<open>Reading a body\<close>

definition is_success :: "http_reply \<Rightarrow> bool" where
  "is_success r \<longleftrightarrow> 200 \<le> rp_status r \<and> rp_status r < 300"

fun read_chunks :: "nat \<Rightarrow> int option \<Rightarrow> bytes \<Rightarrow> chunk list \<Rightarrow> exn + bytes" where
  "read_chunks max_bytes deadline body [] = Inr body"
| "read_chunks max_bytes deadline body (Read_Error e # cs) = Inl e"
| "read_chunks max_bytes deadline body (Chunk t b # cs) =
     (if (case deadline of Some dl \<Rightarrow> dl < t | None \<Rightarrow> False) then Inl ConnectorParseError
      else if max_bytes < length (body @ b) then Inl ConnectorParseError
      else read_chunks max_bytes deadline (body @ b) cs)"

definition read_response_capped :: "nat \<Rightarrow> int option \<Rightarrow> http_reply \<Rightarrow> exn + bytes" where
  "read_response_capped max_bytes deadline r = read_chunks max_bytes deadline [] (rp_chunks r)"

subsection \<open>Rate limits\<close>

text \<open>\<open>float(text)\<close> is \<open>py_float\<close>; \<open>None\<close> is its ValueError.\<close>

datatype py_float = Finite rat | Infinite | Nan

definition as_positive_float :: "(string \<Rightarrow> py_float option) \<Rightarrow> string option \<Rightarrow> rat option" where
  "as_positive_float py_float raw =
     (case raw of
        None \<Rightarrow> None
      | Some s \<Rightarrow> (case py_float s of Some (Finite v) \<Rightarrow> if 0 < v then Some v else None | _ \<Rightarrow> None))"

text \<open>Header names compare without case.\<close>

definition header :: "http_reply \<Rightarrow> string \<Rightarrow> string option" where
  "header r name = map_option snd (find (\<lambda>(n, v). map to_lower n = map to_lower name) (rp_headers r))"

definition parse_rate_limit_wait :: "(string \<Rightarrow> py_float option) \<Rightarrow> http_reply \<Rightarrow> rat option" where
  "parse_rate_limit_wait py_float r =
     (case as_positive_float py_float (header r ''Retry-After'') of
        Some s \<Rightarrow> Some s
      | None \<Rightarrow> as_positive_float py_float (header r ''X-RateLimit-Reset''))"

subsection \<open>Fetching an untrusted URL\<close>

text \<open>The request hook of operator-chosen URLs.\<close>

definition validate_request_url :: "resolver \<Rightarrow> bool \<Rightarrow> string \<Rightarrow> egress list \<Rightarrow> egress list \<times> (exn + unit)" where
  "validate_request_url g block_private_ips url sent =
     (case destination_block_reason g False block_private_ips True url sent of
        (sent1, Inl e) \<Rightarrow> (sent1, Inl e)
      | (sent1, Inr (Some _)) \<Rightarrow> (sent1, Inl ConnectorParseError)
      | (sent1, Inr None) \<Rightarrow> (sent1, Inr ()))"

fun connect_hops :: "resolver \<Rightarrow> (string \<times> nat option) list \<Rightarrow> egress list \<Rightarrow> egress list \<times> (exn + unit)" where
  "connect_hops g [] sent = (sent, Inr ())"
| "connect_hops g ((host, prt) # hops) sent =
     (case connect_tcp g host prt sent of
        (sent1, Inl e) \<Rightarrow> (sent1, Inl e)
      | (sent1, Inr _) \<Rightarrow> connect_hops g hops sent1)"

definition fetch_url_safely :: "web \<Rightarrow> nat \<Rightarrow> string \<Rightarrow> egress list \<Rightarrow> egress list \<times> (exn + bytes)" where
  "fetch_url_safely W max_bytes url sent =
     (let ex = http_get W url; (sent1, res) = connect_hops (getaddrinfo W) (ex_hops ex) sent
      in (sent1, case res of
                Inl e \<Rightarrow> Inl (if e = SsrfBlocked then ConnectorParseError else e)
              | Inr _ \<Rightarrow>
                  (case ex_reply ex of
                     Inl e \<Rightarrow> Inl e
                   | Inr r \<Rightarrow>
                       if \<not> is_success r then Inl HTTPError
                       else read_response_capped max_bytes (Some (monotonic W + FETCH_TOTAL_TIMEOUT)) r)))"

text \<open>A raise of the extractor is the empty text.\<close>

definition extract_article_text :: "web \<Rightarrow> bytes \<Rightarrow> string" where
  "extract_article_text W html =
     (case trafilatura W html of
        Inl _ \<Rightarrow> []
      | Inr None \<Rightarrow> []
      | Inr (Some text) \<Rightarrow> strip (take 20000 text))"

subsection \<open>The challenge-bypass sidecar\<close>

definition utf8 :: "string \<Rightarrow> bytes" where
  "utf8 s = concat (map (\<lambda>c. let n = (of_char c :: nat)
      in if n < 128 then [c] else [char_of (192 + n div 64), char_of (128 + n mod 64)]) s)"

definition rstrip_slash :: "string \<Rightarrow> string" where
  "rstrip_slash s = rev (dropWhile (\<lambda>c. c = CHR ''/'') (rev s))"

text \<open>\<open>((payload.get("solution") or {}).get("response")) or ""\<close>; only an object has \<open>get\<close>.\<close>

definition solution_response :: "blob \<Rightarrow> exn + json" where
  "solution_response payload =
     (case map_of payload ''solution'' of
        Some (JObj sol) \<Rightarrow>
          Inr (case map_of sol ''response'' of Some v \<Rightarrow> if json_truthy v then v else JStr [] | None \<Rightarrow> JStr [])
      | Some v \<Rightarrow> if json_truthy v then Inl AttributeError else Inr (JStr [])
      | None \<Rightarrow> Inr (JStr []))"

definition challenge_bypass_fetch :: "web \<Rightarrow> nat \<Rightarrow> string \<Rightarrow> egress list \<Rightarrow> egress list \<times> (exn + bytes option)" where
  "challenge_bypass_fetch W max_bytes url sent =
     (let endpoint = rstrip_slash (CHALLENGE_BYPASS_URL W)
      in if endpoint = [] then (sent, Inr None)
         else (Sidecar_Asked url # sent,
           case sidecar W endpoint url of
             Inl _ \<Rightarrow> Inr None
           | Inr reply \<Rightarrow>
               if pr_status reply \<noteq> 200 then Inr None
               else (case pr_json reply of
                       Some (JObj payload) \<Rightarrow>
                         if map_of payload ''status'' \<noteq> Some (JStr ''ok'') then Inr None
                         else (case solution_response payload of
                                 Inl e \<Rightarrow> Inl e
                               | Inr (JStr body) \<Rightarrow>
                                   if body = [] then Inr None
                                   else if max_bytes < length (utf8 body) then Inr None
                                   else Inr (Some (utf8 body))
                               | Inr _ \<Rightarrow> Inl AttributeError)
                     | _ \<Rightarrow> Inr None)))"

text \<open>The shape a URL must have to be handed to the sidecar.\<close>

definition is_fetchable_web_url :: "string \<Rightarrow> bool" where
  "is_fetchable_web_url u =
     (case urlsplit u of
        Inl _ \<Rightarrow> False
      | Inr parts \<Rightarrow> (scheme parts = ''http'' \<or> scheme parts = ''https'') \<and> hostname parts \<noteq> None)"

subsection \<open>Bounds and safety\<close>

fun chunk_bytes :: "chunk \<Rightarrow> bytes" where
  "chunk_bytes (Chunk t b) = b"
| "chunk_bytes (Read_Error e) = []"

lemma read_chunks_Inr:
  "read_chunks m dl body cs = Inr b \<Longrightarrow> length body \<le> m \<Longrightarrow>
     length b \<le> m \<and> b = body @ concat (map chunk_bytes cs)
     \<and> (\<forall>t x. Chunk t x \<in> set cs \<longrightarrow> (case dl of Some d \<Rightarrow> t \<le> d | None \<Rightarrow> True))"
proof (induction m dl body cs rule: read_chunks.induct)
  case (3 m dl body t x cs)
  then show ?case by (auto split: if_splits option.splits)
qed (auto split: option.split)

lemma read_chunks_Inl:
  "read_chunks m dl body cs = Inl e \<Longrightarrow> e = ConnectorParseError \<or> Read_Error e \<in> set cs"
  by (induction m dl body cs rule: read_chunks.induct) (auto split: if_splits)

lemma read_response_capped_bounded:
  "read_response_capped m dl r = Inr b \<Longrightarrow> length b \<le> m \<and> b = concat (map chunk_bytes (rp_chunks r))"
  unfolding read_response_capped_def by (drule read_chunks_Inr) auto

lemma as_positive_float_pos: "as_positive_float f raw = Some v \<Longrightarrow> 0 < v"
  by (auto simp: as_positive_float_def split: option.splits py_float.splits if_splits)

lemma rate_limit_wait_pos: "parse_rate_limit_wait f r = Some v \<Longrightarrow> 0 < v"
  by (auto simp: parse_rate_limit_wait_def split: option.splits dest: as_positive_float_pos)

text \<open>
  A log is cleared when every connection in it goes to a public address and every URL in it that the
  sidecar was handed was checked right before.
\<close>

fun cleared :: "egress list \<Rightarrow> bool" where
  "cleared [] \<longleftrightarrow> True"
| "cleared (Looked_Up h p a # sent) \<longleftrightarrow> cleared sent"
| "cleared (Connected t # sent) \<longleftrightarrow> public_address t \<and> cleared sent"
| "cleared (Requested u # sent) \<longleftrightarrow> cleared sent"
| "cleared (Sidecar_Asked u # sent) \<longleftrightarrow> is_fetchable_web_url u \<and> destination_clear u sent \<and> cleared sent"

lemma connect_tcp_cleared: "cleared sent \<Longrightarrow> cleared (fst (connect_tcp g host prt sent))"
proof -
  obtain sent' res where c: "connect_tcp g host prt sent = (sent', res)" by fastforce
  assume "cleared sent"
  with connect_tcp_safe[OF c] c show ?thesis by auto
qed

lemma connect_hops_cleared: "cleared sent \<Longrightarrow> cleared (fst (connect_hops g hops sent))"
proof (induction g hops sent rule: connect_hops.induct)
  case (2 g host prt hops sent)
  then show ?case using connect_tcp_cleared[of sent g host prt] by (auto split: sum.split prod.split)
qed simp

lemma fetch_url_safely_cleared: "cleared sent \<Longrightarrow> cleared (fst (fetch_url_safely W m url sent))"
  using connect_hops_cleared[of sent "getaddrinfo W" "ex_hops (http_get W url)"]
  by (simp add: fetch_url_safely_def Let_def split_beta)

lemma fetch_url_safely_bounded:
  "snd (fetch_url_safely W m url sent) = Inr b \<Longrightarrow> length b \<le> m"
  by (auto simp: fetch_url_safely_def Let_def split_beta split: sum.splits if_splits
      dest: read_response_capped_bounded)

lemma length_strip: "length (strip s) \<le> length s"
  unfolding strip_def by (metis length_dropWhile_le length_rev order_trans)

lemma article_bounded: "length (extract_article_text W html) \<le> 20000"
  using length_strip[of "take 20000 _"]
  by (auto simp: extract_article_text_def split: sum.split option.split intro: order_trans)

lemma utf8_Nil [simp]: "utf8 s = [] \<longleftrightarrow> s = []"
  by (cases s) (simp_all add: utf8_def Let_def)

lemma challenge_bypass_bounded:
  "snd (challenge_bypass_fetch W m url sent) = Inr (Some b) \<Longrightarrow> length b \<le> m \<and> b \<noteq> []"
  by (auto simp: challenge_bypass_fetch_def Let_def split: if_splits sum.splits option.splits json.splits)

lemma challenge_bypass_asks: "fst (challenge_bypass_fetch W m url sent) \<in> {sent, Sidecar_Asked url # sent}"
  by (simp add: challenge_bypass_fetch_def Let_def)

lemma challenge_bypass_off: "CHALLENGE_BYPASS_URL W = [] \<Longrightarrow> challenge_bypass_fetch W m url sent = (sent, Inr None)"
  by (simp add: challenge_bypass_fetch_def rstrip_slash_def)

end
