(* ===== verification/Payload_Text.thy ===== *)
theory Payload_Text
  imports Feed_Items Fetching
begin

text \<open>
  What the connectors share to turn an upstream entry into a payload: the values a parsed feed entry
  can hold, UTC datetimes from a \<open>struct_time\<close>, and the text of an HTML fragment by the regular
  expressions of the payload modules. \<open>text_env\<close> is what lies outside: feedparser, \<open>html.unescape\<close>,
  the text pydantic gives a datetime in JSON, \<open>float\<close> and \<open>str\<close>, and the two date parsers
  \<open>parsedate_to_datetime\<close> and \<open>datetime.fromisoformat\<close>, \<open>None\<close> for the error they raise.
\<close>

record struct_time =
  tm_year :: int
  tm_mon :: int
  tm_mday :: int
  tm_hour :: int
  tm_min :: int
  tm_sec :: int

text \<open>\<open>EV_Other\<close> is any other object: its \<open>str\<close> and its truth value.\<close>

datatype entry_value =
    EV_Str string
  | EV_Time struct_time
  | EV_List "entry_value list"
  | EV_Dict "(string \<times> entry_value) list"
  | EV_Other string bool

type_synonym entry = "(string \<times> entry_value) list"

record parsed_feed =
  pf_version :: string
  pf_entries :: "entry list"

record text_env =
  feed_parse :: "bytes \<Rightarrow> parsed_feed"
  unescape :: "string \<Rightarrow> string"
  iso_text :: "dt \<Rightarrow> string"
  float_of :: "string \<Rightarrow> py_float option"
  ev_repr :: "entry_value \<Rightarrow> string"
  rfc_date :: "string \<Rightarrow> dt option"
  iso_date :: "string \<Rightarrow> dt option"

fun ev_truthy :: "entry_value \<Rightarrow> bool" where
  "ev_truthy (EV_Str s) = (s \<noteq> [])"
| "ev_truthy (EV_Time t) = True"
| "ev_truthy (EV_List xs) = (xs \<noteq> [])"
| "ev_truthy (EV_Dict kvs) = (kvs \<noteq> [])"
| "ev_truthy (EV_Other s b) = b"

text \<open>\<open>entry.get(key, "")\<close> where a string is then required.\<close>

definition get_str :: "entry \<Rightarrow> string \<Rightarrow> exn + string" where
  "get_str e k = (case map_of e k of None \<Rightarrow> Inr [] | Some (EV_Str s) \<Rightarrow> Inr s | Some _ \<Rightarrow> Inl AttributeError)"

subsection \<open>Datetimes\<close>

definition leap :: "int \<Rightarrow> bool" where
  "leap y \<longleftrightarrow> y mod 4 = 0 \<and> (y mod 100 \<noteq> 0 \<or> y mod 400 = 0)"

definition days_in_month :: "int \<Rightarrow> int \<Rightarrow> int" where
  "days_in_month y m = (if m = 2 then if leap y then 29 else 28 else if m \<in> {4, 6, 9, 11} then 30 else 31)"

definition ymd_ordinal :: "int \<Rightarrow> int \<Rightarrow> int \<Rightarrow> int" where
  "ymd_ordinal y m d =
     (y - 1) * 365 + (y - 1) div 4 - (y - 1) div 100 + (y - 1) div 400
     + sum_list (map (days_in_month y) [1..m - 1]) + d"

text \<open>\<open>datetime(..., tzinfo=UTC)\<close>: fields out of range are a ValueError.\<close>

definition utc_datetime :: "struct_time \<Rightarrow> exn + dt" where
  "utc_datetime t =
     (if 1 \<le> tm_year t \<and> tm_year t \<le> 9999 \<and> 1 \<le> tm_mon t \<and> tm_mon t \<le> 12
         \<and> 1 \<le> tm_mday t \<and> tm_mday t \<le> days_in_month (tm_year t) (tm_mon t)
         \<and> 0 \<le> tm_hour t \<and> tm_hour t < 24 \<and> 0 \<le> tm_min t \<and> tm_min t < 60 \<and> 0 \<le> tm_sec t \<and> tm_sec t < 60
      then Inr \<lparr>dt_local = seconds ((ymd_ordinal (tm_year t) (tm_mon t) (tm_mday t) - 719163) * 86400
                 + tm_hour t * 3600 + tm_min t * 60 + tm_sec t), dt_offset = Some 0\<rparr>
      else Inl ValueError)"

lemma utc_datetime_aware: "utc_datetime t = Inr v \<Longrightarrow> dt_offset v = Some 0"
  by (auto simp: utc_datetime_def split: if_splits)

subsection \<open>HTML to text\<close>

text \<open>\<open>re.sub("<[^>]+>", " ", s)\<close>.\<close>

function sub_tags :: "string \<Rightarrow> string" where
  "sub_tags [] = []"
| "sub_tags (c # cs) =
     (let inner = takeWhile (\<lambda>x. x \<noteq> CHR ''>'') cs; rest = dropWhile (\<lambda>x. x \<noteq> CHR ''>'') cs
      in if c = CHR ''<'' \<and> inner \<noteq> [] \<and> rest \<noteq> [] then CHR '' '' # sub_tags (tl rest) else c # sub_tags cs)"
  by pat_completeness auto
termination
proof (relation "measure length")
  fix c :: char and cs inner rest :: string
  assume "rest = dropWhile (\<lambda>x. x \<noteq> CHR ''>'') cs"
  then have "length rest \<le> length cs" by (simp add: length_dropWhile_le)
  then show "(tl rest, c # cs) \<in> measure length" by simp
qed simp_all

text \<open>\<open>re.sub("\\s+", " ", s)\<close>.\<close>

fun sub_spaces :: "string \<Rightarrow> string" where
  "sub_spaces [] = []"
| "sub_spaces (c # cs) =
     (if is_space c then (case cs of d # _ \<Rightarrow> if is_space d then sub_spaces cs else CHR '' '' # sub_spaces cs
                                   | [] \<Rightarrow> [CHR '' ''])
      else c # sub_spaces cs)"

definition html_to_text :: "text_env \<Rightarrow> string \<Rightarrow> string" where
  "html_to_text X v = strip (sub_spaces (unescape X (sub_tags v)))"

text \<open>The text after \<open><!--\s*word\s*-->\<close> at the head of \<open>s\<close>.\<close>

definition after_comment :: "string \<Rightarrow> string \<Rightarrow> string option" where
  "after_comment word s =
     (if take 4 s \<noteq> ''<!--'' then None
      else let t = dropWhile is_space (drop 4 s)
        in if take (length word) t \<noteq> word then None
           else let u = dropWhile is_space (drop (length word) t)
             in if take 3 u = ''-->'' then Some (drop 3 u) else None)"

text \<open>The text before the first such comment and the text after it.\<close>

fun split_comment :: "string \<Rightarrow> string \<Rightarrow> (string \<times> string) option" where
  "split_comment word [] = None"
| "split_comment word (c # cs) =
     (case after_comment word (c # cs) of
        Some rest \<Rightarrow> Some ([], rest)
      | None \<Rightarrow> map_option (\<lambda>(before, rest). (c # before, rest)) (split_comment word cs))"

text \<open>The group of \<open>_SC_BLOCK_RE\<close>.\<close>

definition sc_block :: "string \<Rightarrow> string option" where
  "sc_block s =
     (case split_comment ''SC_OFF'' s of
        None \<Rightarrow> None
      | Some (_, rest) \<Rightarrow> map_option fst (split_comment ''SC_ON'' rest))"

definition atom_content_to_text :: "text_env \<Rightarrow> string \<Rightarrow> string" where
  "atom_content_to_text X content_html =
     (case sc_block content_html of None \<Rightarrow> [] | Some body \<Rightarrow> html_to_text X body)"

lemma sub_spaces_step:
  "set (sub_spaces (c # cs)) \<subseteq> insert (if is_space c then CHR '' '' else c) (set (sub_spaces cs))"
  by (cases cs) (auto simp del: sub_spaces.simps simp: sub_spaces.simps(2)[of c])

lemma sub_spaces_only: "c \<in> set (sub_spaces s) \<Longrightarrow> is_space c \<Longrightarrow> c = CHR '' ''"
proof (induction s)
  case (Cons d s)
  from Cons.prems(1) sub_spaces_step[of d s]
  have "c = (if is_space d then CHR '' '' else d) \<or> c \<in> set (sub_spaces s)" by blast
  with Cons.IH Cons.prems(2) show ?case by (cases "is_space d") auto
qed simp

lemma set_strip: "set (strip s) \<subseteq> set s"
  unfolding strip_def by (metis set_dropWhileD set_rev subsetI)

text \<open>The only white space of a text is the blank.\<close>

lemma html_to_text_blanks: "c \<in> set (html_to_text X v) \<Longrightarrow> is_space c \<Longrightarrow> c = CHR '' ''"
  unfolding html_to_text_def using set_strip sub_spaces_only by blast

end
