(* ===== verification/Reddit_Connector.thy ===== *)
theory Reddit_Connector
  imports Payload_Text
begin

text \<open>
  The reddit connector (sources/connectors/reddit): the payload of an Atom entry, the page fetch that
  sleeps out rate limits, and the newest-first walk of \<open>/new\<close>. The service is \<open>reddit_get\<close>: the answer
  to the \<open>n\<close>-th request of a walk. A walk threads \<open>walk_state\<close>: the requests made, the seconds slept
  and the heartbeats given. A generator is a \<open>stream\<close>: what it yields, and the error that ends it.
\<close>

type_synonym payload_stream = "source_payload list \<times> exn option"

definition PAGE_SIZE :: nat where
  "PAGE_SIZE = 100"

definition MAX_PAGES :: nat where
  "MAX_PAGES = 10"

definition MAX_RATE_LIMIT_RETRIES :: nat where
  "MAX_RATE_LIMIT_RETRIES = 6"

definition RATE_LIMIT_BACKOFF_BASE_SECONDS :: rat where
  "RATE_LIMIT_BACKOFF_BASE_SECONDS = 2"

definition RATE_LIMIT_DELAY_CAP_SECONDS :: rat where
  "RATE_LIMIT_DELAY_CAP_SECONDS = 60"

definition HEARTBEAT_SLEEP_CHUNK_SECONDS :: rat where
  "HEARTBEAT_SLEEP_CHUNK_SECONDS = 15"

record reddit_world =
  reddit_get :: "nat \<Rightarrow> string \<Rightarrow> (string \<times> string) list \<Rightarrow> exn + http_reply"
  rd_text :: text_env
  rd_heartbeat :: bool

record walk_state =
  ws_requests :: nat
  ws_slept :: rat
  ws_beats :: nat

subsection \<open>The payload\<close>

definition removeprefix :: "string \<Rightarrow> string \<Rightarrow> string" where
  "removeprefix p s = (if take (length p) s = p then drop (length p) s else s)"

definition feedparser_content_html :: "entry \<Rightarrow> exn + string" where
  "feedparser_content_html e =
     (case map_of e ''content'' of
        Some (EV_List (EV_Dict kvs # _)) \<Rightarrow> get_str kvs ''value''
      | Some (EV_List (EV_Str s # _)) \<Rightarrow> Inr s
      | Some (EV_List (EV_Other s _ # _)) \<Rightarrow> Inr s
      | Some v \<Rightarrow> if ev_truthy v then Inl TypeError else Inr []
      | None \<Rightarrow> Inr [])"

definition entry_subreddit :: "entry \<Rightarrow> exn + string" where
  "entry_subreddit e =
     (case map_of e ''tags'' of Some (EV_List (EV_Dict kvs # _)) \<Rightarrow> get_str kvs ''term'' | _ \<Rightarrow> Inr [])"

definition reddit_payload :: "text_env \<Rightarrow> entry \<Rightarrow> dt \<Rightarrow> exn + source_payload" where
  "reddit_payload X e published =
     (case (get_str e ''id'', get_str e ''author'', get_str e ''link'', entry_subreddit e, get_str e ''title'',
            feedparser_content_html e) of
        (Inr eid, Inr author, Inr link, Inr sub, Inr title, Inr content) \<Rightarrow>
          (let post = removeprefix ''t3_'' eid;
               path = removeprefix ''https://www.reddit.com'' link;
               permalink = (if path = [] then ''/'' else path)
           in Inr \<lparr>pl_source = ''reddit_subreddit'', pl_external_id = post, pl_occurred = published,
                   pl_subreddit = sub,
                   pl_dump = [(''external_id'', JStr post), (''kind'', JStr ''new_post''),
                     (''occurred_at'', JStr (iso_text X published)), (''source'', JStr ''reddit_subreddit''),
                     (''title'', JStr title), (''content'', JStr (atom_content_to_text X content)),
                     (''url'', JStr link), (''external_url'', JStr []), (''parent_external_id'', JStr []),
                     (''author'', JStr (removeprefix ''/u/'' author)), (''permalink'', JStr permalink),
                     (''subreddit'', JStr sub)]\<rparr>)
      | _ \<Rightarrow> Inl AttributeError)"

definition entry_published :: "entry \<Rightarrow> exn + dt option" where
  "entry_published e =
     (case map_of e ''published_parsed'' of
        Some (EV_Time t) \<Rightarrow> map_sum id Some (utc_datetime t)
      | _ \<Rightarrow> Inr None)"

subsection \<open>One page\<close>

definition rate_limit_delay :: "rat option \<Rightarrow> nat \<Rightarrow> rat" where
  "rate_limit_delay header_wait attempt =
     min (case header_wait of Some w \<Rightarrow> w | None \<Rightarrow> RATE_LIMIT_BACKOFF_BASE_SECONDS * 2 ^ attempt)
       RATE_LIMIT_DELAY_CAP_SECONDS"

text \<open>The heartbeats of one sleep: one after every chunk.\<close>

function sleep_beats :: "rat \<Rightarrow> nat" where
  "sleep_beats remaining =
     (if remaining \<le> 0 then 0 else Suc (sleep_beats (remaining - min remaining HEARTBEAT_SLEEP_CHUNK_SECONDS)))"
  by pat_completeness auto
termination
proof (relation "measure (\<lambda>r. nat \<lceil>r\<rceil>)")
  fix remaining :: rat
  assume pos: "\<not> remaining \<le> 0"
  let ?next = "remaining - min remaining HEARTBEAT_SLEEP_CHUNK_SECONDS"
  have "?next \<le> 0 \<or> ?next \<le> remaining - 1"
    by (auto simp: HEARTBEAT_SLEEP_CHUNK_SECONDS_def min_def)
  then have "\<lceil>?next\<rceil> \<le> 0 \<or> \<lceil>?next\<rceil> \<le> \<lceil>remaining\<rceil> - 1"
    by (metis ceiling_diff_one ceiling_mono ceiling_zero)
  moreover have "0 < \<lceil>remaining\<rceil>" using pos by simp
  ultimately show "(?next, remaining) \<in> measure (\<lambda>r. nat \<lceil>r\<rceil>)" by auto
qed simp

declare sleep_beats.simps [simp del]

definition sleep_with_heartbeat :: "bool \<Rightarrow> rat \<Rightarrow> walk_state \<Rightarrow> walk_state" where
  "sleep_with_heartbeat heartbeat secs st =
     st\<lparr>ws_slept := ws_slept st + secs, ws_beats := ws_beats st + (if heartbeat then sleep_beats secs else 0)\<rparr>"

function get_page :: "reddit_world \<Rightarrow> string \<Rightarrow> (string \<times> string) list \<Rightarrow> nat \<Rightarrow> walk_state
    \<Rightarrow> (exn + bytes) \<times> walk_state" where
  "get_page R u params attempt st =
     (let st1 = st\<lparr>ws_requests := Suc (ws_requests st)\<rparr>
      in case reddit_get R (ws_requests st) u params of
           Inl e \<Rightarrow> (Inl e, st1)
         | Inr r \<Rightarrow>
             if rp_status r \<noteq> 429 \<or> MAX_RATE_LIMIT_RETRIES \<le> attempt
             then (if \<not> is_success r then Inl HTTPError
                   else read_response_capped FETCH_DEFAULT_MAX_BYTES None r, st1)
             else get_page R u params (Suc attempt)
                    (sleep_with_heartbeat (rd_heartbeat R)
                      (rate_limit_delay (parse_rate_limit_wait (float_of (rd_text R)) r) attempt) st1))"
  by pat_completeness auto
termination
  by (relation "measure (\<lambda>(R, u, params, attempt, st). MAX_RATE_LIMIT_RETRIES - attempt)") auto

declare get_page.simps [simp del]

subsection \<open>The walk\<close>

text \<open>The entries of one page: what is yielded, and whether the walk stops, raises or goes on behind an id.\<close>

datatype page_end = Page_Stop | Page_Raise exn | Page_Next "string option"

fun walk_entries :: "text_env \<Rightarrow> instant option \<Rightarrow> string option \<Rightarrow> entry list \<Rightarrow> source_payload list \<times> page_end" where
  "walk_entries X since last_id [] = ([], Page_Next last_id)"
| "walk_entries X since last_id (e # es) =
     (case entry_published e of
        Inl err \<Rightarrow> ([], Page_Raise err)
      | Inr None \<Rightarrow> walk_entries X since last_id es
      | Inr (Some published) \<Rightarrow>
          (case reddit_payload X e published of
             Inl err \<Rightarrow> ([], Page_Raise err)
           | Inr pl \<Rightarrow>
               if pl_subreddit pl = [] then ([], Page_Raise ConnectorParseError)
               else if (case since of Some s \<Rightarrow> instant_of (pl_occurred pl) < s | None \<Rightarrow> False) then ([], Page_Stop)
               else let last_id' = (case get_str e ''id'' of Inr i \<Rightarrow> if i \<noteq> [] then Some i else last_id | Inl _ \<Rightarrow> last_id);
                        (pls, end) = walk_entries X since last_id' es
                    in (pl # pls, end)))"

definition page_params :: "string option \<Rightarrow> (string \<times> string) list" where
  "page_params after =
     (''limit'', dec PAGE_SIZE) # (case after of Some a \<Rightarrow> if a \<noteq> [] then [(''after'', a)] else [] | None \<Rightarrow> [])"

fun walk_pages :: "reddit_world \<Rightarrow> string \<Rightarrow> instant option \<Rightarrow> nat \<Rightarrow> string option \<Rightarrow> walk_state
    \<Rightarrow> payload_stream \<times> walk_state" where
  "walk_pages R u since 0 after st = (([], None), st)"
| "walk_pages R u since (Suc n) after st =
     (case get_page R u (page_params after) 0 st of
        (Inl e, st1) \<Rightarrow> (([], Some e), st1)
      | (Inr body, st1) \<Rightarrow>
          (let parsed = feed_parse (rd_text R) body
           in if pf_entries parsed = []
              then (([], if pf_version parsed = [] then Some ConnectorParseError else None), st1)
              else (case walk_entries (rd_text R) since None (pf_entries parsed) of
                      (pls, Page_Stop) \<Rightarrow> ((pls, None), st1)
                    | (pls, Page_Raise e) \<Rightarrow> ((pls, Some e), st1)
                    | (pls, Page_Next None) \<Rightarrow> ((pls, None), st1)
                    | (pls, Page_Next (Some a)) \<Rightarrow>
                        (let ((more, err), st2) = walk_pages R u since n (Some a) st1 in ((pls @ more, err), st2)))))"

definition new_walk :: walk_state where
  "new_walk = \<lparr>ws_requests = 0, ws_slept = 0, ws_beats = 0\<rparr>"

fun plus_join :: "string list \<Rightarrow> string" where
  "plus_join [] = []"
| "plus_join [s] = s"
| "plus_join (s # t # ss) = s @ ''+'' @ plus_join (t # ss)"

definition listing_url :: "string list \<Rightarrow> string" where
  "listing_url subs = ''https://www.reddit.com/r/'' @ plus_join subs @ ''/new/.rss''"

definition walk_new :: "reddit_world \<Rightarrow> string list \<Rightarrow> instant option \<Rightarrow> payload_stream \<times> walk_state" where
  "walk_new R subs since = walk_pages R (listing_url subs) since (MAX_PAGES * length subs) None new_walk"

definition reddit_poll :: "reddit_world \<Rightarrow> string \<Rightarrow> instant option \<Rightarrow> payload_stream" where
  "reddit_poll R sub since = fst (walk_new R [sub] since)"

definition poll_combined :: "reddit_world \<Rightarrow> string list \<Rightarrow> instant option \<Rightarrow> payload_stream" where
  "poll_combined R subreddits since =
     (let subs = filter (\<lambda>s. s \<noteq> []) (map strip subreddits)
      in if subs = [] then ([], Some ConnectorParseError) else fst (walk_new R subs since))"

subsection \<open>Bounds\<close>

lemma delay_cap: "rate_limit_delay w attempt \<le> 60"
  by (simp add: rate_limit_delay_def RATE_LIMIT_DELAY_CAP_SECONDS_def)

lemma delay_pos: "rate_limit_delay (parse_rate_limit_wait fl r) attempt > 0"
proof (cases "parse_rate_limit_wait fl r")
  case (Some w)
  then have "0 < w" by (rule rate_limit_wait_pos)
  with Some show ?thesis by (simp add: rate_limit_delay_def RATE_LIMIT_DELAY_CAP_SECONDS_def)
qed (simp add: rate_limit_delay_def RATE_LIMIT_DELAY_CAP_SECONDS_def RATE_LIMIT_BACKOFF_BASE_SECONDS_def)

text \<open>A sleep of at most \<open>15 * n\<close> seconds has at most \<open>n\<close> heartbeats, and one of positive length has one.\<close>

lemma sleep_beats_le: "r \<le> 15 * of_nat n \<Longrightarrow> sleep_beats r \<le> n"
proof (induction n arbitrary: r)
  case 0
  then show ?case by (simp add: sleep_beats.simps[of r])
next
  case (Suc n)
  show ?case
  proof (cases "r \<le> 0")
    case True
    then show ?thesis by (simp add: sleep_beats.simps[of r])
  next
    case False
    have "r - min r HEARTBEAT_SLEEP_CHUNK_SECONDS \<le> 15 * of_nat n"
      using Suc.prems by (auto simp: HEARTBEAT_SLEEP_CHUNK_SECONDS_def min_def algebra_simps)
    then have "sleep_beats (r - min r HEARTBEAT_SLEEP_CHUNK_SECONDS) \<le> n" by (rule Suc.IH)
    with False show ?thesis by (simp add: sleep_beats.simps[of r])
  qed
qed

lemma sleep_beats_pos: "0 < r \<Longrightarrow> 0 < sleep_beats r"
  by (simp add: sleep_beats.simps[of r])

text \<open>One page: at most seven requests, at most six minutes of sleep, and a body within the cap.\<close>

lemma get_page_bounds:
  assumes "get_page R u params attempt st = (res, st')" "attempt \<le> MAX_RATE_LIMIT_RETRIES"
  shows "ws_requests st' \<le> ws_requests st + Suc (MAX_RATE_LIMIT_RETRIES - attempt)
    \<and> ws_slept st' \<le> ws_slept st + 60 * of_nat (MAX_RATE_LIMIT_RETRIES - attempt)
    \<and> (\<forall>b. res = Inr b \<longrightarrow> length b \<le> FETCH_DEFAULT_MAX_BYTES)"
  using assms
proof (induction R u params attempt st rule: get_page.induct)
  case (1 R u params attempt st)
  define st1 where "st1 = st\<lparr>ws_requests := Suc (ws_requests st)\<rparr>"
  show ?case
  proof (cases "reddit_get R (ws_requests st) u params")
    case (Inl e)
    with "1.prems" show ?thesis by (auto simp: get_page.simps[of R u params attempt st] Let_def)
  next
    case (Inr r)
    show ?thesis
    proof (cases "rp_status r \<noteq> 429 \<or> MAX_RATE_LIMIT_RETRIES \<le> attempt")
      case True
      with Inr "1.prems" show ?thesis
        by (auto simp: get_page.simps[of R u params attempt st] Let_def dest: read_response_capped_bounded split: if_splits)
    next
      case False
      define d where "d = rate_limit_delay (parse_rate_limit_wait (float_of (rd_text R)) r) attempt"
      have next_page: "get_page R u params (Suc attempt) (sleep_with_heartbeat (rd_heartbeat R) d st1) = (res, st')"
        using "1.prems"(1) Inr False by (simp add: get_page.simps[of R u params attempt st] Let_def st1_def d_def)
      have le: "Suc attempt \<le> MAX_RATE_LIMIT_RETRIES" using False by simp
      note ih = "1.IH"[OF st1_def Inr, folded d_def, OF _ next_page le]
      have "d \<le> 60" by (simp add: d_def delay_cap)
      moreover have "of_nat (MAX_RATE_LIMIT_RETRIES - attempt) = (1 :: rat) + of_nat (MAX_RATE_LIMIT_RETRIES - Suc attempt)"
        using le by (metis Suc_diff_Suc Suc_le_lessD of_nat_Suc)
      ultimately show ?thesis
        using ih False le by (auto simp: sleep_with_heartbeat_def st1_def algebra_simps)
    qed
  qed
qed

lemma walk_pages_bounds:
  "walk_pages R u since n after st = (strm, st') \<Longrightarrow>
     ws_requests st' \<le> ws_requests st + 7 * n \<and> ws_slept st' \<le> ws_slept st + 360 * of_nat n"
proof (induction n arbitrary: after st strm st')
  case (Suc n)
  obtain res st1 where page: "get_page R u (page_params after) 0 st = (res, st1)" by fastforce
  have b: "ws_requests st1 \<le> ws_requests st + 7" "ws_slept st1 \<le> ws_slept st + 360"
    using get_page_bounds[OF page] by (simp_all add: MAX_RATE_LIMIT_RETRIES_def)
  have "st' = st1 \<or> (\<exists>a strm2. walk_pages R u since n (Some a) st1 = (strm2, st'))"
    using Suc.prems page by (auto simp: Let_def split: sum.splits if_splits prod.splits page_end.splits option.splits)
  then show ?case
  proof
    assume "st' = st1"
    with b show ?thesis by (simp add: algebra_simps)
  next
    assume "\<exists>a strm2. walk_pages R u since n (Some a) st1 = (strm2, st')"
    then obtain a strm2 where "walk_pages R u since n (Some a) st1 = (strm2, st')" by blast
    from Suc.IH[OF this] b show ?thesis by (auto simp: algebra_simps)
  qed
qed simp

subsection \<open>What the walk yields\<close>

definition fresh_enough :: "instant option \<Rightarrow> source_payload \<Rightarrow> bool" where
  "fresh_enough since pl = (case since of Some s \<Rightarrow> s \<le> instant_of (pl_occurred pl) | None \<Rightarrow> True)"

lemma walk_entries_yields:
  "walk_entries X since last_id es = (pls, e) \<Longrightarrow> pl \<in> set pls \<Longrightarrow>
     fresh_enough since pl \<and> pl_subreddit pl \<noteq> []"
proof (induction es arbitrary: last_id pls e)
  case (Cons x es)
  show ?case
  proof (cases "entry_published x")
    case (Inr po)
    show ?thesis
    proof (cases po)
      case (Some p)
      with Inr Cons.prems Cons.IH show ?thesis
        by (fastforce simp: fresh_enough_def Let_def split: sum.splits if_splits option.splits prod.splits)
    qed (use Inr Cons in auto)
  qed (use Cons.prems in auto)
qed simp

lemma walk_pages_yields:
  "pl \<in> set (fst (fst (walk_pages R u since n after st))) \<Longrightarrow> fresh_enough since pl \<and> pl_subreddit pl \<noteq> []"
proof (induction n arbitrary: after st)
  case (Suc n)
  obtain res st1 where page: "get_page R u (page_params after) 0 st = (res, st1)" by fastforce
  show ?case
  proof (cases res)
    case (Inr body)
    obtain pls e where w: "walk_entries (rd_text R) since None (pf_entries (feed_parse (rd_text R) body)) = (pls, e)"
      by fastforce
    with Suc page Inr walk_entries_yields[OF w] show ?thesis
      by (auto simp: Let_def split_beta split: if_splits page_end.splits option.splits)
  qed (use Suc.prems page in simp)
qed simp

subsection \<open>The walk reads a listing\<close>

text \<open>An entry that carries what reddit puts on every post.\<close>

definition entry_payload :: "text_env \<Rightarrow> entry \<Rightarrow> source_payload option" where
  "entry_payload X e =
     (case (entry_published e, get_str e ''id'') of
        (Inr (Some p), Inr i) \<Rightarrow>
          (case reddit_payload X e p of
             Inr pl \<Rightarrow> if i \<noteq> [] \<and> pl_subreddit pl \<noteq> [] then Some pl else None
           | Inl _ \<Rightarrow> None)
      | _ \<Rightarrow> None)"

definition entry_id :: "entry \<Rightarrow> string" where
  "entry_id e = (case get_str e ''id'' of Inr i \<Rightarrow> i | Inl _ \<Rightarrow> [])"

lemma entry_payload_Some:
  assumes "entry_payload X e = Some pl"
  obtains p where "entry_published e = Inr (Some p)" "reddit_payload X e p = Inr pl"
    "get_str e ''id'' = Inr (entry_id e)" "entry_id e \<noteq> []" "pl_subreddit pl \<noteq> []"
  using assms by (auto simp: entry_payload_def entry_id_def split: sum.splits option.splits if_splits)

lemma walk_entries_listing:
  assumes "list_all2 (\<lambda>e pl. entry_payload X e = Some pl) es pls"
  shows "walk_entries X since last_id es =
    (takeWhile (fresh_enough since) pls,
     if list_all (fresh_enough since) pls then Page_Next (if es = [] then last_id else Some (entry_id (last es)))
     else Page_Stop)"
  using assms
proof (induction arbitrary: last_id rule: list_all2_induct)
  case (Cons e es pl pls)
  obtain p where p: "entry_published e = Inr (Some p)" "reddit_payload X e p = Inr pl"
    "get_str e ''id'' = Inr (entry_id e)" "entry_id e \<noteq> []" "pl_subreddit pl \<noteq> []"
    using Cons.hyps(1) by (rule entry_payload_Some)
  have "(case since of Some s \<Rightarrow> instant_of (pl_occurred pl) < s | None \<Rightarrow> False) \<longleftrightarrow> \<not> fresh_enough since pl"
    by (auto simp: fresh_enough_def split: option.split)
  with p Cons.IH[of "Some (entry_id e)"] show ?case by (auto simp: Let_def)
qed simp

text \<open>
  The service holds still while the walk runs: every request from the head or behind a post of the
  listing is answered with the 100 posts that
  follow the cursor in one newest-first listing, in a reply that reads as an Atom feed.
\<close>

definition after_id :: "string option \<Rightarrow> entry list \<Rightarrow> entry list" where
  "after_id after es =
     (case after of None \<Rightarrow> es | Some a \<Rightarrow> drop 1 (dropWhile (\<lambda>e. entry_id e \<noteq> a) es))"

definition serves :: "reddit_world \<Rightarrow> string \<Rightarrow> entry list \<Rightarrow> bool" where
  "serves R u listing \<longleftrightarrow>
     (\<forall>n after. after = None \<or> after \<in> Some ` entry_id ` set listing \<longrightarrow> (\<exists>r body. reddit_get R n u (page_params after) = Inr r \<and> is_success r
        \<and> read_response_capped FETCH_DEFAULT_MAX_BYTES None r = Inr body
        \<and> feed_parse (rd_text R) body = \<lparr>pf_version = ''atom10'', pf_entries = take PAGE_SIZE (after_id after listing)\<rparr>))"

lemma serves_page:
  assumes "serves R u listing" "after = None \<or> after \<in> Some ` entry_id ` set listing"
  obtains body st' where "get_page R u (page_params after) 0 st = (Inr body, st')"
    "feed_parse (rd_text R) body = \<lparr>pf_version = ''atom10'', pf_entries = take PAGE_SIZE (after_id after listing)\<rparr>"
proof -
  obtain r body where r: "reddit_get R (ws_requests st) u (page_params after) = Inr r" "is_success r"
    "read_response_capped FETCH_DEFAULT_MAX_BYTES None r = Inr body"
    "feed_parse (rd_text R) body = \<lparr>pf_version = ''atom10'', pf_entries = take PAGE_SIZE (after_id after listing)\<rparr>"
    using assms unfolding serves_def by blast
  then have "rp_status r \<noteq> 429" by (simp add: is_success_def)
  with r have "get_page R u (page_params after) 0 st = (Inr body, st\<lparr>ws_requests := Suc (ws_requests st)\<rparr>)"
    by (simp add: get_page.simps[of R u "page_params after" 0 st] Let_def)
  with r(4) that show ?thesis by blast
qed

lemma after_last:
  assumes "distinct (map entry_id (pre @ es))" "pre \<noteq> []"
  shows "after_id (Some (entry_id (last pre))) (pre @ es) = es"
proof -
  obtain ys y where pre: "pre = ys @ [y]" using assms(2) by (cases pre rule: rev_cases) auto
  then have "entry_id y \<notin> entry_id ` set ys" using assms(1) by simp
  then have "\<forall>e \<in> set ys. entry_id e \<noteq> entry_id y" by (metis imageI)
  then have "dropWhile (\<lambda>e. entry_id e \<noteq> entry_id y) (ys @ y # es) = y # es"
    by (simp add: dropWhile_append2)
  with pre show ?thesis by (simp add: after_id_def)
qed

lemma takeWhile_append_all: "list_all P xs \<Longrightarrow> takeWhile P (xs @ ys) = xs @ takeWhile P ys"
  by (simp add: list_all_iff takeWhile_append2)

lemma takeWhile_append_stop: "\<not> list_all P xs \<Longrightarrow> takeWhile P (xs @ ys) = takeWhile P xs"
  by (auto simp: list_all_iff takeWhile_append1)

lemma walk_pages_listing:
  assumes srv: "serves R u (pre @ es)" and ids: "distinct (map entry_id (pre @ es))"
    and pls: "list_all2 (\<lambda>e pl. entry_payload (rd_text R) e = Some pl) es pls"
    and after: "after = (if pre = [] then None else Some (entry_id (last pre)))"
  shows "fst (walk_pages R u since n after st) = (takeWhile (fresh_enough since) (take (PAGE_SIZE * n) pls), None)"
  using srv ids pls after
proof (induction n arbitrary: pre es pls after st)
  case (Suc n)
  have rest: "after_id after (pre @ es) = es"
    using after_last[OF Suc.prems(2)] Suc.prems(4) by (cases "pre = []") (auto simp: after_id_def)
  have asked: "after = None \<or> after \<in> Some ` entry_id ` set (pre @ es)"
    using Suc.prems(4) by (cases "pre = []") auto
  obtain body st1 where page: "get_page R u (page_params after) 0 st = (Inr body, st1)"
    and parsed: "feed_parse (rd_text R) body = \<lparr>pf_version = ''atom10'', pf_entries = take PAGE_SIZE es\<rparr>"
    using serves_page[OF Suc.prems(1) asked, of st] rest by metis
  show ?case
  proof (cases "es = []")
    case True
    with Suc.prems(3) page parsed show ?thesis by simp
  next
    case False
    define chunk where "chunk = take PAGE_SIZE es"
    have chunk: "chunk \<noteq> []" using False by (simp add: chunk_def PAGE_SIZE_def)
    have ch: "list_all2 (\<lambda>e pl. entry_payload (rd_text R) e = Some pl) chunk (take PAGE_SIZE pls)"
      using Suc.prems(3) by (simp add: chunk_def list_all2_takeI)
    note entries = walk_entries_listing[OF ch, of since None]
    have split: "take (PAGE_SIZE * Suc n) pls = take PAGE_SIZE pls @ take (PAGE_SIZE * n) (drop PAGE_SIZE pls)"
      by (simp add: take_add)
    show ?thesis
    proof (cases "list_all (fresh_enough since) (take PAGE_SIZE pls)")
      case False
      then have "fst (walk_pages R u since (Suc n) after st) = (takeWhile (fresh_enough since) (take PAGE_SIZE pls), None)"
        using page parsed chunk entries by (simp add: chunk_def[symmetric])
      with False split show ?thesis by (simp add: takeWhile_append_stop)
    next
      case True
      have dec: "pre @ es = (pre @ chunk) @ drop PAGE_SIZE es" by (simp add: chunk_def)
      have "fst (walk_pages R u since n (Some (entry_id (last chunk))) st1) =
          (takeWhile (fresh_enough since) (take (PAGE_SIZE * n) (drop PAGE_SIZE pls)), None)"
      proof (rule Suc.IH)
        show "serves R u ((pre @ chunk) @ drop PAGE_SIZE es)" using Suc.prems(1) by (simp only: dec[symmetric])
        show "distinct (map entry_id ((pre @ chunk) @ drop PAGE_SIZE es))" using Suc.prems(2) by (simp only: dec[symmetric])
        show "list_all2 (\<lambda>e pl. entry_payload (rd_text R) e = Some pl) (drop PAGE_SIZE es) (drop PAGE_SIZE pls)"
          using Suc.prems(3) by (rule list_all2_dropI)
        show "Some (entry_id (last chunk)) = (if pre @ chunk = [] then None else Some (entry_id (last (pre @ chunk))))"
          using chunk by simp
      qed
      then have "fst (walk_pages R u since (Suc n) after st) =
          (take PAGE_SIZE pls @ takeWhile (fresh_enough since) (take (PAGE_SIZE * n) (drop PAGE_SIZE pls)), None)"
        using page parsed chunk entries True
        by (simp add: chunk_def[symmetric] Let_def split_beta) (metis takeWhile_eq_all_conv list_all_iff)
      with True split show ?thesis by (simp add: takeWhile_append_all)
    qed
  qed
qed simp

lemma takeWhile_sorted_filter:
  "sorted_wrt (\<lambda>a b. P b \<longrightarrow> P a) xs \<Longrightarrow> takeWhile P xs = filter P xs"
  by (induction xs) (auto simp: filter_empty_conv[symmetric])

text \<open>
  A walk over a still listing yields exactly its posts since the mark, newest first, within the
  listing depth of ten pages per sub; it does not end in an error.
\<close>

lemma walk_new_listing:
  assumes "serves R (listing_url subs) es" "distinct (map entry_id es)"
    and "list_all2 (\<lambda>e pl. entry_payload (rd_text R) e = Some pl) es pls"
    and "sorted_wrt (\<lambda>a b. instant_of (pl_occurred b) \<le> instant_of (pl_occurred a)) pls"
  shows "fst (walk_new R subs since) =
    (filter (fresh_enough since) (take (PAGE_SIZE * (MAX_PAGES * length subs)) pls), None)"
proof -
  let ?front = "take (PAGE_SIZE * (MAX_PAGES * length subs)) pls"
  have "sorted_wrt (\<lambda>a b. fresh_enough since b \<longrightarrow> fresh_enough since a) ?front"
    using sorted_wrt_take[OF assms(4)] by (rule sorted_wrt_mono_rel[rotated]) (auto simp: fresh_enough_def split: option.splits)
  moreover have "fst (walk_new R subs since) = (takeWhile (fresh_enough since) ?front, None)"
    unfolding walk_new_def
    by (rule walk_pages_listing[of R _ "[]" es pls None]) (use assms in simp_all)
  ultimately show ?thesis by (simp add: takeWhile_sorted_filter)
qed

end
