(* ===== verification/Rss_Connector.thy ===== *)
theory Rss_Connector
  imports Reddit_Connector Source_Specs "HOL-Library.Sublist"
begin

text \<open>
  The RSS and Atom connector (sources/connectors/rss): the fetch with its request hook and the opt-in
  retry without TLS verification, the recovery of a feed from the viewer page a browser wraps it in,
  the projection of a parsed entry under a field map, and the poll.

  \<open>rss_get\<close> is httpx: for a URL, the URLs it requests in turn over its redirects and how the transfer
  ends; \<open>Connect_Error\<close> tells whether a TLS error is the cause. A poll returns its stream with the
  log of the lookups of its checks, the requests it sent and the URLs it handed to the sidecar. \<open>utf8_replace\<close> re-encodes a body decoded
  with replacement; the text is worked on as its UTF-8 bytes, in which the ASCII markers stand where
  they stand in the text.
\<close>

datatype transfer = Connect_Error bool | Transfer_Error exn | Replied http_reply

record rss_fetch =
  rf_urls :: "string list"
  rf_end :: transfer

record rss_world =
  rss_get :: "bool \<Rightarrow> string \<Rightarrow> rss_fetch"
  rss_text :: text_env
  rss_web :: web
  SOURCE_ALLOW_INSECURE_TLS :: bool
  rss_block_private_ips :: bool
  utf8_replace :: "bytes \<Rightarrow> bytes"

subsection \<open>Fetching\<close>

text \<open>The hook runs before each request, redirects included.\<close>

fun send_requests :: "resolver \<Rightarrow> bool \<Rightarrow> string list \<Rightarrow> egress list \<Rightarrow> egress list \<times> (exn + unit)" where
  "send_requests g block [] sent = (sent, Inr ())"
| "send_requests g block (u # us) sent =
     (case validate_request_url g block u sent of
        (sent1, Inl e) \<Rightarrow> (sent1, Inl e)
      | (sent1, Inr _) \<Rightarrow> send_requests g block us (Requested u # sent1))"

text \<open>\<open>_stream\<close>; its error tells whether it is a connection error caused by TLS.\<close>

definition rss_stream :: "rss_world \<Rightarrow> bool \<Rightarrow> string \<Rightarrow> egress list \<Rightarrow> egress list \<times> ((exn \<times> bool) + bytes)" where
  "rss_stream R verify u sent =
     (let f = rss_get R verify u;
          (sent1, gate) = send_requests (getaddrinfo (rss_web R)) (rss_block_private_ips R) (rf_urls f) sent
      in (sent1,
          case gate of
            Inl e \<Rightarrow> Inl (e, False)
          | Inr _ \<Rightarrow>
              (case rf_end f of
                 Connect_Error ssl \<Rightarrow> Inl (HTTPError, ssl)
               | Transfer_Error e \<Rightarrow> Inl (e, False)
               | Replied r \<Rightarrow>
                   if \<not> is_success r then Inl (HTTPError, False)
                   else map_sum (\<lambda>e. (e, False)) id (read_response_capped FETCH_DEFAULT_MAX_BYTES None r))))"

definition fetch_with_ssl_fallback :: "rss_world \<Rightarrow> string \<Rightarrow> egress list \<Rightarrow> egress list \<times> (exn + bytes)" where
  "fetch_with_ssl_fallback R u sent =
     (case rss_stream R True u sent of
        (sent1, Inr body) \<Rightarrow> (sent1, Inr body)
      | (sent1, Inl (e, ssl)) \<Rightarrow>
          if ssl \<and> SOURCE_ALLOW_INSECURE_TLS R
          then (let (sent2, res) = rss_stream R False u sent1 in (sent2, map_sum fst id res))
          else (sent1, Inl e))"

subsection \<open>The viewer page\<close>

fun find_sub :: "string \<Rightarrow> string \<Rightarrow> nat option" where
  "find_sub p [] = (if p = [] then Some 0 else None)"
| "find_sub p (c # cs) = (if prefix p (c # cs) then Some 0 else map_option Suc (find_sub p cs))"

fun rfind_sub :: "string \<Rightarrow> string \<Rightarrow> nat option" where
  "rfind_sub p [] = (if p = [] then Some 0 else None)"
| "rfind_sub p (c # cs) =
     (case rfind_sub p cs of Some i \<Rightarrow> Some (Suc i) | None \<Rightarrow> if prefix p (c # cs) then Some 0 else None)"

definition XML_VIEWER_MARKER :: string where
  "XML_VIEWER_MARKER = ''webkit-xml-viewer-source-xml''"

definition FEED_ROOTS :: "string list" where
  "FEED_ROOTS = [''<?xml'', ''<rss'', ''<feed'']"

definition FEED_CLOSES :: "string list" where
  "FEED_CLOSES = [''</rss>'', ''</feed>'']"

definition unwrap_xml_viewer :: "(bytes \<Rightarrow> bytes) \<Rightarrow> bytes \<Rightarrow> bytes" where
  "unwrap_xml_viewer reencode body =
     (let t = reencode body
      in if find_sub XML_VIEWER_MARKER t = None then body
         else let starts = List.map_filter (\<lambda>m. find_sub m t) FEED_ROOTS;
                  ends = List.map_filter (\<lambda>tag. map_option (\<lambda>i. i + length tag) (rfind_sub tag t)) FEED_CLOSES
           in if starts = [] \<or> ends = [] then body
              else let a = Min (set starts); b = Max (set ends)
                in if b \<le> a then body else drop a (take b t))"

subsection \<open>The payload of an entry\<close>

text \<open>\<open>str(value)\<close>.\<close>

fun ev_str :: "text_env \<Rightarrow> entry_value \<Rightarrow> string" where
  "ev_str X (EV_Str s) = s"
| "ev_str X (EV_Other s b) = s"
| "ev_str X v = ev_repr X v"

definition resolve_str :: "text_env \<Rightarrow> entry \<Rightarrow> string \<Rightarrow> string" where
  "resolve_str X e k = (case map_of e k of Some v \<Rightarrow> if ev_truthy v then strip (ev_str X v) else [] | None \<Rightarrow> [])"

text \<open>\<open>v.get("value", "") if isinstance(v, dict) else v\<close>.\<close>

definition value_of :: "entry_value \<Rightarrow> entry_value" where
  "value_of v =
     (case v of EV_Dict kvs \<Rightarrow> (case map_of kvs ''value'' of Some x \<Rightarrow> x | None \<Rightarrow> EV_Str []) | _ \<Rightarrow> v)"

text \<open>\<open>content[0]\<close> of a truthy value; the first field of a \<open>struct_time\<close> is its year.\<close>

definition first_item :: "entry_value \<Rightarrow> exn + entry_value" where
  "first_item v =
     (case v of
        EV_List (x # _) \<Rightarrow> Inr x
      | EV_Str (c # _) \<Rightarrow> Inr (EV_Str [c])
      | EV_Time t \<Rightarrow> Inr (EV_Other (dec (nat (tm_year t))) (tm_year t \<noteq> 0))
      | EV_Dict _ \<Rightarrow> Inl KeyError
      | _ \<Rightarrow> Inl TypeError)"

definition raw_content :: "entry \<Rightarrow> string option \<Rightarrow> exn + entry_value" where
  "raw_content e override =
     (case override of
        Some (c # cs) \<Rightarrow> Inr (case map_of e (c # cs) of Some v \<Rightarrow> v | None \<Rightarrow> EV_Str [])
      | _ \<Rightarrow>
          (case map_of e ''content'' of
             Some v \<Rightarrow>
               if ev_truthy v then map_sum id value_of (first_item v)
               else Inr (case map_of e ''summary'' of Some s \<Rightarrow> s | None \<Rightarrow> EV_Str [])
           | None \<Rightarrow> Inr (case map_of e ''summary'' of Some s \<Rightarrow> s | None \<Rightarrow> EV_Str [])))"

definition resolve_content :: "text_env \<Rightarrow> entry \<Rightarrow> string option \<Rightarrow> exn + string" where
  "resolve_content X e override =
     (case raw_content e override of
        Inl err \<Rightarrow> Inl err
      | Inr raw0 \<Rightarrow>
          (let raw = (case raw0 of EV_List (x # _) \<Rightarrow> value_of x | _ \<Rightarrow> raw0)
           in Inr (html_to_text X (if ev_truthy raw then ev_str X raw else []))))"

definition coerce_published :: "text_env \<Rightarrow> entry_value option \<Rightarrow> exn + dt option" where
  "coerce_published X v =
     (case v of
        Some (EV_Time t) \<Rightarrow> map_sum id Some (utc_datetime t)
      | Some (EV_Str (c # cs)) \<Rightarrow>
          Inr (map_option (\<lambda>d. if dt_offset d = None then d\<lparr>dt_offset := Some 0\<rparr> else d)
                (case rfc_date X (c # cs) of Some d \<Rightarrow> Some d | None \<Rightarrow> iso_date X (c # cs)))
      | _ \<Rightarrow> Inr None)"

fun first_published :: "text_env \<Rightarrow> entry \<Rightarrow> string list \<Rightarrow> exn + dt option" where
  "first_published X e [] = Inr None"
| "first_published X e (k # ks) =
     (case coerce_published X (map_of e k) of
        Inl err \<Rightarrow> Inl err
      | Inr (Some d) \<Rightarrow> Inr (Some d)
      | Inr None \<Rightarrow> first_published X e ks)"

definition published_chain :: "string option \<Rightarrow> string list" where
  "published_chain override =
     (case override of Some (c # cs) \<Rightarrow> [c # cs] | _ \<Rightarrow> [])
     @ filter (\<lambda>k. Some k \<noteq> override) [''published_parsed'', ''updated_parsed'']"

definition resolve_published :: "text_env \<Rightarrow> entry \<Rightarrow> string option \<Rightarrow> exn + dt option" where
  "resolve_published X e override = first_published X e (published_chain override)"

text \<open>The terms of the tags; a term that is no string has no \<open>strip\<close>.\<close>

fun tag_terms :: "entry_value list \<Rightarrow> exn + string list" where
  "tag_terms [] = Inr []"
| "tag_terms (EV_Dict kvs # ts) =
     (case get_str kvs ''term'' of
        Inl e \<Rightarrow> Inl e
      | Inr s \<Rightarrow> map_sum id (\<lambda>r. if strip s \<noteq> [] then strip s # r else r) (tag_terms ts))"
| "tag_terms (t # ts) = tag_terms ts"

definition categories_of :: "entry \<Rightarrow> exn + string list" where
  "categories_of e =
     (case map_of e ''tags'' of
        None \<Rightarrow> Inr []
      | Some (EV_List ts) \<Rightarrow> tag_terms ts
      | Some (EV_Other _ _) \<Rightarrow> Inl TypeError
      | Some _ \<Rightarrow> Inr [])"

definition mapped_key :: "(string \<times> string) list \<Rightarrow> string \<Rightarrow> string \<Rightarrow> string" where
  "mapped_key field_map name canonical =
     (case map_of field_map name of Some (c # cs) \<Rightarrow> c # cs | _ \<Rightarrow> canonical)"

text \<open>\<open>from_feedparser_entry\<close>: the payload, or the field that is missing.\<close>

definition from_feedparser_entry :: "text_env \<Rightarrow> string \<Rightarrow> (string \<times> string) list \<Rightarrow> entry
    \<Rightarrow> exn + (source_payload + string)" where
  "from_feedparser_entry X feed_url field_map e =
     (case resolve_published X e (map_of field_map ''published'') of
        Inl err \<Rightarrow> Inl err
      | Inr None \<Rightarrow> Inr (Inr ''published'')
      | Inr (Some published) \<Rightarrow>
          (let external_id = resolve_str X e (mapped_key field_map ''external_id'' ''id'')
           in if external_id = [] then Inr (Inr ''external_id'')
              else (case categories_of e of
                      Inl err \<Rightarrow> Inl err
                    | Inr categories \<Rightarrow>
                        (case resolve_content X e (map_of field_map ''content'') of
                           Inl err \<Rightarrow> Inl err
                         | Inr content \<Rightarrow>
                             Inr (Inl \<lparr>pl_source = ''rss'', pl_external_id = external_id, pl_occurred = published,
                               pl_subreddit = [],
                               pl_dump = [(''external_id'', JStr external_id), (''kind'', JStr ''rss_entry''),
                                 (''occurred_at'', JStr (iso_text X published)), (''source'', JStr ''rss''),
                                 (''title'', JStr (resolve_str X e (mapped_key field_map ''title'' ''title''))),
                                 (''content'', JStr content),
                                 (''url'', JStr (resolve_str X e (mapped_key field_map ''url'' ''link''))),
                                 (''external_url'', JStr []), (''parent_external_id'', JStr []),
                                 (''author'', JStr (resolve_str X e (mapped_key field_map ''author'' ''author''))),
                                 (''feed_url'', JStr feed_url), (''categories'', JArr (map JStr categories))]\<rparr>)))))"

subsection \<open>The poll\<close>

definition older_than :: "instant option \<Rightarrow> source_payload \<Rightarrow> bool" where
  "older_than since pl = (case since of Some s \<Rightarrow> instant_of (pl_occurred pl) < s | None \<Rightarrow> False)"

fun rss_entries :: "text_env \<Rightarrow> string \<Rightarrow> (string \<times> string) list \<Rightarrow> instant option \<Rightarrow> entry list \<Rightarrow> payload_stream" where
  "rss_entries X u field_map since [] = ([], None)"
| "rss_entries X u field_map since (e # es) =
     (case from_feedparser_entry X u field_map e of
        Inl err \<Rightarrow> ([], Some err)
      | Inr (Inr missing) \<Rightarrow> rss_entries X u field_map since es
      | Inr (Inl pl) \<Rightarrow>
          if older_than since pl then rss_entries X u field_map since es
          else (let (pls, err) = rss_entries X u field_map since es in (pl # pls, err)))"

definition no_feed :: "parsed_feed \<Rightarrow> bool" where
  "no_feed p \<longleftrightarrow> pf_entries p = [] \<and> pf_version p = []"

definition rss_recover :: "rss_world \<Rightarrow> string \<Rightarrow> egress list \<Rightarrow> egress list \<times> (exn + parsed_feed)" where
  "rss_recover R u sent =
     (let (sent1, res) = challenge_bypass_fetch (rss_web R) FETCH_DEFAULT_MAX_BYTES u sent
      in (sent1,
          case res of
            Inl e \<Rightarrow> Inl e
          | Inr None \<Rightarrow> Inl ConnectorParseError
          | Inr (Some body) \<Rightarrow>
              (let parsed = feed_parse (rss_text R) (unwrap_xml_viewer (utf8_replace R) body)
               in if no_feed parsed then Inl ConnectorParseError else Inr parsed)))"

definition rss_poll :: "rss_world \<Rightarrow> string \<Rightarrow> instant option \<Rightarrow> (string \<times> string) list \<Rightarrow> egress list \<times> payload_stream" where
  "rss_poll R u since field_map =
     (case fetch_with_ssl_fallback R u [] of
        (sent, Inl e) \<Rightarrow> (sent, ([], Some e))
      | (sent, Inr body) \<Rightarrow>
          (let parsed = feed_parse (rss_text R) body
           in if no_feed parsed
              then (case rss_recover R u sent of
                      (sent1, Inl e) \<Rightarrow> (sent1, ([], Some e))
                    | (sent1, Inr parsed2) \<Rightarrow> (sent1, rss_entries (rss_text R) u field_map since (pf_entries parsed2)))
              else (sent, rss_entries (rss_text R) u field_map since (pf_entries parsed))))"

subsection \<open>Egress\<close>

text \<open>
  With the setting on, every request of a poll, redirects included, follows a check of its URL; the
  sidecar is handed nothing but the URL of the source.
\<close>

fun gated :: "bool \<Rightarrow> string \<Rightarrow> egress list \<Rightarrow> bool" where
  "gated block u [] \<longleftrightarrow> True"
| "gated block u (Looked_Up h p a # sent) \<longleftrightarrow> gated block u sent"
| "gated block u (Connected t # sent) \<longleftrightarrow> False"
| "gated block u (Requested v # sent) \<longleftrightarrow> (block \<longrightarrow> destination_clear v sent) \<and> gated block u sent"
| "gated block u (Sidecar_Asked v # sent) \<longleftrightarrow> v = u \<and> gated block u sent"

lemma send_requests_gated: "gated block u sent \<Longrightarrow> gated block u (fst (send_requests g block us sent))"
proof (induction g block us sent rule: send_requests.induct)
  case (2 g block v us sent)
  obtain sent1 res where d: "destination_block_reason g False block True v sent = (sent1, res)" by fastforce
  have ok: "gated block u sent1" using destination_log[of g False block True v sent] d 2(2) by auto
  have "block \<longrightarrow> destination_clear v sent1" if "res = Inr None" using destination_clears d that by auto
  with ok d show ?case using 2(1)
    by (auto simp: validate_request_url_def split: sum.splits option.splits prod.splits)
qed simp

lemma rss_stream_gated:
  "gated (rss_block_private_ips R) u sent \<Longrightarrow> gated (rss_block_private_ips R) u (fst (rss_stream R verify v sent))"
  by (simp add: rss_stream_def Let_def split_beta send_requests_gated)

lemma fetch_gated:
  assumes "gated (rss_block_private_ips R) u sent"
  shows "gated (rss_block_private_ips R) u (fst (fetch_with_ssl_fallback R v sent))"
  using rss_stream_gated[OF assms, of True v] rss_stream_gated[of R u "fst (rss_stream R True v sent)" False v]
  by (auto simp: fetch_with_ssl_fallback_def split: prod.splits sum.splits if_splits)

lemma rss_poll_requests: "gated (rss_block_private_ips R) u (fst (rss_poll R u since fm))"
proof -
  obtain sent res where f: "fetch_with_ssl_fallback R u [] = (sent, res)" by fastforce
  have ok: "gated (rss_block_private_ips R) u sent" using fetch_gated[of R u "[]" u] f by simp
  have "gated (rss_block_private_ips R) u (fst (rss_recover R u sent))"
    using ok challenge_bypass_asks[of "rss_web R" FETCH_DEFAULT_MAX_BYTES u sent]
    by (auto simp: rss_recover_def Let_def split_beta)
  with ok f show ?thesis by (auto simp: rss_poll_def Let_def split: sum.splits prod.splits if_splits)
qed

text \<open>Without the setting, what an unverified connection would answer does not matter.\<close>

lemma insecure_is_opt_in:
  "\<not> SOURCE_ALLOW_INSECURE_TLS R \<Longrightarrow>
     fetch_with_ssl_fallback (R\<lparr>rss_get := (\<lambda>verify. if verify then rss_get R True else evil)\<rparr>) u sent
       = fetch_with_ssl_fallback R u sent"
proof -
  assume off: "\<not> SOURCE_ALLOW_INSECURE_TLS R"
  let ?R = "R\<lparr>rss_get := (\<lambda>verify. if verify then rss_get R True else evil)\<rparr>"
  have "rss_stream ?R True u sent = rss_stream R True u sent" by (simp add: rss_stream_def)
  with off show ?thesis by (simp add: fetch_with_ssl_fallback_def split: sum.split prod.split)
qed

subsection \<open>The viewer page gives back its feed\<close>

lemma find_sub_Some:
  "find_sub p s = Some i \<longleftrightarrow> i \<le> length s \<and> prefix p (drop i s) \<and> (\<forall>j<i. \<not> prefix p (drop j s))"
proof (induction s arbitrary: i)
  case (Cons c cs)
  then show ?case
  proof (cases i)
    case (Suc k)
    have "(\<forall>j<Suc k. \<not> prefix p (drop j (c # cs))) \<longleftrightarrow> \<not> prefix p (c # cs) \<and> (\<forall>j<k. \<not> prefix p (drop j cs))"
      by (auto simp: less_Suc_eq_0_disj)
    with Suc Cons show ?thesis by auto
  qed auto
qed auto

lemma find_sub_None: "find_sub p s = None \<longleftrightarrow> (\<forall>i\<le>length s. \<not> prefix p (drop i s))"
proof (induction s)
  case (Cons c cs)
  have "(\<forall>i\<le>length (c # cs). \<not> prefix p (drop i (c # cs))) \<longleftrightarrow>
      \<not> prefix p (c # cs) \<and> (\<forall>i\<le>length cs. \<not> prefix p (drop i cs))"
    (is "?l \<longleftrightarrow> ?r")
  proof
    assume l: ?l
    from spec[OF l, of 0] have "\<not> prefix p (c # cs)" by simp
    moreover have "\<not> prefix p (drop i cs)" if "i \<le> length cs" for i using spec[OF l, of "Suc i"] that by simp
    ultimately show ?r by blast
  next
    assume r: ?r
    show ?l
    proof (intro allI impI)
      fix i assume "i \<le> length (c # cs)"
      with r show "\<not> prefix p (drop i (c # cs))" by (cases i) simp_all
    qed
  qed
  with Cons show ?case by simp
qed auto

lemma rfind_sub_None: "rfind_sub p s = None \<longleftrightarrow> find_sub p s = None"
  by (induction s) (auto split: option.split)

lemma rfind_sub_Some:
  "rfind_sub p s = Some i \<Longrightarrow> i \<le> length s \<and> prefix p (drop i s) \<and> (\<forall>j\<le>length s. prefix p (drop j s) \<longrightarrow> j \<le> i)"
proof (induction s arbitrary: i)
  case (Cons c cs)
  show ?case
  proof (cases "rfind_sub p cs")
    case None
    then have none: "\<forall>k\<le>length cs. \<not> prefix p (drop k cs)" by (simp add: rfind_sub_None find_sub_None)
    with Cons.prems None have "i = 0" "prefix p (c # cs)" by (auto split: if_splits)
    moreover have "j = 0" if "j \<le> length (c # cs)" "prefix p (drop j (c # cs))" for j
      using that none by (cases j) auto
    ultimately show ?thesis by auto
  next
    case (Some k)
    with Cons.prems have i: "i = Suc k" by simp
    note ih = Cons.IH[OF Some]
    have "j \<le> Suc k" if "j \<le> length (c # cs)" "prefix p (drop j (c # cs))" for j
      using that ih by (cases j) auto
    with ih i show ?thesis by simp
  qed
qed (auto split: if_splits)

text \<open>
  A feed document inside a viewer page is recovered byte for byte, when the page has no root marker
  before it and no closing tag of a feed ends behind it.
\<close>

lemma unwrap_recovers_feed:
  fixes pre feed_doc post :: string
  defines "page \<equiv> pre @ feed_doc @ post"
  assumes utf8: "reencode page = page"
    and wrapper: "find_sub XML_VIEWER_MARKER page \<noteq> None"
    and root: "m0 \<in> set FEED_ROOTS" "prefix m0 feed_doc"
    and before: "\<And>m i. m \<in> set FEED_ROOTS \<Longrightarrow> i < length pre \<Longrightarrow> \<not> prefix m (drop i page)"
    and close: "t0 \<in> set FEED_CLOSES" "suffix t0 feed_doc"
    and behind: "\<And>t i. t \<in> set FEED_CLOSES \<Longrightarrow> prefix t (drop i page) \<Longrightarrow> i + length t \<le> length pre + length feed_doc"
  shows "unwrap_xml_viewer reencode page = feed_doc"
proof -
  let ?starts = "List.map_filter (\<lambda>m. find_sub m page) FEED_ROOTS"
  let ?ends = "List.map_filter (\<lambda>tag. map_option (\<lambda>i. i + length tag) (rfind_sub tag page)) FEED_CLOSES"
  have at: "prefix m0 (drop (length pre) page)" using root(2) by (simp add: page_def prefix_prefix)
  have starts: "set ?starts = {i. \<exists>m \<in> set FEED_ROOTS. find_sub m page = Some i}"
    by (auto simp: map_filter_def) (metis (mono_tags, lifting) imageI mem_Collect_eq option.sel option.simps(3))+
  have ends: "set ?ends = {i + length t | i t. t \<in> set FEED_CLOSES \<and> rfind_sub t page = Some i}"
  proof (intro equalityI subsetI)
    fix x assume "x \<in> {i + length t | i t. t \<in> set FEED_CLOSES \<and> rfind_sub t page = Some i}"
    then obtain i t where "t \<in> set FEED_CLOSES" "rfind_sub t page = Some i" "x = i + length t" by blast
    then show "x \<in> set ?ends" by (auto simp: map_filter_def intro!: image_eqI[where x = t])
  qed (auto simp: map_filter_def; blast)
  have "find_sub m0 page \<noteq> None" using at unfolding find_sub_None page_def by (metis le_add1 length_append)
  then obtain i where i: "find_sub m0 page = Some i" by blast
  then have "i = length pre"
    using at before[OF root(1), of i] by (metis find_sub_Some linorder_neqE_nat)
  with i root(1) have mem: "length pre \<in> set ?starts" unfolding starts by blast
  have "length pre \<le> j" if "j \<in> set ?starts" for j
  proof -
    from that obtain m where m: "m \<in> set FEED_ROOTS" "find_sub m page = Some j" unfolding starts by blast
    then have "prefix m (drop j page)" by (simp add: find_sub_Some)
    with before[OF m(1), of j] show ?thesis by force
  qed
  with mem have a: "Min (set ?starts) = length pre" by (intro Min_eqI) auto
  obtain body where body: "feed_doc = body @ t0" using close(2) by (auto elim: suffixE)
  let ?k = "length pre + length body"
  have k: "prefix t0 (drop ?k page)" "?k \<le> length page" by (simp_all add: page_def body)
  then have "rfind_sub t0 page \<noteq> None" by (auto simp: rfind_sub_None find_sub_None)
  then obtain j where j: "rfind_sub t0 page = Some j" by blast
  with rfind_sub_Some[OF j] k have "?k \<le> j" by blast
  moreover have "j + length t0 \<le> length pre + length feed_doc"
    using rfind_sub_Some[OF j] behind[OF close(1)] by blast
  ultimately have "j + length t0 = length pre + length feed_doc" by (simp add: body)
  with j close(1) have memb: "length pre + length feed_doc \<in> set ?ends" unfolding ends by (metis (mono_tags, lifting) mem_Collect_eq)
  have "x \<le> length pre + length feed_doc" if "x \<in> set ?ends" for x
  proof -
    from that obtain i t where "x = i + length t" "t \<in> set FEED_CLOSES" "rfind_sub t page = Some i"
      unfolding ends by blast
    with behind[of t i] rfind_sub_Some[of t page i] show ?thesis by simp
  qed
  with memb have b: "Max (set ?ends) = length pre + length feed_doc" by (intro Max_eqI) auto
  have ne: "?starts \<noteq> []" "?ends \<noteq> []" using mem memb by auto
  have "0 < length feed_doc" using root by (auto simp: FEED_ROOTS_def)
  with ne a b utf8 wrapper show ?thesis by (auto simp: unwrap_xml_viewer_def Let_def page_def)
qed

subsection \<open>What the poll yields\<close>

lemma coerce_published_aware: "coerce_published X v = Inr (Some d) \<Longrightarrow> dt_offset d \<noteq> None"
proof -
  assume c: "coerce_published X v = Inr (Some d)"
  have fixed: "dt_offset (if dt_offset d = None then d\<lparr>dt_offset := Some 0\<rparr> else d) \<noteq> None" for d by simp
  show ?thesis
  proof (cases v)
    case (Some w)
    with c fixed show ?thesis
      by (cases w) (auto simp: coerce_published_def map_sum_def utc_datetime_aware split: list.splits sum.splits
          simp del: not_None_eq)
  qed (use c in \<open>simp add: coerce_published_def\<close>)
qed

lemma first_published_aware: "first_published X e ks = Inr (Some d) \<Longrightarrow> dt_offset d \<noteq> None"
  by (induction X e ks rule: first_published.induct) (auto split: sum.splits option.splits dest: coerce_published_aware)

lemma from_entry_payload:
  assumes "from_feedparser_entry X u fm e = Inr (Inl pl)"
  shows "pl_external_id pl \<noteq> []" "dt_offset (pl_occurred pl) \<noteq> None" "pl_source pl = ''rss''"
  using assms by (auto simp: from_feedparser_entry_def resolve_published_def Let_def
      split: sum.splits option.splits if_splits dest: first_published_aware)

text \<open>The yields are those of the entries that project, none older than the mark, in their order.\<close>

lemma rss_entries_filter:
  assumes "\<forall>e \<in> set es. \<exists>r. from_feedparser_entry X u fm e = Inr r"
  shows "rss_entries X u fm since es =
    (filter (\<lambda>pl. \<not> older_than since pl)
       (List.map_filter (\<lambda>e. case from_feedparser_entry X u fm e of Inr (Inl pl) \<Rightarrow> Some pl | _ \<Rightarrow> None) es), None)"
  using assms
  by (induction X u fm since es rule: rss_entries.induct) (auto simp: map_filter_simps split: sum.splits)

lemma rss_entries_yields:
  "rss_entries X u fm since es = (pls, err) \<Longrightarrow> pl \<in> set pls \<Longrightarrow>
     \<not> older_than since pl \<and> pl_external_id pl \<noteq> [] \<and> dt_offset (pl_occurred pl) \<noteq> None"
proof (induction es arbitrary: pls)
  case (Cons e es)
  then show ?case
    by (auto split: sum.splits if_splits prod.splits dest: from_entry_payload)
qed simp

end
