(* ===== verification/Hackernews_Connector.thy ===== *)
theory Hackernews_Connector
  imports Reddit_Connector Source_Specs
begin

text \<open>
  The Hacker News connectors (sources/connectors/hackernews): the parameters of an Algolia search,
  the payload of a hit, and the keyset walk that anchors each page on the oldest second seen so far.
  \<open>algolia_get\<close> is the service: the answer to the \<open>n\<close>-th request of a walk. \<open>json_loads\<close>, \<open>py_str\<close>,
  \<open>html_nodes\<close> (the text nodes HTMLParser finds) and \<open>lax_int\<close> (what pydantic makes of an \<open>int\<close>
  field) are the libraries.
\<close>

record algolia =
  page_size :: nat
  max_pages :: nat
  max_body_bytes :: nat

record hn_world =
  algolia_get :: "nat \<Rightarrow> (string \<times> string) list \<Rightarrow> exn + http_reply"
  hn_json_loads :: "bytes \<Rightarrow> exn + json"
  hn_str :: "json \<Rightarrow> string"
  html_nodes :: "string \<Rightarrow> string list"
  lax_int :: "json \<Rightarrow> int option"
  hn_text :: text_env

definition ALGOLIA :: algolia where
  "ALGOLIA = \<lparr>page_size = 100, max_pages = 50, max_body_bytes = 5 * 1024 * 1024\<rparr>"

subsection \<open>The payload of a hit\<close>

fun joined :: "string \<Rightarrow> string list \<Rightarrow> string" where
  "joined sep [] = []"
| "joined sep [s] = s"
| "joined sep (s # t # ss) = s @ sep @ joined sep (t # ss)"

text \<open>\<open>hit.get(key) or default\<close>.\<close>

definition get_or :: "blob \<Rightarrow> string \<Rightarrow> json \<Rightarrow> json" where
  "get_or hit k dflt = (case map_of hit k of Some v \<Rightarrow> if json_truthy v then v else dflt | None \<Rightarrow> dflt)"

text \<open>\<open>_html_to_text\<close>; the parser is fed strings only.\<close>

definition hn_html_to_text :: "hn_world \<Rightarrow> json \<Rightarrow> exn + string" where
  "hn_html_to_text H v =
     (case v of
        JStr s \<Rightarrow> Inr (if s = [] then [] else strip (sub_spaces (joined '' '' (html_nodes H s))))
      | _ \<Rightarrow> if json_truthy v then Inl TypeError else Inr [])"

fun as_str :: "json \<Rightarrow> exn + string" where
  "as_str (JStr s) = Inr s"
| "as_str _ = Inl ValidationError"

definition as_int :: "hn_world \<Rightarrow> json \<Rightarrow> exn + int" where
  "as_int H v = (case lax_int H v of Some n \<Rightarrow> Inr n | None \<Rightarrow> Inl ValidationError)"

definition item_id_of :: "hn_world \<Rightarrow> blob \<Rightarrow> string" where
  "item_id_of H hit = hn_str H (case map_of hit ''objectID'' of Some v \<Rightarrow> v | None \<Rightarrow> JStr [])"

definition hn_payload :: "hn_world \<Rightarrow> string \<Rightarrow> string \<Rightarrow> string \<Rightarrow> dt \<Rightarrow> string \<Rightarrow> string \<Rightarrow> string \<Rightarrow> string
    \<Rightarrow> string \<Rightarrow> string \<Rightarrow> blob \<Rightarrow> source_payload" where
  "hn_payload H kind source item_id when title content external parent author feed_name extra =
     \<lparr>pl_source = source, pl_external_id = item_id, pl_occurred = when, pl_subreddit = [],
      pl_dump = [(''external_id'', JStr item_id), (''kind'', JStr kind), (''occurred_at'', JStr (iso_text (hn_text H) when)),
        (''source'', JStr source), (''title'', JStr title), (''content'', JStr content),
        (''url'', JStr (''https://news.ycombinator.com/item?id='' @ item_id)), (''external_url'', JStr external),
        (''parent_external_id'', JStr parent), (''author'', JStr author), (''feed'', JStr feed_name)] @ extra\<rparr>"

definition feed_from_algolia_hit :: "hn_world \<Rightarrow> hn_feed \<Rightarrow> blob \<Rightarrow> dt \<Rightarrow> exn + source_payload" where
  "feed_from_algolia_hit H fd hit when =
     (case hn_html_to_text H (get_or hit ''story_text'' (JStr [])) of
        Inl e \<Rightarrow> Inl e
      | Inr content \<Rightarrow>
          (case (as_str (get_or hit ''title'' (JStr [])), as_str (get_or hit ''url'' (JStr [])),
                 as_str (get_or hit ''author'' (JStr [])), as_int H (get_or hit ''points'' (JNum 0)),
                 as_int H (get_or hit ''num_comments'' (JNum 0))) of
             (Inr title, Inr external, Inr author, Inr points, Inr comments) \<Rightarrow>
               Inr (hn_payload H ''hn_feed'' ''hn_feed'' (item_id_of H hit) when title content external [] author
                      (hn_feed_value fd) [(''points'', JNum points), (''num_comments'', JNum comments)])
           | _ \<Rightarrow> Inl ValidationError))"

definition comment_from_algolia_hit :: "hn_world \<Rightarrow> blob \<Rightarrow> dt \<Rightarrow> exn + source_payload" where
  "comment_from_algolia_hit H hit when =
     (case hn_html_to_text H (get_or hit ''comment_text'' (JStr [])) of
        Inl e \<Rightarrow> Inl e
      | Inr content \<Rightarrow>
          (case (as_str (get_or hit ''story_title'' (JStr [])), as_str (get_or hit ''author'' (JStr []))) of
             (Inr story_title, Inr author) \<Rightarrow>
               (let parent = (case map_of hit ''story_id'' of None \<Rightarrow> [] | Some JNull \<Rightarrow> [] | Some v \<Rightarrow> hn_str H v)
                in Inr (hn_payload H ''hn_comment'' ''hn_comment'' (item_id_of H hit) when story_title content [] parent
                          author ''comments'' [(''story_title'', JStr story_title)]))
           | _ \<Rightarrow> Inl ValidationError))"

subsection \<open>The search\<close>

record search =
  sq_tag :: string
  sq_query :: string
  sq_match :: hn_match
  sq_restrict :: "string list"
  sq_build :: "blob \<Rightarrow> dt \<Rightarrow> exn + source_payload"

definition FEED_TAGS :: "hn_feed \<Rightarrow> string" where
  "FEED_TAGS f = (case f of Hn_New \<Rightarrow> ''story'' | Hn_Show \<Rightarrow> ''show_hn'' | Hn_Ask \<Rightarrow> ''ask_hn'')"

text \<open>\<open>int\<close> of a real drops its fraction.\<close>

definition py_int :: "rat \<Rightarrow> int" where
  "py_int q = (if q < 0 then \<lceil>q\<rceil> else \<lfloor>q\<rfloor>)"

definition since_second :: "instant \<Rightarrow> int" where
  "since_second t = py_int (of_int t / 1000000)"

definition numeric_filters :: "instant option \<Rightarrow> int option \<Rightarrow> string list" where
  "numeric_filters since before =
     (case since of Some t \<Rightarrow> [''created_at_i>='' @ dec_int (since_second t)] | None \<Rightarrow> [])
     @ (case before of Some b \<Rightarrow> [''created_at_i<='' @ dec_int b] | None \<Rightarrow> [])"

definition algolia_params :: "algolia \<Rightarrow> search \<Rightarrow> instant option \<Rightarrow> int option \<Rightarrow> (string \<times> string) list" where
  "algolia_params A q since before =
     (let numeric = numeric_filters since before; query = strip (sq_query q)
      in [(''tags'', sq_tag q), (''hitsPerPage'', dec (page_size A))]
         @ (if numeric = [] then [] else [(''numericFilters'', joined '','' numeric)])
         @ (if query = [] then []
            else [(''query'', query), (''advancedSyntax'', ''true'')]
              @ (if sq_restrict q = [] then [] else [(''restrictSearchableAttributes'', joined '','' (sq_restrict q))])
              @ (if sq_match q = Match_Any then [(''optionalWords'', query)] else [])))"

definition hits_page :: "algolia \<Rightarrow> hn_world \<Rightarrow> nat \<Rightarrow> (string \<times> string) list \<Rightarrow> exn + json list" where
  "hits_page A H n params =
     (case algolia_get H n params of
        Inl e \<Rightarrow> Inl e
      | Inr r \<Rightarrow>
          if \<not> is_success r then Inl HTTPError
          else (case read_response_capped (max_body_bytes A) None r of
                  Inl e \<Rightarrow> Inl e
                | Inr body \<Rightarrow>
                    (case hn_json_loads H body of
                       Inl e \<Rightarrow> Inl (if e = JSONDecodeError then ConnectorParseError else e)
                     | Inr (JObj kvs) \<Rightarrow>
                         (case map_of kvs ''hits'' of Some (JArr hits) \<Rightarrow> Inr hits | _ \<Rightarrow> Inl ConnectorParseError)
                     | Inr _ \<Rightarrow> Inl ConnectorParseError)))"

text \<open>An \<open>int | float\<close>, a boolean among them, as a second and a datetime of the years 1 to 9999.\<close>

fun number_of :: "json \<Rightarrow> rat option" where
  "number_of (JNum n) = Some (of_int n)"
| "number_of (JFloat q) = Some q"
| "number_of (JBool b) = Some (if b then 1 else 0)"
| "number_of _ = None"

definition round_half_even :: "rat \<Rightarrow> int" where
  "round_half_even q =
     (let f = \<lfloor>q\<rfloor>; d = q - of_int f
      in if d < 1 / 2 \<or> (d = 1 / 2 \<and> even f) then f else f + 1)"

definition from_timestamp :: "rat \<Rightarrow> dt option" where
  "from_timestamp q =
     (let us = round_half_even (q * 1000000)
      in if seconds (-62135596800) \<le> us \<and> us < seconds 253402300800
         then Some \<lparr>dt_local = us, dt_offset = Some 0\<rparr> else None)"

definition hit_time :: "blob \<Rightarrow> (int \<times> dt) option" where
  "hit_time hit =
     (case map_of hit ''created_at_i'' of
        None \<Rightarrow> None
      | Some v \<Rightarrow>
          (case number_of v of
             None \<Rightarrow> None
           | Some q \<Rightarrow> map_option (\<lambda>when. (py_int q, when)) (from_timestamp q)))"

text \<open>The hits of one page: what is yielded, the oldest second, and the error that ends them.\<close>

fun walk_hits :: "(blob \<Rightarrow> dt \<Rightarrow> exn + source_payload) \<Rightarrow> json list \<Rightarrow> int option
    \<Rightarrow> source_payload list \<times> int option \<times> exn option" where
  "walk_hits build [] oldest = ([], oldest, None)"
| "walk_hits build (JObj hit # hs) oldest =
     (case hit_time hit of
        None \<Rightarrow> walk_hits build hs oldest
      | Some (ts, when) \<Rightarrow>
          (case build hit when of
             Inl e \<Rightarrow> ([], oldest, Some (if e = ValidationError then ConnectorParseError else e))
           | Inr pl \<Rightarrow>
               (let (pls, low, err) = walk_hits build hs (Some (case oldest of None \<Rightarrow> ts | Some m \<Rightarrow> min m ts))
                in (pl # pls, low, err))))"
| "walk_hits build (_ # hs) oldest = ([], oldest, Some AttributeError)"

text \<open>The pages left, the cursor, and the number of requests made.\<close>

fun walk_from :: "algolia \<Rightarrow> hn_world \<Rightarrow> search \<Rightarrow> instant option \<Rightarrow> nat \<Rightarrow> int option \<Rightarrow> nat \<Rightarrow> payload_stream \<times> nat" where
  "walk_from A H q since 0 cursor n = (([], None), n)"
| "walk_from A H q since (Suc pages) cursor n =
     (case hits_page A H n (algolia_params A q since cursor) of
        Inl e \<Rightarrow> (([], Some e), Suc n)
      | Inr hits \<Rightarrow>
          if hits = [] then (([], None), Suc n)
          else (case walk_hits (sq_build q) hits None of
                  (pls, low, Some e) \<Rightarrow> ((pls, Some e), Suc n)
                | (pls, low, None) \<Rightarrow>
                    if length hits < page_size A then ((pls, None), Suc n)
                    else (case low of
                            None \<Rightarrow> ((pls, None), Suc n)
                          | Some c \<Rightarrow>
                              (let ((more, err), m) = walk_from A H q since pages (Some c) (Suc n)
                               in ((pls @ more, err), m)))))"

definition hn_walk :: "algolia \<Rightarrow> hn_world \<Rightarrow> search \<Rightarrow> instant option \<Rightarrow> payload_stream" where
  "hn_walk A H q since = fst (walk_from A H q since (max_pages A) None 0)"

definition feed_search :: "hn_world \<Rightarrow> string \<Rightarrow> hn_match \<Rightarrow> hn_feed \<Rightarrow> search" where
  "feed_search H query m fd =
     \<lparr>sq_tag = FEED_TAGS fd, sq_query = query, sq_match = m, sq_restrict = [''title'', ''url'', ''story_text''],
      sq_build = feed_from_algolia_hit H fd\<rparr>"

definition comment_search :: "hn_world \<Rightarrow> string \<Rightarrow> hn_match \<Rightarrow> search" where
  "comment_search H query m =
     \<lparr>sq_tag = ''comment'', sq_query = query, sq_match = m, sq_restrict = [''comment_text''],
      sq_build = comment_from_algolia_hit H\<rparr>"

definition hn_feed_poll :: "hn_world \<Rightarrow> string \<Rightarrow> hn_match \<Rightarrow> hn_feed \<Rightarrow> instant option \<Rightarrow> payload_stream" where
  "hn_feed_poll H query m fd since = hn_walk ALGOLIA H (feed_search H query m fd) since"

definition hn_comment_poll :: "hn_world \<Rightarrow> string \<Rightarrow> hn_match \<Rightarrow> instant option \<Rightarrow> payload_stream" where
  "hn_comment_poll H query m since = hn_walk ALGOLIA H (comment_search H query m) since"

subsection \<open>Bounds\<close>

lemma walk_hits_length: "walk_hits build hs oldest = (pls, low, err) \<Longrightarrow> length pls \<le> length hs"
  by (induction build hs oldest arbitrary: pls low err rule: walk_hits.induct)
    (fastforce split: option.splits prod.splits sum.splits)+

lemma walk_from_requests: "n \<le> snd (walk_from A H q since pages cursor n) \<and> snd (walk_from A H q since pages cursor n) \<le> n + pages"
proof (induction pages arbitrary: cursor n)
  case (Suc pages)
  show ?case
  proof (cases "hits_page A H n (algolia_params A q since cursor)")
    case (Inr hits)
    obtain pls low err where w: "walk_hits (sq_build q) hits None = (pls, low, err)" by (metis prod_cases3)
    obtain str m where rest: "walk_from A H q since pages low (Suc n) = (str, m)" by fastforce
    with Inr w Suc.IH[of "Suc n" low] show ?thesis by (cases low; cases err; cases str) auto
  qed simp
qed simp

text \<open>An error of a build is never a ValidationError: a page that drifts in shape fails its source only.\<close>

lemma walk_hits_error: "walk_hits build hs oldest = (pls, low, Some e) \<Longrightarrow> e \<noteq> ValidationError"
  by (induction build hs oldest arbitrary: pls low rule: walk_hits.induct)
    (fastforce split: option.splits prod.splits sum.splits if_splits)+

subsection \<open>The keyset walk misses nothing\<close>

text \<open>A hit that can be used: its second and its payload.\<close>

definition hit_row :: "(blob \<Rightarrow> dt \<Rightarrow> exn + source_payload) \<Rightarrow> json \<Rightarrow> (int \<times> source_payload) option" where
  "hit_row build h =
     (case h of
        JObj hit \<Rightarrow>
          (case hit_time hit of
             Some (ts, when) \<Rightarrow> (case build hit when of Inr pl \<Rightarrow> Some (ts, pl) | Inl _ \<Rightarrow> None)
           | None \<Rightarrow> None)
      | _ \<Rightarrow> None)"

lemma walk_hits_rows:
  "list_all2 (\<lambda>h r. hit_row build h = Some r) hs rows \<Longrightarrow>
     walk_hits build hs oldest =
       (map snd rows, fold (\<lambda>r low. Some (case low of None \<Rightarrow> fst r | Some m \<Rightarrow> min m (fst r))) rows oldest, None)"
proof (induction arbitrary: oldest rule: list_all2_induct)
  case (Cons h hs r rows)
  obtain hit "when" where "h = JObj hit" "hit_time hit = Some (fst r, when)" "build hit when = Inr (snd r)"
    using Cons.hyps(1) by (auto simp: hit_row_def split: json.splits option.splits prod.splits sum.splits)
  with Cons.IH show ?case by simp
qed simp

lemma fold_oldest:
  "sorted_wrt (\<lambda>a b. fst b \<le> fst a) rows \<Longrightarrow> \<forall>r \<in> set rows. fst r \<le> (m :: int) \<Longrightarrow>
     fold (\<lambda>r low. Some (case low of None \<Rightarrow> fst r | Some m \<Rightarrow> min m (fst r))) rows (Some m)
       = Some (if rows = [] then m else fst (last rows))"
  by (induction rows arbitrary: m) (auto simp: min_def)

lemma oldest_last:
  "sorted_wrt (\<lambda>a b. fst b \<le> fst a) rows \<Longrightarrow> rows \<noteq> [] \<Longrightarrow>
     fold (\<lambda>r low. Some (case low of None \<Rightarrow> fst r | Some m \<Rightarrow> min m (fst r))) rows None = Some (fst (last rows :: int \<times> 'a))"
  by (cases rows) (auto simp: fold_oldest)

definition in_window :: "instant option \<Rightarrow> int option \<Rightarrow> int \<times> source_payload \<Rightarrow> bool" where
  "in_window since before r \<longleftrightarrow>
     (case since of Some t \<Rightarrow> since_second t \<le> fst r | None \<Rightarrow> True) \<and> (case before of Some b \<Rightarrow> fst r \<le> b | None \<Rightarrow> True)"

text \<open>
  The service holds still: every request from the head or from the second of a hit on is answered
  with the newest usable hits of its window, at most a page of them.
\<close>

definition hn_service :: "algolia \<Rightarrow> hn_world \<Rightarrow> search \<Rightarrow> instant option \<Rightarrow> (int \<times> source_payload) list \<Rightarrow> bool" where
  "hn_service A H q since rows \<longleftrightarrow>
     (\<forall>n before. before = None \<or> before \<in> Some ` fst ` set rows \<longrightarrow> (\<exists>hits. hits_page A H n (algolia_params A q since before) = Inr hits
        \<and> list_all2 (\<lambda>h r. hit_row (sq_build q) h = Some r) hits
            (take (page_size A) (filter (in_window since before) rows))))"

definition at_second :: "(int \<times> source_payload) list \<Rightarrow> int \<Rightarrow> nat" where
  "at_second rows s = length (filter (\<lambda>r. fst r = s) rows)"

text \<open>The rows at or behind the last second of a full page: those behind the page, and a second of it.\<close>

lemma keyset_step:
  fixes L :: "(int \<times> source_payload) list"
  assumes sorted: "sorted_wrt (\<lambda>a b. fst b \<le> fst a) L" and full: "p \<le> length L" "0 < p"
  defines "c \<equiv> fst (last (take p L))"
  shows "set L = set (take p L) \<union> set (filter (\<lambda>r. fst r \<le> c) L)"
    and "length (filter (\<lambda>r. fst r \<le> c) L) + p \<le> length L + at_second L c"
proof -
  let ?page = "take p L" and ?rest = "drop p L"
  have ne: "?page \<noteq> []" using full by auto
  have "sorted_wrt (\<lambda>a b. fst b \<le> fst a) (?page @ ?rest)" using sorted by (simp only: append_take_drop_id)
  then have parts: "sorted_wrt (\<lambda>a b. fst b \<le> fst a) ?page" "\<forall>a \<in> set ?page. \<forall>b \<in> set ?rest. fst b \<le> fst a"
    unfolding sorted_wrt_append by blast+
  have rest: "\<forall>b \<in> set ?rest. fst b \<le> c" using parts(2) ne by (auto simp: c_def)
  obtain ys where ys: "?page = ys @ [last ?page]" using ne by (metis append_butlast_last_id)
  have "sorted_wrt (\<lambda>a b. fst b \<le> fst a) (ys @ [last ?page])" using parts(1) ys by metis
  then have "\<forall>a \<in> set (ys @ [last ?page]). c \<le> fst a" by (auto simp: sorted_wrt_append c_def)
  then have page: "\<forall>a \<in> set ?page. c \<le> fst a" using ys by metis
  have split: "filter P L = filter P ?page @ filter P ?rest" for P by (metis append_take_drop_id filter_append)
  have "filter (\<lambda>r. fst r \<le> c) ?rest = ?rest" using rest by simp
  moreover have "filter (\<lambda>r. fst r \<le> c) ?page = filter (\<lambda>r. fst r = c) ?page"
    using page by (intro filter_cong) auto
  ultimately have L': "filter (\<lambda>r. fst r \<le> c) L = filter (\<lambda>r. fst r = c) ?page @ ?rest" by (metis split)
  have "set L = set ?page \<union> set ?rest" by (metis append_take_drop_id set_append)
  moreover have "set (filter (\<lambda>r. fst r = c) ?page) \<subseteq> set ?page" by auto
  ultimately show "set L = set ?page \<union> set (filter (\<lambda>r. fst r \<le> c) L)" unfolding L' by auto
  show "length (filter (\<lambda>r. fst r \<le> c) L) + p \<le> length L + at_second L c"
    unfolding L' at_second_def using full split[of "\<lambda>r. fst r = c"] by simp
qed

lemma length_filter_imp: "(\<And>x. P x \<Longrightarrow> Q x) \<Longrightarrow> length (filter P xs) \<le> length (filter Q xs)"
  by (induction xs) (auto intro: le_SucI)

lemma walk_from_complete:
  assumes service: "hn_service A H q since rows" and sorted: "sorted_wrt (\<lambda>a b. fst b \<le> fst a) rows"
    and dense: "\<And>s. at_second (filter (in_window since None) rows) s \<le> k" "k < page_size A"
    and asked: "cursor = None \<or> cursor \<in> Some ` fst ` set rows"
    and fits: "length (filter (in_window since cursor) rows) \<le> pages * (page_size A - k)"
  shows "\<exists>pls m. walk_from A H q since pages cursor n = ((pls, None), m)
    \<and> set pls = snd ` set (filter (in_window since cursor) rows)"
  using asked fits
proof (induction pages arbitrary: cursor n)
  case (Suc pages)
  let ?L = "filter (in_window since cursor) rows" and ?P = "page_size A"
  obtain hits where hits: "hits_page A H n (algolia_params A q since cursor) = Inr hits"
    and rows: "list_all2 (\<lambda>h r. hit_row (sq_build q) h = Some r) hits (take ?P ?L)"
    using service Suc.prems(1) unfolding hn_service_def by blast
  have len: "length hits = min (length ?L) ?P" using list_all2_lengthD[OF rows] by simp
  have sortedL: "sorted_wrt (\<lambda>a b. fst b \<le> fst a) ?L" using sorted by (rule sorted_wrt_filter)
  show ?case
  proof (cases "?L = []")
    case True
    with hits len show ?thesis by simp
  next
    case False
    then have ne: "take ?P ?L \<noteq> []" using dense(2) by auto
    then have ne2: "hits \<noteq> []" using rows by auto
    have w: "walk_hits (sq_build q) hits None = (map snd (take ?P ?L), Some (fst (last (take ?P ?L))), None)"
      using walk_hits_rows[OF rows] oldest_last[OF sorted_wrt_take[OF sortedL] ne] by simp
    show ?thesis
    proof (cases "length ?L < ?P")
      case True
      with hits w ne2 len show ?thesis by simp
    next
      case full: False
      define c where "c = fst (last (take ?P ?L))"
      have step: "set ?L = set (take ?P ?L) \<union> set (filter (\<lambda>r. fst r \<le> c) ?L)"
        "length (filter (\<lambda>r. fst r \<le> c) ?L) + ?P \<le> length ?L + at_second ?L c"
        using keyset_step[OF sortedL, of ?P] full dense(2) by (simp_all add: c_def)
      have "last (take ?P ?L) \<in> set ?L" using last_in_set[OF ne] by (rule in_set_takeD)
      then have "in_window since cursor r \<and> fst r \<le> c \<longleftrightarrow> in_window since (Some c) r" for r
        by (auto simp: in_window_def c_def split: option.splits)
      then have next_window: "filter (\<lambda>r. fst r \<le> c) ?L = filter (in_window since (Some c)) rows"
        by (auto intro!: filter_cong)
      have "at_second ?L c \<le> at_second (filter (in_window since None) rows) c"
        unfolding at_second_def filter_filter
        by (intro length_filter_imp) (auto simp: in_window_def)
      with step(2) dense(1)[of c] dense(2) have "length (filter (in_window since (Some c)) rows) + (?P - k) \<le> length ?L"
        unfolding next_window by arith
      with Suc.prems(2) have "length (filter (in_window since (Some c)) rows) \<le> pages * (?P - k)" by simp
      moreover have "Some c = None \<or> Some c \<in> Some ` fst ` set rows"
        using \<open>last (take ?P ?L) \<in> set ?L\<close> by (auto simp: c_def)
      ultimately have "\<exists>pls m. walk_from A H q since pages (Some c) (Suc n) = ((pls, None), m)
          \<and> set pls = snd ` set (filter (in_window since (Some c)) rows)" by (intro Suc.IH)
      then obtain pls m
        where more: "walk_from A H q since pages (Some c) (Suc n) = ((pls, None), m)"
          "set pls = snd ` set (filter (in_window since (Some c)) rows)" by blast
      have "walk_from A H q since (Suc pages) cursor n = ((map snd (take ?P ?L) @ pls, None), m)"
        using hits w ne2 len full more(1) by (simp add: c_def)
      moreover have "set (map snd (take ?P ?L) @ pls) = snd ` set ?L"
        unfolding set_append set_map more(2) next_window[symmetric] image_Un[symmetric] step(1)[symmetric] ..
      ultimately show ?thesis by blast
    qed
  qed
qed simp

text \<open>
  A walk yields every hit since the second of the mark, and no other, when no second holds more than
  \<open>k\<close> of them, fewer than a page, and the window fits the pages of one poll.
\<close>

lemma hn_walk_complete:
  assumes "hn_service A H q since rows" "sorted_wrt (\<lambda>a b. fst b \<le> fst a) rows"
    and "\<And>s. at_second (filter (in_window since None) rows) s \<le> k" "k < page_size A"
    and "length (filter (in_window since None) rows) \<le> max_pages A * (page_size A - k)"
  shows "snd (hn_walk A H q since) = None
    \<and> set (fst (hn_walk A H q since)) = snd ` {r \<in> set rows. in_window since None r}"
proof -
  from walk_from_complete[OF assms(1-4) disjI1[OF refl] assms(5), of 0] obtain pls m
    where "walk_from A H q since (max_pages A) None 0 = ((pls, None), m)"
      "set pls = snd ` set (filter (in_window since None) rows)" by blast
  then show ?thesis by (simp add: hn_walk_def)
qed

end
