(* ===== verification/Twitter_Connector.thy ===== *)
theory Twitter_Connector
  imports Hackernews_Connector "HOL-Library.AList"
begin

text \<open>
  The X search connector (sources/connectors/twitter): the cookies of a session, the canonical error
  of a failed search, the payload of a tweet, and the poll. twikit is outside: \<open>search_tweet\<close> is what
  one search returns or raises, with the class of the exception. A tweet is read by attributes, an
  absent one as \<open>None\<close>. \<open>tw_str\<close> and \<open>tw_int\<close> are Python's \<open>str\<close> and pydantic's \<open>int | None\<close>, \<open>tw_json\<close>
  the JSON dump of any value; \<open>tw_now\<close> is the clock.
\<close>

subsection \<open>Cookies\<close>

record cookie_env =
  environ :: "string \<Rightarrow> string option"
  read_json :: "string \<Rightarrow> exn + json"
  file_exists :: "string \<Rightarrow> bool"
  read_text :: "string \<Rightarrow> string"
  glob_json :: "string \<Rightarrow> string list"
  json_text :: "string \<Rightarrow> json option"
  ck_str :: "json \<Rightarrow> string"

type_synonym cookies = "(string \<times> string) list"

definition environ_get :: "cookie_env \<Rightarrow> string \<Rightarrow> string" where
  "environ_get C k = strip (case environ C k of Some v \<Rightarrow> v | None \<Rightarrow> [])"

definition CRITICAL_COOKIES :: "string list" where
  "CRITICAL_COOKIES = [''auth_token'', ''ct0'']"

text \<open>An item of the array form; one that is no object has no \<open>get\<close>.\<close>

fun cookie_items :: "cookie_env \<Rightarrow> json list \<Rightarrow> cookies \<Rightarrow> exn + cookies" where
  "cookie_items C [] out = Inr out"
| "cookie_items C (JObj kvs # xs) out =
     cookie_items C xs
       (case (map_of kvs ''name'', map_of kvs ''value'') of
          (Some n, Some v) \<Rightarrow> if json_truthy n \<and> json_truthy v then AList.update (ck_str C n) (ck_str C v) out else out
        | _ \<Rightarrow> out)"
| "cookie_items C (_ # xs) out = Inl AttributeError"

definition load_cookie_file :: "cookie_env \<Rightarrow> string \<Rightarrow> exn + cookies" where
  "load_cookie_file C path =
     (case read_json C path of
        Inl e \<Rightarrow> Inl e
      | Inr (JObj kvs) \<Rightarrow> Inr (map (\<lambda>(k, v). (k, ck_str C v)) (filter (\<lambda>(k, v). json_truthy v) kvs))
      | Inr (JArr xs) \<Rightarrow> cookie_items C xs []
      | Inr _ \<Rightarrow> Inl ValueError)"

definition unreadable :: "exn \<Rightarrow> bool" where
  "unreadable e \<longleftrightarrow> e \<in> {JSONDecodeError, UnicodeError, ValueError, OSError}"

definition with_suffix_proxy :: "string \<Rightarrow> string" where
  "with_suffix_proxy path = take (length path - 5) path @ ''.proxy''"

fun cookies_of_directory :: "cookie_env \<Rightarrow> string option \<Rightarrow> string list \<Rightarrow> exn + (cookies \<times> string option) option" where
  "cookies_of_directory C proxy [] = Inr None"
| "cookies_of_directory C proxy (p # ps) =
     (case load_cookie_file C p of
        Inl e \<Rightarrow> if unreadable e then cookies_of_directory C proxy ps else Inl e
      | Inr ck \<Rightarrow>
          if \<not> set CRITICAL_COOKIES \<subseteq> fst ` set ck then cookies_of_directory C proxy ps
          else Inr (Some (ck, if file_exists C (with_suffix_proxy p)
                              then Some (strip (read_text C (with_suffix_proxy p))) else proxy)))"

definition session_proxy :: "cookie_env \<Rightarrow> string option" where
  "session_proxy C = (let p = environ_get C ''TWITTER_PROXY'' in if p = [] then None else Some p)"

definition env_cookies :: "cookie_env \<Rightarrow> cookies" where
  "env_cookies C =
     [(''auth_token'', environ_get C ''TWITTER_COOKIE_AUTH_TOKEN''), (''ct0'', environ_get C ''TWITTER_COOKIE_CT0'')]"

text \<open>The arguments \<open>cookies_json\<close>, \<open>cookies_file\<close> and \<open>credentials_dir\<close>; an empty string is none.\<close>

definition load_cookies :: "cookie_env \<Rightarrow> string \<Rightarrow> string \<Rightarrow> string \<Rightarrow> exn + cookies \<times> string option" where
  "load_cookies C cookies_json cookies_file credentials_dir =
     (let proxy = session_proxy C;
          given = (case json_text C cookies_json of
                     Some (JObj kvs) \<Rightarrow> if cookies_json \<noteq> [] \<and> kvs \<noteq> [] then Some (map (\<lambda>(k, v). (k, ck_str C v)) kvs) else None
                   | _ \<Rightarrow> None);
          directory = (let d = (if credentials_dir \<noteq> [] then credentials_dir
                                else case environ C ''TWITTER_CREDENTIALS_DIR'' of Some d \<Rightarrow> d | None \<Rightarrow> ''credentials'')
                       in if d = [] then ''.'' else d);
          from_directory =
            (if \<not> file_exists C directory then Inr ([], proxy)
             else case cookies_of_directory C proxy (sort (glob_json C directory)) of
                    Inl e \<Rightarrow> Inl e
                  | Inr (Some r) \<Rightarrow> Inr r
                  | Inr None \<Rightarrow> Inr ([], proxy))
      in case given of
           Some ck \<Rightarrow> Inr (ck, proxy)
         | None \<Rightarrow>
             if list_all (\<lambda>(k, v). v \<noteq> []) (env_cookies C) then Inr (env_cookies C, proxy)
             else if cookies_file \<noteq> [] \<and> file_exists C cookies_file
             then (case load_cookie_file C cookies_file of
                     Inr ck \<Rightarrow> Inr (ck, proxy)
                   | Inl e \<Rightarrow> if unreadable e then from_directory else Inl e)
             else from_directory)"

text \<open>The session of the connector: its client is built with no argument.\<close>

definition connector_session :: "cookie_env \<Rightarrow> exn + cookies \<times> string option" where
  "connector_session C = load_cookies C [] [] []"

subsection \<open>Errors\<close>

datatype twikit_class =
    TK_BadRequest | TK_Unauthorized | TK_Forbidden | TK_NotFound | TK_RequestTimeout | TK_TooManyRequests
  | TK_ServerError | TK_AccountSuspended | TK_AccountLocked | TK_DuplicateTweet | TK_TweetNotAvailable
  | TK_InvalidMedia | TK_UserNotFound | TK_UserUnavailable | TK_Other

fun TWIKIT_ERROR_CODE :: "twikit_class \<Rightarrow> string option" where
  "TWIKIT_ERROR_CODE TK_BadRequest = Some ''bad_request''"
| "TWIKIT_ERROR_CODE TK_Unauthorized = Some ''unauthorized''"
| "TWIKIT_ERROR_CODE TK_Forbidden = Some ''forbidden''"
| "TWIKIT_ERROR_CODE TK_NotFound = Some ''not_found''"
| "TWIKIT_ERROR_CODE TK_RequestTimeout = Some ''timeout''"
| "TWIKIT_ERROR_CODE TK_TooManyRequests = Some ''rate_limited''"
| "TWIKIT_ERROR_CODE TK_ServerError = Some ''upstream_error''"
| "TWIKIT_ERROR_CODE TK_AccountSuspended = Some ''account_suspended''"
| "TWIKIT_ERROR_CODE TK_AccountLocked = Some ''account_locked''"
| "TWIKIT_ERROR_CODE TK_DuplicateTweet = Some ''duplicate_tweet''"
| "TWIKIT_ERROR_CODE TK_TweetNotAvailable = Some ''tweet_unavailable''"
| "TWIKIT_ERROR_CODE TK_InvalidMedia = Some ''invalid_media''"
| "TWIKIT_ERROR_CODE TK_UserNotFound = Some ''user_not_found''"
| "TWIKIT_ERROR_CODE TK_UserUnavailable = Some ''user_unavailable''"
| "TWIKIT_ERROR_CODE TK_Other = None"

record listener_error =
  le_code :: string
  le_message :: string
  le_retryable :: bool
  le_action :: string
  le_reset :: "int option"

datatype search_failure = Twitter_Exception twikit_class string "int option" | Other_Exception string

definition BOOTSTRAP_BLOCKED_MARKERS :: "string list" where
  "BOOTSTRAP_BLOCKED_MARKERS = [''Couldn'' @ [CHR 39] @ ''t get KEY_BYTE indices'',
     ''Couldn'' @ [CHR 39] @ ''t get key from the page source'']"

fun contains_sub :: "string \<Rightarrow> string \<Rightarrow> bool" where
  "contains_sub p [] = (p = [])"
| "contains_sub p (c # cs) = (take (length p) (c # cs) = p \<or> contains_sub p cs)"

definition map_bootstrap_failure :: "string \<Rightarrow> listener_error" where
  "map_bootstrap_failure msg =
     (if list_ex (\<lambda>m. contains_sub m msg) BOOTSTRAP_BLOCKED_MARKERS
      then \<lparr>le_code = ''bootstrap_blocked'', le_message = msg, le_retryable = False,
             le_action = ''X served a degraded shell to this egress IP (no ondemand.s chunk map). ''
               @ ''Use a residential proxy + browser fingerprint.'', le_reset = None\<rparr>
      else \<lparr>le_code = ''internal'', le_message = msg, le_retryable = True,
             le_action = ''unknown failure; log raw and retry with backoff'', le_reset = None\<rparr>)"

definition retryable_actions :: "int option \<Rightarrow> string \<Rightarrow> (bool \<times> string) option" where
  "retryable_actions reset code = map_of
     [(''bad_request'', (False, ''fix query / payload; do not retry as-is'')),
      (''unauthorized'', (False, ''refresh session (guest token / cookies) and retry once'')),
      (''forbidden'', (False, ''rotate session + proxy pin; alert'')),
      (''not_found'', (False, ''tweet/user no longer exists; skip'')),
      (''timeout'', (True, ''retry with backoff'')),
      (''rate_limited'', (True, ''backoff until reset ('' @ (case reset of Some r \<Rightarrow> dec_int r | None \<Rightarrow> ''None'') @ '')'')),
      (''upstream_error'', (True, ''retry with backoff; alert after 5 consecutive'')),
      (''account_suspended'', (False, ''pause account mode; rotate to a different session; alert'')),
      (''account_locked'', (False, ''Arkose challenge; pause account mode; alert'')),
      (''duplicate_tweet'', (False, ''skip (dedupe by design)'')),
      (''tweet_unavailable'', (False, ''skip'')),
      (''invalid_media'', (False, ''skip'')),
      (''user_not_found'', (False, ''skip'')),
      (''user_unavailable'', (False, ''skip'')),
      (''twitter_error'', (True, ''unknown upstream error; log raw and retry with backoff''))] code"

definition map_twikit_error :: "twikit_class \<Rightarrow> string \<Rightarrow> int option \<Rightarrow> listener_error" where
  "map_twikit_error cls msg reset =
     (if cls = TK_NotFound \<and> strip msg = []
      then \<lparr>le_code = ''search_timeline_unavailable'',
             le_message = ''X SearchTimeline returned an empty 404 (transient upstream flake)'', le_retryable = True,
             le_action = ''retry with backoff; watermark stays put so the next cycle re-reads'', le_reset = reset\<rparr>
      else let code = (case TWIKIT_ERROR_CODE cls of Some c \<Rightarrow> c | None \<Rightarrow> ''twitter_error'');
               (retryable, action) = (case retryable_actions reset code of
                  Some ra \<Rightarrow> ra | None \<Rightarrow> (True, ''unknown; log and retry with backoff''))
        in \<lparr>le_code = code, le_message = msg, le_retryable = retryable, le_action = action, le_reset = reset\<rparr>)"

definition listener_error_of :: "search_failure \<Rightarrow> listener_error" where
  "listener_error_of f =
     (case f of Twitter_Exception cls msg reset \<Rightarrow> map_twikit_error cls msg reset
      | Other_Exception msg \<Rightarrow> map_bootstrap_failure msg)"

subsection \<open>The payload of a tweet\<close>

datatype tw_value =
    TV_None
  | TV_Int int
  | TV_Str string
  | TV_Time dt
  | TV_List "tw_value list"
  | TV_Obj "(string \<times> tw_value) list"

record twitter_world =
  search_tweet :: "string \<Rightarrow> string \<Rightarrow> int \<Rightarrow> search_failure + tw_value list"
  tw_str :: "tw_value \<Rightarrow> string"
  tw_int :: "tw_value \<Rightarrow> int option"
  tw_json :: "tw_value \<Rightarrow> json"
  tw_now :: dt
  tw_text :: text_env

fun getattr :: "tw_value \<Rightarrow> string \<Rightarrow> tw_value" where
  "getattr (TV_Obj kvs) k = (case map_of kvs k of Some v \<Rightarrow> v | None \<Rightarrow> TV_None)"
| "getattr _ k = TV_None"

fun tw_truthy :: "tw_value \<Rightarrow> bool" where
  "tw_truthy TV_None = False"
| "tw_truthy (TV_Int n) = (n \<noteq> 0)"
| "tw_truthy (TV_Str s) = (s \<noteq> [])"
| "tw_truthy (TV_Time _) = True"
| "tw_truthy (TV_List xs) = (xs \<noteq> [])"
| "tw_truthy (TV_Obj _) = True"

definition tw_or :: "tw_value \<Rightarrow> tw_value \<Rightarrow> tw_value" where
  "tw_or a b = (if tw_truthy a then a else b)"

definition tw_text_of :: "twitter_world \<Rightarrow> tw_value \<Rightarrow> string" where
  "tw_text_of T v = (case v of TV_Str s \<Rightarrow> s | _ \<Rightarrow> if tw_truthy v then tw_str T v else [])"

definition user_names :: "twitter_world \<Rightarrow> tw_value \<Rightarrow> string \<times> string" where
  "user_names T user =
     (if user = TV_None then ([], [])
      else (tw_text_of T (tw_or (getattr user ''screen_name'') (getattr user ''username'')),
            tw_text_of T (getattr user ''name'')))"

definition tweet_time :: "twitter_world \<Rightarrow> tw_value \<Rightarrow> dt" where
  "tweet_time T tweet =
     (let t = (case tw_or (getattr tweet ''created_at_datetime'') (getattr tweet ''created_at'') of
                 TV_Time t \<Rightarrow> t | _ \<Rightarrow> tw_now T)
      in if dt_offset t = None then t\<lparr>dt_offset := Some 0\<rparr> else t)"

definition ref_id :: "twitter_world \<Rightarrow> tw_value \<Rightarrow> json" where
  "ref_id T obj = (if obj = TV_None then JNull else JStr (case getattr obj ''id'' of TV_Str s \<Rightarrow> s | v \<Rightarrow> tw_str T v))"

definition media_entry :: "twitter_world \<Rightarrow> tw_value \<Rightarrow> json" where
  "media_entry T m =
     JObj [(''type'', tw_json T (getattr m ''type'')),
       (''url'', tw_json T (tw_or (getattr m ''media_url_https'') (getattr m ''media_url''))),
       (''thumbnail'', tw_json T (getattr m ''thumbnail_url''))]"

text \<open>A count is \<open>int | None\<close>.\<close>

definition metric :: "twitter_world \<Rightarrow> tw_value \<Rightarrow> json option" where
  "metric T v = (if v = TV_None then Some JNull else map_option JNum (tw_int T v))"

definition metrics_of :: "twitter_world \<Rightarrow> tw_value \<Rightarrow> blob option" where
  "metrics_of T tweet =
     those (map (\<lambda>(k, a). map_option (Pair k) (metric T (getattr tweet a)))
       [(''likes'', ''favorite_count''), (''retweets'', ''retweet_count''), (''replies'', ''reply_count''),
        (''quotes'', ''quote_count''), (''views'', ''view_count'')])"

definition tweet_lang :: "twitter_world \<Rightarrow> tw_value \<Rightarrow> string" where
  "tweet_lang T tweet = tw_text_of T (getattr tweet ''lang'')"

definition from_tweet :: "twitter_world \<Rightarrow> tw_value \<Rightarrow> exn + source_payload" where
  "from_tweet T tweet =
     (let tweet_id = tw_text_of T (getattr tweet ''id'');
          (handle, author) = user_names T (getattr tweet ''user'');
          text = tw_or (tw_or (getattr tweet ''full_text'') (getattr tweet ''text'')) (TV_Str []);
          occurred = tweet_time T tweet
      in case (case tw_or (getattr tweet ''media'') (TV_List []) of
                 TV_List ms \<Rightarrow> Some ms | TV_Str cs \<Rightarrow> Some (map (\<lambda>c. TV_Str [c]) cs) | _ \<Rightarrow> None) of
           None \<Rightarrow> Inl TypeError
         | Some ms \<Rightarrow>
             (case (text, metrics_of T tweet) of
                (TV_Str content, Some metrics) \<Rightarrow>
                  Inr \<lparr>pl_source = ''twitter_search'', pl_external_id = tweet_id, pl_occurred = occurred, pl_subreddit = [],
                    pl_dump = [(''external_id'', JStr tweet_id), (''kind'', JStr ''new_tweet''),
                      (''occurred_at'', JStr (iso_text (tw_text T) occurred)), (''source'', JStr ''twitter_search''),
                      (''title'', JStr []), (''content'', JStr content),
                      (''url'', JStr (if handle = [] then [] else ''https://x.com/'' @ handle @ ''/status/'' @ tweet_id)),
                      (''external_url'', JStr []), (''parent_external_id'', JStr []),
                      (''author'', JStr author), (''handle'', JStr handle), (''lang'', JStr (tweet_lang T tweet)),
                      (''metrics'', JObj metrics),
                      (''refs'', JObj [(''in_reply_to'', ref_id T (getattr tweet ''in_reply_to'')),
                         (''quoted'', ref_id T (getattr tweet ''quote'')),
                         (''retweet_of'', ref_id T (getattr tweet ''retweeted_tweet''))]),
                      (''media'', JArr (map (media_entry T) ms))]\<rparr>
              | _ \<Rightarrow> Inl ValidationError))"

subsection \<open>The poll\<close>

definition TWIKIT_MODES :: "twitter_mode \<Rightarrow> string" where
  "TWIKIT_MODES m = (case m of Latest \<Rightarrow> ''Latest'' | Top \<Rightarrow> ''Top'')"

definition at_or_before :: "instant option \<Rightarrow> source_payload \<Rightarrow> bool" where
  "at_or_before since pl = (case since of Some s \<Rightarrow> instant_of (pl_occurred pl) \<le> s | None \<Rightarrow> False)"

fun tweet_stream :: "twitter_world \<Rightarrow> string \<Rightarrow> instant option \<Rightarrow> tw_value list \<Rightarrow> payload_stream" where
  "tweet_stream T lang since [] = ([], None)"
| "tweet_stream T lang since (t # ts) =
     (case from_tweet T t of
        Inl e \<Rightarrow> ([], Some e)
      | Inr pl \<Rightarrow>
          if at_or_before since pl \<or> (lang \<noteq> [] \<and> tweet_lang T t \<noteq> [] \<and> tweet_lang T t \<noteq> lang)
          then tweet_stream T lang since ts
          else (let (pls, err) = tweet_stream T lang since ts in (pl # pls, err)))"

definition twitter_poll :: "twitter_world \<Rightarrow> string \<Rightarrow> twitter_mode \<Rightarrow> int \<Rightarrow> string \<Rightarrow> instant option \<Rightarrow> payload_stream" where
  "twitter_poll T query mode n lang since =
     (case search_tweet T query (TWIKIT_MODES mode) n of
        Inl f \<Rightarrow> ([], Some ConnectorParseError)
      | Inr tweets \<Rightarrow> tweet_stream T lang since tweets)"

subsection \<open>Facts\<close>

text \<open>Every twikit exception class has a canonical action, and only an empty 404 is no \<open>not_found\<close>.\<close>

lemma twikit_codes_have_actions:
  "case TWIKIT_ERROR_CODE cls of Some code \<Rightarrow> retryable_actions reset code \<noteq> None | None \<Rightarrow> True"
  by (cases cls) (simp_all add: retryable_actions_def del: not_None_eq)

lemma empty_404_is_transient:
  "le_retryable (map_twikit_error TK_NotFound msg reset) \<longleftrightarrow> strip msg = []"
  by (simp add: map_twikit_error_def retryable_actions_def)

text \<open>A session read from the directory carries both critical cookies.\<close>

lemma directory_cookies_critical:
  "cookies_of_directory C proxy ps = Inr (Some (ck, pin)) \<Longrightarrow> set CRITICAL_COOKIES \<subseteq> fst ` set ck"
  by (induction C proxy ps rule: cookies_of_directory.induct) (auto split: sum.splits if_splits)

text \<open>The connector's session has no cookies, or both critical ones.\<close>

lemma connector_session_cookies:
  assumes "connector_session C = Inr (ck, pin)"
  shows "ck = [] \<or> set CRITICAL_COOKIES \<subseteq> fst ` set ck"
proof -
  have "set CRITICAL_COOKIES \<subseteq> fst ` set (env_cookies C)" by (auto simp: CRITICAL_COOKIES_def env_cookies_def)
  with assms show ?thesis
    by (auto simp: connector_session_def load_cookies_def Let_def dest!: directory_cookies_critical
        split: if_splits sum.splits option.splits json.splits)
qed

text \<open>Files are read without the environment.\<close>

lemma environ_alone:
  "json_text (C\<lparr>environ := f\<rparr>) = json_text C" "file_exists (C\<lparr>environ := f\<rparr>) = file_exists C"
  "read_text (C\<lparr>environ := f\<rparr>) = read_text C" "glob_json (C\<lparr>environ := f\<rparr>) = glob_json C"
  "ck_str (C\<lparr>environ := f\<rparr>) = ck_str C" "read_json (C\<lparr>environ := f\<rparr>) = read_json C"
  by simp_all

lemma files_without_environ:
  "cookie_items (C\<lparr>environ := f\<rparr>) xs out = cookie_items C xs out"
  "load_cookie_file (C\<lparr>environ := f\<rparr>) p = load_cookie_file C p"
  "cookies_of_directory (C\<lparr>environ := f\<rparr>) q ps = cookies_of_directory C q ps"
proof -
  show items: "cookie_items (C\<lparr>environ := f\<rparr>) xs out = cookie_items C xs out" for xs out
    by (induction C xs out rule: cookie_items.induct) (auto split: option.split)
  show files: "load_cookie_file (C\<lparr>environ := f\<rparr>) p = load_cookie_file C p" for p
    by (cases "read_json C p"; cases "projr (read_json C p)") (simp_all add: load_cookie_file_def items)
  show "cookies_of_directory (C\<lparr>environ := f\<rparr>) q ps = cookies_of_directory C q ps"
  proof (induction ps)
    case (Cons p ps)
    show ?case unfolding cookies_of_directory.simps files environ_alone Cons.IH ..
  qed simp
qed

text \<open>
  The variables \<open>TWITTER_COOKIES_JSON\<close> and \<open>TWITTER_COOKIES_FILE\<close> that the client documents do not
  reach a session of the connector.
\<close>

lemma connector_session_ignores:
  assumes "k \<notin> {''TWITTER_PROXY'', ''TWITTER_COOKIE_AUTH_TOKEN'', ''TWITTER_COOKIE_CT0'', ''TWITTER_CREDENTIALS_DIR''}"
  shows "connector_session (C\<lparr>environ := (environ C)(k := v)\<rparr>) = connector_session C"
proof -
  let ?C = "C\<lparr>environ := (environ C)(k := v)\<rparr>"
  have "environ ?C n = environ C n" if "n \<in> {''TWITTER_PROXY'', ''TWITTER_COOKIE_AUTH_TOKEN'', ''TWITTER_COOKIE_CT0'', ''TWITTER_CREDENTIALS_DIR''}" for n
    using that assms by auto
  then have same: "session_proxy ?C = session_proxy C" "env_cookies ?C = env_cookies C"
    "environ ?C ''TWITTER_CREDENTIALS_DIR'' = environ C ''TWITTER_CREDENTIALS_DIR''"
    by (simp_all add: session_proxy_def env_cookies_def environ_get_def)
  show ?thesis
    unfolding connector_session_def load_cookies_def files_without_environ environ_alone same ..
qed

lemma tweet_time_aware: "dt_offset (tweet_time T t) \<noteq> None"
  by (simp add: tweet_time_def Let_def)

lemma from_tweet_time: "from_tweet T t = Inr pl \<Longrightarrow> pl_occurred pl = tweet_time T t"
  by (auto simp: from_tweet_def Let_def split: prod.splits option.splits tw_value.splits)

text \<open>What a poll yields is strictly newer than the mark, and in the language asked for or in none.\<close>

lemma tweet_stream_yields:
  "tweet_stream T lang since ts = (pls, err) \<Longrightarrow> pl \<in> set pls \<Longrightarrow>
     \<not> at_or_before since pl
     \<and> (\<exists>t \<in> set ts. from_tweet T t = Inr pl \<and> (lang = [] \<or> tweet_lang T t = [] \<or> tweet_lang T t = lang))"
proof (induction ts arbitrary: pls)
  case (Cons t ts)
  show ?case
  proof (cases "from_tweet T t")
    case (Inr p)
    obtain pls2 err2 where rest: "tweet_stream T lang since ts = (pls2, err2)" by fastforce
    with Inr Cons.prems Cons.IH[of pls2] show ?thesis by (auto split: if_splits)
  qed (use Cons.prems in simp)
qed simp

text \<open>Every failure of the search is recoverable: a ConnectorParseError, and nothing is yielded.\<close>

lemma twitter_search_failure:
  "search_tweet T query (TWIKIT_MODES mode) n = Inl f \<Longrightarrow> twitter_poll T query mode n lang since = ([], Some ConnectorParseError)"
  by (simp add: twitter_poll_def)

end
