(* ===== verification/Github_Connectors.thy ===== *)
theory Github_Connectors
  imports Twitter_Connector
begin

text \<open>
  The two GitHub connectors (sources/connectors/github\_search and github\_events): the canonical error
  of a failed request, the payload of a repository, the search and the radar over the public events.
  httpx is outside: \<open>gh_get\<close> is what a GET of a path with its parameters ends in. \<open>gh_int_of\<close> is
  Python's \<open>int\<close> of a text, \<open>gh_str\<close> its \<open>str\<close> of a value that is no string, \<open>gh_now\<close> the clock.
\<close>

record github_reply =
  gr_status :: int
  gr_headers :: "(string \<times> string) list"
  gr_json :: "exn + json"
  gr_text :: string
  gr_error :: string

datatype github_outcome = Timed_Out string | Transport_Failed string | Answered github_reply

record github_world =
  gh_get :: "string \<Rightarrow> (string \<times> string) list \<Rightarrow> github_outcome"
  gh_str :: "json \<Rightarrow> string"
  gh_int_of :: "string \<Rightarrow> int option"
  gh_now :: dt
  gh_text :: text_env

subsection \<open>Errors\<close>

record github_error =
  ge_code :: string
  ge_message :: string
  ge_retryable :: bool
  ge_action :: string
  ge_reset :: "int option"

definition STATUS_CODES :: "int \<Rightarrow> string option" where
  "STATUS_CODES = map_of
     [(401, ''unauthorized''), (403, ''rate_limited''), (404, ''not_found''), (422, ''validation_failed''),
      (429, ''rate_limited''), (500, ''upstream_error''), (502, ''upstream_error''), (503, ''upstream_error''),
      (504, ''upstream_error'')]"

definition RETRYABLE_ACTIONS :: "string \<Rightarrow> (bool \<times> string) option" where
  "RETRYABLE_ACTIONS = map_of
     [(''unauthorized'', (False, ''check token / env config; do not retry as-is'')),
      (''rate_limited'', (True, ''backoff until reset (X-RateLimit-Reset)'')),
      (''not_found'', (False, ''no results / endpoint 404; skip'')),
      (''validation_failed'', (False, ''fix query / params; do not retry as-is'')),
      (''upstream_error'', (True, ''retry with backoff; alert after 5 consecutive'')),
      (''timeout'', (True, ''retry with backoff'')),
      (''network_error'', (True, ''retry with backoff''))]"

definition header_in :: "(string \<times> string) list \<Rightarrow> string \<Rightarrow> string option" where
  "header_in hs name = map_option snd (find (\<lambda>(n, v). map to_lower n = map to_lower name) hs)"

text \<open>\<open>None\<close> is an exception of another class than these.\<close>

definition map_github_error :: "(string \<Rightarrow> int option) \<Rightarrow> github_outcome \<Rightarrow> github_error" where
  "map_github_error int_of outcome =
     (case outcome of
        Answered r \<Rightarrow>
          (let code = (case STATUS_CODES (gr_status r) of Some c \<Rightarrow> c | None \<Rightarrow> ''http_error'');
               (retryable, action) = (case RETRYABLE_ACTIONS code of
                  Some ra \<Rightarrow> ra | None \<Rightarrow> (500 \<le> gr_status r, ''unknown HTTP error; log and retry on 5xx''))
           in \<lparr>ge_code = code, ge_message = gr_error r, ge_retryable = retryable, ge_action = action,
               ge_reset = (case header_in (gr_headers r) ''X-RateLimit-Reset'' of
                  Some s \<Rightarrow> if s \<noteq> [] \<and> list_all is_digit s then int_of s else None | None \<Rightarrow> None)\<rparr>)
      | Timed_Out msg \<Rightarrow>
          \<lparr>ge_code = ''timeout'', ge_message = msg, ge_retryable = True, ge_action = ''retry with backoff'', ge_reset = None\<rparr>
      | Transport_Failed msg \<Rightarrow>
          \<lparr>ge_code = ''network_error'', ge_message = msg, ge_retryable = True, ge_action = ''retry with backoff'', ge_reset = None\<rparr>)"

subsection \<open>The payload of a repository\<close>

definition str_or_empty :: "github_world \<Rightarrow> blob \<Rightarrow> string \<Rightarrow> string" where
  "str_or_empty G kvs k = (case get_or kvs k (JStr []) of JStr s \<Rightarrow> s | v \<Rightarrow> gh_str G v)"

text \<open>\<open>int(repo.get(key) or 0)\<close>.\<close>

definition int_or_zero :: "github_world \<Rightarrow> blob \<Rightarrow> string \<Rightarrow> exn + int" where
  "int_or_zero G kvs k =
     (case get_or kvs k (JNum 0) of
        JNum n \<Rightarrow> Inr n
      | JBool b \<Rightarrow> Inr (if b then 1 else 0)
      | JFloat q \<Rightarrow> Inr (py_int q)
      | JStr s \<Rightarrow> (case gh_int_of G s of Some n \<Rightarrow> Inr n | None \<Rightarrow> Inl ValueError)
      | _ \<Rightarrow> Inl TypeError)"

definition owner_login :: "github_world \<Rightarrow> blob \<Rightarrow> string" where
  "owner_login G repo = (case get_or repo ''owner'' (JObj []) of JObj own \<Rightarrow> str_or_empty G own ''login'' | _ \<Rightarrow> [])"

definition license_of :: "github_world \<Rightarrow> blob \<Rightarrow> string" where
  "license_of G repo = (case map_of repo ''license'' of Some (JObj l) \<Rightarrow> str_or_empty G l ''spdx_id'' | _ \<Rightarrow> [])"

definition text_of :: "github_world \<Rightarrow> json \<Rightarrow> string" where
  "text_of G v = (case v of JStr s \<Rightarrow> s | _ \<Rightarrow> gh_str G v)"

text \<open>Iterating a list, a string or the keys of an object; a number is no iterable.\<close>

definition iter_json :: "json \<Rightarrow> exn + json list" where
  "iter_json v =
     (case v of JArr xs \<Rightarrow> Inr xs | JStr s \<Rightarrow> Inr (map (\<lambda>c. JStr [c]) s) | JObj kvs \<Rightarrow> Inr (map (\<lambda>(k, w). JStr k) kvs)
      | _ \<Rightarrow> Inl TypeError)"

definition topics_of :: "github_world \<Rightarrow> blob \<Rightarrow> exn + string list" where
  "topics_of G repo = map_sum id (\<lambda>xs. map (text_of G) (filter json_truthy xs)) (iter_json (get_or repo ''topics'' (JArr [])))"

definition repo_body :: "github_world \<Rightarrow> blob \<Rightarrow> string list \<Rightarrow> string" where
  "repo_body G repo topics =
     joined ''. '' (filter (\<lambda>p. p \<noteq> []) [str_or_empty G repo ''description'', str_or_empty G repo ''language'', joined '', '' topics])"

record repo_counts =
  rc_stars :: int
  rc_forks :: int
  rc_issues :: int

definition repo_counts_of :: "github_world \<Rightarrow> blob \<Rightarrow> exn + repo_counts" where
  "repo_counts_of G repo =
     (case int_or_zero G repo ''stargazers_count'' of
        Inl e \<Rightarrow> Inl e
      | Inr s \<Rightarrow>
          (case int_or_zero G repo ''forks_count'' of
             Inl e \<Rightarrow> Inl e
           | Inr f \<Rightarrow> map_sum id (\<lambda>i. \<lparr>rc_stars = s, rc_forks = f, rc_issues = i\<rparr>) (int_or_zero G repo ''open_issues_count'')))"

text \<open>\<open>s.replace("Z", "+00:00")\<close>.\<close>

definition replace_z :: "string \<Rightarrow> string" where
  "replace_z s = concat (map (\<lambda>c. if c = CHR ''Z'' then ''+00:00'' else [c]) s)"

definition repo_url :: "string \<Rightarrow> string" where
  "repo_url full_name = (if full_name = [] then [] else ''https://github.com/'' @ full_name)"

definition repo_time :: "github_world \<Rightarrow> blob \<Rightarrow> dt" where
  "repo_time G repo =
     (let pushed_at = str_or_empty G repo ''pushed_at''
      in if pushed_at = [] then gh_now G
         else case iso_date (gh_text G) (replace_z pushed_at) of Some t \<Rightarrow> t | None \<Rightarrow> gh_now G)"

definition repo_dump :: "github_world \<Rightarrow> blob \<Rightarrow> string list \<Rightarrow> repo_counts \<Rightarrow> string \<Rightarrow> string \<Rightarrow> dt \<Rightarrow> string \<Rightarrow> string \<Rightarrow> blob" where
  "repo_dump G repo topics cnt kind source occurred title content =
     (let full_name = str_or_empty G repo ''full_name''
      in [(''external_id'', JStr full_name), (''kind'', JStr kind), (''occurred_at'', JStr (iso_text (gh_text G) occurred)),
          (''source'', JStr source), (''title'', JStr title), (''content'', JStr content), (''url'', JStr (repo_url full_name)),
          (''external_url'', JStr []), (''parent_external_id'', JStr []), (''full_name'', JStr full_name),
          (''owner'', JStr (owner_login G repo)), (''stars'', JNum (rc_stars cnt)), (''forks'', JNum (rc_forks cnt)),
          (''open_issues'', JNum (rc_issues cnt)), (''language'', JStr (str_or_empty G repo ''language'')),
          (''topics'', JArr (map JStr topics)), (''homepage'', JStr (str_or_empty G repo ''homepage'')),
          (''license_name'', JStr (license_of G repo))])"

definition repo_stamps :: "github_world \<Rightarrow> blob \<Rightarrow> blob" where
  "repo_stamps G repo =
     [(''pushed_at'', JStr (str_or_empty G repo ''pushed_at'')), (''created_at'', JStr (str_or_empty G repo ''created_at'')),
      (''updated_at'', JStr (str_or_empty G repo ''updated_at''))]"

definition from_repo :: "github_world \<Rightarrow> json \<Rightarrow> exn + source_payload" where
  "from_repo G item =
     (case item of
        JObj repo \<Rightarrow>
          (case topics_of G repo of
             Inl e \<Rightarrow> Inl e
           | Inr topics \<Rightarrow>
               (case repo_counts_of G repo of
                  Inl e \<Rightarrow> Inl e
                | Inr cnt \<Rightarrow>
                    (let full_name = str_or_empty G repo ''full_name'';
                         occurred = repo_time G repo
                     in Inr \<lparr>pl_source = ''github_search'', pl_external_id = full_name, pl_occurred = occurred, pl_subreddit = [],
                          pl_dump = repo_dump G repo topics cnt ''new_repo'' ''github_search'' occurred full_name
                              (repo_body G repo topics) @ repo_stamps G repo\<rparr>)))
      | _ \<Rightarrow> Inl AttributeError)"

subsection \<open>The search\<close>

definition ok_status :: "int \<Rightarrow> bool" where
  "ok_status s \<longleftrightarrow> 200 \<le> s \<and> s < 300"

text \<open>
  \<open>search_repositories\<close>: \<open>GitHubError\<close> is a plain dataclass, so the \<open>raise\<close> of one is a TypeError.
\<close>

definition search_repositories :: "github_world \<Rightarrow> string \<Rightarrow> string \<Rightarrow> string \<Rightarrow> int \<Rightarrow> exn + json" where
  "search_repositories G query srt ord per_page =
     (case gh_get G ''/search/repositories''
             [(''q'', query), (''sort'', srt), (''order'', ord), (''per_page'', dec_int per_page)] of
        Answered r \<Rightarrow> if ok_status (gr_status r) then gr_json r else Inl TypeError
      | _ \<Rightarrow> Inl TypeError)"

text \<open>
  The watermark test compares an aware datetime with the payload's, which is naive when the service
  gives no offset: a TypeError.
\<close>

definition not_newer :: "instant option \<Rightarrow> dt \<Rightarrow> exn + bool" where
  "not_newer since t =
     (case since of
        None \<Rightarrow> Inr False
      | Some s \<Rightarrow> if dt_offset t = None then Inl TypeError else Inr (instant_of t \<le> s))"

fun repo_stream :: "github_world \<Rightarrow> instant option \<Rightarrow> json list \<Rightarrow> payload_stream" where
  "repo_stream G since [] = ([], None)"
| "repo_stream G since (r # rs) =
     (case from_repo G r of
        Inl e \<Rightarrow> ([], Some e)
      | Inr pl \<Rightarrow>
          (case not_newer since (pl_occurred pl) of
             Inl e \<Rightarrow> ([], Some e)
           | Inr True \<Rightarrow> repo_stream G since rs
           | Inr False \<Rightarrow> (let (pls, err) = repo_stream G since rs in (pl # pls, err))))"

definition github_query :: "string \<Rightarrow> int \<Rightarrow> string" where
  "github_query query min_stars = (if 0 < min_stars then query @ '' stars:>='' @ dec_int min_stars else query)"

text \<open>
  An exception that reaches \<open>except GitHubError\<close> is matched against a class that is no exception
  class, which is a TypeError too.
\<close>

definition github_search_poll :: "github_world \<Rightarrow> string \<Rightarrow> github_sort \<Rightarrow> int \<Rightarrow> int \<Rightarrow> instant option \<Rightarrow> payload_stream" where
  "github_search_poll G query srt min_stars n since =
     (case search_repositories G (github_query query min_stars) (github_sort_value srt) ''desc'' (min n 100) of
        Inl e \<Rightarrow> ([], Some TypeError)
      | Inr (JObj kvs) \<Rightarrow>
          (case iter_json (get_or kvs ''items'' (JArr [])) of Inl e \<Rightarrow> ([], Some e) | Inr items \<Rightarrow> repo_stream G since items)
      | Inr _ \<Rightarrow> ([], Some AttributeError))"

subsection \<open>The radar\<close>

text \<open>A failed request of the radar's client raises httpx's error; a 404 is \<open>None\<close>.\<close>

definition fetch_repo_meta :: "github_world \<Rightarrow> string \<Rightarrow> exn + json option" where
  "fetch_repo_meta G repo =
     (case gh_get G (''/repos/'' @ repo) [] of
        Answered r \<Rightarrow>
          if gr_status r = 404 then Inr None
          else if ok_status (gr_status r) then map_sum id Some (gr_json r) else Inl HTTPError
      | _ \<Rightarrow> Inl HTTPError)"

definition fetch_readme :: "github_world \<Rightarrow> string \<Rightarrow> exn + string option" where
  "fetch_readme G repo =
     (case gh_get G (''/repos/'' @ repo @ ''/readme'') [] of
        Answered r \<Rightarrow>
          if gr_status r = 404 then Inr None else if ok_status (gr_status r) then Inr (Some (gr_text r)) else Inl HTTPError
      | _ \<Rightarrow> Inl HTTPError)"

definition poll_events :: "github_world \<Rightarrow> exn + github_reply" where
  "poll_events G =
     (case gh_get G ''/events'' [] of
        Answered r \<Rightarrow> if gr_status r = 304 \<or> ok_status (gr_status r) then Inr r else Inl HTTPError
      | _ \<Rightarrow> Inl HTTPError)"

definition README_EXCERPT_CHARS :: nat where
  "README_EXCERPT_CHARS = 500"

definition readme_excerpt :: "string \<Rightarrow> string" where
  "readme_excerpt readme =
     strip (take README_EXCERPT_CHARS
       (strip (map (\<lambda>c. if c = CHR 10 then CHR '' '' else c) (filter (\<lambda>c. c \<noteq> CHR 13) readme))))"

definition event_content :: "string \<Rightarrow> string \<Rightarrow> string" where
  "event_content body readme =
     (let excerpt = readme_excerpt readme
      in if excerpt = [] then body
         else if body = [] then ''README: '' @ excerpt
         else body @ [CHR 10, CHR 10] @ ''README: '' @ excerpt)"

definition actor_fields :: "github_world \<Rightarrow> json option \<Rightarrow> exn + blob" where
  "actor_fields G actor =
     (let a = (case actor of Some (JObj kvs) \<Rightarrow> kvs | _ \<Rightarrow> [])
      in map_sum id (\<lambda>n. [(''actor_login'', JStr (str_or_empty G a ''login'')), (''actor_id'', JNum n),
            (''actor_avatar_url'', JStr (str_or_empty G a ''avatar_url''))]) (int_or_zero G a ''id''))"

definition from_create_event :: "github_world \<Rightarrow> json \<Rightarrow> dt \<Rightarrow> string \<Rightarrow> string option \<Rightarrow> string \<Rightarrow> json option
    \<Rightarrow> exn + source_payload" where
  "from_create_event G meta occurred event_type readme event_id actor =
     (case meta of
        JObj repo \<Rightarrow>
          (case topics_of G repo of
             Inl e \<Rightarrow> Inl e
           | Inr topics \<Rightarrow>
               (case actor_fields G actor of
                  Inl e \<Rightarrow> Inl e
                | Inr who \<Rightarrow>
                    (case repo_counts_of G repo of
                       Inl e \<Rightarrow> Inl e
                     | Inr cnt \<Rightarrow>
                         (let full_name = str_or_empty G repo ''full_name'';
                              text = (case readme of Some s \<Rightarrow> s | None \<Rightarrow> [])
                          in Inr \<lparr>pl_source = ''github_events'', pl_external_id = full_name, pl_occurred = occurred,
                               pl_subreddit = [],
                               pl_dump = repo_dump G repo topics cnt ''new_repo_event'' ''github_events'' occurred
                                   (if full_name = [] then ''github:'' @ event_id else full_name)
                                   (event_content (repo_body G repo topics) text)
                                 @ [(''readme'', JStr text), (''event_type'', JStr event_type)]
                                 @ repo_stamps G repo @ who\<rparr>))))
      | _ \<Rightarrow> Inl AttributeError)"

text \<open>\<open>_parse_ts\<close>; what is truthy and no string has no \<open>replace\<close>.\<close>

definition parse_ts :: "github_world \<Rightarrow> json \<Rightarrow> exn + dt option" where
  "parse_ts G v =
     (if \<not> json_truthy v then Inr None
      else case v of JStr s \<Rightarrow> Inr (iso_date (gh_text G) (replace_z s)) | _ \<Rightarrow> Inl AttributeError)"

text \<open>The kind of event that is surfaced, or the error of a \<open>ref\<close> that is no string.\<close>

definition surfaced :: "bool \<Rightarrow> blob \<Rightarrow> blob \<Rightarrow> exn + string option" where
  "surfaced include_pushes event payload =
     (if map_of event ''type'' = Some (JStr ''CreateEvent'')
      then Inr (if map_of payload ''ref_type'' = Some (JStr ''repository'') then Some ''create'' else None)
      else if map_of event ''type'' = Some (JStr ''PushEvent'') \<and> include_pushes
      then (case map_of payload ''ref'' of
              None \<Rightarrow> Inr None
            | Some (JStr ref) \<Rightarrow> Inr (if take 11 ref = ''refs/heads/'' then Some ''push'' else None)
            | Some _ \<Rightarrow> Inl AttributeError)
      else Inr None)"

definition event_repo :: "github_world \<Rightarrow> blob \<Rightarrow> string option" where
  "event_repo G event =
     (case map_of event ''repo'' of
        Some (JObj r) \<Rightarrow>
          (case map_of r ''name'' of Some v \<Rightarrow> if json_truthy v then Some (text_of G v) else None | None \<Rightarrow> None)
      | _ \<Rightarrow> None)"

definition enrich_event :: "github_world \<Rightarrow> blob \<Rightarrow> dt \<Rightarrow> string \<Rightarrow> string \<Rightarrow> exn + source_payload option" where
  "enrich_event G event ts kind repo =
     (case fetch_repo_meta G repo of
        Inl e \<Rightarrow> Inl e
      | Inr None \<Rightarrow> Inr None
      | Inr (Some JNull) \<Rightarrow> Inr None
      | Inr (Some meta) \<Rightarrow>
          (case fetch_readme G repo of
             Inl e \<Rightarrow> Inl e
           | Inr readme \<Rightarrow>
               map_sum id Some (from_create_event G meta ts kind readme
                 (text_of G (case map_of event ''id'' of Some v \<Rightarrow> v | None \<Rightarrow> JStr [])) (map_of event ''actor''))))"

text \<open>One event: what is yielded for it, if anything.\<close>

definition event_payload :: "github_world \<Rightarrow> bool \<Rightarrow> instant option \<Rightarrow> json \<Rightarrow> exn + source_payload option" where
  "event_payload G include_pushes since item =
     (case item of
        JObj event \<Rightarrow>
          (case parse_ts G (case map_of event ''created_at'' of Some v \<Rightarrow> v | None \<Rightarrow> JStr []) of
             Inl e \<Rightarrow> Inl e
           | Inr None \<Rightarrow> Inr None
           | Inr (Some ts) \<Rightarrow>
               (case not_newer since ts of
                  Inl e \<Rightarrow> Inl e
                | Inr True \<Rightarrow> Inr None
                | Inr False \<Rightarrow>
                    (case (map_of event ''payload'', event_repo G event) of
                       (Some (JObj payload), Some repo) \<Rightarrow>
                         (case surfaced include_pushes event payload of
                            Inl e \<Rightarrow> Inl e
                          | Inr None \<Rightarrow> Inr None
                          | Inr (Some kind) \<Rightarrow> enrich_event G event ts kind repo)
                     | _ \<Rightarrow> Inr None)))
      | _ \<Rightarrow> Inl AttributeError)"

fun event_stream :: "github_world \<Rightarrow> bool \<Rightarrow> instant option \<Rightarrow> json list \<Rightarrow> payload_stream" where
  "event_stream G include_pushes since [] = ([], None)"
| "event_stream G include_pushes since (ev # evs) =
     (case event_payload G include_pushes since ev of
        Inl e \<Rightarrow> ([], Some e)
      | Inr None \<Rightarrow> event_stream G include_pushes since evs
      | Inr (Some pl) \<Rightarrow> (let (pls, err) = event_stream G include_pushes since evs in (pl # pls, err)))"

definition github_events_poll :: "github_world \<Rightarrow> string list \<Rightarrow> bool \<Rightarrow> int \<Rightarrow> instant option \<Rightarrow> payload_stream" where
  "github_events_poll G event_types include_pushes min_stars since =
     (case poll_events G of
        Inl e \<Rightarrow> ([], Some ConnectorParseError)
      | Inr r \<Rightarrow>
          if gr_status r = 304 then ([], None)
          else (case gr_json r of
                  Inl e \<Rightarrow> ([], Some ConnectorParseError)
                | Inr body \<Rightarrow>
                    (case iter_json body of
                       Inl e \<Rightarrow> ([], Some e)
                     | Inr events \<Rightarrow> event_stream G include_pushes since events)))"

subsection \<open>Facts\<close>

text \<open>A failed request is retryable exactly when it is rate limited or the server's fault.\<close>

lemma retryable_statuses:
  "ge_retryable (map_github_error f (Answered r)) \<longleftrightarrow> gr_status r \<in> {403, 429} \<or> 500 \<le> gr_status r"
proof -
  consider "gr_status r \<in> {401, 404, 422}" | "gr_status r \<in> {403, 429}" | "gr_status r \<in> {500, 502, 503, 504}"
    | "gr_status r \<notin> {401, 403, 404, 422, 429, 500, 502, 503, 504}" by blast
  then show ?thesis
    by cases (auto simp: map_github_error_def STATUS_CODES_def RETRYABLE_ACTIONS_def Let_def)
qed

lemma excerpt_bounded: "length (readme_excerpt s) \<le> README_EXCERPT_CHARS"
proof -
  have "length (strip (take n t)) \<le> n" for n t using length_strip[of "take n t"] by simp
  then show ?thesis by (simp add: readme_excerpt_def)
qed

text \<open>A failed search ends the poll in a TypeError, with nothing yielded.\<close>

lemma github_search_failure:
  assumes "case gh_get G ''/search/repositories'' [(''q'', github_query q ms), (''sort'', github_sort_value srt), (''order'', ''desc''),
      (''per_page'', dec_int (min n 100))] of
    Answered r \<Rightarrow> \<not> ok_status (gr_status r) | _ \<Rightarrow> True"
  shows "github_search_poll G q srt ms n since = ([], Some TypeError)"
  using assms by (auto simp: github_search_poll_def search_repositories_def split: github_outcome.splits)

lemma repo_stream_yields:
  "repo_stream G since rs = (pls, err) \<Longrightarrow> pl \<in> set pls \<Longrightarrow>
     not_newer since (pl_occurred pl) = Inr False \<and> pl_source pl = ''github_search''"
proof (induction rs arbitrary: pls)
  case (Cons r rs)
  show ?case
  proof (cases "from_repo G r")
    case (Inr p)
    then have src: "pl_source p = ''github_search''"
      by (auto simp: from_repo_def Let_def split: json.splits sum.splits)
    obtain pls2 err2 where "repo_stream G since rs = (pls2, err2)" by fastforce
    with Inr src Cons.prems Cons.IH[of pls2] show ?thesis by (auto split: sum.splits bool.splits)
  qed (use Cons.prems in simp)
qed simp

text \<open>The radar reads neither the event types nor the least stars of its spec.\<close>

lemma events_ignore_filters:
  "github_events_poll G types pushes stars since = github_events_poll G types' pushes stars' since"
  by (simp add: github_events_poll_def)

text \<open>What the radar surfaces: new repositories, and pushes to any branch when pushes are asked for.\<close>

lemma surfaced_kinds:
  "surfaced pushes event payload = Inr (Some kind) \<Longrightarrow>
     kind = ''create'' \<and> map_of payload ''ref_type'' = Some (JStr ''repository'')
     \<or> kind = ''push'' \<and> pushes \<and> map_of event ''type'' = Some (JStr ''PushEvent'')"
  by (auto simp: surfaced_def split: if_splits option.splits json.splits)

lemma any_branch_surfaces:
  "map_of event ''type'' = Some (JStr ''PushEvent'') \<Longrightarrow> map_of payload ''ref'' = Some (JStr (''refs/heads/'' @ branch)) \<Longrightarrow>
     surfaced True event payload = Inr (Some ''push'')"
  by (simp add: surfaced_def)

lemma from_create_event_key:
  "from_create_event G meta ts kind readme eid actor = Inr pl \<Longrightarrow> pl_source pl = ''github_events'' \<and> pl_occurred pl = ts"
  by (auto simp: from_create_event_def Let_def split: json.splits sum.splits)

lemma map_sum_Inr_iff: "map_sum id f x = Inr y \<longleftrightarrow> (\<exists>z. x = Inr z \<and> y = f z)"
  by (cases x) auto

lemma enrich_event_key:
  "enrich_event G event ts kind repo = Inr (Some pl) \<Longrightarrow> pl_source pl = ''github_events'' \<and> pl_occurred pl = ts"
  unfolding enrich_event_def
  by (auto simp: map_sum_Inr_iff split: sum.splits option.splits json.splits dest: from_create_event_key)

lemma event_payload_yields:
  "event_payload G pushes since ev = Inr (Some pl) \<Longrightarrow>
     not_newer since (pl_occurred pl) = Inr False \<and> pl_source pl = ''github_events''"
  unfolding event_payload_def
  by (auto split: json.splits sum.splits option.splits bool.splits dest!: enrich_event_key)

lemma event_stream_yields:
  "event_stream G pushes since evs = (pls, err) \<Longrightarrow> pl \<in> set pls \<Longrightarrow>
     not_newer since (pl_occurred pl) = Inr False \<and> pl_source pl = ''github_events''"
proof (induction evs arbitrary: pls)
  case (Cons ev evs)
  obtain pls2 err2 where "event_stream G pushes since evs = (pls2, err2)" by fastforce
  with Cons.prems Cons.IH[of pls2] event_payload_yields[of G pushes since ev] show ?case
    by (auto split: sum.splits option.splits)
qed simp

end
