(* ===== verification/Executors.thy ===== *)
theory Executors
  imports Drain_Facts Engines Fetching Source_Specs
begin

text \<open>
  The built-in actions (watches/actions): webhook, log, semantic filter and extract, the preparation
  the two LLM kinds share, the enrichment with the linked article, and the registry of executors.
  An executor's result is \<open>None\<close> when it raises. The preparation also returns the egress it caused.
  \<open>action_world\<close> is what lies outside: HTTP, the LLM client, the payload classes the connectors
  register, Python's \<open>str\<close> of a value and the text of an instant and of a row id.
\<close>

definition ITEM_UNREADABLE :: string where
  "ITEM_UNREADABLE = ''The source item couldn't be read (its stored format is no longer recognized).''"
definition CONFIG_INVALID :: string where
  "CONFIG_INVALID = ''This action's configuration is invalid and can't be run.''"
definition ENGINE_UNAVAILABLE :: string where
  "ENGINE_UNAVAILABLE = ''The configured engine isn't available on this server.''"
definition ENGINE_REJECTED :: string where
  "ENGINE_REJECTED = ''The LLM rejected the request as misconfigured (verify ENGINE_BASE_URL, ENGINE_MODEL, and ENGINE_API_KEY on the server).''"
definition WEBHOOK_BLOCKED :: string where
  "WEBHOOK_BLOCKED = ''The webhook destination is not allowed by server policy.''"
definition WEBHOOK_REJECTED :: string where
  "WEBHOOK_REJECTED = ''The webhook endpoint rejected the request (check the URL and credentials).''"
definition WEBHOOK_REDIRECT :: string where
  "WEBHOOK_REDIRECT = ''The webhook endpoint returned a redirect; point the URL at its final destination.''"

record action_world =
  web_at :: "nat \<Rightarrow> web"
  llm_of :: llm
  http_send :: "nat \<Rightarrow> string \<Rightarrow> string \<Rightarrow> json \<Rightarrow> (string \<times> string) list \<Rightarrow> exn + int"
  payload_classes :: "string \<times> string \<Rightarrow> (blob \<Rightarrow> hydrated option) option"
  str_of :: "json \<Rightarrow> string"
  isoformat :: "instant \<Rightarrow> string"
  ulid_text :: "ulid \<Rightarrow> string"

text \<open>\<open>load_typed\<close>: only a ValidationError becomes an invalid config, the rest is raised.\<close>

datatype loaded = Loaded action_config | Invalid | Load_Raises

definition load_typed :: "env \<Rightarrow> (action_config \<Rightarrow> bool) \<Rightarrow> watch_action \<Rightarrow> loaded" where
  "load_typed E expected action =
     (case load_config E action of
        Inl ValidationError \<Rightarrow> Invalid
      | Inl _ \<Rightarrow> Load_Raises
      | Inr c \<Rightarrow> if expected c then Loaded c else Load_Raises)"

subsection \<open>Webhook\<close>

record webhook_payload =
  wp_watch_id :: ulid
  wp_watch_name :: string
  wp_action_id :: ulid
  wp_delivery :: delivery_cadence
  wp_window :: "(instant \<times> instant) option"
  wp_items :: "(string \<times> string \<times> string \<times> blob) list"

definition filtered_item :: "blob \<Rightarrow> string list \<Rightarrow> blob" where
  "filtered_item item_data inc =
     (if inc = [] then item_data
      else fold (\<lambda>k acc. case map_of item_data k of Some v \<Rightarrow> AList.update k v acc | None \<Rightarrow> acc) inc [])"

definition build_payload :: "watch_action \<Rightarrow> string list \<Rightarrow> action_item list \<Rightarrow> action_context \<Rightarrow> webhook_payload" where
  "build_payload action inc items cx =
     \<lparr>wp_watch_id = cx_watch_id cx, wp_watch_name = cx_watch_name cx, wp_action_id = a_id action,
      wp_delivery = cx_delivery cx,
      wp_window = (case (cx_since cx, cx_until cx) of (Some s, Some t) \<Rightarrow> Some (s, t) | _ \<Rightarrow> None),
      wp_items = map (\<lambda>it. (ai_key it, ai_source_label it, ai_source_kind it, filtered_item (ai_data it) inc)) items\<rparr>"

definition payload_dump :: "action_world \<Rightarrow> webhook_payload \<Rightarrow> blob" where
  "payload_dump A p =
     [(''watch'', JObj [(''id'', JStr (ulid_text A (wp_watch_id p))), (''name'', JStr (wp_watch_name p))]),
      (''action_id'', JStr (ulid_text A (wp_action_id p))),
      (''delivery'', JStr (cadence_value (wp_delivery p))),
      (''window'', case wp_window p of None \<Rightarrow> JNull
         | Some (s, t) \<Rightarrow> JObj [(''since'', JStr (isoformat A s)), (''until'', JStr (isoformat A t))]),
      (''items'', JArr (map (\<lambda>(key, label, kind, item).
         JObj [(''key'', JStr key), (''source'', JObj [(''label'', JStr label), (''kind'', JStr kind)]),
               (''item'', JObj item)]) (wp_items p)))]"

definition RETRYABLE_4XX :: "int set" where
  "RETRYABLE_4XX = {408, 429}"

definition webhook_result :: "int \<Rightarrow> blob" where
  "webhook_result st = [(''http_status'', JNum st)]"

definition classify_status :: "int \<Rightarrow> outbound_call \<Rightarrow> action_result" where
  "classify_status st call =
     (if 300 \<le> st \<and> st < 400 then OutboundActionResult ERRORED (webhook_result st) WEBHOOK_REDIRECT call
      else if 400 \<le> st \<and> st < 500 \<and> st \<notin> RETRYABLE_4XX
      then OutboundActionResult ERRORED (webhook_result st) WEBHOOK_REJECTED call
      else OutboundActionResult FAILED [] TRANSIENT call)"

definition webhook_deliver :: "action_world \<Rightarrow> env \<Rightarrow> nat \<Rightarrow> string \<Rightarrow> webhook_method \<Rightarrow> (string \<times> string) list
    \<Rightarrow> nat \<Rightarrow> blob \<Rightarrow> action_result option" where
  "webhook_deliver A E n u m hs item_total body =
     (case urlsplit u of
        Inl _ \<Rightarrow> None
      | Inr parts \<Rightarrow>
          (let call = (\<lambda>st. \<lparr>oc_host = (case hostname parts of Some h \<Rightarrow> h | None \<Rightarrow> []), oc_method = method_value m,
                             oc_status = st, oc_item_count = item_total, oc_payload = body\<rparr>)
           in case snd (destination_block_reason (getaddrinfo (web_at A n)) (WEBHOOK_REQUIRE_HTTPS E)
                     (WEBHOOK_BLOCK_PRIVATE_IPS E) True u []) of
                Inl _ \<Rightarrow> None
              | Inr (Some _) \<Rightarrow> Some (OutboundActionResult ERRORED [] WEBHOOK_BLOCKED (call None))
              | Inr None \<Rightarrow>
                  (case http_send A n (method_value m) u (JObj body) hs of
                     Inl HTTPError \<Rightarrow> Some (OutboundActionResult FAILED [] TRANSIENT (call None))
                   | Inl _ \<Rightarrow> None
                   | Inr st \<Rightarrow>
                       Some (if 200 \<le> st \<and> st < 300
                             then OutboundActionResult SUCCEEDED (webhook_result st) [] (call (Some st))
                             else classify_status st (call (Some st))))))"

definition webhook_run :: "action_world \<Rightarrow> env \<Rightarrow> executor" where
  "webhook_run A E n action items cx =
     (case load_typed E (\<lambda>c. case c of WebhookConfig _ _ _ _ _ _ \<Rightarrow> True | _ \<Rightarrow> False) action of
        Invalid \<Rightarrow> Some (ActionResult ERRORED [] CONFIG_INVALID)
      | Loaded (WebhookConfig d i u m hs inc) \<Rightarrow>
          webhook_deliver A E n u m hs (length items) (payload_dump A (build_payload action inc items cx))
      | _ \<Rightarrow> None)"

subsection \<open>Log\<close>

fun join_with :: "string \<Rightarrow> string list \<Rightarrow> string" where
  "join_with sep [] = []"
| "join_with sep [w] = w"
| "join_with sep (w # v # ws) = w @ sep @ join_with sep (v # ws)"

definition render_log :: "action_world \<Rightarrow> string \<Rightarrow> string list \<Rightarrow> blob \<Rightarrow> string" where
  "render_log A pfx inc item_data =
     (let fs = (if inc \<noteq> [] then inc else map fst item_data);
          shown = join_with '' | '' (concat (map (\<lambda>f. case map_of item_data f of
                    Some v \<Rightarrow> if json_truthy v then [f @ ''='' @ str_of A v] else [] | None \<Rightarrow> []) fs))
      in rev (dropWhile is_space (rev (pfx @ '' '' @ shown))))"

definition log_run :: "action_world \<Rightarrow> env \<Rightarrow> executor" where
  "log_run A E n action items cx =
     (case load_typed E (\<lambda>c. case c of LogConfig _ _ _ _ \<Rightarrow> True | _ \<Rightarrow> False) action of
        Invalid \<Rightarrow> Some (ActionResult ERRORED [] CONFIG_INVALID)
      | Loaded (LogConfig d i pfx inc) \<Rightarrow>
          (let rendered = (case items of
                 [it] \<Rightarrow> render_log A pfx inc (ai_data it)
               | _ \<Rightarrow> pfx @ '' digest of '' @ dec (length items) @ '':'' @ NL
                      @ join_lines (map (\<lambda>(i, it). render_log A pfx inc (ai_data it) @ '' ('' @ dec (i + 1) @ ''/''
                          @ dec (length items) @ '')'') (enumerate 0 items)))
           in Some (ActionResult SUCCEEDED [(''rendered'', JStr rendered)] []))
      | _ \<Rightarrow> None)"

subsection \<open>The linked article\<close>

datatype external_content_status =
    NOT_APPLICABLE | DISABLED | INCLUDED | INCLUDED_VIA_FALLBACK | UNAVAILABLE | MISSING

fun external_status_value :: "external_content_status \<Rightarrow> string" where
  "external_status_value NOT_APPLICABLE = ''not_applicable''"
| "external_status_value DISABLED = ''disabled''"
| "external_status_value INCLUDED = ''included''"
| "external_status_value INCLUDED_VIA_FALLBACK = ''included_via_fallback''"
| "external_status_value UNAVAILABLE = ''unavailable''"
| "external_status_value MISSING = ''missing''"

definition challenge_fallback :: "web \<Rightarrow> string \<Rightarrow> egress list \<Rightarrow> egress list \<times> (exn + string option)" where
  "challenge_fallback W u sent =
     (if CHALLENGE_BYPASS_URL W = [] \<or> \<not> is_fetchable_web_url u then (sent, Inr None)
      else case destination_block_reason (getaddrinfo W) False True True u sent of
             (sent1, Inl e) \<Rightarrow> (sent1, Inl e)
           | (sent1, Inr (Some _)) \<Rightarrow> (sent1, Inr None)
           | (sent1, Inr None) \<Rightarrow>
               (case challenge_bypass_fetch W FETCH_DEFAULT_MAX_BYTES u sent1 of
                  (sent2, Inl e) \<Rightarrow> (sent2, Inl e)
                | (sent2, Inr None) \<Rightarrow> (sent2, Inr None)
                | (sent2, Inr (Some html)) \<Rightarrow>
                    (let text = extract_article_text W html in (sent2, Inr (if text = [] then None else Some text)))))"

text \<open>The expected failures of the direct fetch.\<close>

definition FETCH_ERRORS :: "exn set" where
  "FETCH_ERRORS = {HTTPError, InvalidURL, ConnectorParseError}"

definition with_fallback :: "web \<Rightarrow> string \<Rightarrow> external_content_status \<Rightarrow> egress list
    \<Rightarrow> egress list \<times> (exn + string option \<times> external_content_status)" where
  "with_fallback W u st sent =
     (case challenge_fallback W u sent of
        (sent1, Inl e) \<Rightarrow> (sent1, Inl e)
      | (sent1, Inr (Some text)) \<Rightarrow> (sent1, Inr (Some text, INCLUDED_VIA_FALLBACK))
      | (sent1, Inr None) \<Rightarrow> (sent1, Inr (None, st)))"

definition resolve_external_content :: "web \<Rightarrow> bool \<Rightarrow> string \<Rightarrow> egress list
    \<Rightarrow> egress list \<times> (exn + string option \<times> external_content_status)" where
  "resolve_external_content W enabled u sent =
     (if \<not> enabled then (sent, Inr (None, DISABLED))
      else if u = [] then (sent, Inr (None, NOT_APPLICABLE))
      else case fetch_url_safely W FETCH_DEFAULT_MAX_BYTES u sent of
             (sent1, Inl e) \<Rightarrow> if e \<in> FETCH_ERRORS then with_fallback W u UNAVAILABLE sent1 else (sent1, Inl e)
           | (sent1, Inr html) \<Rightarrow>
               (let text = extract_article_text W html
                in if text \<noteq> [] then (sent1, Inr (Some text, INCLUDED)) else with_fallback W u MISSING sent1))"

subsection \<open>The preparation of the LLM actions\<close>

definition hydrate_data :: "action_world \<Rightarrow> blob \<Rightarrow> hydrated option" where
  "hydrate_data A item =
     (let get = (\<lambda>k. str_of A (case map_of item k of Some v \<Rightarrow> v | None \<Rightarrow> JNull))
      in case payload_classes A (get ''source'', get ''kind'') of
           None \<Rightarrow> None
         | Some cls \<Rightarrow> cls item)"

datatype prepared =
    Prepared action_config hydrated "string option" external_content_status
  | Defect action_result
  | Raises

text \<open>The enrichment comes last; what it raises is raised.\<close>

definition enrich_and_prepare :: "action_world \<Rightarrow> nat \<Rightarrow> action_config \<Rightarrow> hydrated \<Rightarrow> bool \<Rightarrow> egress list \<times> prepared" where
  "enrich_and_prepare A n c payload fetch =
     (case resolve_external_content (web_at A n) fetch (hp_article_url payload) [] of
        (sent, Inl _) \<Rightarrow> (sent, Raises)
      | (sent, Inr (content, st)) \<Rightarrow> (sent, Prepared c payload content st))"

definition engine_prepare :: "action_world \<Rightarrow> env \<Rightarrow> nat \<Rightarrow> watch_action \<Rightarrow> action_item list \<Rightarrow> egress list \<times> prepared" where
  "engine_prepare A E n action items =
     (case items of
        [it] \<Rightarrow>
          (case load_typed E (\<lambda>c. engine_base c \<noteq> None) action of
             Invalid \<Rightarrow> ([], Defect (ActionResult ERRORED [] CONFIG_INVALID))
           | Load_Raises \<Rightarrow> ([], Raises)
           | Loaded c \<Rightarrow>
               (case hydrate_data A (ai_data it) of
                  None \<Rightarrow> ([], Defect (ActionResult ERRORED [] ITEM_UNREADABLE))
                | Some payload \<Rightarrow>
                    if engine_get (engine_kind (the (engine_base c))) \<noteq> Inr ()
                    then ([], Defect (ActionResult ERRORED [] ENGINE_UNAVAILABLE))
                    else (case c of
                            SemanticFilterConfig _ fetch _ _ \<Rightarrow> enrich_and_prepare A n c payload fetch
                          | ExtractConfig _ fetch _ _ \<Rightarrow> enrich_and_prepare A n c payload fetch
                          | _ \<Rightarrow> ([], Raises))))
      | _ \<Rightarrow> ([], Raises))"

subsection \<open>Semantic filter and extract\<close>

definition model_override :: "engine_spec \<Rightarrow> string option" where
  "model_override e = (if engine_model e = [] then None else Some (engine_model e))"

definition semantic_filter_run :: "action_world \<Rightarrow> env \<Rightarrow> executor" where
  "semantic_filter_run A E n action items cx =
     (case snd (engine_prepare A E n action items) of
        Raises \<Rightarrow> None
      | Defect out \<Rightarrow> Some out
      | Prepared (SemanticFilterConfig e _ ins thr) payload content st \<Rightarrow>
          (case judge (llm_of A) n payload ins (model_override e) content of
             Inl (Request_Rejected _) \<Rightarrow> Some (ActionResult ERRORED [] ENGINE_REJECTED)
           | Inl (Propagated _) \<Rightarrow> None
           | Inr (score, reason) \<Rightarrow>
               if score < 0 \<or> 1 < score then None
               else Some (ActionResult (if thr \<le> score then SUCCEEDED else GATED)
                     [(''passed'', JBool (thr \<le> score)), (''score'', JFloat score), (''reason'', JStr reason),
                      (''enrichment_status'', JStr (external_status_value st))] []))
      | Prepared _ _ _ _ \<Rightarrow> None)"

datatype extract_status = COMPLETE | PARTIAL | EMPTY

fun extract_status_value :: "extract_status \<Rightarrow> string" where
  "extract_status_value COMPLETE = ''complete''"
| "extract_status_value PARTIAL = ''partial''"
| "extract_status_value EMPTY = ''empty''"

definition filled_fields :: "(string \<times> string) list \<Rightarrow> extract_field list \<Rightarrow> nat" where
  "filled_fields extracted fs =
     count_where (\<lambda>f. strip (case map_of extracted (field_name f) of Some v \<Rightarrow> v | None \<Rightarrow> []) \<noteq> []) fs"

definition extract_status_of :: "(string \<times> string) list \<Rightarrow> extract_field list \<Rightarrow> extract_status" where
  "extract_status_of extracted fs =
     (let filled = filled_fields extracted fs
      in if filled = 0 then EMPTY else if filled = length fs then COMPLETE else PARTIAL)"

definition extract_run :: "action_world \<Rightarrow> env \<Rightarrow> executor" where
  "extract_run A E n action items cx =
     (case snd (engine_prepare A E n action items) of
        Raises \<Rightarrow> None
      | Defect out \<Rightarrow> Some out
      | Prepared (ExtractConfig e _ fs ins) payload content st \<Rightarrow>
          (case extract_fields (llm_of A) n payload fs ins (model_override e) content of
             Inl (Request_Rejected _) \<Rightarrow> Some (ActionResult ERRORED [] ENGINE_REJECTED)
           | Inl (Propagated _) \<Rightarrow> None
           | Inr extracted \<Rightarrow>
               Some (ActionResult SUCCEEDED
                 [(''extracted'', JObj (map (\<lambda>(k, v). (k, JStr v)) extracted)),
                  (''status'', JStr (extract_status_value (extract_status_of extracted fs))),
                  (''enrichment_status'', JStr (external_status_value st))] []))
      | Prepared _ _ _ _ \<Rightarrow> None)"

subsection \<open>The registry\<close>

definition builtin_executor :: "action_world \<Rightarrow> env \<Rightarrow> string \<Rightarrow> executor option" where
  "builtin_executor A E kind =
     (if kind = kind_value SEMANTIC_FILTER then Some (semantic_filter_run A E)
      else if kind = kind_value EXTRACT then Some (extract_run A E)
      else if kind = kind_value WEBHOOK then Some (webhook_run A E)
      else if kind = kind_value LOG then Some (log_run A E)
      else None)"

definition reject_bad_plugin_kind :: "string \<Rightarrow> string set \<Rightarrow> bool" where
  "reject_bad_plugin_kind kind builtin_kinds \<longleftrightarrow>
     kind = [] \<or> kind \<noteq> strip kind \<or> kind \<in> builtin_kinds \<or> KIND_MAX_LENGTH < length kind"

text \<open>\<open>register\<close>; equal implementations are of one class.\<close>

definition register_action_impl :: "string \<Rightarrow> 'impl \<Rightarrow> (string \<times> 'impl) list \<Rightarrow> exn + (string \<times> 'impl) list" where
  "register_action_impl kind impl reg =
     (if reject_bad_plugin_kind kind BUILTIN_ACTION_KINDS then Inl ValueError
      else if (case map_of reg kind of Some other \<Rightarrow> other \<noteq> impl | None \<Rightarrow> False) then Inl ValueError
      else Inr (AList.update kind impl reg))"

text \<open>The environment whose executors are the built-in ones and, for the other kinds, the plugins'.\<close>

definition with_builtins :: "action_world \<Rightarrow> env \<Rightarrow> env" where
  "with_builtins A E =
     E\<lparr>executor_of := (\<lambda>kind. case builtin_executor A E kind of Some x \<Rightarrow> Some x | None \<Rightarrow> executor_of E kind)\<rparr>"

subsection \<open>Outcomes\<close>

lemma load_typed_cases:
  "load_typed E P action = Loaded c \<longleftrightarrow> load_config E action = Inr c \<and> P c"
  "load_typed E P action = Invalid \<longleftrightarrow> load_config E action = Inl ValidationError"
  by (auto simp: load_typed_def split: sum.splits exn.splits if_splits)

lemma classify_state: "res_state (classify_status st call) \<in> {ERRORED, FAILED}"
  by (simp add: classify_status_def)

lemma webhook_states: "webhook_run A E n a items cx = Some out \<Longrightarrow> res_state out \<in> {SUCCEEDED, ERRORED, FAILED}"
  using classify_state by (auto simp: webhook_run_def webhook_deliver_def Let_def
      split: loaded.splits action_config.splits sum.splits option.splits exn.splits if_splits)

lemma log_states: "log_run A E n a items cx = Some out \<Longrightarrow> res_state out \<in> {SUCCEEDED, ERRORED}"
  by (auto simp: log_run_def Let_def split: loaded.splits action_config.splits)

lemma enrich_no_defect: "snd (enrich_and_prepare A n c payload fetch) \<noteq> Defect out"
  by (auto simp: enrich_and_prepare_def split: prod.splits sum.splits)

lemma prepare_defects:
  "snd (engine_prepare A E n a items) = Defect out \<Longrightarrow> \<exists>err. out = ActionResult ERRORED [] err"
  by (auto simp: engine_prepare_def enrich_no_defect split: list.splits loaded.splits option.splits if_splits
      action_config.splits)

lemma filter_states: "semantic_filter_run A E n a items cx = Some out \<Longrightarrow> res_state out \<in> {SUCCEEDED, GATED, ERRORED}"
  by (auto simp: semantic_filter_run_def split: prepared.splits action_config.splits sum.splits
      engine_failure.splits if_splits dest!: prepare_defects)

lemma extract_states: "extract_run A E n a items cx = Some out \<Longrightarrow> res_state out \<in> {SUCCEEDED, ERRORED}"
  by (auto simp: extract_run_def split: prepared.splits action_config.splits sum.splits
      engine_failure.splits dest!: prepare_defects)

lemma builtin_executor_Some:
  assumes "builtin_executor A E k = Some impl" and "impl n a items cx = Some out"
  shows "res_state out \<notin> BACKLOG_STATES"
  using assms webhook_states[of A E n a items cx out] log_states[of A E n a items cx out]
    filter_states[of A E n a items cx out] extract_states[of A E n a items cx out]
  by (auto simp: builtin_executor_def split: if_splits)

lemma builtin_executor_kinds: "builtin_executor A E k \<noteq> None \<longleftrightarrow> k \<in> BUILTIN_ACTION_KINDS"
  by (auto simp: builtin_executor_def BUILTIN_ACTION_KINDS_def all_kinds_def)

text \<open>The built-in actions meet the contract the passes rely on.\<close>

lemma with_builtins_outcomes:
  assumes "\<And>k impl n a items cx out. k \<notin> BUILTIN_ACTION_KINDS \<Longrightarrow> executor_of E k = Some impl \<Longrightarrow>
    impl n a items cx = Some out \<Longrightarrow> res_state out \<notin> BACKLOG_STATES"
  shows "outcomes (with_builtins A E)"
  unfolding outcomes_def
proof (intro allI impI)
  fix k impl n a items cx out
  assume impl: "executor_of (with_builtins A E) k = Some impl" and out: "impl n a items cx = Some out"
  show "res_state out \<notin> BACKLOG_STATES"
  proof (cases "builtin_executor A E k")
    case None
    with impl have "executor_of E k = Some impl" by (simp add: with_builtins_def)
    moreover from None have "k \<notin> BUILTIN_ACTION_KINDS" using builtin_executor_kinds[of A E k] by simp
    ultimately show ?thesis using assms out by blast
  next
    case (Some x)
    with impl have "builtin_executor A E k = Some impl" by (simp add: with_builtins_def)
    with out show ?thesis by (rule builtin_executor_Some[rotated])
  qed
qed

text \<open>Registering a plugin never touches the kinds already there, and never takes a built-in one.\<close>

lemma register_action_impl_Inr:
  assumes "register_action_impl kind impl reg = Inr reg'"
  shows "map_of reg' = (map_of reg)(kind \<mapsto> impl)" "kind \<notin> BUILTIN_ACTION_KINDS"
    "\<forall>k. map_of reg k \<noteq> None \<longrightarrow> map_of reg' k = map_of reg k"
  using assms by (auto simp: register_action_impl_def reject_bad_plugin_kind_def update_conv split: if_splits option.splits)

subsection \<open>The outcome of a delivery\<close>

text \<open>The state of a run whose call was answered with a status.\<close>

definition delivered_state :: "int \<Rightarrow> watch_run_state" where
  "delivered_state code =
     (if 200 \<le> code \<and> code < 300 then SUCCEEDED
      else if 300 \<le> code \<and> code < 500 \<and> code \<noteq> 408 \<and> code \<noteq> 429 then ERRORED else FAILED)"

lemma webhook_outcome:
  assumes "load_config E a = Inr (WebhookConfig d i u m hs inc)" "webhook_run A E n a items cx = Some out"
  defines "body \<equiv> payload_dump A (build_payload a inc items cx)"
  shows "case out of
      ActionResult st res err \<Rightarrow> False
    | OutboundActionResult st res err c \<Rightarrow>
        oc_item_count c = length items \<and> oc_payload c = body
        \<and> (if snd (destination_block_reason (getaddrinfo (web_at A n)) (WEBHOOK_REQUIRE_HTTPS E) (WEBHOOK_BLOCK_PRIVATE_IPS E) True u []) \<noteq> Inr None
           then st = ERRORED \<and> oc_status c = None
           else case http_send A n (method_value m) u (JObj body) hs of
                  Inl e \<Rightarrow> e = HTTPError \<and> st = FAILED \<and> oc_status c = None
                | Inr code \<Rightarrow> st = delivered_state code \<and> oc_status c = Some code)"
proof -
  have "load_typed E (\<lambda>c. case c of WebhookConfig _ _ _ _ _ _ \<Rightarrow> True | _ \<Rightarrow> False) a = Loaded (WebhookConfig d i u m hs inc)"
    using assms(1) by (simp add: load_typed_def)
  with assms(2) have deliver: "webhook_deliver A E n u m hs (length items) body = Some out"
    by (simp add: webhook_run_def body_def)
  show ?thesis
  proof (cases "http_send A n (method_value m) u (JObj body) hs")
    case (Inl e)
    with deliver show ?thesis
      by (auto simp: webhook_deliver_def Let_def split: sum.splits option.splits exn.splits)
  next
    case (Inr code)
    with deliver show ?thesis
      by (auto simp: webhook_deliver_def classify_status_def delivered_state_def RETRYABLE_4XX_def Let_def
          split: sum.splits option.splits)
  qed
qed

subsection \<open>Egress\<close>

lemma challenge_cleared: "cleared sent \<Longrightarrow> cleared (fst (challenge_fallback W u sent))"
proof -
  assume ok: "cleared sent"
  obtain sent1 res where d: "destination_block_reason (getaddrinfo W) False True True u sent = (sent1, res)" by fastforce
  have ok1: "cleared sent1" using destination_log[of "getaddrinfo W" False True True u sent] d ok by auto
  have clear: "destination_clear u sent1" if "res = Inr None" using destination_clears d that by blast
  from ok ok1 clear challenge_bypass_asks[of W FETCH_DEFAULT_MAX_BYTES u sent1] d show ?thesis
    by (auto simp: challenge_fallback_def Let_def split: sum.splits option.splits prod.splits)
qed

lemma with_fallback_cleared: "cleared sent \<Longrightarrow> cleared (fst (with_fallback W u st sent))"
  using challenge_cleared[of sent W u] by (auto simp: with_fallback_def split: prod.splits sum.splits option.splits)

lemma enrichment_cleared: "cleared sent \<Longrightarrow> cleared (fst (resolve_external_content W enabled u sent))"
proof -
  assume ok: "cleared sent"
  obtain sent1 res where f: "fetch_url_safely W FETCH_DEFAULT_MAX_BYTES u sent = (sent1, res)" by force
  have "cleared sent1" using fetch_url_safely_cleared[OF ok, of W FETCH_DEFAULT_MAX_BYTES u] f by simp
  with ok f show ?thesis
    by (auto simp: resolve_external_content_def Let_def with_fallback_cleared split: sum.splits)
qed

lemma enrich_and_prepare_cleared: "cleared (fst (enrich_and_prepare A n c payload fetch))"
  using enrichment_cleared[of "[]" "web_at A n" fetch "hp_article_url payload"]
  by (auto simp: enrich_and_prepare_def split: prod.splits sum.splits)

lemma prepare_cleared: "cleared (fst (engine_prepare A E n a items))"
  by (auto simp: engine_prepare_def enrich_and_prepare_cleared split: list.splits loaded.splits option.splits if_splits
      action_config.splits)

text \<open>What a text that reaches the model is: the article the direct fetch had, or the sidecar's.\<close>

lemma enrichment_text:
  assumes "snd (resolve_external_content W enabled u sent) = Inr (Some text, st)"
  shows "enabled" "u \<noteq> []" "text \<noteq> []" "length text \<le> 20000" "st = INCLUDED \<or> st = INCLUDED_VIA_FALLBACK"
  using assms article_bounded[of W]
  by (auto simp: resolve_external_content_def with_fallback_def challenge_fallback_def Let_def
      split: if_splits sum.splits prod.splits option.splits)

lemma article_of_pair:
  "resolve_external_content W enabled u sent = (t, Inr (Some text, st)) \<Longrightarrow> text \<noteq> [] \<and> length text \<le> 20000"
  using enrichment_text(3,4)[of W enabled u sent "text" st] by simp

lemma prepare_text:
  "snd (engine_prepare A E n a items) = Prepared c p (Some text) st \<Longrightarrow> text \<noteq> [] \<and> length text \<le> 20000"
  by (auto simp: engine_prepare_def enrich_and_prepare_def split: list.splits loaded.splits option.splits if_splits
      action_config.splits prod.splits sum.splits dest: article_of_pair)

lemma enrichment_off: "resolve_external_content W False u sent = (sent, Inr (None, DISABLED))"
  by (simp add: resolve_external_content_def)

subsection \<open>The statuses of an extraction\<close>

lemma filled_le: "filled_fields extracted fs \<le> length fs"
  by (simp add: filled_fields_def count_where_def)

lemma extract_status_iff:
  assumes "fs \<noteq> []"
  shows "extract_status_of extracted fs = COMPLETE \<longleftrightarrow>
      (\<forall>f \<in> set fs. strip (case map_of extracted (field_name f) of Some v \<Rightarrow> v | None \<Rightarrow> []) \<noteq> [])"
    and "extract_status_of extracted fs = EMPTY \<longleftrightarrow>
      (\<forall>f \<in> set fs. strip (case map_of extracted (field_name f) of Some v \<Rightarrow> v | None \<Rightarrow> []) = [])"
proof -
  have all: "count_where P fs = length fs \<longleftrightarrow> (\<forall>f \<in> set fs. P f)" for P :: "extract_field \<Rightarrow> bool"
    by (simp add: count_where_def) (metis filter_id_conv length_filter_less less_irrefl filter_True)
  show "extract_status_of extracted fs = COMPLETE \<longleftrightarrow>
      (\<forall>f \<in> set fs. strip (case map_of extracted (field_name f) of Some v \<Rightarrow> v | None \<Rightarrow> []) \<noteq> [])"
    using assms all by (auto simp: extract_status_of_def filled_fields_def Let_def count_where_0)
  show "extract_status_of extracted fs = EMPTY \<longleftrightarrow>
      (\<forall>f \<in> set fs. strip (case map_of extracted (field_name f) of Some v \<Rightarrow> v | None \<Rightarrow> []) = [])"
    by (auto simp: extract_status_of_def filled_fields_def Let_def count_where_0)
qed

end
