(* ===== verification/Connectors.thy ===== *)
theory Connectors
  imports Polling Rss_Connector Github_Connectors Executors
begin

text \<open>
  The connector registry (sources/registry.py, sources/payload\_registry.py): the built-in connectors
  behind the interface a poll calls, the registration of a plugin's source kind, and what the poll of
  a source makes of what each connector yields. The outside of the connectors may differ at every
  call of a poll, so it is given by the number of the call.
\<close>

record connector_world =
  cw_reddit :: "nat \<Rightarrow> reddit_world"
  cw_rss :: "nat \<Rightarrow> rss_world"
  cw_hn :: "nat \<Rightarrow> hn_world"
  cw_twitter :: "nat \<Rightarrow> twitter_world"
  cw_github :: "nat \<Rightarrow> github_world"

fun builtin_poll :: "connector_world \<Rightarrow> source_spec \<Rightarrow> instant \<Rightarrow> (string \<times> string) list \<Rightarrow> nat \<Rightarrow> stream" where
  "builtin_poll W (RedditSubredditSourceSpec sub) since fm n = reddit_poll (cw_reddit W n) sub (Some since)"
| "builtin_poll W (RssSourceSpec u nm) since fm n = snd (rss_poll (cw_rss W n) u (Some since) fm)"
| "builtin_poll W (HackerNewsFeedSourceSpec q m fd) since fm n = hn_feed_poll (cw_hn W n) q m fd (Some since)"
| "builtin_poll W (HackerNewsCommentSourceSpec q m) since fm n = hn_comment_poll (cw_hn W n) q m (Some since)"
| "builtin_poll W (TwitterSearchSourceSpec q mode cnt lang) since fm n = twitter_poll (cw_twitter W n) q mode cnt lang (Some since)"
| "builtin_poll W (GitHubSearchSourceSpec q srt stars cnt) since fm n =
     github_search_poll (cw_github W n) q srt stars cnt (Some since)"
| "builtin_poll W (GitHubEventsSourceSpec types pushes stars) since fm n =
     github_events_poll (cw_github W n) types pushes stars (Some since)"
| "builtin_poll W (PluginSourceSpec kind extra) since fm n = ([], Some KeyError)"

text \<open>The poll environment with the built-in connectors; the other kinds are the plugins'.\<close>

definition with_connectors :: "connector_world \<Rightarrow> poll_env \<Rightarrow> poll_env" where
  "with_connectors W P =
     P\<lparr>connector_of := (\<lambda>kind. if kind \<in> BUILTIN_SOURCE_KINDS then Some (builtin_poll W) else connector_of P kind),
       reddit_combined := Some (\<lambda>subs since n. poll_combined (cw_reddit W n) subs since)\<rparr>"

subsection \<open>Registration\<close>

record payload_class =
  pc_name :: string
  pc_kind :: string
  pc_has_sample :: bool

record plugin_connector =
  pg_kind :: string
  pg_class :: string
  pg_payloads :: "payload_class list"

record source_registries =
  sr_connectors :: "(string \<times> plugin_connector) list"
  sr_payloads :: "((string \<times> string) \<times> payload_class) list"

definition valid_payloads :: "payload_class list \<Rightarrow> bool" where
  "valid_payloads pcs \<longleftrightarrow> list_all (\<lambda>p. pc_has_sample p \<and> pc_kind p \<noteq> []) pcs"

definition register_payloads :: "string \<Rightarrow> payload_class list \<Rightarrow> source_registries \<Rightarrow> (exn + unit) \<times> source_registries" where
  "register_payloads source pcs r =
     (if \<not> valid_payloads pcs then (Inl TypeError, r)
      else (Inr (), r\<lparr>sr_payloads := fold (\<lambda>p reg. AList.update (source, pc_kind p) p reg) pcs (sr_payloads r)\<rparr>))"

definition register_connector :: "plugin_connector \<Rightarrow> source_registries \<Rightarrow> (exn + unit) \<times> source_registries" where
  "register_connector c r =
     (if reject_bad_plugin_kind (pg_kind c) BUILTIN_SOURCE_KINDS then (Inl ValueError, r)
      else if (case map_of (sr_connectors r) (pg_kind c) of Some other \<Rightarrow> pg_class other \<noteq> pg_class c | None \<Rightarrow> False)
      then (Inl ValueError, r)
      else (Inr (), r\<lparr>sr_connectors := AList.update (pg_kind c) c (sr_connectors r)\<rparr>))"

definition register_source :: "plugin_connector \<Rightarrow> source_registries \<Rightarrow> (exn + unit) \<times> source_registries" where
  "register_source c r =
     (if \<not> valid_payloads (pg_payloads c) then (Inl TypeError, r)
      else case register_connector c r of
             (Inl e, r1) \<Rightarrow> (Inl e, r1)
           | (Inr _, r1) \<Rightarrow> register_payloads (pg_kind c) (pg_payloads c) r1)"

definition class_for_source :: "string \<Rightarrow> source_registries \<Rightarrow> payload_class option" where
  "class_for_source source r = map_option snd (find (\<lambda>((s, k), p). s = source) (sr_payloads r))"

text \<open>A registration that raises changes neither registry; one that succeeds leaves no half behind.\<close>

lemma register_source_atomic:
  assumes "register_source c r = (res, r')"
  shows "res \<noteq> Inr () \<Longrightarrow> r' = r"
    and "res = Inr () \<Longrightarrow> map_of (sr_connectors r') (pg_kind c) = Some c
      \<and> (\<forall>p \<in> set (pg_payloads c). map_of (sr_payloads r') (pg_kind c, pc_kind p) \<noteq> None)"
proof -
  have fold_keys: "k \<in> fst ` set (fold (\<lambda>p reg. AList.update (s, pc_kind p) p reg) pcs reg) \<longleftrightarrow>
      k \<in> fst ` set reg \<or> (\<exists>p \<in> set pcs. k = (s, pc_kind p))" for k s pcs reg
    by (induction pcs arbitrary: reg) (auto simp: dom_update)
  show "res \<noteq> Inr () \<Longrightarrow> r' = r"
    using assms
    by (auto simp: register_source_def register_connector_def register_payloads_def split: if_splits option.splits)
  show "res = Inr () \<Longrightarrow> map_of (sr_connectors r') (pg_kind c) = Some c
      \<and> (\<forall>p \<in> set (pg_payloads c). map_of (sr_payloads r') (pg_kind c, pc_kind p) \<noteq> None)"
    using assms
    by (auto simp: register_source_def register_connector_def register_payloads_def update_conv map_of_eq_None_iff fold_keys
        split: if_splits option.splits)
qed

text \<open>No registration takes a kind of the core.\<close>

lemma register_source_kinds:
  assumes "register_source c r = (res, r')" "fst ` set (sr_connectors r) \<inter> BUILTIN_SOURCE_KINDS = {}"
  shows "fst ` set (sr_connectors r') \<inter> BUILTIN_SOURCE_KINDS = {}"
proof -
  have "sr_connectors r' = sr_connectors r
      \<or> sr_connectors r' = AList.update (pg_kind c) c (sr_connectors r) \<and> pg_kind c \<notin> BUILTIN_SOURCE_KINDS"
    using assms(1)
    by (auto simp: register_source_def register_connector_def register_payloads_def reject_bad_plugin_kind_def
        split: if_splits option.splits)
  with assms(2) show ?thesis by (elim disjE) (simp_all add: dom_update)
qed

subsection \<open>Connectors that keep to the mark\<close>

text \<open>What the poll relies on: nothing yielded is older than the mark it was given.\<close>

locale mark_respecting =
  fixes poll :: "instant \<Rightarrow> stream"
  assumes fresh: "pl \<in> set (fst (poll since)) \<Longrightarrow> since \<le> instant_of (pl_occurred pl)"
begin

text \<open>The next mark is the newest of what was yielded, not a time nothing was seen at.\<close>

lemma newest_is_yielded:
  assumes "fst (poll since) \<noteq> []"
  shows "polled_newest since (fst (poll since)) = Max ((\<lambda>p. instant_of (pl_occurred p)) ` set (fst (poll since)))"
proof -
  let ?times = "(\<lambda>p. instant_of (pl_occurred p)) ` set (fst (poll since))"
  have nonempty: "?times \<noteq> {}" "finite ?times" using assms by auto
  obtain pl where "pl \<in> set (fst (poll since))" using assms by (meson hd_in_set)
  then have "since \<le> instant_of (pl_occurred pl)" "instant_of (pl_occurred pl) \<le> Max ?times"
    by (rule fresh, simp)
  then have "since \<le> Max ?times" by simp
  then show ?thesis unfolding polled_newest_Max using nonempty by (simp add: max_def)
qed

lemma quiet_keeps_mark: "fst (poll since) = [] \<Longrightarrow> polled_newest since (fst (poll since)) = since"
  by simp

text \<open>Polling again from the next mark never goes back behind it.\<close>

lemma next_poll_is_later:
  "pl \<in> set (fst (poll (polled_newest since (fst (poll since))))) \<Longrightarrow>
     polled_newest since (fst (poll since)) \<le> instant_of (pl_occurred pl)"
  by (rule fresh)

end

lemma reddit_poll_fresh: "pl \<in> set (fst (reddit_poll R sub (Some since))) \<Longrightarrow> since \<le> instant_of (pl_occurred pl)"
  using walk_pages_yields[of pl R _ "Some since"] by (auto simp: reddit_poll_def walk_new_def fresh_enough_def)

lemma rss_poll_fresh: "pl \<in> set (fst (snd (rss_poll R u (Some since) fm))) \<Longrightarrow> since \<le> instant_of (pl_occurred pl)"
proof -
  have e: "since \<le> instant_of (pl_occurred pl)" if "pl \<in> set (fst (rss_entries X u fm (Some since) es))" for X es
    using rss_entries_yields[of X u fm "Some since" es "fst (rss_entries X u fm (Some since) es)" _ pl] that
    by (auto simp: older_than_def prod_eq_iff)
  show "pl \<in> set (fst (snd (rss_poll R u (Some since) fm))) \<Longrightarrow> since \<le> instant_of (pl_occurred pl)"
    by (auto simp: rss_poll_def Let_def split: prod.splits sum.splits if_splits dest: e)
qed

lemma twitter_poll_fresh:
  "pl \<in> set (fst (twitter_poll T q mode n lang (Some since))) \<Longrightarrow> since < instant_of (pl_occurred pl)"
proof (cases "search_tweet T q (TWIKIT_MODES mode) n")
  case (Inr ts)
  obtain pls err where strm: "tweet_stream T lang (Some since) ts = (pls, err)" by fastforce
  assume "pl \<in> set (fst (twitter_poll T q mode n lang (Some since)))"
  with Inr strm tweet_stream_yields[OF strm, of pl] show ?thesis by (auto simp: twitter_poll_def at_or_before_def)
qed (simp add: twitter_poll_def)

lemma not_newer_later: "not_newer (Some since) t = Inr False \<Longrightarrow> since < instant_of t"
  by (auto simp: not_newer_def split: if_splits)

lemma github_search_poll_fresh:
  assumes "pl \<in> set (fst (github_search_poll G q srt ms n (Some since)))"
  shows "since < instant_of (pl_occurred pl)"
proof -
  obtain items where "pl \<in> set (fst (repo_stream G (Some since) items))"
    using assms by (auto simp: github_search_poll_def split: sum.splits json.splits)
  then show ?thesis
    using repo_stream_yields[of G "Some since" items "fst (repo_stream G (Some since) items)" _ pl]
    by (auto simp: prod_eq_iff dest: not_newer_later)
qed

lemma github_events_poll_fresh:
  assumes "pl \<in> set (fst (github_events_poll G types pushes ms (Some since)))"
  shows "since < instant_of (pl_occurred pl)"
proof -
  obtain evs where "pl \<in> set (fst (event_stream G pushes (Some since) evs))"
    using assms by (auto simp: github_events_poll_def split: sum.splits if_splits)
  then show ?thesis
    using event_stream_yields[of G pushes "Some since" evs "fst (event_stream G pushes (Some since) evs)" _ pl]
    by (auto simp: prod_eq_iff dest: not_newer_later)
qed

interpretation reddit: mark_respecting "\<lambda>since. reddit_poll R sub (Some since)" for R sub
  by unfold_locales (rule reddit_poll_fresh)

interpretation rss: mark_respecting "\<lambda>since. snd (rss_poll R u (Some since) fm)" for R u fm
  by unfold_locales (rule rss_poll_fresh)

interpretation twitter: mark_respecting "\<lambda>since. twitter_poll T q mode n lang (Some since)" for T q mode n lang
  by unfold_locales (blast intro: less_imp_le twitter_poll_fresh)

interpretation github_search: mark_respecting "\<lambda>since. github_search_poll G q srt ms n (Some since)" for G q srt ms n
  by unfold_locales (blast intro: less_imp_le github_search_poll_fresh)

interpretation github_events: mark_respecting "\<lambda>since. github_events_poll G types pushes ms (Some since)" for G types pushes ms
  by unfold_locales (blast intro: less_imp_le github_events_poll_fresh)

subsection \<open>The poll of a source over its connector\<close>

lemma with_connectors_of:
  "SOURCE_KIND spec \<in> BUILTIN_SOURCE_KINDS \<Longrightarrow> connector_of (with_connectors W P) (SOURCE_KIND spec) = Some (builtin_poll W)"
  by (simp add: with_connectors_def)

lemma poll_source_clean:
  assumes "connector_of P (SOURCE_KIND spec) = Some poll" "so_last_event src = Some since"
    and "poll spec since (dict_union (default_field_map cfg) (so_field_map src)) (calls d) = (pls, None)"
    and "f_account fd = acct"
  shows "\<exists>rcd d'. poll_source E S P acct fd cfg src spec d = (Inr (length pls, rcd), d')"
  using assms
  by (auto simp: poll_source_def record_stream_def record_items_def Let_def split_beta)

lemma poll_source_raises:
  assumes "connector_of P (SOURCE_KIND spec) = Some poll" "so_last_event src = Some since"
    and "poll spec since (dict_union (default_field_map cfg) (so_field_map src)) (calls d) = (pls, Some e)"
    and "f_account fd = acct"
  shows "\<exists>d'. poll_source E S P acct fd cfg src spec d = (Inl e, d')"
  using assms
  by (auto simp: poll_source_def record_stream_def Let_def split_beta)

text \<open>
  A failed GitHub search is no recoverable error of its source: it ends the whole pass over the feed.
\<close>

lemma github_search_failure_propagates:
  assumes "search_repositories (cw_github W (calls d)) (github_query q ms) (github_sort_value srt) ''desc'' (min n 100) = Inl e"
    and "so_last_event src = Some since" "f_account fd = acct"
  shows "\<exists>d'. poll_source E S (with_connectors W P) acct fd cfg src (GitHubSearchSourceSpec q srt ms n) d = (Inl TypeError, d')"
    and "TypeError \<notin> RECOVERABLE_ERRORS"
proof -
  have "builtin_poll W (GitHubSearchSourceSpec q srt ms n) since fm (calls d) = ([], Some TypeError)" for fm
    using assms(1) by (simp add: github_search_poll_def)
  with assms(2,3) show "\<exists>d'. poll_source E S (with_connectors W P) acct fd cfg src (GitHubSearchSourceSpec q srt ms n) d = (Inl TypeError, d')"
    by (intro poll_source_raises[where poll = "builtin_poll W"] with_connectors_of) (auto simp: BUILTIN_SOURCE_KINDS_def)
qed (simp add: RECOVERABLE_ERRORS_def)

text \<open>The search of a Hacker News source.\<close>

fun search_of :: "hn_world \<Rightarrow> source_spec \<Rightarrow> search option" where
  "search_of H (HackerNewsFeedSourceSpec q m f) = Some (feed_search H q m f)"
| "search_of H (HackerNewsCommentSourceSpec q m) = Some (comment_search H q m)"
| "search_of H _ = None"

lemma search_of_poll:
  "search_of (cw_hn W n) spec = Some sq \<Longrightarrow>
     builtin_poll W spec since fm n = hn_walk ALGOLIA (cw_hn W n) sq (Some since) \<and> SOURCE_KIND spec \<in> BUILTIN_SOURCE_KINDS"
  by (cases spec) (auto simp: hn_feed_poll_def hn_comment_poll_def BUILTIN_SOURCE_KINDS_def)

lemma hn_source_logged:
  assumes "search_of (cw_hn W (calls d)) spec = Some sq"
    and "hn_service ALGOLIA (cw_hn W (calls d)) sq (Some since) rows" "sorted_wrt (\<lambda>a b. fst b \<le> fst a) rows"
    and "\<And>s. at_second (filter (in_window (Some since) None) rows) s \<le> k" "k < 100"
    and "length (filter (in_window (Some since) None) rows) \<le> 50 * (100 - k)"
    and "so_last_event src = Some since" "f_account fd = acct"
  shows "\<exists>obs rcd d'. poll_source E S (with_connectors W P) acct fd cfg src spec d = (Inr (obs, rcd), d')
    \<and> (\<forall>r \<in> set rows. since_second since \<le> fst r \<longrightarrow> logged fd (snd r) d')"
proof -
  let ?fm = "dict_union (default_field_map cfg) (so_field_map src)"
  obtain pls err where walk: "hn_walk ALGOLIA (cw_hn W (calls d)) sq (Some since) = (pls, err)" by fastforce
  have "err = None \<and> set pls = snd ` {r \<in> set rows. in_window (Some since) None r}"
    using hn_walk_complete[OF assms(2,3,4)] assms(5,6) walk by (simp add: ALGOLIA_def)
  with walk search_of_poll[OF assms(1)]
  have poll: "builtin_poll W spec since ?fm (calls d) = (pls, None)" and yields: "set pls = snd ` {r \<in> set rows. since_second since \<le> fst r}"
    and kind: "SOURCE_KIND spec \<in> BUILTIN_SOURCE_KINDS"
    by (auto simp: in_window_def)
  from poll_source_clean[OF with_connectors_of[OF kind] assms(7) poll assms(8)]
  obtain rcd d' where run: "poll_source E S (with_connectors W P) acct fd cfg src spec d = (Inr (length pls, rcd), d')" by blast
  from poll_source_ok[OF this] with_connectors_of[OF kind, of W P] assms(7) poll
  have "list_all (\<lambda>pl. logged fd pl d') pls" by auto
  with run yields show ?thesis by (auto simp: list_all_iff)
qed

text \<open>
  One combined request of reddit sources, over the listing their subs have in common: every post of a
  sub since the sub's own mark is logged, when the posts since the oldest mark fit the depth of the
  walk.
\<close>

lemma min_mark_le: "min_mark ms = Some s \<Longrightarrow> m \<in> set ms \<Longrightarrow> s \<le> m"
proof -
  have "fold min xs a \<le> a \<and> (\<forall>x \<in> set xs. fold min xs a \<le> x)" for xs and a :: instant
  proof (induction xs arbitrary: a)
    case (Cons x xs)
    from Cons.IH[of "min x a"] show ?case by auto
  qed simp
  then show "min_mark ms = Some s \<Longrightarrow> m \<in> set ms \<Longrightarrow> s \<le> m" by (auto simp: min_mark_def split: list.splits)
qed

lemma min_mark_some: "m \<in> set ms \<Longrightarrow> \<exists>s. min_mark ms = Some s \<and> s \<le> m"
  using min_mark_le[of ms _ m] by (cases ms) (simp_all add: min_mark_def)

lemma bucket_of_filter:
  assumes "\<And>m. so_last_event src = Some m \<Longrightarrow> (case since of Some s \<Rightarrow> s \<le> m | None \<Rightarrow> False)" "so_last_event src \<noteq> None"
  shows "bucket src sub (filter (fresh_enough since) pls) = bucket src sub pls"
proof -
  obtain m where m: "so_last_event src = Some m" using assms(2) by blast
  with assms(1) obtain s where "since = Some s" "s \<le> m" by (auto split: option.splits)
  with m show ?thesis by (auto simp: bucket_def Let_def fresh_enough_def intro!: filter_cong)
qed

lemma takeWhile_take_enough: "length (takeWhile P xs) \<le> n \<Longrightarrow> takeWhile P (take n xs) = takeWhile P xs"
proof (induction xs arbitrary: n)
  case (Cons x xs)
  then show ?case by (cases n) (auto split: if_splits)
qed simp

lemma scatter_clean: "f_account fd = acct \<Longrightarrow> \<exists>x d'. scatter E S acct fd pls chunk d = (Inr x, d')"
proof (induction chunk arbitrary: d)
  case (Cons p rest)
  obtain src sub where p: "p = (src, sub)" by fastforce
  let ?rec = "record_items E acct fd (spec_display (py_str S) (RedditSubredditSourceSpec sub)) (bucket src sub pls) (so_meta src)
      RECORD_CHUNK d"
  have "\<exists>n d1. ?rec = (Inr n, d1)" using Cons.prems by (simp add: record_items_def Let_def split_beta)
  then obtain n d1 where rec: "?rec = (Inr n, d1)" by blast
  obtain d2 where d2: "d2 = (case max_occurred (bucket src sub pls) of None \<Rightarrow> d1
      | Some newest \<Rightarrow> if (case so_last_event src of None \<Rightarrow> True | Some m \<Rightarrow> m < newest)
          then snd (source_advance acct (so_id src) newest d1) else d1)" by simp
  obtain obs rcd d3 where "scatter E S acct fd pls rest d2 = (Inr (obs, rcd), d3)"
    using Cons.IH[OF Cons.prems, of d2] by auto
  then show ?case unfolding p scatter.simps Let_def rec prod.case sum.case d2[symmetric] by simp
qed simp

lemma reddit_chunk_logged:
  fixes chunk :: "(source \<times> string) list"
  defines "subs \<equiv> filter (\<lambda>s. s \<noteq> []) (map strip (map snd chunk))"
  defines "since \<equiv> min_mark (List.map_filter (\<lambda>(src, sub). so_last_event src) chunk)"
  assumes service: "serves (cw_reddit W (calls d)) (listing_url subs) es" "distinct (map entry_id es)"
    and posts: "list_all2 (\<lambda>e pl. entry_payload (rd_text (cw_reddit W (calls d))) e = Some pl) es pls"
    and newest_first: "sorted_wrt (\<lambda>a b. instant_of (pl_occurred b) \<le> instant_of (pl_occurred a)) pls"
    and depth: "length (filter (fresh_enough since) pls) \<le> 1000 * length subs" and subs: "subs \<noteq> []"
    and marks: "\<forall>(src, sub) \<in> set chunk. so_last_event src \<noteq> None" and acct: "f_account fd = acct"
  shows "\<exists>out d'. poll_chunk E S (\<lambda>subs since n. poll_combined (cw_reddit W n) subs since) acct fd chunk d = (Inr out, d')
    \<and> (\<forall>(src, sub) \<in> set chunk. \<forall>pl \<in> set (bucket src sub pls). logged fd pl d')"
proof -
  let ?R = "cw_reddit W (calls d)" and ?n = "PAGE_SIZE * (MAX_PAGES * length subs)"
  have fresh_first: "sorted_wrt (\<lambda>a b. fresh_enough since b \<longrightarrow> fresh_enough since a) pls"
    using newest_first by (rule sorted_wrt_mono_rel[rotated]) (auto simp: fresh_enough_def split: option.splits)
  then have front: "takeWhile (fresh_enough since) pls = filter (fresh_enough since) pls"
    by (rule takeWhile_sorted_filter)
  then have "takeWhile (fresh_enough since) (take ?n pls) = takeWhile (fresh_enough since) pls"
    using depth by (intro takeWhile_take_enough) (simp add: PAGE_SIZE_def MAX_PAGES_def)
  moreover have "filter (fresh_enough since) (take ?n pls) = takeWhile (fresh_enough since) (take ?n pls)"
    using fresh_first by (intro takeWhile_sorted_filter[symmetric]) (rule sorted_wrt_take)
  ultimately have walk: "poll_combined ?R (map snd chunk) since = (filter (fresh_enough since) pls, None)"
    using walk_new_listing[OF service posts newest_first, of since] front subs
    by (simp add: poll_combined_def subs_def Let_def)
  obtain out d' where sc: "scatter E S acct fd (filter (fresh_enough since) pls) chunk (tick d) = (Inr out, d')"
    using scatter_clean[OF acct] by blast
  with walk have run: "\<exists>out. poll_chunk E S (\<lambda>subs since n. poll_combined (cw_reddit W n) subs since) acct fd chunk d = (Inr out, d')"
    by (simp add: poll_chunk_def Let_def since_def split: prod.split)
  have "logged fd pl d'" if mine: "(src, sub) \<in> set chunk" "pl \<in> set (bucket src sub pls)" for src sub pl
  proof -
    obtain m where m: "so_last_event src = Some m" using mine(1) marks by blast
    then have "m \<in> set (List.map_filter (\<lambda>(src, sub). so_last_event src) chunk)"
      using mine(1) by (force simp: map_filter_def)
    then have "\<exists>s. since = Some s \<and> s \<le> m" unfolding since_def by (rule min_mark_some)
    then have "bucket src sub (filter (fresh_enough since) pls) = bucket src sub pls"
      using m by (intro bucket_of_filter) auto
    with scatter_logged[OF sc mine(1)] mine(2) show ?thesis by simp
  qed
  with run show ?thesis by blast
qed

end
