(* ===== verification/Samples_Connectors.thy ===== *)
theory Samples_Connectors
  imports Samples_Feeds Connectors
begin

text \<open>
  Concrete services behind the connectors and the actions, on which the properties of both are
  exercised: a reddit listing of one post, a Hacker News index of one comment, a webhook receiver.
\<close>

definition sample_text :: text_env where
  "sample_text = \<lparr>feed_parse = (\<lambda>body. \<lparr>pf_version = ''atom10'', pf_entries = []\<rparr>), unescape = id, iso_text = (\<lambda>_. []),
     float_of = (\<lambda>_. None), ev_repr = (\<lambda>_. []), rfc_date = (\<lambda>_. None), iso_date = (\<lambda>_. None)\<rparr>"

definition sample_reply :: "bytes \<Rightarrow> http_reply" where
  "sample_reply body = \<lparr>rp_status = 200, rp_headers = [], rp_chunks = [Chunk 0 body]\<rparr>"

definition sample_entry :: entry where
  "sample_entry = [(''id'', EV_Str ''t3_a''), (''title'', EV_Str ''Sledgehammer''),
     (''published_parsed'', EV_Time \<lparr>tm_year = 1970, tm_mon = 1, tm_mday = 2, tm_hour = 0, tm_min = 0, tm_sec = 0\<rparr>),
     (''tags'', EV_List [EV_Dict [(''term'', EV_Str ''isabelle'')]])]"

definition sample_reddit :: reddit_world where
  "sample_reddit =
     \<lparr>reddit_get = (\<lambda>n u params. Inr (sample_reply (if params = page_params None then ''A'' else ''B''))),
      rd_text = sample_text\<lparr>feed_parse := (\<lambda>body. \<lparr>pf_version = ''atom10'', pf_entries = if body = ''A'' then [sample_entry] else []\<rparr>)\<rparr>,
      rd_heartbeat = True\<rparr>"

definition sample_post :: source_payload where
  "sample_post = (case entry_payload (rd_text sample_reddit) sample_entry of Some pl \<Rightarrow> pl | None \<Rightarrow> sample_payload)"

definition sample_hit :: blob where
  "sample_hit = [(''created_at_i'', JNum 5), (''objectID'', JStr ''1''), (''author'', JStr ''a'')]"

definition sample_hn :: hn_world where
  "sample_hn =
     \<lparr>algolia_get = (\<lambda>n params. Inr (sample_reply ''x'')), hn_json_loads = (\<lambda>_. Inr (JObj [(''hits'', JArr [JObj sample_hit])])),
      hn_str = (\<lambda>v. case v of JStr s \<Rightarrow> s | _ \<Rightarrow> []), html_nodes = (\<lambda>_. []),
      lax_int = (\<lambda>v. case v of JNum n \<Rightarrow> Some n | _ \<Rightarrow> None), hn_text = sample_text\<rparr>"

definition sample_web :: web where
  "sample_web = \<lparr>getaddrinfo = (\<lambda>_ _ _. Resolved [''1.1.1.1'']), http_get = (\<lambda>u. \<lparr>ex_hops = [], ex_reply = Inl HTTPError\<rparr>),
     sidecar = (\<lambda>_ _. Inl HTTPError), trafilatura = (\<lambda>_. Inr None), CHALLENGE_BYPASS_URL = [], monotonic = 0\<rparr>"

definition sample_rss :: rss_world where
  "sample_rss = \<lparr>rss_get = (\<lambda>_ u. \<lparr>rf_urls = [u], rf_end = Connect_Error False\<rparr>), rss_text = sample_text, rss_web = sample_web,
     SOURCE_ALLOW_INSECURE_TLS = False, rss_block_private_ips = True, utf8_replace = id\<rparr>"

definition sample_twitter :: twitter_world where
  "sample_twitter = \<lparr>search_tweet = (\<lambda>_ _ _. Inr []), tw_str = (\<lambda>_. []), tw_int = (\<lambda>_. None), tw_json = (\<lambda>_. JNull),
     tw_now = \<lparr>dt_local = 0, dt_offset = Some 0\<rparr>, tw_text = sample_text\<rparr>"

definition sample_github :: github_world where
  "sample_github = \<lparr>gh_get = (\<lambda>_ _. Timed_Out []), gh_str = (\<lambda>_. []), gh_int_of = (\<lambda>_. None),
     gh_now = \<lparr>dt_local = 0, dt_offset = Some 0\<rparr>, gh_text = sample_text\<rparr>"

definition sample_connectors :: connector_world where
  "sample_connectors = \<lparr>cw_reddit = (\<lambda>_. sample_reddit), cw_rss = (\<lambda>_. sample_rss), cw_hn = (\<lambda>_. sample_hn),
     cw_twitter = (\<lambda>_. sample_twitter), cw_github = (\<lambda>_. sample_github)\<rparr>"

definition sample_comment_search :: search where
  "sample_comment_search = comment_search sample_hn ''hol'' Match_All"

definition sample_comment :: source_payload where
  "sample_comment = hn_payload sample_hn ''hn_comment'' ''hn_comment'' ''1'' \<lparr>dt_local = seconds 5, dt_offset = Some 0\<rparr>
     [] [] [] [] ''a'' ''comments'' [(''story_title'', JStr [])]"

lemmas sample_hn_defs = sample_comment_search_def sample_comment_def sample_hn_def sample_hit_def sample_reply_def
  comment_search_def comment_from_algolia_hit_def get_or_def hn_html_to_text_def item_id_of_def

lemma sample_hit_row: "hit_row (sq_build sample_comment_search) (JObj sample_hit) = Some (5, sample_comment)"
  by (simp add: hit_row_def hit_time_def from_timestamp_def round_half_even_def py_int_def seconds_def Let_def sample_hn_defs)

lemma sample_hn_service: "hn_service ALGOLIA sample_hn sample_comment_search (Some 2) [(5, sample_comment)]"
proof -
  have "hits_page ALGOLIA sample_hn n params = Inr [JObj sample_hit]" for n params
    by (simp add: hits_page_def sample_hn_def sample_reply_def is_success_def read_response_capped_def ALGOLIA_def)
  then show ?thesis
    by (auto simp: hn_service_def in_window_def since_second_def py_int_def ALGOLIA_def sample_hit_row)
qed

lemma sample_entry_payload: "entry_payload (rd_text sample_reddit) sample_entry = Some sample_post"
  "pl_external_id sample_post = ''a''" "pl_subreddit sample_post = ''isabelle''" "instant_of (pl_occurred sample_post) = seconds 86400"
  "pl_source sample_post = ''reddit_subreddit''"
proof -
  have "utc_datetime \<lparr>tm_year = 1970, tm_mon = 1, tm_mday = 2, tm_hour = 0, tm_min = 0, tm_sec = 0\<rparr> =
      Inr \<lparr>dt_local = seconds 86400, dt_offset = Some 0\<rparr>"
    by (simp add: utc_datetime_def ymd_ordinal_def days_in_month_def leap_def)
  then obtain pl where "entry_payload (rd_text sample_reddit) sample_entry = Some pl"
    "pl_external_id pl = ''a''" "pl_subreddit pl = ''isabelle''" "pl_occurred pl = \<lparr>dt_local = seconds 86400, dt_offset = Some 0\<rparr>"
    "pl_source pl = ''reddit_subreddit''"
    by (simp add: entry_payload_def entry_published_def reddit_payload_def get_str_def entry_subreddit_def
        feedparser_content_html_def removeprefix_def sample_entry_def Let_def)
  then show "entry_payload (rd_text sample_reddit) sample_entry = Some sample_post"
    "pl_external_id sample_post = ''a''" "pl_subreddit sample_post = ''isabelle''" "instant_of (pl_occurred sample_post) = seconds 86400"
    "pl_source sample_post = ''reddit_subreddit''"
    by (simp_all add: sample_post_def instant_of_def)
qed

lemma sample_entry_id: "entry_id sample_entry = ''t3_a''"
  by (simp add: entry_id_def get_str_def sample_entry_def)

lemma sample_serves: "serves sample_reddit u [sample_entry]"
proof -
  have "page_params None \<noteq> page_params (Some ''t3_a'')" by (simp add: page_params_def)
  then show ?thesis
    by (auto simp: serves_def sample_entry_id after_id_def sample_reddit_def sample_reply_def is_success_def
        read_response_capped_def FETCH_DEFAULT_MAX_BYTES_def PAGE_SIZE_def)
qed

subsection \<open>A webhook\<close>

definition sample_actions :: action_world where
  "sample_actions = \<lparr>web_at = (\<lambda>_. sample_web),
     llm_of = \<lparr>chat = (\<lambda>_ _. Inl RateLimitError), models_list = Inr [], token_hex = (\<lambda>_. []), judgment_model_schema = [],
       validate_judgment = (\<lambda>_. None), json_loads = (\<lambda>_. None), llm_dumps = (\<lambda>_. []), engine_default_model = []\<rparr>,
     http_send = (\<lambda>_ _ _ _ _. Inr 404), payload_classes = (\<lambda>_. None), str_of = (\<lambda>_. []), isoformat = (\<lambda>_. []),
     ulid_text = (\<lambda>_. [])\<rparr>"

definition sample_hook_url :: string where
  "sample_hook_url = ''https://1.1.1.1/x''"

definition sample_hook_env :: env where
  "sample_hook_env = sample_env\<lparr>known_kinds := {''webhook''},
     model_validate := (\<lambda>k b. Some (WebhookConfig INSTANT 0 sample_hook_url POST [] []))\<rparr>"

definition sample_hook :: watch_action where
  "sample_hook = sample_head\<lparr>a_kind := ''webhook''\<rparr>"

definition sample_hook_context :: action_context where
  "sample_hook_context = \<lparr>cx_watch_id = 1, cx_watch_name = ''w'', cx_delivery = INSTANT, cx_since = None, cx_until = None\<rparr>"

lemma sample_hook_config: "load_config sample_hook_env sample_hook = Inr (WebhookConfig INSTANT 0 sample_hook_url POST [] [])"
  by (simp add: load_config_def parse_config_def sample_hook_env_def sample_hook_def sample_env_def sample_head_def)

lemma sample_hook_gate:
  "snd (destination_block_reason (getaddrinfo (web_at sample_actions 0)) (WEBHOOK_REQUIRE_HTTPS sample_hook_env)
     (WEBHOOK_BLOCK_PRIVATE_IPS sample_hook_env) True sample_hook_url []) = Inr None"
  unfolding destination_block_reason_def sample_hook_url_def
  by (simp add: text_eval ip_eval url_eval sample_hook_env_def sample_env_def ip_is_blocked_def unwrapped_def CGNAT_def)

lemma sample_hook_answer: "http_send sample_actions 0 m u b hs = Inr 404"
  by (simp add: sample_actions_def)

lemma sample_hook_run: "\<exists>out. webhook_run sample_actions sample_hook_env 0 sample_hook [] sample_hook_context = Some out"
proof -
  have "\<exists>parts. urlsplit sample_hook_url = Inr parts"
    by (simp add: text_eval ip_eval url_eval sample_hook_url_def)
  then obtain parts where "urlsplit sample_hook_url = Inr parts" by blast
  then show ?thesis
    by (simp add: webhook_run_def load_typed_def sample_hook_config webhook_deliver_def sample_hook_gate sample_hook_answer Let_def)
qed

end
