(* ===== verification/Auth_Tokens.thy ===== *)
theory Auth_Tokens
  imports Run_Windows "HOL-Library.Sublist"
begin

text \<open>
  Credentials (auth\_api): personal access tokens (services/cli\_tokens.py, models/cli\_token.py), the
  session token pairs (services/tokens.py), the two authentication classes in the order they are
  registered (authentication.py, auth\_backends.py), and the views that rotate, revoke and mint
  (views.py).

  The token tables of OAuth Toolkit are third-party: of them the code reads rows by value, creates
  and deletes rows, and calls \<open>RefreshToken.revoke()\<close>, which is a parameter under \<open>toolkit_laws\<close>.
  \<open>token_urlsafe\<close> is the \<open>n\<close>-th draw of \<open>secrets.token_urlsafe\<close>, \<open>sha256\<close> the hex digest.
\<close>

record user =
  u_id :: ulid
  u_email :: string
  u_account :: "ulid option"

record cli_token =
  ct_id :: ulid
  ct_user :: ulid
  ct_name :: string
  ct_hash :: string
  ct_last_four :: string
  ct_last_used :: "instant option"
  ct_expires :: "instant option"
  ct_revoked :: "instant option"

record access_token =
  at_value :: string
  at_user :: user
  at_expires :: instant

record refresh_token =
  rt_value :: string
  rt_user :: user
  rt_access :: "string option"
  rt_revoked :: "instant option"

record auth_db =
  users :: "user list"
  cli_tokens :: "cli_token list"
  access_tokens :: "access_token list"
  refresh_tokens :: "refresh_token list"
  draws :: nat

record auth_env =
  token_urlsafe :: "nat \<Rightarrow> string"
  token_id :: "nat \<Rightarrow> ulid"
  hex_digest :: "string \<Rightarrow> string"
  ACCESS_TOKEN_EXPIRES_SECONDS :: int
  refresh_revoke :: "refresh_token \<Rightarrow> instant \<Rightarrow> auth_db \<Rightarrow> auth_db"
  APP_BASE_URL :: string
  CORS_ALLOWED_ORIGINS :: "string list"

text \<open>
  What \<open>RefreshToken.revoke()\<close> documents: it marks the token revoked and revokes its access token.
  It touches no other refresh token, no personal token and no user, and it grants nothing.
\<close>

definition toolkit_laws :: "auth_env \<Rightarrow> bool" where
  "toolkit_laws A \<longleftrightarrow> (\<forall>rt now d.
     (\<forall>r \<in> set (refresh_tokens (refresh_revoke A rt now d)). rt_value r = rt_value rt \<longrightarrow> rt_revoked r \<noteq> None) \<and>
     filter (\<lambda>r. rt_value r \<noteq> rt_value rt) (refresh_tokens (refresh_revoke A rt now d)) =
       filter (\<lambda>r. rt_value r \<noteq> rt_value rt) (refresh_tokens d) \<and>
     set (map rt_value (refresh_tokens (refresh_revoke A rt now d))) = set (map rt_value (refresh_tokens d)) \<and>
     set (access_tokens (refresh_revoke A rt now d)) \<subseteq> set (access_tokens d) \<and>
     cli_tokens (refresh_revoke A rt now d) = cli_tokens d \<and> users (refresh_revoke A rt now d) = users d \<and>
     draws (refresh_revoke A rt now d) = draws d)"

datatype auth_error_code =
    MISSING_FIELDS | INVALID_EMAIL | EMAIL_TAKEN | INVALID_CREDENTIALS | NOT_AUTHENTICATED | NOT_FOUND
  | PAT_CANNOT_MINT | MISSING_REFRESH_TOKEN | INVALID_REFRESH_TOKEN | REVOKED_REFRESH_TOKEN
  | SESSION_ALREADY_COMPLETED

subsection \<open>Personal access tokens\<close>

definition TOKEN_PREFIX :: string where
  "TOKEN_PREFIX = ''mgp_''"

definition MIN_EXPIRY_DAYS :: int where
  "MIN_EXPIRY_DAYS = 1"

definition MAX_EXPIRY_DAYS :: int where
  "MAX_EXPIRY_DAYS = 3650"

definition LAST_USED_THROTTLE :: int where
  "LAST_USED_THROTTLE = seconds 60"

definition cli_token_is_valid :: "cli_token \<Rightarrow> instant \<Rightarrow> bool" where
  "cli_token_is_valid t now \<longleftrightarrow> ct_revoked t = None \<and> (case ct_expires t of None \<Rightarrow> True | Some x \<Rightarrow> now < x)"

text \<open>\<open>mint\<close>; the hash column is unique, so a digest already stored raises.\<close>

definition cli_token_mint :: "auth_env \<Rightarrow> user \<Rightarrow> string \<Rightarrow> int option \<Rightarrow> instant \<Rightarrow> auth_db
    \<Rightarrow> (exn + cli_token \<times> string) \<times> auth_db" where
  "cli_token_mint A u name expires_in_days now d =
     (let nm = strip name in
      if nm = [] then (Inl ValueError, d)
      else if (case expires_in_days of None \<Rightarrow> False | Some n \<Rightarrow> \<not> (MIN_EXPIRY_DAYS \<le> n \<and> n \<le> MAX_EXPIRY_DAYS))
      then (Inl ValueError, d)
      else let raw_token = TOKEN_PREFIX @ token_urlsafe A (draws d);
               token = \<lparr>ct_id = token_id A (draws d), ct_user = u_id u, ct_name = nm, ct_hash = hex_digest A raw_token,
                        ct_last_four = drop (length raw_token - 4) raw_token, ct_last_used = None,
                        ct_expires = map_option (\<lambda>n. now + seconds (n * 86400)) expires_in_days, ct_revoked = None\<rparr>;
               d' = d\<lparr>draws := Suc (draws d)\<rparr>
           in if ct_hash token \<in> ct_hash ` set (cli_tokens d) then (Inl IntegrityError, d')
              else (Inr (token, raw_token), d'\<lparr>cli_tokens := cli_tokens d @ [token]\<rparr>))"

definition user_get :: "ulid \<Rightarrow> auth_db \<Rightarrow> user option" where
  "user_get uid d = first (filter (\<lambda>u. u_id u = uid) (users d))"

text \<open>
  \<open>resolve\<close> reads the clock twice, for the expiry and for the activity stamp. \<open>stored\<close> says whether
  the stamp's \<open>UPDATE\<close> went through: an error of it is suppressed.
\<close>

definition cli_token_resolve :: "auth_env \<Rightarrow> string \<Rightarrow> instant \<Rightarrow> instant \<Rightarrow> bool \<Rightarrow> auth_db \<Rightarrow> user option \<times> auth_db" where
  "cli_token_resolve A raw_token checked now stored d =
     (if \<not> prefix TOKEN_PREFIX raw_token then (None, d)
      else case first (filter (\<lambda>t. ct_hash t = hex_digest A raw_token) (cli_tokens d)) of
             None \<Rightarrow> (None, d)
           | Some t \<Rightarrow>
               if \<not> cli_token_is_valid t checked then (None, d)
               else case user_get (ct_user t) d of
                      None \<Rightarrow> (None, d)
                    | Some u \<Rightarrow>
                        (Some u,
                         if (case ct_last_used t of None \<Rightarrow> True | Some x \<Rightarrow> LAST_USED_THROTTLE \<le> now - x) \<and> stored
                         then d\<lparr>cli_tokens := update_where (\<lambda>x. ct_id x = ct_id t) (\<lambda>x. x\<lparr>ct_last_used := Some now\<rparr>)
                                (cli_tokens d)\<rparr>
                         else d))"

definition cli_token_list_for_user :: "user \<Rightarrow> auth_db \<Rightarrow> cli_token list" where
  "cli_token_list_for_user u d =
     order_by_desc ct_id (filter (\<lambda>t. ct_user t = u_id u \<and> ct_revoked t = None) (cli_tokens d))"

definition cli_token_revoke :: "user \<Rightarrow> ulid \<Rightarrow> instant \<Rightarrow> auth_db \<Rightarrow> bool \<times> auth_db" where
  "cli_token_revoke u tid now d =
     (let P = (\<lambda>t. ct_id t = tid \<and> ct_user t = u_id u \<and> ct_revoked t = None)
      in (0 < count_where P (cli_tokens d),
          d\<lparr>cli_tokens := update_where P (\<lambda>t. t\<lparr>ct_revoked := Some now\<rparr>) (cli_tokens d)\<rparr>))"

subsection \<open>Session token pairs\<close>

definition access_is_valid :: "access_token \<Rightarrow> instant \<Rightarrow> bool" where
  "access_is_valid a now \<longleftrightarrow> now < at_expires a"

definition access_get :: "string \<Rightarrow> auth_db \<Rightarrow> access_token option" where
  "access_get v d = first (filter (\<lambda>a. at_value a = v) (access_tokens d))"

definition mint_pair :: "auth_env \<Rightarrow> user \<Rightarrow> instant \<Rightarrow> auth_db \<Rightarrow> (access_token \<times> refresh_token \<times> int) \<times> auth_db" where
  "mint_pair A u now d =
     (let ttl = ACCESS_TOKEN_EXPIRES_SECONDS A;
          access = \<lparr>at_value = token_urlsafe A (draws d), at_user = u, at_expires = now + seconds ttl\<rparr>;
          refresh = \<lparr>rt_value = token_urlsafe A (Suc (draws d)), rt_user = u, rt_access = Some (at_value access),
                     rt_revoked = None\<rparr>
      in ((access, refresh, ttl),
          d\<lparr>access_tokens := access_tokens d @ [access], refresh_tokens := refresh_tokens d @ [refresh],
            draws := Suc (Suc (draws d))\<rparr>))"

definition session_revoke :: "auth_env \<Rightarrow> string \<Rightarrow> instant \<Rightarrow> auth_db \<Rightarrow> auth_db" where
  "session_revoke A token_value now d =
     (case access_get token_value d of
        None \<Rightarrow> d
      | Some a \<Rightarrow>
          (let d1 = (case first (filter (\<lambda>r. rt_access r = Some token_value) (refresh_tokens d)) of
                       None \<Rightarrow> d
                     | Some r \<Rightarrow> if rt_revoked r = None then refresh_revoke A r now d else d)
           in d1\<lparr>access_tokens := delete_where (\<lambda>a. at_value a = token_value) (access_tokens d1)\<rparr>))"

subsection \<open>The user behind a request\<close>

record request =
  rq_method :: string
  rq_authorization :: string
  rq_cookie :: "string option"
  rq_origin :: "string option"

definition BEARER_PREFIX :: string where
  "BEARER_PREFIX = ''Bearer ''"

definition SAFE_METHODS :: "string set" where
  "SAFE_METHODS = {''GET'', ''HEAD'', ''OPTIONS'', ''TRACE''}"

definition extract_bearer :: "request \<Rightarrow> string option" where
  "extract_bearer rq =
     (if \<not> prefix BEARER_PREFIX (rq_authorization rq) then None
      else let v = strip (drop (length BEARER_PREFIX) (rq_authorization rq)) in if v = [] then None else Some v)"

definition cookie_value :: "request \<Rightarrow> string option" where
  "cookie_value rq = (case rq_cookie rq of Some (c # cs) \<Rightarrow> Some (c # cs) | _ \<Rightarrow> None)"

definition extract_request_token :: "request \<Rightarrow> string option" where
  "extract_request_token rq = (case extract_bearer rq of Some v \<Rightarrow> Some v | None \<Rightarrow> cookie_value rq)"

text \<open>\<open>rstrip("/")\<close>.\<close>

definition rstrip_slash :: "string \<Rightarrow> string" where
  "rstrip_slash s = rev (dropWhile (\<lambda>c. c = CHR ''/'') (rev s))"

lemma rstrip_slash_Nil [simp]: "rstrip_slash [] = []"
  by (simp add: rstrip_slash_def)

definition allowed_origins :: "auth_env \<Rightarrow> string set" where
  "allowed_origins A = insert (rstrip_slash (APP_BASE_URL A)) (rstrip_slash ` set (CORS_ALLOWED_ORIGINS A))"

definition user_from_access_token :: "string \<Rightarrow> instant \<Rightarrow> auth_db \<Rightarrow> user option" where
  "user_from_access_token v now d =
     (case access_get v d of
        None \<Rightarrow> None
      | Some a \<Rightarrow> if access_is_valid a now then Some (at_user a) else None)"

text \<open>
  What a class answers: \<open>Pass\<close> is \<open>None\<close>, by which the framework tries the next class; the flag of
  \<open>Signed_In\<close> is the marker \<open>request.auth\<close> of a personal access token.
\<close>

datatype auth_outcome = Pass | Signed_In user bool | AuthenticationFailed | PermissionDenied

definition pat_authenticate :: "auth_env \<Rightarrow> request \<Rightarrow> instant \<Rightarrow> instant \<Rightarrow> bool \<Rightarrow> auth_db \<Rightarrow> auth_outcome \<times> auth_db" where
  "pat_authenticate A rq checked now stored d =
     (case extract_bearer rq of
        None \<Rightarrow> (Pass, d)
      | Some v \<Rightarrow>
          if \<not> prefix TOKEN_PREFIX v then (Pass, d)
          else case cli_token_resolve A v checked now stored d of
                 (None, d') \<Rightarrow> (AuthenticationFailed, d')
               | (Some u, d') \<Rightarrow> (Signed_In u True, d'))"

definition bearer_or_cookie_authenticate :: "auth_env \<Rightarrow> request \<Rightarrow> instant \<Rightarrow> auth_db \<Rightarrow> auth_outcome" where
  "bearer_or_cookie_authenticate A rq now d =
     (case extract_bearer rq of
        Some v \<Rightarrow> (case user_from_access_token v now d of None \<Rightarrow> AuthenticationFailed | Some u \<Rightarrow> Signed_In u False)
      | None \<Rightarrow>
          (case cookie_value rq of
             None \<Rightarrow> Pass
           | Some c \<Rightarrow>
               (case user_from_access_token c now d of
                  None \<Rightarrow> AuthenticationFailed
                | Some u \<Rightarrow>
                    if rq_method rq \<notin> SAFE_METHODS
                       \<and> (let origin = rstrip_slash (case rq_origin rq of None \<Rightarrow> [] | Some x \<Rightarrow> x)
                          in origin = [] \<or> origin \<notin> allowed_origins A)
                    then PermissionDenied else Signed_In u False)))"

definition authenticate :: "auth_env \<Rightarrow> request \<Rightarrow> instant \<Rightarrow> instant \<Rightarrow> bool \<Rightarrow> auth_db \<Rightarrow> auth_outcome \<times> auth_db" where
  "authenticate A rq checked now stored d =
     (case pat_authenticate A rq checked now stored d of
        (Pass, d') \<Rightarrow> (bearer_or_cookie_authenticate A rq now d', d')
      | (out, d') \<Rightarrow> (out, d'))"

subsection \<open>Views\<close>

text \<open>\<open>auth_user_wire\<close>: a user without an account is a violated invariant and raises.\<close>

record auth_user =
  au_id :: ulid
  au_email :: string
  au_account :: ulid

definition auth_user_wire :: "user \<Rightarrow> exn + auth_user" where
  "auth_user_wire u =
     (case u_account u of None \<Rightarrow> Inl ValueError
      | Some acct \<Rightarrow> Inr \<lparr>au_id = u_id u, au_email = u_email u, au_account = acct\<rparr>)"

record token_pair =
  tp_access :: string
  tp_refresh :: string
  tp_expires_in :: int
  tp_user :: auth_user

definition token_pair_build :: "user \<Rightarrow> access_token \<Rightarrow> refresh_token \<Rightarrow> int \<Rightarrow> exn + token_pair" where
  "token_pair_build u access refresh ttl =
     map_sum id (\<lambda>w. \<lparr>tp_access = at_value access, tp_refresh = rt_value refresh, tp_expires_in = ttl, tp_user = w\<rparr>)
       (auth_user_wire u)"

text \<open>
  A view returns a payload, answers with an error code, or lets an exception out (the server error).
\<close>

datatype 'a reply = Reply 'a | Refused nat auth_error_code | Raised exn

definition reply_of :: "exn + 'a \<Rightarrow> 'a reply" where
  "reply_of r = (case r of Inl e \<Rightarrow> Raised e | Inr x \<Rightarrow> Reply x)"

text \<open>\<open>TokensRefreshView\<close>; \<open>acquired\<close> says whether the lock of this refresh token was.\<close>

definition tokens_refresh :: "auth_env \<Rightarrow> string \<Rightarrow> bool \<Rightarrow> instant \<Rightarrow> auth_db \<Rightarrow> token_pair reply \<times> auth_db" where
  "tokens_refresh A refresh_token acquired now d =
     (if \<not> acquired then (Refused 409 REVOKED_REFRESH_TOKEN, d)
      else case first (filter (\<lambda>r. rt_value r = refresh_token) (refresh_tokens d)) of
             None \<Rightarrow> (Refused 401 INVALID_REFRESH_TOKEN, d)
           | Some rt \<Rightarrow>
               if rt_revoked rt \<noteq> None then (Refused 401 REVOKED_REFRESH_TOKEN, d)
               else let ((access, new_refresh, ttl), d') = mint_pair A (rt_user rt) now (refresh_revoke A rt now d)
                    in (reply_of (token_pair_build (rt_user rt) access new_refresh ttl), d'))"

definition tokens_revoke :: "auth_env \<Rightarrow> request \<Rightarrow> instant \<Rightarrow> auth_db \<Rightarrow> auth_db" where
  "tokens_revoke A rq now d =
     (case extract_request_token rq of None \<Rightarrow> d | Some v \<Rightarrow> session_revoke A v now d)"

text \<open>\<open>CliTokensView.post\<close>, and the \<open>DELETE\<close> of one token.\<close>

definition cli_tokens_post :: "auth_env \<Rightarrow> user \<Rightarrow> bool \<Rightarrow> string \<Rightarrow> int option \<Rightarrow> instant \<Rightarrow> auth_db
    \<Rightarrow> (cli_token \<times> string) reply \<times> auth_db" where
  "cli_tokens_post A u is_cli_token name expires_in_days now d =
     (if is_cli_token then (Refused 403 PAT_CANNOT_MINT, d)
      else let (r, d') = cli_token_mint A u name expires_in_days now d in (reply_of r, d'))"

definition cli_token_delete :: "user \<Rightarrow> ulid \<Rightarrow> instant \<Rightarrow> auth_db \<Rightarrow> unit reply \<times> auth_db" where
  "cli_token_delete u tid now d =
     (let (revoked, d') = cli_token_revoke u tid now d
      in (if revoked then Reply () else Refused 404 NOT_FOUND, d'))"


subsection \<open>Facts: personal access tokens\<close>

definition token_table :: "auth_db \<Rightarrow> bool" where
  "token_table d \<longleftrightarrow> distinct (map ct_hash (cli_tokens d))"

lemma token_by_hash:
  assumes "token_table d" "t \<in> set (cli_tokens d)"
  shows "first (filter (\<lambda>x. ct_hash x = ct_hash t) (cli_tokens d)) = Some t"
proof -
  have "filter (\<lambda>x. ct_hash x = ct_hash t) rows = [t]" if "distinct (map ct_hash rows)" "t \<in> set rows" for rows
    using that by (induction rows) (auto simp: filter_empty_conv rev_image_eqI)
  with assms show ?thesis by (simp add: token_table_def)
qed

text \<open>A token resolves exactly when it has the prefix and its row is valid and its user there.\<close>

lemma resolve_iff:
  assumes "token_table d"
  shows "fst (cli_token_resolve A raw checked now stored d) = Some u \<longleftrightarrow>
    prefix TOKEN_PREFIX raw \<and> (\<exists>t \<in> set (cli_tokens d). ct_hash t = hex_digest A raw \<and> cli_token_is_valid t checked
      \<and> user_get (ct_user t) d = Some u)"
proof (cases "\<exists>t \<in> set (cli_tokens d). ct_hash t = hex_digest A raw")
  case True
  then obtain t where t: "t \<in> set (cli_tokens d)" "ct_hash t = hex_digest A raw" by blast
  have only: "t' = t" if "t' \<in> set (cli_tokens d)" "ct_hash t' = hex_digest A raw" for t'
    using token_by_hash[OF assms that(1)] token_by_hash[OF assms t(1)] that(2) t(2) by simp
  have "first (filter (\<lambda>x. ct_hash x = hex_digest A raw) (cli_tokens d)) = Some t"
    using token_by_hash[OF assms t(1)] t(2) by simp
  then have "fst (cli_token_resolve A raw checked now stored d) = Some u \<longleftrightarrow>
      prefix TOKEN_PREFIX raw \<and> cli_token_is_valid t checked \<and> user_get (ct_user t) d = Some u"
    by (simp add: cli_token_resolve_def split: option.split)
  then show ?thesis using t only by blast
next
  case False
  then have "first (filter (\<lambda>x. ct_hash x = hex_digest A raw) (cli_tokens d)) = None"
    by (simp add: filter_empty_conv)
  then have "fst (cli_token_resolve A raw checked now stored d) = None" by (simp add: cli_token_resolve_def)
  with False show ?thesis by auto
qed

text \<open>The operations on the table of personal tokens, by anyone and in any order.\<close>

datatype pat_op =
    Mint_Token user string "int option" instant
  | Resolve_Token string instant instant bool
  | Revoke_Token user ulid instant

fun pat_step :: "auth_env \<Rightarrow> pat_op \<Rightarrow> auth_db \<Rightarrow> auth_db" where
  "pat_step A (Mint_Token u name days now) d = snd (cli_token_mint A u name days now d)"
| "pat_step A (Resolve_Token raw checked now stored) d = snd (cli_token_resolve A raw checked now stored d)"
| "pat_step A (Revoke_Token u tid now) d = snd (cli_token_revoke u tid now d)"

text \<open>Whose token a digest is, and that it is revoked, survive every operation.\<close>

definition dead_hash :: "string \<Rightarrow> auth_db \<Rightarrow> bool" where
  "dead_hash h d \<longleftrightarrow> token_table d \<and> (\<exists>t \<in> set (cli_tokens d). ct_hash t = h \<and> ct_revoked t \<noteq> None)"

lemma pat_step_tokens:
  "(\<exists>P f. cli_tokens (pat_step A op d) = update_where P f (cli_tokens d)
      \<and> (\<forall>t. ct_hash (f t) = ct_hash t \<and> ct_id (f t) = ct_id t \<and> ct_user (f t) = ct_user t
          \<and> (ct_revoked t \<noteq> None \<longrightarrow> ct_revoked (f t) \<noteq> None)))
   \<or> (\<exists>t. cli_tokens (pat_step A op d) = cli_tokens d @ [t] \<and> ct_hash t \<notin> ct_hash ` set (cli_tokens d))"
  (is "?upd \<or> ?new")
proof -
  have same: ?upd if "cli_tokens (pat_step A op d) = cli_tokens d"
    using that by (intro exI[of _ "\<lambda>_. False"] exI[of _ id]) (simp add: update_where_def)
  show ?thesis
  proof (cases op)
    case (Mint_Token u name days now)
    then show ?thesis using same by (auto simp: cli_token_mint_def Let_def split: option.splits if_splits)
  next
    case (Resolve_Token raw checked now stored)
    have "cli_tokens (pat_step A op d) = cli_tokens d \<or>
        (\<exists>i. cli_tokens (pat_step A op d) = update_where (\<lambda>x. ct_id x = i) (\<lambda>x. x\<lparr>ct_last_used := Some now\<rparr>) (cli_tokens d))"
      unfolding Resolve_Token pat_step.simps cli_token_resolve_def by (simp split: option.split) blast
    then show ?thesis
    proof
      assume "\<exists>i. cli_tokens (pat_step A op d) = update_where (\<lambda>x. ct_id x = i) (\<lambda>x. x\<lparr>ct_last_used := Some now\<rparr>) (cli_tokens d)"
      then obtain i where "cli_tokens (pat_step A op d) =
          update_where (\<lambda>x. ct_id x = i) (\<lambda>x. x\<lparr>ct_last_used := Some now\<rparr>) (cli_tokens d)" by blast
      then have ?upd by (intro exI[of _ "\<lambda>x. ct_id x = i"] exI[of _ "\<lambda>x. x\<lparr>ct_last_used := Some now\<rparr>"]) simp
      then show ?thesis by (rule disjI1)
    qed (rule disjI1[OF same])
  next
    case (Revoke_Token u tid now)
    let ?P = "\<lambda>t. ct_id t = tid \<and> ct_user t = u_id u \<and> ct_revoked t = None"
    have "cli_tokens (pat_step A op d) = update_where ?P (\<lambda>t. t\<lparr>ct_revoked := Some now\<rparr>) (cli_tokens d)"
      by (simp add: Revoke_Token cli_token_revoke_def Let_def)
    then have ?upd by (intro exI[of _ ?P] exI[of _ "\<lambda>t. t\<lparr>ct_revoked := Some now\<rparr>"]) simp
    then show ?thesis by (rule disjI1)
  qed
qed

lemma pat_step_keeps: "token_table d \<Longrightarrow> token_table (pat_step A op d)"
  using pat_step_tokens[of A op d] by (auto simp: token_table_def map_key_update_where)

lemma dead_step: "dead_hash h d \<Longrightarrow> dead_hash h (pat_step A op d)"
proof -
  assume dead: "dead_hash h d"
  then obtain t where t: "t \<in> set (cli_tokens d)" "ct_hash t = h" "ct_revoked t \<noteq> None" by (auto simp: dead_hash_def)
  have "\<exists>x \<in> set (cli_tokens (pat_step A op d)). ct_hash x = h \<and> ct_revoked x \<noteq> None"
    using pat_step_tokens[of A op d]
  proof (elim disjE exE conjE)
    fix P f assume upd: "cli_tokens (pat_step A op d) = update_where P f (cli_tokens d)"
      and f: "\<forall>t. ct_hash (f t) = ct_hash t \<and> ct_id (f t) = ct_id t \<and> ct_user (f t) = ct_user t
        \<and> (ct_revoked t \<noteq> None \<longrightarrow> ct_revoked (f t) \<noteq> None)"
    have "(if P t then f t else t) \<in> set (cli_tokens (pat_step A op d))" using t(1) by (auto simp: upd in_update_where)
    then show ?thesis by (rule bexI[rotated]) (use f t in simp)
  next
    fix x assume "cli_tokens (pat_step A op d) = cli_tokens d @ [x]"
    with t show ?thesis by (intro bexI[of _ t]) simp_all
  qed
  then show ?thesis using dead pat_step_keeps by (simp add: dead_hash_def)
qed

lemma dead_run: "dead_hash h d \<Longrightarrow> dead_hash h (fold (pat_step A) ops d)"
  by (induction ops arbitrary: d) (simp_all add: dead_step)

lemma dead_unresolved:
  assumes "dead_hash (hex_digest A raw) d"
  shows "fst (cli_token_resolve A raw checked now stored d) = None"
proof (rule ccontr)
  assume "\<not> ?thesis"
  then obtain u where "fst (cli_token_resolve A raw checked now stored d) = Some u" by blast
  then obtain t where t: "t \<in> set (cli_tokens d)" "ct_hash t = hex_digest A raw" "cli_token_is_valid t checked"
    using resolve_iff assms by (auto simp: dead_hash_def)
  obtain t' where t': "t' \<in> set (cli_tokens d)" "ct_hash t' = hex_digest A raw" "ct_revoked t' \<noteq> None"
    using assms by (auto simp: dead_hash_def)
  have "t = t'" using token_by_hash[of d t] token_by_hash[of d t'] t t' assms by (simp add: dead_hash_def)
  with t(3) t'(3) show False by (simp add: cli_token_is_valid_def)
qed

lemma mint_ok:
  assumes "cli_token_mint A u name days now d = (Inr (t, raw), d')"
  shows "cli_tokens d' = cli_tokens d @ [t]" "users d' = users d" "raw = TOKEN_PREFIX @ token_urlsafe A (draws d)"
    "ct_hash t = hex_digest A raw" "ct_user t = u_id u" "ct_revoked t = None"
    "ct_expires t = map_option (\<lambda>n. now + seconds (n * 86400)) days" "ct_hash t \<notin> ct_hash ` set (cli_tokens d)"
  using assms by (auto simp: cli_token_mint_def Let_def split: if_splits option.splits)

lemma mint_resolves:
  assumes "token_table d" "cli_token_mint A u name days now d = (Inr (t, raw), d')" "user_get (u_id u) d = Some u"
  shows "fst (cli_token_resolve A raw checked now' stored d') =
    (if (case days of None \<Rightarrow> True | Some n \<Rightarrow> checked < now + seconds (n * 86400)) then Some u else None)"
proof -
  note m = mint_ok[OF assms(2)]
  have table: "token_table d'" using assms(1) m(1,8) by (simp add: token_table_def)
  have user: "user_get (ct_user t) d' = Some u" using assms(3) m(2,5) by (simp add: user_get_def)
  have "first (filter (\<lambda>x. ct_hash x = hex_digest A raw) (cli_tokens d')) = Some t"
    using token_by_hash[OF table, of t] m(1,4) by simp
  moreover have "prefix TOKEN_PREFIX raw" using m(3) by simp
  ultimately show ?thesis
    using user m(6,7) by (simp add: cli_token_resolve_def cli_token_is_valid_def split: option.split)
qed

lemma revoke_kills:
  assumes "token_table d" "t \<in> set (cli_tokens d)" "ct_user t = u_id u"
  shows "dead_hash (ct_hash t) (snd (cli_token_revoke u (ct_id t) now d))"
proof -
  let ?d = "snd (cli_token_revoke u (ct_id t) now d)"
  have "token_table ?d" using pat_step_keeps[OF assms(1), of A "Revoke_Token u (ct_id t) now"] by simp
  moreover have "\<exists>x \<in> set (cli_tokens ?d). ct_hash x = ct_hash t \<and> ct_revoked x \<noteq> None"
  proof (cases "ct_revoked t = None")
    case True
    with assms(2,3) have "t\<lparr>ct_revoked := Some now\<rparr> \<in> set (cli_tokens ?d)"
      by (auto simp: cli_token_revoke_def Let_def set_update_where)
    then show ?thesis by (rule bexI[rotated]) simp
  next
    case False
    with assms(2) have "t \<in> set (cli_tokens ?d)" by (auto simp: cli_token_revoke_def Let_def set_update_where)
    with False show ?thesis by blast
  qed
  ultimately show ?thesis by (simp add: dead_hash_def)
qed

text \<open>The row of a minted token keeps its id, its digest and its owner; revoking by them kills it.\<close>

definition has_token :: "ulid \<Rightarrow> ulid \<Rightarrow> string \<Rightarrow> auth_db \<Rightarrow> bool" where
  "has_token i uid h d \<longleftrightarrow> token_table d \<and> (\<exists>t \<in> set (cli_tokens d). ct_id t = i \<and> ct_user t = uid \<and> ct_hash t = h)"

lemma has_token_step: "has_token i uid h d \<Longrightarrow> has_token i uid h (pat_step A op d)"
proof -
  assume has: "has_token i uid h d"
  then obtain t where t: "t \<in> set (cli_tokens d)" "ct_id t = i" "ct_user t = uid" "ct_hash t = h"
    by (auto simp: has_token_def)
  have "\<exists>x \<in> set (cli_tokens (pat_step A op d)). ct_id x = i \<and> ct_user x = uid \<and> ct_hash x = h"
    using pat_step_tokens[of A op d]
  proof (elim disjE exE conjE)
    fix P f assume upd: "cli_tokens (pat_step A op d) = update_where P f (cli_tokens d)"
      and f: "\<forall>t. ct_hash (f t) = ct_hash t \<and> ct_id (f t) = ct_id t \<and> ct_user (f t) = ct_user t
        \<and> (ct_revoked t \<noteq> None \<longrightarrow> ct_revoked (f t) \<noteq> None)"
    have "(if P t then f t else t) \<in> set (cli_tokens (pat_step A op d))" using t(1) by (auto simp: upd in_update_where)
    then show ?thesis by (rule bexI[rotated]) (use f t in simp)
  next
    fix x assume "cli_tokens (pat_step A op d) = cli_tokens d @ [x]"
    with t show ?thesis by (intro bexI[of _ t]) simp_all
  qed
  then show ?thesis using has pat_step_keeps by (simp add: has_token_def)
qed

lemma has_token_run: "has_token i uid h d \<Longrightarrow> has_token i uid h (fold (pat_step A) ops d)"
  by (induction ops arbitrary: d) (simp_all add: has_token_step)

lemma revoked_for_good:
  assumes "token_table d" "cli_token_mint A u name days now d = (Inr (t, raw), d')"
  shows "dead_hash (hex_digest A raw)
    (fold (pat_step A) ops (snd (cli_token_revoke u (ct_id t) revoked (fold (pat_step A) before d'))))"
proof -
  note m = mint_ok[OF assms(2)]
  have "token_table d'" using assms(1) m(1,8) by (simp add: token_table_def)
  then have "has_token (ct_id t) (u_id u) (ct_hash t) d'" using m(1,5) by (auto simp: has_token_def)
  from has_token_run[OF this, of A before] obtain x where x: "token_table (fold (pat_step A) before d')"
      "x \<in> set (cli_tokens (fold (pat_step A) before d'))" "ct_id x = ct_id t" "ct_user x = u_id u" "ct_hash x = ct_hash t"
    by (auto simp: has_token_def)
  from dead_run[OF revoke_kills[OF x(1,2,4)]] show ?thesis by (simp add: x(3,5) m(4))
qed

subsection \<open>Facts: requests and sessions\<close>

text \<open>
  Every way a request is signed in: a valid personal token in the header; a valid session token in
  the header; or a valid session token in the cookie, and then a mutating method only from an
  allowed origin. A header that carries a personal token is never looked up as a session token.
\<close>

lemma signed_in_how:
  assumes "token_table d" "authenticate A rq checked now stored d = (Signed_In u pat, d')"
  shows "(pat \<and> (\<exists>v t. extract_bearer rq = Some v \<and> prefix TOKEN_PREFIX v \<and> t \<in> set (cli_tokens d)
            \<and> ct_hash t = hex_digest A v \<and> cli_token_is_valid t checked \<and> user_get (ct_user t) d = Some u))
    \<or> (\<not> pat \<and> d' = d \<and> (\<exists>v. user_from_access_token v now d = Some u
          \<and> ((extract_bearer rq = Some v \<and> \<not> prefix TOKEN_PREFIX v)
             \<or> (extract_bearer rq = None \<and> cookie_value rq = Some v
                \<and> (rq_method rq \<in> SAFE_METHODS
                   \<or> (\<exists>x. rq_origin rq = Some x \<and> rstrip_slash x \<in> allowed_origins A))))))"
proof (cases "fst (pat_authenticate A rq checked now stored d) = Pass")
  case True
  then have no: "pat_authenticate A rq checked now stored d = (Pass, d)"
    and shape: "\<And>v. extract_bearer rq = Some v \<Longrightarrow> \<not> prefix TOKEN_PREFIX v"
    by (auto simp: pat_authenticate_def split: option.splits if_splits prod.splits)
  have "authenticate A rq checked now stored d = (bearer_or_cookie_authenticate A rq now d, d)"
    by (simp add: authenticate_def no)
  with assms(2) have "d' = d" "bearer_or_cookie_authenticate A rq now d = Signed_In u pat" by (metis prod.inject)+
  with shape show ?thesis
    by (auto simp: bearer_or_cookie_authenticate_def Let_def split: option.splits if_splits)
next
  case False
  then have "pat_authenticate A rq checked now stored d = (Signed_In u pat, d')"
    using assms(2) by (auto simp: authenticate_def split: prod.splits auth_outcome.splits)
  then obtain v where v: "extract_bearer rq = Some v" "prefix TOKEN_PREFIX v" "pat"
      "cli_token_resolve A v checked now stored d = (Some u, d')"
    by (auto simp: pat_authenticate_def split: option.splits if_splits prod.splits)
  with resolve_iff[OF assms(1), of A v checked now stored u] show ?thesis by auto
qed

text \<open>A rotation that answers has revoked the presented token: it is refused from then on.\<close>

lemma toolkitD:
  assumes "toolkit_laws A"
  shows "r \<in> set (refresh_tokens (refresh_revoke A rt now d)) \<Longrightarrow> rt_value r = rt_value rt \<Longrightarrow> rt_revoked r \<noteq> None"
    and "set (map rt_value (refresh_tokens (refresh_revoke A rt now d))) = set (map rt_value (refresh_tokens d))"
    and "draws (refresh_revoke A rt now d) = draws d"
  using assms unfolding toolkit_laws_def by blast+

lemma refresh_once:
  assumes "toolkit_laws A" "tokens_refresh A tok acquired now d = (Reply pair, d')"
    and "\<And>n. draws d \<le> n \<Longrightarrow> token_urlsafe A n \<noteq> tok"
  shows "fst (tokens_refresh A tok acquired' now' d') \<in> {Refused 409 REVOKED_REFRESH_TOKEN, Refused 401 REVOKED_REFRESH_TOKEN}"
    and "acquired" "\<exists>rt \<in> set (refresh_tokens d). rt_value rt = tok \<and> rt_revoked rt = None \<and> auth_user_wire (rt_user rt) = Inr (tp_user pair)"
proof -
  obtain rt where rt: "first (filter (\<lambda>r. rt_value r = tok) (refresh_tokens d)) = Some rt" "rt_revoked rt = None" "acquired"
    using assms(2) by (auto simp: tokens_refresh_def split: if_splits option.splits)
  have rt_in: "rt \<in> set (refresh_tokens d)" "rt_value rt = tok" using first_in[OF rt(1)] by simp_all
  let ?d1 = "refresh_revoke A rt now d"
  obtain access new_refresh ttl d2 where mint: "mint_pair A (rt_user rt) now ?d1 = ((access, new_refresh, ttl), d2)"
    by (metis prod.exhaust)
  then have pair: "token_pair_build (rt_user rt) access new_refresh ttl = Inr pair" "d' = d2"
    using assms(2) rt by (auto simp: tokens_refresh_def reply_of_def split: sum.splits)
  from mint have d2: "refresh_tokens d2 = refresh_tokens ?d1 @ [new_refresh]" "rt_value new_refresh = token_urlsafe A (Suc (draws ?d1))"
    by (auto simp: mint_pair_def Let_def)
  have "token_urlsafe A (Suc (draws ?d1)) \<noteq> tok" by (rule assms(3)) (simp add: toolkitD(3)[OF assms(1)])
  then have same: "filter (\<lambda>r. rt_value r = tok) (refresh_tokens d') = filter (\<lambda>r. rt_value r = tok) (refresh_tokens ?d1)"
    by (simp add: pair(2) d2)
  have "tok \<in> set (map rt_value (refresh_tokens ?d1))"
    unfolding toolkitD(2)[OF assms(1)] using rt_in by (auto simp: rev_image_eqI)
  then have "filter (\<lambda>r. rt_value r = tok) (refresh_tokens ?d1) \<noteq> []" by (auto simp: filter_empty_conv)
  then obtain r rest where r: "filter (\<lambda>r. rt_value r = tok) (refresh_tokens ?d1) = r # rest"
    by (meson neq_Nil_conv)
  then have "r \<in> set (filter (\<lambda>r. rt_value r = tok) (refresh_tokens ?d1))" by simp
  then have "rt_revoked r \<noteq> None" using toolkitD(1)[OF assms(1), of r rt now d] rt_in(2) by simp
  then show "fst (tokens_refresh A tok acquired' now' d') \<in> {Refused 409 REVOKED_REFRESH_TOKEN, Refused 401 REVOKED_REFRESH_TOKEN}"
    by (simp add: tokens_refresh_def same r)
  show acquired by (rule rt(3))
  have "auth_user_wire (rt_user rt) = Inr (tp_user pair)"
    using pair(1) by (cases "auth_user_wire (rt_user rt)") (auto simp: token_pair_build_def)
  then show "\<exists>rt \<in> set (refresh_tokens d). rt_value rt = tok \<and> rt_revoked rt = None \<and> auth_user_wire (rt_user rt) = Inr (tp_user pair)"
    using rt(2) rt_in by blast
qed

text \<open>
  Revoking through the header a personal token rode in on revokes nothing: a digest is not a session
  token's value, so the call finds no row.
\<close>

lemma revoke_skips_pat:
  "extract_request_token rq = Some v \<Longrightarrow> access_get v d = None \<Longrightarrow> tokens_revoke A rq now d = d"
  by (simp add: tokens_revoke_def session_revoke_def)

end
