(* ===== verification/Device_Sessions.thy ===== *)
theory Device_Sessions
  imports Auth_Tokens Cache Source_Specs
begin

text \<open>
  The device flow by which a browser session authorises the command line client
  (device\_sessions.py, device\_session\_store.py). A session is a bag in the shared cache; what pydantic
  writes of it and reads back is the bag. Each request is one or two calls of the cache: a poll reads
  and then deletes, a completion reads and then writes, and \<open>device_step\<close> interleaves the calls of any
  number of requests with the clock.
\<close>

datatype device_status = SESSION_PENDING | SESSION_COMPLETED

record device_client =
  dc_name :: string
  dc_version :: string
  dc_hostname :: string

record device_session =
  ds_status :: device_status
  ds_created_at :: instant
  ds_user_code :: string
  ds_secret_hash :: string
  ds_initiator_ip :: "string option"
  ds_initiator :: device_client
  ds_access :: "string option"
  ds_refresh :: "string option"
  ds_expires_in :: "int option"
  ds_user :: "auth_user option"

record device_settings =
  PENDING_TTL_SECONDS :: int
  COMPLETED_TTL_SECONDS :: int

text \<open>\<open>str(v or "")[:cap]\<close>; an absent key is \<open>JNull\<close>.\<close>

definition client_field :: "(json \<Rightarrow> string) \<Rightarrow> nat \<Rightarrow> json \<Rightarrow> string" where
  "client_field py_str cap v = take cap (if json_truthy v then (case v of JStr s \<Rightarrow> s | _ \<Rightarrow> py_str v) else [])"

definition device_client_validate :: "(json \<Rightarrow> string) \<Rightarrow> blob \<Rightarrow> device_client" where
  "device_client_validate py_str b =
     (let field = (\<lambda>k. case map_of b k of None \<Rightarrow> JNull | Some v \<Rightarrow> v)
      in \<lparr>dc_name = client_field py_str 64 (field ''name''), dc_version = client_field py_str 32 (field ''version''),
          dc_hostname = client_field py_str 128 (field ''hostname'')\<rparr>)"

definition is_completed :: "device_session \<Rightarrow> bool" where
  "is_completed b \<longleftrightarrow> ds_status b = SESSION_COMPLETED"

definition complete_with :: "token_pair \<Rightarrow> device_session \<Rightarrow> device_session" where
  "complete_with tp b = b\<lparr>ds_status := SESSION_COMPLETED, ds_access := Some (tp_access tp), ds_refresh := Some (tp_refresh tp),
     ds_expires_in := Some (tp_expires_in tp), ds_user := Some (tp_user tp)\<rparr>"

text \<open>What a poll shows, and what the browser page shows.\<close>

record poll_view =
  pv_status :: device_status
  pv_created_at :: instant
  pv_access :: "string option"
  pv_refresh :: "string option"
  pv_expires_in :: "int option"
  pv_user :: "auth_user option"

definition cli_poll_view :: "device_session \<Rightarrow> poll_view" where
  "cli_poll_view b = \<lparr>pv_status = ds_status b, pv_created_at = ds_created_at b, pv_access = ds_access b,
     pv_refresh = ds_refresh b, pv_expires_in = ds_expires_in b, pv_user = ds_user b\<rparr>"

record info_view =
  iv_status :: device_status
  iv_created_at :: instant
  iv_ip :: "string option"
  iv_client :: device_client

definition session_info_view :: "device_session \<Rightarrow> info_view" where
  "session_info_view b = \<lparr>iv_status = ds_status b, iv_created_at = ds_created_at b, iv_ip = ds_initiator_ip b,
     iv_client = ds_initiator b\<rparr>"

subsection \<open>The store\<close>

definition store_key :: "string \<Rightarrow> string" where
  "store_key sid = ''device_session:'' @ sid"

definition store_get :: "('s, device_session) cache_ops \<Rightarrow> string \<Rightarrow> instant \<Rightarrow> 's \<Rightarrow> device_session option" where
  "store_get C sid now s = cache_get C (store_key sid) now s"

definition store_put :: "('s, device_session) cache_ops \<Rightarrow> device_settings \<Rightarrow> string \<Rightarrow> device_session \<Rightarrow> instant \<Rightarrow> 's \<Rightarrow> 's" where
  "store_put C T sid b now s =
     cache_set C (store_key sid) b (if is_completed b then COMPLETED_TTL_SECONDS T else PENDING_TTL_SECONDS T) now s"

definition store_delete :: "('s, device_session) cache_ops \<Rightarrow> string \<Rightarrow> instant \<Rightarrow> 's \<Rightarrow> 's" where
  "store_delete C sid now s = cache_delete C (store_key sid) now s"

subsection \<open>Codes and secrets\<close>

definition USER_CODE_ALPHABET :: string where
  "USER_CODE_ALPHABET = ''BCDFGHJKMNPQRSTVWXZ''"

definition USER_CODE_LENGTH :: nat where
  "USER_CODE_LENGTH = 8"

text \<open>\<open>letters\<close> are the eight draws of \<open>secrets.choice\<close>.\<close>

definition generate_user_code :: "string \<Rightarrow> string" where
  "generate_user_code letters = take 4 letters @ ''-'' @ drop 4 letters"

text \<open>
  \<open>str.isalnum\<close> and \<open>str.upper\<close> on the characters up to 0xFF. \<open>upper\<close> of 0xB5 and 0xFF is above
  that range; what matters here is that it is not a letter of a code.
\<close>

definition is_alnum :: "char \<Rightarrow> bool" where
  "is_alnum c \<longleftrightarrow> is_alpha c \<or> is_digit c \<or>
     (let n = (of_char c :: nat)
      in n \<in> {0xAA, 0xB2, 0xB3, 0xB5, 0xB9, 0xBA, 0xBC, 0xBD, 0xBE} \<or> (0xC0 \<le> n \<and> n \<noteq> 0xD7 \<and> n \<noteq> 0xF7))"

definition upper_char :: "char \<Rightarrow> string" where
  "upper_char c =
     (let n = (of_char c :: nat)
      in if is_lower c \<or> (0xE0 \<le> n \<and> n \<noteq> 0xF7 \<and> n \<noteq> 0xFF) then [char_of (n - 32)]
         else if n = 0xDF then ''SS'' else [c])"

definition normalize_user_code :: "string \<Rightarrow> string" where
  "normalize_user_code v = concat (map upper_char (filter is_alnum v))"

definition device_secret_matches :: "auth_env \<Rightarrow> string \<Rightarrow> string \<Rightarrow> bool" where
  "device_secret_matches A presented stored_hash \<longleftrightarrow>
     presented \<noteq> [] \<and> stored_hash \<noteq> [] \<and> hex_digest A presented = stored_hash"

text \<open>\<open>_client_ip\<close>: the first hop of \<open>X-Forwarded-For\<close>, else the address of the peer.\<close>

definition client_ip :: "string \<Rightarrow> string option \<Rightarrow> string option" where
  "client_ip forwarded remote =
     (let hop = strip (takeWhile (\<lambda>c. c \<noteq> CHR '','') forwarded);
          peer = (case remote of Some (c # cs) \<Rightarrow> Some (c # cs) | _ \<Rightarrow> None)
      in if forwarded \<noteq> [] \<and> hop \<noteq> [] then Some hop else peer)"

subsection \<open>The requests\<close>

definition new_device_session :: "auth_env \<Rightarrow> string \<Rightarrow> string \<Rightarrow> string option \<Rightarrow> device_client \<Rightarrow> instant \<Rightarrow> device_session" where
  "new_device_session A letters secret ip client now =
     \<lparr>ds_status = SESSION_PENDING, ds_created_at = now, ds_user_code = generate_user_code letters,
      ds_secret_hash = hex_digest A secret, ds_initiator_ip = ip, ds_initiator = client,
      ds_access = None, ds_refresh = None, ds_expires_in = None, ds_user = None\<rparr>"

datatype device_error =
    Missing_Device_Secret | Invalid_Device_Secret | Session_Expired | Missing_User_Code | Already_Completed | Code_Mismatch

fun error_status :: "device_error \<Rightarrow> nat" where
  "error_status Missing_Device_Secret = 401"
| "error_status Invalid_Device_Secret = 401"
| "error_status Session_Expired = 404"
| "error_status Missing_User_Code = 400"
| "error_status Already_Completed = 409"
| "error_status Code_Mismatch = 403"

text \<open>A poll up to its read, and all of it; the delete is a call of its own.\<close>

definition poll_check :: "auth_env \<Rightarrow> ('s, device_session) cache_ops \<Rightarrow> string \<Rightarrow> string \<Rightarrow> instant \<Rightarrow> 's
    \<Rightarrow> device_error + device_session" where
  "poll_check A C presented sid now s =
     (if presented = [] then Inl Missing_Device_Secret
      else case store_get C sid now s of
             None \<Rightarrow> Inl Session_Expired
           | Some b \<Rightarrow> if device_secret_matches A presented (ds_secret_hash b) then Inr b else Inl Invalid_Device_Secret)"

definition poll_session :: "auth_env \<Rightarrow> ('s, device_session) cache_ops \<Rightarrow> string \<Rightarrow> string \<Rightarrow> instant \<Rightarrow> instant \<Rightarrow> 's
    \<Rightarrow> (device_error + poll_view) \<times> 's" where
  "poll_session A C presented sid now later s =
     (case poll_check A C presented sid now s of
        Inl e \<Rightarrow> (Inl e, s)
      | Inr b \<Rightarrow> (Inr (cli_poll_view b), if is_completed b then store_delete C sid later s else s))"

definition session_info :: "('s, device_session) cache_ops \<Rightarrow> string \<Rightarrow> instant \<Rightarrow> 's \<Rightarrow> device_error + info_view" where
  "session_info C sid now s =
     (case store_get C sid now s of None \<Rightarrow> Inl Session_Expired | Some b \<Rightarrow> Inr (session_info_view b))"

text \<open>A completion up to its read, its write, and all of it.\<close>

definition complete_check :: "('s, device_session) cache_ops \<Rightarrow> string \<Rightarrow> string \<Rightarrow> instant \<Rightarrow> 's
    \<Rightarrow> device_error + device_session" where
  "complete_check C submitted sid now s =
     (let code = normalize_user_code submitted in
      if code = [] then Inl Missing_User_Code
      else case store_get C sid now s of
             None \<Rightarrow> Inl Session_Expired
           | Some b \<Rightarrow>
               if is_completed b then Inl Already_Completed
               else let stored = normalize_user_code (ds_user_code b)
                    in if stored = [] \<or> code \<noteq> stored then Inl Code_Mismatch else Inr b)"

definition complete_write :: "auth_env \<Rightarrow> ('s, device_session) cache_ops \<Rightarrow> device_settings \<Rightarrow> user \<Rightarrow> string
    \<Rightarrow> device_session \<Rightarrow> instant \<Rightarrow> 's \<Rightarrow> auth_db \<Rightarrow> unit reply \<times> 's \<times> auth_db" where
  "complete_write A C T u sid b now s d =
     (let ((access, refresh, ttl), d') = mint_pair A u now d
      in case token_pair_build u access refresh ttl of
           Inl e \<Rightarrow> (Raised e, s, d')
         | Inr tp \<Rightarrow> (Reply (), store_put C T sid (complete_with tp b) now s, d'))"

definition complete_session :: "auth_env \<Rightarrow> ('s, device_session) cache_ops \<Rightarrow> device_settings \<Rightarrow> user \<Rightarrow> string \<Rightarrow> string
    \<Rightarrow> instant \<Rightarrow> instant \<Rightarrow> 's \<Rightarrow> auth_db \<Rightarrow> (device_error + unit reply) \<times> 's \<times> auth_db" where
  "complete_session A C T u submitted sid now later s d =
     (case complete_check C submitted sid now s of
        Inl e \<Rightarrow> (Inl e, s, d)
      | Inr b \<Rightarrow> (let (r, s', d') = complete_write A C T u sid b later s d in (Inr r, s', d')))"

subsection \<open>Requests over one cache\<close>

text \<open>
  The log has what has happened: a session handed out, a completion written, a poll answered with
  tokens, a session denied. \<open>dv_completing\<close> and \<open>dv_deleting\<close> are the requests between their read and
  their write. Session ids are fresh: 128 random bits.
\<close>

datatype device_event =
    Created string string string
  | Approved string user string
  | Delivered string string poll_view
  | Denied string

record 's device_world =
  dv_clock :: instant
  dv_cache :: 's
  dv_auth :: auth_db
  dv_log :: "device_event list"
  dv_completing :: "(string \<times> user \<times> string \<times> device_session) list"
  dv_deleting :: "string list"

inductive device_step :: "auth_env \<Rightarrow> ('s, device_session) cache_ops \<Rightarrow> device_settings
    \<Rightarrow> 's device_world \<Rightarrow> 's device_world \<Rightarrow> bool" for A C T where
  create: "(\<And>code h. Created sid code h \<notin> set (dv_log w)) \<Longrightarrow> b = new_device_session A letters secret ip client (dv_clock w) \<Longrightarrow>
    device_step A C T w (w\<lparr>dv_cache := store_put C T sid b (dv_clock w) (dv_cache w),
      dv_log := Created sid (ds_user_code b) (ds_secret_hash b) # dv_log w\<rparr>)"
| poll: "poll_check A C secret sid (dv_clock w) (dv_cache w) = Inr b \<Longrightarrow>
    device_step A C T w (if is_completed b
      then w\<lparr>dv_log := Delivered sid secret (cli_poll_view b) # dv_log w, dv_deleting := sid # dv_deleting w\<rparr> else w)"
| delete: "sid \<in> set (dv_deleting w) \<Longrightarrow>
    device_step A C T w (w\<lparr>dv_cache := store_delete C sid (dv_clock w) (dv_cache w), dv_deleting := remove1 sid (dv_deleting w)\<rparr>)"
| check: "complete_check C submitted sid (dv_clock w) (dv_cache w) = Inr b \<Longrightarrow>
    device_step A C T w (w\<lparr>dv_completing := (sid, u, submitted, b) # dv_completing w\<rparr>)"
| complete: "(sid, u, submitted, b) \<in> set (dv_completing w) \<Longrightarrow>
    complete_write A C T u sid b (dv_clock w) (dv_cache w) (dv_auth w) = (r, s', d') \<Longrightarrow>
    device_step A C T w (w\<lparr>dv_cache := s', dv_auth := d', dv_completing := remove1 (sid, u, submitted, b) (dv_completing w),
      dv_log := (if r = Reply () then Approved sid u submitted # dv_log w else dv_log w)\<rparr>)"
| deny: "device_step A C T w (w\<lparr>dv_cache := store_delete C sid (dv_clock w) (dv_cache w), dv_log := Denied sid # dv_log w\<rparr>)"
| tick: "0 < delta \<Longrightarrow> device_step A C T w (w\<lparr>dv_clock := dv_clock w + delta\<rparr>)"

text \<open>Where a bag comes from, and who authorised it once it carries tokens.\<close>

definition bag_ok :: "auth_env \<Rightarrow> device_event list \<Rightarrow> string \<Rightarrow> device_session \<Rightarrow> bool" where
  "bag_ok A evs sid b \<longleftrightarrow> Created sid (ds_user_code b) (ds_secret_hash b) \<in> set evs \<and>
     (is_completed b \<longrightarrow> (\<exists>u submitted w. Approved sid u submitted \<in> set evs
        \<and> normalize_user_code submitted = normalize_user_code (ds_user_code b)
        \<and> auth_user_wire u = Inr w \<and> ds_user b = Some w))"

definition delivery_ok :: "auth_env \<Rightarrow> device_event list \<Rightarrow> device_event \<Rightarrow> bool" where
  "delivery_ok A evs e \<longleftrightarrow> (case e of
     Delivered sid secret v \<Rightarrow> (\<exists>code u submitted w. Created sid code (hex_digest A secret) \<in> set evs
       \<and> Approved sid u submitted \<in> set evs \<and> normalize_user_code submitted = normalize_user_code code
       \<and> auth_user_wire u = Inr w \<and> pv_user v = Some w)
   | _ \<Rightarrow> True)"

definition created_once :: "device_event list \<Rightarrow> bool" where
  "created_once evs \<longleftrightarrow> (\<forall>sid code h code' h'. Created sid code h \<in> set evs \<longrightarrow> Created sid code' h' \<in> set evs \<longrightarrow>
     code' = code \<and> h' = h)"

definition device_inv :: "auth_env \<Rightarrow> ('s, device_session) cache_ops \<Rightarrow> 's device_world \<Rightarrow> bool" where
  "device_inv A C w \<longleftrightarrow>
     (\<forall>sid u b. dv_clock w \<le> u \<longrightarrow> store_get C sid u (dv_cache w) = Some b \<longrightarrow> bag_ok A (dv_log w) sid b) \<and>
     (\<forall>(sid, u, submitted, b) \<in> set (dv_completing w). bag_ok A (dv_log w) sid b \<and> \<not> is_completed b
        \<and> normalize_user_code submitted = normalize_user_code (ds_user_code b)) \<and>
     (\<forall>e \<in> set (dv_log w). delivery_ok A (dv_log w) e) \<and> created_once (dv_log w)"

definition device_start :: "('s, device_session) cache_ops \<Rightarrow> 's device_world \<Rightarrow> bool" where
  "device_start C w \<longleftrightarrow> dv_log w = [] \<and> dv_completing w = [] \<and> dv_deleting w = []
     \<and> (\<forall>sid u. store_get C sid u (dv_cache w) = None)"


subsection \<open>The invariant\<close>

lemma store_key_inj [simp]: "store_key x = store_key y \<longleftrightarrow> x = y"
  by (simp add: store_key_def)

lemma store_laws:
  assumes "cache_laws C"
  shows "now \<le> u \<Longrightarrow> store_get C j u (store_put C T sid b now s) = Some b' \<Longrightarrow> (j = sid \<and> b' = b) \<or> store_get C j u s = Some b'"
    and "now \<le> u \<Longrightarrow> store_get C j u (store_delete C sid now s) = Some b' \<Longrightarrow> store_get C j u s = Some b'"
  using cache_lawsD(3)[OF assms, of now u "store_key j" "store_key sid" b _ s]
    cache_lawsD(4)[OF assms, of now u "store_key j" "store_key sid" s]
  by (auto simp: store_get_def store_put_def store_delete_def split: if_splits)

lemma bag_ok_mono: "set evs \<subseteq> set evs' \<Longrightarrow> bag_ok A evs sid b \<Longrightarrow> bag_ok A evs' sid b"
  by (simp add: bag_ok_def subset_iff) blast

lemma delivery_ok_mono: "set evs \<subseteq> set evs' \<Longrightarrow> delivery_ok A evs e \<Longrightarrow> delivery_ok A evs' e"
  by (cases e) (simp_all add: delivery_ok_def subset_iff, blast)

lemma device_invD:
  assumes "device_inv A C w"
  shows "dv_clock w \<le> u \<Longrightarrow> store_get C sid u (dv_cache w) = Some b \<Longrightarrow> bag_ok A (dv_log w) sid b"
    and "(sid, v, submitted, b) \<in> set (dv_completing w) \<Longrightarrow> bag_ok A (dv_log w) sid b \<and> \<not> is_completed b
        \<and> normalize_user_code submitted = normalize_user_code (ds_user_code b)"
    and "e \<in> set (dv_log w) \<Longrightarrow> delivery_ok A (dv_log w) e" "created_once (dv_log w)"
  using assms unfolding device_inv_def by blast+

text \<open>
  One shape for every step: the log grows, each bag that can be read is an old one or accounted for,
  each completion in flight is an old one or accounted for, and so is each event.
\<close>

lemma device_inv_intro:
  assumes "device_inv A C w" "set (dv_log w) \<subseteq> set (dv_log w')" "created_once (dv_log w')"
    and "\<And>sid u b. dv_clock w' \<le> u \<Longrightarrow> store_get C sid u (dv_cache w') = Some b \<Longrightarrow>
      (dv_clock w \<le> u \<and> store_get C sid u (dv_cache w) = Some b) \<or> bag_ok A (dv_log w') sid b"
    and "\<And>sid u submitted b. (sid, u, submitted, b) \<in> set (dv_completing w') \<Longrightarrow> (sid, u, submitted, b) \<in> set (dv_completing w)
      \<or> (bag_ok A (dv_log w') sid b \<and> \<not> is_completed b \<and> normalize_user_code submitted = normalize_user_code (ds_user_code b))"
    and "\<And>e. e \<in> set (dv_log w') \<Longrightarrow> e \<in> set (dv_log w) \<or> delivery_ok A (dv_log w') e"
  shows "device_inv A C w'"
  unfolding device_inv_def
proof (intro conjI allI impI ballI)
  fix sid u b assume "dv_clock w' \<le> u" "store_get C sid u (dv_cache w') = Some b"
  from assms(4)[OF this] show "bag_ok A (dv_log w') sid b"
    using device_invD(1)[OF assms(1)] bag_ok_mono[OF assms(2)] by blast
next
  fix x assume x: "x \<in> set (dv_completing w')"
  obtain sid u submitted b where e: "x = (sid, u, submitted, b)" by (cases x)
  have "bag_ok A (dv_log w') sid b \<and> \<not> is_completed b \<and> normalize_user_code submitted = normalize_user_code (ds_user_code b)"
    using assms(5)[OF x[unfolded e]] device_invD(2)[OF assms(1)] bag_ok_mono[OF assms(2)] by blast
  then show "case x of (sid, u, submitted, b) \<Rightarrow> bag_ok A (dv_log w') sid b \<and> \<not> is_completed b
      \<and> normalize_user_code submitted = normalize_user_code (ds_user_code b)" by (simp add: e)
next
  fix e assume "e \<in> set (dv_log w')"
  from assms(6)[OF this] show "delivery_ok A (dv_log w') e"
    using device_invD(3)[OF assms(1)] delivery_ok_mono[OF assms(2)] by blast
qed (rule assms(3))

fun creates :: "device_event \<Rightarrow> bool" where
  "creates (Created _ _ _) = True"
| "creates _ = False"

lemma created_once_Cons: "created_once evs \<Longrightarrow> \<not> creates e \<Longrightarrow> created_once (e # evs)"
  by (cases e) (simp_all add: created_once_def)

lemma poll_check_ok:
  "poll_check A C secret sid now s = Inr b \<Longrightarrow> store_get C sid now s = Some b \<and> ds_secret_hash b = hex_digest A secret"
  by (auto simp: poll_check_def device_secret_matches_def split: if_splits option.splits)

lemma complete_check_ok:
  "complete_check C submitted sid now s = Inr b \<Longrightarrow> store_get C sid now s = Some b \<and> \<not> is_completed b
     \<and> normalize_user_code submitted = normalize_user_code (ds_user_code b)"
  by (auto simp: complete_check_def Let_def split: if_splits option.splits)

lemma complete_write_cases:
  assumes "complete_write A C T u sid b now s d = (r, s', d')"
  shows "(r \<noteq> Reply () \<and> s' = s) \<or>
    (r = Reply () \<and> (\<exists>tp. auth_user_wire u = Inr (tp_user tp) \<and> s' = store_put C T sid (complete_with tp b) now s))"
proof -
  obtain access refresh ttl d1 where mint: "mint_pair A u now d = ((access, refresh, ttl), d1)" by (metis prod.exhaust)
  show ?thesis
  proof (cases "auth_user_wire u")
    case (Inl e)
    then show ?thesis using assms by (auto simp: complete_write_def mint token_pair_build_def)
  next
    case (Inr w)
    let ?tp = "\<lparr>tp_access = at_value access, tp_refresh = rt_value refresh, tp_expires_in = ttl, tp_user = w\<rparr>"
    have "r = Reply ()" "s' = store_put C T sid (complete_with ?tp b) now s"
      using assms by (simp_all add: complete_write_def mint token_pair_build_def Inr)
    then show ?thesis using Inr by (intro disjI2 conjI exI[of _ ?tp]) simp_all
  qed
qed

lemma device_inv_step:
  assumes "cache_laws C" "device_step A C T w w'" "device_inv A C w"
  shows "device_inv A C w'"
  using assms(2)
proof cases
  case (create sid b letters secret ip client)
  show ?thesis
  proof (rule device_inv_intro[OF assms(3)])
    show "created_once (dv_log w')"
      using device_invD(4)[OF assms(3)] create(2) by (auto simp: create(1) created_once_def)
    show "(dv_clock w \<le> u \<and> store_get C j u (dv_cache w) = Some b') \<or> bag_ok A (dv_log w') j b'"
      if "dv_clock w' \<le> u" "store_get C j u (dv_cache w') = Some b'" for j u b'
      using store_laws(1)[OF assms(1), of "dv_clock w" u j T sid b "dv_cache w" b'] that
      by (auto simp: create(1,3) bag_ok_def new_device_session_def is_completed_def)
  qed (use create(1) in \<open>auto simp: delivery_ok_def\<close>)
next
  case (poll secret sid b)
  note p = poll_check_ok[OF poll(2)]
  show ?thesis
  proof (cases "is_completed b")
    case True
    have "bag_ok A (dv_log w) sid b" using device_invD(1)[OF assms(3) order_refl] p by blast
    then have "delivery_ok A (dv_log w) (Delivered sid secret (cli_poll_view b))"
      using True p unfolding bag_ok_def delivery_ok_def cli_poll_view_def by auto
    with True show ?thesis
      by (intro device_inv_intro[OF assms(3)])
        (auto simp: poll(1) intro: created_once_Cons device_invD(4)[OF assms(3)] delivery_ok_mono[rotated])
  qed (use assms(3) poll(1) in simp)
next
  case (delete sid)
  show ?thesis
  proof (rule device_inv_intro[OF assms(3)])
    show "(dv_clock w \<le> u \<and> store_get C j u (dv_cache w) = Some b) \<or> bag_ok A (dv_log w') j b"
      if "dv_clock w' \<le> u" "store_get C j u (dv_cache w') = Some b" for j u b
      using store_laws(2)[OF assms(1), of "dv_clock w" u j sid "dv_cache w" b] that by (simp add: delete(1))
  qed (use device_invD(4)[OF assms(3)] in \<open>simp_all add: delete(1)\<close>)
next
  case (check submitted sid b u)
  note c = complete_check_ok[OF check(2)]
  then have "bag_ok A (dv_log w) sid b" using device_invD(1)[OF assms(3) order_refl] by blast
  with c show ?thesis
    by (intro device_inv_intro[OF assms(3)]) (use device_invD(4)[OF assms(3)] in \<open>auto simp: check(1)\<close>)
next
  case (complete sid u submitted b r s' d')
  note old = device_invD(2)[OF assms(3) complete(2)]
  show ?thesis
  proof (cases "r = Reply ()")
    case True
    then obtain tp where tp: "auth_user_wire u = Inr (tp_user tp)" "s' = store_put C T sid (complete_with tp b) (dv_clock w) (dv_cache w)"
      using complete_write_cases[OF complete(3)] by blast
    have ok: "bag_ok A (Approved sid u submitted # dv_log w) sid (complete_with tp b)"
      using old tp(1) by (auto simp: bag_ok_def complete_with_def)
    show ?thesis
    proof (rule device_inv_intro[OF assms(3)])
      show "(dv_clock w \<le> v \<and> store_get C j v (dv_cache w) = Some b') \<or> bag_ok A (dv_log w') j b'"
        if "dv_clock w' \<le> v" "store_get C j v (dv_cache w') = Some b'" for j v b'
        using store_laws(1)[OF assms(1), of "dv_clock w" v j T sid "complete_with tp b" "dv_cache w" b'] that ok
        by (auto simp: complete(1) True tp(2))
    qed (use True complete(1) device_invD(4)[OF assms(3)] in
        \<open>auto simp: delivery_ok_def intro: created_once_Cons dest: in_set_remove1[THEN iffD1, rotated] notin_set_remove1\<close>)
  next
    case False
    then have "s' = dv_cache w" using complete_write_cases[OF complete(3)] by blast
    with False show ?thesis
      by (intro device_inv_intro[OF assms(3)])
        (use complete(1) device_invD(4)[OF assms(3)] in \<open>auto dest: notin_set_remove1\<close>)
  qed
next
  case (deny sid)
  show ?thesis
  proof (rule device_inv_intro[OF assms(3)])
    show "(dv_clock w \<le> u \<and> store_get C j u (dv_cache w) = Some b) \<or> bag_ok A (dv_log w') j b"
      if "dv_clock w' \<le> u" "store_get C j u (dv_cache w') = Some b" for j u b
      using store_laws(2)[OF assms(1), of "dv_clock w" u j sid "dv_cache w" b] that by (simp add: deny(1))
  qed (use device_invD(4)[OF assms(3)] in \<open>auto simp: deny(1) delivery_ok_def intro: created_once_Cons\<close>)
next
  case (tick delta)
  show ?thesis
    by (rule device_inv_intro[OF assms(3)]) (use tick(2) device_invD(4)[OF assms(3)] in \<open>auto simp: tick(1)\<close>)
qed

lemma device_inv_reachable:
  assumes "cache_laws C" "(device_step A C T)\<^sup>*\<^sup>* w w'" "device_start C w"
  shows "device_inv A C w'"
  using assms(2)
proof induction
  case base
  then show ?case using assms(3) by (simp add: device_inv_def device_start_def created_once_def)
next
  case (step y z)
  then show ?case using device_inv_step[OF assms(1)] by blast
qed

text \<open>One request at a time, the tokens of a session are read once: the next poll finds it expired.\<close>

lemma poll_once:
  assumes "cache_laws C" "poll_session A C secret sid now later s = (Inr v, s')" "pv_status v = SESSION_COMPLETED" "later \<le> u"
    "secret' \<noteq> []"
  shows "fst (poll_session A C secret' sid u u' s') = Inl Session_Expired"
proof -
  obtain b where b: "poll_check A C secret sid now s = Inr b" "v = cli_poll_view b"
    using assms(2) by (auto simp: poll_session_def split: sum.splits)
  with assms(3) have "is_completed b" by (simp add: cli_poll_view_def is_completed_def)
  with assms(2) b have s': "s' = store_delete C sid later s" by (simp add: poll_session_def)
  have "store_get C sid u s' = None"
    using cache_lawsD(4)[OF assms(1,4), of "store_key sid" "store_key sid" s] by (simp add: s' store_get_def store_delete_def)
  with assms(5) show ?thesis by (simp add: poll_session_def poll_check_def)
qed

end
