(* ===== verification/Samples_Auth.thy ===== *)
theory Samples_Auth
  imports Device_Sessions
begin

text \<open>
  One user, one configuration of the credential services and an empty cache, on which the properties
  of credentials and of the device flow are exercised, and two interleavings of the flow that its
  documentation rules out.
\<close>

definition sample_user :: user where
  "sample_user = \<lparr>u_id = 1, u_email = ''a@b'', u_account = Some 100\<rparr>"

definition sample_auth :: auth_env where
  "sample_auth =
     \<lparr>token_urlsafe = (\<lambda>n. ''tok'' @ replicate n CHR ''x''), token_id = Suc, hex_digest = (\<lambda>s. ''#'' @ s),
      ACCESS_TOKEN_EXPIRES_SECONDS = 3600,
      refresh_revoke = (\<lambda>rt now d. d\<lparr>refresh_tokens := update_where (\<lambda>r. rt_value r = rt_value rt)
        (\<lambda>r. r\<lparr>rt_revoked := Some now, rt_access := None\<rparr>) (refresh_tokens d),
        access_tokens := delete_where (\<lambda>a. Some (at_value a) = rt_access rt) (access_tokens d)\<rparr>),
      APP_BASE_URL = ''https://app/'', CORS_ALLOWED_ORIGINS = []\<rparr>"

lemma sample_toolkit: "toolkit_laws sample_auth"
  unfolding toolkit_laws_def
  by (intro allI conjI)
    (auto simp: sample_auth_def filter_update_same map_key_update_where in_update_where delete_where_def)

definition sample_accounts :: auth_db where
  "sample_accounts = \<lparr>users = [sample_user], cli_tokens = [], access_tokens = [], refresh_tokens = [], draws = 0\<rparr>"

definition sample_ttl :: device_settings where
  "sample_ttl = \<lparr>PENDING_TTL_SECONDS = 600, COMPLETED_TTL_SECONDS = 60\<rparr>"

definition sample_device :: "(string \<Rightarrow> (device_session \<times> instant) option) device_world" where
  "sample_device = \<lparr>dv_clock = 0, dv_cache = Map.empty, dv_auth = sample_accounts, dv_log = [], dv_completing = [],
     dv_deleting = []\<rparr>"

lemma sample_device_start: "device_start table_cache sample_device"
  by (simp add: device_start_def sample_device_def store_get_def table_cache_def)

lemmas sample_auth_defs = sample_user_def sample_auth_def sample_accounts_def sample_ttl_def sample_device_def

lemma sample_mint:
  "map_sum id snd (fst (cli_token_mint sample_auth sample_user '' box '' (Some 30) 0 sample_accounts)) = Inr ''mgp_tok''"
  by code_simp

text \<open>A session, its bag once completed, and the worlds of a run of the flow.\<close>

definition sample_bag :: device_session where
  "sample_bag = new_device_session sample_auth ''BCDFGHJK'' ''secret'' None \<lparr>dc_name = [], dc_version = [], dc_hostname = []\<rparr> 0"

definition sample_pair :: token_pair where
  "sample_pair = \<lparr>tp_access = ''tok'', tp_refresh = ''tokx'', tp_expires_in = 3600,
     tp_user = \<lparr>au_id = 1, au_email = ''a@b'', au_account = 100\<rparr>\<rparr>"

lemma sample_write:
  "complete_write sample_auth table_cache sample_ttl sample_user ''s'' sample_bag 0 st sample_accounts =
     (Reply (), store_put table_cache sample_ttl ''s'' (complete_with sample_pair sample_bag) 0 st,
      snd (mint_pair sample_auth sample_user 0 sample_accounts))"
  by (simp add: complete_write_def mint_pair_def Let_def sample_auth_defs token_pair_build_def auth_user_wire_def sample_pair_def)

lemma sample_bag_simps [simp]:
  "\<not> is_completed sample_bag" "is_completed (complete_with sample_pair sample_bag)"
  "ds_user_code sample_bag = ''BCDF-GHJK''" "ds_secret_hash sample_bag = ''#secret''"
  "ds_secret_hash (complete_with sample_pair sample_bag) = ''#secret''"
  by (simp_all add: sample_bag_def new_device_session_def is_completed_def complete_with_def generate_user_code_def
      sample_auth_def)

lemma sample_code: "normalize_user_code ''bcdf ghjk'' = ''BCDFGHJK''" "normalize_user_code ''BCDF-GHJK'' = ''BCDFGHJK''"
  by code_simp+

lemma sample_store:
  "store_get table_cache ''s'' 0 (store_put table_cache sample_ttl ''s'' b 0 st) = Some b"
  "store_get table_cache ''s'' 0 (store_delete table_cache ''s'' 0 st) = None"
  by (simp_all add: store_get_def store_put_def store_delete_def table_cache_def sample_ttl_def seconds_def)


text \<open>
  A denial is not final: a completion that had read the bag before the denial deleted it writes the
  bag back, and the client then gets its tokens.
\<close>

lemma denied_then_delivered:
  "\<exists>w v. (device_step sample_auth table_cache sample_ttl)\<^sup>*\<^sup>* sample_device w
     \<and> dv_log w = [Delivered ''s'' ''secret'' v, Approved ''s'' sample_user ''bcdf ghjk'', Denied ''s'',
                   Created ''s'' ''BCDF-GHJK'' ''#secret'']
     \<and> pv_access v = Some ''tok''"
proof -
  let ?step = "device_step sample_auth table_cache sample_ttl"
  let ?w1 = "sample_device\<lparr>dv_cache := store_put table_cache sample_ttl ''s'' sample_bag 0 (dv_cache sample_device),
      dv_log := Created ''s'' (ds_user_code sample_bag) (ds_secret_hash sample_bag) # dv_log sample_device\<rparr>"
  let ?w2 = "?w1\<lparr>dv_completing := (''s'', sample_user, ''bcdf ghjk'', sample_bag) # dv_completing ?w1\<rparr>"
  let ?w3 = "?w2\<lparr>dv_cache := store_delete table_cache ''s'' 0 (dv_cache ?w2), dv_log := Denied ''s'' # dv_log ?w2\<rparr>"
  let ?w4 = "?w3\<lparr>dv_cache := store_put table_cache sample_ttl ''s'' (complete_with sample_pair sample_bag) 0 (dv_cache ?w3),
      dv_auth := snd (mint_pair sample_auth sample_user 0 sample_accounts),
      dv_completing := remove1 (''s'', sample_user, ''bcdf ghjk'', sample_bag) (dv_completing ?w3),
      dv_log := Approved ''s'' sample_user ''bcdf ghjk'' # dv_log ?w3\<rparr>"
  let ?v = "cli_poll_view (complete_with sample_pair sample_bag)"
  let ?w5 = "?w4\<lparr>dv_log := Delivered ''s'' ''secret'' ?v # dv_log ?w4, dv_deleting := ''s'' # dv_deleting ?w4\<rparr>"
  have start: "dv_clock sample_device = 0" "dv_log sample_device = []" "dv_auth sample_device = sample_accounts"
    by (simp_all add: sample_device_def)
  have "?step sample_device ?w1"
    using device_step.create[where w = sample_device and sid = "''s''" and b = sample_bag and C = table_cache and T = sample_ttl]
    by (simp add: start sample_bag_def)
  moreover have "?step ?w1 ?w2"
    using device_step.check[where w = ?w1 and sid = "''s''" and submitted = "''bcdf ghjk''" and b = sample_bag and u = sample_user
        and C = table_cache]
    by (simp add: start complete_check_def sample_code sample_store)
  moreover have "?step ?w2 ?w3"
    using device_step.deny[where w = ?w2 and sid = "''s''" and C = table_cache] by (simp add: start)
  moreover have "?step ?w3 ?w4"
  proof -
    have written: "complete_write sample_auth table_cache sample_ttl sample_user ''s'' sample_bag (dv_clock ?w3) (dv_cache ?w3)
        (dv_auth ?w3) = (Reply (), store_put table_cache sample_ttl ''s'' (complete_with sample_pair sample_bag) 0 (dv_cache ?w3),
        snd (mint_pair sample_auth sample_user 0 sample_accounts))"
      by (simp add: start sample_write)
    show ?thesis
      using device_step.complete[where w = ?w3 and sid = "''s''" and submitted = "''bcdf ghjk''" and b = sample_bag and u = sample_user
          and C = table_cache and T = sample_ttl, OF _ written]
      by simp
  qed
  moreover have "?step ?w4 ?w5"
    using device_step.poll[where w = ?w4 and sid = "''s''" and secret = "''secret''" and b = "complete_with sample_pair sample_bag"
        and C = table_cache and A = sample_auth]
    by (simp add: start poll_check_def sample_store device_secret_matches_def sample_auth_def)
  ultimately have "?step\<^sup>*\<^sup>* sample_device ?w5" by (meson rtranclp.rtrancl_into_rtrancl rtranclp.rtrancl_refl)
  then show ?thesis
    by (intro exI[of _ ?w5] exI[of _ ?v]) (simp add: start cli_poll_view_def complete_with_def sample_pair_def)
qed

end
