(* ===== verification/Feeds.thy ===== *)
theory Feeds
  imports Polling
begin

text \<open>
  The feed aggregate (feeds/services/feeds/\_service.py): reads, create with starter sources,
  full-replace update, pause, delete with its cascades. \<open>feed_build\<close> and \<open>feed_build_update\<close>
  are the unsaved rows that a dry run previews; an unsaved feed has the blank id.
\<close>

subsection \<open>Reads\<close>

definition feed_get :: "ulid \<Rightarrow> ulid \<Rightarrow> db \<Rightarrow> exn + feed" where
  "feed_get acct fid d =
     (case first (filter (\<lambda>f. f_id f = fid \<and> f_account f = acct) (feeds d)) of
        None \<Rightarrow> Inl DoesNotExist | Some f \<Rightarrow> Inr f)"

definition feed_find_by_name :: "ulid \<Rightarrow> string \<Rightarrow> db \<Rightarrow> feed option" where
  "feed_find_by_name acct nm d = first (order_by f_id (filter (\<lambda>f. f_account f = acct \<and> f_name f = nm) (feeds d)))"

definition feed_existing_ids :: "ulid \<Rightarrow> ulid list \<Rightarrow> db \<Rightarrow> ulid set" where
  "feed_existing_ids acct ids d = f_id ` set (filter (\<lambda>f. f_account f = acct \<and> f_id f \<in> set ids) (feeds d))"

definition feed_get_many :: "ulid \<Rightarrow> ulid list \<Rightarrow> db \<Rightarrow> ulid \<Rightarrow> feed option" where
  "feed_get_many acct ids d =
     fetch_chunks f_id (filter (\<lambda>f. f_account f = acct) (feeds d)) (batched ID_IN_CHUNK ids) Map.empty"

definition feed_list :: "ulid \<Rightarrow> ulid option \<Rightarrow> nat \<Rightarrow> db \<Rightarrow> feed list" where
  "feed_list acct after lmt d = page_desc f_id after lmt (filter (\<lambda>f. f_account f = acct) (feeds d))"

interpretation feed_pages: newest_first "\<lambda>after lmt. feed_list acct after lmt d" f_id
    "filter (\<lambda>f. f_account f = acct) (feeds d)" for acct d
  by unfold_locales (simp add: feed_list_def)

subsection \<open>Writes\<close>

definition feed_build :: "source_env \<Rightarrow> ulid \<Rightarrow> ulid \<Rightarrow> string \<Rightarrow> string \<Rightarrow> int \<Rightarrow> blob \<Rightarrow> bool \<Rightarrow> exn + feed" where
  "feed_build S acct uid nm kind interval data active =
     map_sum id (\<lambda>cfg. \<lparr>f_id = blank, f_user = uid, f_account = acct, f_kind = kind, f_name = nm, f_active = active,
         f_poll_interval = interval, f_last_polled = None, f_next_poll = None, f_data = feed_config_dump cfg\<rparr>)
       (validate_feed_config S kind data)"

text \<open>
  The insert and the starter sources are one transaction. The row is new, so the lock of
  its source set is free unless the cache fails; \<open>acquired\<close> says whether it was taken.
\<close>

definition feed_create :: "env \<Rightarrow> source_env \<Rightarrow> ulid \<Rightarrow> ulid \<Rightarrow> string \<Rightarrow> string \<Rightarrow> int \<Rightarrow> blob \<Rightarrow> bool
    \<Rightarrow> source_input list \<Rightarrow> bool \<Rightarrow> instant \<Rightarrow> db \<Rightarrow> (exn + feed) \<times> db" where
  "feed_create E S acct uid nm kind interval data active srcs acquired now d =
     (case feed_build S acct uid nm kind interval data active of
        Inl e \<Rightarrow> (Inl e, d)
      | Inr unsaved \<Rightarrow>
          (let (fid, d1) = new_id E d;
               fd = unsaved\<lparr>f_id := fid\<rparr>;
               d2 = d1\<lparr>feeds := feeds d1 @ [fd]\<rparr>
           in if srcs = [] then (Inr fd, d2)
              else case set_sources E S acct fd srcs False acquired now d2 of
                     (Inl e, _) \<Rightarrow> (Inl e, d)
                   | (Inr _, d3) \<Rightarrow> (Inr fd, d3)))"

text \<open>\<open>merge_preserving\<close> of a curated config is the submitted one.\<close>

definition curated_merge :: "curated_config \<Rightarrow> curated_config \<Rightarrow> exn + curated_config" where
  "curated_merge submitted prior = Inr submitted"

definition feed_build_update :: "source_env \<Rightarrow> ulid \<Rightarrow> feed \<Rightarrow> string \<Rightarrow> int \<Rightarrow> blob \<Rightarrow> bool \<Rightarrow> exn + feed" where
  "feed_build_update S acct fd nm interval data active =
     (if f_account fd \<noteq> acct then Inl ValueError
      else case parse_feed_config S (f_kind fd) data of
             Inl e \<Rightarrow> Inl e
           | Inr submitted \<Rightarrow>
               (case load_feed_config S fd of
                  Inl e \<Rightarrow> Inl e
                | Inr prior \<Rightarrow>
                    (case curated_merge submitted prior of
                       Inl e \<Rightarrow> Inl (if e = ValueError then PolicyError else e)
                     | Inr merged \<Rightarrow>
                         (case enforce_feed_policy merged of
                            Inl e \<Rightarrow> Inl e
                          | Inr cfg \<Rightarrow> Inr (fd\<lparr>f_name := nm, f_poll_interval := interval, f_active := active,
                                             f_data := feed_config_dump cfg\<rparr>)))))"

text \<open>\<open>save(update_fields=...)\<close> writes the named columns; a row that is gone raises.\<close>

definition save_feed :: "feed \<Rightarrow> (feed \<Rightarrow> feed) \<Rightarrow> db \<Rightarrow> (exn + feed) \<times> db" where
  "save_feed fd columns d =
     (if count_where (\<lambda>f. f_id f = f_id fd) (feeds d) = 0 then (Inl DatabaseError, d)
      else (Inr fd, d\<lparr>feeds := update_where (\<lambda>f. f_id f = f_id fd) columns (feeds d)\<rparr>))"

definition feed_update :: "source_env \<Rightarrow> ulid \<Rightarrow> feed \<Rightarrow> string \<Rightarrow> int \<Rightarrow> blob \<Rightarrow> bool \<Rightarrow> db \<Rightarrow> (exn + feed) \<times> db" where
  "feed_update S acct fd nm interval data active d =
     (case feed_build_update S acct fd nm interval data active of
        Inl e \<Rightarrow> (Inl e, d)
      | Inr fd' \<Rightarrow> save_feed fd' (\<lambda>f. f\<lparr>f_name := f_name fd', f_poll_interval := f_poll_interval fd',
                                    f_active := f_active fd', f_data := f_data fd'\<rparr>) d)"

definition feed_set_active :: "ulid \<Rightarrow> feed \<Rightarrow> bool \<Rightarrow> db \<Rightarrow> (exn + feed) \<times> db" where
  "feed_set_active acct fd active d =
     (if f_account fd \<noteq> acct then (Inl ValueError, d)
      else save_feed (fd\<lparr>f_active := active\<rparr>) (\<lambda>f. f\<lparr>f_active := active\<rparr>) d)"

definition feed_delete :: "ulid \<Rightarrow> feed \<Rightarrow> db \<Rightarrow> (exn + unit) \<times> db" where
  "feed_delete acct fd d =
     (if f_account fd \<noteq> acct then (Inl ValueError, d)
      else let d1 = d\<lparr>feed_items := delete_where (\<lambda>i. i_account i = acct \<and> i_feed i = f_id fd) (feed_items d)\<rparr>
           in case delete_for_feed acct fd d1 of
                (Inl e, _) \<Rightarrow> (Inl e, d)
              | (Inr _, d2) \<Rightarrow> (Inr (), d2\<lparr>feeds := delete_where (\<lambda>f. f_id f = f_id fd) (feeds d2)\<rparr>))"

definition feed_count :: "db \<Rightarrow> nat" where
  "feed_count d = length (feeds d)"

subsection \<open>Facts\<close>

definition feed_table :: "db \<Rightarrow> bool" where
  "feed_table d \<longleftrightarrow> distinct (map f_id (feeds d)) \<and> blank \<notin> f_id ` set (feeds d)"

lemma feed_getD: "feed_get acct fid d = Inr f \<Longrightarrow> f \<in> set (feeds d) \<and> f_id f = fid \<and> f_account f = acct"
  by (auto simp: feed_get_def split: option.splits dest: first_in)

lemma feed_get_many_eq:
  assumes "distinct (map f_id (feeds d))"
  shows "feed_get_many acct ids d k = (if k \<in> set ids then
     first (filter (\<lambda>f. f_id f = k) (filter (\<lambda>f. f_account f = acct) (feeds d))) else None)"
  using assms fetch_chunks_eq[of f_id "filter (\<lambda>f. f_account f = acct) (feeds d)" ID_IN_CHUNK ids k]
  by (simp add: feed_get_many_def distinct_map_filter ID_IN_CHUNK_def)

text \<open>An update of a feed keeps its identity: only the editable columns of that one row change.\<close>

lemma feed_update_columns:
  assumes "feed_update S acct fd nm interval data active d = (Inr fd', d')"
  shows "d' = d\<lparr>feeds := update_where (\<lambda>f. f_id f = f_id fd)
      (\<lambda>f. f\<lparr>f_name := nm, f_poll_interval := interval, f_active := active, f_data := f_data fd'\<rparr>) (feeds d)\<rparr>"
    and "\<exists>cfg. enforce_feed_policy cfg = Inr cfg \<and> f_data fd' = feed_config_dump cfg \<and> feed_validate S data = Some cfg"
    and "f_account fd = acct"
  using assms
  by (auto simp: feed_update_def feed_build_update_def save_feed_def curated_merge_def enforce_feed_policy_def
      parse_feed_config_def split: sum.splits if_splits option.splits)

lemma feed_update_rejects:
  assumes "feed_update S acct fd nm interval data active d = (Inl e, d')"
  shows "d' = d"
  using assms by (auto simp: feed_update_def save_feed_def split: sum.splits if_splits)

text \<open>The delete leaves nothing behind that names the feed, and touches no other feed.\<close>

lemma feed_delete_complete:
  assumes "feed_delete acct fd d = (Inr u, d')"
  shows "filter (\<lambda>f. f_id f = f_id fd) (feeds d') = []"
    and "filter (\<lambda>i. i_account i = acct \<and> i_feed i = f_id fd) (feed_items d') = []"
    and "filter (of_feed acct fd) (sources d') = []"
    and "filter (\<lambda>f. f_id f \<noteq> f_id fd) (feeds d') = filter (\<lambda>f. f_id f \<noteq> f_id fd) (feeds d)"
    and "filter (\<lambda>i. \<not> (i_account i = acct \<and> i_feed i = f_id fd)) (feed_items d') =
           filter (\<lambda>i. \<not> (i_account i = acct \<and> i_feed i = f_id fd)) (feed_items d)"
    and "filter (\<lambda>s. \<not> of_feed acct fd s) (sources d') = filter (\<lambda>s. \<not> of_feed acct fd s) (sources d)"
  using assms by (auto simp: feed_delete_def delete_for_feed_def delete_where_def filter_empty_conv Let_def split: if_splits)

text \<open>A create is all or nothing.\<close>

lemma feed_create_atomic:
  assumes "feed_create E S acct uid nm kind interval data active srcs acquired now d = (Inl e, d')"
  shows "d' = d"
  using assms by (auto simp: feed_create_def new_id_def Let_def split: sum.splits if_splits prod.splits)

lemma feed_create_row:
  assumes "feed_create E S acct uid nm kind interval data active srcs acquired now d = (Inr fd, d')"
  shows "f_id fd = mint E (drawn d)" "f_account fd = acct" "f_user fd = uid" "f_name fd = nm" "f_kind fd = kind"
    and "\<exists>cfg. validate_feed_config S kind data = Inr cfg \<and> f_data fd = feed_config_dump cfg"
  using assms
  by (cases "validate_feed_config S kind data"; auto simp: feed_create_def feed_build_def new_id_def Let_def split: sum.splits if_splits prod.splits)+

end
