(* ===== verification/Rest_Feeds.thy ===== *)
theory Rest_Feeds
  imports Feeds
begin

text \<open>
  The HTTP endpoints of feeds, their sources and their items (feeds/views.py, feeds/api.py,
  feeds/serializers.py, common/api\_params.py), each as a function of the account the request is
  scoped to. The framework's own parsing of a body into declared fields is outside: a form holds the
  values those fields yield. Two pydantic parsers are parameters: that of a list of sources, and, in
  \<open>source_env\<close>, that of a stored row. Telemetry and the display-only summaries are left out.
\<close>

subsection \<open>Requests and answers\<close>

text \<open>A status with a body, a refusal with its status, or an exception no handler of the view catches.\<close>

datatype 'a answer = Answer nat 'a | Reject nat | Crash exn

record query =
  q_limit :: "string option"
  q_after :: "ulid option"
  q_dry_run :: "string option"

definition TRUTHY :: "string set" where
  "TRUTHY = {''1'', ''true'', ''yes'', ''on''}"

definition DEFAULT_LIMIT :: int where
  "DEFAULT_LIMIT = 50"

definition MAX_LIMIT :: int where
  "MAX_LIMIT = 200"

definition is_truthy :: "string option \<Rightarrow> bool" where
  "is_truthy v = (case v of None \<Rightarrow> False | Some s \<Rightarrow> lower (strip s) \<in> TRUTHY)"

definition wants_dry_run :: "query \<Rightarrow> bool" where
  "wants_dry_run q = is_truthy (q_dry_run q)"

text \<open>Python's \<open>int(s)\<close>: a sign, digits grouped by single underscores, no more than 4300 of them.\<close>

definition int_text :: "string \<Rightarrow> int option" where
  "int_text s =
     (let t = strip s;
          neg = (t \<noteq> [] \<and> hd t = CHR ''-'');
          groups = split_on (CHR ''_'') (if t \<noteq> [] \<and> hd t \<in> {CHR ''-'', CHR ''+''} then tl t else t);
          ds = concat groups
      in if list_all (\<lambda>g. g \<noteq> [] \<and> list_all is_digit g) groups \<and> length ds \<le> 4300
         then Some (if neg then - int (digits_value ds) else int (digits_value ds)) else None)"

definition parse_limit :: "query \<Rightarrow> nat" where
  "parse_limit q =
     nat (case q_limit q of None \<Rightarrow> DEFAULT_LIMIT
          | Some raw \<Rightarrow> (case int_text raw of None \<Rightarrow> DEFAULT_LIMIT | Some n \<Rightarrow> max 1 (min MAX_LIMIT n)))"

definition next_cursor :: "('r \<Rightarrow> ulid) \<Rightarrow> nat \<Rightarrow> 'r list \<Rightarrow> ulid option" where
  "next_cursor key lmt rows = (if length rows = lmt then map_option key (first (rev rows)) else None)"

fun each :: "('a \<Rightarrow> exn + 'b) \<Rightarrow> 'a list \<Rightarrow> exn + 'b list" where
  "each f [] = Inr []"
| "each f (x # xs) = (case f x of Inl e \<Rightarrow> Inl e | Inr y \<Rightarrow> map_sum id ((#) y) (each f xs))"

definition answer_of :: "nat \<Rightarrow> exn + 'a \<Rightarrow> 'a answer" where
  "answer_of code r = (case r of Inl e \<Rightarrow> Crash e | Inr x \<Rightarrow> Answer code x)"

subsection \<open>Wire shapes\<close>

record feed_wire =
  fw_id :: ulid
  fw_name :: string
  fw_kind :: string
  fw_active :: bool
  fw_interval :: int
  fw_last_polled :: "instant option"
  fw_next_poll :: "instant option"
  fw_user :: ulid
  fw_data :: curated_config

record source_wire =
  sw_id :: ulid
  sw_spec :: source_spec
  sw_meta :: "(string \<times> string) list"
  sw_field_map :: "(string \<times> string) list"
  sw_last_event :: "instant option"
  sw_display :: string

record feed_view =
  fv_feed :: feed_wire
  fv_sources :: "source_wire list"
  fv_count :: nat

definition redacted_data :: "source_env \<Rightarrow> feed \<Rightarrow> blob" where
  "redacted_data S fd =
     (case load_feed_config S fd of
        Inl _ \<Rightarrow> [(''error'', JStr ''config_unreadable'')] | Inr cfg \<Rightarrow> feed_config_dump cfg)"

definition feed_wire_of :: "source_env \<Rightarrow> feed \<Rightarrow> exn + feed_wire" where
  "feed_wire_of S fd =
     (case feed_validate S (redacted_data S fd) of
        None \<Rightarrow> Inl ValidationError
      | Some cfg \<Rightarrow> Inr \<lparr>fw_id = f_id fd, fw_name = f_name fd, fw_kind = f_kind fd, fw_active = f_active fd,
                        fw_interval = f_poll_interval fd, fw_last_polled = f_last_polled fd,
                        fw_next_poll = f_next_poll fd, fw_user = f_user fd, fw_data = cfg\<rparr>)"

definition source_wire_of :: "source_env \<Rightarrow> source \<Rightarrow> exn + source_wire" where
  "source_wire_of S s =
     (case spec_adapter S (so_spec s) of
        None \<Rightarrow> Inl ValidationError
      | Some spec \<Rightarrow> Inr \<lparr>sw_id = so_id s, sw_spec = spec, sw_meta = so_meta s, sw_field_map = so_field_map s,
                         sw_last_event = so_last_event s, sw_display = spec_display (py_str S) spec\<rparr>)"

definition sources_of_feed :: "feed \<Rightarrow> db \<Rightarrow> exn + source list" where
  "sources_of_feed fd d = (if f_id fd = blank then Inr [] else source_list (f_account fd) fd d)"

definition feed_view_of :: "source_env \<Rightarrow> feed \<Rightarrow> db \<Rightarrow> exn + feed_view" where
  "feed_view_of S fd d =
     (case sources_of_feed fd d of
        Inl e \<Rightarrow> Inl e
      | Inr rows \<Rightarrow>
          (case feed_wire_of S fd of
             Inl e \<Rightarrow> Inl e
           | Inr w \<Rightarrow> map_sum id (\<lambda>ws. \<lparr>fv_feed = w, fv_sources = ws, fv_count = length rows\<rparr>) (each (source_wire_of S) rows)))"

definition feed_mutation :: "source_env \<Rightarrow> feed \<Rightarrow> bool \<Rightarrow> db \<Rightarrow> exn + feed_view \<times> bool" where
  "feed_mutation S fd dry_run d = map_sum id (\<lambda>v. (v, dry_run)) (feed_view_of S fd d)"

subsection \<open>Feeds\<close>

record feed_form =
  ff_name :: string
  ff_kind :: string
  ff_interval :: int
  ff_active :: bool
  ff_data :: blob
  ff_sources :: "json list"

text \<open>\<open>FeedCreateSerializer\<close>: every failure it names is a 400.\<close>

definition feed_fields :: "source_env \<Rightarrow> (json \<Rightarrow> source_input list option) \<Rightarrow> feed_form
    \<Rightarrow> exn + curated_config \<times> source_input list" where
  "feed_fields S adapter form =
     (if ff_kind form \<noteq> ''curated'' then Inl ValidationError
      else case validate_feed_config S (ff_kind form) (ff_data form) of
             Inl e \<Rightarrow> Inl (if e = PolicyError then ValidationError else e)
           | Inr cfg \<Rightarrow>
               if ff_sources form = [] then Inr (cfg, [])
               else case adapter (JArr (ff_sources form)) of None \<Rightarrow> Inl ValidationError | Some xs \<Rightarrow> Inr (cfg, xs))"

definition read_feed :: "ulid \<Rightarrow> ulid \<Rightarrow> (feed \<Rightarrow> 'a answer) \<Rightarrow> db \<Rightarrow> 'a answer" where
  "read_feed acct fid k d = (case feed_get acct fid d of Inl _ \<Rightarrow> Reject 404 | Inr fd \<Rightarrow> k fd)"

definition find_feed :: "ulid \<Rightarrow> ulid \<Rightarrow> (feed \<Rightarrow> 'a answer \<times> db) \<Rightarrow> db \<Rightarrow> 'a answer \<times> db" where
  "find_feed acct fid k d = (case feed_get acct fid d of Inl _ \<Rightarrow> (Reject 404, d) | Inr fd \<Rightarrow> k fd)"

text \<open>The view catches nothing the create raises.\<close>

definition feeds_post :: "env \<Rightarrow> source_env \<Rightarrow> (json \<Rightarrow> source_input list option) \<Rightarrow> ulid \<Rightarrow> ulid \<Rightarrow> query \<Rightarrow> feed_form
    \<Rightarrow> bool \<Rightarrow> instant \<Rightarrow> db \<Rightarrow> (feed_view \<times> bool) answer \<times> db" where
  "feeds_post E S adapter acct uid q form acquired now d =
     (case feed_fields S adapter form of
        Inl e \<Rightarrow> (if e = ValidationError then Reject 400 else Crash e, d)
      | Inr (cfg, srcs) \<Rightarrow>
          if wants_dry_run q then
            (case feed_build S acct uid (ff_name form) (ff_kind form) (ff_interval form) (feed_config_dump cfg) (ff_active form) of
               Inl e \<Rightarrow> (Crash e, d)
             | Inr fd \<Rightarrow> (answer_of 200 (map_sum id (\<lambda>(v, dry). (v\<lparr>fv_count := length srcs\<rparr>, dry)) (feed_mutation S fd True d)), d))
          else
            (case feed_create E S acct uid (ff_name form) (ff_kind form) (ff_interval form) (feed_config_dump cfg)
                    (ff_active form) srcs acquired now d of
               (Inl e, d') \<Rightarrow> (Crash e, d')
             | (Inr fd, d') \<Rightarrow> (answer_of 201 (feed_mutation S fd False d'), d')))"

definition feeds_get :: "source_env \<Rightarrow> ulid \<Rightarrow> query \<Rightarrow> db \<Rightarrow> (feed_wire list \<times> ulid option) answer" where
  "feeds_get S acct q d =
     (let rows = feed_list acct (q_after q) (parse_limit q) d
      in answer_of 200 (map_sum id (\<lambda>ws. (ws, next_cursor f_id (parse_limit q) rows)) (each (feed_wire_of S) rows)))"

definition feed_detail_get :: "source_env \<Rightarrow> ulid \<Rightarrow> ulid \<Rightarrow> db \<Rightarrow> feed_view answer" where
  "feed_detail_get S acct fid d = read_feed acct fid (\<lambda>fd. answer_of 200 (feed_view_of S fd d)) d"

definition feed_detail_put :: "source_env \<Rightarrow> (json \<Rightarrow> source_input list option) \<Rightarrow> ulid \<Rightarrow> ulid \<Rightarrow> query \<Rightarrow> feed_form
    \<Rightarrow> db \<Rightarrow> (feed_view \<times> bool) answer \<times> db" where
  "feed_detail_put S adapter acct fid q form d =
     (case feed_fields S adapter form of
        Inl e \<Rightarrow> (if e = ValidationError then Reject 400 else Crash e, d)
      | Inr (cfg, _) \<Rightarrow>
          find_feed acct fid (\<lambda>fd.
            if ff_kind form \<noteq> f_kind fd then (Reject 409, d)
            else if wants_dry_run q then
              (case feed_build_update S acct fd (ff_name form) (ff_interval form) (feed_config_dump cfg) (ff_active form) of
                 Inl e \<Rightarrow> (if e = PolicyError then Reject 400 else Crash e, d)
               | Inr fd' \<Rightarrow> (answer_of 200 (feed_mutation S fd' True d), d))
            else
              (case feed_update S acct fd (ff_name form) (ff_interval form) (feed_config_dump cfg) (ff_active form) d of
                 (Inl e, d') \<Rightarrow> (if e = PolicyError then Reject 400 else Crash e, d')
               | (Inr fd', d') \<Rightarrow> (answer_of 200 (feed_mutation S fd' False d'), d'))) d)"

text \<open>\<open>None\<close> is a body the serializer rejects.\<close>

definition feed_detail_patch :: "source_env \<Rightarrow> ulid \<Rightarrow> ulid \<Rightarrow> bool option \<Rightarrow> db \<Rightarrow> feed_view answer \<times> db" where
  "feed_detail_patch S acct fid active d =
     (case active of
        None \<Rightarrow> (Reject 400, d)
      | Some b \<Rightarrow>
          find_feed acct fid (\<lambda>fd. case feed_set_active acct fd b d of
              (Inl e, d') \<Rightarrow> (Crash e, d')
            | (Inr fd', d') \<Rightarrow> (answer_of 200 (feed_view_of S fd' d'), d')) d)"

definition feed_detail_delete :: "ulid \<Rightarrow> ulid \<Rightarrow> db \<Rightarrow> unit answer \<times> db" where
  "feed_detail_delete acct fid d =
     find_feed acct fid (\<lambda>fd. case feed_delete acct fd d of
         (Inl e, d') \<Rightarrow> (Crash e, d') | (Inr _, d') \<Rightarrow> (Answer 204 (), d')) d"

subsection \<open>Sources\<close>

definition feed_sources_get :: "source_env \<Rightarrow> ulid \<Rightarrow> ulid \<Rightarrow> db \<Rightarrow> source_wire list answer" where
  "feed_sources_get S acct fid d =
     read_feed acct fid (\<lambda>fd. case source_list acct fd d of
         Inl e \<Rightarrow> Crash e | Inr rows \<Rightarrow> answer_of 200 (each (source_wire_of S) rows)) d"

definition feed_sources_put :: "env \<Rightarrow> source_env \<Rightarrow> (json \<Rightarrow> source_input list option) \<Rightarrow> ulid \<Rightarrow> ulid \<Rightarrow> json
    \<Rightarrow> bool \<Rightarrow> instant \<Rightarrow> db \<Rightarrow> source_set_result answer \<times> db" where
  "feed_sources_put E S adapter acct fid body acquired now d =
     (case body of
        JObj kvs \<Rightarrow>
          (let given = (case map_of kvs ''sources'' of Some v \<Rightarrow> if json_truthy v then v else JArr [] | None \<Rightarrow> JArr [])
           in case adapter given of
                None \<Rightarrow> (Reject 400, d)
              | Some items \<Rightarrow>
                  (case (case map_of kvs ''dry_run'' of None \<Rightarrow> JBool False | Some v \<Rightarrow> v) of
                     JBool dry_run \<Rightarrow>
                       find_feed acct fid (\<lambda>fd. case set_sources E S acct fd items dry_run acquired now d of
                           (Inl e, d') \<Rightarrow> (if e = PolicyError then Reject 400
                                         else if e = ConcurrentSetSourcesError then Reject 409 else Crash e, d')
                         | (Inr r, d') \<Rightarrow> (Answer 200 r, d')) d
                   | _ \<Rightarrow> (Reject 400, d)))
      | _ \<Rightarrow> (Reject 400, d))"

definition source_detail_get :: "source_env \<Rightarrow> ulid \<Rightarrow> ulid \<Rightarrow> db \<Rightarrow> source_wire answer" where
  "source_detail_get S acct sid d =
     (case source_get_by_id acct sid d of Inl _ \<Rightarrow> Reject 404 | Inr s \<Rightarrow> answer_of 200 (source_wire_of S s))"

definition source_detail_delete :: "ulid \<Rightarrow> ulid \<Rightarrow> db \<Rightarrow> unit answer \<times> db" where
  "source_detail_delete acct sid d =
     (case source_remove_by_id acct sid d of
        (Inl e, d') \<Rightarrow> (if e = DoesNotExist then Reject 404 else if e = PolicyError then Reject 400 else Crash e, d')
      | (Inr _, d') \<Rightarrow> (Answer 204 (), d'))"

subsection \<open>Items\<close>

record item_wire =
  iw_id :: ulid
  iw_kind :: string
  iw_label :: string
  iw_external :: string
  iw_occurred :: "instant option"
  iw_data :: blob

text \<open>\<open>payload\<close> parses the stored payload into its typed union and dumps it.\<close>

definition feed_item_wire :: "(blob \<Rightarrow> blob option) \<Rightarrow> feed_item \<Rightarrow> exn + item_wire" where
  "feed_item_wire payload i =
     (case payload (i_data i) of
        None \<Rightarrow> Inl ValidationError
      | Some data \<Rightarrow> Inr \<lparr>iw_id = i_id i, iw_kind = i_source_kind i, iw_label = i_source_label i,
                         iw_external = i_external_id i, iw_occurred = i_occurred i, iw_data = data\<rparr>)"

definition feed_items_get :: "(blob \<Rightarrow> blob option) \<Rightarrow> ulid \<Rightarrow> ulid \<Rightarrow> query \<Rightarrow> db \<Rightarrow> (item_wire list \<times> ulid option) answer" where
  "feed_items_get payload acct fid q d =
     read_feed acct fid (\<lambda>fd. case list_for_feed acct fd (q_after q) (parse_limit q) d of
         Inl e \<Rightarrow> Crash e
       | Inr rows \<Rightarrow> answer_of 200 (map_sum id (\<lambda>ws. (ws, next_cursor i_id (parse_limit q) rows))
                      (each (feed_item_wire payload) rows))) d"

definition feed_item_detail_get :: "(blob \<Rightarrow> blob option) \<Rightarrow> ulid \<Rightarrow> ulid \<Rightarrow> db \<Rightarrow> item_wire answer" where
  "feed_item_detail_get payload acct iid d =
     (case item_get acct iid d of Inl _ \<Rightarrow> Reject 404 | Inr i \<Rightarrow> answer_of 200 (feed_item_wire payload i))"

subsection \<open>Facts\<close>

text \<open>However the limit is written, a page is between one row and the maximum.\<close>

lemma parse_limit_bounds: "1 \<le> parse_limit q \<and> parse_limit q \<le> 200"
  by (auto simp: parse_limit_def DEFAULT_LIMIT_def MAX_LIMIT_def split: option.split)

lemma each_Inr: "each f xs = Inr ys \<Longrightarrow> length ys = length xs \<and> (\<forall>i < length xs. f (xs ! i) = Inr (ys ! i))"
proof (induction xs arbitrary: ys)
  case (Cons x xs)
  then obtain y zs where "f x = Inr y" "each f xs = Inr zs" "ys = y # zs"
    by (cases "f x"; cases "each f xs") auto
  with Cons.IH[of zs] show ?case by (auto simp: less_Suc_eq_0_disj)
qed simp

text \<open>What the serializer accepts the build accepts: a preview is never a server error.\<close>

lemma enforce_feed_policy_Inr: "enforce_feed_policy cfg = Inr c \<longleftrightarrow> c = cfg \<and> RETENTION_MIN_DAYS \<le> retention_days cfg
    \<and> retention_days cfg \<le> RETENTION_MAX_DAYS"
  by (auto simp: enforce_feed_policy_def)

lemma feed_fields_config:
  assumes "feed_fields S adapter form = Inr (cfg, srcs)" "\<And>c. feed_validate S (feed_config_dump c) = Some c"
  shows "validate_feed_config S (ff_kind form) (feed_config_dump cfg) = Inr cfg"
proof -
  have "enforce_feed_policy cfg = Inr cfg" "ff_kind form = ''curated''"
    using assms(1) by (auto simp: feed_fields_def validate_feed_config_def parse_feed_config_def enforce_feed_policy_Inr
        split: if_splits sum.splits option.splits)
  then show ?thesis using assms(2)[of cfg] by (simp add: validate_feed_config_def parse_feed_config_def)
qed

text \<open>A read or a refusal writes nothing.\<close>

lemma feeds_post_refused: "feeds_post E S adapter acct uid q form acquired now d = (Reject n, d') \<Longrightarrow> d' = d"
  by (auto simp: feeds_post_def answer_of_def split: sum.splits prod.splits if_splits)

text \<open>
  A starter source the policy refuses is not answered by a 400: the serializer does not check it and
  the view does not catch what the service raises.
\<close>

lemma starter_policy_crashes:
  assumes "feed_fields S adapter form = Inr (cfg, srcs)" "\<And>c. feed_validate S (feed_config_dump c) = Some c"
    and "\<not> wants_dry_run q" "srcs \<noteq> []" "\<not> list_all (\<lambda>x. SOURCE_KIND (si_spec x) \<in> registered_kinds S) srcs"
  shows "feeds_post E S adapter acct uid q form acquired now d = (Crash PolicyError, d)"
proof -
  have "ff_kind form = ''curated''" using assms(1) by (auto simp: feed_fields_def split: if_splits)
  with assms feed_fields_config[OF assms(1,2)] show ?thesis
    by (simp add: feeds_post_def feed_create_def feed_build_def set_sources_def assert_curated_def new_id_def Let_def)
qed

end
