(* ===== verification/Rest_Watches.thy ===== *)
theory Rest_Watches
  imports Rest_Feeds Backfill
begin

text \<open>
  The HTTP endpoints of watches, actions, activity, deliveries and backfills (watches/views.py,
  views\_audit.py, views\_backfill.py, api.py, serializers.py, serializers\_audit.py), each as a
  function of the account the request is scoped to. As in Rest\_Feeds, a form holds the values the
  framework's fields yield; the display-only summary of an action is left out.
\<close>

subsection \<open>Wire shapes\<close>

record action_wire =
  aw_id :: ulid
  aw_kind :: string
  aw_rank :: nat
  aw_config :: "action_config option"

text \<open>
  A stored config that no longer types degrades to \<open>None\<close>, a kind the server does not know drops
  the row. What is shown is the redacted config, typed again by the wire's union, in which a kind
  that is not built in takes any blob.
\<close>

definition action_redacted :: "env \<Rightarrow> watch_action \<Rightarrow> action_config option" where
  "action_redacted E a =
     (case load_config E a of
        Inl _ \<Rightarrow> None
      | Inr c \<Rightarrow> if a_kind a \<in> BUILTIN_ACTION_KINDS then model_validate E (a_kind a) (model_dump E (redacted_dump c))
               else Some (redacted_dump c))"

definition action_wire_of :: "env \<Rightarrow> watch_action \<Rightarrow> action_wire option" where
  "action_wire_of E a =
     (if a_kind a \<notin> known_kinds E then None
      else Some \<lparr>aw_id = a_id a, aw_kind = a_kind a, aw_rank = a_rank a, aw_config = action_redacted E a\<rparr>)"

fun action_wires :: "env \<Rightarrow> watch_action list \<Rightarrow> action_wire list" where
  "action_wires E [] = []"
| "action_wires E (a # as) = (case action_wire_of E a of None \<Rightarrow> action_wires E as | Some w \<Rightarrow> w # action_wires E as)"

record watch_view =
  wv_watch :: watch
  wv_feeds :: "ulid list"
  wv_actions :: "action_wire list"

definition watch_view_of :: "env \<Rightarrow> ulid \<Rightarrow> watch \<Rightarrow> db \<Rightarrow> exn + watch_view" where
  "watch_view_of E acct w d =
     (case feed_ids acct w d of
        Inl e \<Rightarrow> Inl e
      | Inr fids \<Rightarrow> map_sum id (\<lambda>as. \<lparr>wv_watch = w, wv_feeds = fids, wv_actions = action_wires E as\<rparr>) (initial_actions acct w d))"

text \<open>The unsaved rows of a whole-chain preview, validated again and redacted.\<close>

fun input_wires :: "env \<Rightarrow> nat \<Rightarrow> action_spec list \<Rightarrow> exn + action_wire list" where
  "input_wires E rank [] = Inr []"
| "input_wires E rank (s # ss) =
     (case validate_config E (sp_kind s) (sp_config s) of
        Inl e \<Rightarrow> Inl e
      | Inr c \<Rightarrow>
          (case action_wire_of E \<lparr>a_id = blank, a_account = blank, a_path = blank, a_kind = sp_kind s,
                                  a_config = model_dump E c, a_rank = rank\<rparr> of
             None \<Rightarrow> Inl AssertionError
           | Some w \<Rightarrow> map_sum id ((#) w) (input_wires E (Suc rank) ss)))"

definition action_mutation :: "env \<Rightarrow> watch_action \<Rightarrow> bool \<Rightarrow> exn + action_wire \<times> bool" where
  "action_mutation E a dry_run = (case action_wire_of E a of None \<Rightarrow> Inl AssertionError | Some w \<Rightarrow> Inr (w, dry_run))"

subsection \<open>The body of a watch\<close>

text \<open>One entry of \<open>actions\<close>, a JSON object: what it has under \<open>id\<close>, \<open>kind\<close> and \<open>config\<close>.\<close>

record raw_action =
  ra_id :: ulid
  ra_kind :: "json option"
  ra_config :: "json option"

record watch_form =
  wr_name :: string
  wr_active :: bool
  wr_feed_ids :: "ulid list"
  wr_actions :: "raw_action list"

text \<open>\<open>kind not in kinds\<close> on a frozenset: an object or an array is unhashable.\<close>

definition known_kind :: "env \<Rightarrow> json option \<Rightarrow> exn + string option" where
  "known_kind E kind =
     (case kind of
        Some (JStr k) \<Rightarrow> Inr (if k \<in> known_kinds E then Some k else None)
      | Some (JArr _) \<Rightarrow> Inl TypeError
      | Some (JObj _) \<Rightarrow> Inl TypeError
      | _ \<Rightarrow> Inr None)"

definition check_action :: "env \<Rightarrow> raw_action \<Rightarrow> exn + action_spec" where
  "check_action E raw =
     (case known_kind E (ra_kind raw) of
        Inl e \<Rightarrow> Inl e
      | Inr None \<Rightarrow> Inl ValidationError
      | Inr (Some kind) \<Rightarrow>
          (case ra_config raw of
             Some (JObj config) \<Rightarrow>
               (case validate_config E kind config of
                  Inl e \<Rightarrow> Inl (if e = PolicyError then ValidationError else e)
                | Inr c \<Rightarrow> Inr \<lparr>sp_id = ra_id raw, sp_kind = kind, sp_config = model_dump E c\<rparr>)
           | _ \<Rightarrow> Inl ValidationError))"

text \<open>Every entry is checked; the named failures are collected, any other is raised where it arises.\<close>

fun check_actions :: "env \<Rightarrow> raw_action list \<Rightarrow> exn + action_spec list" where
  "check_actions E [] = Inr []"
| "check_actions E (r # rs) =
     (case check_action E r of
        Inl e \<Rightarrow> if e = ValidationError then (case check_actions E rs of Inl e' \<Rightarrow> Inl e' | Inr _ \<Rightarrow> Inl ValidationError) else Inl e
      | Inr s \<Rightarrow> map_sum id ((#) s) (check_actions E rs))"

definition watch_fields :: "env \<Rightarrow> ulid \<Rightarrow> watch_form \<Rightarrow> db \<Rightarrow> exn + action_spec list" where
  "watch_fields E acct form d =
     (if \<not> set (wr_feed_ids form) \<subseteq> feed_existing_ids acct (wr_feed_ids form) d then Inl ValidationError
      else check_actions E (wr_actions form))"

definition read_watch :: "ulid \<Rightarrow> ulid \<Rightarrow> (watch \<Rightarrow> 'a answer) \<Rightarrow> db \<Rightarrow> 'a answer" where
  "read_watch acct wid k d = (case watch_get acct wid d of Inl _ \<Rightarrow> Reject 404 | Inr w \<Rightarrow> k w)"

definition read_action :: "ulid \<Rightarrow> ulid \<Rightarrow> (watch_action \<Rightarrow> 'a answer) \<Rightarrow> db \<Rightarrow> 'a answer" where
  "read_action acct aid k d = (case action_get acct aid d of Inl _ \<Rightarrow> Reject 404 | Inr a \<Rightarrow> k a)"

definition find_watch :: "ulid \<Rightarrow> ulid \<Rightarrow> (watch \<Rightarrow> 'a answer \<times> db) \<Rightarrow> db \<Rightarrow> 'a answer \<times> db" where
  "find_watch acct wid k d = (case watch_get acct wid d of Inl _ \<Rightarrow> (Reject 404, d) | Inr w \<Rightarrow> k w)"

definition find_action :: "ulid \<Rightarrow> ulid \<Rightarrow> (watch_action \<Rightarrow> 'a answer \<times> db) \<Rightarrow> db \<Rightarrow> 'a answer \<times> db" where
  "find_action acct aid k d = (case action_get acct aid d of Inl _ \<Rightarrow> (Reject 404, d) | Inr a \<Rightarrow> k a)"

text \<open>The two errors of a chain write that the views answer.\<close>

definition chain_refusal :: "exn \<Rightarrow> 'a answer" where
  "chain_refusal e = (if e = PolicyError then Reject 400 else if e = ConcurrentChainError then Reject 409 else Crash e)"

subsection \<open>Watches\<close>

definition watches_post :: "env \<Rightarrow> ulid \<Rightarrow> query \<Rightarrow> watch_form \<Rightarrow> bool \<Rightarrow> db \<Rightarrow> (watch_view \<times> bool) answer \<times> db" where
  "watches_post E acct q form acquired d =
     (case watch_fields E acct form d of
        Inl e \<Rightarrow> (if e = ValidationError then Reject 400 else Crash e, d)
      | Inr specs \<Rightarrow>
          if wants_dry_run q then
            (answer_of 200 (map_sum id (\<lambda>ws. (\<lparr>wv_watch = \<lparr>w_id = blank, w_account = acct, w_name = wr_name form,
                 w_active = wr_active form, w_initial_path = blank\<rparr>, wv_feeds = wr_feed_ids form, wv_actions = ws\<rparr>, True))
               (input_wires E 0 specs)), d)
          else (case create_watch E acct (wr_name form) (wr_active form) (wr_feed_ids form) specs acquired d of
                  (Inl e, d') \<Rightarrow> (chain_refusal e, d')
                | (Inr w, d') \<Rightarrow> (answer_of 201 (map_sum id (\<lambda>v. (v, False)) (watch_view_of E acct w d')), d')))"

definition watches_get :: "ulid \<Rightarrow> query \<Rightarrow> db \<Rightarrow> ((watch \<times> ulid list) list \<times> ulid option) answer" where
  "watches_get acct q d =
     (let rows = watch_list acct (q_after q) (parse_limit q) d
      in answer_of 200 (map_sum id (\<lambda>ws. (ws, next_cursor w_id (parse_limit q) rows))
           (each (\<lambda>w. map_sum id (Pair w) (feed_ids acct w d)) rows)))"

definition watch_detail_get :: "env \<Rightarrow> ulid \<Rightarrow> ulid \<Rightarrow> db \<Rightarrow> watch_view answer" where
  "watch_detail_get E acct wid d = read_watch acct wid (\<lambda>w. answer_of 200 (watch_view_of E acct w d)) d"

definition watch_detail_put :: "env \<Rightarrow> ulid \<Rightarrow> ulid \<Rightarrow> query \<Rightarrow> watch_form \<Rightarrow> bool \<Rightarrow> db
    \<Rightarrow> (watch_view \<times> bool) answer \<times> db" where
  "watch_detail_put E acct wid q form acquired d =
     (case watch_fields E acct form d of
        Inl e \<Rightarrow> (if e = ValidationError then Reject 400 else Crash e, d)
      | Inr specs \<Rightarrow>
          find_watch acct wid (\<lambda>w.
            if wants_dry_run q then
              (case input_wires E 0 specs of
                 Inl e \<Rightarrow> (chain_refusal e, d)
               | Inr ws \<Rightarrow> (Answer 200 (\<lparr>wv_watch = w, wv_feeds = wr_feed_ids form, wv_actions = ws\<rparr>, True), d))
            else (case update_watch E acct w (wr_name form) (wr_active form) (wr_feed_ids form) specs acquired d of
                    (Inl e, d') \<Rightarrow> (chain_refusal e, d')
                  | (Inr w', d') \<Rightarrow> (answer_of 200 (map_sum id (\<lambda>v. (v, False)) (watch_view_of E acct w' d')), d'))) d)"

definition watch_detail_patch :: "env \<Rightarrow> ulid \<Rightarrow> ulid \<Rightarrow> bool option \<Rightarrow> db \<Rightarrow> watch_view answer \<times> db" where
  "watch_detail_patch E acct wid active d =
     (case active of
        None \<Rightarrow> (Reject 400, d)
      | Some b \<Rightarrow>
          find_watch acct wid (\<lambda>w. case set_active acct w b d of
              (Inl e, d') \<Rightarrow> (Crash e, d')
            | (Inr w', d') \<Rightarrow> (answer_of 200 (watch_view_of E acct w' d'), d')) d)"

definition watch_detail_delete :: "ulid \<Rightarrow> ulid \<Rightarrow> db \<Rightarrow> unit answer \<times> db" where
  "watch_detail_delete acct wid d =
     find_watch acct wid (\<lambda>w. case delete_watch acct w d of
         (Inl e, d') \<Rightarrow> (Crash e, d') | (Inr _, d') \<Rightarrow> (Answer 204 (), d')) d"

subsection \<open>Actions\<close>

definition watch_actions_get :: "env \<Rightarrow> ulid \<Rightarrow> ulid \<Rightarrow> db \<Rightarrow> action_wire list answer" where
  "watch_actions_get E acct wid d =
     read_watch acct wid (\<lambda>w. answer_of 200 (map_sum id (action_wires E) (initial_actions acct w d))) d"

text \<open>An integer rank; to Python a boolean is one.\<close>

definition rank_field :: "json option \<Rightarrow> int option option" where
  "rank_field rank =
     (case rank of
        None \<Rightarrow> Some None | Some JNull \<Rightarrow> Some None | Some (JNum n) \<Rightarrow> Some (Some n)
      | Some (JBool b) \<Rightarrow> Some (Some (if b then 1 else 0)) | _ \<Rightarrow> None)"

definition watch_actions_post :: "env \<Rightarrow> ulid \<Rightarrow> ulid \<Rightarrow> query \<Rightarrow> json \<Rightarrow> bool \<Rightarrow> db \<Rightarrow> (action_wire \<times> bool) answer \<times> db" where
  "watch_actions_post E acct wid q body acquired d =
     (case body of
        JObj kvs \<Rightarrow>
          (case (map_of kvs ''config'', rank_field (map_of kvs ''rank'')) of
             (Some (JObj config), Some rank) \<Rightarrow>
               (case known_kind E (map_of kvs ''kind'') of
                  Inl e \<Rightarrow> (Crash e, d)
                | Inr None \<Rightarrow> (Reject 400, d)
                | Inr (Some kind) \<Rightarrow>
                    (case parse_config E kind config of
                       Inl e \<Rightarrow> (if e = ValidationError then Reject 400 else Crash e, d)
                     | Inr _ \<Rightarrow>
                         find_watch acct wid (\<lambda>w.
                           case add_action E acct (w_initial_path w) \<lparr>sp_id = blank, sp_kind = kind, sp_config = config\<rparr>
                                  rank (wants_dry_run q) acquired d of
                             (Inl e, d') \<Rightarrow> (if e = ValidationError then Reject 400 else chain_refusal e, d')
                           | (Inr a, d') \<Rightarrow> (answer_of (if wants_dry_run q then 200 else 201)
                                              (action_mutation E a (wants_dry_run q)), d')) d))
           | _ \<Rightarrow> (Reject 400, d))
      | _ \<Rightarrow> (Reject 400, d))"

definition action_detail_get :: "env \<Rightarrow> ulid \<Rightarrow> ulid \<Rightarrow> db \<Rightarrow> action_wire answer" where
  "action_detail_get E acct aid d =
     read_action acct aid (\<lambda>a. case action_wire_of E a of None \<Rightarrow> Reject 404 | Some w \<Rightarrow> Answer 200 w) d"

definition action_detail_put :: "env \<Rightarrow> ulid \<Rightarrow> ulid \<Rightarrow> query \<Rightarrow> json \<Rightarrow> db \<Rightarrow> (action_wire \<times> bool) answer \<times> db" where
  "action_detail_put E acct aid q body d =
     (case body of
        JObj kvs \<Rightarrow>
          (case map_of kvs ''config'' of
             Some (JObj config) \<Rightarrow>
               (case known_kind E (map_of kvs ''kind'') of
                  Inl e \<Rightarrow> (Crash e, d)
                | Inr None \<Rightarrow> (Reject 400, d)
                | Inr (Some kind) \<Rightarrow>
                    (case parse_config E kind config of
                       Inl e \<Rightarrow> (if e = ValidationError then Reject 400 else Crash e, d)
                     | Inr _ \<Rightarrow>
                         find_action acct aid (\<lambda>a.
                           case set_config E acct a \<lparr>sp_id = blank, sp_kind = kind, sp_config = config\<rparr> (wants_dry_run q) d of
                             (Inl e, d') \<Rightarrow> (if e \<in> {ValidationError, PolicyError} then Reject 400 else Crash e, d')
                           | (Inr a', d') \<Rightarrow> (answer_of 200 (action_mutation E a' (wants_dry_run q)), d')) d))
           | _ \<Rightarrow> (Reject 400, d))
      | _ \<Rightarrow> (Reject 400, d))"

definition action_detail_delete :: "ulid \<Rightarrow> ulid \<Rightarrow> bool \<Rightarrow> db \<Rightarrow> unit answer \<times> db" where
  "action_detail_delete acct aid acquired d =
     find_action acct aid (\<lambda>a. case remove_action acct a acquired d of
         (Inl e, d') \<Rightarrow> (if e = ConcurrentChainError then Reject 409 else Crash e, d') | (Inr _, d') \<Rightarrow> (Answer 204 (), d')) d"

subsection \<open>Activity\<close>

definition activity_bounds :: "activity_window \<Rightarrow> instant \<Rightarrow> instant \<times> instant option" where
  "activity_bounds w now =
     (let midnight = now - now mod seconds 86400
      in case w of DAY \<Rightarrow> (now - seconds 86400, None) | WEEK \<Rightarrow> (now - seconds (7 * 86400), None)
           | MONTH \<Rightarrow> (now - seconds (30 * 86400), None) | YESTERDAY \<Rightarrow> (midnight - seconds 86400, Some midnight))"

definition window_of :: "string \<Rightarrow> activity_window option" where
  "window_of v = find (\<lambda>w. activity_window_value w = v) [DAY, YESTERDAY, WEEK, MONTH]"

definition run_state_of :: "string \<Rightarrow> watch_run_state option" where
  "run_state_of v = find (\<lambda>s. run_state_value s = v) all_run_states"

definition delivery_state_of :: "string \<Rightarrow> delivery_state option" where
  "delivery_state_of v =
     find (\<lambda>s. delivery_state_value s = v) [DELIVERY_PENDING, DELIVERY_SUCCEEDED, DELIVERY_ERRORED, DELIVERY_FAILED]"

text \<open>An empty parameter is an absent one; \<open>None\<close> is the 400.\<close>

definition state_filter :: "(string \<Rightarrow> 's option) \<Rightarrow> string option \<Rightarrow> 's option option" where
  "state_filter known raw =
     (case raw of None \<Rightarrow> Some None | Some v \<Rightarrow> if v = [] then Some None else map_option Some (known v))"

record run_wire =
  rw_run :: run
  rw_result :: "blob option"

text \<open>
  A result that does not fit its kind is dropped, a kind that fits neither branch of the union drops
  the row.
\<close>

definition run_wire_of :: "env \<Rightarrow> run \<Rightarrow> run_wire option" where
  "run_wire_of E r =
     (if r_kind r \<in> BUILTIN_ACTION_KINDS
      then Some \<lparr>rw_run = r, rw_result = (if r_result r \<noteq> [] \<and> result_valid E (r_kind r) (r_result r) then Some (r_result r) else None)\<rparr>
      else if r_kind r \<noteq> [] \<and> length (r_kind r) \<le> KIND_MAX_LENGTH \<and> reject_builtin_kind (r_kind r) BUILTIN_ACTION_KINDS \<noteq> None
      then Some \<lparr>rw_run = r, rw_result = (if r_result r = [] then None else Some (r_result r))\<rparr>
      else None)"

fun run_wires :: "env \<Rightarrow> run list \<Rightarrow> run_wire list" where
  "run_wires E [] = []"
| "run_wires E (r # rs) = (case run_wire_of E r of None \<Rightarrow> run_wires E rs | Some w \<Rightarrow> w # run_wires E rs)"

record run_feed_item =
  rf_feed :: ulid
  rf_title :: string
  rf_url :: string
  rf_external :: string
  rf_label :: string
  rf_occurred :: "instant option"

definition data_text :: "(json \<Rightarrow> string) \<Rightarrow> blob \<Rightarrow> string \<Rightarrow> string" where
  "data_text str data k = (case map_of data k of None \<Rightarrow> [] | Some v \<Rightarrow> str v)"

definition run_feed_item_wire :: "(json \<Rightarrow> string) \<Rightarrow> feed_item \<Rightarrow> run_feed_item" where
  "run_feed_item_wire str i =
     \<lparr>rf_feed = i_feed i, rf_title = data_text str (i_data i) ''title'', rf_url = data_text str (i_data i) ''url'',
      rf_external = data_text str (i_data i) ''external_url'', rf_label = i_source_label i, rf_occurred = i_occurred i\<rparr>"

record activity_query =
  aq_state :: "string option"
  aq_window :: "string option"
  aq_rows :: "string run_windows"

record activity_page =
  ap_items :: "run_wire list"
  ap_cursor :: "ulid option"
  ap_action :: "action_wire option"
  ap_feed_items :: "ulid \<Rightarrow> run_feed_item option"
  ap_feeds :: "ulid \<Rightarrow> (ulid \<times> string) option"
  ap_summary :: "(activity_window \<times> instant \<times> instant option \<times> activity_summary) option"

definition feed_ids_of :: "(ulid \<Rightarrow> feed_item option) \<Rightarrow> run list \<Rightarrow> ulid list" where
  "feed_ids_of items rs = remdups (map i_feed (List.map_filter (\<lambda>r. items (r_item r)) rs))"

definition action_runs_get :: "env \<Rightarrow> (json \<Rightarrow> string) \<Rightarrow> (string \<Rightarrow> dt option) \<Rightarrow> ulid \<Rightarrow> ulid \<Rightarrow> query \<Rightarrow> activity_query
    \<Rightarrow> dt \<Rightarrow> db \<Rightarrow> activity_page answer" where
  "action_runs_get E str fromiso acct aid q a now d =
     read_action acct aid (\<lambda>act.
       (case state_filter run_state_of (aq_state a) of
          None \<Rightarrow> Reject 400
        | Some st \<Rightarrow>
            (case window_of (case aq_window a of None \<Rightarrow> activity_window_value WEEK
                             | Some v \<Rightarrow> if v = [] then activity_window_value WEEK else v) of
               None \<Rightarrow> Reject 400
             | Some window \<Rightarrow>
                 (let raw = run_window_params (occurred_since (aq_rows a)) (occurred_until (aq_rows a))
                              (completed_since (aq_rows a)) (completed_until (aq_rows a))
                  in case resolve_run_windows fromiso raw now of
                       Inl _ \<Rightarrow> Reject 400
                     | Inr resolved \<Rightarrow>
                         (let ws = instants_of resolved; lmt = parse_limit q;
                              rs = list_for_action acct (a_id act) None (q_after q) lmt st ws d;
                              items = get_many acct (map r_item rs) d;
                              fds = feed_get_many acct (feed_ids_of items rs) d;
                              (since, til) = activity_bounds window (instant_of now)
                          in Answer 200
                               \<lparr>ap_items = run_wires E rs, ap_cursor = next_cursor r_id lmt rs,
                                ap_action = action_wire_of E act,
                                ap_feed_items = (\<lambda>i. map_option (run_feed_item_wire str) (items i)),
                                ap_feeds = (\<lambda>i. map_option (\<lambda>f. (f_id f, f_name f)) (fds i)),
                                ap_summary =
                                  (if (q_after q = None \<or> q_after q = Some blank) \<and> ws = no_windows
                                   then Some (window, since, til, summary_for_action acct (a_id act) since til d)
                                   else None)\<rparr>))))) d"

record run_view =
  rv_run :: run_wire
  rv_item :: "run_feed_item option"
  rv_feed :: "(ulid \<times> string) option"
  rv_action :: "action_wire option"

definition activity_detail_get :: "env \<Rightarrow> (json \<Rightarrow> string) \<Rightarrow> ulid \<Rightarrow> ulid \<Rightarrow> db \<Rightarrow> run_view answer" where
  "activity_detail_get E str acct rid d =
     (case run_get acct rid d of
        Inl _ \<Rightarrow> Reject 404
      | Inr r \<Rightarrow>
          (let item = (case item_get acct (r_item r) d of Inl _ \<Rightarrow> None | Inr i \<Rightarrow> Some i);
               fd = (case item of None \<Rightarrow> None
                     | Some i \<Rightarrow> (case feed_get acct (i_feed i) d of Inl _ \<Rightarrow> None | Inr f \<Rightarrow> Some f));
               act = (case action_get acct (r_action r) d of Inl _ \<Rightarrow> None | Inr a \<Rightarrow> Some a)
           in case run_wire_of E r of
                None \<Rightarrow> Reject 404
              | Some w \<Rightarrow> Answer 200 \<lparr>rv_run = w, rv_item = map_option (run_feed_item_wire str) item,
                                      rv_feed = map_option (\<lambda>f. (f_id f, f_name f)) fd,
                                      rv_action = (case act of None \<Rightarrow> None | Some a \<Rightarrow> action_wire_of E a)\<rparr>))"

subsection \<open>Deliveries and backfills\<close>

text \<open>A row of the list carries no payload; a method that is none of the enum's raises.\<close>

definition delivery_view :: "action_delivery \<Rightarrow> exn + action_delivery" where
  "delivery_view x = (if d_method x \<in> method_value ` {POST, PUT, PATCH} then Inr x else Inl ValidationError)"

definition delivery_wire :: "action_delivery \<Rightarrow> exn + action_delivery" where
  "delivery_wire x = map_sum id (\<lambda>x. x\<lparr>d_payload := []\<rparr>) (delivery_view x)"

definition action_deliveries_get :: "ulid \<Rightarrow> ulid \<Rightarrow> query \<Rightarrow> string option \<Rightarrow> db
    \<Rightarrow> (action_delivery list \<times> ulid option) answer" where
  "action_deliveries_get acct aid q state d =
     read_action acct aid (\<lambda>act.
       (case state_filter delivery_state_of state of
          None \<Rightarrow> Reject 400
        | Some st \<Rightarrow>
            (let rows = delivery_list_for_action acct (a_id act) (q_after q) (parse_limit q) st d
             in answer_of 200 (map_sum id (\<lambda>ws. (ws, next_cursor d_id (parse_limit q) rows)) (each delivery_wire rows))))) d"

definition delivery_detail_get :: "ulid \<Rightarrow> ulid \<Rightarrow> db \<Rightarrow> action_delivery answer" where
  "delivery_detail_get acct did d =
     (case delivery_get acct did d of Inl _ \<Rightarrow> Reject 404 | Inr x \<Rightarrow> answer_of 200 (delivery_view x))"

definition backfills_get :: "ulid \<Rightarrow> query \<Rightarrow> db \<Rightarrow> (backfill_job list \<times> ulid option) answer" where
  "backfills_get acct q d = Answer 200 (backfill_list_view acct (q_after q) (parse_limit q) d)"

definition backfill_detail_get :: "ulid \<Rightarrow> ulid \<Rightarrow> db \<Rightarrow> backfill_job answer" where
  "backfill_detail_get acct jid d = (case backfill_get acct jid d of Inl _ \<Rightarrow> Reject 404 | Inr j \<Rightarrow> Answer 200 j)"

end
