(* ===== verification/Rest_Api.thy ===== *)
theory Rest_Api
  imports Rest_Watches
begin

text \<open>
  The routes of the scoped API (feeds/urls.py, item\_urls.py, source\_urls.py, watches/urls.py and its
  siblings) as two datatypes, the requests that read and those that write, with the view each is
  routed to. \<open>api\_env\<close> collects the parameters of the views.
\<close>

record api_env =
  ap_env :: env
  ap_sources :: source_env
  ap_adapter :: "json \<Rightarrow> source_input list option"
  ap_payload :: "blob \<Rightarrow> blob option"
  ap_str :: "json \<Rightarrow> string"
  ap_fromiso :: "string \<Rightarrow> dt option"

datatype api_read =
    Get_Feeds query
  | Get_Feed ulid
  | Get_Feed_Sources ulid
  | Get_Source ulid
  | Get_Feed_Items ulid query
  | Get_Feed_Item ulid
  | Get_Watches query
  | Get_Watch ulid
  | Get_Watch_Actions ulid
  | Get_Action ulid
  | Get_Action_Runs ulid query activity_query dt
  | Get_Run ulid
  | Get_Action_Deliveries ulid query "string option"
  | Get_Delivery ulid
  | Get_Backfills query
  | Get_Backfill ulid

datatype api_reply =
    Feeds_Reply "(feed_wire list \<times> ulid option) answer"
  | Feed_Reply "feed_view answer"
  | Sources_Reply "source_wire list answer"
  | Source_Reply "source_wire answer"
  | Items_Reply "(item_wire list \<times> ulid option) answer"
  | Item_Reply "item_wire answer"
  | Watches_Reply "((watch \<times> ulid list) list \<times> ulid option) answer"
  | Watch_Reply "watch_view answer"
  | Actions_Reply "action_wire list answer"
  | Action_Reply "action_wire answer"
  | Runs_Reply "activity_page answer"
  | Run_Reply "run_view answer"
  | Deliveries_Reply "(action_delivery list \<times> ulid option) answer"
  | Delivery_Reply "action_delivery answer"
  | Backfills_Reply "(backfill_job list \<times> ulid option) answer"
  | Backfill_Reply "backfill_job answer"

fun api_get :: "api_env \<Rightarrow> ulid \<Rightarrow> api_read \<Rightarrow> db \<Rightarrow> api_reply" where
  "api_get X acct (Get_Feeds q) d = Feeds_Reply (feeds_get (ap_sources X) acct q d)"
| "api_get X acct (Get_Feed fid) d = Feed_Reply (feed_detail_get (ap_sources X) acct fid d)"
| "api_get X acct (Get_Feed_Sources fid) d = Sources_Reply (feed_sources_get (ap_sources X) acct fid d)"
| "api_get X acct (Get_Source sid) d = Source_Reply (source_detail_get (ap_sources X) acct sid d)"
| "api_get X acct (Get_Feed_Items fid q) d = Items_Reply (feed_items_get (ap_payload X) acct fid q d)"
| "api_get X acct (Get_Feed_Item iid) d = Item_Reply (feed_item_detail_get (ap_payload X) acct iid d)"
| "api_get X acct (Get_Watches q) d = Watches_Reply (watches_get acct q d)"
| "api_get X acct (Get_Watch wid) d = Watch_Reply (watch_detail_get (ap_env X) acct wid d)"
| "api_get X acct (Get_Watch_Actions wid) d = Actions_Reply (watch_actions_get (ap_env X) acct wid d)"
| "api_get X acct (Get_Action aid) d = Action_Reply (action_detail_get (ap_env X) acct aid d)"
| "api_get X acct (Get_Action_Runs aid q a now) d =
     Runs_Reply (action_runs_get (ap_env X) (ap_str X) (ap_fromiso X) acct aid q a now d)"
| "api_get X acct (Get_Run rid) d = Run_Reply (activity_detail_get (ap_env X) (ap_str X) acct rid d)"
| "api_get X acct (Get_Action_Deliveries aid q state) d = Deliveries_Reply (action_deliveries_get acct aid q state d)"
| "api_get X acct (Get_Delivery did) d = Delivery_Reply (delivery_detail_get acct did d)"
| "api_get X acct (Get_Backfills q) d = Backfills_Reply (backfills_get acct q d)"
| "api_get X acct (Get_Backfill jid) d = Backfill_Reply (backfill_detail_get acct jid d)"

text \<open>The flags say whether the lock of the feed's sources or of the chain was taken.\<close>

datatype api_write =
    Post_Feed ulid query feed_form bool instant
  | Put_Feed ulid query feed_form
  | Patch_Feed ulid "bool option"
  | Delete_Feed ulid
  | Put_Feed_Sources ulid json bool instant
  | Delete_Source ulid
  | Post_Watch query watch_form bool
  | Put_Watch ulid query watch_form bool
  | Patch_Watch ulid "bool option"
  | Delete_Watch ulid
  | Post_Watch_Action ulid query json bool
  | Put_Action ulid query json
  | Delete_Action ulid bool
  | Post_Backfill ulid "string run_windows" bool bool dt

fun api_write_step :: "api_env \<Rightarrow> ulid \<Rightarrow> api_write \<Rightarrow> db \<Rightarrow> db" where
  "api_write_step X acct (Post_Feed uid q form acquired now) d =
     snd (feeds_post (ap_env X) (ap_sources X) (ap_adapter X) acct uid q form acquired now d)"
| "api_write_step X acct (Put_Feed fid q form) d = snd (feed_detail_put (ap_sources X) (ap_adapter X) acct fid q form d)"
| "api_write_step X acct (Patch_Feed fid active) d = snd (feed_detail_patch (ap_sources X) acct fid active d)"
| "api_write_step X acct (Delete_Feed fid) d = snd (feed_detail_delete acct fid d)"
| "api_write_step X acct (Put_Feed_Sources fid body acquired now) d =
     snd (feed_sources_put (ap_env X) (ap_sources X) (ap_adapter X) acct fid body acquired now d)"
| "api_write_step X acct (Delete_Source sid) d = snd (source_detail_delete acct sid d)"
| "api_write_step X acct (Post_Watch q form acquired) d = snd (watches_post (ap_env X) acct q form acquired d)"
| "api_write_step X acct (Put_Watch wid q form acquired) d = snd (watch_detail_put (ap_env X) acct wid q form acquired d)"
| "api_write_step X acct (Patch_Watch wid active) d = snd (watch_detail_patch (ap_env X) acct wid active d)"
| "api_write_step X acct (Delete_Watch wid) d = snd (watch_detail_delete acct wid d)"
| "api_write_step X acct (Post_Watch_Action wid q body acquired) d =
     snd (watch_actions_post (ap_env X) acct wid q body acquired d)"
| "api_write_step X acct (Put_Action aid q body) d = snd (action_detail_put (ap_env X) acct aid q body d)"
| "api_write_step X acct (Delete_Action aid acquired) d = snd (action_detail_delete acct aid acquired d)"
| "api_write_step X acct (Post_Backfill aid body rep dry_run now) d =
     snd (post_backfill (ap_env X) (ap_fromiso X) acct aid body rep dry_run now d)"

text \<open>Requests of any accounts, one after another.\<close>

fun api_writes :: "api_env \<Rightarrow> (ulid \<times> api_write) list \<Rightarrow> db \<Rightarrow> db" where
  "api_writes X [] d = d"
| "api_writes X ((acct, r) # rs) d = api_writes X rs (api_write_step X acct r d)"

end
