(* ===== verification/Tenants.thy ===== *)
theory Tenants
  imports Rest_Api Chain_Facts
begin

text \<open>
  The accounts of one database are kept apart: what a request reads depends on the rows of its own
  account, and what it writes leaves the rows of every other account as they are.
\<close>

subsection \<open>The rows of one account\<close>

definition rows_where :: "(ulid \<Rightarrow> bool) \<Rightarrow> db \<Rightarrow> db" where
  "rows_where P d =
     \<lparr>watches = filter (P \<circ> w_account) (watches d), paths = filter (P \<circ> p_account) (paths d),
      watch_feeds = filter (P \<circ> wf_account) (watch_feeds d), actions = filter (P \<circ> a_account) (actions d),
      runs = filter (P \<circ> r_account) (runs d), windows = filter (P \<circ> dw_account) (windows d),
      deliveries = filter (P \<circ> d_account) (deliveries d), backfills = filter (P \<circ> b_account) (backfills d),
      feeds = filter (P \<circ> f_account) (feeds d), feed_items = filter (P \<circ> i_account) (feed_items d),
      sources = filter (P \<circ> so_account) (sources d), drawn = 0, calls = 0\<rparr>"

definition own :: "ulid \<Rightarrow> db \<Rightarrow> db" where
  "own a d = rows_where (\<lambda>x. x = a) d"

definition others :: "ulid \<Rightarrow> db \<Rightarrow> db" where
  "others a d = rows_where (\<lambda>x. x \<noteq> a) d"

lemma own_others: "a \<noteq> b \<Longrightarrow> own b (others a d) = own b d"
  by (auto simp: own_def others_def rows_where_def intro!: filter_cong)

subsection \<open>Reads\<close>

named_theorems own_simps \<open>a read sees the rows of its account only\<close>

lemma own_tables:
  "watches (own a d) = filter (\<lambda>x. w_account x = a) (watches d)" "paths (own a d) = filter (\<lambda>x. p_account x = a) (paths d)"
  "watch_feeds (own a d) = filter (\<lambda>x. wf_account x = a) (watch_feeds d)"
  "actions (own a d) = filter (\<lambda>x. a_account x = a) (actions d)" "runs (own a d) = filter (\<lambda>x. r_account x = a) (runs d)"
  "deliveries (own a d) = filter (\<lambda>x. d_account x = a) (deliveries d)"
  "backfills (own a d) = filter (\<lambda>x. b_account x = a) (backfills d)"
  "feeds (own a d) = filter (\<lambda>x. f_account x = a) (feeds d)"
  "feed_items (own a d) = filter (\<lambda>x. i_account x = a) (feed_items d)"
  "sources (own a d) = filter (\<lambda>x. so_account x = a) (sources d)"
  by (simp_all add: own_def rows_where_def comp_def)

lemma own_feed_reads [own_simps]:
  "feed_get a i (own a d) = feed_get a i d" "feed_list a after lmt (own a d) = feed_list a after lmt d"
  "feed_get_many a ids (own a d) = feed_get_many a ids d" "feed_existing_ids a ids (own a d) = feed_existing_ids a ids d"
  "source_list a fd (own a d) = source_list a fd d" "source_get_by_id a i (own a d) = source_get_by_id a i d"
  "item_get a i (own a d) = item_get a i d" "get_many a ids (own a d) = get_many a ids d"
  "list_for_feed a fd after lmt (own a d) = list_for_feed a fd after lmt d"
  by (simp_all add: feed_get_def feed_list_def feed_get_many_def feed_existing_ids_def source_list_def source_get_by_id_def
      item_get_def get_many_def list_for_feed_def of_feed_def[abs_def] own_tables conj_ac)

lemma own_watch_reads [own_simps]:
  "watch_get a i (own a d) = watch_get a i d" "watch_list a after lmt (own a d) = watch_list a after lmt d"
  "feed_ids a w (own a d) = feed_ids a w d" "initial_actions a w (own a d) = initial_actions a w d"
  "action_get a i (own a d) = action_get a i d" "watch_id_for_path a i (own a d) = watch_id_for_path a i d"
  by (simp_all add: watch_get_def watch_list_def feed_ids_def list_watch_feeds_def subscriptions_def initial_actions_def
      list_for_path_def in_path_def[abs_def] action_get_def watch_id_for_path_def own_tables conj_ac)

lemma own_window_ids [own_simps]: "occurred_window_ids a since til (own a d) = occurred_window_ids a since til d"
  by (simp add: occurred_window_ids_def occurred_window_items_def own_tables conj_ac)

lemma own_audit_reads [own_simps]:
  "run_get a i (own a d) = run_get a i d" "delivery_get a i (own a d) = delivery_get a i d"
  "list_for_action a act w after lmt st ws (own a d) = list_for_action a act w after lmt st ws d"
  "summary_for_action a act since til (own a d) = summary_for_action a act since til d"
  "delivery_list_for_action a act after lmt st' (own a d) = delivery_list_for_action a act after lmt st' d"
  "backfill_get a i (own a d) = backfill_get a i d" "backfill_list_view a after lmt (own a d) = backfill_list_view a after lmt d"
  by (simp_all add: run_get_def delivery_get_def list_for_action_def summary_for_action_def delivery_list_for_action_def
      backfill_get_def backfill_list_view_def backfill_list_def in_run_windows_def own_window_ids own_tables Let_def conj_ac)

lemma own_feed_view: "f_account fd = a \<Longrightarrow> feed_view_of S fd (own a d) = feed_view_of S fd d"
  by (simp add: feed_view_of_def sources_of_feed_def own_simps)

text \<open>No answer depends on a row of another account.\<close>

lemma own_feed_views [own_simps]:
  "feeds_get S a q (own a d) = feeds_get S a q d" "feed_sources_get S a i (own a d) = feed_sources_get S a i d"
  "source_detail_get S a i (own a d) = source_detail_get S a i d" "feed_items_get payload a i q (own a d) = feed_items_get payload a i q d"
  "feed_item_detail_get payload a i (own a d) = feed_item_detail_get payload a i d"
  unfolding feeds_get_def feed_sources_get_def source_detail_get_def feed_items_get_def feed_item_detail_get_def
    read_feed_def own_simps by (rule refl)+

lemma own_feed_detail [own_simps]: "feed_detail_get S a i (own a d) = feed_detail_get S a i d"
  by (auto simp: feed_detail_get_def read_feed_def own_simps own_feed_view split: sum.split dest!: feed_getD)

lemma own_watch_views [own_simps]:
  "watches_get a q (own a d) = watches_get a q d" "watch_detail_get E a i (own a d) = watch_detail_get E a i d"
  "watch_actions_get E a i (own a d) = watch_actions_get E a i d" "action_detail_get E a i (own a d) = action_detail_get E a i d"
  unfolding watches_get_def watch_detail_get_def watch_view_of_def watch_actions_get_def action_detail_get_def
    read_watch_def read_action_def own_simps by (rule refl)+

lemma own_audit_views [own_simps]:
  "action_runs_get E str fromiso a i q aq now (own a d) = action_runs_get E str fromiso a i q aq now d"
  "activity_detail_get E str a i (own a d) = activity_detail_get E str a i d"
  "action_deliveries_get a i q state (own a d) = action_deliveries_get a i q state d"
  "delivery_detail_get a i (own a d) = delivery_detail_get a i d"
  "backfills_get a q (own a d) = backfills_get a q d" "backfill_detail_get a i (own a d) = backfill_detail_get a i d"
  unfolding action_runs_get_def activity_detail_get_def action_deliveries_get_def delivery_detail_get_def backfills_get_def
    backfill_detail_get_def read_action_def own_simps by (rule refl)+

lemma api_get_own: "api_get X a r (own a d) = api_get X a r d"
  by (cases r) (simp_all only: api_get.simps own_simps)

subsection \<open>What a write may touch\<close>

text \<open>Ids are unique in their table and were all drawn from the generator.\<close>

definition ids_ok :: "env \<Rightarrow> nat \<Rightarrow> ('r \<Rightarrow> ulid) \<Rightarrow> 'r list \<Rightarrow> bool" where
  "ids_ok E n key rows \<longleftrightarrow> distinct (map key rows) \<and> key ` set rows \<subseteq> mint E ` {..<n}"

definition tables_ok :: "env \<Rightarrow> db \<Rightarrow> bool" where
  "tables_ok E d \<longleftrightarrow> mints_fresh E \<and> ids_ok E (drawn d) f_id (feeds d) \<and> ids_ok E (drawn d) so_id (sources d)
     \<and> ids_ok E (drawn d) w_id (watches d) \<and> ids_ok E (drawn d) wf_id (watch_feeds d) \<and> ids_ok E (drawn d) a_id (actions d)"

definition confined :: "env \<Rightarrow> ulid \<Rightarrow> db \<Rightarrow> db \<Rightarrow> bool" where
  "confined E a d d' \<longleftrightarrow> tables_ok E d' \<and> others a d' = others a d"

lemma confined_refl: "tables_ok E d \<Longrightarrow> confined E a d d"
  by (simp add: confined_def)

lemma confined_trans: "confined E a d d1 \<Longrightarrow> confined E a d1 d2 \<Longrightarrow> confined E a d d2"
  by (simp add: confined_def)

lemma confined_ok: "confined E a d d' \<Longrightarrow> tables_ok E d'"
  by (simp add: confined_def)

lemma others_tables:
  "others a d = others a d' \<longleftrightarrow>
     filter (\<lambda>x. w_account x \<noteq> a) (watches d) = filter (\<lambda>x. w_account x \<noteq> a) (watches d')
   \<and> filter (\<lambda>x. p_account x \<noteq> a) (paths d) = filter (\<lambda>x. p_account x \<noteq> a) (paths d')
   \<and> filter (\<lambda>x. wf_account x \<noteq> a) (watch_feeds d) = filter (\<lambda>x. wf_account x \<noteq> a) (watch_feeds d')
   \<and> filter (\<lambda>x. a_account x \<noteq> a) (actions d) = filter (\<lambda>x. a_account x \<noteq> a) (actions d')
   \<and> filter (\<lambda>x. r_account x \<noteq> a) (runs d) = filter (\<lambda>x. r_account x \<noteq> a) (runs d')
   \<and> filter (\<lambda>x. dw_account x \<noteq> a) (windows d) = filter (\<lambda>x. dw_account x \<noteq> a) (windows d')
   \<and> filter (\<lambda>x. d_account x \<noteq> a) (deliveries d) = filter (\<lambda>x. d_account x \<noteq> a) (deliveries d')
   \<and> filter (\<lambda>x. b_account x \<noteq> a) (backfills d) = filter (\<lambda>x. b_account x \<noteq> a) (backfills d')
   \<and> filter (\<lambda>x. f_account x \<noteq> a) (feeds d) = filter (\<lambda>x. f_account x \<noteq> a) (feeds d')
   \<and> filter (\<lambda>x. i_account x \<noteq> a) (feed_items d) = filter (\<lambda>x. i_account x \<noteq> a) (feed_items d')
   \<and> filter (\<lambda>x. so_account x \<noteq> a) (sources d) = filter (\<lambda>x. so_account x \<noteq> a) (sources d')"
  by (auto simp: others_def rows_where_def comp_def)

lemma ids_ok_later: "ids_ok E n key rows \<Longrightarrow> n \<le> m \<Longrightarrow> ids_ok E m key rows"
  by (auto simp: ids_ok_def subset_iff image_iff) (metis lessThan_iff less_le_trans)

lemma ids_ok_update: "ids_ok E n key rows \<Longrightarrow> (\<And>r. key (f r) = key r) \<Longrightarrow> ids_ok E n key (update_where P f rows)"
  unfolding ids_ok_def set_map[symmetric] by (simp add: map_key_update_where del: set_map)

lemma ids_ok_delete: "ids_ok E n key rows \<Longrightarrow> ids_ok E n key (delete_where P rows)"
  by (auto simp: ids_ok_def delete_where_def distinct_map_filter)

lemma ids_ok_append:
  assumes "mints_fresh E" "ids_ok E n key rows" "map key news = map (mint E) [n..<m]" "n \<le> m"
  shows "ids_ok E m key (rows @ news)"
proof -
  have "key ` set news = set (map (mint E) [n..<m])" by (metis assms(3) list.set_map)
  then have set: "key ` set news = mint E ` {n..<m}" by simp
  have "set (map (mint E) [n..<m]) \<inter> key ` set rows = {}"
    by (rule minted_disjoint[OF assms(1)]) (use assms(2) in \<open>simp add: ids_ok_def\<close>)
  then have new: "key ` set rows \<inter> key ` set news = {}" by (simp add: set Int_commute)
  have "inj_on (mint E) {n..<m}" using assms(1) by (auto simp: mints_fresh_def intro: inj_on_subset)
  then have "distinct (map key news)" unfolding assms(3) by (simp add: distinct_map)
  moreover have "key ` set news \<subseteq> mint E ` {..<m}" unfolding set by auto
  moreover have "key ` set rows \<subseteq> mint E ` {..<m}"
    using ids_ok_later[OF assms(2,4)] by (simp add: ids_ok_def)
  ultimately show ?thesis using new assms(2) by (simp add: ids_ok_def image_Un)
qed

lemma ids_ok_unique:
  assumes "ids_ok E n key rows" "x \<in> set rows" "r \<in> set rows" "key r = key x"
  shows "r = x"
  using assms by (auto simp: ids_ok_def distinct_map dest: inj_onD)

lemma filter_update_own:
  assumes "\<And>r. r \<in> set rows \<Longrightarrow> P r \<Longrightarrow> acc r = a" "\<And>r. acc (f r) = acc r"
  shows "filter (\<lambda>x. acc x \<noteq> a) (update_where P f rows) = filter (\<lambda>x. acc x \<noteq> a) rows"
  using assms(1) by (induction rows) (auto simp: assms(2))

lemma filter_delete_own:
  assumes "\<And>r. r \<in> set rows \<Longrightarrow> P r \<Longrightarrow> acc r = a"
  shows "filter (\<lambda>x. acc x \<noteq> a) (delete_where P rows) = filter (\<lambda>x. acc x \<noteq> a) rows"
  using assms by (induction rows) auto

lemma filter_append_own: "(\<And>r. r \<in> set news \<Longrightarrow> acc r = a) \<Longrightarrow> filter (\<lambda>x. acc x \<noteq> a) (rows @ news) = filter (\<lambda>x. acc x \<noteq> a) rows"
  by auto

lemma tables_okD:
  assumes "tables_ok E d"
  shows "mints_fresh E" "ids_ok E (drawn d) f_id (feeds d)" "ids_ok E (drawn d) so_id (sources d)"
    "ids_ok E (drawn d) w_id (watches d)" "ids_ok E (drawn d) wf_id (watch_feeds d)" "ids_ok E (drawn d) a_id (actions d)"
  using assms by (simp_all add: tables_ok_def)


lemmas confined_defs = confined_def tables_ok_def others_tables

text \<open>One statement on one table, with as many ids drawn as it likes.\<close>

lemma confined_drawn: "tables_ok E d \<Longrightarrow> drawn d \<le> n \<Longrightarrow> confined E a d (d\<lparr>drawn := n\<rparr>)"
  by (auto simp: confined_defs intro: ids_ok_later)

lemma confined_feeds:
  "tables_ok E d \<Longrightarrow> ids_ok E (drawn d) f_id rows \<Longrightarrow>
   filter (\<lambda>x. f_account x \<noteq> a) rows = filter (\<lambda>x. f_account x \<noteq> a) (feeds d) \<Longrightarrow> confined E a d (d\<lparr>feeds := rows\<rparr>)"
  by (simp add: confined_defs)

lemma confined_sources:
  "tables_ok E d \<Longrightarrow> ids_ok E (drawn d) so_id rows \<Longrightarrow>
   filter (\<lambda>x. so_account x \<noteq> a) rows = filter (\<lambda>x. so_account x \<noteq> a) (sources d) \<Longrightarrow> confined E a d (d\<lparr>sources := rows\<rparr>)"
  by (simp add: confined_defs)

lemma confined_watches:
  "tables_ok E d \<Longrightarrow> ids_ok E (drawn d) w_id rows \<Longrightarrow>
   filter (\<lambda>x. w_account x \<noteq> a) rows = filter (\<lambda>x. w_account x \<noteq> a) (watches d) \<Longrightarrow> confined E a d (d\<lparr>watches := rows\<rparr>)"
  by (simp add: confined_defs)

lemma confined_watch_feeds:
  "tables_ok E d \<Longrightarrow> ids_ok E (drawn d) wf_id rows \<Longrightarrow>
   filter (\<lambda>x. wf_account x \<noteq> a) rows = filter (\<lambda>x. wf_account x \<noteq> a) (watch_feeds d) \<Longrightarrow>
   confined E a d (d\<lparr>watch_feeds := rows\<rparr>)"
  by (simp add: confined_defs)

lemma confined_actions:
  "tables_ok E d \<Longrightarrow> ids_ok E (drawn d) a_id rows \<Longrightarrow>
   filter (\<lambda>x. a_account x \<noteq> a) rows = filter (\<lambda>x. a_account x \<noteq> a) (actions d) \<Longrightarrow> confined E a d (d\<lparr>actions := rows\<rparr>)"
  by (simp add: confined_defs)

lemma confined_plain:
  "tables_ok E d \<Longrightarrow> filter (\<lambda>x. p_account x \<noteq> a) ps = filter (\<lambda>x. p_account x \<noteq> a) (paths d) \<Longrightarrow> confined E a d (d\<lparr>paths := ps\<rparr>)"
  "tables_ok E d \<Longrightarrow> filter (\<lambda>x. r_account x \<noteq> a) rs = filter (\<lambda>x. r_account x \<noteq> a) (runs d) \<Longrightarrow> confined E a d (d\<lparr>runs := rs\<rparr>)"
  "tables_ok E d \<Longrightarrow> filter (\<lambda>x. dw_account x \<noteq> a) ws = filter (\<lambda>x. dw_account x \<noteq> a) (windows d) \<Longrightarrow> confined E a d (d\<lparr>windows := ws\<rparr>)"
  "tables_ok E d \<Longrightarrow> filter (\<lambda>x. b_account x \<noteq> a) bs = filter (\<lambda>x. b_account x \<noteq> a) (backfills d) \<Longrightarrow> confined E a d (d\<lparr>backfills := bs\<rparr>)"
  "tables_ok E d \<Longrightarrow> filter (\<lambda>x. i_account x \<noteq> a) is = filter (\<lambda>x. i_account x \<noteq> a) (feed_items d) \<Longrightarrow> confined E a d (d\<lparr>feed_items := is\<rparr>)"
  by (simp_all add: confined_defs)

subsection \<open>Feeds and sources\<close>

lemma confined_save_feed:
  assumes ok: "tables_ok E d" and x: "x \<in> set (feeds d)" "f_account x = a" "f_id fd = f_id x"
    and g: "\<And>f. f_id (g f) = f_id f" "\<And>f. f_account (g f) = f_account f"
  shows "confined E a d (snd (save_feed fd g d))"
proof -
  note ids = tables_okD(2)[OF ok]
  have "confined E a d (d\<lparr>feeds := update_where (\<lambda>f. f_id f = f_id fd) g (feeds d)\<rparr>)"
    by (intro confined_feeds[OF ok] ids_ok_update[OF ids] filter_update_own)
      (use x ids_ok_unique[OF ids x(1)] g in auto)
  then show ?thesis using confined_refl[OF ok] by (simp add: save_feed_def)
qed

lemma confined_feed_update:
  assumes "tables_ok E d" "fd \<in> set (feeds d)" "f_account fd = a"
  shows "confined E a d (snd (feed_update S a fd nm interval data active d))"
proof (cases "feed_build_update S a fd nm interval data active")
  case (Inr fd')
  then have "f_id fd' = f_id fd" by (auto simp: feed_build_update_def split: if_splits sum.splits)
  with Inr confined_save_feed[OF assms] show ?thesis by (simp add: feed_update_def)
qed (simp add: feed_update_def confined_refl[OF assms(1)])

lemma confined_feed_set_active:
  assumes "tables_ok E d" "fd \<in> set (feeds d)" "f_account fd = a"
  shows "confined E a d (snd (feed_set_active a fd active d))"
  using assms confined_save_feed[OF assms, of "fd\<lparr>f_active := active\<rparr>"] by (simp add: feed_set_active_def)

lemma confined_feed_delete:
  assumes ok: "tables_ok E d" and fd: "fd \<in> set (feeds d)" "f_account fd = a"
  shows "confined E a d (snd (feed_delete a fd d))"
proof -
  let ?d1 = "d\<lparr>feed_items := delete_where (\<lambda>i. i_account i = a \<and> i_feed i = f_id fd) (feed_items d)\<rparr>"
  let ?d2 = "?d1\<lparr>sources := delete_where (of_feed a fd) (sources d)\<rparr>"
  have 1: "confined E a d ?d1" by (intro confined_plain ok filter_delete_own) simp
  have 2: "confined E a ?d1 ?d2"
    using 1 by (intro confined_sources) (auto simp: confined_def of_feed_def dest: tables_okD intro!: filter_delete_own ids_ok_delete)
  have 3: "confined E a ?d2 (?d2\<lparr>feeds := delete_where (\<lambda>f. f_id f = f_id fd) (feeds ?d2)\<rparr>)"
    using 2 fd ids_ok_unique[OF tables_okD(2)[OF ok] fd(1)]
    by (intro confined_feeds) (auto simp: confined_def dest: tables_okD intro!: filter_delete_own ids_ok_delete)
  show ?thesis using confined_trans[OF confined_trans[OF 1 2] 3] fd by (simp add: feed_delete_def delete_for_feed_def Let_def)
qed

lemma confined_source_remove:
  assumes ok: "tables_ok E d"
  shows "confined E a d (snd (source_remove_by_id a sid d))"
proof (cases "source_get_by_id a sid d")
  case (Inr s)
  then have s: "s \<in> set (sources d)" "so_account s = a" by (auto simp: source_get_by_id_def split: option.splits dest: first_in)
  have "confined E a d (d\<lparr>sources := delete_where (\<lambda>x. so_id x = so_id s) (sources d)\<rparr>)"
    using ids_ok_unique[OF tables_okD(3)[OF ok] s(1)] s(2)
    by (intro confined_sources[OF ok] ids_ok_delete[OF tables_okD(3)[OF ok]] filter_delete_own) auto
  then show ?thesis using Inr confined_refl[OF ok] by (simp add: source_remove_by_id_def split: option.split)
qed (simp add: source_remove_by_id_def confined_refl[OF ok])


lemma ids_ok_insert_ignore:
  assumes "mints_fresh E" "ids_ok E n key rows" "map key xs = map (mint E) [n..<m]" "n \<le> m"
  shows "ids_ok E m key (insert_ignore k xs rows)"
proof -
  have all: "ids_ok E m key (rows @ xs)" by (rule ids_ok_append[OF assms])
  then have "distinct (map key rows @ map key xs)" by (simp add: ids_ok_def)
  moreover have "key ` set (insert_ignore k xs rows) \<subseteq> mint E ` {..<m}"
    using order_trans[OF image_mono[OF set_insert_ignore_subset[of k xs rows]], of key "mint E ` {..<m}"] all
    by (simp add: ids_ok_def)
  ultimately show ?thesis by (simp add: ids_ok_def distinct_insert_ignore_other)
qed

lemma filter_insert_ignore_own:
  assumes "\<And>r. r \<in> set xs \<Longrightarrow> acc r = a"
  shows "filter (\<lambda>x. acc x \<noteq> a) (insert_ignore k xs rows) = filter (\<lambda>x. acc x \<noteq> a) rows"
proof -
  obtain ys where ys: "insert_ignore k xs rows = rows @ ys" "set ys \<subseteq> set xs"
    using insert_ignore_append_keys[of k xs rows] by (elim exE conjE)
  from ys(2) have "filter (\<lambda>x. acc x \<noteq> a) ys = []" by (simp add: filter_empty_conv subset_iff assms)
  with ys(1) show ?thesis by simp
qed

lemma refreshed_ids: "map so_id (fold (\<lambda>(h, x). refresh_source a fd h x) ps rows) = map so_id rows"
  by (induction ps arbitrary: rows) (auto simp: refresh_source_def map_key_update_where)

lemma refreshed_others:
  "filter (\<lambda>s. so_account s \<noteq> a) (fold (\<lambda>(h, x). refresh_source a fd h x) ps rows) = filter (\<lambda>s. so_account s \<noteq> a) rows"
proof (induction ps arbitrary: rows)
  case (Cons p ps)
  have "filter (\<lambda>s. so_account s \<noteq> a) (refresh_source a fd h x rows) = filter (\<lambda>s. so_account s \<noteq> a) rows" for h x
    unfolding refresh_source_def by (rule filter_update_own) (auto simp: of_feed_def)
  with Cons show ?case by (cases p) simp
qed simp

lemma confined_write_sources:
  assumes ok: "tables_ok E d"
  shows "confined E a d (snd (write_sources E a fd new now d))"
proof (cases "marks_of (map snd (added_inputs a fd new d)) now")
  case (Inr marks)
  let ?added = "added_inputs a fd new d" and ?removed = "feed_hashes a fd d - fst ` set new"
  let ?kept = "if ?removed = {} then sources d else delete_where (\<lambda>s. of_feed a fd s \<and> so_hash s \<in> ?removed) (sources d)"
  let ?m = "drawn d + length ?added"
  let ?fresh = "new_sources a fd ?added marks (fst (new_ids E (length ?added) d))"
  let ?rows = "fold (\<lambda>(h, x). refresh_source a fd h x) (dirty_inputs a fd new d) (insert_ignore source_key ?fresh ?kept)"
  note ids = tables_okD[OF ok]
  have kept: "ids_ok E (drawn d) so_id ?kept" "filter (\<lambda>s. so_account s \<noteq> a) ?kept = filter (\<lambda>s. so_account s \<noteq> a) (sources d)"
    using ids(3) by (auto simp: of_feed_def intro!: ids_ok_delete filter_delete_own)
  have "length marks = length ?added" using marks_of_length[OF Inr] by simp
  then have "map so_id ?fresh = map (mint E) [drawn d..<?m]"
    by (intro nth_equalityI) (simp_all add: new_sources_def new_source_def new_ids_def case_prod_unfold)
  from ids_ok_insert_ignore[OF ids(1) kept(1) this, of source_key]
  have "ids_ok E ?m so_id ?rows"
    unfolding ids_ok_def set_map[symmetric] refreshed_ids by simp
  moreover have "filter (\<lambda>s. so_account s \<noteq> a) ?rows = filter (\<lambda>s. so_account s \<noteq> a) (sources d)"
    unfolding refreshed_others kept(2)[symmetric]
    by (rule filter_insert_ignore_own) (auto dest: new_sources_all simp: of_feed_def)
  moreover have "confined E a d (d\<lparr>drawn := ?m\<rparr>)" by (rule confined_drawn[OF ok]) simp
  ultimately have "confined E a d (d\<lparr>drawn := ?m, sources := ?rows\<rparr>)"
    by (intro confined_trans[OF _ confined_sources, of E a d "d\<lparr>drawn := ?m\<rparr>", simplified]) (simp_all add: confined_def)
  then show ?thesis using Inr by (simp add: write_sources_def Let_def new_ids_def)
qed (simp add: write_sources_def confined_refl[OF ok] Let_def)

lemma confined_set_sources:
  "tables_ok E d \<Longrightarrow> confined E a d (snd (set_sources E S a fd items dry_run acquired now d))"
  by (auto simp: set_sources_def Let_def confined_refl confined_write_sources split: option.split)

lemma confined_feed_create:
  assumes ok: "tables_ok E d"
  shows "confined E a d (snd (feed_create E S a uid nm kind interval data active srcs acquired now d))"
proof (cases "feed_build S a uid nm kind interval data active")
  case (Inr fd)
  then have fd: "f_account fd = a" by (cases "validate_feed_config S kind data") (auto simp: feed_build_def)
  let ?d1 = "d\<lparr>drawn := Suc (drawn d)\<rparr>"
  let ?d2 = "?d1\<lparr>feeds := feeds d @ [fd\<lparr>f_id := mint E (drawn d)\<rparr>]\<rparr>"
  have "ids_ok E (Suc (drawn d)) f_id (feeds d @ [fd\<lparr>f_id := mint E (drawn d)\<rparr>])"
    by (rule ids_ok_append[OF tables_okD(1,2)[OF ok]]) simp_all
  moreover have 1: "confined E a d ?d1" by (rule confined_drawn[OF ok]) simp
  ultimately have 2: "confined E a ?d1 ?d2" by (intro confined_feeds) (simp_all add: confined_def fd)
  have "confined E a ?d2 (snd (set_sources E S a (fd\<lparr>f_id := mint E (drawn d)\<rparr>) srcs False acquired now ?d2))"
    using 2 by (intro confined_set_sources) (simp add: confined_def)
  with confined_trans[OF 1 2] confined_refl[OF ok] Inr show ?thesis
    by (auto simp: feed_create_def new_id_def Let_def split: prod.split sum.split intro: confined_trans)
qed (simp add: feed_create_def confined_refl[OF ok])


subsection \<open>Chains\<close>

text \<open>No row of another account has one of these ids.\<close>

definition clear_of :: "ulid \<Rightarrow> ulid set \<Rightarrow> db \<Rightarrow> bool" where
  "clear_of a ids d \<longleftrightarrow> (\<forall>r \<in> set (actions d). a_account r \<noteq> a \<longrightarrow> a_id r \<notin> ids)"

lemma clear_of_confined:
  assumes "confined E a d d'"
  shows "clear_of a ids d' = clear_of a ids d"
proof -
  have "set (filter (\<lambda>x. a_account x \<noteq> a) (actions d')) = set (filter (\<lambda>x. a_account x \<noteq> a) (actions d))"
    using assms by (simp add: confined_def others_tables)
  then show ?thesis by (auto simp: clear_of_def)
qed

lemma clear_of_own:
  assumes "tables_ok E d" "ids \<subseteq> a_id ` {x \<in> set (actions d). a_account x = a} \<union> mint E ` {drawn d..}"
  shows "clear_of a ids d"
  unfolding clear_of_def
proof (intro ballI impI notI)
  fix r assume r: "r \<in> set (actions d)" "a_account r \<noteq> a" "a_id r \<in> ids"
  note ids = tables_okD(1,6)[OF assms(1)]
  have "a_id r \<notin> a_id ` {x \<in> set (actions d). a_account x = a}"
    using ids_ok_unique[OF ids(2)] r(1,2) by auto
  moreover have "a_id r \<in> mint E ` {..<drawn d}" using ids(2) r(1) by (auto simp: ids_ok_def)
  then have "a_id r \<notin> mint E ` {drawn d..}" using ids(1) by (auto simp: mints_fresh_def inj_eq)
  ultimately show False using assms(2) r(3) by blast
qed

lemma filter_set_ranks_own:
  assumes "clear_of a (fst ` set rk) d"
  shows "filter (\<lambda>x. a_account x \<noteq> a) (set_ranks rk (actions d)) = filter (\<lambda>x. a_account x \<noteq> a) (actions d)"
proof -
  have "filter (\<lambda>x. a_account x \<noteq> a) (set_ranks rk rows) = set_ranks rk (filter (\<lambda>x. a_account x \<noteq> a) rows)" for rows
    by (induction rows) (auto simp: set_ranks_def split: option.split)
  moreover have "set_ranks rk (filter (\<lambda>x. a_account x \<noteq> a) (actions d)) = filter (\<lambda>x. a_account x \<noteq> a) (actions d)"
    by (rule set_ranks_none) (use assms in \<open>auto simp: clear_of_def\<close>)
  ultimately show ?thesis by simp
qed

lemma confined_renumber:
  assumes "tables_ok E d" "clear_of a (a_id ` set ordered) d"
  shows "confined E a d (renumber ordered d)"
proof -
  let ?rk = "zip (map a_id ordered) [0..<length ordered]"
  have "fst ` set ?rk = a_id ` set ordered" by (metis length_map length_upt list.set_map map_fst_zip minus_nat.diff_0)
  then show ?thesis unfolding renumber_actions
    using assms tables_okD(6)[OF assms(1)]
    by (intro confined_actions filter_set_ranks_own) (simp_all add: ids_ok_def flip: set_map)
qed

lemma save_rows_ids: "map a_id (save_rows us rows) = map a_id rows"
  by (induction rows) (auto simp: save_rows_def split: option.split)

lemma confined_save_rows:
  assumes ok: "tables_ok E d" and clear: "clear_of a (a_id ` set us) d"
  shows "confined E a d (d\<lparr>actions := save_rows us (actions d)\<rparr>)"
proof (rule confined_actions[OF ok])
  show "ids_ok E (drawn d) a_id (save_rows us (actions d))"
    using tables_okD(6)[OF ok] unfolding ids_ok_def set_map[symmetric] save_rows_ids .
  have "first (filter (\<lambda>u. a_id u = a_id x) us) = None" if "x \<in> set (actions d)" "a_account x \<noteq> a" for x
    using clear that unfolding clear_of_def first_None filter_empty_conv by (metis image_eqI)
  then have "filter (\<lambda>x. a_account x \<noteq> a) (save_rows us rows) = filter (\<lambda>x. a_account x \<noteq> a) rows"
    if "set rows \<subseteq> set (actions d)" for rows
    using that by (induction rows) (auto simp: save_rows_def split: option.split)
  then show "filter (\<lambda>x. a_account x \<noteq> a) (save_rows us (actions d)) = filter (\<lambda>x. a_account x \<noteq> a) (actions d)" by blast
qed

lemma confined_clear_windows: "tables_ok E d \<Longrightarrow> confined E a d (clear_digest_windows a ids d)"
  unfolding clear_digest_windows_def by (auto intro: confined_refl confined_plain filter_delete_own)

lemma confined_append_actions:
  assumes ok: "tables_ok E d" and new: "map a_id rows = map (mint E) [drawn d..<drawn d + length rows]" "\<And>r. r \<in> set rows \<Longrightarrow> a_account r = a"
  shows "confined E a d (d\<lparr>drawn := drawn d + length rows, actions := actions d @ rows\<rparr>)"
    and "confined E a d (d\<lparr>actions := actions d @ rows, drawn := drawn d + length rows\<rparr>)"
proof -
  let ?d1 = "d\<lparr>drawn := drawn d + length rows\<rparr>"
  have 1: "confined E a d ?d1" by (rule confined_drawn[OF ok]) simp
  have "confined E a ?d1 (?d1\<lparr>actions := actions d @ rows\<rparr>)"
    using 1 ids_ok_append[OF tables_okD(1,6)[OF ok] new(1)] new(2)
    by (intro confined_actions) (simp_all add: confined_def filter_empty_conv)
  from confined_trans[OF 1 this] show *: "confined E a d (?d1\<lparr>actions := actions d @ rows\<rparr>)" .
  have "?d1\<lparr>actions := actions d @ rows\<rparr> = d\<lparr>actions := actions d @ rows, drawn := drawn d + length rows\<rparr>" by simp
  with * show "confined E a d (d\<lparr>actions := actions d @ rows, drawn := drawn d + length rows\<rparr>)" by metis
qed

lemma edit_all_updated:
  "edit_all E acct path n existing ss st = Inr st' \<Longrightarrow> \<forall>u \<in> set (ce_updated st). a_id u \<in> set (ce_kept st) \<Longrightarrow>
     \<forall>u \<in> set (ce_updated st'). a_id u \<in> set (ce_kept st')"
proof (induction ss arbitrary: st)
  case (Cons s ss)
  then obtain st1 where st1: "edit_step E acct path n existing s st = Inr st1"
    "edit_all E acct path n existing ss st1 = Inr st'" by (auto split: sum.splits)
  from st1(1) Cons.prems(2) have "\<forall>u \<in> set (ce_updated st1). a_id u \<in> set (ce_kept st1)"
    by (auto simp: edit_step_def Let_def split: sum.splits option.splits if_splits)
  from Cons.IH[OF st1(2) this] show ?case .
qed simp


lemma confined_replace_chain:
  assumes ok: "tables_ok E d"
  shows "confined E a d (snd (replace_chain E a path specs acquired d))"
proof (cases "edit_all E a path (drawn d) (list_for_path a path d) specs no_edit")
  case (Inr st)
  let ?existing = "list_for_path a path d"
  let ?removed = "map a_id (filter (\<lambda>x. a_id x \<notin> set (ce_kept st)) ?existing)"
  note ids = tables_okD(1,6)[OF ok]
  have ex: "a_id ` set ?existing \<subseteq> mint E ` {..<drawn d}"
    using ids(2) by (auto simp: ids_ok_def set_list_for_path)
  have "edit_ok E a path (drawn d) ?existing no_edit" by (simp add: edit_ok_def no_edit_def)
  from edit_all_ok[OF this ids(1) ex Inr] have st: "edit_ok E a path (drawn d) ?existing st" by blast
  have own: "a_id ` set ?existing \<subseteq> a_id ` {x \<in> set (actions d). a_account x = a}"
    by (auto simp: set_list_for_path in_path_def)
  have created: "map a_id (ce_created st) = map (mint E) [drawn d..<drawn d + length (ce_created st)]"
    "\<And>r. r \<in> set (ce_created st) \<Longrightarrow> a_account r = a"
    using st by (auto simp: edit_ok_def list_all_iff in_path_def)
  have "a_id ` set (ce_created st) = set (map (mint E) [drawn d..<drawn d + length (ce_created st)])"
    using created(1) by (metis list.set_map)
  then have "a_id ` set (ce_ordered st) \<subseteq> a_id ` {x \<in> set (actions d). a_account x = a} \<union> mint E ` {drawn d..}"
    using st own by (auto simp: edit_ok_def)
  from clear_of_own[OF ok this] have ordered: "clear_of a (a_id ` set (ce_ordered st)) d" .
  have "\<forall>u \<in> set (ce_updated st). a_id u \<in> set (ce_kept st)"
    by (rule edit_all_updated[OF Inr]) (simp add: no_edit_def)
  then have "a_id ` set (ce_updated st) \<subseteq> set (ce_kept st)" by auto
  also have "set (ce_kept st) \<subseteq> a_id ` {x \<in> set (actions d). a_account x = a}" using st own unfolding edit_ok_def by (meson subset_trans)
  finally have "a_id ` set (ce_updated st) \<subseteq> a_id ` {x \<in> set (actions d). a_account x = a} \<union> mint E ` {drawn d..}"
    by (rule le_supI1)
  from clear_of_own[OF ok this] have updated: "clear_of a (a_id ` set (ce_updated st)) d" .
  let ?d1 = "d\<lparr>actions := delete_where (\<lambda>x. a_account x = a \<and> a_id x \<in> set ?removed) (actions d)\<rparr>"
  let ?d2 = "clear_digest_windows a (?removed @ ce_clear st) ?d1"
  let ?d3 = "?d2\<lparr>actions := save_rows (ce_updated st) (actions ?d2)\<rparr>"
  let ?d4 = "?d3\<lparr>actions := actions ?d3 @ ce_created st, drawn := drawn ?d3 + length (ce_created st)\<rparr>"
  have 1: "confined E a d ?d1" by (intro confined_actions ok ids_ok_delete ids(2) filter_delete_own) simp
  note 2 = confined_trans[OF 1 confined_clear_windows[OF confined_ok[OF 1], where ids = "?removed @ ce_clear st"]]
  from updated have "clear_of a (a_id ` set (ce_updated st)) ?d2" unfolding clear_of_confined[OF 2] .
  note 3 = confined_trans[OF 2 confined_save_rows[OF confined_ok[OF 2] this]]
  have "confined E a ?d3 ?d4"
    by (rule confined_append_actions(2)[OF confined_ok[OF 3]]) (use created in \<open>simp_all add: frame_simps\<close>)
  note 4 = confined_trans[OF 3 this]
  from ordered have "clear_of a (a_id ` set (ce_ordered st)) ?d4" unfolding clear_of_confined[OF 4] .
  from 4 confined_renumber[OF confined_ok[OF 4] this] have "confined E a d (apply_edit a ?removed st d)" by (auto simp: apply_edit_def Let_def intro: confined_trans)
  then show ?thesis using Inr confined_refl[OF ok] by (simp add: replace_chain_def Let_def)
qed (simp add: replace_chain_def confined_refl[OF ok] Let_def)


lemma confined_add_action:
  assumes ok: "tables_ok E d"
  shows "confined E a d (snd (add_action E a path spec rank dry_run acquired d))"
proof (cases "validate_config E (sp_kind spec) (sp_config spec)")
  case (Inr config)
  let ?chain = "list_for_path a path d"
  let ?row = "\<lparr>a_id = mint E (drawn d), a_account = a, a_path = path, a_kind = sp_kind spec,
                a_config = model_dump E config, a_rank = length ?chain + 1\<rparr>"
  let ?d2 = "d\<lparr>drawn := drawn d + length [?row], actions := actions d @ [?row]\<rparr>"
  let ?new = "insert_at (clamp_rank rank (length ?chain)) ?row ?chain"
  have 2: "confined E a d ?d2" by (rule confined_append_actions(1)[OF ok]) simp_all
  have "a_id ` set ?new \<subseteq> a_id ` {x \<in> set (actions d). a_account x = a} \<union> mint E ` {drawn d..}"
    by (auto simp: set_list_for_path in_path_def)
  from clear_of_own[OF ok this] have "clear_of a (a_id ` set ?new) ?d2" unfolding clear_of_confined[OF 2] .
  from confined_trans[OF 2 confined_renumber[OF confined_ok[OF 2] this]] have "confined E a d (renumber ?new ?d2)" .
  then show ?thesis using Inr confined_refl[OF ok] by (simp add: add_action_def new_id_def Let_def)
qed (simp add: add_action_def confined_refl[OF ok])

lemma confined_set_config:
  assumes ok: "tables_ok E d" and act: "action \<in> set (actions d)" "a_account action = a"
  shows "confined E a d (snd (set_config E a action spec dry_run d))"
proof -
  have "confined E a d (d\<lparr>actions := save_rows [row] (actions d)\<rparr>)" if "a_id row = a_id action" for row
    by (intro confined_save_rows[OF ok] clear_of_own[OF ok]) (use act that in auto)
  moreover from this have "confined E a d (clear_digest_windows a [a_id action] (d\<lparr>actions := save_rows [row] (actions d)\<rparr>))"
    if "a_id row = a_id action" for row
    using that by (intro confined_trans[OF _ confined_clear_windows]) (simp_all add: confined_def)
  ultimately show ?thesis using confined_refl[OF ok] by (simp add: set_config_def Let_def split: sum.split)
qed

lemma clear_of_chain: "tables_ok E d \<Longrightarrow> clear_of a (a_id ` set (list_for_path a path d)) d"
  by (rule clear_of_own) (auto simp: set_list_for_path in_path_def)

lemma confined_remove_action:
  assumes ok: "tables_ok E d" and act: "action \<in> set (actions d)" "a_account action = a"
  shows "confined E a d (snd (remove_action a action acquired d))"
proof -
  let ?d1 = "d\<lparr>actions := delete_where (\<lambda>x. a_id x = a_id action) (actions d)\<rparr>"
  let ?d2 = "clear_digest_windows a [a_id action] ?d1"
  note ids = tables_okD(6)[OF ok]
  have 1: "confined E a d ?d1"
    using ids_ok_unique[OF ids act(1)] act(2) by (intro confined_actions ok ids_ok_delete ids filter_delete_own) auto
  note 2 = confined_trans[OF 1 confined_clear_windows[OF confined_ok[OF 1]]]
  from confined_trans[OF 2 confined_renumber[OF confined_ok[OF 2] clear_of_chain[OF confined_ok[OF 2]]]] show ?thesis using confined_refl[OF ok] by (simp add: remove_action_def Let_def)
qed

subsection \<open>Watches and backfills\<close>

lemma confined_watch_columns:
  assumes ok: "tables_ok E d" and w: "w \<in> set (watches d)" "w_account w = a" "i = w_id w"
    and g: "\<And>x. w_id (g x) = w_id x" "\<And>x. w_account (g x) = w_account x"
  shows "confined E a d (d\<lparr>watches := update_where (\<lambda>x. w_id x = i) g (watches d)\<rparr>)"
proof -
  note ids = tables_okD(4)[OF ok]
  show ?thesis by (intro confined_watches[OF ok] ids_ok_update[OF ids] filter_update_own)
      (use w ids_ok_unique[OF ids w(1)] g in auto)
qed

lemma confined_new_subscriptions:
  assumes ok: "tables_ok E d"
  shows "confined E a d (new_subscriptions E a wid fids d)"
proof -
  let ?m = "drawn d + length fids" and ?new = "fresh_subscriptions E a wid fids (drawn d)"
  have 1: "confined E a d (d\<lparr>drawn := ?m\<rparr>)" by (rule confined_drawn[OF ok]) simp
  have "map wf_id ?new = map (mint E) [drawn d..<?m]"
    by (intro nth_equalityI) (simp_all add: fresh_subscriptions_def case_prod_unfold)
  from ids_ok_append[OF tables_okD(1,5)[OF ok] this] have "ids_ok E ?m wf_id (watch_feeds d @ ?new)" by simp
  moreover have "filter (\<lambda>x. wf_account x \<noteq> a) ?new = []"
    by (auto simp: fresh_subscriptions_def filter_empty_conv set_zip)
  ultimately have "confined E a (d\<lparr>drawn := ?m\<rparr>) (d\<lparr>drawn := ?m\<rparr>\<lparr>watch_feeds := watch_feeds d @ ?new\<rparr>)"
    using 1 by (intro confined_watch_feeds) (simp_all add: confined_def)
  from confined_trans[OF 1 this] show ?thesis by (simp add: new_subscriptions_eq)
qed

lemma confined_set_feeds:
  assumes ok: "tables_ok E d"
  shows "confined E a d (set_feeds E a wid fids d)"
proof -
  let ?gone = "map wf_id (filter (\<lambda>s. wf_feed s \<notin> set (dict_fromkeys fids)) (subscriptions a wid d))"
  let ?d1 = "d\<lparr>watch_feeds := delete_where (\<lambda>s. wf_id s \<in> set ?gone) (watch_feeds d)\<rparr>"
  note ids = tables_okD(5)[OF ok]
  have 1: "confined E a d ?d1"
  proof (intro confined_watch_feeds ok ids_ok_delete ids filter_delete_own)
    fix r assume r: "r \<in> set (watch_feeds d)" "wf_id r \<in> set ?gone"
    then obtain s where "s \<in> set (watch_feeds d)" "wf_account s = a" "wf_id r = wf_id s" by (auto simp: subscriptions_def)
    with ids_ok_unique[OF ids, of s r] r(1) show "wf_account r = a" by auto
  qed
  then have "confined E a ?d1 (new_subscriptions E a wid fs ?d1)" for fs
    by (intro confined_new_subscriptions) (simp add: confined_def)
  from confined_trans[OF 1 this] show ?thesis by (simp add: set_feeds_def Let_def)
qed

lemma snd_relabel: "snd (case r of (Inl e, d') \<Rightarrow> (Inl e, d') | (Inr x, d') \<Rightarrow> (Inr (f x), d')) = snd r"
  by (auto split: prod.split sum.split)

lemma confined_update_watch:
  assumes ok: "tables_ok E d" and w: "w \<in> set (watches d)" "w_account w = a"
  shows "confined E a d (snd (update_watch E a w nm active fids specs acquired d))"
proof -
  let ?w' = "w\<lparr>w_name := nm, w_active := active\<rparr>"
  have 1: "confined E a d (save_watch ?w' d)"
    unfolding save_watch_def by (rule confined_watch_columns[OF ok w]) simp_all
  note 2 = confined_trans[OF 1 confined_set_feeds[OF confined_ok[OF 1], where wid = "w_id w" and fids = fids]]
  from confined_trans[OF 2 confined_replace_chain[OF confined_ok[OF 2]]] show ?thesis using confined_refl[OF ok] by (simp add: update_watch_def Let_def snd_relabel)
qed


lemma confined_create_watch:
  assumes ok: "tables_ok E d"
  shows "confined E a d (snd (create_watch E a nm active fids specs acquired d))"
proof -
  let ?n = "drawn d"
  let ?w = "\<lparr>w_id = mint E ?n, w_account = a, w_name = nm, w_active = active, w_initial_path = mint E (Suc ?n)\<rparr>"
  let ?d1 = "d\<lparr>drawn := Suc (Suc ?n)\<rparr>"
  let ?d2 = "?d1\<lparr>watches := watches d @ [?w]\<rparr>"
  let ?d3 = "?d2\<lparr>paths := paths d @ [\<lparr>p_id = mint E (Suc ?n), p_account = a, p_watch = mint E ?n\<rparr>]\<rparr>"
  have 1: "confined E a d ?d1" by (rule confined_drawn[OF ok]) simp
  have "ids_ok E (Suc ?n) w_id (watches d @ [?w])" by (rule ids_ok_append[OF tables_okD(1,4)[OF ok]]) simp_all
  then have "ids_ok E (Suc (Suc ?n)) w_id (watches d @ [?w])" by (rule ids_ok_later) simp
  then have "confined E a ?d1 ?d2" by (intro confined_watches confined_ok[OF 1]) simp_all
  note 2 = confined_trans[OF 1 this]
  have "confined E a ?d2 ?d3" by (intro confined_plain confined_ok[OF 2]) simp_all
  note 3 = confined_trans[OF 2 this]
  note 4 = confined_trans[OF 3 confined_new_subscriptions[OF confined_ok[OF 3], where wid = "mint E ?n" and fids = "dict_fromkeys fids"]]
  from confined_trans[OF 4 confined_replace_chain[OF confined_ok[OF 4]]] show ?thesis
    by (simp add: create_watch_def new_id_def Let_def snd_relabel)
qed

lemma confined_delete_watch:
  assumes ok: "tables_ok E d" and w: "w \<in> set (watches d)" "w_account w = a"
  shows "confined E a d (snd (delete_watch a w d))"
proof -
  let ?d1 = "d\<lparr>runs := delete_where (\<lambda>r. r_account r = a \<and> r_watch r = w_id w) (runs d)\<rparr>"
  let ?ps = "map p_id (filter (\<lambda>p. p_account p = a \<and> p_watch p = w_id w) (paths d))"
  let ?as = "map a_id (filter (\<lambda>x. a_account x = a \<and> a_path x \<in> set ?ps) (actions d))"
  let ?ws = "if ?ps = [] \<or> ?as = [] then windows d else delete_where (\<lambda>x. dw_account x = a \<and> dw_action x \<in> set ?as) (windows d)"
  let ?acts = "if ?ps = [] then actions d else delete_where (\<lambda>x. a_account x = a \<and> a_path x \<in> set ?ps) (actions d)"
  let ?d2 = "?d1\<lparr>windows := ?ws\<rparr>" and ?d3 = "?d1\<lparr>windows := ?ws, actions := ?acts\<rparr>"
  let ?d4 = "?d3\<lparr>paths := delete_where (\<lambda>p. p_account p = a \<and> p_watch p = w_id w) (paths d)\<rparr>"
  let ?d5 = "?d4\<lparr>watch_feeds := delete_where (\<lambda>s. wf_account s = a \<and> wf_watch s = w_id w) (watch_feeds d)\<rparr>"
  let ?d6 = "?d5\<lparr>watches := delete_where (\<lambda>x. w_id x = w_id w) (watches d)\<rparr>"
  note ids = tables_okD[OF ok]
  have 1: "confined E a d ?d1" by (intro confined_plain ok filter_delete_own) simp
  have "confined E a ?d1 ?d2" by (intro confined_plain confined_ok[OF 1]) (auto intro!: filter_delete_own)
  note 2 = confined_trans[OF 1 this]
  have "confined E a ?d2 (?d2\<lparr>actions := ?acts\<rparr>)"
    by (intro confined_actions confined_ok[OF 2]) (use ids(6) in \<open>auto intro!: filter_delete_own ids_ok_delete\<close>)
  note 3 = confined_trans[OF 2 this]
  have "confined E a ?d3 ?d4" by (intro confined_plain confined_ok[OF 3]) (auto intro!: filter_delete_own)
  note 4 = confined_trans[OF 3 this]
  have "confined E a ?d4 ?d5"
    by (intro confined_watch_feeds confined_ok[OF 4]) (use ids(5) in \<open>auto intro!: filter_delete_own ids_ok_delete\<close>)
  note 5 = confined_trans[OF 4 this]
  have "confined E a ?d5 ?d6"
    by (intro confined_watches confined_ok[OF 5])
      (use ids(4) w ids_ok_unique[OF ids(4) w(1)] in \<open>auto intro!: filter_delete_own ids_ok_delete\<close>)
  note 6 = confined_trans[OF 5 this]
  have "snd (delete_watch a w d) = ?d6" using w(2) by (simp add: delete_watch_def delete_watch_runs_def Let_def)
  with 6 show ?thesis by simp
qed

lemma confined_backfill_create: 
  assumes ok: "tables_ok E d"
  shows "confined E a d (snd (backfill_create E a wat target source is_head kind rep ws now d))"
proof -
  have 1: "confined E a d (d\<lparr>drawn := Suc (drawn d)\<rparr>)" by (rule confined_drawn[OF ok]) simp
  have "confined E a (d\<lparr>drawn := Suc (drawn d)\<rparr>) (d\<lparr>drawn := Suc (drawn d), backfills := backfills d @ [j]\<rparr>)"
    if "b_account j = a" for j
    using that confined_plain(4)[OF confined_ok[OF 1], of a "backfills d @ [j]"] by simp
  from confined_trans[OF 1 this] show ?thesis by (simp add: backfill_create_def new_id_def Let_def)
qed


subsection \<open>Requests\<close>

lemma watch_getD: "watch_get a i d = Inr w \<Longrightarrow> w \<in> set (watches d) \<and> w_account w = a"
  by (auto simp: watch_get_def split: option.splits dest: first_in)

lemma action_get_own: "action_get a i d = Inr x \<Longrightarrow> x \<in> set (actions d) \<and> a_account x = a"
  by (auto simp: action_get_def split: option.splits dest: first_in)

lemma snd_if: "snd (if b then x else y) = (if b then snd x else snd y)"
  by simp

lemma snd_case_pair: "snd (case r of (Inl e, d') \<Rightarrow> (f e d', d') | (Inr x, d') \<Rightarrow> (g x d', d')) = snd r"
  by (auto split: prod.split sum.split)

lemma confined_find_feed:
  assumes "tables_ok E d" "\<And>fd. fd \<in> set (feeds d) \<Longrightarrow> f_account fd = a \<Longrightarrow> confined E a d (snd (k fd))"
  shows "confined E a d (snd (find_feed a i k d))"
  using assms by (auto simp: find_feed_def confined_refl split: sum.split dest!: feed_getD)

lemma confined_find_watch:
  assumes "tables_ok E d" "\<And>w. w \<in> set (watches d) \<Longrightarrow> w_account w = a \<Longrightarrow> confined E a d (snd (k w))"
  shows "confined E a d (snd (find_watch a i k d))"
  using assms by (auto simp: find_watch_def confined_refl split: sum.split dest!: watch_getD)

lemma confined_find_action:
  assumes "tables_ok E d" "\<And>x. x \<in> set (actions d) \<Longrightarrow> a_account x = a \<Longrightarrow> confined E a d (snd (k x))"
  shows "confined E a d (snd (find_action a i k d))"
  using assms by (auto simp: find_action_def confined_refl split: sum.split dest!: action_get_own)

lemma confined_feed_requests:
  assumes ok: "tables_ok E d"
  shows "confined E a d (snd (feeds_post E S adapter a uid q form acquired now d))"
    "confined E a d (snd (feed_detail_put S adapter a fid q form d))"
    "confined E a d (snd (feed_detail_patch S a fid act d))" "confined E a d (snd (feed_detail_delete a fid d))"
    "confined E a d (snd (feed_sources_put E S adapter a fid body acquired now d))"
    "confined E a d (snd (source_detail_delete a sid d))"
proof -
  note op = confined_refl[OF ok] confined_feed_create[OF ok] confined_feed_update[OF ok] confined_feed_set_active[OF ok]
    confined_feed_delete[OF ok] confined_set_sources[OF ok] confined_source_remove[OF ok]
  show "confined E a d (snd (feeds_post E S adapter a uid q form acquired now d))"
    by (simp add: feeds_post_def op snd_case_pair snd_if split: sum.split prod.split)
  show "confined E a d (snd (feed_detail_put S adapter a fid q form d))"
    by (auto simp: feed_detail_put_def op snd_case_pair split: sum.split prod.split intro!: confined_find_feed ok)
  show "confined E a d (snd (feed_detail_patch S a fid act d))"
    by (auto simp: feed_detail_patch_def op snd_case_pair split: option.split intro!: confined_find_feed ok)
  show "confined E a d (snd (feed_detail_delete a fid d))"
    by (auto simp: feed_detail_delete_def op snd_case_pair intro!: confined_find_feed ok)
  show "confined E a d (snd (feed_sources_put E S adapter a fid body acquired now d))"
    by (auto simp: feed_sources_put_def op snd_case_pair Let_def split: json.split option.split intro!: confined_find_feed ok)
  show "confined E a d (snd (source_detail_delete a sid d))"
    by (simp add: source_detail_delete_def op snd_case_pair)
qed


lemma confined_watch_requests:
  assumes ok: "tables_ok E d"
  shows "confined E a d (snd (watches_post E a q form acquired d))"
    "confined E a d (snd (watch_detail_put E a wid q form acquired d))"
    "confined E a d (snd (watch_detail_patch E a wid act d))" "confined E a d (snd (watch_detail_delete a wid d))"
proof -
  note op = confined_refl[OF ok] confined_create_watch[OF ok] confined_update_watch[OF ok] confined_delete_watch[OF ok]
  show "confined E a d (snd (watches_post E a q form acquired d))"
    by (simp add: watches_post_def op snd_case_pair snd_if split: sum.split)
  show "confined E a d (snd (watch_detail_put E a wid q form acquired d))"
    by (auto simp: watch_detail_put_def op snd_case_pair split: sum.split intro!: confined_find_watch ok)
  have "confined E a d (snd (set_active a w b d))" if "w \<in> set (watches d)" "w_account w = a" for w b
    using that by (simp add: set_active_def op confined_watch_columns[OF ok])
  then show "confined E a d (snd (watch_detail_patch E a wid act d))"
    by (auto simp: watch_detail_patch_def op snd_case_pair split: option.split intro!: confined_find_watch ok)
  show "confined E a d (snd (watch_detail_delete a wid d))"
    by (auto simp: watch_detail_delete_def op snd_case_pair intro!: confined_find_watch ok)
qed

lemma confined_action_requests:
  assumes ok: "tables_ok E d"
  shows "confined E a d (snd (watch_actions_post E a wid q body acquired d))"
    "confined E a d (snd (action_detail_put E a aid q body d))" "confined E a d (snd (action_detail_delete a aid acquired d))"
    "confined E a d (snd (post_backfill E fromiso a aid w rep dry_run now d))"
proof -
  note op = confined_refl[OF ok] confined_add_action[OF ok] confined_set_config[OF ok] confined_remove_action[OF ok]
  show "confined E a d (snd (watch_actions_post E a wid q body acquired d))"
    by (auto simp: watch_actions_post_def op snd_case_pair split: json.split option.split sum.split intro!: confined_find_watch ok)
  show "confined E a d (snd (action_detail_put E a aid q body d))"
    by (auto simp: action_detail_put_def op snd_case_pair split: json.split option.split sum.split intro!: confined_find_action ok)
  show "confined E a d (snd (action_detail_delete a aid acquired d))"
    by (auto simp: action_detail_delete_def op snd_case_pair intro!: confined_find_action ok)
  have "snd (let (job, d') = backfill_create E a wat t src h k rp ws sch d in (Queued job, d')) =
      snd (backfill_create E a wat t src h k rp ws sch d)" for wat t src h k rp ws sch
    by (simp add: case_prod_unfold Let_def)
  then show "confined E a d (snd (post_backfill E fromiso a aid w rep dry_run now d))"
    using confined_backfill_create[OF ok]
    by (auto simp: post_backfill_def op Let_def snd_if case_prod_unfold split: sum.split)
qed

lemma confined_write: "tables_ok (ap_env X) d \<Longrightarrow> confined (ap_env X) a d (api_write_step X a r d)"
  by (cases r) (simp_all add: confined_feed_requests confined_watch_requests confined_action_requests)

lemma api_writes_tables: "tables_ok (ap_env X) d \<Longrightarrow> tables_ok (ap_env X) (api_writes X rs d)"
proof (induction X rs d rule: api_writes.induct)
  case (2 X acct r rs d)
  then show ?case using confined_ok[OF confined_write] by simp
qed simp

lemma api_writes_own:
  "tables_ok (ap_env X) d \<Longrightarrow> b \<notin> fst ` set rs \<Longrightarrow> own b (api_writes X rs d) = own b d"
proof (induction X rs d rule: api_writes.induct)
  case (2 X acct r rs d)
  note step = confined_write[OF 2(2), of acct r]
  have "own b (api_write_step X acct r d) = own b (others acct (api_write_step X acct r d))"
    using 2(3) by (simp add: own_others)
  also have "\<dots> = own b d" using step 2(3) by (simp add: confined_def own_others)
  finally show ?case using 2 confined_ok[OF step] by simp
qed simp

end
