(* ===== verification/Accounts.thy ===== *)
theory Accounts
  imports Auth_Tokens Polling
begin

text \<open>
  Users, accounts and the profiles that join them (accounts/services, accounts/models), signing up and
  in (auth\_api/operations/signup.py, auth\_api/views.py), the account a request is scoped to
  (accounts/api.py) and the two commands that work on users (seed\_quickstart's account step,
  issue\_cli\_token). The password hashers and the validators of addresses and passwords are
  parameters; a password is never rehashed. Letters are those of ASCII, on which the database's
  \<open>Lower\<close> and \<open>iexact\<close> and Python's \<open>lower\<close> agree.
\<close>

subsection \<open>Rows\<close>

datatype profile_status = PROFILE_PENDING | PROFILE_ACCEPTED | PROFILE_ACTIVE | PROFILE_REVOKED

datatype profile_role = ROLE_OWNER | ROLE_USER

record user_row =
  ur_id :: ulid
  ur_email :: string
  ur_password :: string
  ur_active :: bool
  ur_staff :: bool
  ur_superuser :: bool

record account_row =
  ac_id :: ulid
  ac_name :: string

record profile_row =
  pf_id :: ulid
  pf_user :: ulid
  pf_account :: ulid
  pf_primary :: bool
  pf_status :: profile_status
  pf_role :: profile_role

record tenancy =
  members :: "user_row list"
  tenants :: "account_row list"
  profiles :: "profile_row list"
  t_mints :: nat

record accounts_env =
  account_mint :: "nat \<Rightarrow> ulid"
  make_password :: "string option \<Rightarrow> string"
  check_password :: "string \<Rightarrow> string \<Rightarrow> bool"
  email_valid :: "string \<Rightarrow> bool"
  password_valid :: "string \<Rightarrow> bool"

subsection \<open>Users\<close>

text \<open>\<open>normalize_email\<close>: the domain in lower case; an address without an \<open>@\<close> is left as it is.\<close>

definition normalize_email :: "string \<Rightarrow> string" where
  "normalize_email email =
     (let s = strip email; domain = rev (takeWhile (\<lambda>c. c \<noteq> CHR ''@'') (rev s))
      in if CHR ''@'' \<in> set s then take (length s - length domain) s @ lower domain else email)"

text \<open>The two unique constraints on the address, of which the one on its lower case is the stronger.\<close>

definition create_user :: "accounts_env \<Rightarrow> string \<Rightarrow> string option \<Rightarrow> bool \<Rightarrow> tenancy \<Rightarrow> (exn + user_row) \<times> tenancy" where
  "create_user E email password superuser d =
     (if email = [] then (Inl ValueError, d)
      else let u = \<lparr>ur_id = account_mint E (t_mints d), ur_email = normalize_email email,
                    ur_password = make_password E password, ur_active = True, ur_staff = superuser, ur_superuser = superuser\<rparr>
           in if lower (ur_email u) \<in> (\<lambda>x. lower (ur_email x)) ` set (members d) then (Inl IntegrityError, d)
              else (Inr u, d\<lparr>members := members d @ [u], t_mints := Suc (t_mints d)\<rparr>))"

definition email_exists :: "string \<Rightarrow> tenancy \<Rightarrow> bool" where
  "email_exists email d \<longleftrightarrow> filter (\<lambda>u. lower (ur_email u) = lower email) (members d) \<noteq> []"

definition get_by_email :: "string \<Rightarrow> tenancy \<Rightarrow> exn + user_row" where
  "get_by_email email d =
     (case first (filter (\<lambda>u. lower (ur_email u) = lower email) (members d)) of None \<Rightarrow> Inl DoesNotExist | Some u \<Rightarrow> Inr u)"

subsection \<open>Accounts and profiles\<close>

definition create_account :: "accounts_env \<Rightarrow> string \<Rightarrow> tenancy \<Rightarrow> account_row \<times> tenancy" where
  "create_account E name d =
     (let a = \<lparr>ac_id = account_mint E (t_mints d), ac_name = name\<rparr>
      in (a, d\<lparr>tenants := tenants d @ [a], t_mints := Suc (t_mints d)\<rparr>))"

definition get_account :: "ulid \<Rightarrow> tenancy \<Rightarrow> exn + account_row" where
  "get_account i d = (case first (filter (\<lambda>a. ac_id a = i) (tenants d)) of None \<Rightarrow> Inl DoesNotExist | Some a \<Rightarrow> Inr a)"

definition count_accounts :: "tenancy \<Rightarrow> nat" where
  "count_accounts d = length (tenants d)"

definition bind_owner :: "accounts_env \<Rightarrow> ulid \<Rightarrow> ulid \<Rightarrow> tenancy \<Rightarrow> (exn + profile_row) \<times> tenancy" where
  "bind_owner E uid acct d =
     (if (uid, acct) \<in> (\<lambda>p. (pf_user p, pf_account p)) ` set (profiles d) then (Inl IntegrityError, d)
      else let p = \<lparr>pf_id = account_mint E (t_mints d), pf_user = uid, pf_account = acct, pf_primary = True,
                    pf_status = PROFILE_ACTIVE, pf_role = ROLE_OWNER\<rparr>
           in (Inr p, d\<lparr>profiles := profiles d @ [p], t_mints := Suc (t_mints d)\<rparr>))"

definition primary_for_user :: "ulid \<Rightarrow> tenancy \<Rightarrow> profile_row option" where
  "primary_for_user uid d = first (order_by pf_id (filter (\<lambda>p. pf_user p = uid \<and> pf_primary p) (profiles d)))"

definition any_active_for_user :: "ulid \<Rightarrow> tenancy \<Rightarrow> profile_row option" where
  "any_active_for_user uid d = first (order_by pf_id (filter (\<lambda>p. pf_user p = uid \<and> pf_status p = PROFILE_ACTIVE) (profiles d)))"

definition primary_account_id_for :: "ulid \<Rightarrow> tenancy \<Rightarrow> ulid option" where
  "primary_account_id_for uid d =
     map_option pf_account (case primary_for_user uid d of Some p \<Rightarrow> Some p | None \<Rightarrow> any_active_for_user uid d)"

definition is_active_owner :: "ulid \<Rightarrow> ulid \<Rightarrow> tenancy \<Rightarrow> bool" where
  "is_active_owner uid acct d \<longleftrightarrow>
     filter (\<lambda>p. pf_user p = uid \<and> pf_account p = acct \<and> pf_status p = PROFILE_ACTIVE \<and> pf_role p = ROLE_OWNER) (profiles d) \<noteq> []"

text \<open>One transaction: an error leaves nothing.\<close>

definition create_superuser :: "accounts_env \<Rightarrow> string \<Rightarrow> string option \<Rightarrow> ulid option \<Rightarrow> tenancy \<Rightarrow> (exn + user_row) \<times> tenancy" where
  "create_superuser E email password acct d =
     (case acct of
        None \<Rightarrow> (Inl ValueError, d)
      | Some a \<Rightarrow>
          (if a = blank then (Inl ValueError, d)
           else case get_account a d of
                  Inl e \<Rightarrow> (Inl e, d)
                | Inr _ \<Rightarrow>
                    (case create_user E email password True d of
                       (Inl e, _) \<Rightarrow> (Inl e, d)
                     | (Inr u, d1) \<Rightarrow>
                         (case bind_owner E (ur_id u) a d1 of (Inl e, _) \<Rightarrow> (Inl e, d) | (Inr _, d2) \<Rightarrow> (Inr u, d2)))))"

subsection \<open>Signing up and in\<close>

datatype signup_error = EmailAlreadyExists | Signup_Error exn

definition signup_run :: "accounts_env \<Rightarrow> string \<Rightarrow> string \<Rightarrow> tenancy \<Rightarrow> (signup_error + user_row) \<times> tenancy" where
  "signup_run E email password d =
     (case create_user E email (Some password) False d of
        (Inl e, d1) \<Rightarrow> (Inl (if e = IntegrityError then EmailAlreadyExists else Signup_Error e), d1)
      | (Inr u, d1) \<Rightarrow>
          (let (a, d2) = create_account E ''Personal'' d1
           in case bind_owner E (ur_id u) (ac_id a) d2 of
                (Inl e, d3) \<Rightarrow> (Inl (Signup_Error e), d3)
              | (Inr _, d3) \<Rightarrow> (Inr u, d3)))"

text \<open>The user a token row points at, with the account it is scoped to now.\<close>

definition user_of :: "tenancy \<Rightarrow> user_row \<Rightarrow> user" where
  "user_of d u = \<lparr>u_id = ur_id u, u_email = ur_email u, u_account = primary_account_id_for (ur_id u) d\<rparr>"

definition email_field :: "accounts_env \<Rightarrow> string \<Rightarrow> exn + string" where
  "email_field E raw =
     (let v = lower (strip raw) in if v = [] \<or> \<not> email_valid E v then Inl ValidationError else Inr v)"

definition signup_fields :: "accounts_env \<Rightarrow> string \<Rightarrow> string \<Rightarrow> exn + string" where
  "signup_fields E email password =
     (case email_field E email of
        Inl e \<Rightarrow> Inl e
      | Inr v \<Rightarrow> if password = [] \<or> \<not> password_valid E password then Inl ValidationError else Inr v)"

definition login_fields :: "accounts_env \<Rightarrow> string \<Rightarrow> string \<Rightarrow> exn + string" where
  "login_fields E email password =
     (case email_field E email of Inl e \<Rightarrow> Inl e | Inr v \<Rightarrow> if password = [] then Inl ValidationError else Inr v)"

record browser_auth =
  ba_user :: auth_user
  ba_cookie :: string
  ba_max_age :: int

definition browser_auth_response :: "auth_env \<Rightarrow> user \<Rightarrow> instant \<Rightarrow> auth_db \<Rightarrow> browser_auth reply \<times> auth_db" where
  "browser_auth_response A u now t =
     (let ((access, _, ttl), t') = mint_pair A u now t
      in (reply_of (map_sum id (\<lambda>w. \<lparr>ba_user = w, ba_cookie = at_value access, ba_max_age = ttl\<rparr>) (auth_user_wire u)), t'))"

text \<open>
  \<open>SignupView\<close>: the pre-check read the table \<open>seen\<close>, the transaction runs on the present one. Whatever
  is raised inside the transaction rolls it back.
\<close>

definition signup_view :: "accounts_env \<Rightarrow> auth_env \<Rightarrow> string \<Rightarrow> string \<Rightarrow> tenancy \<Rightarrow> instant \<Rightarrow> tenancy \<times> auth_db
    \<Rightarrow> browser_auth reply \<times> tenancy \<times> auth_db" where
  "signup_view E A email password seen now w =
     (case signup_fields E email password of
        Inl e \<Rightarrow> (Raised e, w)
      | Inr v \<Rightarrow>
          if email_exists v seen then (Refused 409 EMAIL_TAKEN, w)
          else case signup_run E v password (fst w) of
                 (Inl EmailAlreadyExists, _) \<Rightarrow> (Refused 409 EMAIL_TAKEN, w)
               | (Inl (Signup_Error e), _) \<Rightarrow> (Raised e, w)
               | (Inr u, d') \<Rightarrow>
                   (case browser_auth_response A (user_of d' u) now (snd w) of
                      (Reply b, t') \<Rightarrow> (Reply b, (d', t'))
                    | (r, _) \<Rightarrow> (r, w)))"

text \<open>The framework's model backend: the row of the address, its password, its active flag.\<close>

definition model_authenticate :: "accounts_env \<Rightarrow> string \<Rightarrow> string \<Rightarrow> tenancy \<Rightarrow> user_row option" where
  "model_authenticate E email password d =
     (case get_by_email email d of
        Inl _ \<Rightarrow> None
      | Inr u \<Rightarrow> if check_password E password (ur_password u) \<and> ur_active u then Some u else None)"

definition login_view :: "accounts_env \<Rightarrow> auth_env \<Rightarrow> string \<Rightarrow> string \<Rightarrow> instant \<Rightarrow> tenancy \<times> auth_db
    \<Rightarrow> browser_auth reply \<times> tenancy \<times> auth_db" where
  "login_view E A email password now w =
     (case login_fields E email password of
        Inl e \<Rightarrow> (Raised e, w)
      | Inr v \<Rightarrow>
          (case model_authenticate E v password (fst w) of
             None \<Rightarrow> (Refused 401 INVALID_CREDENTIALS, w)
           | Some u \<Rightarrow>
               if \<not> ur_active u then (Refused 401 INVALID_CREDENTIALS, w)
               else let (r, t') = browser_auth_response A (user_of (fst w) u) now (snd w) in (r, (fst w, t'))))"

subsection \<open>The account of a request\<close>

datatype scope_outcome = Scoped ulid | Not_Signed_In | No_Account

text \<open>\<open>AccountScopedAPIView.initial\<close>, once the permission check has seen the user.\<close>

definition account_scope :: "user option \<Rightarrow> tenancy \<Rightarrow> scope_outcome" where
  "account_scope signed_in d =
     (case signed_in of
        None \<Rightarrow> Not_Signed_In
      | Some u \<Rightarrow> (case primary_account_id_for (u_id u) d of None \<Rightarrow> No_Account | Some a \<Rightarrow> Scoped a))"

subsection \<open>Commands\<close>

definition existing_user :: "string \<Rightarrow> tenancy \<Rightarrow> user_row option" where
  "existing_user email d =
     (if email_exists email d then (case get_by_email email d of Inl _ \<Rightarrow> None | Inr u \<Rightarrow> Some u) else None)"

text \<open>
  \<open>seed_quickstart._get_or_create_account\<close>, no transaction around its steps: \<open>seed_user\<close> is committed
  before \<open>seed_account\<close> runs, and the account before its profile.
\<close>

definition seed_user :: "accounts_env \<Rightarrow> string \<Rightarrow> string \<Rightarrow> tenancy \<Rightarrow> (exn + user_row) \<times> tenancy" where
  "seed_user E email password d =
     (case existing_user email d of Some u \<Rightarrow> (Inr u, d) | None \<Rightarrow> create_user E email (Some password) False d)"

definition seed_account :: "accounts_env \<Rightarrow> ulid \<Rightarrow> tenancy \<Rightarrow> (exn + ulid) \<times> tenancy" where
  "seed_account E uid d =
     (case primary_for_user uid d of
        Some p \<Rightarrow> (Inr (pf_account p), d)
      | None \<Rightarrow>
          (let (a, d1) = create_account E ''Local workspace'' d
           in case bind_owner E uid (ac_id a) d1 of (Inl e, d2) \<Rightarrow> (Inl e, d2) | (Inr _, d2) \<Rightarrow> (Inr (ac_id a), d2)))"

definition get_or_create_account :: "accounts_env \<Rightarrow> string \<Rightarrow> string \<Rightarrow> tenancy \<Rightarrow> (exn + ulid \<times> ulid \<times> string) \<times> tenancy" where
  "get_or_create_account E raw_email password d =
     (case seed_user E (lower (strip raw_email)) password d of
        (Inl e, d1) \<Rightarrow> (Inl e, d1)
      | (Inr u, d1) \<Rightarrow>
          (case seed_account E (ur_id u) d1 of
             (Inl e, d2) \<Rightarrow> (Inl e, d2)
           | (Inr a, d2) \<Rightarrow> (map_sum id (\<lambda>acct. (ur_id u, a, ac_name acct)) (get_account a d2), d2)))"

text \<open>The command issue\_cli\_token; both of its errors become a CommandError.\<close>

definition issue_cli_token :: "auth_env \<Rightarrow> string \<Rightarrow> string \<Rightarrow> int option \<Rightarrow> instant \<Rightarrow> tenancy \<times> auth_db
    \<Rightarrow> (exn + cli_token \<times> string) \<times> auth_db" where
  "issue_cli_token A email name days now w =
     (case get_by_email email (fst w) of
        Inl e \<Rightarrow> (Inl e, snd w)
      | Inr u \<Rightarrow> cli_token_mint A (user_of (fst w) u) name days now (snd w))"

subsection \<open>One account each\<close>

text \<open>
  The table of users: addresses are unique up to case, and every user is the active owner of one account.
\<close>

definition tenancy_ok :: "accounts_env \<Rightarrow> tenancy \<Rightarrow> bool" where
  "tenancy_ok E d \<longleftrightarrow> inj (account_mint E)
     \<and> distinct (map (\<lambda>u. lower (ur_email u)) (members d)) \<and> distinct (map ur_id (members d))
     \<and> distinct (map pf_user (profiles d)) \<and> pf_user ` set (profiles d) = ur_id ` set (members d)
     \<and> pf_account ` set (profiles d) \<subseteq> ac_id ` set (tenants d)
     \<and> (\<forall>p \<in> set (profiles d). pf_primary p \<and> pf_status p = PROFILE_ACTIVE \<and> pf_role p = ROLE_OWNER)
     \<and> ur_id ` set (members d) \<union> ac_id ` set (tenants d) \<subseteq> account_mint E ` {..<t_mints d}"

text \<open>What an operation that lets somebody in does: one user, one profile, on the account \<open>a\<close>.\<close>

definition joined_with :: "accounts_env \<Rightarrow> tenancy \<Rightarrow> user_row \<Rightarrow> ulid \<Rightarrow> tenancy \<Rightarrow> bool" where
  "joined_with E d u a d' \<longleftrightarrow> (\<exists>p news.
     members d' = members d @ [u] \<and> profiles d' = profiles d @ [p] \<and> tenants d' = tenants d @ news
     \<and> pf_user p = ur_id u \<and> pf_account p = a \<and> pf_primary p \<and> pf_status p = PROFILE_ACTIVE \<and> pf_role p = ROLE_OWNER
     \<and> a \<in> ac_id ` set (tenants d') \<and> lower (ur_email u) \<notin> (\<lambda>x. lower (ur_email x)) ` set (members d)
     \<and> ur_id u = account_mint E (t_mints d) \<and> t_mints d < t_mints d'
     \<and> ac_id ` set news \<subseteq> account_mint E ` {t_mints d..<t_mints d'})"

lemma mint_fresh: "inj f \<Longrightarrow> X \<subseteq> f ` {..<(n::nat)} \<Longrightarrow> n \<le> k \<Longrightarrow> f k \<notin> X"
proof
  assume "inj f" "X \<subseteq> f ` {..<n}" "n \<le> k" "f k \<in> X"
  then obtain i where "f k = f i" "i < n" by blast
  with \<open>inj f\<close> \<open>n \<le> k\<close> show False by (simp add: inj_eq)
qed

lemma mint_mono: "X \<subseteq> f ` {..<n} \<Longrightarrow> n \<le> k \<Longrightarrow> X \<subseteq> f ` {..<(k::nat)}"
  by (rule order_trans[of _ "f ` {..<n}"]) auto

lemma tenancy_fresh:
  assumes "tenancy_ok E d" "t_mints d \<le> k"
  shows "account_mint E k \<notin> ur_id ` set (members d)" "account_mint E k \<notin> ac_id ` set (tenants d)"
    "account_mint E k \<notin> pf_user ` set (profiles d)" "account_mint E k \<notin> pf_account ` set (profiles d)"
  using assms mint_fresh[of "account_mint E" "ur_id ` set (members d) \<union> ac_id ` set (tenants d)" "t_mints d" k]
  by (auto simp: tenancy_ok_def)

lemma joined_ok:
  assumes ok: "tenancy_ok E d" and j: "joined_with E d u a d'"
  shows "tenancy_ok E d'"
proof -
  obtain p news where step: "members d' = members d @ [u]" "profiles d' = profiles d @ [p]" "tenants d' = tenants d @ news"
    "pf_user p = ur_id u" "pf_account p = a" "pf_primary p" "pf_status p = PROFILE_ACTIVE" "pf_role p = ROLE_OWNER"
    "a \<in> ac_id ` set (tenants d')" "lower (ur_email u) \<notin> (\<lambda>x. lower (ur_email x)) ` set (members d)"
    "ur_id u = account_mint E (t_mints d)" "t_mints d < t_mints d'"
    "ac_id ` set news \<subseteq> account_mint E ` {t_mints d..<t_mints d'}"
    using j unfolding joined_with_def by blast
  note new = tenancy_fresh[OF ok order_refl, folded step(11)]
  have acc: "pf_account ` set (profiles d') \<subseteq> ac_id ` set (tenants d')"
    using ok step(2,3,5,9) by (auto simp: tenancy_ok_def)
  have "ac_id ` set news \<subseteq> account_mint E ` {..<t_mints d'}"
    by (rule order_trans[OF step(13)]) auto
  moreover have "ur_id ` set (members d) \<union> ac_id ` set (tenants d) \<subseteq> account_mint E ` {..<t_mints d'}"
    using ok step(12) by (simp add: tenancy_ok_def mint_mono[of _ _ "t_mints d"])
  moreover have "ur_id u \<in> account_mint E ` {..<t_mints d'}" using step(11,12) by simp
  ultimately have "ur_id ` set (members d') \<union> ac_id ` set (tenants d') \<subseteq> account_mint E ` {..<t_mints d'}"
    by (simp add: step(1,3) image_Un)
  moreover have "pf_user ` set (profiles d') = ur_id ` set (members d')" "distinct (map pf_user (profiles d'))"
    "distinct (map ur_id (members d'))" "distinct (map (\<lambda>x. lower (ur_email x)) (members d'))"
    using ok new(1,3) step(1,2,4,10) by (simp_all add: tenancy_ok_def)
  moreover have "\<forall>p \<in> set (profiles d'). pf_primary p \<and> pf_status p = PROFILE_ACTIVE \<and> pf_role p = ROLE_OWNER"
    using ok step(2,6-8) by (simp add: tenancy_ok_def)
  ultimately show ?thesis using ok acc by (simp add: tenancy_ok_def)
qed

lemma primary_account:
  assumes ok: "tenancy_ok E d" and p: "p \<in> set (profiles d)"
  shows "primary_account_id_for (pf_user p) d = Some (pf_account p)"
proof -
  have "filter (\<lambda>x. pf_user x = pf_user p \<and> pf_primary x) (profiles d) = filter (\<lambda>x. pf_user x = pf_user p) (profiles d)"
    using ok by (intro filter_cong) (auto simp: tenancy_ok_def)
  moreover have "filter (\<lambda>x. pf_user x = pf_user p) rows = [p]" if "distinct (map pf_user rows)" "p \<in> set rows" for rows
    using that by (induction rows) (auto simp: filter_empty_conv rev_image_eqI)
  ultimately have "filter (\<lambda>x. pf_user x = pf_user p \<and> pf_primary x) (profiles d) = [p]"
    using ok p by (simp add: tenancy_ok_def)
  then show ?thesis by (simp add: primary_account_id_for_def primary_for_user_def)
qed

text \<open>Hence every user has an account, and no wire of a user raises.\<close>

lemma user_has_account:
  assumes "tenancy_ok E d" "u \<in> set (members d)"
  shows "\<exists>a. primary_account_id_for (ur_id u) d = Some a \<and> a \<in> ac_id ` set (tenants d)
    \<and> is_active_owner (ur_id u) a d \<and> account_scope (Some (user_of d u)) d = Scoped a
    \<and> auth_user_wire (user_of d u) = Inr \<lparr>au_id = ur_id u, au_email = ur_email u, au_account = a\<rparr>"
proof -
  obtain p where p: "p \<in> set (profiles d)" "pf_user p = ur_id u"
    using assms by (metis (no_types, lifting) imageE image_eqI tenancy_ok_def)
  with primary_account[OF assms(1) p(1)] have "primary_account_id_for (ur_id u) d = Some (pf_account p)" by simp
  moreover have "pf_account p \<in> ac_id ` set (tenants d)" "is_active_owner (ur_id u) (pf_account p) d"
    using assms(1) p by (auto simp: tenancy_ok_def is_active_owner_def filter_empty_conv)
  ultimately show ?thesis by (simp add: account_scope_def user_of_def auth_user_wire_def)
qed

lemma joined_account:
  assumes "tenancy_ok E d" "joined_with E d u a d'"
  shows "primary_account_id_for (ur_id u) d' = Some a" and "i \<noteq> ur_id u \<Longrightarrow> primary_account_id_for i d' = primary_account_id_for i d"
proof -
  obtain p where p: "profiles d' = profiles d @ [p]" "pf_user p = ur_id u" "pf_account p = a"
    using assms(2) by (auto simp: joined_with_def)
  then show "primary_account_id_for (ur_id u) d' = Some a"
    using primary_account[OF joined_ok[OF assms], of p] by simp
  from p show "i \<noteq> ur_id u \<Longrightarrow> primary_account_id_for i d' = primary_account_id_for i d"
    by (simp add: primary_account_id_for_def primary_for_user_def any_active_for_user_def split: option.split)
qed

subsection \<open>Addresses\<close>

lemma lower_normalize: "strip s = s \<Longrightarrow> lower (normalize_email s) = lower s"
proof -
  assume s: "strip s = s"
  let ?domain = "rev (takeWhile (\<lambda>c. c \<noteq> CHR ''@'') (rev s))"
  have "s = rev (dropWhile (\<lambda>c. c \<noteq> CHR ''@'') (rev s)) @ ?domain"
    by (metis rev_append rev_rev_ident takeWhile_dropWhile_id)
  then have "take (length s - length ?domain) s = rev (dropWhile (\<lambda>c. c \<noteq> CHR ''@'') (rev s))"
    by (metis append_eq_conv_conj diff_add_inverse2 length_append)
  then have "lower (take (length s - length ?domain) s @ lower ?domain)
      = lower (rev (dropWhile (\<lambda>c. c \<noteq> CHR ''@'') (rev s)) @ ?domain)"
    by (simp add: lower_def)
  also have "\<dots> = lower s" using \<open>s = _\<close> by simp
  finally show ?thesis using s by (simp add: normalize_email_def Let_def)
qed

lemma get_by_email_member:
  assumes "tenancy_ok E d" "u \<in> set (members d)" "lower (ur_email u) = lower v"
  shows "get_by_email v d = Inr u"
proof -
  have "filter (\<lambda>x. lower (ur_email x) = lower v) rows = [u]"
    if "distinct (map (\<lambda>x. lower (ur_email x)) rows)" "u \<in> set rows" for rows
    using that assms(3) by (induction rows) (auto simp: filter_empty_conv rev_image_eqI)
  with assms show ?thesis by (simp add: get_by_email_def tenancy_ok_def)
qed

lemma email_exists_iff: "email_exists v d \<longleftrightarrow> lower v \<in> (\<lambda>x. lower (ur_email x)) ` set (members d)"
  by (force simp: email_exists_def filter_empty_conv)

lemma get_by_email_none: "get_by_email v d = Inl DoesNotExist \<longleftrightarrow> \<not> email_exists v d"
  by (cases "filter (\<lambda>u. lower (ur_email u) = lower v) (members d)") (simp_all add: get_by_email_def email_exists_def)

subsection \<open>What the operations do\<close>

lemma create_user_cases:
  assumes "strip v = v" "v \<noteq> []"
  shows "create_user E v pw s d =
    (if email_exists v d then (Inl IntegrityError, d)
     else (Inr \<lparr>ur_id = account_mint E (t_mints d), ur_email = normalize_email v, ur_password = make_password E pw,
                 ur_active = True, ur_staff = s, ur_superuser = s\<rparr>,
       d\<lparr>members := members d @ [\<lparr>ur_id = account_mint E (t_mints d), ur_email = normalize_email v,
           ur_password = make_password E pw, ur_active = True, ur_staff = s, ur_superuser = s\<rparr>],
         t_mints := Suc (t_mints d)\<rparr>))"
  using assms by (simp add: create_user_def email_exists_iff lower_normalize Let_def)

lemma bind_new_owner:
  "uid \<notin> pf_user ` set (profiles d) \<Longrightarrow> bind_owner E uid a d =
     (let p = \<lparr>pf_id = account_mint E (t_mints d), pf_user = uid, pf_account = a, pf_primary = True,
               pf_status = PROFILE_ACTIVE, pf_role = ROLE_OWNER\<rparr>
      in (Inr p, d\<lparr>profiles := profiles d @ [p], t_mints := Suc (t_mints d)\<rparr>))"
  by (auto simp: bind_owner_def Let_def)

lemma signup_run_cases:
  assumes ok: "tenancy_ok E d" and v: "strip v = v" "v \<noteq> []"
  shows "email_exists v d \<Longrightarrow> signup_run E v pw d = (Inl EmailAlreadyExists, d)"
    and "\<not> email_exists v d \<Longrightarrow> \<exists>u d'. signup_run E v pw d = (Inr u, d') \<and> joined_with E d u (account_mint E (Suc (t_mints d))) d'
      \<and> ur_email u = normalize_email v \<and> ur_password u = make_password E (Some pw) \<and> ur_active u"
proof -
  show "email_exists v d \<Longrightarrow> signup_run E v pw d = (Inl EmailAlreadyExists, d)"
    by (simp add: signup_run_def create_user_cases[OF v])
  assume new: "\<not> email_exists v d"
  then have "lower (normalize_email v) \<notin> (\<lambda>x. lower (ur_email x)) ` set (members d)"
    by (simp add: email_exists_iff lower_normalize v(1))
  moreover have "account_mint E (t_mints d) \<notin> pf_user ` set (profiles d)" by (rule tenancy_fresh(3)[OF ok order_refl])
  ultimately show "\<exists>u d'. signup_run E v pw d = (Inr u, d') \<and> joined_with E d u (account_mint E (Suc (t_mints d))) d'
      \<and> ur_email u = normalize_email v \<and> ur_password u = make_password E (Some pw) \<and> ur_active u"
    using new by (simp add: signup_run_def create_user_cases[OF v] create_account_def bind_new_owner Let_def joined_with_def)
qed

lemma superuser_cases:
  assumes ok: "tenancy_ok E d" and c: "create_superuser E email pw acct d = (r, d')"
  shows "(\<exists>u a. r = Inr u \<and> acct = Some a \<and> a \<noteq> blank \<and> joined_with E d u a d' \<and> ur_superuser u) \<or> (\<exists>e. r = Inl e \<and> d' = d)"
proof (cases "\<exists>a x. acct = Some a \<and> a \<noteq> blank \<and> get_account a d = Inr x \<and> email \<noteq> []
    \<and> lower (normalize_email email) \<notin> (\<lambda>x. lower (ur_email x)) ` set (members d)")
  case True
  then obtain a x where a: "acct = Some a" "a \<noteq> blank" "get_account a d = Inr x" "email \<noteq> []"
    "lower (normalize_email email) \<notin> (\<lambda>x. lower (ur_email x)) ` set (members d)" by blast
  then have "a \<in> ac_id ` set (tenants d)"
    by (auto simp: get_account_def split: option.splits dest!: first_in)
  with a c tenancy_fresh(3)[OF ok order_refl] show ?thesis
    by (auto simp: create_superuser_def create_user_def bind_new_owner Let_def joined_with_def)
next
  case False
  with c show ?thesis
    by (auto simp: create_superuser_def create_user_def Let_def split: option.splits sum.splits if_splits)
qed

lemma member_primary:
  assumes "tenancy_ok E d" "u \<in> set (members d)"
  obtains p x where "primary_for_user (ur_id u) d = Some p" "primary_account_id_for (ur_id u) d = Some (pf_account p)"
    "get_account (pf_account p) d = Inr x"
proof -
  obtain p where p: "p \<in> set (profiles d)" "pf_user p = ur_id u"
    using assms by (metis (no_types, lifting) imageE image_eqI tenancy_ok_def)
  then have "p \<in> set (filter (\<lambda>x. pf_user x = ur_id u \<and> pf_primary x) (profiles d))"
    using assms(1) by (simp add: tenancy_ok_def)
  then have "order_by pf_id (filter (\<lambda>x. pf_user x = ur_id u \<and> pf_primary x) (profiles d)) \<noteq> []"
    by (metis empty_iff empty_set order_by_Nil_iff)
  then obtain q where q: "primary_for_user (ur_id u) d = Some q"
    unfolding primary_for_user_def by (metis first_None not_None_eq)
  then have "q \<in> set (profiles d)" by (auto simp: primary_for_user_def dest!: first_in)
  then have "pf_account q \<in> ac_id ` set (tenants d)" using assms(1) by (auto simp: tenancy_ok_def)
  then have "filter (\<lambda>a. ac_id a = pf_account q) (tenants d) \<noteq> []" by (force simp: filter_empty_conv)
  then obtain x where "get_account (pf_account q) d = Inr x"
    unfolding get_account_def by (cases "filter (\<lambda>a. ac_id a = pf_account q) (tenants d)") simp_all
  with q that[of q x] show thesis by (simp add: primary_account_id_for_def)
qed

text \<open>A seed run lets a new user in, finds the old one, or, without an address, raises.\<close>

lemma seed_old:
  assumes ok: "tenancy_ok E d" and old: "email_exists (lower (strip raw)) d"
  shows "\<exists>u a acct. get_or_create_account E raw pw d = (Inr (ur_id u, a, acct), d) \<and> u \<in> set (members d)
    \<and> lower (ur_email u) = lower (strip raw) \<and> primary_account_id_for (ur_id u) d = Some a"
proof -
  obtain u where u: "u \<in> set (members d)" "lower (ur_email u) = lower (lower (strip raw))"
    using old unfolding email_exists_iff by auto
  obtain p x where "primary_for_user (ur_id u) d = Some p" "primary_account_id_for (ur_id u) d = Some (pf_account p)"
    "get_account (pf_account p) d = Inr x" by (rule member_primary[OF ok u(1)])
  with u old get_by_email_member[OF ok u] show ?thesis
    by (simp add: get_or_create_account_def seed_user_def existing_user_def seed_account_def) blast
qed

lemma strip_address: "strip (lower (strip raw)) = lower (strip raw)"
  by (simp add: lower_def strip_map_lower)

lemma seed_new:
  assumes ok: "tenancy_ok E d" and new: "\<not> email_exists (lower (strip raw)) d" and v: "strip raw \<noteq> []"
  shows "\<exists>u a d'. get_or_create_account E raw pw d = (Inr (ur_id u, a, ''Local workspace''), d') \<and> joined_with E d u a d'
    \<and> a \<notin> ac_id ` set (tenants d)"
proof -
  let ?v = "lower (strip raw)"
  have "?v \<noteq> []" using v by (simp add: lower_def)
  then have user: "create_user E ?v (Some pw) False d = (Inr \<lparr>ur_id = account_mint E (t_mints d), ur_email = normalize_email ?v,
      ur_password = make_password E (Some pw), ur_active = True, ur_staff = False, ur_superuser = False\<rparr>,
      d\<lparr>members := members d @ [\<lparr>ur_id = account_mint E (t_mints d), ur_email = normalize_email ?v,
        ur_password = make_password E (Some pw), ur_active = True, ur_staff = False, ur_superuser = False\<rparr>],
        t_mints := Suc (t_mints d)\<rparr>)"
    using create_user_cases[OF strip_address] new by simp
  have address: "lower (normalize_email ?v) \<notin> (\<lambda>x. lower (ur_email x)) ` set (members d)"
    using new by (simp add: email_exists_iff lower_normalize strip_address)
  have none: "account_mint E (t_mints d) \<notin> pf_user ` set (profiles d)" by (rule tenancy_fresh(3)[OF ok order_refl])
  then have "filter (\<lambda>p. pf_user p = account_mint E (t_mints d) \<and> pf_primary p) (profiles d) = []"
    unfolding filter_empty_conv by (metis image_eqI)
  moreover have "account_mint E (Suc (t_mints d)) \<notin> ac_id ` set (tenants d)" by (rule tenancy_fresh(2)[OF ok]) simp
  moreover from this have "filter (\<lambda>a. ac_id a = account_mint E (Suc (t_mints d))) (tenants d) = []"
    unfolding filter_empty_conv by (metis image_eqI)
  ultimately show ?thesis
    using new address none
    by (simp add: get_or_create_account_def seed_user_def existing_user_def user seed_account_def primary_for_user_def
        create_account_def bind_new_owner get_account_def Let_def joined_with_def)
qed

lemma seed_blank:
  assumes "tenancy_ok E d" "\<not> email_exists (lower (strip raw)) d" "strip raw = []"
  shows "get_or_create_account E raw pw d = (Inl ValueError, d)"
  using assms by (simp add: get_or_create_account_def seed_user_def existing_user_def create_user_def lower_def)

lemma map_sum_Inr: "map_sum id f x = Inr y \<longleftrightarrow> (\<exists>z. x = Inr z \<and> y = f z)"
  by (cases x) auto

text \<open>A seed run that was cut off after it made the user is made good by the next.\<close>

lemma seed_heals:
  assumes "tenancy_ok E d" "\<not> email_exists (lower (strip raw)) d" "seed_user E (lower (strip raw)) pw d = (Inr u, d1)"
  shows "\<exists>a acct d'. get_or_create_account E raw pw d1 = (Inr (ur_id u, a, acct), d') \<and> tenancy_ok E d'
    \<and> primary_account_id_for (ur_id u) d' = Some a"
proof -
  have v: "strip raw \<noteq> []"
    using assms by (auto simp: seed_user_def existing_user_def create_user_def lower_def)
  obtain w a d' where run: "get_or_create_account E raw pw d = (Inr (ur_id w, a, ''Local workspace''), d')" "joined_with E d w a d'"
    using seed_new[OF assms(1,2) v] by blast
  have made: "create_user E (lower (strip raw)) (Some pw) False d = (Inr u, d1)"
    using assms(2,3) by (simp add: seed_user_def existing_user_def)
  have ne: "lower (strip raw) \<noteq> []" using v by (simp add: lower_def)
  from made have u: "members d1 = members d @ [u]" "lower (ur_email u) = lower (strip raw)" "ur_active u"
    using create_user_cases[OF strip_address ne, of E "Some pw" False d] assms(2)
    by (auto simp: lower_normalize[OF strip_address])
  have none: "filter (\<lambda>u. lower (ur_email u) = lower (strip raw)) (members d) = []"
    using assms(2) by (simp add: email_exists_def)
  have again: "seed_user E (lower (strip raw)) pw d1 = (Inr u, d1)"
    using none u by (simp add: seed_user_def existing_user_def email_exists_def get_by_email_def)
  then have "get_or_create_account E raw pw d1 = get_or_create_account E raw pw d"
    using assms(3) by (simp add: get_or_create_account_def)
  moreover have "ur_id w = ur_id u"
    using run(1) assms(3) by (auto simp: get_or_create_account_def map_sum_Inr split: sum.splits prod.splits)
  ultimately show ?thesis
    using run joined_ok[OF assms(1) run(2)] joined_account(1)[OF assms(1) run(2)] by auto
qed

subsection \<open>Every history\<close>

datatype tenancy_op =
    Sign_Up string string tenancy instant
  | Log_In string string instant
  | Add_Superuser string "string option" "ulid option"
  | Seed_Account string string

fun tenancy_step :: "accounts_env \<Rightarrow> auth_env \<Rightarrow> tenancy_op \<Rightarrow> tenancy \<times> auth_db \<Rightarrow> tenancy \<times> auth_db" where
  "tenancy_step E A (Sign_Up email pw seen now) w = snd (signup_view E A email pw seen now w)"
| "tenancy_step E A (Log_In email pw now) w = snd (login_view E A email pw now w)"
| "tenancy_step E A (Add_Superuser email pw acct) w = (snd (create_superuser E email pw acct (fst w)), snd w)"
| "tenancy_step E A (Seed_Account email pw) w = (snd (get_or_create_account E email pw (fst w)), snd w)"

lemma signup_fieldsD:
  assumes "signup_fields E email pw = Inr v"
  shows "v = lower (strip email)" "v \<noteq> []" "strip v = v" "lower v = v" "email_valid E v" "pw \<noteq> []"
proof -
  show "v = lower (strip email)" "v \<noteq> []" "email_valid E v" "pw \<noteq> []"
    using assms by (auto simp: signup_fields_def email_field_def Let_def split: sum.splits if_splits)
  then show "strip v = v" "lower v = v" by (simp_all add: strip_address)
qed

text \<open>The exact outcome of a sign-up, however stale its pre-check.\<close>

lemma signup_exact:
  assumes ok: "tenancy_ok E (fst w)" and v: "signup_fields E email pw = Inr v"
  shows "email_exists v seen \<or> email_exists v (fst w) \<Longrightarrow> signup_view E A email pw seen now w = (Refused 409 EMAIL_TAKEN, w)"
    and "\<not> email_exists v seen \<Longrightarrow> \<not> email_exists v (fst w) \<Longrightarrow> \<exists>u a d'. joined_with E (fst w) u a d' \<and> a \<notin> ac_id ` set (tenants (fst w))
      \<and> lower (ur_email u) = v \<and> ur_active u \<and> ur_password u = make_password E (Some pw)
      \<and> signup_view E A email pw seen now w =
          (Reply \<lparr>ba_user = \<lparr>au_id = ur_id u, au_email = ur_email u, au_account = a\<rparr>,
                  ba_cookie = token_urlsafe A (draws (snd w)), ba_max_age = ACCESS_TOKEN_EXPIRES_SECONDS A\<rparr>,
           (d', snd (mint_pair A (user_of d' u) now (snd w))))"
proof -
  note fields = signup_fieldsD[OF v]
  show "email_exists v seen \<or> email_exists v (fst w) \<Longrightarrow> signup_view E A email pw seen now w = (Refused 409 EMAIL_TAKEN, w)"
    using signup_run_cases(1)[OF ok fields(3,2)] v by (auto simp: signup_view_def)
  assume new: "\<not> email_exists v seen" "\<not> email_exists v (fst w)"
  obtain u d' where run: "signup_run E v pw (fst w) = (Inr u, d')" "joined_with E (fst w) u (account_mint E (Suc (t_mints (fst w)))) d'"
    "ur_email u = normalize_email v" "ur_password u = make_password E (Some pw)" "ur_active u"
    using signup_run_cases(2)[OF ok fields(3,2) new(2)] by blast
  have "account_mint E (Suc (t_mints (fst w))) \<notin> ac_id ` set (tenants (fst w))" by (rule tenancy_fresh(2)[OF ok]) simp
  moreover have "signup_view E A email pw seen now w =
      (Reply \<lparr>ba_user = \<lparr>au_id = ur_id u, au_email = ur_email u, au_account = account_mint E (Suc (t_mints (fst w)))\<rparr>,
              ba_cookie = token_urlsafe A (draws (snd w)), ba_max_age = ACCESS_TOKEN_EXPIRES_SECONDS A\<rparr>,
       (d', snd (mint_pair A (user_of d' u) now (snd w))))"
    using v new run(1) joined_account(1)[OF ok run(2)]
    by (simp add: signup_view_def browser_auth_response_def mint_pair_def auth_user_wire_def user_of_def reply_of_def Let_def)
  ultimately show "\<exists>u a d'. joined_with E (fst w) u a d' \<and> a \<notin> ac_id ` set (tenants (fst w))
      \<and> lower (ur_email u) = v \<and> ur_active u \<and> ur_password u = make_password E (Some pw)
      \<and> signup_view E A email pw seen now w =
          (Reply \<lparr>ba_user = \<lparr>au_id = ur_id u, au_email = ur_email u, au_account = a\<rparr>,
                  ba_cookie = token_urlsafe A (draws (snd w)), ba_max_age = ACCESS_TOKEN_EXPIRES_SECONDS A\<rparr>,
           (d', snd (mint_pair A (user_of d' u) now (snd w))))"
    using run(2-5) fields(3,4) lower_normalize[OF fields(3)] by metis
qed

lemma login_tenancy: "fst (snd (login_view E A email pw now w)) = fst w"
  by (auto simp: login_view_def Let_def split: sum.splits option.splits prod.splits)

text \<open>Only a superuser, whose operator names the account, ever joins an account that exists.\<close>

lemma step_joins:
  assumes ok: "tenancy_ok E (fst w)"
  shows "fst (tenancy_step E A op w) = fst w \<or> (\<exists>u a. joined_with E (fst w) u a (fst (tenancy_step E A op w))
    \<and> (a \<in> ac_id ` set (tenants (fst w)) \<longrightarrow> (\<exists>email pw. op = Add_Superuser email pw (Some a))))"
proof (cases op)
  case (Sign_Up email pw seen now)
  show ?thesis
  proof (cases "signup_fields E email pw")
    case (Inr v)
    with signup_exact[OF ok Inr, of seen A now] Sign_Up show ?thesis
      by (cases "email_exists v seen \<or> email_exists v (fst w)") auto
  qed (simp add: Sign_Up signup_view_def)
next
  case (Log_In email pw now)
  then show ?thesis by (simp add: login_tenancy)
next
  case (Add_Superuser email pw acct)
  with superuser_cases[OF ok, of email pw acct] show ?thesis
    by (cases "create_superuser E email pw acct (fst w)") auto
next
  case (Seed_Account raw pw)
  then show ?thesis
    using seed_old[OF ok, of raw pw] seed_new[OF ok, of raw pw] seed_blank[OF ok, of raw pw]
    by (cases "email_exists (lower (strip raw)) (fst w)"; cases "strip raw = []") auto
qed

lemma step_ok: "tenancy_ok E (fst w) \<Longrightarrow> tenancy_ok E (fst (tenancy_step E A op w))"
  using step_joins[of E w A op] joined_ok by metis

lemma history_ok: "tenancy_ok E (fst w) \<Longrightarrow> tenancy_ok E (fst (fold (tenancy_step E A) ops w))"
  by (induction ops arbitrary: w) (simp_all add: step_ok)

text \<open>A user stays, with the account; and nobody who is not let in by an operator shares it.\<close>

definition alone_in :: "ulid \<Rightarrow> user_row \<Rightarrow> tenancy \<Rightarrow> bool" where
  "alone_in a u d \<longleftrightarrow> u \<in> set (members d) \<and> a \<in> ac_id ` set (tenants d) \<and> primary_account_id_for (ur_id u) d = Some a
     \<and> (\<forall>i. i \<noteq> ur_id u \<longrightarrow> primary_account_id_for i d \<noteq> Some a)"

lemma alone_step:
  assumes ok: "tenancy_ok E (fst w)" and a: "alone_in a u (fst w)" and op: "\<forall>email pw. op \<noteq> Add_Superuser email pw (Some a)"
  shows "alone_in a u (fst (tenancy_step E A op w))"
proof (cases "fst (tenancy_step E A op w) = fst w")
  case False
  then obtain v b where j: "joined_with E (fst w) v b (fst (tenancy_step E A op w))"
    "b \<in> ac_id ` set (tenants (fst w)) \<longrightarrow> (\<exists>email pw. op = Add_Superuser email pw (Some b))"
    using step_joins[OF ok, of A op] by blast
  from j(2) op a have "b \<noteq> a" by (auto simp: alone_in_def)
  have "ur_id v = account_mint E (t_mints (fst w))" using j(1) by (auto simp: joined_with_def)
  with tenancy_fresh(1)[OF ok order_refl] a have "ur_id v \<noteq> ur_id u" by (auto simp: alone_in_def)
  have "u \<in> set (members (fst (tenancy_step E A op w)))" "a \<in> ac_id ` set (tenants (fst (tenancy_step E A op w)))"
    using a j(1) by (auto simp: joined_with_def alone_in_def)
  moreover have "primary_account_id_for i (fst (tenancy_step E A op w)) \<noteq> Some a" if "i \<noteq> ur_id u" for i
    using joined_account[OF ok j(1)] a that \<open>b \<noteq> a\<close> by (cases "i = ur_id v") (auto simp: alone_in_def)
  ultimately show ?thesis
    using joined_account(2)[OF ok j(1), of "ur_id u"] a \<open>ur_id v \<noteq> ur_id u\<close> by (simp add: alone_in_def)
qed (use a in simp)

lemma alone_history:
  assumes "tenancy_ok E (fst w)" "alone_in a u (fst w)" "\<forall>email pw. Add_Superuser email pw (Some a) \<notin> set ops"
  shows "alone_in a u (fst (fold (tenancy_step E A) ops w))"
  using assms
proof (induction ops arbitrary: w)
  case (Cons op ops)
  have "alone_in a u (fst (tenancy_step E A op w))" using Cons.prems by (intro alone_step) auto
  with Cons.IH[of "tenancy_step E A op w"] Cons.prems step_ok[OF Cons.prems(1)] show ?case by simp
qed simp

lemma joined_alone:
  assumes ok: "tenancy_ok E d" and j: "joined_with E d u a d'" and a: "a \<notin> ac_id ` set (tenants d)"
  shows "alone_in a u d'"
proof -
  have "primary_account_id_for i d \<noteq> Some a" for i
  proof
    assume "primary_account_id_for i d = Some a"
    then have "a \<in> pf_account ` set (profiles d)"
      by (auto simp: primary_account_id_for_def primary_for_user_def any_active_for_user_def split: option.splits dest!: first_in)
    with ok a show False by (auto simp: tenancy_ok_def)
  qed
  with joined_account[OF ok j] j show ?thesis by (auto simp: alone_in_def joined_with_def)
qed

text \<open>Whoever signed up gets in with the address, in any case, and the password.\<close>

lemma login_member:
  assumes ok: "tenancy_ok E (fst w)" and u: "u \<in> set (members (fst w))" "ur_active u" "lower (ur_email u) = lower (strip email)"
    and acct: "primary_account_id_for (ur_id u) (fst w) = Some a"
    and pw: "email_valid E (lower (strip email))" "strip email \<noteq> []" "pw \<noteq> []"
  shows "login_view E A email pw now w =
    (if check_password E pw (ur_password u)
     then (Reply \<lparr>ba_user = \<lparr>au_id = ur_id u, au_email = ur_email u, au_account = a\<rparr>,
                  ba_cookie = token_urlsafe A (draws (snd w)), ba_max_age = ACCESS_TOKEN_EXPIRES_SECONDS A\<rparr>,
           (fst w, snd (mint_pair A (user_of (fst w) u) now (snd w))))
     else (Refused 401 INVALID_CREDENTIALS, w))"
proof -
  have "login_fields E email pw = Inr (lower (strip email))"
    using pw by (simp add: login_fields_def email_field_def Let_def lower_def)
  moreover have "get_by_email (lower (strip email)) (fst w) = Inr u"
    using get_by_email_member[OF ok u(1)] u(3) by simp
  ultimately show ?thesis using u(2) acct
    by (simp add: login_view_def model_authenticate_def browser_auth_response_def mint_pair_def auth_user_wire_def user_of_def
        reply_of_def Let_def)
qed

end
