(* ===== verification/Row_Queue.thy ===== *)
theory Row_Queue
  imports Claim_Queue
begin

text \<open>
  A claimed queue that lives in one table. The client describes what a step does to each row: it is
  the row of the ticket that was claimed or settled, or it is calm. The locale looks the rows up by
  key and yields the interface of Claim\_Queue.
\<close>

definition row_by :: "('r \<Rightarrow> ulid) \<Rightarrow> ulid \<Rightarrow> 'r list \<Rightarrow> 'r option" where
  "row_by key i rows = first (filter (\<lambda>r. key r = i) rows)"

lemma row_by_in: "row_by key i rows = Some r \<Longrightarrow> r \<in> set rows \<and> key r = i"
  by (auto simp: row_by_def dest: first_in)

lemma row_by_None: "row_by key i rows = None \<longleftrightarrow> i \<notin> key ` set rows"
  by (auto simp: row_by_def filter_empty_conv)

lemma row_by_unique: "distinct (map key rows) \<Longrightarrow> r \<in> set rows \<Longrightarrow> row_by key (key r) rows = Some r"
  by (induction rows) (auto simp: row_by_def)

lemma same_key: "distinct (map key rows) \<Longrightarrow> a \<in> set rows \<Longrightarrow> b \<in> set rows \<Longrightarrow> key a = key b \<Longrightarrow> a = b"
  by (auto simp: distinct_map inj_on_def)

lemma row_by_map: "(\<And>r. r \<in> set rows \<Longrightarrow> key (g r) = key r) \<Longrightarrow> row_by key i (map g rows) = map_option g (row_by key i rows)"
  by (induction rows) (auto simp: row_by_def)

lemma row_by_append: "row_by key i (xs @ ys) = (case row_by key i xs of Some r \<Rightarrow> Some r | None \<Rightarrow> row_by key i ys)"
  by (auto simp: row_by_def first_def split: list.split)

text \<open>What a step of outcome \<open>out\<close> may make of a row.\<close>

fun row_moves :: "('r \<Rightarrow> ulid) \<Rightarrow> ('r \<Rightarrow> bool) \<Rightarrow> ('r \<Rightarrow> nat) \<Rightarrow> nat \<Rightarrow> outcome \<Rightarrow> 'r \<Rightarrow> 'r \<Rightarrow> bool" where
  "row_moves key act att cap out r r' \<longleftrightarrow>
     key r' = key r \<and>
     (if subject out \<noteq> Some (key r) then att r \<le> att r' \<and> (act r' \<longrightarrow> act r \<and> att r' = att r)
      else case out of
             Claimed i n \<Rightarrow> \<not> act r \<and> act r' \<and> att r < n \<and> att r' = n \<and> n \<le> cap
           | Settled i n \<Rightarrow> act r \<and> att r = n \<and> \<not> act r' \<and> n \<le> att r'
           | Quiet \<Rightarrow> False)"

declare row_moves.simps [simp del]

locale row_queue =
  fixes step :: "'e \<Rightarrow> 'd \<Rightarrow> outcome \<times> 'd" and inv :: "'d \<Rightarrow> bool" and rows :: "'d \<Rightarrow> 'r list"
    and key :: "'r \<Rightarrow> ulid" and act :: "'r \<Rightarrow> bool" and att :: "'r \<Rightarrow> nat" and cap :: nat
  assumes row_inv: "inv d \<Longrightarrow> inv (snd (step e d))"
    and row_step: "inv d \<Longrightarrow> step e d = (out, d') \<Longrightarrow> \<exists>g new. rows d' = map g (rows d) @ new
      \<and> (\<forall>r \<in> set (rows d). row_moves key act att cap out r (g r)) \<and> (\<forall>r \<in> set new. \<not> act r)
      \<and> (\<forall>i. subject out = Some i \<longrightarrow> i \<in> key ` set (rows d))"
begin

definition live_at :: "'d \<Rightarrow> ulid \<Rightarrow> bool" where
  "live_at d i \<longleftrightarrow> (case row_by key i (rows d) of None \<Rightarrow> False | Some r \<Rightarrow> act r)"

definition tries_at :: "'d \<Rightarrow> ulid \<Rightarrow> nat" where
  "tries_at d i = (case row_by key i (rows d) of None \<Rightarrow> 0 | Some r \<Rightarrow> att r)"

lemma lookup_step:
  assumes "inv d" "step e d = (out, d')"
  obtains r r' where "row_by key i (rows d) = Some r" "row_by key i (rows d') = Some r'"
      "row_moves key act att cap out r r'" "key r = i"
    | "row_by key i (rows d) = None" "\<not> live_at d' i" "subject out \<noteq> Some i"
proof -
  obtain g new where g: "rows d' = map g (rows d) @ new" "\<forall>r \<in> set (rows d). row_moves key act att cap out r (g r)"
    "\<forall>r \<in> set new. \<not> act r" "\<forall>i. subject out = Some i \<longrightarrow> i \<in> key ` set (rows d)"
    using row_step[OF assms] by blast
  have keyed: "row_by key i (map g (rows d)) = map_option g (row_by key i (rows d))"
    using g(2) by (intro row_by_map) (simp add: row_moves.simps)
  show thesis
  proof (cases "row_by key i (rows d)")
    case None
    have "\<not> live_at d' i" using g(3) by (auto simp: live_at_def g(1) row_by_append keyed None split: option.split dest!: row_by_in)
    moreover have "subject out \<noteq> Some i" using g(4) None by (auto simp: row_by_None)
    ultimately show thesis using that(2) None by blast
  next
    case (Some r)
    then show thesis using that(1)[of r "g r"] g(2) row_by_in[OF Some] by (simp add: g(1) row_by_append keyed)
  qed
qed

sublocale claim_queue step inv live_at tries_at cap
proof
  show "inv d \<Longrightarrow> inv (snd (step e d))" for d e by (rule row_inv)
next
  fix d e i n d' assume a: "inv d" "step e d = (Claimed i n, d')"
  show "\<not> live_at d i \<and> live_at d' i \<and> tries_at d i < n \<and> tries_at d' i = n \<and> n \<le> cap"
    by (rule lookup_step[OF a, of i]) (auto simp: live_at_def tries_at_def row_moves.simps)
next
  fix d e i n d' assume a: "inv d" "step e d = (Settled i n, d')"
  show "live_at d i \<and> tries_at d i = n \<and> \<not> live_at d' i \<and> n \<le> tries_at d' i"
    by (rule lookup_step[OF a, of i]) (auto simp: live_at_def tries_at_def row_moves.simps)
next
  fix d e out d' j assume a: "inv d" "step e d = (out, d')" "subject out \<noteq> Some j"
  show "tries_at d j \<le> tries_at d' j \<and> (live_at d' j \<longrightarrow> live_at d j \<and> tries_at d' j = tries_at d j)"
    by (rule lookup_step[OF a(1,2), of j]) (use a(3) in \<open>auto simp: live_at_def tries_at_def row_moves.simps\<close>)
qed

end

end
