(* ===== verification/Mailer.thy ===== *)
theory Mailer
  imports Row_Queue Polling
begin

text \<open>
  Transactional mail (mailer/services/mailer.py, common/email.py, the command
  send\_outbound\_emails) and its one caller, the public waitlist (waitlist/services/waitlist.py).
  Mail is a third claimed queue: the drain claims a row by a compare-and-set, renders and sends it
  outside any transaction, and settles it by a second compare-and-set.

  The render service and the SMTP backend are parameters, numbered by the messages attempted
  before. \<open>outbox\<close> is the record of what the backend accepted: the row and the attempt it was sent
  under. The audit columns are left out.
\<close>

subsection \<open>Rows\<close>

datatype email_state = MAIL_PENDING | MAIL_SENDING | MAIL_SENT | MAIL_FAILED

record outbound_email =
  m_id :: ulid
  m_to :: string
  m_template :: string
  m_subject :: string
  m_props :: blob
  m_key :: string
  m_state :: email_state
  m_attempts :: nat
  m_error :: string
  m_scheduled :: instant
  m_started :: "instant option"
  m_sent_at :: "instant option"

datatype source_interest = LINKEDIN | SLACK | SOURCE_X | BLUESKY | MASTODON | GITHUB | OTHER

record waitlist_signup =
  su_id :: ulid
  su_email :: string
  su_source :: string
  su_interests :: "source_interest list"
  su_other :: string

record mail_db =
  emails :: "outbound_email list"
  signups :: "waitlist_signup list"
  outbox :: "(ulid \<times> nat) list"
  minted :: nat
  tried :: nat

datatype mail_error = EmailRenderError | Mail_Error exn

record mail_env =
  EMAIL_SEND_MAX_ATTEMPTS :: nat
  EMAIL_SEND_STALE_SECONDS :: int
  EMAIL_SEND_RETRY_SECONDS :: int
  EMAIL_RENDER_URL :: string
  MARKETING_BASE_URL :: string
  mail_mint :: "nat \<Rightarrow> ulid"
  id_text :: "ulid \<Rightarrow> string"
  render_post :: "nat \<Rightarrow> string \<Rightarrow> string \<Rightarrow> blob \<Rightarrow> exn + json"
  backend_send :: "nat \<Rightarrow> string \<Rightarrow> string \<Rightarrow> json \<Rightarrow> json \<Rightarrow> exn option"
  error_text :: "mail_error \<Rightarrow> string"
  mail_clock :: "nat \<Rightarrow> instant"

text \<open>No id is minted twice, and two ids have two texts.\<close>

definition mail_laws :: "mail_env \<Rightarrow> bool" where
  "mail_laws M \<longleftrightarrow> inj (mail_mint M) \<and> inj (id_text M)"

subsection \<open>The queue\<close>

definition mail_enqueue :: "mail_env \<Rightarrow> string \<Rightarrow> string \<Rightarrow> string \<Rightarrow> blob \<Rightarrow> string \<Rightarrow> instant option \<Rightarrow> instant
    \<Rightarrow> mail_db \<Rightarrow> (outbound_email \<times> bool) \<times> mail_db" where
  "mail_enqueue M to template subj props key scheduled now d =
     (case first (filter (\<lambda>m. m_key m = key) (emails d)) of
        Some m \<Rightarrow> ((m, False), d)
      | None \<Rightarrow>
          (let m = \<lparr>m_id = mail_mint M (minted d), m_to = lower (strip to), m_template = template, m_subject = subj,
                    m_props = props, m_key = key, m_state = MAIL_PENDING, m_attempts = 0, m_error = [],
                    m_scheduled = (case scheduled of Some t \<Rightarrow> t | None \<Rightarrow> now), m_started = None, m_sent_at = None\<rparr>
           in ((m, True), d\<lparr>emails := emails d @ [m], minted := Suc (minted d)\<rparr>)))"

definition mail_due :: "mail_env \<Rightarrow> instant \<Rightarrow> outbound_email \<Rightarrow> bool" where
  "mail_due M ts m \<longleftrightarrow> m_state m = MAIL_PENDING \<and> m_scheduled m \<le> ts \<and> m_attempts m < EMAIL_SEND_MAX_ATTEMPTS M"

definition mail_iter_due :: "mail_env \<Rightarrow> instant \<Rightarrow> mail_db \<Rightarrow> outbound_email list" where
  "mail_iter_due M ts d = order_by m_scheduled (filter (mail_due M ts) (emails d))"

definition get_mail :: "ulid \<Rightarrow> mail_db \<Rightarrow> outbound_email option" where
  "get_mail i d = first (filter (\<lambda>m. m_id m = i) (emails d))"

definition claim_mail_row :: "instant \<Rightarrow> outbound_email \<Rightarrow> outbound_email" where
  "claim_mail_row ts m = m\<lparr>m_state := MAIL_SENDING, m_started := Some ts, m_attempts := Suc (m_attempts m)\<rparr>"

definition mail_claim_one :: "mail_env \<Rightarrow> instant \<Rightarrow> outbound_email \<Rightarrow> mail_db \<Rightarrow> outbound_email option \<times> mail_db" where
  "mail_claim_one M ts cand d =
     (let P = (\<lambda>m. m_id m = m_id cand \<and> m_state m = MAIL_PENDING \<and> m_attempts m < EMAIL_SEND_MAX_ATTEMPTS M);
          d' = d\<lparr>emails := update_where P (claim_mail_row ts) (emails d)\<rparr>
      in if count_where P (emails d) = 0 then (None, d') else (get_mail (m_id cand) d', d'))"

definition REAPED :: string where
  "REAPED = ''reaped after stale timeout (attempts exhausted)''"

text \<open>Two statements, disjoint on the attempts.\<close>

definition stale_mail :: "mail_env \<Rightarrow> instant \<Rightarrow> outbound_email \<Rightarrow> bool" where
  "stale_mail M ts m \<longleftrightarrow> m_state m = MAIL_SENDING
     \<and> (case m_started m of None \<Rightarrow> False | Some t \<Rightarrow> t < ts - seconds (EMAIL_SEND_STALE_SECONDS M))"

definition mail_reap_stale :: "mail_env \<Rightarrow> instant \<Rightarrow> mail_db \<Rightarrow> nat \<times> mail_db" where
  "mail_reap_stale M ts d =
     (let exhausted = (\<lambda>m. stale_mail M ts m \<and> EMAIL_SEND_MAX_ATTEMPTS M \<le> m_attempts m);
          d1 = d\<lparr>emails := update_where exhausted (\<lambda>m. m\<lparr>m_state := MAIL_FAILED, m_error := REAPED\<rparr>) (emails d)\<rparr>;
          retryable = (\<lambda>m. stale_mail M ts m \<and> m_attempts m < EMAIL_SEND_MAX_ATTEMPTS M);
          d2 = d1\<lparr>emails := update_where retryable (\<lambda>m. m\<lparr>m_state := MAIL_PENDING\<rparr>) (emails d1)\<rparr>
      in (count_where exhausted (emails d) + count_where retryable (emails d1), d2))"

definition mail_guard :: "outbound_email \<Rightarrow> outbound_email \<Rightarrow> bool" where
  "mail_guard claim m \<longleftrightarrow> m_id m = m_id claim \<and> m_state m = MAIL_SENDING \<and> m_attempts m = m_attempts claim"

definition complete_sent :: "outbound_email \<Rightarrow> instant \<Rightarrow> mail_db \<Rightarrow> bool \<times> mail_db" where
  "complete_sent claim ts d =
     (count_where (mail_guard claim) (emails d) \<noteq> 0,
      d\<lparr>emails := update_where (mail_guard claim) (\<lambda>m. m\<lparr>m_state := MAIL_SENT, m_sent_at := Some ts, m_error := []\<rparr>) (emails d)\<rparr>)"

definition mail_fail :: "mail_env \<Rightarrow> outbound_email \<Rightarrow> string \<Rightarrow> instant \<Rightarrow> mail_db \<Rightarrow> bool \<times> mail_db" where
  "mail_fail M claim err ts d =
     (let (new_state, scheduled) =
            (if EMAIL_SEND_MAX_ATTEMPTS M \<le> m_attempts claim then (MAIL_FAILED, m_scheduled claim)
             else (MAIL_PENDING, ts + seconds (EMAIL_SEND_RETRY_SECONDS M)))
      in (count_where (mail_guard claim) (emails d) \<noteq> 0,
          d\<lparr>emails := update_where (mail_guard claim)
                       (\<lambda>m. m\<lparr>m_state := new_state, m_error := err, m_scheduled := scheduled\<rparr>) (emails d)\<rparr>))"

subsection \<open>Rendering and sending\<close>

text \<open>
  A failed request, a body that is not JSON and a missing part are render errors; a body that is not
  an object has no \<open>get\<close> and raises past the handler.
\<close>

definition render_template :: "mail_env \<Rightarrow> nat \<Rightarrow> string \<Rightarrow> blob \<Rightarrow> mail_error + json \<times> json" where
  "render_template M n template props =
     (if EMAIL_RENDER_URL M = [] then Inl EmailRenderError
      else case render_post M n (EMAIL_RENDER_URL M @ ''/render'') template props of
             Inl e \<Rightarrow> Inl (if e \<in> {HTTPError, ValueError, JSONDecodeError, KeyError} then EmailRenderError else Mail_Error e)
           | Inr (JObj body) \<Rightarrow>
               (case map_of body ''success'' of
                  None \<Rightarrow> Inl EmailRenderError
                | Some ok \<Rightarrow>
                    if \<not> json_truthy ok then Inl EmailRenderError
                    else (case (map_of body ''html'', map_of body ''plainText'') of
                            (Some html, Some text) \<Rightarrow> Inr (html, text)
                          | _ \<Rightarrow> Inl EmailRenderError))
           | Inr _ \<Rightarrow> Inl (Mail_Error AttributeError))"

definition send_template :: "mail_env \<Rightarrow> nat \<Rightarrow> outbound_email \<Rightarrow> mail_error option" where
  "send_template M n m =
     (case render_template M n (m_template m) (m_props m) of
        Inl e \<Rightarrow> Some e
      | Inr (html, text) \<Rightarrow> map_option Mail_Error (backend_send M n (m_to m) (m_subject m) html text))"

subsection \<open>The drain\<close>

text \<open>
  One claimed row. A failure to send fails the row; once the message is out, no failure of the
  bookkeeping does.
\<close>

definition send_one :: "mail_env \<Rightarrow> outbound_email \<Rightarrow> mail_db \<Rightarrow> bool \<times> mail_db" where
  "send_one M m d =
     (let n = tried d; d1 = d\<lparr>tried := Suc n\<rparr>
      in case send_template M n m of
           Some e \<Rightarrow> (False, snd (mail_fail M m (error_text M e) (mail_clock M n) d1))
         | None \<Rightarrow> (True, snd (complete_sent m (mail_clock M n) (d1\<lparr>outbox := outbox d1 @ [(m_id m, m_attempts m)]\<rparr>))))"

fun send_due :: "mail_env \<Rightarrow> instant \<Rightarrow> nat option \<Rightarrow> nat \<Rightarrow> outbound_email list \<Rightarrow> nat \<times> nat \<Rightarrow> mail_db
    \<Rightarrow> (nat \<times> nat) \<times> mail_db" where
  "send_due M now lmt claimed [] acc d = (acc, d)"
| "send_due M now lmt claimed (c # cs) (sent, failed) d =
     (if (case lmt of Some k \<Rightarrow> k \<le> claimed | None \<Rightarrow> False) then ((sent, failed), d)
      else case mail_claim_one M now c d of
             (None, d1) \<Rightarrow> send_due M now lmt claimed cs (sent, failed) d1
           | (Some m, d1) \<Rightarrow>
               (let (ok, d2) = send_one M m d1
                in send_due M now lmt (Suc claimed) cs (if ok then (Suc sent, failed) else (sent, Suc failed)) d2))"

definition send_outbound_emails :: "mail_env \<Rightarrow> nat option \<Rightarrow> bool \<Rightarrow> instant \<Rightarrow> mail_db \<Rightarrow> (nat \<times> nat) \<times> mail_db" where
  "send_outbound_emails M lmt dry_run now d =
     (if dry_run then ((length (case lmt of Some k \<Rightarrow> take k (mail_iter_due M now d) | None \<Rightarrow> mail_iter_due M now d), 0), d)
      else let (reaped, d1) = mail_reap_stale M now d
           in send_due M now lmt 0 (mail_iter_due M now d1) (0, 0) d1)"

subsection \<open>The waitlist\<close>

fun source_order :: "source_interest \<Rightarrow> nat" where
  "source_order LINKEDIN = 0" | "source_order SLACK = 1" | "source_order SOURCE_X = 2" | "source_order BLUESKY = 3"
| "source_order MASTODON = 4" | "source_order GITHUB = 5" | "source_order OTHER = 6"

definition canonical :: "source_interest list \<Rightarrow> source_interest list" where
  "canonical votes = sort_key source_order (remdups votes)"

definition WELCOME_KEY :: string where
  "WELCOME_KEY = ''waitlist-welcome:''"

definition marketing_url :: "mail_env \<Rightarrow> string" where
  "marketing_url M = rev (dropWhile (\<lambda>c. c = CHR ''/'') (rev (MARKETING_BASE_URL M)))"

definition waitlist_welcome :: "mail_env \<Rightarrow> waitlist_signup \<Rightarrow> instant \<Rightarrow> mail_db \<Rightarrow> mail_db" where
  "waitlist_welcome M s now d =
     snd (mail_enqueue M (su_email s) ''waitlistWelcome'' ''You're on the OpenMagpie waitlist''
            [(''siteUrl'', JStr (marketing_url M))] (WELCOME_KEY @ id_text M (su_id s)) None now d)"

definition waitlist_join :: "mail_env \<Rightarrow> string \<Rightarrow> string \<Rightarrow> source_interest list \<Rightarrow> string \<Rightarrow> instant \<Rightarrow> mail_db
    \<Rightarrow> (waitlist_signup \<times> bool) \<times> mail_db" where
  "waitlist_join M email src interests free now d =
     (let normalized = lower (strip email);
          votes = canonical interests;
          other = (if OTHER \<in> set votes then free else [])
      in case first (filter (\<lambda>s. su_email s = normalized) (signups d)) of
           None \<Rightarrow>
             (let s = \<lparr>su_id = mail_mint M (minted d), su_email = normalized, su_source = src,
                       su_interests = votes, su_other = other\<rparr>
              in ((s, True), waitlist_welcome M s now (d\<lparr>signups := signups d @ [s], minted := Suc (minted d)\<rparr>)))
         | Some s \<Rightarrow>
             if votes \<noteq> [] \<and> (su_interests s \<noteq> votes \<or> su_other s \<noteq> other)
             then ((s\<lparr>su_interests := votes, su_other := other\<rparr>, False),
                   d\<lparr>signups := update_where (\<lambda>x. su_id x = su_id s)
                                 (\<lambda>x. x\<lparr>su_interests := votes, su_other := other\<rparr>) (signups d)\<rparr>)
             else ((s, False), d))"

subsection \<open>The queue under any interleaving\<close>

datatype mail_event =
    Mail_Claim instant outbound_email
  | Mail_Complete outbound_email instant
  | Mail_Fail outbound_email string instant
  | Mail_Reap instant
  | Mail_Enqueue string string string blob string "instant option" instant

fun mail_step :: "mail_env \<Rightarrow> mail_event \<Rightarrow> mail_db \<Rightarrow> outcome \<times> mail_db" where
  "mail_step M (Mail_Claim ts c) d =
     (case mail_claim_one M ts c d of
        (None, d') \<Rightarrow> (Quiet, d') | (Some m, d') \<Rightarrow> (Claimed (m_id m) (m_attempts m), d'))"
| "mail_step M (Mail_Complete m ts) d =
     (case complete_sent m ts d of (won, d') \<Rightarrow> (if won then Settled (m_id m) (m_attempts m) else Quiet, d'))"
| "mail_step M (Mail_Fail m err ts) d =
     (case mail_fail M m err ts d of (won, d') \<Rightarrow> (if won then Settled (m_id m) (m_attempts m) else Quiet, d'))"
| "mail_step M (Mail_Reap ts) d = (Quiet, snd (mail_reap_stale M ts d))"
| "mail_step M (Mail_Enqueue to template subj props key scheduled now) d =
     (Quiet, snd (mail_enqueue M to template subj props key scheduled now d))"

definition mail_table :: "mail_env \<Rightarrow> mail_db \<Rightarrow> bool" where
  "mail_table M d \<longleftrightarrow> mail_laws M \<and> distinct (map m_id (emails d))
     \<and> (\<forall>m \<in> set (emails d). m_id m \<in> mail_mint M ` {..<minted d} \<and> m_attempts m \<le> EMAIL_SEND_MAX_ATTEMPTS M)"

lemma mail_table_update:
  assumes "mail_table M d" "\<And>m. m_id (f m) = m_id m"
    and "\<And>m. m \<in> set (emails d) \<Longrightarrow> P m \<Longrightarrow> m_attempts (f m) \<le> EMAIL_SEND_MAX_ATTEMPTS M"
  shows "mail_table M (d\<lparr>emails := update_where P f (emails d)\<rparr>)"
  using assms by (auto simp: mail_table_def in_update_where map_key_update_where)

lemma claim_mail_row_simps [simp]: "m_id (claim_mail_row ts m) = m_id m" "m_state (claim_mail_row ts m) = MAIL_SENDING"
  "m_attempts (claim_mail_row ts m) = Suc (m_attempts m)"
  by (simp_all add: claim_mail_row_def)

text \<open>The two statements of the reaper are one pass over the rows.\<close>

definition reap_mail :: "mail_env \<Rightarrow> outbound_email \<Rightarrow> outbound_email" where
  "reap_mail M m = (if EMAIL_SEND_MAX_ATTEMPTS M \<le> m_attempts m then m\<lparr>m_state := MAIL_FAILED, m_error := REAPED\<rparr>
     else m\<lparr>m_state := MAIL_PENDING\<rparr>)"

lemma reap_mail_simps [simp]: "m_id (reap_mail M m) = m_id m" "m_attempts (reap_mail M m) = m_attempts m"
  "m_state (reap_mail M m) \<noteq> MAIL_SENDING"
  by (simp_all add: reap_mail_def)

lemma mail_reap_eq: "snd (mail_reap_stale M ts d) =
    d\<lparr>emails := update_where (stale_mail M ts) (reap_mail M) (emails d)\<rparr>"
proof -
  have "update_where (\<lambda>m. stale_mail M ts m \<and> m_attempts m < EMAIL_SEND_MAX_ATTEMPTS M) (\<lambda>m. m\<lparr>m_state := MAIL_PENDING\<rparr>)
      (update_where (\<lambda>m. stale_mail M ts m \<and> EMAIL_SEND_MAX_ATTEMPTS M \<le> m_attempts m)
        (\<lambda>m. m\<lparr>m_state := MAIL_FAILED, m_error := REAPED\<rparr>) rows) = update_where (stale_mail M ts) (reap_mail M) rows" for rows
    by (induction rows) (auto simp: stale_mail_def reap_mail_def)
  then show ?thesis by (simp add: mail_reap_stale_def Let_def)
qed

lemma mail_claim_table:
  assumes "mail_table M d" shows "mail_table M (snd (mail_claim_one M ts c d))"
proof -
  have "snd (mail_claim_one M ts c d) = d\<lparr>emails := update_where (\<lambda>m. m_id m = m_id c \<and> m_state m = MAIL_PENDING
      \<and> m_attempts m < EMAIL_SEND_MAX_ATTEMPTS M) (claim_mail_row ts) (emails d)\<rparr>"
    by (simp add: mail_claim_one_def Let_def)
  then show ?thesis using assms by (auto intro!: mail_table_update)
qed

lemma mail_enqueue_table:
  assumes "mail_table M d" shows "mail_table M (snd (mail_enqueue M to template subj props key scheduled now d))"
proof -
  have "mail_mint M (minted d) \<notin> m_id ` set (emails d)"
    using assms by (auto simp: mail_table_def mail_laws_def inj_eq image_iff)
  then show ?thesis
    using assms by (auto simp: mail_table_def mail_enqueue_def Let_def lessThan_Suc image_iff split: option.split)
qed

lemma mail_table_cap: "mail_table M d \<Longrightarrow> m \<in> set (emails d) \<Longrightarrow> m_attempts m \<le> EMAIL_SEND_MAX_ATTEMPTS M"
  by (simp add: mail_table_def)

definition sent_row :: "instant \<Rightarrow> outbound_email \<Rightarrow> outbound_email" where
  "sent_row ts m = m\<lparr>m_state := MAIL_SENT, m_sent_at := Some ts, m_error := []\<rparr>"

definition failed_row :: "mail_env \<Rightarrow> outbound_email \<Rightarrow> string \<Rightarrow> instant \<Rightarrow> outbound_email \<Rightarrow> outbound_email" where
  "failed_row M claim err ts m =
     (if EMAIL_SEND_MAX_ATTEMPTS M \<le> m_attempts claim
      then m\<lparr>m_state := MAIL_FAILED, m_error := err, m_scheduled := m_scheduled claim\<rparr>
      else m\<lparr>m_state := MAIL_PENDING, m_error := err, m_scheduled := ts + seconds (EMAIL_SEND_RETRY_SECONDS M)\<rparr>)"

lemma settled_row_simps [simp]:
  "m_id (sent_row ts m) = m_id m" "m_attempts (sent_row ts m) = m_attempts m" "m_state (sent_row ts m) = MAIL_SENT"
  "m_id (failed_row M c err ts m) = m_id m" "m_attempts (failed_row M c err ts m) = m_attempts m"
  "m_state (failed_row M c err ts m) \<noteq> MAIL_SENDING"
  by (simp_all add: sent_row_def failed_row_def)

lemma complete_sent_eq: "complete_sent c ts d = (count_where (mail_guard c) (emails d) \<noteq> 0,
    d\<lparr>emails := update_where (mail_guard c) (sent_row ts) (emails d)\<rparr>)"
  by (simp add: complete_sent_def sent_row_def[abs_def])

lemma mail_fail_eq: "mail_fail M c err ts d = (count_where (mail_guard c) (emails d) \<noteq> 0,
    d\<lparr>emails := update_where (mail_guard c) (failed_row M c err ts) (emails d)\<rparr>)"
  by (simp add: mail_fail_def failed_row_def[abs_def])

lemma mail_step_table: "mail_table M d \<Longrightarrow> mail_table M (snd (mail_step M e d))"
proof (cases e)
  case (Mail_Claim ts c)
  assume "mail_table M d"
  from mail_claim_table[OF this, of ts c] Mail_Claim show ?thesis by (auto split: prod.split option.split)
qed (auto simp: complete_sent_eq mail_fail_eq mail_reap_eq intro!: mail_table_update mail_enqueue_table dest: mail_table_cap)

text \<open>A settlement, won or lost, and the claim, seen row by row.\<close>

lemma row_moves_settle:
  assumes "\<And>m. m_id (f m) = m_id m \<and> m_attempts (f m) = m_attempts m \<and> m_state (f m) \<noteq> MAIL_SENDING"
    and "out = (if count_where (mail_guard c) rows \<noteq> 0 then Settled (m_id c) (m_attempts c) else Quiet)"
    and "distinct (map m_id rows)" "m \<in> set rows"
  shows "row_moves m_id (\<lambda>m. m_state m = MAIL_SENDING) m_attempts cap out m (if mail_guard c m then f m else m)"
proof (cases "mail_guard c m")
  case True
  then have "count_where (mail_guard c) rows \<noteq> 0" using assms(4) by (auto simp: count_where_0)
  then show ?thesis using True assms(1,2) by (simp add: row_moves.simps mail_guard_def)
next
  case False
  show ?thesis
  proof (cases "count_where (mail_guard c) rows = 0 \<or> m_id m \<noteq> m_id c")
    case True
    then show ?thesis using False assms(2) by (auto simp: row_moves.simps)
  next
    case same: False
    then obtain r where "r \<in> set rows" "mail_guard c r" by (auto simp: count_where_0)
    then have "r = m" using same assms(4) by (intro same_key[OF assms(3)]) (auto simp: mail_guard_def)
    with False \<open>mail_guard c r\<close> show ?thesis by simp
  qed
qed

lemma settled_id:
  assumes "out = (if count_where (mail_guard c) rows \<noteq> 0 then Settled (m_id c) (m_attempts c) else Quiet)"
  shows "\<forall>i. subject out = Some i \<longrightarrow> i \<in> m_id ` set rows"
proof (cases "count_where (mail_guard c) rows = 0")
  case False
  then obtain m where "m \<in> set rows" "mail_guard c m" by (auto simp: count_where_0)
  with assms False show ?thesis by (auto simp: mail_guard_def intro: rev_image_eqI)
qed (use assms in simp)

lemma get_mail_row: "get_mail i d = row_by m_id i (emails d)"
  by (simp add: get_mail_def row_by_def)

lemma mail_claim_eq:
  assumes "mail_table M d"
  shows "mail_claim_one M ts c d =
    (case row_by m_id (m_id c) (emails d) of
       Some q \<Rightarrow> if m_state q = MAIL_PENDING \<and> m_attempts q < EMAIL_SEND_MAX_ATTEMPTS M
                 then (Some (claim_mail_row ts q),
                       d\<lparr>emails := update_where (\<lambda>m. m_id m = m_id c) (claim_mail_row ts) (emails d)\<rparr>)
                 else (None, d)
     | None \<Rightarrow> (None, d))"
proof -
  let ?P = "\<lambda>m. m_id m = m_id c \<and> m_state m = MAIL_PENDING \<and> m_attempts m < EMAIL_SEND_MAX_ATTEMPTS M"
  have uniq: "q = m" if "row_by m_id (m_id c) (emails d) = Some q" "m \<in> set (emails d)" "m_id m = m_id c" for q m
    using that row_by_in[OF that(1)] assms by (intro same_key[of m_id "emails d"]) (auto simp: mail_table_def)
  show ?thesis
  proof (cases "row_by m_id (m_id c) (emails d)")
    case None
    then have "\<not> ?P m" if "m \<in> set (emails d)" for m using that by (auto simp: row_by_None image_iff)
    then have "count_where ?P (emails d) = 0" "update_where ?P (claim_mail_row ts) (emails d) = emails d"
      by (auto simp: count_where_0 update_where_never)
    then show ?thesis by (simp add: mail_claim_one_def Let_def None)
  next
    case (Some q)
    note q = row_by_in[OF Some]
    show ?thesis
    proof (cases "?P q")
      case True
      have same: "?P m = (m_id m = m_id c)" if "m \<in> set (emails d)" for m using uniq[OF Some that] True by auto
      have "count_where ?P (emails d) \<noteq> 0" using True q by (auto simp: count_where_0)
      moreover have upd: "update_where ?P (claim_mail_row ts) (emails d) = update_where (\<lambda>m. m_id m = m_id c) (claim_mail_row ts) (emails d)"
        unfolding update_where_def using same by (intro map_cong) auto
      moreover have "row_by m_id (m_id c) (update_where (\<lambda>m. m_id m = m_id c) (claim_mail_row ts) (emails d)) = Some (claim_mail_row ts q)"
        unfolding update_where_def using q Some by (subst row_by_map) auto
      ultimately show ?thesis using True q by (simp add: mail_claim_one_def Let_def Some get_mail_row)
    next
      case False
      then have "\<not> ?P m" if "m \<in> set (emails d)" for m using uniq[OF Some that] that by blast
      then have "count_where ?P (emails d) = 0" "update_where ?P (claim_mail_row ts) (emails d) = emails d"
        by (auto simp: count_where_0 update_where_never)
      then show ?thesis using False q by (auto simp: mail_claim_one_def Let_def Some)
    qed
  qed
qed

lemma mail_step_rows:
  assumes tab: "mail_table M d" and s: "mail_step M e d = (out, d')"
  shows "\<exists>g new. emails d' = map g (emails d) @ new
    \<and> (\<forall>m \<in> set (emails d). row_moves m_id (\<lambda>m. m_state m = MAIL_SENDING) m_attempts (EMAIL_SEND_MAX_ATTEMPTS M) out m (g m))
    \<and> (\<forall>m \<in> set new. m_state m \<noteq> MAIL_SENDING) \<and> (\<forall>i. subject out = Some i \<longrightarrow> i \<in> m_id ` set (emails d))"
    (is "\<exists>g new. ?Q g new")
proof -
  have dist: "distinct (map m_id (emails d))" using tab by (simp add: mail_table_def)
  have calm: "?Q (\<lambda>m. m) []" if "d' = d" "out = Quiet" using that by (simp add: row_moves.simps)
  show ?thesis
  proof (cases e)
    case (Mail_Claim ts c)
    show ?thesis
    proof (cases "mail_claim_one M ts c d")
      case (Pair got d1)
      show ?thesis
      proof (cases got)
        case None
        then have "d' = d" "out = Quiet"
          using Pair s Mail_Claim by (auto simp: mail_claim_eq[OF tab] split: option.splits if_splits)
        from calm[OF this] show ?thesis by blast
      next
        case (Some m)
        with Pair obtain q where q: "row_by m_id (m_id c) (emails d) = Some q" "m_state q = MAIL_PENDING"
          "m_attempts q < EMAIL_SEND_MAX_ATTEMPTS M" "m = claim_mail_row ts q"
          "d1 = d\<lparr>emails := update_where (\<lambda>m. m_id m = m_id c) (claim_mail_row ts) (emails d)\<rparr>"
          by (auto simp: mail_claim_eq[OF tab] split: option.splits if_splits)
        note qin = row_by_in[OF q(1)]
        have only: "m = q" if "m \<in> set (emails d)" "m_id m = m_id c" for m
          using that qin by (intro same_key[OF dist]) auto
        have eqs: "emails d' = map (\<lambda>m. if m_id m = m_id c then claim_mail_row ts m else m) (emails d)"
          "out = Claimed (m_id c) (Suc (m_attempts q))"
          using s Mail_Claim Pair Some q(4,5) qin by (auto simp: update_where_def)
        have "row_moves m_id (\<lambda>m. m_state m = MAIL_SENDING) m_attempts (EMAIL_SEND_MAX_ATTEMPTS M) out m
            (if m_id m = m_id c then claim_mail_row ts m else m)" if "m \<in> set (emails d)" for m
          using only[OF that] q(2,3) by (cases "m_id m = m_id c") (auto simp: row_moves.simps eqs(2))
        then have "?Q (\<lambda>m. if m_id m = m_id c then claim_mail_row ts m else m) []"
          using eqs qin by (simp add: image_iff) metis
        then show ?thesis by blast
      qed
    qed
  next
    case (Mail_Complete c ts)
    have eqs: "emails d' = map (\<lambda>m. if mail_guard c m then sent_row ts m else m) (emails d)"
      "out = (if count_where (mail_guard c) (emails d) \<noteq> 0 then Settled (m_id c) (m_attempts c) else Quiet)"
      using s Mail_Complete by (auto simp: complete_sent_eq update_where_def)
    have "\<forall>m \<in> set (emails d). row_moves m_id (\<lambda>m. m_state m = MAIL_SENDING) m_attempts (EMAIL_SEND_MAX_ATTEMPTS M) out m
        (if mail_guard c m then sent_row ts m else m)"
      using row_moves_settle[of "sent_row ts", OF _ eqs(2) dist] by simp
    then have "?Q (\<lambda>m. if mail_guard c m then sent_row ts m else m) []"
      using eqs(1) settled_id[OF eqs(2)] by simp
    then show ?thesis by blast
  next
    case (Mail_Fail c err ts)
    have eqs: "emails d' = map (\<lambda>m. if mail_guard c m then failed_row M c err ts m else m) (emails d)"
      "out = (if count_where (mail_guard c) (emails d) \<noteq> 0 then Settled (m_id c) (m_attempts c) else Quiet)"
      using s Mail_Fail by (auto simp: mail_fail_eq update_where_def)
    have "\<forall>m \<in> set (emails d). row_moves m_id (\<lambda>m. m_state m = MAIL_SENDING) m_attempts (EMAIL_SEND_MAX_ATTEMPTS M) out m
        (if mail_guard c m then failed_row M c err ts m else m)"
      using row_moves_settle[of "failed_row M c err ts", OF _ eqs(2) dist] by simp
    then have "?Q (\<lambda>m. if mail_guard c m then failed_row M c err ts m else m) []"
      using eqs(1) settled_id[OF eqs(2)] by simp
    then show ?thesis by blast
  next
    case (Mail_Reap ts)
    with s have "?Q (\<lambda>m. if stale_mail M ts m then reap_mail M m else m) []"
      by (auto simp: mail_reap_eq update_where_def row_moves.simps)
    then show ?thesis by blast
  next
    case (Mail_Enqueue to template subj props key scheduled now)
    show ?thesis
    proof (cases "filter (\<lambda>m. m_key m = key) (emails d)")
      case (Cons m ms)
      then have "d' = d" "out = Quiet" using s Mail_Enqueue by (auto simp: mail_enqueue_def)
      from calm[OF this] show ?thesis by blast
    next
      case Nil
      then obtain new where "emails d' = emails d @ [new]" "m_state new = MAIL_PENDING" "out = Quiet"
        using s Mail_Enqueue by (auto simp: mail_enqueue_def Let_def)
      then have "?Q (\<lambda>m. m) [new]" by (simp add: row_moves.simps)
      then show ?thesis by blast
    qed
  qed
qed

interpretation mq: row_queue "mail_step M" "mail_table M" emails m_id "\<lambda>m. m_state m = MAIL_SENDING" m_attempts
    "EMAIL_SEND_MAX_ATTEMPTS M" for M
  by unfold_locales (rule mail_step_table mail_step_rows; assumption)+

subsection \<open>One pass\<close>

text \<open>What the send with number \<open>n\<close> makes of a claimed row.\<close>

definition settle_mail :: "mail_env \<Rightarrow> nat \<Rightarrow> outbound_email \<Rightarrow> outbound_email" where
  "settle_mail M n m = (case send_template M n m of
     None \<Rightarrow> sent_row (mail_clock M n) m | Some e \<Rightarrow> failed_row M m (error_text M e) (mail_clock M n) m)"

lemma settle_mail_simps [simp]: "m_id (settle_mail M n m) = m_id m" "m_attempts (settle_mail M n m) = m_attempts m"
  "m_state (settle_mail M n m) \<noteq> MAIL_SENDING"
  by (auto simp: settle_mail_def split: option.split)

lemma drain_one:
  assumes tab: "mail_table M d" and c: "c \<in> set (emails d)" "mail_due M ts c"
  obtains m d1 ok d2 where "mail_claim_one M ts c d = (Some m, d1)" "m = claim_mail_row ts c" "send_one M m d1 = (ok, d2)"
    "ok \<longleftrightarrow> send_template M (tried d) m = None"
    "emails d2 = map (\<lambda>x. if m_id x = m_id c then settle_mail M (tried d) (claim_mail_row ts x) else x) (emails d)"
    "outbox d2 = outbox d @ (if ok then [(m_id c, Suc (m_attempts c))] else [])" "tried d2 = Suc (tried d)" "minted d2 = minted d"
    "signups d2 = signups d"
proof -
  let ?m = "claim_mail_row ts c" and ?d1 = "d\<lparr>emails := update_where (\<lambda>x. m_id x = m_id c) (claim_mail_row ts) (emails d)\<rparr>"
  have dist: "distinct (map m_id (emails d))" using tab by (simp add: mail_table_def)
  have claim: "mail_claim_one M ts c d = (Some ?m, ?d1)"
    using c row_by_unique[OF dist c(1)] by (simp add: mail_claim_eq[OF tab] mail_due_def)
  have only: "x = c" if "x \<in> set (emails d)" "m_id x = m_id c" for x
    using that c(1) by (intro same_key[OF dist])
  have guard: "update_where (mail_guard ?m) f (update_where (\<lambda>x. m_id x = m_id c) (claim_mail_row ts) (emails d)) =
      map (\<lambda>x. if m_id x = m_id c then f (claim_mail_row ts x) else x) (emails d)" for f
    unfolding update_where_def map_map using only by (intro map_cong) (auto simp: mail_guard_def)
  obtain ok d2 where sent: "send_one M ?m ?d1 = (ok, d2)" by fastforce
  have out: "ok = (send_template M (tried d) ?m = None)" "tried d2 = Suc (tried d)" "minted d2 = minted d" "signups d2 = signups d"
    "outbox d2 = outbox d @ (if ok then [(m_id c, Suc (m_attempts c))] else [])"
    using sent by (auto simp: send_one_def complete_sent_eq mail_fail_eq Let_def split: option.splits)
  have "emails d2 = map (\<lambda>x. if m_id x = m_id c then settle_mail M (tried d) ?m else x) (emails d)"
  proof (cases "send_template M (tried d) ?m")
    case None
    with sent guard[of "sent_row (mail_clock M (tried d))"] show ?thesis
      by (auto simp: send_one_def complete_sent_eq settle_mail_def Let_def dest: only)
  next
    case (Some e)
    with sent guard[of "failed_row M ?m (error_text M e) (mail_clock M (tried d))"] show ?thesis
      by (auto simp: send_one_def mail_fail_eq settle_mail_def Let_def dest: only)
  qed
  also have "\<dots> = map (\<lambda>x. if m_id x = m_id c then settle_mail M (tried d) (claim_mail_row ts x) else x) (emails d)"
    by (intro map_cong refl) (auto dest: only)
  finally show thesis by (rule that[OF claim refl sent out(1) _ out(5,2,3,4)])
qed

text \<open>The rows after a pass over the candidates: each is claimed once and settled.\<close>

fun settled_by :: "mail_env \<Rightarrow> instant \<Rightarrow> nat \<Rightarrow> outbound_email list \<Rightarrow> outbound_email \<Rightarrow> outbound_email" where
  "settled_by M ts n [] x = x"
| "settled_by M ts n (c # cs) x =
     (if m_id x = m_id c then settle_mail M n (claim_mail_row ts x) else settled_by M ts (Suc n) cs x)"

lemma settled_by_other: "m_id x \<notin> m_id ` set cs \<Longrightarrow> settled_by M ts n cs x = x"
  by (induction cs arbitrary: n) auto

lemma send_due_rows:
  assumes "mail_table M d" "distinct (map m_id cs)" "\<forall>c \<in> set cs. c \<in> set (emails d) \<and> mail_due M ts c"
    and "send_due M ts None k cs acc d = (acc', d')"
  shows "emails d' = map (settled_by M ts (tried d) cs) (emails d) \<and> mail_table M d' \<and> signups d' = signups d
    \<and> minted d' = minted d"
  using assms
proof (induction cs arbitrary: k acc d)
  case (Cons c cs)
  have c: "c \<in> set (emails d)" "mail_due M ts c" using Cons.prems(3) by auto
  obtain m d1 ok d2 where s: "mail_claim_one M ts c d = (Some m, d1)" "send_one M m d1 = (ok, d2)"
    "emails d2 = map (\<lambda>x. if m_id x = m_id c then settle_mail M (tried d) (claim_mail_row ts x) else x) (emails d)"
    "tried d2 = Suc (tried d)" "minted d2 = minted d" "signups d2 = signups d"
    by (rule drain_one[OF Cons.prems(1) c])
  have only: "x = c" if "x \<in> set (emails d)" "m_id x = m_id c" for x
    using that c(1) Cons.prems(1) by (intro same_key[of m_id "emails d"]) (auto simp: mail_table_def)
  have "mail_table M (d\<lparr>emails := update_where (\<lambda>x. m_id x = m_id c) (\<lambda>x. settle_mail M (tried d) (claim_mail_row ts x)) (emails d)\<rparr>)"
    using c(2) by (intro mail_table_update[OF Cons.prems(1)]) (auto simp: mail_due_def dest!: only)
  then have tab: "mail_table M d2" by (simp add: mail_table_def s(3,5) update_where_def)
  have rest: "\<forall>x \<in> set cs. x \<in> set (emails d2) \<and> mail_due M ts x"
  proof
    fix x assume x: "x \<in> set cs"
    then have "m_id x \<noteq> m_id c" "x \<in> set (emails d)" "mail_due M ts x" using Cons.prems(2,3) by (auto simp: image_iff)
    then show "x \<in> set (emails d2) \<and> mail_due M ts x" unfolding s(3) by (auto intro: rev_image_eqI[of x])
  qed
  obtain acc2 where run: "send_due M ts None (Suc k) cs acc2 d2 = (acc', d')"
    using Cons.prems(4) s(1,2) by (cases acc) (auto simp: Let_def)
  have "distinct (map m_id cs)" using Cons.prems(2) by simp
  from Cons.IH[OF tab this rest run] have ih: "emails d' = map (settled_by M ts (Suc (tried d)) cs) (emails d2)"
    "mail_table M d'" "signups d' = signups d" "minted d' = minted d" by (simp_all add: s(4,5,6))
  have "settled_by M ts n cs (settle_mail M k (claim_mail_row ts x)) = settle_mail M k (claim_mail_row ts x)"
    if "m_id x = m_id c" for n k x
    using Cons.prems(2) that by (intro settled_by_other) simp
  with ih s(3) show ?case by auto
qed (simp add: map_idI)

definition reaped :: "mail_env \<Rightarrow> instant \<Rightarrow> outbound_email \<Rightarrow> outbound_email" where
  "reaped M ts m = (if stale_mail M ts m then reap_mail M m else m)"

lemma settled_by_due:
  "distinct (map m_id cs) \<Longrightarrow> x \<in> set cs \<Longrightarrow> \<exists>k. settled_by M ts n cs x = settle_mail M k (claim_mail_row ts x)"
proof (induction cs arbitrary: n)
  case (Cons c cs)
  show ?case
  proof (cases "m_id x = m_id c")
    case False
    with Cons.prems have "x \<in> set cs" by auto
    with Cons False show ?thesis by auto
  qed auto
qed simp

text \<open>
  A pass is exact: every row that is due, after the reaper, is claimed once and settled by what its
  send answers; no other row changes.
\<close>

theorem mail_pass_rows:
  assumes "mail_table M d" "send_outbound_emails M None False now d = (acc, d')"
  shows "\<exists>f. emails d' = map f (emails d) \<and> (\<forall>m \<in> set (emails d).
      if mail_due M now (reaped M now m)
      then \<exists>n. f m = settle_mail M n (claim_mail_row now (reaped M now m))
      else f m = reaped M now m)" (is "\<exists>f. _ \<and> ?exact f")
    and "mail_table M d'" "signups d' = signups d" "minted d' = minted d"
proof -
  define d1 where "d1 = d\<lparr>emails := map (reaped M now) (emails d)\<rparr>"
  have d1: "snd (mail_reap_stale M now d) = d1"
    by (simp add: mail_reap_eq d1_def update_where_def reaped_def[abs_def])
  let ?cs = "mail_iter_due M now d1"
  have tab: "mail_table M d1" using mail_step_table[OF assms(1), of "Mail_Reap now"] by (simp add: d1)
  then have dist: "distinct (map m_id (emails d1))" by (simp add: mail_table_def)
  have cs: "distinct (map m_id ?cs)" "set ?cs = {m \<in> set (emails d1). mail_due M now m}"
    using dist by (auto simp: mail_iter_due_def distinct_order_by distinct_map_filter)
  have run: "send_due M now None 0 ?cs (0, 0) d1 = (acc, d')"
    using assms(2) d1 by (simp add: send_outbound_emails_def case_prod_unfold Let_def)
  have out: "emails d' = map (settled_by M now (tried d1) ?cs) (emails d1)" "mail_table M d'"
    "signups d' = signups d1" "minted d' = minted d1"
    using send_due_rows[OF tab cs(1) _ run] cs(2) by auto
  have "?exact (settled_by M now (tried d1) ?cs \<circ> reaped M now)"
  proof
    fix m assume m: "m \<in> set (emails d)"
    then have row: "reaped M now m \<in> set (emails d1)" by (simp add: d1_def)
    show "if mail_due M now (reaped M now m)
      then \<exists>n. (settled_by M now (tried d1) ?cs \<circ> reaped M now) m = settle_mail M n (claim_mail_row now (reaped M now m))
      else (settled_by M now (tried d1) ?cs \<circ> reaped M now) m = reaped M now m"
    proof (cases "mail_due M now (reaped M now m)")
      case True
      with row cs have "reaped M now m \<in> set ?cs" by simp
      from settled_by_due[OF cs(1) this] True show ?thesis by simp
    next
      case False
      have "m_id (reaped M now m) \<notin> m_id ` set ?cs"
      proof
        assume "m_id (reaped M now m) \<in> m_id ` set ?cs"
        then obtain c where "c \<in> set ?cs" "m_id c = m_id (reaped M now m)" by auto
        with cs(2) same_key[OF dist _ row] False show False by auto
      qed
      with False show ?thesis by (simp add: settled_by_other)
    qed
  qed
  then show "\<exists>f. emails d' = map f (emails d) \<and> ?exact f"
    using out(1) by (intro exI[of _ "settled_by M now (tried d1) ?cs \<circ> reaped M now"]) (simp add: d1_def)
  show "mail_table M d'" "signups d' = signups d" "minted d' = minted d" using out by (simp_all add: d1_def)
qed

subsection \<open>One welcome per address\<close>

text \<open>Every address is on the list once, and the mails queued are the welcomes of the signups, one each.\<close>

definition waitlist_ok :: "mail_env \<Rightarrow> mail_db \<Rightarrow> bool" where
  "waitlist_ok M d \<longleftrightarrow> mail_laws M \<and> distinct (map su_email (signups d)) \<and> distinct (map su_id (signups d))
     \<and> su_id ` set (signups d) \<subseteq> mail_mint M ` {..<minted d}
     \<and> map m_key (emails d) = map (\<lambda>s. WELCOME_KEY @ id_text M (su_id s)) (signups d)
     \<and> map m_to (emails d) = map su_email (signups d)"

lemma waitlist_pass_ok:
  assumes "waitlist_ok M d" "mail_table M d" "send_outbound_emails M None False now d = (acc, d')"
  shows "waitlist_ok M d'"
proof -
  obtain f where f: "emails d' = map f (emails d)" "\<forall>m \<in> set (emails d).
      if mail_due M now (reaped M now m) then \<exists>n. f m = settle_mail M n (claim_mail_row now (reaped M now m)) else f m = reaped M now m"
    using mail_pass_rows(1)[OF assms(2,3)] by blast
  have "m_key (f m) = m_key m \<and> m_to (f m) = m_to m" if "m \<in> set (emails d)" for m
    using bspec[OF f(2) that]
    by (auto simp: reaped_def reap_mail_def settle_mail_def sent_row_def failed_row_def claim_mail_row_def split: if_splits option.splits)
  then have "map m_key (emails d') = map m_key (emails d)" "map m_to (emails d') = map m_to (emails d)" by (simp_all add: f(1))
  then show ?thesis using assms(1) mail_pass_rows(3,4)[OF assms(2,3)] by (simp add: waitlist_ok_def)
qed

lemma waitlist_ok_new_key:
  assumes "waitlist_ok M d"
  shows "WELCOME_KEY @ id_text M (mail_mint M (minted d)) \<notin> m_key ` set (emails d)"
proof
  assume "WELCOME_KEY @ id_text M (mail_mint M (minted d)) \<in> m_key ` set (emails d)"
  also have "m_key ` set (emails d) = set (map (\<lambda>s. WELCOME_KEY @ id_text M (su_id s)) (signups d))"
    using assms by (metis list.set_map waitlist_ok_def)
  finally obtain s where "s \<in> set (signups d)" "id_text M (su_id s) = id_text M (mail_mint M (minted d))"
    by auto
  then have "mail_mint M (minted d) \<in> mail_mint M ` {..<minted d}"
    using assms by (auto simp: waitlist_ok_def mail_laws_def inj_eq)
  then show False using assms inj_image_mem_iff[of "mail_mint M" "minted d" "{..<minted d}"]
    by (simp add: waitlist_ok_def mail_laws_def)
qed

lemma waitlist_join_ok:
  assumes "waitlist_ok M d" "waitlist_join M email src ints free now d = ((s, created), d')"
  shows "waitlist_ok M d'" and "created \<longleftrightarrow> lower (strip email) \<notin> su_email ` set (signups d)"
    and "length (emails d') = length (emails d) + (if created then 1 else 0)"
    and "su_email s = lower (strip email)" "lower (strip email) \<in> su_email ` set (signups d')"
proof -
  let ?a = "lower (strip email)"
  have "waitlist_ok M d' \<and> (created \<longleftrightarrow> ?a \<notin> su_email ` set (signups d)) \<and> su_email s = ?a
      \<and> length (emails d') = length (emails d) + (if created then 1 else 0) \<and> ?a \<in> su_email ` set (signups d')"
  proof (cases "first (filter (\<lambda>s. su_email s = ?a) (signups d))")
    case None
    then have new: "?a \<notin> su_email ` set (signups d)" by (auto simp: filter_empty_conv)
    have fresh: "mail_mint M (minted d) \<notin> su_id ` set (signups d)"
      using assms(1) inj_image_mem_iff[of "mail_mint M" "minted d" "{..<minted d}"] by (auto simp: waitlist_ok_def mail_laws_def)
    have none: "filter (\<lambda>m. m_key m = WELCOME_KEY @ id_text M (mail_mint M (minted d))) (emails d) = []"
      using waitlist_ok_new_key[OF assms(1)] by (auto simp: filter_empty_conv image_iff)
    have grown: "su_id x \<in> mail_mint M ` {..<Suc (Suc (minted d))}" if "x \<in> set (signups d)" for x
      using assms(1) that by (auto simp: waitlist_ok_def lessThan_Suc)
    have "mail_mint M (minted d) \<in> mail_mint M ` {..<Suc (Suc (minted d))}" by simp
    with grown show ?thesis
      using assms new fresh
      by (auto simp: waitlist_join_def None Let_def waitlist_welcome_def mail_enqueue_def none waitlist_ok_def address_normal)
  next
    case (Some q)
    then have q: "q \<in> set (signups d)" "su_email q = ?a" by (auto dest: first_in)
    then have known: "?a \<in> su_email ` set (signups d)" by (auto intro: rev_image_eqI)
    define rows where "rows = update_where (\<lambda>x. su_id x = su_id q)
      (\<lambda>x. x\<lparr>su_interests := canonical ints, su_other := if OTHER \<in> set (canonical ints) then free else []\<rparr>) (signups d)"
    have keep: "map su_email rows = map su_email (signups d)" "map su_id rows = map su_id (signups d)"
      by (simp_all add: rows_def map_key_update_where)
    have "map (\<lambda>s. WELCOME_KEY @ id_text M (su_id s)) rows = map (\<lambda>i. WELCOME_KEY @ id_text M i) (map su_id rows)"
      by simp
    then have keys: "map (\<lambda>s. WELCOME_KEY @ id_text M (su_id s)) rows = map (\<lambda>s. WELCOME_KEY @ id_text M (su_id s)) (signups d)"
      unfolding keep(2) by simp
    have sets: "su_email ` set rows = su_email ` set (signups d)" "su_id ` set rows = su_id ` set (signups d)"
      using arg_cong[OF keep(1), of set] arg_cong[OF keep(2), of set] by simp_all
    have "(d' = d \<or> d' = d\<lparr>signups := rows\<rparr>) \<and> \<not> created \<and> su_email s = ?a"
      using assms(2) q(2) by (auto simp: waitlist_join_def Some Let_def rows_def split: if_splits)
    then show ?thesis using assms(1) known keep keys sets by (elim conjE disjE) (simp_all add: waitlist_ok_def)
  qed
  then show "waitlist_ok M d'" and "created \<longleftrightarrow> ?a \<notin> su_email ` set (signups d)"
    and "length (emails d') = length (emails d) + (if created then 1 else 0)"
    and "su_email s = ?a" "?a \<in> su_email ` set (signups d')" by blast+
qed


text \<open>Whoever joins, however often and in whatever case, while the queue is drained in between.\<close>

datatype waitlist_event =
    Join string string "source_interest list" string instant
  | Drain_Mail instant

fun waitlist_step :: "mail_env \<Rightarrow> waitlist_event \<Rightarrow> mail_db \<Rightarrow> mail_db" where
  "waitlist_step M (Join email src ints free now) d = snd (waitlist_join M email src ints free now d)"
| "waitlist_step M (Drain_Mail now) d = snd (send_outbound_emails M None False now d)"

fun joined_addresses :: "waitlist_event list \<Rightarrow> string list" where
  "joined_addresses [] = []"
| "joined_addresses (Join email src ints free now # es) = lower (strip email) # joined_addresses es"
| "joined_addresses (Drain_Mail now # es) = joined_addresses es"

lemma waitlist_join_table:
  assumes "mail_table M d" shows "mail_table M (snd (waitlist_join M email src ints free now d))"
proof -
  have "mail_table M (d\<lparr>signups := ss, minted := Suc (minted d)\<rparr>)" "mail_table M (d\<lparr>signups := ss\<rparr>)" for ss
    using assms by (auto simp: mail_table_def lessThan_Suc)
  then show ?thesis
    using assms by (auto simp: waitlist_join_def waitlist_welcome_def Let_def mail_enqueue_table split: option.split)
qed

lemma waitlist_join_addresses:
  "su_email ` set (signups (snd (waitlist_join M email src ints free now d))) =
     insert (lower (strip email)) (su_email ` set (signups d))"
proof (cases "first (filter (\<lambda>s. su_email s = lower (strip email)) (signups d))")
  case None
  then show ?thesis by (simp add: waitlist_join_def waitlist_welcome_def mail_enqueue_def Let_def split: option.split)
next
  case (Some q)
  then have q: "lower (strip email) \<in> su_email ` set (signups d)" by (auto dest!: first_in intro: rev_image_eqI)
  have "map su_email (update_where (\<lambda>x. su_id x = su_id q) (\<lambda>x. x\<lparr>su_interests := v, su_other := w\<rparr>) (signups d)) =
      map su_email (signups d)" for v w
    by (simp add: map_key_update_where)
  then have "su_email ` set (update_where (\<lambda>x. su_id x = su_id q) (\<lambda>x. x\<lparr>su_interests := v, su_other := w\<rparr>) (signups d)) =
      su_email ` set (signups d)" for v w
    by (metis list.set_map)
  with q show ?thesis by (simp add: waitlist_join_def Some Let_def insert_absorb)
qed

lemma waitlist_history:
  "waitlist_ok M d \<Longrightarrow> mail_table M d \<Longrightarrow> d' = fold (waitlist_step M) es d \<Longrightarrow>
     waitlist_ok M d' \<and> mail_table M d'
     \<and> su_email ` set (signups d') = su_email ` set (signups d) \<union> set (joined_addresses es)"
proof (induction es arbitrary: d)
  case (Cons e es)
  have "waitlist_ok M (waitlist_step M e d) \<and> mail_table M (waitlist_step M e d)
     \<and> su_email ` set (signups (waitlist_step M e d)) = su_email ` set (signups d) \<union> set (joined_addresses [e])"
  proof (cases e)
    case (Join email src ints free now)
    obtain s c d1 where run: "waitlist_join M email src ints free now d = ((s, c), d1)" by (metis surj_pair)
    have "su_email ` set (signups d1) = insert (lower (strip email)) (su_email ` set (signups d))"
      using waitlist_join_addresses[of M email src ints free now d] run by simp
    with Join run waitlist_join_ok(1)[OF Cons.prems(1) run] waitlist_join_table[OF Cons.prems(2), of email src ints free now]
    show ?thesis by simp
  next
    case (Drain_Mail now)
    obtain acc d1 where run: "send_outbound_emails M None False now d = (acc, d1)" by (metis prod.exhaust)
    show ?thesis
      using Drain_Mail run waitlist_pass_ok[OF Cons.prems(1,2) run] mail_pass_rows(2,3)[OF Cons.prems(2) run] by simp
  qed
  with Cons.IH[of "waitlist_step M e d"] Cons.prems(3) show ?case by (cases e) auto
qed simp

end
