(* ===== verification/Short_Links.thy ===== *)
theory Short_Links
  imports Cache Urls
begin

text \<open>
  Short links (links/services/short\_link.py, links/views.py, links/constants.py): minting a code,
  resolving it, counting clicks and rolling them up. The random source, the keyed hash of an
  address and the text of an id are parameters; the dedup cache is that of Cache, and a failing
  one counts as one that has not seen the visitor. The stamp of a row is left out.
\<close>

subsection \<open>Constants and rows\<close>

definition CODE_ALPHABET :: string where
  "CODE_ALPHABET = ''0123456789abcdefghijklmnopqrstuvwxyzABCDEFGHIJKLMNOPQRSTUVWXYZ''"

definition CODE_LENGTH :: nat where
  "CODE_LENGTH = 6"

definition CODE_MAX_LENGTH :: nat where
  "CODE_MAX_LENGTH = 64"

definition slug_ok :: "string \<Rightarrow> bool" where
  "slug_ok s \<longleftrightarrow> 1 \<le> length s \<and> length s \<le> CODE_MAX_LENGTH
     \<and> list_all (\<lambda>c. is_alpha c \<or> is_digit c \<or> c = CHR ''_'' \<or> c = CHR ''-'') s"

definition UNKNOWN_COUNTRY :: string where
  "UNKNOWN_COUNTRY = ''??''"

definition COUNTRY_CODE_LENGTH :: nat where
  "COUNTRY_CODE_LENGTH = 2"

definition CLICK_DEDUP_WINDOW_SECONDS :: int where
  "CLICK_DEDUP_WINDOW_SECONDS = 30 * 60"

definition MAX_CODE_TRIES :: nat where
  "MAX_CODE_TRIES = 8"

definition PROP_MAX :: nat where
  "PROP_MAX = 500"

record short_link =
  sl_id :: ulid
  sl_code :: string
  sl_url :: string

record click_event =
  ce_link :: ulid
  ce_ip_hash :: string
  ce_country :: string
  ce_ua :: string
  ce_ref :: string

record link_db =
  links :: "short_link list"
  clicks :: "click_event list"
  link_draws :: nat
  random_draws :: nat

record link_env =
  link_mint :: "nat \<Rightarrow> ulid"
  randbelow :: "nat \<Rightarrow> nat \<Rightarrow> nat"
  ip_hmac :: "string \<Rightarrow> string"
  link_text :: "ulid \<Rightarrow> string"
  SHORTLINK_TRUST_CF_HEADERS :: bool

text \<open>\<open>META\<close> of a request.\<close>

record http_request =
  hr_method :: string
  hr_meta :: "string \<Rightarrow> string option"

subsection \<open>Minting\<close>

text \<open>The insert under the unique constraint on \<open>code\<close>, in its own savepoint.\<close>

definition insert_link :: "link_env \<Rightarrow> string \<Rightarrow> string \<Rightarrow> link_db \<Rightarrow> (exn + short_link) \<times> link_db" where
  "insert_link L code url d =
     (if code \<in> sl_code ` set (links d) then (Inl IntegrityError, d)
      else let l = \<lparr>sl_id = link_mint L (link_draws d), sl_code = code, sl_url = url\<rparr>
           in (Inr l, d\<lparr>links := links d @ [l], link_draws := Suc (link_draws d)\<rparr>))"

text \<open>\<open>secrets.choice\<close>, once per character.\<close>

definition random_code :: "link_env \<Rightarrow> nat \<Rightarrow> string" where
  "random_code L n = map (\<lambda>i. CODE_ALPHABET ! (randbelow L (n + i) (length CODE_ALPHABET) mod length CODE_ALPHABET)) [0..<CODE_LENGTH]"

fun insert_with_random_code :: "link_env \<Rightarrow> nat \<Rightarrow> string \<Rightarrow> link_db \<Rightarrow> (exn + short_link) \<times> link_db" where
  "insert_with_random_code L 0 url d = (Inl ValueError, d)"
| "insert_with_random_code L (Suc k) url d =
     (let code = random_code L (random_draws d); d1 = d\<lparr>random_draws := random_draws d + CODE_LENGTH\<rparr>
      in case insert_link L code url d1 of
           (Inl e, d2) \<Rightarrow> insert_with_random_code L k url d2
         | (Inr l, d2) \<Rightarrow> (Inr l, d2))"

definition create_link :: "link_env \<Rightarrow> string \<Rightarrow> string option \<Rightarrow> link_db \<Rightarrow> (exn + short_link) \<times> link_db" where
  "create_link L url code d =
     (let clean_url = strip url
      in if clean_url = [] then (Inl ValueError, d)
         else case urlsplit clean_url of
                Inl e \<Rightarrow> (Inl e, d)
              | Inr parsed \<Rightarrow>
                  if scheme parsed \<notin> {''http'', ''https''} \<or> netloc parsed = [] then (Inl ValueError, d)
                  else (case code of
                          None \<Rightarrow> insert_with_random_code L MAX_CODE_TRIES clean_url d
                        | Some c \<Rightarrow>
                            let slug = strip c
                            in if \<not> slug_ok slug then (Inl ValueError, d)
                               else case insert_link L slug clean_url d of
                                      (Inl e, d') \<Rightarrow> (Inl (if e = IntegrityError then ValueError else e), d')
                                    | (Inr l, d') \<Rightarrow> (Inr l, d')))"

definition find_by_code :: "string \<Rightarrow> link_db \<Rightarrow> short_link option" where
  "find_by_code code d = first (filter (\<lambda>l. sl_code l = code) (links d))"

definition iter_all :: "link_db \<Rightarrow> short_link list" where
  "iter_all d = order_by_desc sl_id (links d)"

definition delete_link :: "string \<Rightarrow> link_db \<Rightarrow> bool \<times> link_db" where
  "delete_link code d =
     (case find_by_code code d of
        None \<Rightarrow> (False, d)
      | Some l \<Rightarrow> (True, d\<lparr>clicks := delete_where (\<lambda>e. ce_link e = sl_id l) (clicks d),
                          links := delete_where (\<lambda>x. sl_id x = sl_id l) (links d)\<rparr>))"

subsection \<open>Clicks\<close>

definition meta_or :: "string \<Rightarrow> http_request \<Rightarrow> string" where
  "meta_or k r = (case hr_meta r k of Some v \<Rightarrow> v | None \<Rightarrow> [])"

definition click_ip :: "link_env \<Rightarrow> http_request \<Rightarrow> string" where
  "click_ip L r =
     (if SHORTLINK_TRUST_CF_HEADERS L \<and> meta_or ''HTTP_CF_CONNECTING_IP'' r \<noteq> [] then meta_or ''HTTP_CF_CONNECTING_IP'' r
      else meta_or ''REMOTE_ADDR'' r)"

definition client_country :: "link_env \<Rightarrow> http_request \<Rightarrow> string" where
  "client_country L r =
     (if SHORTLINK_TRUST_CF_HEADERS L then take COUNTRY_CODE_LENGTH (meta_or ''HTTP_CF_IPCOUNTRY'' r) else [])"

definition referer_origin :: "string \<Rightarrow> exn + string" where
  "referer_origin referer =
     (case urlsplit referer of
        Inl e \<Rightarrow> Inl e
      | Inr parts \<Rightarrow>
          (case hostname parts of
             None \<Rightarrow> Inr []
           | Some h \<Rightarrow>
               if scheme parts = [] \<or> h = [] then Inr []
               else let host = (if CHR '':'' \<in> set h then ''['' @ h @ '']'' else h);
                        prt = (case port parts of Inl _ \<Rightarrow> None | Inr p \<Rightarrow> p);
                        origin = (case prt of
                                    Some n \<Rightarrow> if n \<noteq> 0 then scheme parts @ ''://'' @ host @ '':'' @ dec n
                                              else scheme parts @ ''://'' @ host
                                  | None \<Rightarrow> scheme parts @ ''://'' @ host)
                    in Inr (take PROP_MAX origin)))"

definition dedup_key :: "link_env \<Rightarrow> ulid \<Rightarrow> string \<Rightarrow> string" where
  "dedup_key L lid h = ''clickdedup:'' @ link_text L lid @ '':'' @ h"

definition seen_recently :: "link_env \<Rightarrow> ('s, unit) cache_ops \<Rightarrow> bool \<Rightarrow> ulid \<Rightarrow> string \<Rightarrow> instant \<Rightarrow> 's \<Rightarrow> bool \<times> 's" where
  "seen_recently L C up lid h now s =
     (if \<not> up then (False, s)
      else let (added, s') = cache_add C (dedup_key L lid h) () CLICK_DEDUP_WINDOW_SECONDS now s in (\<not> added, s'))"

definition visitor_hash :: "link_env \<Rightarrow> http_request \<Rightarrow> string" where
  "visitor_hash L r = (let ip = click_ip L r in if ip = [] then [] else ip_hmac L ip)"

text \<open>
  \<open>record_click\<close>: \<open>up\<close> says whether the cache answers, \<open>saved\<close> whether the insert does. Whatever
  fails is swallowed, and no row is written.
\<close>

definition write_click :: "link_env \<Rightarrow> string \<Rightarrow> bool \<Rightarrow> short_link \<Rightarrow> http_request \<Rightarrow> link_db \<Rightarrow> link_db" where
  "write_click L h saved l r d =
     (case referer_origin (meta_or ''HTTP_REFERER'' r) of
        Inl _ \<Rightarrow> d
      | Inr ref \<Rightarrow>
          if \<not> saved then d
          else d\<lparr>clicks := clicks d @
                 [\<lparr>ce_link = sl_id l, ce_ip_hash = h, ce_country = client_country L r,
                   ce_ua = take PROP_MAX (meta_or ''HTTP_USER_AGENT'' r), ce_ref = ref\<rparr>]\<rparr>)"

definition record_click :: "link_env \<Rightarrow> ('s, unit) cache_ops \<Rightarrow> bool \<Rightarrow> bool \<Rightarrow> short_link \<Rightarrow> http_request \<Rightarrow> instant
    \<Rightarrow> link_db \<times> 's \<Rightarrow> link_db \<times> 's" where
  "record_click L C up saved l r now ds =
     (let h = visitor_hash L r;
          (seen, s') = (if h = [] then (False, snd ds) else seen_recently L C up (sl_id l) h now (snd ds))
      in (if seen then fst ds else write_click L h saved l r (fst ds), s'))"

subsection \<open>Overlapping hits\<close>

text \<open>
  \<open>record_click\<close> is a hit that nobody overlaps: its \<open>cache.add\<close> is one step. On the DatabaseCache the add
  looks the key up and then stores it, and other hits run in between. A hit of any number of
  requests at once is therefore two steps: \<open>Arrive\<close> is the hit up to the lookup of its add, \<open>Land\<close> the
  store and the rest, of the k-th hit in flight. \<open>lost\<close> is a store the table refuses because the key
  is there by then, which the add answers as seen; a lookup that found no key may also be followed by
  a store that succeeds over another's.
\<close>

type_synonym hit = "bool \<times> short_link \<times> http_request"

record 's hit_world =
  hw_flying :: "(hit \<times> bool) list"
  hw_db :: link_db
  hw_cache :: 's

datatype hit_event = Arrive hit instant | Land nat instant bool

fun hit_step :: "link_env \<Rightarrow> ('s, unit) cache_ops \<Rightarrow> hit_event \<Rightarrow> 's hit_world \<Rightarrow> 's hit_world" where
  "hit_step L C (Arrive (saved, l, r) now) w =
     (let h = visitor_hash L r;
          seen = (h \<noteq> [] \<and> cache_get C (dedup_key L (sl_id l) h) now (hw_cache w) \<noteq> None)
      in w\<lparr>hw_flying := hw_flying w @ [((saved, l, r), seen)]\<rparr>)"
| "hit_step L C (Land k now lost) w =
     (if length (hw_flying w) \<le> k then w
      else let ((saved, l, r), seen) = hw_flying w ! k;
               h = visitor_hash L r;
               fresh = (h = [] \<or> \<not> seen \<and> \<not> lost)
           in w\<lparr>hw_flying := take k (hw_flying w) @ drop (Suc k) (hw_flying w),
                hw_cache := (if h \<noteq> [] \<and> fresh
                  then cache_set C (dedup_key L (sl_id l) h) () CLICK_DEDUP_WINDOW_SECONDS now (hw_cache w) else hw_cache w),
                hw_db := (if fresh then write_click L h saved l r (hw_db w) else hw_db w)\<rparr>)"

definition hits_run :: "link_env \<Rightarrow> ('s, unit) cache_ops \<Rightarrow> hit_event list \<Rightarrow> 's hit_world \<Rightarrow> 's hit_world" where
  "hits_run L C es w = fold (hit_step L C) es w"

subsection \<open>Statistics\<close>

record link_stats =
  ls_total :: nat
  ls_unique :: nat
  ls_by_country :: "string \<Rightarrow> nat option"

definition country_counts :: "click_event list \<Rightarrow> (string \<times> nat) list" where
  "country_counts evs = order_by_desc snd
     (map (\<lambda>c. (c, count_where (\<lambda>e. ce_country e = c) evs)) (remdups (map ce_country evs)))"

definition stats_of :: "click_event list \<Rightarrow> link_stats" where
  "stats_of evs =
     \<lparr>ls_total = length evs, ls_unique = card (ce_ip_hash ` set evs - {[]}),
      ls_by_country = fold (\<lambda>(c, n) m. m((if c = [] then UNKNOWN_COUNTRY else c) \<mapsto> n)) (country_counts evs) Map.empty\<rparr>"

text \<open>One chunk of ids yields an entry for each of its links that has an event.\<close>

fun stats_chunks :: "ulid list list \<Rightarrow> link_db \<Rightarrow> (ulid \<Rightarrow> link_stats option) \<Rightarrow> ulid \<Rightarrow> link_stats option" where
  "stats_chunks [] d m = m"
| "stats_chunks (c # cs) d m =
     stats_chunks cs d
       (\<lambda>i. if i \<in> set c \<and> i \<in> ce_link ` set (clicks d) then Some (stats_of (filter (\<lambda>e. ce_link e = i) (clicks d))) else m i)"

definition stats_for :: "ulid list \<Rightarrow> link_db \<Rightarrow> ulid \<Rightarrow> link_stats option" where
  "stats_for ids d i =
     (if i \<in> set ids
      then Some (case stats_chunks (batched 500 ids) d Map.empty i of Some s \<Rightarrow> s | None \<Rightarrow> stats_of [])
      else None)"

definition link_stats_view :: "short_link \<Rightarrow> link_db \<Rightarrow> link_stats option" where
  "link_stats_view l d = stats_for [sl_id l] d (sl_id l)"

subsection \<open>The endpoint\<close>

datatype redirect_reply = Redirect string | Not_Found_404 | Method_Not_Allowed

definition shortlink_redirect :: "link_env \<Rightarrow> ('s, unit) cache_ops \<Rightarrow> bool \<Rightarrow> bool \<Rightarrow> http_request \<Rightarrow> string \<Rightarrow> instant
    \<Rightarrow> link_db \<times> 's \<Rightarrow> redirect_reply \<times> link_db \<times> 's" where
  "shortlink_redirect L C up saved r code now ds =
     (if hr_method r \<notin> {''GET'', ''HEAD''} then (Method_Not_Allowed, ds)
      else case find_by_code code (fst ds) of
             None \<Rightarrow> (Not_Found_404, ds)
           | Some l \<Rightarrow> (Redirect (sl_url l),
               if hr_method r = ''GET'' then record_click L C up saved l r now ds else ds))"

subsection \<open>Codes\<close>

definition link_table :: "link_env \<Rightarrow> link_db \<Rightarrow> bool" where
  "link_table L d \<longleftrightarrow> inj (link_mint L) \<and> distinct (map sl_code (links d)) \<and> distinct (map sl_id (links d))
     \<and> sl_id ` set (links d) \<subseteq> link_mint L ` {..<link_draws d}"

lemma length_random_code [simp]: "length (random_code L n) = CODE_LENGTH"
  by (simp add: random_code_def)

lemma alphabet_slug: "slug_ok CODE_ALPHABET"
  by (simp add: slug_ok_def CODE_ALPHABET_def CODE_MAX_LENGTH_def text_eval)

lemma random_code_slug: "slug_ok (random_code L n)"
proof -
  have "is_alpha c \<or> is_digit c \<or> c = CHR ''_'' \<or> c = CHR ''-''" if "c \<in> set CODE_ALPHABET" for c
    using alphabet_slug that by (auto simp: slug_ok_def list_all_iff)
  moreover have "CODE_ALPHABET ! (k mod length CODE_ALPHABET) \<in> set CODE_ALPHABET" for k
    by (intro nth_mem mod_less_divisor) (simp add: CODE_ALPHABET_def)
  ultimately show ?thesis
    by (simp add: slug_ok_def random_code_def list_all_iff CODE_LENGTH_def CODE_MAX_LENGTH_def)
qed

lemma insert_link_ok:
  assumes "link_table L d" "insert_link L code url d = (Inr l, d')"
  shows "link_table L d'" "links d' = links d @ [l]" "sl_code l = code" "sl_url l = url" "clicks d' = clicks d"
    and "code \<notin> sl_code ` set (links d)" "random_draws d' = random_draws d"
proof -
  have "link_mint L (link_draws d) \<notin> sl_id ` set (links d)"
    using assms(1) inj_image_mem_iff[of "link_mint L" "link_draws d" "{..<link_draws d}"] by (auto simp: link_table_def)
  moreover have "sl_id x \<in> link_mint L ` {..<Suc (link_draws d)}" if "x \<in> set (links d)" for x
    using assms(1) that by (fastforce simp: link_table_def lessThan_Suc)
  ultimately show "link_table L d'"
    using assms by (auto simp: link_table_def insert_link_def Let_def split: if_splits)
qed (use assms in \<open>auto simp: insert_link_def Let_def split: if_splits\<close>)

lemma insert_link_error: "insert_link L code url d = (Inl e, d') \<Longrightarrow> d' = d \<and> e = IntegrityError \<and> code \<in> sl_code ` set (links d)"
  by (auto simp: insert_link_def Let_def split: if_splits)

lemma link_table_draws: "link_table L (d\<lparr>random_draws := n\<rparr>) = link_table L d"
  by (simp add: link_table_def)

lemma random_insert_ok:
  assumes "link_table L d" "insert_with_random_code L k url d = (Inr l, d')"
  shows "link_table L d' \<and> links d' = links d @ [l] \<and> slug_ok (sl_code l) \<and> length (sl_code l) = CODE_LENGTH
    \<and> sl_url l = url \<and> clicks d' = clicks d \<and> sl_code l \<notin> sl_code ` set (links d)"
  using assms
proof (induction k arbitrary: d)
  case (Suc k)
  let ?code = "random_code L (random_draws d)" and ?d1 = "d\<lparr>random_draws := random_draws d + CODE_LENGTH\<rparr>"
  have tab: "link_table L ?d1" using Suc.prems(1) by (simp add: link_table_draws)
  show ?case
  proof (cases "insert_link L ?code url ?d1")
    case (Pair res d2)
    show ?thesis
    proof (cases res)
      case (Inl e)
      with Pair insert_link_error[of L ?code url ?d1] have "d2 = ?d1" by auto
      with Suc.IH[OF tab] Suc.prems(2) Pair Inl show ?thesis by (simp add: Let_def)
    next
      case (Inr l2)
      with Pair Suc.prems(2) have "l2 = l" "d2 = d'" by (simp_all add: Let_def)
      with insert_link_ok[OF tab Pair[unfolded Inr]] random_code_slug show ?thesis by simp
    qed
  qed
qed simp

text \<open>Eight draws that all hit a taken code are the only way a random code is refused.\<close>

lemma random_insert_error:
  assumes "insert_with_random_code L k url d = (Inl e, d')"
  shows "e = ValueError" "links d' = links d" "clicks d' = clicks d"
    and "\<forall>i < k. random_code L (random_draws d + i * CODE_LENGTH) \<in> sl_code ` set (links d)"
proof -
  have "e = ValueError \<and> links d' = links d \<and> clicks d' = clicks d
    \<and> (\<forall>i < k. random_code L (random_draws d + i * CODE_LENGTH) \<in> sl_code ` set (links d))"
    using assms
  proof (induction k arbitrary: d)
    case (Suc k)
    let ?code = "random_code L (random_draws d)" and ?d1 = "d\<lparr>random_draws := random_draws d + CODE_LENGTH\<rparr>"
    obtain res d2 where ins: "insert_link L ?code url ?d1 = (res, d2)" by fastforce
    with Suc.prems obtain e1 where "res = Inl e1" by (cases res) (auto simp: Let_def)
    with ins have hit: "d2 = ?d1" "?code \<in> sl_code ` set (links d)" using insert_link_error[of L ?code url ?d1] by auto
    with Suc.prems ins \<open>res = Inl e1\<close> have "insert_with_random_code L k url ?d1 = (Inl e, d')" by (simp add: Let_def)
    from Suc.IH[OF this] hit(2) show ?case by (auto simp: less_Suc_eq_0_disj algebra_simps)
  qed simp
  then show "e = ValueError" "links d' = links d" "clicks d' = clicks d"
    and "\<forall>i < k. random_code L (random_draws d + i * CODE_LENGTH) \<in> sl_code ` set (links d)" by blast+
qed

lemma create_link_ok:
  assumes tab: "link_table L d" and c: "create_link L url code d = (Inr l, d')"
  shows "link_table L d' \<and> links d' = links d @ [l] \<and> slug_ok (sl_code l) \<and> clicks d' = clicks d
    \<and> sl_code l \<notin> sl_code ` set (links d) \<and> (\<forall>c. code = Some c \<longrightarrow> sl_code l = strip c)
    \<and> sl_url l = strip url \<and> (\<exists>parts. urlsplit (strip url) = Inr parts \<and> scheme parts \<in> {''http'', ''https''} \<and> netloc parts \<noteq> [])"
proof -
  obtain parts where parts: "urlsplit (strip url) = Inr parts" "scheme parts \<in> {''http'', ''https''}" "netloc parts \<noteq> []"
    using c by (auto simp: create_link_def Let_def split: sum.splits if_splits)
  show ?thesis
  proof (cases code)
    case None
    with c parts have "insert_with_random_code L MAX_CODE_TRIES (strip url) d = (Inr l, d')"
      by (auto simp: create_link_def Let_def split: if_splits)
    from random_insert_ok[OF tab this] parts None show ?thesis by simp
  next
    case (Some slug)
    with c parts have "slug_ok (strip slug)" "insert_link L (strip slug) (strip url) d = (Inr l, d')"
      by (auto simp: create_link_def Let_def split: if_splits sum.splits prod.splits)
    with insert_link_ok[OF tab, of "strip slug" "strip url" l d'] parts Some show ?thesis by simp
  qed
qed

lemma create_link_error:
  assumes "create_link L url code d = (Inl e, d')"
  shows "links d' = links d \<and> clicks d' = clicks d"
  using assms random_insert_error(2,3)[of L MAX_CODE_TRIES "strip url" d e d']
  by (auto simp: create_link_def Let_def split: if_splits sum.splits prod.splits option.splits dest!: insert_link_error)

text \<open>A minted link resolves, to what was asked for, and leaves every other code as it was.\<close>

lemma find_created:
  assumes "link_table L d" "create_link L url code d = (Inr l, d')"
  shows "find_by_code (sl_code l) d' = Some l" and "c \<noteq> sl_code l \<Longrightarrow> find_by_code c d' = find_by_code c d"
proof -
  have new: "links d' = links d @ [l]" "sl_code l \<notin> sl_code ` set (links d)" using create_link_ok[OF assms] by blast+
  then have "\<forall>x \<in> set (links d). sl_code x \<noteq> sl_code l" by (metis image_eqI)
  then have "filter (\<lambda>x. sl_code x = sl_code l) (links d) = []" by (simp add: filter_empty_conv)
  with new(1) show "find_by_code (sl_code l) d' = Some l" by (simp add: find_by_code_def)
  from new(1) show "c \<noteq> sl_code l \<Longrightarrow> find_by_code c d' = find_by_code c d" by (auto simp: find_by_code_def)
qed

lemma find_deleted:
  assumes "link_table L d" "delete_link code d = (ok, d')"
  shows "link_table L d'" "find_by_code code d' = None" "c \<noteq> code \<Longrightarrow> find_by_code c d' = find_by_code c d"
    and "ok \<longleftrightarrow> find_by_code code d \<noteq> None"
    and "find_by_code code d = Some l \<Longrightarrow> clicks d' = delete_where (\<lambda>e. ce_link e = sl_id l) (clicks d)"
proof -
  have "link_table L d' \<and> find_by_code code d' = None \<and> (c \<noteq> code \<longrightarrow> find_by_code c d' = find_by_code c d)"
  proof (cases "find_by_code code d")
    case None
    then show ?thesis using assms by (simp add: delete_link_def)
  next
    case (Some l)
    then have l: "l \<in> set (links d)" "sl_code l = code" by (auto simp: find_by_code_def dest: first_in)
    have same: "sl_id x = sl_id l \<longleftrightarrow> x = l" if "x \<in> set (links d)" for x
      using assms(1) l(1) that by (auto simp: link_table_def distinct_map inj_on_def)
    have code: "sl_code x = code \<longleftrightarrow> x = l" if "x \<in> set (links d)" for x
      using assms(1) l that by (auto simp: link_table_def distinct_map inj_on_def)
    have "filter (\<lambda>x. sl_id x \<noteq> sl_id l) (links d) = filter (\<lambda>x. sl_code x \<noteq> code) (links d)"
      by (rule filter_cong) (simp_all add: same code)
    then have rows: "links d' = filter (\<lambda>x. sl_code x \<noteq> code) (links d)"
      using assms(2) Some by (auto simp: delete_link_def delete_where_def)
    have "link_draws d' = link_draws d" using assms(2) Some by (auto simp: delete_link_def)
    with rows assms(1) show ?thesis
      by (auto simp: link_table_def distinct_map_filter find_by_code_def filter_empty_conv
          intro!: arg_cong[of _ _ first] filter_cong)
  qed
  then show "link_table L d'" "find_by_code code d' = None" "c \<noteq> code \<Longrightarrow> find_by_code c d' = find_by_code c d" by blast+
qed (use assms(2) in \<open>auto simp: delete_link_def split: option.splits\<close>)

subsection \<open>What a hit leaves behind\<close>

lemma write_click_links [simp]: "links (write_click L h saved l r d) = links d"
  by (simp add: write_click_def split: sum.split)

lemma redirect_links: "links (fst (snd (shortlink_redirect L C up saved r code now ds))) = links (fst ds)"
  by (auto simp: shortlink_redirect_def record_click_def Let_def split: option.splits sum.splits prod.splits if_splits)

text \<open>Only a GET of a live code counts, and the answer never depends on the counting.\<close>

lemma redirect_reply:
  "fst (shortlink_redirect L C up saved r code now ds) =
     (if hr_method r \<notin> {''GET'', ''HEAD''} then Method_Not_Allowed
      else case find_by_code code (fst ds) of None \<Rightarrow> Not_Found_404 | Some l \<Rightarrow> Redirect (sl_url l))"
  by (simp add: shortlink_redirect_def split: option.splits)

lemma redirect_quiet:
  "hr_method r \<noteq> ''GET'' \<or> find_by_code code (fst ds) = None \<Longrightarrow> snd (shortlink_redirect L C up saved r code now ds) = ds"
  by (auto simp: shortlink_redirect_def split: option.splits)

text \<open>A hit with no address, or one whose cache fails, is written every time its referer parses.\<close>

lemma record_click_open:
  assumes "visitor_hash L r = [] \<or> \<not> up" "referer_origin (meta_or ''HTTP_REFERER'' r) = Inr ref"
  shows "length (clicks (fst (record_click L C up True l r now ds))) = Suc (length (clicks (fst ds)))"
  using assms by (auto simp: record_click_def write_click_def Let_def seen_recently_def)

text \<open>A hit that nobody overlaps is \<open>record_click\<close>.\<close>

lemma undisturbed_hit:
  assumes "cache_laws C"
  shows "hw_db (hits_run L C [Arrive (saved, l, r) now, Land 0 now False] \<lparr>hw_flying = [], hw_db = fst ds, hw_cache = snd ds\<rparr>) =
    fst (record_click L C True saved l r now ds)"
  using cache_lawsD(1)[OF assms, of "dedup_key L (sl_id l) (visitor_hash L r)" "()" CLICK_DEDUP_WINDOW_SECONDS now "snd ds"]
  by (auto simp: hits_run_def record_click_def seen_recently_def Let_def split: prod.splits)

fun event_time :: "hit_event \<Rightarrow> instant" where
  "event_time (Arrive hit now) = now"
| "event_time (Land k now lost) = now"

definition clicks_of :: "ulid \<Rightarrow> string \<Rightarrow> link_db \<Rightarrow> nat" where
  "clicks_of i h d = count_where (\<lambda>e. ce_link e = i \<and> ce_ip_hash e = h) (clicks d)"

text \<open>The hits of one visitor on one link that are in flight, and those of them that found no key.\<close>

fun hit_of :: "link_env \<Rightarrow> ulid \<Rightarrow> string \<Rightarrow> hit \<times> bool \<Rightarrow> bool" where
  "hit_of L i h ((saved, l, r), seen) \<longleftrightarrow> sl_id l = i \<and> visitor_hash L r = h"

definition in_flight :: "link_env \<Rightarrow> ulid \<Rightarrow> string \<Rightarrow> 's hit_world \<Rightarrow> nat" where
  "in_flight L i h w = count_where (hit_of L i h) (hw_flying w)"

definition unseen_hits :: "link_env \<Rightarrow> ulid \<Rightarrow> string \<Rightarrow> 's hit_world \<Rightarrow> nat" where
  "unseen_hits L i h w = count_where (\<lambda>x. hit_of L i h x \<and> \<not> snd x) (hw_flying w)"

fun overlap_at_most :: "link_env \<Rightarrow> ('s, unit) cache_ops \<Rightarrow> nat \<Rightarrow> ulid \<Rightarrow> string \<Rightarrow> hit_event list \<Rightarrow> 's hit_world \<Rightarrow> bool" where
  "overlap_at_most L C n i h [] w \<longleftrightarrow> in_flight L i h w \<le> n"
| "overlap_at_most L C n i h (e # es) w \<longleftrightarrow> in_flight L i h w \<le> n \<and> overlap_at_most L C n i h es (hit_step L C e w)"

lemma overlap_now: "overlap_at_most L C n i h es w \<Longrightarrow> in_flight L i h w \<le> n"
  by (cases es) auto

lemma unseen_hits_le: "unseen_hits L i h w \<le> in_flight L i h w"
proof -
  have "count_where (\<lambda>x. P x \<and> Q x) xs \<le> count_where P xs" for P Q and xs :: "(hit \<times> bool) list"
    by (induction xs) auto
  then show ?thesis by (simp add: unseen_hits_def in_flight_def)
qed

lemma count_where_remove:
  assumes "k < length xs"
  shows "count_where P xs = (if P (xs ! k) then 1 else 0) + count_where P (take k xs @ drop (Suc k) xs)"
proof -
  have "count_where P xs = count_where P (take k xs @ xs ! k # drop (Suc k) xs)" using id_take_nth_drop[OF assms] by simp
  then show ?thesis by (simp add: count_where_append)
qed

lemma clicks_of_write:
  "clicks_of i h (write_click L h' saved l r d) = clicks_of i h d
   \<or> (sl_id l = i \<and> h' = h \<and> clicks_of i h (write_click L h' saved l r d) = Suc (clicks_of i h d))"
  by (auto simp: write_click_def clicks_of_def count_where_append split: sum.split)

text \<open>The key of a visitor stays set for the hits to come.\<close>

definition key_set :: "link_env \<Rightarrow> ('s, unit) cache_ops \<Rightarrow> ulid \<Rightarrow> string \<Rightarrow> hit_event list \<Rightarrow> 's \<Rightarrow> bool" where
  "key_set L C i h es s \<longleftrightarrow> (\<forall>e \<in> set es. cache_get C (dedup_key L i h) (event_time e) s \<noteq> None)"

definition counted :: "link_env \<Rightarrow> ('s, unit) cache_ops \<Rightarrow> nat \<Rightarrow> nat \<Rightarrow> ulid \<Rightarrow> string \<Rightarrow> hit_event list \<Rightarrow> 's hit_world \<Rightarrow> bool" where
  "counted L C c n i h es w \<longleftrightarrow> (clicks_of i h (hw_db w) = c \<or> key_set L C i h es (hw_cache w))
     \<and> clicks_of i h (hw_db w) + unseen_hits L i h w \<le> c + n"

lemma key_set_store:
  assumes "cache_laws C" "\<forall>e \<in> set es. now \<le> event_time e \<and> event_time e < now + seconds CLICK_DEDUP_WINDOW_SECONDS"
  shows "key_set L C i h es (cache_set C k () CLICK_DEDUP_WINDOW_SECONDS now s) \<longleftrightarrow>
    k = dedup_key L i h \<or> key_set L C i h es s"
  using assms(2) cache_lawsD(3)[OF assms(1), of now _ "dedup_key L i h" k "()" CLICK_DEDUP_WINDOW_SECONDS s]
  by (auto simp: key_set_def)

lemma counted_arrive:
  assumes "h \<noteq> []" "counted L C c n i h (Arrive hit now # es) w" "in_flight L i h (hit_step L C (Arrive hit now) w) \<le> n"
  shows "counted L C c n i h es (hit_step L C (Arrive hit now) w)"
proof -
  obtain saved l r where hit: "hit = (saved, l, r)" by (cases hit)
  let ?w = "hit_step L C (Arrive hit now) w"
  have same: "hw_db ?w = hw_db w" "hw_cache ?w = hw_cache w" by (simp_all add: hit Let_def)
  have key: "key_set L C i h (Arrive hit now # es) (hw_cache w) \<Longrightarrow>
      key_set L C i h es (hw_cache w) \<and> cache_get C (dedup_key L i h) now (hw_cache w) \<noteq> None"
    by (simp add: key_set_def)
  show ?thesis
  proof (cases "key_set L C i h (Arrive hit now # es) (hw_cache w)")
    case True
    then have "unseen_hits L i h ?w = unseen_hits L i h w" using assms(1) key
      by (auto simp: unseen_hits_def hit Let_def count_where_append)
    with True key assms(2) show ?thesis by (simp add: counted_def same)
  next
    case False
    with assms(2) have "clicks_of i h (hw_db w) = c" by (simp add: counted_def)
    with assms(3) unseen_hits_le[of L i h ?w] show ?thesis by (simp add: counted_def same)
  qed
qed

lemma counted_land:
  assumes "cache_laws C" "h \<noteq> []" "counted L C c n i h (Land k now lost # es) w"
    and times: "\<forall>e \<in> set es. now \<le> event_time e \<and> event_time e < now + seconds CLICK_DEDUP_WINDOW_SECONDS"
  shows "counted L C c n i h es (hit_step L C (Land k now lost) w)"
proof (cases "k < length (hw_flying w)")
  case True
  obtain saved l r seen where at: "hw_flying w ! k = ((saved, l, r), seen)" by (metis prod.exhaust)
  let ?w = "hit_step L C (Land k now lost) w" and ?h = "visitor_hash L r"
  let ?ours = "sl_id l = i \<and> ?h = h"
  have un: "unseen_hits L i h w = (if ?ours \<and> \<not> seen then 1 else 0) + unseen_hits L i h ?w"
    using count_where_remove[OF True, of "\<lambda>x. hit_of L i h x \<and> \<not> snd x"] True
    by (simp add: unseen_hits_def at Let_def)
  have key: "key_set L C i h (Land k now lost # es) (hw_cache w) \<Longrightarrow> key_set L C i h es (hw_cache ?w)"
    using True by (auto simp: at Let_def key_set_store[OF assms(1) times]) (auto simp: key_set_def)
  show ?thesis
  proof (cases "?ours \<and> \<not> seen \<and> \<not> lost")
    case ours: True
    then have "key_set L C i h es (hw_cache ?w)" using True assms(2)
      by (simp add: at Let_def key_set_store[OF assms(1) times])
    moreover have "clicks_of i h (hw_db ?w) \<le> Suc (clicks_of i h (hw_db w))"
      using ours True clicks_of_write[of i h L h saved l r "hw_db w"] by (auto simp: at Let_def)
    ultimately show ?thesis using un ours assms(3) by (simp add: counted_def)
  next
    case False
    then have "clicks_of i h (hw_db ?w) = clicks_of i h (hw_db w)"
      using True assms(2) clicks_of_write[of i h L ?h saved l r "hw_db w"] by (auto simp: at Let_def)
    with un key assms(3) show ?thesis by (auto simp: counted_def)
  qed
next
  case False
  with assms(3) show ?thesis by (auto simp: counted_def key_set_def)
qed

text \<open>Within the window a visitor gets no more rows on a link than it has hits in flight at once.\<close>

lemma hits_counted:
  assumes "cache_laws C" "h \<noteq> []" "sorted (map event_time es)"
    "\<forall>e \<in> set es. t \<le> event_time e \<and> event_time e < t + seconds CLICK_DEDUP_WINDOW_SECONDS"
    "overlap_at_most L C n i h es w" "counted L C c n i h es w"
  shows "clicks_of i h (hw_db (hits_run L C es w)) \<le> c + n"
  using assms(3-6)
proof (induction es arbitrary: w)
  case Nil
  then show ?case by (simp add: hits_run_def counted_def)
next
  case (Cons e es)
  let ?w = "hit_step L C e w"
  have over: "overlap_at_most L C n i h es ?w" using Cons.prems(3) by simp
  have times: "\<forall>e' \<in> set es. event_time e \<le> event_time e' \<and> event_time e' < event_time e + seconds CLICK_DEDUP_WINDOW_SECONDS"
    using Cons.prems(1,2) by (auto intro: less_le_trans)
  have "counted L C c n i h es ?w"
  proof (cases e)
    case (Arrive hit now)
    with counted_arrive[OF assms(2)] Cons.prems(4) overlap_now[OF over] show ?thesis by simp
  next
    case (Land k now lost)
    with counted_land[OF assms(1,2)] Cons.prems(4) times show ?thesis by simp
  qed
  with Cons.IH[of ?w] Cons.prems(1,2) over show ?case by (simp add: hits_run_def)
qed

lemma hits_bounded:
  assumes "cache_laws C" "h \<noteq> []" "sorted (map event_time es)"
    "\<forall>e \<in> set es. t \<le> event_time e \<and> event_time e < t + seconds CLICK_DEDUP_WINDOW_SECONDS"
    "overlap_at_most L C n i h es w"
  shows "clicks_of i h (hw_db (hits_run L C es w)) \<le> clicks_of i h (hw_db w) + n"
proof (rule hits_counted[OF assms])
  show "counted L C (clicks_of i h (hw_db w)) n i h es w"
    using unseen_hits_le[of L i h w] overlap_now[OF assms(5)] by (simp add: counted_def)
qed

subsection \<open>Statistics\<close>

lemma stats_chunks_eq:
  "stats_chunks cs d m i =
     (if i \<in> set (concat cs) \<and> i \<in> ce_link ` set (clicks d) then Some (stats_of (filter (\<lambda>e. ce_link e = i) (clicks d))) else m i)"
  by (induction cs arbitrary: m) auto

text \<open>The batched roll-up is the roll-up of each link's own events.\<close>

lemma stats_for_exact:
  "stats_for ids d i = (if i \<in> set ids then Some (stats_of (filter (\<lambda>e. ce_link e = i) (clicks d))) else None)"
proof -
  have "filter (\<lambda>e. ce_link e = i) (clicks d) = []" if "i \<notin> ce_link ` set (clicks d)"
    using that by (auto simp: filter_empty_conv)
  then show ?thesis by (simp add: stats_for_def stats_chunks_eq concat_batched)
qed

subsection \<open>What is kept of a referer\<close>

definition leaky :: "char set" where
  "leaky = {CHR ''@'', CHR ''?'', CHR ''#''}"

lemma dec_aux_set: "set (dec_aux f n acc) \<subseteq> set acc \<union> {c. is_digit c}"
proof (induction f arbitrary: n acc)
  case (Suc f)
  have "(of_char (char_of (48 + n mod 10) :: char) :: nat) = 48 + n mod 10"
    using mod_less_divisor[of 10 n] by (simp del: mod_less_divisor)
  then have "is_digit (char_of (48 + n mod 10))" using mod_less_divisor[of 10 n] by (simp add: is_digit_def del: mod_less_divisor)
  with Suc.IH[of "n div 10" "char_of (48 + n mod 10) # acc"] show ?case by (auto simp: Let_def)
qed simp

lemma dec_clean: "c \<in> set (dec n) \<Longrightarrow> c \<notin> leaky"
  using dec_aux_set[of "Suc n" n "[]"] by (auto simp: dec_def leaky_def is_digit_def simp del: dec_aux.simps)

lemma to_lower_clean: "to_lower c \<in> leaky \<longleftrightarrow> c \<in> leaky"
proof (cases "is_upper c")
  case True
  then have "97 \<le> (of_char (to_lower c) :: nat)" by (simp add: to_lower_def is_upper_def)
  with True show ?thesis by (auto simp: leaky_def is_upper_def)
qed (simp add: to_lower_def)

lemma takeWhile_all: "c \<in> set (takeWhile P s) \<Longrightarrow> P c"
  by (induction s) (auto split: if_splits)

lemma guarded_parts: "(if a then Inl e else if b then Inl e else Inr r) = Inr p \<Longrightarrow> p = r"
  by (simp split: if_splits)

lemma scheme_text_clean: "list_all scheme_char t \<Longrightarrow> c \<in> set (map to_lower t) \<Longrightarrow> c \<notin> leaky"
  by (auto simp: list_all_iff to_lower_clean) (auto simp: leaky_def scheme_char_def text_eval)

lemma urlsplit_clean:
  assumes "urlsplit s = Inr p"
  shows "c \<in> set (scheme p) \<Longrightarrow> c \<notin> leaky" and "c \<in> set (netloc p) \<Longrightarrow> c \<notin> set ''/?#''"
proof -
  have "scheme p = [] \<or> (\<exists>t. list_all scheme_char t \<and> scheme p = map to_lower t)"
    unfolding assms[unfolded urlsplit_def Let_def, THEN guarded_parts] url_parts.select_convs
    by (metis (no_types, lifting))
  then show "c \<in> set (scheme p) \<Longrightarrow> c \<notin> leaky" using scheme_text_clean by fastforce
  have "netloc p = [] \<or> (\<exists>t. netloc p = takeWhile (\<lambda>c. c \<notin> set ''/?#'') t)"
    unfolding assms[unfolded urlsplit_def Let_def, THEN guarded_parts] url_parts.select_convs
    by (metis (no_types, lifting))
  then show "c \<in> set (netloc p) \<Longrightarrow> c \<notin> set ''/?#''"
    using takeWhile_all[of c "\<lambda>c. c \<notin> set ''/?#''"] by (metis empty_iff empty_set)
qed

lemma hostname_clean:
  assumes "urlsplit s = Inr p" "hostname p = Some h" "c \<in> set h"
  shows "c \<notin> leaky"
proof -
  have info: "d \<notin> leaky" if "d \<in> set (hostinfo (netloc p))" for d
  proof -
    from that have "d \<in> set (netloc p)" "d \<noteq> CHR ''@''"
      by (auto simp: hostinfo_def dest: takeWhile_all) (metis set_rev set_takeWhileD)
    with urlsplit_clean(2)[OF assms(1)] show ?thesis by (auto simp: leaky_def)
  qed
  have host: "d \<in> set (hostinfo (netloc p))" if "d \<in> set (fst (host_port p))" for d
    using that by (auto simp: host_port_def Let_def split: if_splits dest!: set_takeWhileD in_set_dropD set_dropWhileD)
  from assms(2) have "h = map to_lower (takeWhile (\<lambda>c. c \<noteq> CHR ''%'') (fst (host_port p)))
    @ drop (length (takeWhile (\<lambda>c. c \<noteq> CHR ''%'') (fst (host_port p)))) (fst (host_port p))"
    by (auto simp: hostname_def Let_def split: if_splits)
  with assms(3) obtain d where "d \<in> set (fst (host_port p))" "c = d \<or> c = to_lower d"
    by (auto dest: set_takeWhileD in_set_dropD)
  with host info to_lower_clean show ?thesis by blast
qed

text \<open>No credentials, query or fragment of a referer is stored.\<close>

lemma referer_origin_clean:
  assumes "referer_origin s = Inr ref" "c \<in> set ref"
  shows "c \<notin> leaky"
proof -
  obtain p where p: "urlsplit s = Inr p" using assms(1) by (auto simp: referer_origin_def split: sum.splits)
  have part: "c \<notin> leaky" if "hostname p = Some h" "c \<in> set (scheme p @ ''://'' @ ''['' @ h @ '']'' @ '':'' @ dec n)" for h n
    using that urlsplit_clean(1)[OF p] hostname_clean[OF p that(1)] dec_clean by (auto simp: leaky_def)
  show ?thesis
  proof (cases "hostname p")
    case (Some h)
    let ?host = "if CHR '':'' \<in> set h then ''['' @ h @ '']'' else h"
    from assms p Some obtain tail where "ref = [] \<or> ref = take PROP_MAX (scheme p @ ''://'' @ ?host @ tail)"
      "tail = [] \<or> (\<exists>n. tail = '':'' @ dec n)"
      unfolding referer_origin_def Let_def by (simp split: option.splits if_split_asm) (metis append_Nil2 append_Cons append_Nil)+
    then have "c \<in> set (scheme p @ ''://'' @ ''['' @ h @ '']'' @ '':'' @ dec 0) \<or> (\<exists>n. c \<in> set (dec n))"
      using assms(2) by (auto dest!: in_set_takeD split: if_splits)
    with part[OF Some, of 0] dec_clean show ?thesis by blast
  qed (use assms p in \<open>simp add: referer_origin_def\<close>)
qed

end
