(* ===== verification/Telemetry.thy ===== *)
theory Telemetry
  imports Accounts Rest_Feeds Run_Queue Watches
begin

text \<open>
  Product telemetry (telemetry/service.py, models.py, client.py, events.py, middleware.py, views.py and
  the heartbeat command): one settings row, a switch that only an account owner may flip, and a single
  choke point through which every event leaves. The ingestion client is a parameter, present or not;
  \<open>sent\<close> is what it was handed. \<open>capture\<close> swallows every failure, so it is a function of the state only.
\<close>

subsection \<open>The settings row\<close>

datatype telemetry_mode = MODE_UNSET | MODE_OFF | MODE_ANONYMOUS | MODE_IDENTIFIED

fun telemetry_mode_value :: "telemetry_mode \<Rightarrow> string" where
  "telemetry_mode_value MODE_UNSET = ''unset''" | "telemetry_mode_value MODE_OFF = ''off''"
| "telemetry_mode_value MODE_ANONYMOUS = ''anonymous''" | "telemetry_mode_value MODE_IDENTIFIED = ''identified''"

datatype surface = SURFACE_CLI | SURFACE_WEB | SURFACE_API | SURFACE_SYSTEM

fun surface_value :: "surface \<Rightarrow> string" where
  "surface_value SURFACE_CLI = ''cli''" | "surface_value SURFACE_WEB = ''web''"
| "surface_value SURFACE_API = ''api''" | "surface_value SURFACE_SYSTEM = ''system''"

record telemetry_settings =
  te_mode :: string
  te_instance :: string
  te_heartbeat :: "instant option"

record captured =
  cap_event :: string
  cap_distinct :: string
  cap_props :: blob

record telemetry_db =
  te_row :: "telemetry_settings option"
  te_uuids :: nat
  sent :: "captured list"

record telemetry_env =
  new_instance_id :: "nat \<Rightarrow> string"
  DO_NOT_TRACK :: "string option"
  POSTHOG_API_KEY :: string
  client_built :: bool
  product_version :: string

definition is_off :: "telemetry_settings \<Rightarrow> bool" where
  "is_off r \<longleftrightarrow> te_mode r = telemetry_mode_value MODE_OFF"

definition is_anonymous :: "telemetry_settings \<Rightarrow> bool" where
  "is_anonymous r \<longleftrightarrow> te_mode r = telemetry_mode_value MODE_ANONYMOUS"

definition is_emitting :: "telemetry_settings \<Rightarrow> bool" where
  "is_emitting r \<longleftrightarrow> \<not> is_off r"

text \<open>The row is made on first access, with an id of its own.\<close>

definition current_settings :: "telemetry_env \<Rightarrow> telemetry_db \<Rightarrow> telemetry_settings \<times> telemetry_db" where
  "current_settings T d =
     (case te_row d of
        Some r \<Rightarrow> (r, d)
      | None \<Rightarrow>
          let r = \<lparr>te_mode = telemetry_mode_value MODE_UNSET, te_instance = new_instance_id T (te_uuids d), te_heartbeat = None\<rparr>
          in (r, d\<lparr>te_row := Some r, te_uuids := Suc (te_uuids d)\<rparr>))"

subsection \<open>The choke point\<close>

definition do_not_track :: "telemetry_env \<Rightarrow> bool" where
  "do_not_track T \<longleftrightarrow> (case DO_NOT_TRACK T of None \<Rightarrow> False | Some v \<Rightarrow> lower (strip v) \<notin> {'''', ''0'', ''false''})"

definition telemetry_on :: "telemetry_env \<Rightarrow> telemetry_db \<Rightarrow> bool \<times> telemetry_db" where
  "telemetry_on T d =
     (if do_not_track T \<or> POSTHOG_API_KEY T = [] then (False, d)
      else let (r, d') = current_settings T d in (is_emitting r, d'))"

text \<open>\<open>{**props, k: v}\<close>.\<close>

definition with_key :: "string \<Rightarrow> json \<Rightarrow> blob \<Rightarrow> blob" where
  "with_key k v props =
     (if k \<in> fst ` set props then map (\<lambda>(i, x). (i, if i = k then v else x)) props else props @ [(k, v)])"

definition DEPLOYMENT_SELF_HOSTED :: string where
  "DEPLOYMENT_SELF_HOSTED = ''self_hosted''"

definition capture :: "telemetry_env \<Rightarrow> string \<Rightarrow> blob option \<Rightarrow> telemetry_db \<Rightarrow> telemetry_db" where
  "capture T event properties d =
     (if do_not_track T \<or> POSTHOG_API_KEY T = [] then d
      else let (r, d') = current_settings T d
           in if \<not> is_emitting r \<or> te_instance r = [] then d'
              else if \<not> client_built T then d'
              else let props = with_key ''deployment'' (JStr DEPLOYMENT_SELF_HOSTED)
                         (with_key ''version'' (JStr (product_version T)) (case properties of None \<Rightarrow> [] | Some p \<Rightarrow> p))
                   in d'\<lparr>sent := sent d' @ [\<lparr>cap_event = event, cap_distinct = te_instance r, cap_props = props\<rparr>]\<rparr>)"

subsection \<open>Events\<close>

definition telemetry_enabled :: "telemetry_env \<Rightarrow> telemetry_db \<Rightarrow> telemetry_db" where
  "telemetry_enabled T = capture T ''telemetry_enabled'' None"

definition sorted_set :: "string list \<Rightarrow> json" where
  "sorted_set xs = JArr (map JStr (sort (remdups xs)))"

definition feed_created :: "telemetry_env \<Rightarrow> nat \<Rightarrow> string list \<Rightarrow> string \<Rightarrow> telemetry_db \<Rightarrow> telemetry_db" where
  "feed_created T n kinds_of surf =
     capture T ''feed_created'' (Some [(''source_count'', JNum (int n)), (''connector_kinds'', sorted_set kinds_of),
       (''surface'', JStr surf)])"

definition watch_created :: "telemetry_env \<Rightarrow> string list \<Rightarrow> nat \<Rightarrow> string \<Rightarrow> telemetry_db \<Rightarrow> telemetry_db" where
  "watch_created T kinds_of n surf =
     capture T ''watch_created'' (Some [(''action_kinds'', sorted_set kinds_of), (''feed_count'', JNum (int n)),
       (''surface'', JStr surf)])"

definition first_match :: "telemetry_env \<Rightarrow> string \<Rightarrow> string \<Rightarrow> telemetry_db \<Rightarrow> telemetry_db" where
  "first_match T kind surf = capture T ''first_match'' (Some [(''action_kind'', JStr kind), (''surface'', JStr surf)])"

definition quickstart_completed :: "telemetry_env \<Rightarrow> string \<Rightarrow> telemetry_db \<Rightarrow> telemetry_db" where
  "quickstart_completed T surf = capture T ''quickstart_completed'' (Some [(''surface'', JStr surf)])"

subsection \<open>The switch\<close>

definition SETTABLE_MODES :: "string set" where
  "SETTABLE_MODES = {telemetry_mode_value MODE_OFF, telemetry_mode_value MODE_ANONYMOUS}"

definition set_mode :: "telemetry_env \<Rightarrow> string \<Rightarrow> telemetry_db \<Rightarrow> (exn + telemetry_settings) \<times> telemetry_db" where
  "set_mode T mode d =
     (if mode \<notin> SETTABLE_MODES then (Inl ValueError, d)
      else let (r, d1) = current_settings T d;
               saved = r\<lparr>te_mode := mode\<rparr>;
               d2 = d1\<lparr>te_row := map_option (\<lambda>x. x\<lparr>te_mode := mode\<rparr>) (te_row d1)\<rparr>
           in (Inr saved, if is_anonymous saved \<and> is_off r then telemetry_enabled T d2 else d2))"

definition set_enabled :: "telemetry_env \<Rightarrow> bool \<Rightarrow> telemetry_db \<Rightarrow> (exn + telemetry_settings) \<times> telemetry_db" where
  "set_enabled T on =
     set_mode T (if on then telemetry_mode_value MODE_ANONYMOUS else telemetry_mode_value MODE_OFF)"

text \<open>One conditional UPDATE.\<close>

definition claim_heartbeat :: "instant \<Rightarrow> int \<Rightarrow> telemetry_db \<Rightarrow> bool \<times> telemetry_db" where
  "claim_heartbeat now min_interval d =
     (case te_row d of
        None \<Rightarrow> (False, d)
      | Some r \<Rightarrow>
          if te_mode r \<noteq> telemetry_mode_value MODE_OFF
             \<and> (case te_heartbeat r of None \<Rightarrow> True | Some t \<Rightarrow> t < now - min_interval)
          then (True, d\<lparr>te_row := Some (r\<lparr>te_heartbeat := Some now\<rparr>)\<rparr>) else (False, d))"

subsection \<open>The heartbeat command\<close>

definition HEARTBEAT_WINDOW :: int where
  "HEARTBEAT_WINDOW = seconds (24 * 3600)"

definition HEARTBEAT_MIN_INTERVAL :: int where
  "HEARTBEAT_MIN_INTERVAL = seconds (20 * 3600)"

text \<open>The group counts of the two services, as the rows of their GROUP BY.\<close>

definition count_by_kind :: "('r \<Rightarrow> string) \<Rightarrow> 'r list \<Rightarrow> blob" where
  "count_by_kind kind rows = map (\<lambda>k. (k, JNum (int (count_where (\<lambda>r. kind r = k) rows)))) (remdups (map kind rows))"

definition runs_by_state :: "instant \<Rightarrow> db \<Rightarrow> blob" where
  "runs_by_state since d =
     map (\<lambda>s. (run_state_value s, JNum (int (count_by_state_since since d s))))
       (filter (\<lambda>s. count_by_state_since since d s \<noteq> 0) all_run_states)"

record platform =
  pf_system :: string
  pf_machine :: string
  pf_engine :: bool
  pf_deliveries :: nat

definition heartbeat_props :: "platform \<Rightarrow> nat \<Rightarrow> instant \<Rightarrow> db \<Rightarrow> blob" where
  "heartbeat_props p accounts now d =
     [(''os'', JStr (pf_system p)), (''arch'', JStr (pf_machine p)), (''engine_reachable'', JBool (pf_engine p)),
      (''accounts'', JNum (int accounts)), (''feeds'', JNum (int (feed_count d))), (''watches'', JNum (int (watch_count d))),
      (''sources_by_kind'', JObj (count_by_kind so_kind (sources d))), (''actions_by_kind'', JObj (count_by_kind a_kind (actions d))),
      (''runs_by_state'', JObj (runs_by_state (now - HEARTBEAT_WINDOW) d)),
      (''matches'', JNum (int (count_by_state_since (now - HEARTBEAT_WINDOW) d SUCCEEDED))),
      (''deliveries'', JNum (int (pf_deliveries p)))]"

definition emit_telemetry_heartbeat :: "telemetry_env \<Rightarrow> platform \<Rightarrow> nat \<Rightarrow> db \<Rightarrow> instant \<Rightarrow> telemetry_db \<Rightarrow> telemetry_db" where
  "emit_telemetry_heartbeat T p accounts d now t =
     (case telemetry_on T t of
        (False, t1) \<Rightarrow> t1
      | (True, t1) \<Rightarrow>
          (case claim_heartbeat now HEARTBEAT_MIN_INTERVAL t1 of
             (False, t2) \<Rightarrow> t2
           | (True, t2) \<Rightarrow> capture T ''instance_heartbeat'' (Some (heartbeat_props p accounts now d)) t2))"

subsection \<open>Requests\<close>

text \<open>The surface a request declares, else what its user agent says.\<close>

definition request_surface :: "string option \<Rightarrow> string option \<Rightarrow> string" where
  "request_surface header agent =
     (let declared = lower (strip (case header of None \<Rightarrow> [] | Some h \<Rightarrow> h))
      in if declared \<in> surface_value ` {SURFACE_CLI, SURFACE_WEB, SURFACE_API} then declared
         else if prefix ''magpie-cli'' (case agent of None \<Rightarrow> [] | Some a \<Rightarrow> a) then surface_value SURFACE_CLI
         else surface_value SURFACE_API)"

definition is_owner :: "ulid \<Rightarrow> tenancy \<Rightarrow> bool" where
  "is_owner uid ten \<longleftrightarrow> (case primary_account_id_for uid ten of None \<Rightarrow> False | Some a \<Rightarrow> is_active_owner uid a ten)"

record telemetry_state =
  ts_mode :: string
  ts_can_set :: bool
  ts_emitting :: bool

definition telemetry_get :: "telemetry_env \<Rightarrow> ulid \<Rightarrow> tenancy \<Rightarrow> telemetry_db \<Rightarrow> telemetry_state answer \<times> telemetry_db" where
  "telemetry_get T uid ten d =
     (let (r, d1) = current_settings T d; (on, d2) = telemetry_on T d1
      in (Answer 200 \<lparr>ts_mode = te_mode r, ts_can_set = is_owner uid ten, ts_emitting = on\<rparr>, d2))"

text \<open>\<open>None\<close> is a body without a boolean \<open>enabled\<close>.\<close>

definition telemetry_post :: "telemetry_env \<Rightarrow> ulid \<Rightarrow> tenancy \<Rightarrow> bool option \<Rightarrow> telemetry_db
    \<Rightarrow> telemetry_state answer \<times> telemetry_db" where
  "telemetry_post T uid ten body d =
     (if \<not> is_owner uid ten then (Reject 403, d)
      else case body of
             None \<Rightarrow> (Reject 400, d)
           | Some on \<Rightarrow>
               (case set_enabled T on d of
                  (Inl e, d1) \<Rightarrow> (Crash e, d1)
                | (Inr r, d1) \<Rightarrow>
                    (let (emits, d2) = telemetry_on T d1
                     in (Answer 200 \<lparr>ts_mode = te_mode r, ts_can_set = True, ts_emitting = emits\<rparr>, d2))))"

subsection \<open>Consent\<close>

text \<open>What any process may do, in any order; the times of the heartbeats that were claimed are kept.\<close>

datatype telemetry_op =
    Consent bool
  | Ask_Settings
  | Claim_Heartbeat instant
  | Capture string "blob option"

fun telemetry_step :: "telemetry_env \<Rightarrow> telemetry_op \<Rightarrow> telemetry_db \<times> instant list \<Rightarrow> telemetry_db \<times> instant list" where
  "telemetry_step T (Consent on) (d, ts) = (snd (set_enabled T on d), ts)"
| "telemetry_step T Ask_Settings (d, ts) = (snd (telemetry_on T d), ts)"
| "telemetry_step T (Claim_Heartbeat now) (d, ts) =
     (case claim_heartbeat now HEARTBEAT_MIN_INTERVAL d of (won, d') \<Rightarrow> (d', if won then ts @ [now] else ts))"
| "telemetry_step T (Capture event props) (d, ts) = (capture T event props d, ts)"

definition muted :: "telemetry_env \<Rightarrow> telemetry_db \<Rightarrow> bool" where
  "muted T d \<longleftrightarrow> do_not_track T \<or> POSTHOG_API_KEY T = [] \<or> (case te_row d of None \<Rightarrow> False | Some r \<Rightarrow> is_off r)"

lemma capture_muted:
  "muted T d \<Longrightarrow> sent (capture T event props d) = sent d \<and> te_row (capture T event props d) = te_row d"
  by (auto simp: muted_def capture_def current_settings_def is_emitting_def Let_def split: option.splits)

lemma off_not_anonymous: "\<not> (is_off r \<and> is_anonymous r)"
  by (simp add: is_off_def is_anonymous_def)

text \<open>A muted instance stays so, and sends nothing, until somebody consents.\<close>

lemma muted_step:
  assumes "muted T d" "op \<noteq> Consent True \<or> do_not_track T \<or> POSTHOG_API_KEY T = []"
  shows "muted T (fst (telemetry_step T op (d, ts))) \<and> sent (fst (telemetry_step T op (d, ts))) = sent d"
proof (cases op)
  case (Consent on)
  then show ?thesis using assms
    by (auto simp: muted_def set_enabled_def set_mode_def current_settings_def telemetry_enabled_def capture_def SETTABLE_MODES_def
        is_off_def is_anonymous_def Let_def split: option.splits)
next
  case Ask_Settings
  then show ?thesis using assms(1)
    by (auto simp: muted_def telemetry_on_def current_settings_def Let_def split: option.splits prod.splits)
next
  case (Claim_Heartbeat now)
  then show ?thesis using assms(1)
    by (auto simp: muted_def claim_heartbeat_def is_off_def split: option.splits prod.splits)
next
  case (Capture event props)
  then show ?thesis using assms(1) capture_muted[OF assms(1), of event props] by (simp add: muted_def)
qed

lemma muted_history:
  "muted T d \<Longrightarrow> Consent True \<notin> set ops \<or> do_not_track T \<or> POSTHOG_API_KEY T = [] \<Longrightarrow>
     sent (fst (fold (telemetry_step T) ops (d, ts))) = sent d"
proof (induction ops arbitrary: d ts)
  case (Cons op ops)
  obtain d1 ts1 where s: "telemetry_step T op (d, ts) = (d1, ts1)" by fastforce
  have "muted T d1 \<and> sent d1 = sent d" using muted_step[OF Cons.prems(1), of op ts] Cons.prems(2) s by auto
  with Cons.IH[of d1 ts1] Cons.prems(2) s show ?case by auto
qed simp

text \<open>Heartbeats are spaced, and every event carries the id the row was made with.\<close>

definition spaced :: "instant list \<Rightarrow> telemetry_db \<Rightarrow> bool" where
  "spaced ts d \<longleftrightarrow> successively (\<lambda>x y. x + HEARTBEAT_MIN_INTERVAL < y) ts
     \<and> (ts \<noteq> [] \<longrightarrow> (\<exists>r. te_row d = Some r \<and> te_heartbeat r = Some (last ts)))"

definition one_identity :: "string \<Rightarrow> telemetry_db \<Rightarrow> bool" where
  "one_identity i d \<longleftrightarrow> (\<exists>r. te_row d = Some r \<and> te_instance r = i) \<and> (\<forall>e \<in> set (sent d). cap_distinct e = i)"

lemma capture_row: "te_row d = Some r \<Longrightarrow> te_row (capture T event props d) = Some r
    \<and> (\<forall>e \<in> set (sent (capture T event props d)). e \<in> set (sent d) \<or> cap_distinct e = te_instance r)"
  by (auto simp: capture_def current_settings_def Let_def)

lemma set_enabled_row: "te_row d = Some r \<Longrightarrow> \<exists>m. te_row (snd (set_enabled T on d)) = Some (r\<lparr>te_mode := m\<rparr>)
    \<and> m \<in> SETTABLE_MODES \<and> (\<forall>e \<in> set (sent (snd (set_enabled T on d))). e \<in> set (sent d) \<or> cap_distinct e = te_instance r)"
  using capture_row[of "d\<lparr>te_row := Some (r\<lparr>te_mode := telemetry_mode_value MODE_ANONYMOUS\<rparr>)\<rparr>"
      "r\<lparr>te_mode := telemetry_mode_value MODE_ANONYMOUS\<rparr>" T "''telemetry_enabled''" None]
  by (auto simp: set_enabled_def set_mode_def current_settings_def telemetry_enabled_def SETTABLE_MODES_def is_anonymous_def Let_def)

lemma telemetry_on_row: "te_row d = Some r \<Longrightarrow> snd (telemetry_on T d) = d"
  by (simp add: telemetry_on_def current_settings_def Let_def)

lemma identity_step:
  assumes "one_identity i d" "spaced ts d" "telemetry_step T op (d, ts) = (d', ts')"
  shows "one_identity i d' \<and> spaced ts' d'"
proof -
  obtain r where r: "te_row d = Some r" "te_instance r = i" using assms(1) by (auto simp: one_identity_def)
  show ?thesis
  proof (cases op)
    case (Consent on)
    then show ?thesis using assms r set_enabled_row[OF r(1), of T on] by (auto simp: one_identity_def spaced_def)
  next
    case Ask_Settings
    then show ?thesis using assms telemetry_on_row[OF r(1)] by simp
  next
    case (Claim_Heartbeat now)
    then show ?thesis using assms r
      by (auto simp: one_identity_def spaced_def claim_heartbeat_def successively_append_iff split: if_splits option.splits)
  next
    case (Capture event props)
    then show ?thesis using assms r capture_row[OF r(1), of T event props] by (auto simp: one_identity_def spaced_def)
  qed
qed

lemma identity_history:
  "one_identity i d \<Longrightarrow> spaced ts d \<Longrightarrow> fold (telemetry_step T) ops (d, ts) = (d', ts') \<Longrightarrow> one_identity i d' \<and> spaced ts' d'"
proof (induction ops arbitrary: d ts)
  case (Cons op ops)
  obtain d1 ts1 where s: "telemetry_step T op (d, ts) = (d1, ts1)" by fastforce
  with identity_step[OF Cons.prems(1,2) s] Cons.IH[of d1 ts1] Cons.prems(3) show ?case by simp
qed simp

text \<open>Only an active owner moves the switch through the API.\<close>

lemma telemetry_post_owner: "\<not> is_owner uid ten \<Longrightarrow> telemetry_post T uid ten body d = (Reject 403, d)"
  by (simp add: telemetry_post_def)

end
