(* ===== verification/Samples_Api.thy ===== *)
theory Samples_Api
  imports Samples_Feeds Samples_Auth Tenants Accounts Mailer Short_Links Telemetry
begin

text \<open>
  Concrete environments and tables for the scoped API, for signing up, for the mail queue behind the
  waitlist, for short links and for telemetry.
\<close>

subsection \<open>The API\<close>

definition sample_api :: api_env where
  "sample_api = \<lparr>ap_env = sample_env, ap_sources = sample_source_env, ap_adapter = (\<lambda>_. None), ap_payload = Some,
     ap_str = (\<lambda>_. []), ap_fromiso = (\<lambda>_. None)\<rparr>"

lemma sample_ids: "n < 20 \<Longrightarrow> Suc n \<in> Suc ` {..<20}"
  by simp

lemma sample_api_tables: "tables_ok (ap_env sample_api) sample_db"
proof -
  have "{1, 3, 4, 5, 6} \<subseteq> Suc ` {..<20}"
    using sample_ids[of 0] sample_ids[of 2] sample_ids[of 3] sample_ids[of 4] sample_ids[of 5] by simp
  then show ?thesis
    by (simp add: tables_ok_def ids_ok_def sample_api_def sample_db_def sample_watch_def sample_subscription_def
        sample_head_def sample_digest_def sample_feed_def)
qed

subsection \<open>Accounts\<close>

definition sample_members :: accounts_env where
  "sample_members = \<lparr>account_mint = Suc, make_password = (\<lambda>pw. case pw of None \<Rightarrow> ''!'' | Some s \<Rightarrow> CHR ''#'' # s),
     check_password = (\<lambda>s h. h = CHR ''#'' # s), email_valid = (\<lambda>_. True), password_valid = (\<lambda>_. True)\<rparr>"

definition sample_tenancy :: tenancy where
  "sample_tenancy = \<lparr>members = [], tenants = [], profiles = [], t_mints = 0\<rparr>"

definition sample_session :: "tenancy \<times> auth_db" where
  "sample_session = (sample_tenancy, sample_accounts)"

lemma sample_tenancy_ok: "tenancy_ok sample_members (fst sample_session)"
  by (simp add: tenancy_ok_def sample_members_def sample_tenancy_def sample_session_def)

subsection \<open>Mail\<close>

definition sample_mail :: mail_env where
  "sample_mail = \<lparr>EMAIL_SEND_MAX_ATTEMPTS = 3, EMAIL_SEND_STALE_SECONDS = 600, EMAIL_SEND_RETRY_SECONDS = 60,
     EMAIL_RENDER_URL = ''http://render'', MARKETING_BASE_URL = ''https://site/'', mail_mint = Suc,
     id_text = (\<lambda>i. replicate i CHR ''x''),
     render_post = (\<lambda>_ _ _ _. Inr (JObj [(''success'', JBool True), (''html'', JStr ''h''), (''plainText'', JStr ''t'')])),
     backend_send = (\<lambda>_ _ _ _ _. None), error_text = (\<lambda>_. ''e''), mail_clock = (\<lambda>_. 0)\<rparr>"

definition sample_mails :: mail_db where
  "sample_mails = \<lparr>emails = [], signups = [], outbox = [], minted = 0, tried = 0\<rparr>"

lemma sample_mail_laws: "mail_laws sample_mail"
  by (simp add: mail_laws_def sample_mail_def inj_def)

lemma sample_mails_ok: "waitlist_ok sample_mail sample_mails" "mail_table sample_mail sample_mails"
  by (simp_all add: waitlist_ok_def mail_table_def sample_mail_laws sample_mails_def)

subsection \<open>Links\<close>

definition sample_links :: link_env where
  "sample_links = \<lparr>link_mint = Suc, randbelow = (\<lambda>n k. n mod k), ip_hmac = (\<lambda>ip. CHR ''#'' # ip), link_text = (\<lambda>i. replicate i CHR ''x''),
     SHORTLINK_TRUST_CF_HEADERS = False\<rparr>"

definition sample_link :: short_link where
  "sample_link = \<lparr>sl_id = 1, sl_code = ''abc'', sl_url = ''https://site/''\<rparr>"

definition sample_hit_request :: http_request where
  "sample_hit_request = \<lparr>hr_method = ''GET'', hr_meta = (\<lambda>k. if k = ''REMOTE_ADDR'' then Some ''9.9.9.9'' else None)\<rparr>"

definition sample_link_db :: link_db where
  "sample_link_db = \<lparr>links = [sample_link], clicks = [], link_draws = 1, random_draws = 0\<rparr>"

lemmas sample_link_defs = sample_links_def sample_link_def sample_hit_request_def sample_link_db_def

text \<open>Two hits of one visitor that overlap, and a third one a minute later.\<close>

definition sample_hits :: "hit_event list" where
  "sample_hits = (let hit = (True, sample_link, sample_hit_request)
     in [Arrive hit 0, Arrive hit 1, Land 0 2 False, Land 0 3 False, Arrive hit (seconds 60), Land 0 (seconds 61) False])"

definition sample_hit_world :: "(string \<Rightarrow> (unit \<times> instant) option) hit_world" where
  "sample_hit_world = \<lparr>hw_flying = [], hw_db = sample_link_db, hw_cache = Map.empty\<rparr>"

lemma sample_hash: "visitor_hash sample_links sample_hit_request = ''#9.9.9.9''"
  by (simp add: visitor_hash_def click_ip_def meta_or_def sample_links_def sample_hit_request_def)

lemma sample_hits_overlap: "overlap_at_most sample_links table_cache 2 1 ''#9.9.9.9'' sample_hits sample_hit_world"
  by (simp add: sample_hits_def sample_hit_world_def Let_def sample_hash in_flight_def sample_link_def table_cache_def
      count_where_append seconds_def CLICK_DEDUP_WINDOW_SECONDS_def)

lemma sample_referer: "referer_origin (meta_or ''HTTP_REFERER'' sample_hit_request) = Inr []"
  by (simp add: referer_origin_def meta_or_def sample_hit_request_def text_eval url_eval)

text \<open>The bound is met: two overlapping first hits of a visitor are both written.\<close>

lemma double_write: "clicks_of 1 ''#9.9.9.9'' (hw_db (hits_run sample_links table_cache sample_hits sample_hit_world)) = 2"
  by (simp add: hits_run_def sample_hits_def sample_hit_world_def Let_def sample_hash sample_link_def table_cache_def
      count_where_append seconds_def CLICK_DEDUP_WINDOW_SECONDS_def write_click_def sample_referer clicks_of_def sample_link_db_def)


subsection \<open>Telemetry\<close>

definition sample_telemetry :: telemetry_env where
  "sample_telemetry = \<lparr>new_instance_id = (\<lambda>n. ''id'' @ replicate n CHR ''x''), DO_NOT_TRACK = None, POSTHOG_API_KEY = ''key'',
     client_built = True, product_version = ''1.0''\<rparr>"

definition sample_telemetry_off :: telemetry_db where
  "sample_telemetry_off = \<lparr>te_row = Some \<lparr>te_mode = ''off'', te_instance = ''id'', te_heartbeat = None\<rparr>, te_uuids = 1, sent = []\<rparr>"

lemma sample_telemetry_identity: "one_identity ''id'' sample_telemetry_off"
  by (simp add: one_identity_def sample_telemetry_off_def)

lemma sample_telemetry_muted: "muted sample_telemetry sample_telemetry_off"
  by (simp add: muted_def is_off_def sample_telemetry_off_def)

end
