(* ===== verification/Union_Errors.thy ===== *)
theory Union_Errors
  imports Urls "HOL-Library.Sublist"
begin

text \<open>
  What an operator is shown of a failed validation: \<open>clean_union_errors\<close> of the schema's \_unions.py strips
  the machinery of the extensible unions out of pydantic's error list, common/pydantic\_errors.py renders
  it per path. A segment of a location is a name or an index.
\<close>

datatype seg = Seg_Name string | Seg_Index int

record union_error =
  ue_type :: "string option"
  ue_msg :: string
  ue_loc :: "seg list"

definition TAGGED_UNION_LOC_PREFIX :: string where
  "TAGGED_UNION_LOC_PREFIX = ''tagged-union[''"

definition PLUGIN_MEMBER_LOC_NAMES :: "string set" where
  "PLUGIN_MEMBER_LOC_NAMES = {''PluginActionWire'', ''PluginActionInput'', ''PluginRunWire'', ''PluginSourceSpec''}"

definition BUILTIN_KIND_REJECTION_HINT :: string where
  "BUILTIN_KIND_REJECTION_HINT = ''is a built-in kind; it must validate as its typed union member''"

definition is_tagged :: "seg \<Rightarrow> bool" where
  "is_tagged s \<longleftrightarrow> (case s of Seg_Name n \<Rightarrow> prefix TAGGED_UNION_LOC_PREFIX n | Seg_Index _ \<Rightarrow> False)"

definition is_member :: "seg \<Rightarrow> bool" where
  "is_member s \<longleftrightarrow> (case s of Seg_Name n \<Rightarrow> n \<in> PLUGIN_MEMBER_LOC_NAMES | Seg_Index _ \<Rightarrow> False)"

definition is_union_marker :: "seg \<Rightarrow> bool" where
  "is_union_marker s \<longleftrightarrow> is_tagged s \<or> is_member s"

definition union_prefix :: "seg list \<Rightarrow> seg list" where
  "union_prefix loc = takeWhile (\<lambda>s. \<not> is_union_marker s) loc"

definition builtin_prefixes :: "union_error list \<Rightarrow> seg list set" where
  "builtin_prefixes errors =
     (\<lambda>e. union_prefix (ue_loc e)) ` set (filter (\<lambda>e. sublist BUILTIN_KIND_REJECTION_HINT (ue_msg e)) errors)"

definition stripped_loc :: "nat \<Rightarrow> seg list \<Rightarrow> seg list" where
  "stripped_loc boundary loc =
     map snd (filter (\<lambda>(i, s). \<not> (is_tagged s \<or> (i = boundary \<and> is_member s))) (enumerate 0 loc))"

text \<open>\<open>None\<close> is an error that is left out.\<close>

definition clean_error :: "seg list set \<Rightarrow> union_error \<Rightarrow> union_error option" where
  "clean_error builtin e =
     (if ue_type e \<in> {Some ''union_tag_invalid'', Some ''union_tag_not_found''}
         \<and> ue_loc e \<noteq> [] \<and> is_union_marker (last (ue_loc e)) then None
      else let pre = union_prefix (ue_loc e); boundary = length pre;
               from_fallback = (boundary < length (ue_loc e) \<and> is_member (ue_loc e ! boundary))
           in if from_fallback \<and> pre \<in> builtin then None
              else Some (e\<lparr>ue_loc := stripped_loc boundary (ue_loc e)\<rparr>))"

definition clean_union_errors :: "union_error list \<Rightarrow> union_error list" where
  "clean_union_errors errors = List.map_filter (clean_error (builtin_prefixes errors)) errors"

fun path_parts :: "bool \<Rightarrow> seg list \<Rightarrow> string" where
  "path_parts started [] = []"
| "path_parts started (Seg_Index i # ss) = ''['' @ dec_int i @ '']'' @ path_parts True ss"
| "path_parts started (Seg_Name n # ss) = (if started then CHR ''.'' # n else n) @ path_parts True ss"

definition loc_to_path :: "seg list \<Rightarrow> string" where
  "loc_to_path loc = (if path_parts False loc = [] then ''__root__'' else path_parts False loc)"

text \<open>\<open>setdefault(path, []).append(msg)\<close> on a dict that keeps its order.\<close>

fun append_at :: "string \<Rightarrow> string \<Rightarrow> (string \<times> string list) list \<Rightarrow> (string \<times> string list) list" where
  "append_at k m [] = [(k, [m])]"
| "append_at k m ((i, ms) # rest) = (if i = k then (i, ms @ [m]) # rest else (i, ms) # append_at k m rest)"

definition pydantic_errors_to_drf :: "union_error list \<Rightarrow> (string \<times> string list) list" where
  "pydantic_errors_to_drf errors =
     fold (\<lambda>e. append_at (loc_to_path (ue_loc e)) (ue_msg e)) (clean_union_errors errors) []"

subsection \<open>Facts\<close>

lemma union_prefix_clean: "s \<in> set (union_prefix loc) \<Longrightarrow> \<not> is_union_marker s"
  by (auto simp: union_prefix_def dest: set_takeWhileD)

lemma clean_error_prefix:
  "(union_prefix (ue_loc e) \<in> A \<longleftrightarrow> union_prefix (ue_loc e) \<in> B) \<Longrightarrow> clean_error A e = clean_error B e"
  by (simp add: clean_error_def Let_def)

lemma map_filter_cong: "(\<And>x. x \<in> set xs \<Longrightarrow> f x = g x) \<Longrightarrow> List.map_filter f xs = List.map_filter g xs"
  by (induction xs) (simp_all add: map_filter_simps split: option.split)

text \<open>
  Rows do not interfere: what is shown of the errors of one union instance is what would be shown had
  they come alone.
\<close>

lemma union_rows_independent:
  fixes errors p
  defines "own \<equiv> filter (\<lambda>e. union_prefix (ue_loc e) = p) errors"
  shows "clean_union_errors own = List.map_filter (clean_error (builtin_prefixes errors)) own"
proof -
  have "p \<in> builtin_prefixes own \<longleftrightarrow> p \<in> builtin_prefixes errors" by (auto simp: own_def builtin_prefixes_def)
  then show ?thesis unfolding clean_union_errors_def
    by (intro map_filter_cong clean_error_prefix) (simp add: own_def)
qed

text \<open>A failure of the typed branch, or of a plain union, is always shown.\<close>

lemma typed_errors_kept:
  assumes "e \<in> set errors" "ue_type e \<notin> {Some ''union_tag_invalid'', Some ''union_tag_not_found''} \<or> \<not> is_union_marker (last (ue_loc e))"
    and "\<not> (length (union_prefix (ue_loc e)) < length (ue_loc e) \<and> is_member (ue_loc e ! length (union_prefix (ue_loc e))))"
  shows "\<exists>e' \<in> set (clean_union_errors errors). ue_msg e' = ue_msg e \<and> ue_type e' = ue_type e"
proof -
  have "clean_error (builtin_prefixes errors) e =
      Some (e\<lparr>ue_loc := stripped_loc (length (union_prefix (ue_loc e))) (ue_loc e)\<rparr>)"
    using assms(2,3) by (auto simp: clean_error_def Let_def)
  with assms(1) show ?thesis by (force simp: clean_union_errors_def List.map_filter_def)
qed

lemma stripped_untagged: "s \<in> set (stripped_loc n loc) \<Longrightarrow> s \<in> set loc \<and> \<not> is_tagged s"
  by (auto simp: stripped_loc_def in_set_enumerate_eq)

end
