(* ===== verification/Renumber_Steps.thy ===== *)
theory Renumber_Steps
  imports Chain_Facts
begin

text \<open>
  \<open>_renumber\<close> writes each row on its own under a unique constraint on (account, path, rank) that the
  database may check row by row. The two phases never collide, whatever row a phase has reached.
\<close>

definition ranked :: "watch_action list \<Rightarrow> nat \<Rightarrow> (ulid \<times> nat) list" where
  "ranked ordered start = zip (map a_id ordered) [start..<start + length ordered]"

text \<open>The table after the first \<open>k\<close> rows of a phase.\<close>

definition first_phase :: "watch_action list \<Rightarrow> nat \<Rightarrow> db \<Rightarrow> watch_action list" where
  "first_phase ordered k d = set_ranks (take k (ranked ordered (renumber_offset ordered))) (actions d)"

definition second_phase :: "watch_action list \<Rightarrow> nat \<Rightarrow> db \<Rightarrow> watch_action list" where
  "second_phase ordered k d = set_ranks (take k (ranked ordered 0)) (first_phase ordered (length ordered) d)"

lemma renumber_phases: "actions (renumber ordered d) = second_phase ordered (length ordered) d"
  by (simp add: renumber_def second_phase_def first_phase_def ranked_def Let_def)

lemma ranked_nth: "i < length ordered \<Longrightarrow> ranked ordered s ! i = (a_id (ordered ! i), s + i)"
  by (simp add: ranked_def)

lemma length_ranked [simp]: "length (ranked ordered s) = length ordered"
  by (simp add: ranked_def)

lemma map_of_take_ranked:
  assumes "distinct (map a_id ordered)"
  shows "map_of (take k (ranked ordered s)) i = Some r \<longleftrightarrow>
    (\<exists>j < length ordered. j < k \<and> i = a_id (ordered ! j) \<and> r = s + j)"
proof -
  have "map fst (take k (ranked ordered s)) = take k (map a_id ordered)"
    by (simp add: ranked_def take_map[symmetric])
  then have dist: "distinct (map fst (take k (ranked ordered s)))"
    using assms by (simp add: distinct_take)
  have "map_of (take k (ranked ordered s)) i = Some r \<longleftrightarrow> (i, r) \<in> set (take k (ranked ordered s))"
    using dist by (rule map_of_eq_Some_iff)
  also have "\<dots> \<longleftrightarrow> (\<exists>j < length ordered. j < k \<and> (i, r) = ranked ordered s ! j)"
    by (auto simp: in_set_conv_nth)
  also have "\<dots> \<longleftrightarrow> (\<exists>j < length ordered. j < k \<and> i = a_id (ordered ! j) \<and> r = s + j)"
    by (auto simp: ranked_nth)
  finally show ?thesis .
qed

lemma set_ranks_keys:
  assumes keys: "distinct (map rank_key rows)" and ids: "distinct (map a_id rows)"
    and inj: "\<And>i j r. map_of rk i = Some r \<Longrightarrow> map_of rk j = Some r \<Longrightarrow> i = j"
    and apart: "\<And>x y r. x \<in> set rows \<Longrightarrow> y \<in> set rows \<Longrightarrow> a_account x = a_account y \<Longrightarrow> a_path x = a_path y \<Longrightarrow>
      map_of rk (a_id x) = Some r \<Longrightarrow> map_of rk (a_id y) = None \<Longrightarrow> a_rank y \<noteq> r"
  shows "distinct (map rank_key (set_ranks rk rows))"
proof -
  let ?f = "\<lambda>a. case map_of rk (a_id a) of None \<Rightarrow> a | Some k \<Rightarrow> a\<lparr>a_rank := k\<rparr>"
  have "inj_on (rank_key \<circ> ?f) (set rows)"
  proof (rule inj_onI)
    fix x y assume xy: "x \<in> set rows" "y \<in> set rows" and eq: "(rank_key \<circ> ?f) x = (rank_key \<circ> ?f) y"
    have same: "a_account x = a_account y" "a_path x = a_path y"
      using eq by (auto simp: rank_key_def split: option.splits)
    have "a_id x = a_id y \<or> rank_key x = rank_key y"
    proof (cases "map_of rk (a_id x)"; cases "map_of rk (a_id y)")
      fix k l assume k: "map_of rk (a_id x) = Some k" and l: "map_of rk (a_id y) = Some l"
      then have "k = l" using eq by (simp add: rank_key_def)
      with k l inj show ?thesis by blast
    next
      fix l assume "map_of rk (a_id x) = None" "map_of rk (a_id y) = Some l"
      with apart[OF xy(2,1) same[symmetric]] eq show ?thesis by (auto simp: rank_key_def)
    next
      fix k assume "map_of rk (a_id x) = Some k" "map_of rk (a_id y) = None"
      with apart[OF xy same] eq show ?thesis by (auto simp: rank_key_def)
    next
      assume "map_of rk (a_id x) = None" "map_of rk (a_id y) = None"
      with eq show ?thesis by simp
    qed
    then show "x = y" using keys ids xy by (auto simp: distinct_map dest: inj_onD)
  qed
  moreover have "distinct rows" using ids by (simp add: distinct_map)
  ultimately show ?thesis by (simp add: set_ranks_def distinct_map comp_def)
qed

lemma renumber_never_collides:
  assumes keys: "distinct (map rank_key (actions d))" and ids: "distinct (map a_id (actions d))"
    and ord: "distinct (map a_id ordered)" and chain: "set ordered = {a \<in> set (actions d). in_path acct path a}"
  shows "distinct (map rank_key (first_phase ordered k d))" "distinct (map rank_key (second_phase ordered k d))"
proof -
  let ?off = "renumber_offset ordered"
  have below: "a_rank a < ?off" if "a \<in> set ordered" for a
  proof -
    have "x \<in> set xs \<Longrightarrow> x \<le> foldr max xs 0" for x :: nat and xs by (induction xs) auto
    then show ?thesis using that by (auto simp: renumber_offset_def less_Suc_eq_le)
  qed
  have listed: "\<exists>j < length ordered. a = ordered ! j" if "a \<in> set (actions d)" "in_path acct path a" for a
  proof -
    have "a \<in> set ordered" using that chain by blast
    then show ?thesis by (auto simp: in_set_conv_nth)
  qed
  have home: "in_path acct path a" if "a \<in> set (actions d)" "a_id a = a_id (ordered ! j)" "j < length ordered" for a j
  proof -
    have "ordered ! j \<in> set ordered" using that(3) by simp
    then have "ordered ! j \<in> set (actions d)" "in_path acct path (ordered ! j)" using chain by blast+
    with that ids show ?thesis by (auto simp: distinct_map dest: inj_onD)
  qed
  have inj: "i = j" if "map_of (take m (ranked ordered s)) i = Some r" "map_of (take m (ranked ordered s)) j = Some r" for i j r m s
    using that by (auto simp: map_of_take_ranked[OF ord])
  have one: "distinct (map rank_key (first_phase ordered m d))" for m
    unfolding first_phase_def
  proof (rule set_ranks_keys[OF keys ids inj])
    fix x y r assume xy: "x \<in> set (actions d)" "y \<in> set (actions d)" "a_account x = a_account y" "a_path x = a_path y"
      "map_of (take m (ranked ordered ?off)) (a_id x) = Some r"
    then obtain j where j: "j < length ordered" "a_id x = a_id (ordered ! j)" "r = ?off + j"
      by (auto simp: map_of_take_ranked[OF ord])
    have "in_path acct path y" using home[OF xy(1) j(2,1)] xy(3,4) by (simp add: in_path_def)
    then have "a_rank y < ?off" using below xy(2) chain by blast
    then show "a_rank y \<noteq> r" using j(3) by simp
  qed
  then show "distinct (map rank_key (first_phase ordered k d))" .
  let ?rows = "first_phase ordered (length ordered) d"
  have rows: "\<exists>z \<in> set (actions d). a_id y = a_id z \<and> a_account y = a_account z \<and> a_path y = a_path z
      \<and> (\<forall>j < length ordered. a_id y = a_id (ordered ! j) \<longrightarrow> a_rank y = ?off + j)" if y: "y \<in> set ?rows" for y
  proof -
    obtain z where z: "z \<in> set (actions d)" "y = (case map_of (take (length ordered) (ranked ordered ?off)) (a_id z) of
        None \<Rightarrow> z | Some r \<Rightarrow> z\<lparr>a_rank := r\<rparr>)"
      using y by (auto simp: first_phase_def set_ranks_def)
    have "a_rank y = ?off + j" if j: "j < length ordered" "a_id y = a_id (ordered ! j)" for j
    proof -
      have "a_id z = a_id (ordered ! j)" using j(2) z(2) by (auto split: option.splits)
      then have "map_of (take (length ordered) (ranked ordered ?off)) (a_id z) = Some (?off + j)"
        unfolding map_of_take_ranked[OF ord] using j(1) by auto
      with z(2) show ?thesis by simp
    qed
    moreover have "a_id y = a_id z \<and> a_account y = a_account z \<and> a_path y = a_path z"
      using z(2) by (auto split: option.splits)
    ultimately show ?thesis using z(1) by blast
  qed
  show "distinct (map rank_key (second_phase ordered k d))"
    unfolding second_phase_def
  proof (rule set_ranks_keys[OF one _ inj])
    show "distinct (map a_id ?rows)" using ids by (simp add: first_phase_def)
  next
    fix x y r assume xy: "x \<in> set ?rows" "y \<in> set ?rows" "a_account x = a_account y" "a_path x = a_path y"
      and hit: "map_of (take k (ranked ordered 0)) (a_id x) = Some r"
      and miss: "map_of (take k (ranked ordered 0)) (a_id y) = None"
    obtain j where j: "j < length ordered" "j < k" "a_id x = a_id (ordered ! j)" "r = j"
      using hit by (auto simp: map_of_take_ranked[OF ord])
    obtain x' where x': "x' \<in> set (actions d)" "a_id x = a_id x'" "a_account x = a_account x'" "a_path x = a_path x'"
      using rows[OF xy(1)] by blast
    obtain y' where y': "y' \<in> set (actions d)" "a_id y = a_id y'" "a_account y = a_account y'" "a_path y = a_path y'"
      and rank: "\<forall>j < length ordered. a_id y = a_id (ordered ! j) \<longrightarrow> a_rank y = ?off + j"
      using rows[OF xy(2)] by blast
    have "in_path acct path x'" using home[OF x'(1) _ j(1)] j(3) x'(2) by simp
    then have "in_path acct path y'" using xy(3,4) x' y' by (simp add: in_path_def)
    then obtain l where l: "l < length ordered" "y' = ordered ! l" using listed[OF y'(1)] by blast
    have "\<not> l < k"
    proof
      assume "l < k"
      then have "map_of (take k (ranked ordered 0)) (a_id y) = Some l"
        unfolding map_of_take_ranked[OF ord] using l y'(2) by auto
      with miss show False by simp
    qed
    moreover have "a_rank y = ?off + l" using rank l y'(2) by simp
    ultimately show "a_rank y \<noteq> r" using j(2,4) by simp
  qed
qed

end
