(* ===== verification/Spec2Isabelle.thy ===== *)
theory Spec2Isabelle
  imports Samples_Connectors Samples_Auth Samples_Api Union_Errors Renumber_Steps
begin

text \<open>
  A development beside the listening kit's server (apps/core) and its shared schema package
  (packages/openmagpie-schema).

  The program. Operators subscribe \<^emph>\<open>watches\<close> to \<^emph>\<open>feeds\<close>. A poll pass reads the sources of each due
  feed through connectors and appends what is new to the feed's item log. A trigger pass moves each
  active watch forward over the log of its feeds and enqueues, per new item, a \<^emph>\<open>run\<close> of the first
  action of the watch's chain. A drain pass claims due runs, executes their action and, when it
  succeeds, enqueues the same item at the next action. An action with a digest cadence is not drained:
  its runs gather behind a digest window, which a flush pass empties in slices. A backfill job runs a
  chosen action over past items, after deleting its earlier runs down the chain when it replaces.
  Reapers return work whose worker died. Every pass is a command that runs under a cache lock.

  State. The rows the services keep are records (Watch\_Models), a table is the list of its rows, and
  \<open>db\<close> holds the tables with the count of row ids drawn and of external calls made. A service method is
  a function from the state to a result and a state; \<open>exn + 'a\<close> is a call that may raise. Each SQL
  statement is one table operation of Prelude; a transaction that raises leaves the state as it was.
  Concurrent workers are sequences of such statements: Claim\_Queue and Run\_Concurrency interleave
  them without restriction. What is not in the repository is an argument: \<open>env\<close> has the settings, the
  plugin kinds, pydantic's parsing of a config and the executors of the actions; \<open>source_env\<close> and
  \<open>poll_env\<close> the connectors and the standard library functions on specs; \<open>cache_ops\<close> Django's cache
  under \<open>cache_laws\<close>; \<open>auth_env\<close> the settings of the credential services and OAuth Toolkit's revocation
  under \<open>toolkit_laws\<close>; \<open>accounts_env\<close>, \<open>mail_env\<close> and \<open>link_env\<close> those of accounts, mail and short links.

  Theories and the code they model.
  \<^item> Prelude: instants, JSON, errors, tables, batches; the lemmas on them. Pages: the locale
    \<open>newest_first\<close> of a list that is read by cursor, interpreted on each such list of the services.
  \<^item> Watch\_Enums (watch\_enums.py), Action\_Configs (watch\_actions/): the config classes, their validators,
    redaction and merge. Watch\_Models (watches/models/, feeds/models/, actions/protocol.py, run\_messages.py).
  \<^item> Run\_Windows (run\_windows.py): the optional time bounds of listings and backfills.
  \<^item> Run\_Queue, Run\_Table, Run\_Concurrency (services/runs/, \_run\_batches.py): the run queue; the
    invariant \<open>run_table\<close> and its preservation; the queue as an instance of the locale of Claim\_Queue,
    in which the laws of a compare-and-swap queue give the distinctness of claims and of settlements.
    The backfill queue is the other instance.
  \<^item> Digest\_Windows (services/digest.py): open, join, close; \<open>not_stranded\<close>.
  \<^item> Feed\_Items (feeds/services/feeds/\_items.py and the selects of the backfill): the item log.
  \<^item> Chain, Chain\_Facts, Renumber\_Steps (watches/registry.py, policy.py, services/watches/\_actions.py): the
    chain of a watch, edits and the two-phase renumbering under its unique constraint.
  \<^item> Deliveries, Watches (services/deliveries.py, services/watches/): audit rows and the watch aggregate.
  \<^item> Drain, Drain\_Facts (operations/run\_inputs.py, result\_enforce.py, advance.py, drain.py, process\_due\_runs);
    Flush, Flush\_Facts (operations/digest\_flush.py, process\_due\_digests); Pipeline: the invariants
    \<open>sound\<close> over both passes; Trigger (operations/trigger.py, process\_due\_watches); Backfill,
    Backfill\_Facts (operations/backfill.py, services/backfills.py, views\_backfill.py).
  \<^item> Source\_Specs (configs.py), Sources (feeds/services/sources.py, policy.py, registry.py), Polling
    (feeds/services/polling.py, \_reddit\_batch.py, poll\_due\_feeds).
  \<^item> Urls: the standard library on texts, addresses and URLs. Ssrf (common/ssrf.py, safe\_http.py): the
    destination check and the pinned connection, over a log of lookups and connections in which every lookup
    may answer differently (\<open>cleared\<close> is what such a log must show). Fetching (sources/connectors/base.py,
    challenge\_bypass.py): capped reads, untrusted fetches, the sidecar.
  \<^item> Engines (engine/): prompts, response schemas, the judging and extracting calls. Executors
    (watches/actions/): the four built-in actions, the preparation of the LLM ones, their registry.
  \<^item> Payload\_Text, Reddit\_Connector, Rss\_Connector, Hackernews\_Connector, Twitter\_Connector,
    Github\_Connectors (sources/connectors/): the payload of an upstream entry and the poll of each
    service. Connectors (sources/registry.py, payload\_registry.py): the connectors behind the interface
    of a poll, as instances of the locale \<open>mark_respecting\<close>; registration; what a poll of a source makes
    of what its connector yields.
  \<^item> Cache, Locks (common/locks.py), Single\_Flight (common/commands.py, clear\_job\_locks, stop\_due\_jobs).
  \<^item> Auth\_Tokens (auth\_api: tokens, authentication, views), Device\_Sessions (the device flow). Accounts
    (accounts/, auth\_api/operations/signup.py, the sign-up and login views, seed\_quickstart's account step):
    users, accounts, profiles, the invariant \<open>tenancy_ok\<close> over every history of them.
  \<^item> Feeds (feeds/services/feeds/\_service.py): the feed aggregate. Rest\_Feeds, Rest\_Watches (feeds/views.py,
    watches/views*.py with their serializers): the endpoints as functions of the account a request is
    scoped to. Rest\_Api: the routes, as the requests that read and those that write. Tenants: what a
    request may read (\<open>own\<close>) and touch (\<open>confined\<close>), for every endpoint.
  \<^item> Row\_Queue: the locale of a queue of claimed rows, and Mailer (mailer/, common/email.py,
    waitlist/services/), which is an instance of it: mail, its drain, the waitlist's welcome.
  \<^item> Short\_Links (links/): codes, redirects, counted clicks; \<open>hit_step\<close> interleaves hits whose cache
    add is a lookup and a store. Telemetry (telemetry/): the switch, the choke point
    of every event, the heartbeat. Union\_Errors (\_unions.py, pydantic\_errors.py): what is shown of a failed validation.
  \<^item> Samples, Samples\_Feeds, Samples\_Connectors, Samples\_Auth, Samples\_Api: the concrete states the witnesses run on.

  What the properties show, in the order below: the run queue hands every attempt to one worker and
  settles it once, whatever the interleaving; accounts are isolated and belong to who signed up; claims, reaps and enqueues are exact; drain and flush keep
  the invariants, advance exactly the successes and lose nothing on errors; windows close only when
  drained; the chain's edits are exact and collision-free; triggers are exact and idempotent; backfills
  do what their preview says; locks exclude; sources reconcile; polls lose nothing and stay in bounds;
  specs have one canonical form; the walks of the connectors miss nothing in their depth; what an item
  makes the server itself connect to is outside its network; webhook outcomes are exact; secrets survive a masked edit; credentials reach their owner only and
  stop working when they must; an address is welcomed once, a visitor
  counted once unless its hits overlap, and telemetry obeys its switch.

  Recursion. Every function is total. The batch loops recurse on the list that is left; the flush loop
  has fuel, the number of pending runs of its action plus one: each slice that asks for more has settled
  at least one of them (\<open>slice_more_decreases\<close>), and more fuel changes nothing (\<open>flush_loop_more_fuel\<close>).

  Not modelled: the command line client, which renders and calls the API; the framework's parsing of a body
  into declared fields and the display-only summaries of the wire; progress output and logging; the thread pool of the drain, whose effect is the
  interleavings; audit columns no operation reads; Unicode beyond the characters up to 0xFF in
  the string predicates; what the challenge-bypass sidecar connects to, which looks names up and follows
  redirects on its own.
\<close>

section \<open>The run queue\<close>

text \<open>C1: Whatever interleaving of claims, completions, reaps, enqueues, batch writes and deletes any number
  of workers perform on the run table, no attempt of a run is claimed twice, no attempt is completed
  twice, only an attempt that was claimed is completed, and a run is claimed at most up to the cap.\<close>

theorem run_claims_exclusive:
  assumes "queue_inv E d"
  shows "distinct (claims (fst (exec (run_step E) es d)))
    \<and> distinct (settlements (fst (exec (run_step E) es d)))
    \<and> (\<forall>t \<in> set (settlements (fst (exec (run_step E) es d))).
          t \<in> set (claims (fst (exec (run_step E) es d))) \<or> (run_live d (fst t) \<and> run_tries E d (fst t) = snd t))
    \<and> (\<forall>i. length (filter (\<lambda>t. fst t = i) (claims (fst (exec (run_step E) es d)))) \<le> MAX_ATTEMPTS E - run_tries E d i)"
proof -
  obtain os d' where ex: "exec (run_step E) es d = (os, d')" by (cases "exec (run_step E) es d")
  have "t \<in> set (claims os) \<or> (run_live d (fst t) \<and> run_tries E d (fst t) = snd t)" if "t \<in> set (settlements os)" for t
    using rq.settled_after[OF assms ex, of "fst t" "snd t"] that by auto
  with rq.claims_distinct[OF assms ex] rq.settlements_distinct[OF assms ex] rq.claims_bounded[OF assms ex]
  show ?thesis unfolding ex fst_conv by blast
qed

theorem run_claims_exclusive_witness:
  "distinct (claims (fst (exec (run_step sample_env)
     [Claim 10 (sample_run 9 5 7), Claim 10 (sample_run 9 5 7), Reap 2000000000, Claim 3000000000 (sample_run 9 5 7)] sample_db)))"
  by (rule run_claims_exclusive[OF sample_queue, THEN conjunct1])

text \<open>C2: Every interleaving of the run table's writers keeps its type invariant: unique run ids and unique
  (account, watch, action, item) keys, \<open>completed_at\<close> set exactly on runs at rest, attempts within the
  cap, a started running run.\<close>

theorem run_table_any_interleaving:
  "queue_inv E d \<Longrightarrow> run_table E (snd (exec (run_step E) es d))"
  using rq.inv_exec[of E d es] by (simp add: queue_inv_def)

theorem run_table_any_interleaving_witness:
  "run_table sample_env (snd (exec (run_step sample_env) [Claim 10 (sample_run 9 5 7), Reap 2000000000] sample_db))"
  by (rule run_table_any_interleaving) simp

text \<open>C3: \<open>claim_due\<close> run to its end claims exactly the due runs, those pending or failed with attempts
  left, whose schedule has come and whose action has no digest window: it yields them in schedule order,
  each now running, started at the given time, with one attempt more, changes no other row, and leaves
  nothing due.\<close>

theorem claim_due_exact:
  assumes "run_table E d"
  shows "fst (claim_due E ts d) = map (claim_row ts) (order_by schedule_key (due_runs E d ts))
    \<and> runs (snd (claim_due E ts d)) = map (\<lambda>r.
        if r_state r \<in> {PENDING, FAILED} \<and> r_attempts r < MAX_ATTEMPTS E \<and> null_le (r_scheduled r) ts
          \<and> \<not> list_ex (\<lambda>w. dw_account w = r_account r \<and> dw_action w = r_action r) (windows d)
        then claim_row ts r else r) (runs d)
    \<and> length (fst (claim_due E ts d)) = count_due E d ts
    \<and> due_runs E (snd (claim_due E ts d)) ts = []"
proof -
  note eq = claim_due_eq[OF run_tableD(2)[OF assms], of E ts]
  have "\<not> due_run E (snd (claim_due E ts d)) ts r" if r: "r \<in> set (runs (snd (claim_due E ts d)))" for r
  proof -
    obtain q where q: "q \<in> set (runs d)" "r = (if due_run E d ts q then claim_row ts q else q)"
      using r by (auto simp: eq in_update_where)
    have "due_run E (snd (claim_due E ts d)) ts q = due_run E d ts q" by (simp add: eq due_run_def has_window_def)
    with q(2) show ?thesis by (auto simp: due_run_def split: if_splits)
  qed
  then have "due_runs E (snd (claim_due E ts d)) ts = []" by (simp add: due_runs_def filter_empty_conv)
  moreover have due: "due_run E d ts r \<longleftrightarrow> r_state r \<in> {PENDING, FAILED} \<and> r_attempts r < MAX_ATTEMPTS E \<and> null_le (r_scheduled r) ts
      \<and> \<not> list_ex (\<lambda>w. dw_account w = r_account r \<and> dw_action w = r_action r) (windows d)" for r
    by (simp add: due_run_def has_window_def state_sets)
  ultimately show ?thesis unfolding due[symmetric]
    by (simp add: eq claim_candidates_def update_where_def count_due_def)
qed

theorem claim_due_exact_witness: "length (fst (claim_due sample_env 10 sample_db)) = count_due sample_env sample_db 10"
  by (rule claim_due_exact[OF sample_run_table, THEN conjunct2, THEN conjunct2, THEN conjunct1])

text \<open>C4: The reaper resets every run stuck running past the limit and no other: to \<open>FAILED\<close>, at rest when
  its attempts are used up and claimable again otherwise. It returns how many, and none is left stale.\<close>

theorem reap_exact:
  "fst (reap_stale E now d) = count_where (\<lambda>r. r_state r = RUNNING \<and> null_lt (r_started r) (now - seconds (STALE_SECONDS E))) (runs d)
   \<and> runs (snd (reap_stale E now d)) = map (\<lambda>r. if r_state r = RUNNING \<and> null_lt (r_started r) (now - seconds (STALE_SECONDS E)) then
        (if MAX_ATTEMPTS E \<le> r_attempts r
         then r\<lparr>r_state := FAILED, r_error := TIMED_OUT_EXHAUSTED, r_completed := Some now\<rparr>
         else r\<lparr>r_state := FAILED, r_error := TIMED_OUT, r_completed := None\<rparr>) else r) (runs d)
   \<and> filter (stale_run E now) (runs (snd (reap_stale E now d))) = []"
proof (intro conjI)
  show "runs (snd (reap_stale E now d)) = map (\<lambda>r. if r_state r = RUNNING \<and> null_lt (r_started r) (now - seconds (STALE_SECONDS E)) then
        (if MAX_ATTEMPTS E \<le> r_attempts r
         then r\<lparr>r_state := FAILED, r_error := TIMED_OUT_EXHAUSTED, r_completed := Some now\<rparr>
         else r\<lparr>r_state := FAILED, r_error := TIMED_OUT, r_completed := None\<rparr>) else r) (runs d)"
    unfolding reap_stale_eq snd_conv by (simp add: update_where_def reap_row_def stale_run_def)
  show "filter (stale_run E now) (runs (snd (reap_stale E now d))) = []"
    using reap_leaves_none[of _ E now d] by (auto simp: filter_empty_conv)
qed (simp add: reap_stale_eq stale_run_def[abs_def])

text \<open>A completion wins once: after one completion of an attempt succeeded with a resting outcome, every
  later completion of the same attempt, with whatever outcome, is refused and changes nothing.\<close>

theorem completion_wins_once:
  assumes "complete E acct r st res err dlv knd now d = (Inr (Some r'), d')" "st \<noteq> RUNNING"
  shows "complete E acct r st2 res2 err2 dlv2 knd2 now2 d' = (Inr None, d')"
proof -
  have "r_account r = acct" using assms(1) by (auto simp: complete_eq split: if_splits)
  moreover have "\<not> held r d'"
    using held_after_complete[of E acct r st res err dlv knd now d r' r] assms by simp
  ultimately show ?thesis by (simp add: complete_lost)
qed

theorem completion_wins_once_witness:
  "complete sample_env 100 (claim_row 10 (sample_run 9 5 7)) FAILED [] [] blank None 30
     (snd (complete sample_env 100 (claim_row 10 (sample_run 9 5 7)) SUCCEEDED [] [] blank None 20
        (snd (claim_one sample_env 10 (sample_run 9 5 7) sample_db))))
   = (Inr None, snd (complete sample_env 100 (claim_row 10 (sample_run 9 5 7)) SUCCEEDED [] [] blank None 20
        (snd (claim_one sample_env 10 (sample_run 9 5 7) sample_db))))"
proof -
  let ?r = "claim_row 10 (sample_run 9 5 7)"
  let ?d = "snd (claim_one sample_env 10 (sample_run 9 5 7) sample_db)"
  have "runs ?d = [?r]" by (simp add: claim_one_eq claim_guard_def)
  then have "held ?r ?d" by (simp add: held_iff complete_guard_def)
  then obtain r' where "complete sample_env 100 ?r SUCCEEDED [] [] blank None 20 ?d =
      (Inr (Some r'), snd (complete sample_env 100 ?r SUCCEEDED [] [] blank None 20 ?d))"
    by (simp add: complete_eq)
  from completion_wins_once[OF this] show ?thesis by simp
qed

text \<open>C5: Enqueueing a list of items creates a pending run for exactly the items the action has none for yet,
  appends them and touches no existing run, returns how many, and doing it again creates nothing. The
  chunking of the list does not show.\<close>

theorem enqueue_many_exact:
  assumes "distinct ids"
  shows "enqueue_many E acct wat act kind sched ids d =
      (Inr (length (fresh_items acct wat act ids d)),
       d\<lparr>drawn := drawn d + length (fresh_items acct wat act ids d),
         runs := runs d @ new_rows E acct wat act kind sched (fresh_items acct wat act ids d) (drawn d)\<rparr>)
    \<and> run_keys (snd (enqueue_many E acct wat act kind sched ids d)) =
      run_keys d \<union> (\<lambda>i. (acct, wat, act, i)) ` set ids
    \<and> enqueue_many E acct wat act kind sched' ids (snd (enqueue_many E acct wat act kind sched ids d)) =
      (Inr 0, snd (enqueue_many E acct wat act kind sched ids d))"
proof -
  let ?d' = "snd (enqueue_many E acct wat act kind sched ids d)"
  have eq: "enqueue_many E acct wat act kind sched ids d =
      (Inr (length (fresh_items acct wat act ids d)),
       d\<lparr>drawn := drawn d + length (fresh_items acct wat act ids d),
         runs := runs d @ new_rows E acct wat act kind sched (fresh_items acct wat act ids d) (drawn d)\<rparr>)"
    using assms by (simp add: enqueue_many_eq Let_def)
  have keys: "run_keys ?d' = run_keys d \<union> (\<lambda>i. (acct, wat, act, i)) ` set ids"
    by (auto simp: eq run_keys_append run_key_new_rows fresh_items_def)
  have "fresh_items acct wat act ids ?d' = []" unfolding fresh_items_def keys by (auto simp: filter_empty_conv)
  then have "enqueue_many E acct wat act kind sched' ids ?d' = (Inr 0, ?d')"
    using assms by (simp add: enqueue_many_eq Let_def)
  with eq keys show ?thesis by blast
qed

theorem enqueue_many_exact_witness:
  "enqueue_many sample_env 100 1 5 ''log'' 3 [7, 8] (snd (enqueue_many sample_env 100 1 5 ''log'' 0 [7, 8] sample_db)) =
     (Inr 0, snd (enqueue_many sample_env 100 1 5 ''log'' 0 [7, 8] sample_db))"
  by (rule enqueue_many_exact[THEN conjunct2, THEN conjunct2]) simp

section \<open>Accounts\<close>

text \<open>C6: The accounts of one server are kept apart. Whatever requests the clients of other accounts send to
  the API of feeds, sources, watches, actions and backfills, in whatever order and with whatever ids, every
  answer the API gives an account to a read stays exactly what it was; and ids stay unique, so that it is
  so for whatever comes next.\<close>

theorem tenants_isolated:
  assumes "tables_ok (ap_env X) d" "b \<notin> fst ` set requests"
  shows "api_get X b read (api_writes X requests d) = api_get X b read d
    \<and> tables_ok (ap_env X) (api_writes X requests d)"
proof -
  have "api_get X b read (own b (api_writes X requests d)) = api_get X b read (own b d)"
    by (simp only: api_writes_own[OF assms])
  then show ?thesis using api_writes_tables[OF assms(1)] by (simp add: api_get_own)
qed

theorem tenants_isolated_witness:
  "api_get sample_api 100 (Get_Watch 1) (api_writes sample_api
       [(200, Delete_Watch 1), (200, Patch_Watch 1 (Some False)), (300, Delete_Feed 4), (200, Delete_Action 5 True)] sample_db) =
     api_get sample_api 100 (Get_Watch 1) sample_db
   \<and> (\<exists>v. api_get sample_api 100 (Get_Watch 1) sample_db = Watch_Reply (Answer 200 v) \<and> wv_feeds v = [4])"
proof
  show "\<exists>v. api_get sample_api 100 (Get_Watch 1) sample_db = Watch_Reply (Answer 200 v) \<and> wv_feeds v = [4]"
    by (simp add: watch_detail_get_def read_watch_def watch_view_of_def watch_get_def feed_ids_def list_watch_feeds_def
        subscriptions_def initial_actions_def sample_db_def sample_watch_def sample_subscription_def answer_of_def)
qed (rule tenants_isolated[OF sample_api_tables, THEN conjunct1], simp)

text \<open>C7: Whoever signs up owns an account alone. After a sign-up that answered, and after whatever sign-ups,
  logins, seeds and superusers, of whom none was put into that account by its operator, the password and
  the address, in any case and with any blanks around it, log the same user into the same account, every
  request of that user is scoped to it, and no request of anybody else is.\<close>

theorem signup_owns_account:
  assumes ok: "tenancy_ok E (fst w)" and signed: "signup_view E A email pw seen now w = (Reply b, w1)"
    and ops: "\<forall>e p. Add_Superuser e p (Some (au_account (ba_user b))) \<notin> set ops"
    and w2: "w2 = fold (tenancy_step E A) ops w1" and again: "lower (strip email') = lower (strip email)"
    and pw: "check_password E pw (make_password E (Some pw))"
  shows "(\<exists>cookie t. login_view E A email' pw later w2 =
      (Reply \<lparr>ba_user = ba_user b, ba_cookie = cookie, ba_max_age = ACCESS_TOKEN_EXPIRES_SECONDS A\<rparr>, t))
    \<and> (\<forall>who. account_scope (Some who) (fst w2) = Scoped (au_account (ba_user b)) \<longleftrightarrow> u_id who = au_id (ba_user b))"
proof -
  obtain v where v: "signup_fields E email pw = Inr v"
    using signed by (cases "signup_fields E email pw") (simp_all add: signup_view_def)
  note fields = signup_fieldsD[OF v]
  have new: "\<not> email_exists v seen" "\<not> email_exists v (fst w)"
    using signup_exact(1)[OF ok v, of seen A now] signed by auto
  from signup_exact(2)[OF ok v new, of A now] obtain u a where u: "joined_with E (fst w) u a (fst w1)"
    "a \<notin> ac_id ` set (tenants (fst w))" "lower (ur_email u) = v" "ur_active u" "ur_password u = make_password E (Some pw)"
    and user: "ba_user b = \<lparr>au_id = ur_id u, au_email = ur_email u, au_account = a\<rparr>"
    unfolding signed by auto
  have ok1: "tenancy_ok E (fst w1)" by (rule joined_ok[OF ok u(1)])
  have alone: "alone_in a u (fst w2)" unfolding w2
    by (rule alone_history[OF ok1 joined_alone[OF ok u(1,2)]]) (use ops user in simp)
  have ok2: "tenancy_ok E (fst w2)" unfolding w2 by (rule history_ok[OF ok1])
  have "email_valid E (lower (strip email'))" "strip email' \<noteq> []"
    using fields(1,2,5) again by (auto simp: lower_def)
  from login_member[OF ok2 _ u(4) _ _ this fields(6), of a A later] alone u(3,5) fields(1) again pw
  have "\<exists>cookie t. login_view E A email' pw later w2 =
      (Reply \<lparr>ba_user = ba_user b, ba_cookie = cookie, ba_max_age = ACCESS_TOKEN_EXPIRES_SECONDS A\<rparr>, t)"
    by (simp add: user alone_in_def)
  with alone show ?thesis by (auto simp: account_scope_def user alone_in_def split: option.splits)
qed

lemma sample_signup:
  "\<exists>b w1. signup_view sample_members sample_auth '' A@B'' ''pw'' sample_tenancy 0 sample_session = (Reply b, w1)"
proof -
  have v: "signup_fields sample_members '' A@B'' ''pw'' = Inr ''a@b''" by code_simp
  have "\<not> email_exists ''a@b'' sample_tenancy" by code_simp
  with signup_exact(2)[OF sample_tenancy_ok v, of sample_tenancy sample_auth 0]
  show ?thesis by (auto simp: sample_session_def)
qed

theorem signup_owns_account_witness:
  "\<exists>b w1 cookie t. signup_view sample_members sample_auth '' A@B'' ''pw'' sample_tenancy 0 sample_session = (Reply b, w1)
     \<and> login_view sample_members sample_auth ''a@B '' ''pw'' 9
         (fold (tenancy_step sample_members sample_auth) [Sign_Up ''c@d'' ''pw'' sample_tenancy 5] w1) =
       (Reply \<lparr>ba_user = ba_user b, ba_cookie = cookie, ba_max_age = 3600\<rparr>, t)"
proof -
  obtain b w1 where run: "signup_view sample_members sample_auth '' A@B'' ''pw'' sample_tenancy 0 sample_session = (Reply b, w1)"
    using sample_signup by auto
  have "lower (strip ''a@B '') = lower (strip '' A@B'')" by code_simp
  moreover have "check_password sample_members ''pw'' (make_password sample_members (Some ''pw''))"
    by (simp add: sample_members_def)
  ultimately show ?thesis
    using signup_owns_account[OF sample_tenancy_ok run _ refl,
        where ops = "[Sign_Up ''c@d'' ''pw'' sample_tenancy 5]" and email' = "''a@B ''" and later = 9] run
    by (auto simp: sample_auth_def)
qed

section \<open>The drain and the digest flush\<close>

text \<open>C8: The drain pass keeps the pipeline sound whatever the executors answer: the run table keeps its
  invariant, and every pending run the drain will not claim still belongs to an open digest window.\<close>

theorem drain_pass_sound:
  "sound E d \<Longrightarrow> outcomes E \<Longrightarrow> sound E (snd (process_due_runs E now d))"
  by (rule sound.drain_command)

theorem drain_pass_sound_witness: "sound sample_env (snd (process_due_runs sample_env 10 sample_db))"
  by (rule drain_pass_sound) simp_all

text \<open>C9: The digest pass ends, whatever the executors answer: the loop over the slices of a window takes at most
  one turn more than the window has pending runs, although it advances runs and reopens windows on
  the way, and the pass keeps the pipeline sound.\<close>

theorem digest_pass_terminates:
  assumes "sound E d" "outcomes E"
  shows "\<exists>outs d'. process_due_digests E now d = Some (outs, d') \<and> sound E d'"
proof -
  obtain outs d' where run: "process_due_digests E now d = Some (outs, d')"
    using flush_all_total[of E d now "iter_due now d"] assms
    by (fastforce simp: sound_def coordinated_def process_due_digests_def)
  then have "sound E d'" unfolding process_due_digests_def by (rule sound.flush_pass[OF assms])
  with run show ?thesis by blast
qed

theorem digest_pass_terminates_witness:
  "\<exists>outs d'. process_due_digests sample_env 10 sample_db = Some (outs, d') \<and> sound sample_env d'"
  by (rule digest_pass_terminates) simp_all

text \<open>C10: What executing one claimed run does to the set of work items: a completion that was won with
  \<open>SUCCEEDED\<close> creates the run of the same item at the next action of the chain, unless it is there
  already or the chain ends. Every other end of the execution creates none and removes none.\<close>

theorem drain_advances_exactly:
  assumes "drain_run E r now d = (res, d')"
  shows "run_keys d' = run_keys d \<union>
    (case res of
       Inr (Some out) \<Rightarrow>
         (case fst (fst (drain_resolve E r d)) of
            Some action \<Rightarrow> if res_state out = SUCCEEDED then
                (case next_in_chain (r_account r) action d of
                   None \<Rightarrow> {} | Some nxt \<Rightarrow> {(r_account r, r_watch r, a_id nxt, r_item r)}) else {}
          | None \<Rightarrow> {})
     | _ \<Rightarrow> {})"
  using drain_run_keys[OF assms] by (auto simp: successor_keys_def split: sum.splits option.splits)

theorem drain_advances_exactly_witness:
  "\<exists>res d'. drain_run sample_env (claim_row 10 (sample_run 9 5 7)) 20
       (snd (claim_one sample_env 10 (sample_run 9 5 7) sample_db)) = (res, d')
     \<and> run_keys (snd (claim_one sample_env 10 (sample_run 9 5 7) sample_db)) \<subseteq> run_keys d'"
proof -
  obtain res d' where run: "drain_run sample_env (claim_row 10 (sample_run 9 5 7)) 20
      (snd (claim_one sample_env 10 (sample_run 9 5 7) sample_db)) = (res, d')" by fastforce
  from drain_advances_exactly[OF run] run show ?thesis by auto
qed

text \<open>A drain that lost its claim, or whose completion transaction raised, leaves the run table exactly
  as it found it: the outcome of a reaped worker never reaches the row.\<close>

theorem failed_drain_keeps_runs:
  assumes "drain_run E r now d = (res, d')" "\<forall>out. res \<noteq> Inr (Some out)"
  shows "runs d' = runs d \<and> windows d' = windows d \<and> actions d' = actions d"
  using assms(1)
proof (cases rule: drain_run_cases)
  case lost
  then show ?thesis by (simp add: frame_simps)
next
  case (error e)
  then show ?thesis by (simp add: frame_simps)
qed (use assms(2) in simp_all)

theorem failed_drain_keeps_runs_witness:
  "runs (snd (drain_run sample_env (claim_row 10 (sample_run 9 5 7)) 20 sample_db)) = runs sample_db"
proof -
  let ?r = "claim_row 10 (sample_run 9 5 7)"
  obtain res d' where run: "drain_run sample_env ?r 20 sample_db = (res, d')" by fastforce
  have lost: "\<not> held ?r sample_db" by (simp add: held_iff complete_guard_def)
  from run have "\<forall>out. res \<noteq> Inr (Some out)" by (cases rule: drain_run_cases) (use lost in auto)
  from failed_drain_keeps_runs[OF run this] run show ?thesis by simp
qed

text \<open>The first arrival anchors a digest window and later arrivals join it: opening the window of an
  action returns the close time of the window that is open, or the interval from now when none is,
  leaves exactly that window open, and moves no other action's window.\<close>

theorem open_window_anchors:
  "fst (open_window E acct act interval now d) =
     (case open_until acct act d of Some t \<Rightarrow> t | None \<Rightarrow> now + seconds interval)
   \<and> open_until acct act (snd (open_window E acct act interval now d)) = Some (fst (open_window E acct act interval now d))
   \<and> fst (open_window E acct act interval' now' (snd (open_window E acct act interval now d))) =
       fst (open_window E acct act interval now d)
   \<and> (\<forall>acct' act'. (acct', act') \<noteq> (acct, act) \<longrightarrow>
        open_until acct' act' (snd (open_window E acct act interval now d)) = open_until acct' act' d)"
  using open_window_get[of acct act E interval now d]
    open_window_get[of acct act E interval' now' "snd (open_window E acct act interval now d)"]
    open_until_other(1)[of _ _ acct act E interval now d] by auto

theorem open_window_anchors_witness:
  "fst (open_window sample_env 100 6 60 5 (snd (open_window sample_env 100 6 3600 0 sample_db))) =
     fst (open_window sample_env 100 6 3600 0 sample_db)"
  by (rule open_window_anchors[THEN conjunct2, THEN conjunct2, THEN conjunct1])

text \<open>C11: A digest window is closed only when its action has no pending run: \<open>close_if_drained\<close> answers true
  exactly when there is no window or nothing is pending, then leaves the window closed, and otherwise
  changes nothing. No pending run is left behind a closed window by it.\<close>

theorem close_only_when_drained:
  "(fst (close_if_drained acct act d) \<longleftrightarrow> \<not> (has_window d acct act \<and> list_ex (pending_of acct act) (runs d)))
   \<and> (if fst (close_if_drained acct act d)
      then open_until acct act (snd (close_if_drained acct act d)) = None
        \<and> runs (snd (close_if_drained acct act d)) = runs d
      else snd (close_if_drained acct act d) = d)"
proof (cases "fst (close_if_drained acct act d)")
  case True
  then show ?thesis using close_if_drained_True[OF True] by (auto simp: frame_simps)
next
  case False
  then show ?thesis using close_if_drained_False[OF False] by simp
qed

section \<open>Watches and their chains\<close>

text \<open>C12: A whole-chain replace that succeeds yields exactly the submitted chain: an action submitted with an
  id keeps its row at the submitted position, one without gets a fresh id, every other action of the
  path is gone, and the ranks are 0 to n-1 in the submitted order.\<close>

theorem replace_chain_yields:
  assumes "action_table E d" "mints_fresh E" "replace_chain E acct path specs acquired d = (Inr chain, d')"
  shows "map a_id chain = spec_ids E (drawn d) specs \<and> chain = list_for_path acct path d' \<and> dense acct path d'"
  using replace_chain_chain[OF assms] by blast

theorem replace_chain_yields_witness:
  "\<exists>chain d'. replace_chain sample_env 100 2 sample_specs True sample_db = (Inr chain, d') \<and> map a_id chain = [6, 21]"
proof -
  obtain chain d' where run: "replace_chain sample_env 100 2 sample_specs True sample_db = (Inr chain, d')"
    using sample_replace
    by (cases "replace_chain sample_env 100 2 sample_specs True sample_db"; cases "fst (replace_chain sample_env 100 2 sample_specs True sample_db)") auto
  from replace_chain_yields[OF sample_actions sample_mints run, THEN conjunct1] have "map a_id chain = [6, 21]"
    by (simp add: sample_specs_def)
  with run show ?thesis by (intro exI conjI)
qed

text \<open>C13: A chain write that raises leaves the database untouched: the path lock not acquired, an unknown or
  repeated id, an invalid config, a policy refusal, a masked secret without a prior, a row hidden from
  the client, or a row of another account.\<close>

theorem chain_errors_change_nothing:
  "(\<forall>e. fst (replace_chain E acct path specs acquired d) = Inl e \<longrightarrow> snd (replace_chain E acct path specs acquired d) = d)
   \<and> (\<forall>e. fst (add_action E acct path spec rank dry acquired d) = Inl e \<longrightarrow>
        snd (add_action E acct path spec rank dry acquired d) = d)
   \<and> (\<forall>e. fst (set_config E acct action spec dry d) = Inl e \<longrightarrow> snd (set_config E acct action spec dry d) = d)
   \<and> (\<forall>e. fst (remove_action acct action acquired d) = Inl e \<longrightarrow> snd (remove_action acct action acquired d) = d)
   \<and> snd (add_action E acct path spec rank True acquired d) = d \<and> snd (set_config E acct action spec True d) = d"
proof (intro conjI allI impI)
  fix e assume "fst (replace_chain E acct path specs acquired d) = Inl e"
  then show "snd (replace_chain E acct path specs acquired d) = d"
    using replace_chain_error[of E acct path specs acquired d e] by (cases "replace_chain E acct path specs acquired d") simp
next
  fix e assume "fst (add_action E acct path spec rank dry acquired d) = Inl e"
  then show "snd (add_action E acct path spec rank dry acquired d) = d"
    by (auto simp: add_action_def Let_def split: sum.splits if_splits prod.splits)
next
  fix e assume "fst (set_config E acct action spec dry d) = Inl e"
  then show "snd (set_config E acct action spec dry d) = d"
    by (auto simp: set_config_def Let_def split: sum.splits if_splits)
next
  fix e assume "fst (remove_action acct action acquired d) = Inl e"
  then show "snd (remove_action acct action acquired d) = d"
    by (auto simp: remove_action_def Let_def split: if_splits)
next
  show "snd (add_action E acct path spec rank True acquired d) = d"
    by (auto simp: add_action_def split: sum.splits)
next
  show "snd (set_config E acct action spec True d) = d"
    by (auto simp: set_config_def Let_def split: sum.splits)
qed

theorem chain_errors_change_nothing_witness:
  "snd (remove_action 100 sample_head False sample_db) = sample_db"
proof -
  have "fst (remove_action 100 sample_head False sample_db) = Inl ConcurrentChainError"
    by (simp add: remove_action_def sample_head_def)
  then show ?thesis
    by (rule chain_errors_change_nothing[THEN conjunct2, THEN conjunct2, THEN conjunct2, THEN conjunct1, rule_format])
qed

text \<open>Adding an action inserts it at the requested rank, clamped to the chain, appends it when no rank is
  given, shifts the later ones, keeps the ranks dense and leaves every other path alone.\<close>

theorem add_action_inserts:
  assumes "action_table E d" "mints_fresh E" "add_action E acct path spec rank False True d = (Inr row, d')"
  shows "path_ids acct path d' =
      insert_at (clamp_rank rank (length (path_ids acct path d))) (mint E (drawn d)) (path_ids acct path d)
    \<and> dense acct path d' \<and> a_id row = mint E (drawn d)
    \<and> (\<forall>acct' path'. (acct', path') \<noteq> (acct, path) \<longrightarrow> list_for_path acct' path' d' = list_for_path acct' path' d)"
  using add_action_chain[OF assms] by auto

theorem add_action_inserts_witness:
  "\<exists>row d'. add_action sample_env 100 2 (hd sample_specs) (Some 1) False True sample_db = (Inr row, d') \<and> a_id row = 21"
proof -
  obtain row d' where run: "add_action sample_env 100 2 (hd sample_specs) (Some 1) False True sample_db = (Inr row, d')"
    using sample_add by (cases "add_action sample_env 100 2 (hd sample_specs) (Some 1) False True sample_db";
      cases "fst (add_action sample_env 100 2 (hd sample_specs) (Some 1) False True sample_db)") auto
  from add_action_inserts[OF sample_actions sample_mints run] run show ?thesis by simp
qed

text \<open>C14: Removing an action drops exactly it from its chain, closes the rank gap, deletes its digest window,
  so that nothing can stay parked behind it, and leaves every other path alone.\<close>

theorem remove_action_closes_gap:
  assumes "distinct (map a_id (actions d))" "action \<in> set (actions d)" "remove_action acct action True d = (Inr (), d')"
  shows "path_ids acct (a_path action) d' = filter (\<lambda>i. i \<noteq> a_id action) (path_ids acct (a_path action) d)
    \<and> dense acct (a_path action) d' \<and> get_window acct (a_id action) d' = None
    \<and> (\<forall>acct' path'. (acct', path') \<noteq> (acct, a_path action) \<longrightarrow> list_for_path acct' path' d' = list_for_path acct' path' d)"
  using remove_action_chain[OF assms] by auto

theorem remove_action_closes_gap_witness:
  "\<exists>d'. remove_action 100 sample_head True sample_db = (Inr (), d') \<and> dense 100 (a_path sample_head) d'"
proof -
  obtain d' where run: "remove_action 100 sample_head True sample_db = (Inr (), d')"
    by (simp add: remove_action_def sample_head_def Let_def)
  from remove_action_closes_gap[OF _ _ run] run show ?thesis using sample_actions by (simp add: action_table_def)
qed

text \<open>C15: Renumbering never breaks the unique (account, path, rank) constraint, not even for a row while the
  statement runs: after any number of rows of either of its two phases the keys of the whole action
  table are distinct, and after both the chain is dense in the requested order.\<close>

theorem renumber_collision_free:
  assumes "distinct (map rank_key (actions d))" "distinct (map a_id (actions d))" "distinct (map a_id ordered)"
    and "set ordered = {a \<in> set (actions d). in_path acct path a}"
  shows "distinct (map rank_key (first_phase ordered k d)) \<and> distinct (map rank_key (second_phase ordered k d))
    \<and> actions (renumber ordered d) = second_phase ordered (length ordered) d
    \<and> path_ids acct path (renumber ordered d) = map a_id ordered \<and> dense acct path (renumber ordered d)"
  using renumber_never_collides[OF assms, of k] renumber_phases[of ordered d]
    renumber_chain[OF assms(2,3), of acct path] assms(4) by simp

theorem renumber_collision_free_witness:
  "path_ids 100 2 (renumber [sample_digest, sample_head] sample_db) = [6, 5]"
proof -
  have "set [sample_digest, sample_head] = {a \<in> set (actions sample_db). in_path 100 2 a}"
    by (auto simp: in_path_def sample_head_def sample_digest_def)
  from renumber_collision_free[OF _ _ _ this] show ?thesis
    by (simp add: rank_key_def sample_head_def sample_digest_def)
qed

text \<open>C16: Replacing a watch's feed set keeps the subscription rows, and so the watermarks, of the feeds that
  stay, drops the others, adds each new feed once with a blank watermark in the submitted order, and
  touches no other watch.\<close>

theorem set_feeds_keeps_watermarks:
  assumes "distinct (map wf_id (watch_feeds d))"
  shows "subscriptions acct wid (set_feeds E acct wid fids d) =
      filter (\<lambda>s. wf_feed s \<in> set fids) (subscriptions acct wid d)
      @ fresh_subscriptions E acct wid
          (filter (\<lambda>f. f \<notin> wf_feed ` set (subscriptions acct wid d)) (dict_fromkeys fids)) (drawn d)
    \<and> (\<forall>s \<in> set (fresh_subscriptions E acct wid
          (filter (\<lambda>f. f \<notin> wf_feed ` set (subscriptions acct wid d)) (dict_fromkeys fids)) (drawn d)). wf_last_item s = blank)
    \<and> (\<forall>acct' wid'. (acct', wid') \<noteq> (acct, wid) \<longrightarrow>
          subscriptions acct' wid' (set_feeds E acct wid fids d) = subscriptions acct' wid' d)"
  using set_feeds_subscriptions[OF assms] fresh_subscriptions_all by blast

theorem set_feeds_keeps_watermarks_witness:
  "subscriptions 100 1 (set_feeds sample_env 100 1 [4, 4] sample_db) = [sample_subscription]"
  using set_feeds_keeps_watermarks[of sample_db 100 1 sample_env "[4, 4]"]
  by (simp add: subscriptions_def sample_subscription_def fresh_subscriptions_def)

text \<open>C17: Deleting a watch removes exactly the watch. Its row goes, with its runs, paths and subscriptions, the
  actions of its paths and the digest windows of those actions; every other row of these six tables
  stays, those of other watches of the account and of other accounts among them, and every other table,
  the log of deliveries and the backfill jobs included, is as it was.\<close>

theorem delete_watch_complete:
  assumes "delete_watch acct w d = (Inr (), d')"
  shows "set (watches d') = {x \<in> set (watches d). w_id x \<noteq> w_id w}
    \<and> set (runs d') = {r \<in> set (runs d). (r_account r, r_watch r) \<noteq> (acct, w_id w)}
    \<and> set (paths d') = {p \<in> set (paths d). (p_account p, p_watch p) \<noteq> (acct, w_id w)}
    \<and> set (watch_feeds d') = {s \<in> set (watch_feeds d). (wf_account s, wf_watch s) \<noteq> (acct, w_id w)}
    \<and> set (actions d') = {a \<in> set (actions d). \<not> (a_account a = acct
          \<and> (\<exists>p \<in> set (paths d). (p_account p, p_watch p) = (acct, w_id w) \<and> a_path a = p_id p))}
    \<and> set (windows d') = {x \<in> set (windows d). \<not> (dw_account x = acct
          \<and> (\<exists>a \<in> set (actions d). a \<notin> set (actions d') \<and> dw_action x = a_id a))}
    \<and> d'\<lparr>watches := watches d, runs := runs d, paths := paths d, watch_feeds := watch_feeds d,
          actions := actions d, windows := windows d\<rparr> = d"
proof -
  have "w_account w = acct" using assms by (auto simp: delete_watch_def split: if_splits)
  from delete_watch_eq[OF this, of d] assms have "d' = d\<lparr>
      runs := delete_where (\<lambda>r. r_account r = acct \<and> r_watch r = w_id w) (runs d),
      windows := delete_where (\<lambda>x. dw_account x = acct \<and> dw_action x \<in> watch_action_ids acct (w_id w) d) (windows d),
      actions := delete_where (\<lambda>a. a_account a = acct \<and> a_path a \<in> watch_path_ids acct (w_id w) d) (actions d),
      paths := delete_where (\<lambda>p. p_account p = acct \<and> p_watch p = w_id w) (paths d),
      watch_feeds := delete_where (\<lambda>s. wf_account s = acct \<and> wf_watch s = w_id w) (watch_feeds d),
      watches := delete_where (\<lambda>x. w_id x = w_id w) (watches d)\<rparr>" by simp
  then show ?thesis
    by (auto simp: set_delete_where watch_path_ids_def watch_action_ids_def)
qed

theorem delete_watch_complete_witness:
  "watches (snd (delete_watch 100 sample_watch sample_db)) = []
    \<and> list_all (\<lambda>r. (r_account r, r_watch r) \<noteq> (100, 1)) (runs (snd (delete_watch 100 sample_watch sample_db)))"
proof -
  have "delete_watch 100 sample_watch sample_db = (Inr (), snd (delete_watch 100 sample_watch sample_db))"
    using delete_watch_eq[of sample_watch 100 sample_db] by (simp add: sample_watch_def)
  note gone = delete_watch_complete[OF this]
  from gone[THEN conjunct1] have "set (watches (snd (delete_watch 100 sample_watch sample_db))) = {}"
    by (auto simp: sample_db_def sample_watch_def)
  with gone[THEN conjunct2, THEN conjunct1] show ?thesis by (simp add: sample_watch_def list_all_iff)
qed

section \<open>The trigger\<close>

text \<open>C18: A trigger pass of a watch that does not raise creates a pending run of the chain's head for exactly
  the items past each subscription's watermark that have none yet, leaves every existing run as it
  was, counts the runs it created, and moves each watermark to the newest item of its feed, so that
  nothing past it is unenqueued. Subscriptions to deleted feeds are left alone.\<close>

theorem trigger_exact:
  assumes run: "trigger_run E w now d = (Inr (scanned, n), d')" and items: "item_table d"
    and ids: "distinct (map wf_id (watch_feeds d))"
    and head: "list_for_path (w_account w) (w_initial_path w) d = head # rest"
  shows "(\<exists>rs. runs d' = runs d @ rs \<and> length rs = n \<and> (\<forall>r \<in> set rs. r_state r = PENDING \<and> r_attempts r = 0))
    \<and> run_keys d' = run_keys d \<union> (\<Union>s \<in> set (subscriptions (w_account w) (w_id w) d).
        (\<lambda>i. (w_account w, w_id w, a_id head, i)) ` unseen (w_account w) s d)
    \<and> watch_feeds d' = map (\<lambda>s. if wf_id s \<in> wf_id ` set (subscriptions (w_account w) (w_id w) d)
        then s\<lparr>wf_last_item := mark (w_account w) s d\<rparr> else s) (watch_feeds d)"
  using run
proof (cases rule: trigger_run_cases)
  case empty
  with head show ?thesis by simp
next
  case (head head' rest' cfg interval)
  let ?ss = "order_by wf_id (subscriptions (w_account w) (w_id w) d)"
  have same: "head' = head" using head(1) assms(4) by simp
  have "distinct (map wf_id (subscriptions (w_account w) (w_id w) d))"
    using ids by (simp add: subscriptions_def distinct_map_filter)
  then have ss: "set ?ss \<subseteq> set (watch_feeds d)" "distinct (map wf_id ?ss)"
    by (auto simp: subscriptions_def order_by_def distinct_map)
  show ?thesis
    using trigger_feeds_runs[OF head(4) items] trigger_feeds_marks[OF head(4) items ids ss]
    by (auto simp: same marked_def)
qed

theorem trigger_exact_witness:
  "\<exists>d'. trigger_run sample_env sample_watch 10 sample_db = (Inr (1, 1), d') \<and> length (runs d') = 2"
proof -
  obtain d' where run: "trigger_run sample_env sample_watch 10 sample_db = (Inr (1, 1), d')"
    using sample_trigger by (cases "trigger_run sample_env sample_watch 10 sample_db") simp
  have "list_for_path (w_account sample_watch) (w_initial_path sample_watch) sample_db = sample_head # [sample_digest]"
    by (simp add: sample_watch_def sample_path)
  from trigger_exact[OF run sample_items _ this] run show ?thesis by auto
qed

section \<open>Backfill\<close>

text \<open>C19: Whatever interleaving of claims, finishes, reaps, progress stamps and creations the workers perform
  on the backfill queue, no attempt of a job is claimed twice, none is finished twice, and a job is
  claimed at most up to its cap.\<close>

theorem job_claims_exclusive:
  assumes "job_table E d"
  shows "distinct (claims (fst (exec (job_step E) es d)))
    \<and> distinct (settlements (fst (exec (job_step E) es d)))
    \<and> (\<forall>i. length (filter (\<lambda>t. fst t = i) (claims (fst (exec (job_step E) es d)))) \<le> BACKFILL_MAX_ATTEMPTS E - job_tries d i)
    \<and> job_table E (snd (exec (job_step E) es d))"
proof -
  obtain os d' where ex: "exec (job_step E) es d = (os, d')" by (cases "exec (job_step E) es d")
  with bq.claims_distinct[OF assms ex] bq.settlements_distinct[OF assms ex] bq.claims_bounded[OF assms ex]
    bq.inv_exec[OF assms, of es]
  show ?thesis by simp
qed

theorem job_claims_exclusive_witness:
  "distinct (settlements (fst (exec (job_step sample_env)
     [Finish_Job sample_job BF_DONE None [] False 5, Reap_Jobs 9, Finish_Job sample_job BF_FAILED None [] True 9] sample_done)))"
  by (rule job_claims_exclusive[OF sample_jobs, THEN conjunct2, THEN conjunct1])

text \<open>C20: The dry run of a backfill is exact: on the database it was computed on, the job does precisely what
  the preview announced, for additive and for replace jobs: the matched, present and pruned counts,
  the number of runs deleted along the chain and the number enqueued.\<close>

theorem backfill_preview_exact:
  assumes "item_table d" "distinct (map run_key (runs d))" "distinct (map a_id (actions d))"
    and "action_get (b_account job) (b_target job) d = Inr target" "b_replace_deleted_at job = None"
    and "b_is_head job \<or> b_source job \<notin> a_id ` set (chain_from (b_account job) target d)"
    and "preview_backfill (b_account job) target (b_source job) (b_is_head job) (b_watch job) (job_windows job)
      (b_replace job) d = Inr pv"
  shows "\<exists>c job' d'. backfill_run E job now d = (Inr (Some c), job', d')
    \<and> bc_matched c = pv_matched pv \<and> bc_present c = pv_present pv \<and> bc_pruned c = pv_pruned pv
    \<and> bc_deleted c = pv_would_delete pv \<and> int (bc_enqueued c) = pv_would_enqueue pv"
  using preview_exact[OF assms] by blast

theorem backfill_preview_exact_witness:
  "\<exists>c job' d'. backfill_run sample_env sample_job 20 sample_done = (Inr (Some c), job', d')
     \<and> bc_deleted c = 1 \<and> bc_enqueued c = 1"
proof -
  have "\<exists>c job' d'. backfill_run sample_env sample_job 20 sample_done = (Inr (Some c), job', d')
      \<and> bc_matched c = 1 \<and> bc_present c = 1 \<and> bc_pruned c = 0 \<and> bc_deleted c = 1 \<and> int (bc_enqueued c) = 1"
    using backfill_preview_exact[of sample_done sample_job sample_digest _ sample_env 20] sample_done_preview
      sample_done_target sample_done_tables
    by (simp add: sample_head_def sample_digest_def)
  then show ?thesis by auto
qed

text \<open>C21: A backfill that does not replace, or a replace retried after its delete phase was recorded, deletes no
  run and changes none: it appends one pending run of the target for each source item that has none.\<close>

theorem additive_backfill_only_adds:
  assumes "\<not> b_replace job \<or> b_replace_deleted_at job \<noteq> None" "item_table d"
    and "action_get (b_account job) (b_target job) d = Inr target"
    and "resolve_present (b_account job) (b_source job) (b_is_head job) (b_watch job) (job_windows job) d = Inr p"
  shows "\<exists>c job' d' rs. backfill_run E job now d = (Inr (Some c), job', d') \<and> runs d' = runs d @ rs
    \<and> bc_enqueued c = length rs
    \<and> run_keys d' = run_keys d \<union> (\<lambda>i. (b_account job, b_watch job, a_id target, i)) ` rp_subquery p d"
proof -
  let ?fs = "fresh_items (b_account job) (b_watch job) (a_id target) (rp_stream p d) d"
  let ?rs = "new_rows E (b_account job) (b_watch job) (a_id target) (a_kind target) now ?fs (drawn d)"
  have "\<not> redoes job" using assms(1) by (auto simp: redoes_def)
  from additive_run[OF this assms(2-4), of E now] obtain c job' d' where
    run: "backfill_run E job now d = (Inr (Some c), job', d')" "runs d' = runs d @ ?rs" "bc_enqueued c = length ?fs"
    by (metis backfill_counts.select_convs(5))
  have "length ?rs = length ?fs" by (simp add: new_rows_def)
  moreover have "run_keys d' = run_keys d \<union> (\<lambda>i. (b_account job, b_watch job, a_id target, i)) ` rp_subquery p d"
    unfolding run_keys_def run(2) set_append image_Un run_key_new_rows
    using source_sizes(2)[OF assms(2,4)] by (auto simp: fresh_items_def run_keys_def)
  ultimately show ?thesis using run by (intro exI[of _ c] exI[of _ job'] exI[of _ d'] exI[of _ ?rs]) simp
qed

theorem additive_backfill_only_adds_witness:
  "\<exists>c job' d' rs. backfill_run sample_env (sample_job\<lparr>b_replace := False\<rparr>) 20 sample_done = (Inr (Some c), job', d')
     \<and> runs d' = runs sample_done @ rs \<and> bc_enqueued c = length rs"
proof -
  let ?job = "sample_job\<lparr>b_replace := False\<rparr>"
  obtain p where "resolve_present 100 5 False 1 (job_windows ?job) sample_done = Inr p"
    by (simp add: resolve_present_def Let_def)
  then show ?thesis
    using additive_backfill_only_adds[of ?job sample_done sample_digest p sample_env 20] sample_done_target sample_done_tables
    by auto
qed

text \<open>C22: A replace backfill deletes exactly the terminal runs of the source items at the target and below it
  in the chain, keeps every other run as it is, in particular everything still in flight and everything
  upstream, and then enqueues the target for every source item that has no run of it left.\<close>

theorem replacing_backfill_exact:
  assumes "b_replace job" "b_replace_deleted_at job = None" "item_table d" "distinct (map a_id (actions d))"
    and "action_get (b_account job) (b_target job) d = Inr target"
    and p: "resolve_present (b_account job) (b_source job) (b_is_head job) (b_watch job) (job_windows job) d = Inr p"
    and "b_is_head job \<or> b_source job \<notin> a_id ` set (chain_from (b_account job) target d)"
  shows "\<exists>c job' d' rs. backfill_run E job now d = (Inr (Some c), job', d')
    \<and> runs d' = filter (\<lambda>r. \<not> (deletable_terminal r \<and> (\<exists>a \<in> set (chain_from (b_account job) target d).
          run_of_items (b_account job) (a_id a) (b_watch job) (rp_subquery p d) r))) (runs d) @ rs
    \<and> bc_enqueued c = length rs \<and> (\<forall>r \<in> set rs. r_state r = PENDING \<and> r_action r = a_id target)
    \<and> (\<lambda>i. (b_account job, b_watch job, a_id target, i)) ` rp_subquery p d \<subseteq> run_keys d'"
proof -
  let ?rows = "delete_where (doomed (b_account job) (b_watch job) (rp_subquery p d)
      (chain_from (b_account job) target d)) (runs d)"
  let ?fs = "fresh_items (b_account job) (b_watch job) (a_id target) (rp_stream p d) (d\<lparr>runs := ?rows\<rparr>)"
  let ?rs = "new_rows E (b_account job) (b_watch job) (a_id target) (a_kind target) now ?fs (drawn d)"
  have "redoes job" using assms(1,2) by (simp add: redoes_def)
  from replacing_run[OF this assms(3-7) refl refl, of E now] obtain c job' d' where
    run: "backfill_run E job now d = (Inr (Some c), job', d')" "runs d' = ?rows @ ?rs" "bc_enqueued c = length ?fs"
    by (metis backfill_counts.select_convs(5))
  have "length ?rs = length ?fs" by (simp add: new_rows_def)
  moreover have "\<forall>r \<in> set ?rs. r_state r = PENDING \<and> r_action r = a_id target" by (auto simp: new_rows_def pending_run_def)
  moreover have "(\<lambda>i. (b_account job, b_watch job, a_id target, i)) ` rp_subquery p d \<subseteq> run_keys d'"
    unfolding run_keys_def run(2) set_append image_Un run_key_new_rows
    using source_sizes(2)[OF assms(3) p] by (auto simp: fresh_items_def run_keys_def)
  ultimately show ?thesis using run
    by (intro exI[of _ c] exI[of _ job'] exI[of _ d'] exI[of _ ?rs]) (simp add: delete_where_def doomed_def [abs_def])
qed

theorem replacing_backfill_exact_witness:
  "\<exists>c job' d' rs. backfill_run sample_env sample_job 20 sample_done = (Inr (Some c), job', d')
     \<and> bc_enqueued c = length rs \<and> set rs \<subseteq> set (runs d')"
proof -
  have target: "action_get (b_account sample_job) (b_target sample_job) sample_done = Inr sample_digest"
    by (simp add: sample_done_target)
  obtain p where p: "resolve_present (b_account sample_job) (b_source sample_job) (b_is_head sample_job)
      (b_watch sample_job) (job_windows sample_job) sample_done = Inr p"
    by (simp add: resolve_present_def Let_def)
  have ids: "distinct (map a_id (actions sample_done))" by (simp add: sample_head_def sample_digest_def)
  have "b_source sample_job \<notin> a_id ` set (chain_from (b_account sample_job) sample_digest sample_done)"
    unfolding sample_job_simps sample_done_target by (simp add: sample_digest_def)
  from replacing_backfill_exact[OF sample_job_simps(7,8) sample_done_tables(1) ids target p disjI2[OF this], of sample_env 20]
  show ?thesis by (elim exE conjE, intro exI conjI) (assumption, assumption, simp)
qed

text \<open>A backfill job whose target action or watch is gone fails for good: the run reports no counts, changes
  nothing but the job row, and no later pass finds the job due again.\<close>

theorem gone_backfill_is_final:
  assumes "job_held job d" "distinct (map b_id (backfills d))"
    and "(\<exists>e. action_get (b_account job) (b_target job) d = Inl e)
      \<or> resolve_present (b_account job) (b_source job) (b_is_head job) (b_watch job) (job_windows job) d = Inl DoesNotExist"
  shows "\<exists>job' d'. backfill_run E job now d = (Inr None, job', d') \<and> runs d' = runs d \<and> actions d' = actions d
    \<and> (\<exists>b. get_job (b_id job) d' = Some b \<and> b_state b = BF_FAILED \<and> \<not> due_job E ts b)"
proof -
  obtain message where run: "backfill_run E job now d = (let (job', d') = fail_job E job message now d in (Inr None, job', d'))"
    using assms(3) by (cases "action_get (b_account job) (b_target job) d") (auto simp: backfill_run_def Let_def)
  let ?d' = "snd (fail_job E job message now d)"
  obtain b where b: "b \<in> set (backfills d)" "job_guard job b" using assms(1) by (auto simp: job_held_def)
  have "get_job (b_id b) d = Some b" by (rule get_job_unique[OF assms(2) b(1)])
  then have "get_job (b_id job) ?d' = Some (finish_row E BF_FAILED None message True now b)"
    using b(2) by (simp add: fail_job_def finish_job_won[OF assms(1)] get_job_update job_guard_def)
  moreover have "\<not> due_job E ts (finish_row E BF_FAILED None message True now b)" by (simp add: due_job_def)
  moreover have "runs ?d' = runs d \<and> actions ?d' = actions d" by (simp add: fail_job_def)
  ultimately show ?thesis unfolding run by (cases "fail_job E job message now d") simp
qed

theorem gone_backfill_is_final_witness:
  "\<exists>job' d'. backfill_run sample_env sample_job 20 (sample_done\<lparr>actions := []\<rparr>) = (Inr None, job', d')
     \<and> runs d' = runs sample_done"
proof -
  let ?d = "sample_done\<lparr>actions := []\<rparr>"
  have "job_held sample_job ?d" "distinct (map b_id (backfills ?d))" by (simp_all add: job_held_def job_guard_def)
  from gone_backfill_is_final[OF this, of sample_env 20 0] show ?thesis by (auto simp: action_get_def)
qed

text \<open>C23: A replace job that runs after the chain was reordered so that its source sits below its target loses
  its work: the walk deletes the source's own runs, no source item is left, and nothing is enqueued.\<close>

theorem reordered_replace_loses_source:
  assumes "b_replace job" "b_replace_deleted_at job = None" "\<not> b_is_head job"
    and "action_get (b_account job) (b_target job) d = Inr target"
    and "b_source job \<in> a_id ` set (chain_from (b_account job) target d)"
    and "\<forall>r \<in> set (runs d). r_account r = b_account job \<and> r_action r = b_source job \<longrightarrow> r_watch r = b_watch job"
  shows "\<exists>c job' d'. backfill_run E job now d = (Inr (Some c), job', d') \<and> bc_enqueued c = 0
    \<and> existing_items (b_account job) (succeeded_feed_item_ids (b_account job) (b_source job) (job_windows job) d') d' = []"
proof -
  have "redoes job" "runs_of_watch (b_account job) (b_source job) (b_watch job) d"
    using assms by (simp_all add: redoes_def runs_of_watch_def)
  from replace_below_source[OF this(1) assms(3-5) this(2)] show ?thesis by (simp add: source_items_def)
qed

theorem reordered_replace_loses_source_witness:
  "\<exists>c job' d'. backfill_run sample_env sample_job 20 sample_swapped = (Inr (Some c), job', d') \<and> bc_enqueued c = 0"
proof -
  have "\<forall>r \<in> set (runs sample_swapped). r_watch r = 1" by (simp add: sample_swapped_def sample_done_def)
  then show ?thesis
    using reordered_replace_loses_source[of sample_job sample_swapped _ sample_env 20, OF _ _ _ sample_done_target(3)[folded sample_job_simps(2,4)]]
    by (fastforce simp: sample_done_target sample_head_def)
qed

section \<open>Locks\<close>



text \<open>C25: A single-flight command runs alone. While its lock is held by another run, the command does nothing
  to the data and leaves every key of the cache as it was. On a free lock it takes the lock under its own
  token, touches no other key, and runs its body once, on the data as it is; the body may do with the cache
  what it likes. What the body returns and leaves of the data is what the command does. On the way out the
  lock is deleted, and nothing but the lock, if it still has the run's token; a lock that ran out and is
  now another run's is left alone, and so is the rest of the cache.\<close>

theorem single_flight_once:
  assumes "cache_laws C" "resolve_job_name cmd = Inr name"
  shows "(cache_get C (job_lock_key name) now s \<noteq> None \<longrightarrow>
      (\<exists>s'. single_flight C cmd tok t now x y body s d = (Inr Skipped, s', d)
        \<and> (\<forall>j u. now \<le> u \<longrightarrow> cache_get C j u s' = cache_get C j u s)))
    \<and> (cache_get C (job_lock_key name) now s = None \<longrightarrow>
      (\<exists>s1. (\<forall>j u. now \<le> u \<longrightarrow> cache_get C j u s1 =
            (if j = job_lock_key name then (if u < now + seconds t then Some tok else None) else cache_get C j u s))
        \<and> (case body s1 d of (r, s2, d') \<Rightarrow>
            \<exists>s'. single_flight C cmd tok t now x y body s d = (Inr (Ran r), s', d')
              \<and> (if cache_get C (job_lock_key name) x s2 = Some tok
                 then \<forall>j u. y \<le> u \<longrightarrow> cache_get C j u s' = (if j = job_lock_key name then None else cache_get C j u s2)
                 else s' = s2))))"
  by (intro conjI impI single_flight_held[OF assms] single_flight_free[OF assms])

theorem single_flight_once_witness:
  "\<exists>s'. single_flight table_cache \<lparr>cmd_single_flight = True, cmd_job_name = Some ''drain'', cmd_module = []\<rparr> ''t'' 60 0 1 1
      (\<lambda>s n. (n, s(''poll'' \<mapsto> (''z'', 9)), n + 1)) Map.empty (41 :: nat) = (Inr (Ran 41), s', 42)
    \<and> cache_get table_cache (job_lock_key ''drain'') 2 s' = None \<and> cache_get table_cache ''poll'' 2 s' = Some ''z''"
proof -
  let ?cmd = "\<lparr>cmd_single_flight = True, cmd_job_name = Some ''drain'', cmd_module = []\<rparr>"
    and ?body = "\<lambda>s (n :: nat). (n, s(''poll'' \<mapsto> (''z'', 9 :: instant)), n + 1)" and ?k = "job_lock_key ''drain''"
  have k: "?k \<noteq> ''poll''" by (simp add: job_lock_key_def JOB_LOCK_KEY_PREFIX_def)
  have get: "cache_get table_cache ?k 1 (s(''poll'' \<mapsto> (''z'', 9))) = cache_get table_cache ?k 1 s"
    for s :: "string \<Rightarrow> (string \<times> instant) option" using k by (simp add: table_cache_def)
  have "resolve_job_name ?cmd = Inr ''drain''" by (simp add: resolve_job_name_def)
  from single_flight_once[where now = 0 and s = Map.empty and tok = "''t''" and t = 60 and x = 1 and y = 1 and body = ?body
      and d = 41, OF table_cache_laws this, THEN conjunct2]
  obtain s1 s' where s1: "\<forall>j u. 0 \<le> u \<longrightarrow> cache_get table_cache j u s1 =
        (if j = ?k then (if u < 0 + seconds 60 then Some ''t'' else None) else cache_get table_cache j u Map.empty)"
    and ran: "single_flight table_cache ?cmd ''t'' 60 0 1 1 ?body Map.empty 41 = (Inr (Ran 41), s', 42)"
    and out: "if cache_get table_cache ?k 1 (s1(''poll'' \<mapsto> (''z'', 9))) = Some ''t''
      then \<forall>j u. 1 \<le> u \<longrightarrow> cache_get table_cache j u s' =
        (if j = ?k then None else cache_get table_cache j u (s1(''poll'' \<mapsto> (''z'', 9)))) else s' = s1(''poll'' \<mapsto> (''z'', 9))"
    by (auto simp: table_cache_def)
  have "cache_get table_cache ?k 1 s1 = Some ''t''" using s1 by (simp add: seconds_def)
  with out get have "\<forall>j u. 1 \<le> u \<longrightarrow> cache_get table_cache j u s' =
        (if j = ?k then None else cache_get table_cache j u (s1(''poll'' \<mapsto> (''z'', 9))))" by simp
  with ran k show ?thesis by (intro exI[of _ s']) (simp add: table_cache_def)
qed

section \<open>Sources and polling\<close>

text \<open>C26: Replacing the sources of a feed is an exact reconcile: afterwards the feed has one row per distinct
  submitted spec, the reported counts are those of the two sets, the rows of other feeds and accounts
  are untouched, a spec that stays keeps its row id and its watermark, every row has the tags and
  hints of the first input of its spec, and doing it again changes nothing.\<close>

theorem set_sources_reconciles:
  assumes "set_sources E S acct fd items False acquired now d = (Inr res, d')"
  shows "feed_hashes acct fd d' = (hash_spec S \<circ> si_spec) ` set items
    \<and> res = set_result (feed_hashes acct fd d) (feed_hashes acct fd d')
    \<and> filter (\<lambda>s. \<not> of_feed acct fd s) (sources d') = filter (\<lambda>s. \<not> of_feed acct fd s) (sources d)
    \<and> (\<forall>s \<in> set (sources d). of_feed acct fd s \<and> so_hash s \<in> feed_hashes acct fd d' \<longrightarrow>
         (\<exists>s' \<in> set (sources d'). so_id s' = so_id s \<and> so_hash s' = so_hash s \<and> so_last_event s' = so_last_event s))
    \<and> (\<forall>s' \<in> set (sources d'). \<forall>x. of_feed acct fd s' \<and> (so_hash s', x) \<in> set (inputs_by_hash S items []) \<longrightarrow> same_dicts s' x)
    \<and> set_sources E S acct fd items False True later d' =
        (Inr (set_result (feed_hashes acct fd d') (feed_hashes acct fd d')), d')"
  using set_sources_hashes[OF assms] set_sources_rows(1,2)[OF assms] set_sources_twice[OF assms, of later] by blast

theorem set_sources_reconciles_witness:
  "\<exists>d'. set_sources sample_env sample_source_env 100 sample_feed sample_inputs False True 10 sample_sourced =
      (Inr \<lparr>sr_added = 1, sr_removed = 1, sr_persisted = 0, sr_source_count = 1\<rparr>, d')
    \<and> feed_hashes 100 sample_feed d' = {hash_spec sample_source_env sample_spec}"
proof -
  obtain d' where run: "set_sources sample_env sample_source_env 100 sample_feed sample_inputs False True 10 sample_sourced =
      (Inr \<lparr>sr_added = 1, sr_removed = 1, sr_persisted = 0, sr_source_count = 1\<rparr>, d')"
    using sample_set_sources by (metis prod.collapse)
  from set_sources_reconciles[OF this] run show ?thesis by (simp add: sample_inputs_def)
qed

text \<open>C27: A poll of a source loses nothing. When it returns, the connector's stream ended without an error,
  every payload it yielded is in the feed's item log, the observed count is theirs, and the source's
  mark is at the newest of them (never behind where it was); when it raises, the mark has not moved, so
  the next poll reads from the same point.\<close>

theorem poll_source_lossless:
  shows "case poll_source E S P acct fd cfg src spec d of
      (Inl e, d') \<Rightarrow> sources d' = sources d
    | (Inr (obs, rcd), d') \<Rightarrow>
        \<exists>poll since pls. connector_of P (SOURCE_KIND spec) = Some poll \<and> so_last_event src = Some since
          \<and> poll spec since (dict_union (default_field_map cfg) (so_field_map src)) (calls d) = (pls, None)
          \<and> obs = length pls \<and> list_all (\<lambda>pl. logged fd pl d') pls
          \<and> (src \<in> set (sources d) \<and> so_account src = acct \<longrightarrow>
              src\<lparr>so_last_event := Some (Max (insert since ((\<lambda>p. instant_of (pl_occurred p)) ` set pls)))\<rparr> \<in> set (sources d'))"
proof -
  obtain r d' where run: "poll_source E S P acct fd cfg src spec d = (r, d')" by fastforce
  show ?thesis
  proof (cases r)
    case (Inl e)
    then show ?thesis using poll_source_failed[of E S P acct fd cfg src spec d e d'] run by simp
  next
    case (Inr n)
    obtain obs rcd where n: "n = (obs, rcd)" by fastforce
    show ?thesis unfolding run Inr n prod.case sum.case by (rule poll_source_ok[OF run[unfolded Inr n]])
  qed
qed

theorem poll_source_lossless_witness:
  "\<exists>d'. poll_source sample_env sample_source_env sample_poll 100 sample_feed \<lparr>retention_days = 30, default_field_map = []\<rparr>
      sample_source (HackerNewsCommentSourceSpec ''hol'' Match_All) sample_sourced = (Inr (1, 1), d')
    \<and> logged sample_feed sample_payload d' \<and> sample_source\<lparr>so_last_event := Some 7\<rparr> \<in> set (sources d')"
proof -
  obtain d' where run: "poll_source sample_env sample_source_env sample_poll 100 sample_feed
      \<lparr>retention_days = 30, default_field_map = []\<rparr> sample_source (HackerNewsCommentSourceSpec ''hol'' Match_All) sample_sourced
      = (Inr (1, 1), d')" using sample_poll_source by (metis prod.collapse)
  with poll_source_lossless[where E = sample_env and S = sample_source_env and P = sample_poll and acct = 100
      and fd = sample_feed and cfg = "\<lparr>retention_days = 30, default_field_map = []\<rparr>" and src = sample_source
      and spec = "HackerNewsCommentSourceSpec ''hol'' Match_All" and d = sample_sourced]
  show ?thesis
    by (intro exI[of _ d']) (simp add: sample_poll_def sample_sourced_def sample_source_def sample_db_def sample_payload_def instant_of_def)
qed

text \<open>C28: A poll of a feed touches of the source rows only the marks of the feed's own sources, and moves them
  only forward. Of the item log it removes at most what the feed's retention lets go, and nothing at
  all when every source of the feed failed.\<close>

theorem poll_feed_safe:
  assumes "shuffles P" "load_feed_config S fd = Inr cfg" "poll_run E S P fd now d = (res, d')"
  shows "list_all2 (moved (feed_source_ids (f_account fd) fd d)) (sources d) (sources d')
    \<and> list_all (\<lambda>i. retained P fd cfg now i \<longrightarrow> i \<in> set (feed_items d')) (feed_items d)
    \<and> (fst (poll_cycle E S P (f_account fd) fd cfg d) = Inr (obs, rcd, 0) \<and> filter (of_feed (f_account fd) fd) (sources d) \<noteq> [] \<longrightarrow>
        list_all (\<lambda>i. i \<in> set (feed_items d')) (feed_items d))"
  using poll_run_safe(1)[OF assms] poll_run_safe(2)[OF assms] poll_run_safe(3)[OF assms, of obs rcd]
  by (auto simp: list_all_iff)

theorem poll_feed_safe_witness:
  "\<exists>d'. poll_run sample_env sample_source_env sample_poll sample_feed 10 sample_sourced =
      (Inr \<lparr>pr_observed = 1, pr_recorded = 1, pr_pruned = 0\<rparr>, d')
    \<and> list_all2 (moved {13}) [sample_source] (sources d')"
proof -
  obtain d' where run: "poll_run sample_env sample_source_env sample_poll sample_feed 10 sample_sourced =
      (Inr \<lparr>pr_observed = 1, pr_recorded = 1, pr_pruned = 0\<rparr>, d')" using sample_poll_run by (metis prod.collapse)
  have "feed_source_ids 100 sample_feed sample_sourced = {13}" "sources sample_sourced = [sample_source]"
    "f_account sample_feed = 100"
    by (simp_all add: feed_source_ids_def sample_sourced_def sample_source_def of_feed_def sample_feed_def)
  with poll_feed_safe[OF sample_shuffles sample_config run, THEN conjunct1] run show ?thesis by simp
qed

text \<open>C29: The combined reddit requests are within the length the service accepts: the subs of a poll are
  fetched once each, whatever case their rows write them in, in the order they came, and the joined
  slugs of each request with the fixed part of the URL stay within the limit.\<close>

theorem reddit_requests_bounded:
  assumes "list_all (\<lambda>p. length (snd p) \<le> MAX_SUBREDDIT_LENGTH) (parse_reddit S {} srcs)"
  shows "concat (iter_url_budget_chunks (parse_reddit S {} srcs)) = parse_reddit S {} srcs
    \<and> distinct (map (lower \<circ> snd) (parse_reddit S {} srcs))
    \<and> list_all (\<lambda>c. c \<noteq> [] \<and> joined_length c + COMBINED_URL_OVERHEAD \<le> MAX_COMBINED_URL_BYTES)
        (iter_url_budget_chunks (parse_reddit S {} srcs))"
  using assms iter_url_budget_chunks[of "parse_reddit S {} srcs"] parse_reddit[of S "{}" srcs] by (simp add: list_all_iff)

theorem reddit_requests_bounded_witness:
  "map (map snd) (iter_url_budget_chunks (parse_reddit (sample_source_env\<lparr>spec_adapter := \<lambda>b. Some sample_spec\<rparr>) {}
      [sample_source, sample_source])) = [[''isabelle'']]
    \<and> concat (iter_url_budget_chunks (parse_reddit (sample_source_env\<lparr>spec_adapter := \<lambda>b. Some sample_spec\<rparr>) {}
      [sample_source, sample_source])) = [(sample_source, ''isabelle'')]"
proof -
  let ?S = "sample_source_env\<lparr>spec_adapter := \<lambda>b. Some sample_spec\<rparr>"
  have pairs: "parse_reddit ?S {} [sample_source, sample_source] = [(sample_source, ''isabelle'')]"
    by (simp add: sample_spec_def)
  have "list_all (\<lambda>p. length (snd p) \<le> MAX_SUBREDDIT_LENGTH) (parse_reddit ?S {} [sample_source, sample_source])"
    unfolding pairs by (simp add: MAX_SUBREDDIT_LENGTH_def)
  from reddit_requests_bounded[OF this] show ?thesis unfolding pairs
    by (simp add: iter_url_budget_chunks_def)
qed

text \<open>C30: A stored spec is canonical: what validation accepts it accepts unchanged, it keeps its kind, a plugin
  spec never has a built-in kind, and two built-in specs with one canonical string are one spec.\<close>

theorem spec_identity:
  assumes "inj dumps" "spec_validate s = Some t" "spec_validate s' = Some t'"
  shows "spec_validate t = Some t \<and> SOURCE_KIND t = SOURCE_KIND s
    \<and> (case t of PluginSourceSpec k extra \<Rightarrow> k \<notin> BUILTIN_SOURCE_KINDS | _ \<Rightarrow> True)
    \<and> (builtin_spec t \<and> builtin_spec t' \<and> canonical_spec dumps t = canonical_spec dumps t' \<longrightarrow> t = t')"
  using spec_validate_idem[OF assms(2)] spec_validate_kind[OF assms(2)] canonical_inj[OF assms(1)] assms(2)
  by (auto split: source_spec.split dest: plugin_never_builtin)

theorem spec_identity_witness:
  "spec_validate (RedditSubredditSourceSpec '' /r/Isabelle '') = Some sample_spec \<and> spec_validate sample_spec = Some sample_spec"
proof -
  have v: "spec_validate (RedditSubredditSourceSpec '' /r/Isabelle '') = Some sample_spec" by code_simp
  show ?thesis using v spec_identity[OF sample_dumps_inj v v] by simp
qed

section \<open>Secrets\<close>

text \<open>C31: A config that is read masked and written back unchanged is the stored config: the merge restores the
  webhook URL and every header value. The masked form is always recognised as one, and an edit of the
  headers that returns has, in every header, a submitted value that is not the mask or the stored one.\<close>

theorem secrets_round_trip:
  assumes "distinct (map fst hs)"
  shows "merge_preserving pm (redacted_dump (WebhookConfig dl i u m hs inc)) (WebhookConfig dl i u m hs inc) =
      Inr (WebhookConfig dl i u m hs inc)
    \<and> has_masked_secret pmask (redacted_dump (WebhookConfig dl i u m hs inc))
    \<and> (merge_headers hs sub = Inr hs' \<longrightarrow>
        list_all (\<lambda>p. (p \<in> set sub \<and> snd p \<noteq> REDACTED) \<or> p \<in> set hs) hs')"
  using merge_headers_masked[OF assms subset_refl] merge_headers_values[of hs sub hs']
  by (auto simp: looks_redacted_redact_url list_all_iff)

theorem secrets_round_trip_witness:
  "merge_preserving (\<lambda>c p. Inr c) (redacted_dump (WebhookConfig INSTANT 0 ''https://h/x?k=1'' POST [(''a'', ''b'')] []))
     (WebhookConfig INSTANT 0 ''https://h/x?k=1'' POST [(''a'', ''b'')] []) =
   Inr (WebhookConfig INSTANT 0 ''https://h/x?k=1'' POST [(''a'', ''b'')] [])"
  by (rule secrets_round_trip[THEN conjunct1]) simp
section \<open>Connectors and actions\<close>

text \<open>C32: A poll of a Hacker News source over the built-in connector loses nothing. Over an index that stands
  still, with fewer than a page of hits in any one second and a backlog that fits the pages of one poll,
  the poll returns and every hit from the second of the mark on is in the feed's item log, whatever the
  page boundaries cut.\<close>

theorem hn_poll_loses_nothing:
  assumes "search_of (cw_hn W (calls d)) spec = Some sq"
    and "hn_service ALGOLIA (cw_hn W (calls d)) sq (Some since) rows" "sorted_wrt (\<lambda>a b. fst b \<le> fst a) rows"
    and "\<And>s. at_second (filter (in_window (Some since) None) rows) s \<le> k" "k < 100"
    and "length (filter (in_window (Some since) None) rows) \<le> 50 * (100 - k)"
    and "so_last_event src = Some since" "f_account fd = acct"
  shows "\<exists>obs rcd d'. poll_source E S (with_connectors W P) acct fd cfg src spec d = (Inr (obs, rcd), d')
    \<and> (\<forall>r \<in> set rows. since_second since \<le> fst r \<longrightarrow> logged fd (snd r) d')"
  using assms by (rule hn_source_logged)

theorem hn_poll_loses_nothing_witness:
  "\<exists>obs rcd d'. poll_source sample_env sample_source_env (with_connectors sample_connectors sample_poll) 100 sample_feed
      \<lparr>retention_days = 30, default_field_map = []\<rparr> sample_source (HackerNewsCommentSourceSpec ''hol'' Match_All) sample_sourced
      = (Inr (obs, rcd), d')
    \<and> logged sample_feed sample_comment d'"
proof -
  have search: "search_of (cw_hn sample_connectors n) (HackerNewsCommentSourceSpec ''hol'' Match_All) = Some sample_comment_search" for n
    by (simp add: sample_connectors_def sample_comment_search_def)
  have service: "hn_service ALGOLIA (cw_hn sample_connectors n) sample_comment_search (Some 2) [(5, sample_comment)]" for n
    using sample_hn_service by (simp add: sample_connectors_def)
  have "at_second (filter (in_window (Some 2) None) [(5, sample_comment)]) s \<le> 1" for s
    by (simp add: at_second_def)
  from hn_poll_loses_nothing[OF search service _ this]
  show ?thesis by (force simp: sample_source_def sample_feed_def since_second_def py_int_def)
qed

text \<open>C33: A combined reddit request of a chunk of sources loses nothing. Over a listing that stands still, whose
  posts since the oldest mark of the chunk fit the depth of the walk, the request returns and every post
  of each sub from that sub's own mark on is in the feed's item log.\<close>

theorem reddit_chunk_loses_nothing:
  assumes "serves (cw_reddit W (calls d)) (listing_url (filter (\<lambda>s. s \<noteq> []) (map strip (map snd chunk)))) es"
    and "distinct (map entry_id es)"
    and "list_all2 (\<lambda>e pl. entry_payload (rd_text (cw_reddit W (calls d))) e = Some pl) es pls"
    and "sorted_wrt (\<lambda>a b. instant_of (pl_occurred b) \<le> instant_of (pl_occurred a)) pls"
    and "length (filter (fresh_enough (min_mark (List.map_filter (\<lambda>(src, sub). so_last_event src) chunk))) pls)
      \<le> 1000 * length (filter (\<lambda>s. s \<noteq> []) (map strip (map snd chunk)))"
    and "filter (\<lambda>s. s \<noteq> []) (map strip (map snd chunk)) \<noteq> []"
    and "\<forall>(src, sub) \<in> set chunk. so_last_event src \<noteq> None" "f_account fd = acct"
  shows "\<exists>out d'. poll_chunk E S (\<lambda>subs since n. poll_combined (cw_reddit W n) subs since) acct fd chunk d = (Inr out, d')
    \<and> (\<forall>(src, sub) \<in> set chunk. \<forall>pl \<in> set (bucket src sub pls). logged fd pl d')"
  using assms by (rule reddit_chunk_logged)

theorem reddit_chunk_loses_nothing_witness:
  "\<exists>out d'. poll_chunk sample_env sample_source_env (\<lambda>subs since n. poll_combined (cw_reddit sample_connectors n) subs since) 100
      sample_feed [(sample_source, ''isabelle'')] sample_sourced = (Inr out, d')
    \<and> logged sample_feed sample_post d'"
proof -
  let ?chunk = "[(sample_source, ''isabelle'')]"
  have sub: "filter (\<lambda>s. s \<noteq> []) (map strip (map snd ?chunk)) = [''isabelle'']"
    by (simp add: strip_def is_space_def)
  have posts: "list_all2 (\<lambda>e pl. entry_payload (rd_text (cw_reddit sample_connectors (calls sample_sourced))) e = Some pl)
      [sample_entry] [sample_post]"
    using sample_entry_payload(1) by (simp add: sample_connectors_def)
  have service: "serves (cw_reddit sample_connectors (calls sample_sourced))
      (listing_url (filter (\<lambda>s. s \<noteq> []) (map strip (map snd ?chunk)))) [sample_entry]"
    using sample_serves by (simp add: sample_connectors_def)
  have depth: "length (filter (fresh_enough m) [sample_post]) \<le> 1000 * length (filter (\<lambda>s. s \<noteq> []) (map strip (map snd ?chunk)))" for m
    unfolding sub by simp
  have marked: "\<forall>(src, sub) \<in> set ?chunk. so_last_event src \<noteq> None" "f_account sample_feed = 100"
    by (simp_all add: sample_source_def sample_feed_def)
  obtain out d' where ran: "poll_chunk sample_env sample_source_env
      (\<lambda>subs since n. poll_combined (cw_reddit sample_connectors n) subs since) 100 sample_feed ?chunk sample_sourced = (Inr out, d')"
    and all: "\<forall>(src, sub) \<in> set ?chunk. \<forall>pl \<in> set (bucket src sub [sample_post]). logged sample_feed pl d'"
    using reddit_chunk_loses_nothing[OF service _ posts _ depth _ marked, of sample_env sample_source_env] unfolding sub by auto
  have "sample_post \<in> set (bucket sample_source ''isabelle'' [sample_post])"
    by (simp add: bucket_def sample_entry_payload sample_source_def seconds_def)
  then have "logged sample_feed sample_post d'" using all by simp
  with ran show ?thesis by blast
qed

text \<open>C34: What an item makes the server itself connect to is never in the server's own network. Whatever URL an
  item names, every socket the preparation of an LLM action opens goes to an address no range blocks,
  redirects included, and though every lookup of a name may answer differently from the one before. The
  sidecar is handed a URL only if it has the shape of a web URL and, right before, its host was a public
  address or was looked up without a blocked address in the answer; where the sidecar then connects is
  its own. The article that reaches the model has at most 20000 characters.\<close>

theorem untrusted_egress_cleared:
  "cleared (fst (engine_prepare A E n a items))
    \<and> (case snd (engine_prepare A E n a items) of
         Prepared c p (Some text) st \<Rightarrow> text \<noteq> [] \<and> length text \<le> 20000
       | _ \<Rightarrow> True)"
  using prepare_cleared[of A E n a items] prepare_text[of A E n a items]
  by (auto split: prepared.split option.split)

text \<open>C35: The outcome of a webhook delivery is exact. A destination the policy blocks errs for
  good, whatever a call to it would answer; a transport error is retried; a call that is answered succeeds exactly on a 2xx, is retried on
  408, 429 and server errors, and errs for good on a redirect or any other client error. Every outcome
  carries the audit record of the call, with the number of items, the payload and the status.\<close>

theorem webhook_outcome_exact:
  assumes "load_config E a = Inr (WebhookConfig d i u m hs inc)" "webhook_run A E n a items cx = Some out"
  shows "case out of
      ActionResult st res err \<Rightarrow> False
    | OutboundActionResult st res err c \<Rightarrow>
        oc_item_count c = length items \<and> oc_payload c = payload_dump A (build_payload a inc items cx)
        \<and> (if snd (destination_block_reason (getaddrinfo (web_at A n)) (WEBHOOK_REQUIRE_HTTPS E) (WEBHOOK_BLOCK_PRIVATE_IPS E) True u []) \<noteq> Inr None
           then st = ERRORED \<and> oc_status c = None
           else case http_send A n (method_value m) u (JObj (payload_dump A (build_payload a inc items cx))) hs of
                  Inl e \<Rightarrow> e = HTTPError \<and> st = FAILED \<and> oc_status c = None
                | Inr code \<Rightarrow> st = delivered_state code \<and> oc_status c = Some code)"
  using assms by (rule webhook_outcome)

theorem webhook_outcome_exact_witness:
  "\<exists>st res err c. webhook_run sample_actions sample_hook_env 0 sample_hook [] sample_hook_context = Some (OutboundActionResult st res err c)
    \<and> st = ERRORED \<and> oc_status c = Some 404"
proof -
  obtain out where out: "webhook_run sample_actions sample_hook_env 0 sample_hook [] sample_hook_context = Some out"
    using sample_hook_run by blast
  from webhook_outcome_exact[OF sample_hook_config out] sample_hook_gate sample_hook_answer show ?thesis
    by (cases out) (auto simp: out delivered_state_def)
qed

section \<open>Credentials\<close>



text \<open>C37: The life of a personal access token. A minted token signs its owner in until it expires and not
  after; once its owner has revoked it, no sequence of mints, uses and revocations by anybody makes it
  sign anyone in again.\<close>

theorem pat_lifecycle:
  assumes "token_table d" "cli_token_mint A u name days now d = (Inr (t, raw), d')" "user_get (u_id u) d = Some u"
  shows "fst (cli_token_resolve A raw checked later stored d') =
      (if (case days of None \<Rightarrow> True | Some n \<Rightarrow> checked < now + seconds (n * 86400)) then Some u else None)
    \<and> fst (cli_token_resolve A raw checked later stored
        (fold (pat_step A) ops (snd (cli_token_revoke u (ct_id t) revoked (fold (pat_step A) before d'))))) = None"
proof
  show "fst (cli_token_resolve A raw checked later stored d') =
      (if (case days of None \<Rightarrow> True | Some n \<Rightarrow> checked < now + seconds (n * 86400)) then Some u else None)"
    by (rule mint_resolves[OF assms])
  show "fst (cli_token_resolve A raw checked later stored
      (fold (pat_step A) ops (snd (cli_token_revoke u (ct_id t) revoked (fold (pat_step A) before d'))))) = None"
    using revoked_for_good[OF assms(1,2)] by (rule dead_unresolved)
qed

theorem pat_lifecycle_witness:
  "fst (cli_token_resolve sample_auth ''mgp_tok'' 5 5 True
     (snd (cli_token_mint sample_auth sample_user '' box '' (Some 30) 0 sample_accounts))) = Some sample_user"
proof -
  obtain t d' where run: "cli_token_mint sample_auth sample_user '' box '' (Some 30) 0 sample_accounts = (Inr (t, ''mgp_tok''), d')"
    using sample_mint
    by (cases "cli_token_mint sample_auth sample_user '' box '' (Some 30) 0 sample_accounts";
        cases "fst (cli_token_mint sample_auth sample_user '' box '' (Some 30) 0 sample_accounts)") auto
  have "token_table sample_accounts" "user_get (u_id sample_user) sample_accounts = Some sample_user"
    by (simp_all add: token_table_def user_get_def sample_accounts_def)
  from pat_lifecycle[OF this(1) run this(2), of 5 5 True] run show ?thesis by (simp add: seconds_def)
qed
section \<open>Mail and links\<close>



text \<open>C39: A visitor whose address is known is counted once. Over a cache that keeps what it stores for its
  timeout, whatever hits come in within the dedup window, on whatever links, from whomever and however they
  overlap, a visitor gets no more clicks on a link than it has hits in the middle of their cache add at once:
  one if they do not overlap, and a double write only if two do. A hit whose address is unknown or whose
  cache fails, and whose referer parses, is written every time.\<close>

theorem click_recorded_once:
  assumes "cache_laws C"
  shows "(h \<noteq> [] \<and> sorted (map event_time es)
      \<and> (\<forall>e \<in> set es. t \<le> event_time e \<and> event_time e < t + seconds CLICK_DEDUP_WINDOW_SECONDS)
      \<and> overlap_at_most L C n i h es w \<longrightarrow>
        clicks_of i h (hw_db (hits_run L C es w)) \<le> clicks_of i h (hw_db w) + n)
    \<and> ((visitor_hash L r = [] \<or> \<not> up) \<and> referer_origin (meta_or ''HTTP_REFERER'' r) = Inr ref \<longrightarrow>
        length (clicks (fst (record_click L C up True l r now ds))) = Suc (length (clicks (fst ds))))"
  using hits_bounded[OF assms] record_click_open by blast

theorem click_recorded_once_witness:
  "clicks_of 1 ''#9.9.9.9'' (hw_db (hits_run sample_links table_cache sample_hits sample_hit_world)) \<le> 2"
proof -
  have "sorted (map event_time sample_hits)"
    "\<forall>e \<in> set sample_hits. 0 \<le> event_time e \<and> event_time e < 0 + seconds CLICK_DEDUP_WINDOW_SECONDS"
    by (simp_all add: sample_hits_def Let_def seconds_def CLICK_DEDUP_WINDOW_SECONDS_def)
  with click_recorded_once[OF table_cache_laws, THEN conjunct1, of "''#9.9.9.9''" sample_hits 0 sample_links 2 1 sample_hit_world]
    sample_hits_overlap show ?thesis by (simp add: sample_hit_world_def sample_link_db_def clicks_of_def)
qed

text \<open>C40: Telemetry obeys its switch. Whatever the processes of a server do in whatever order, an instance that is
  off, tells not to be tracked or has no key sends nothing until somebody consents, and never while the
  environment forbids it; heartbeats that were claimed are at least the interval apart; every event carries
  the one random id of the instance; and the switch of the API moves for an active owner only.\<close>

theorem telemetry_obeys_switch:
  assumes "one_identity i d" "fold (telemetry_step T) ops (d, []) = (d', ts)"
  shows "(muted T d \<and> (Consent True \<notin> set ops \<or> do_not_track T \<or> POSTHOG_API_KEY T = []) \<longrightarrow> sent d' = sent d)
    \<and> successively (\<lambda>x y. x + HEARTBEAT_MIN_INTERVAL < y) ts
    \<and> (\<forall>e \<in> set (sent d'). cap_distinct e = i)
    \<and> (\<not> is_owner uid ten \<longrightarrow> telemetry_post T uid ten body d' = (Reject 403, d'))"
proof -
  have "spaced [] d" by (simp add: spaced_def)
  from identity_history[OF assms(1) this assms(2)] have "one_identity i d'" "spaced ts d'" by blast+
  then show ?thesis
    using muted_history[of T d ops "[]"] assms(2) telemetry_post_owner by (auto simp: one_identity_def spaced_def)
qed

theorem telemetry_obeys_switch_witness:
  "sent (fst (fold (telemetry_step sample_telemetry) [Capture ''feed_created'' None, Claim_Heartbeat 5, Ask_Settings]
     (sample_telemetry_off, []))) = []"
proof -
  let ?ops = "[Capture ''feed_created'' None, Claim_Heartbeat 5, Ask_Settings]"
  obtain d' ts where run: "fold (telemetry_step sample_telemetry) ?ops (sample_telemetry_off, []) = (d', ts)" by fastforce
  from telemetry_obeys_switch[OF sample_telemetry_identity run, THEN conjunct1, THEN mp] run
  show ?thesis by (simp add: sample_telemetry_muted) (simp add: sample_telemetry_off_def)
qed

end
